(* ===== verification/Prelude.thy ===== *)
theory Prelude
  imports Main
    "HOL-Library.AList" "HOL-Library.Char_ord" "HOL-Library.List_Lexorder"
    "HOL-Library.Product_Lexorder" "HOL-Library.Multiset"
begin

text \<open>
  What every component of the model shares: the exceptions the code raises and the
  result type of an operation that may raise, loops over a list that stop at the first
  exception, decimal numerals as strings, the integer roundings of Python, and the two
  shapes of sorting the code uses.

  Conventions of the whole development.
  \<^item> A Python \<open>int\<close> is an \<open>int\<close>, a \<open>str\<close> is the list of its UTF-8 bytes, so that the
    order of \<open>HOL-Library.List_Lexorder\<close> on it is Python's order on code points.
  \<^item> A raised exception is \<open>Inl\<close> of a \<open>py_error\<close>, a returned value is \<open>Inr\<close>.
  \<^item> A \<open>dict\<close> whose insertion order can be observed is an association list updated by
    \<open>AList.update\<close> (which overwrites in place or appends, as Python does); other
    dictionaries are maps.
\<close>

section \<open>Lemma collections\<close>

named_theorems result_simps \<open>elimination of successful results of operations that may raise\<close>
named_theorems money_simps \<open>projections of the money operations\<close>

section \<open>Results of operations that may raise\<close>

datatype py_error =
    ValueError
  | CurrencyMismatch \<comment> \<open>a subclass of \<open>ValueError\<close> in \<open>rgnr8_forecast.money\<close>\<close>
  | StatisticsError
  | KeyError string
  | IndexError
  | OverflowError
  | ZeroDivisionError
  | BillingError
  | EntitlementError \<comment> \<open>a subclass of \<open>BillingError\<close> in \<open>rgnr8_billing.service\<close>\<close>
  | RuntimeError
  | TypeError
  | AssertionError
  | SecretCipherError
  | TransportError string
  | AuthError string
  | AttributeError
  | NamedError string \<comment> \<open>an exception class of a package, by its name\<close>
  | Mistyped \<comment> \<open>no exception: a value of another type than declared was stored\<close>

type_synonym 'a res = "py_error + 'a"

definition res_bind :: "'a res \<Rightarrow> ('a \<Rightarrow> 'b res) \<Rightarrow> 'b res" where
  "res_bind m f = (case m of Inl e \<Rightarrow> Inl e | Inr x \<Rightarrow> f x)"

lemma res_bind_simps [simp]:
  "res_bind (Inl e) f = Inl e"
  "res_bind (Inr x) f = f x"
  by (simp_all add: res_bind_def)

lemma res_bind_cong [fundef_cong]:
  "m = n \<Longrightarrow> (\<And>x. n = Inr x \<Longrightarrow> f x = g x) \<Longrightarrow> res_bind m f = res_bind n g"
  by (cases n) simp_all

lemma res_bind_Inr [result_simps]:
  "res_bind m f = Inr y \<longleftrightarrow> (\<exists>x. m = Inr x \<and> f x = Inr y)"
  by (cases m) simp_all

lemma res_bind_Inl:
  "res_bind m f = Inl e \<longleftrightarrow> m = Inl e \<or> (\<exists>x. m = Inr x \<and> f x = Inl e)"
  by (cases m) auto

definition is_ok :: "'a res \<Rightarrow> bool" where
  "is_ok r = (case r of Inl _ \<Rightarrow> False | Inr _ \<Rightarrow> True)"

lemma is_ok_simps [simp]: "is_ok (Inr x)" "\<not> is_ok (Inl e)"
  by (simp_all add: is_ok_def)

text \<open>A \<open>for\<close> loop over a list whose body may raise, with its accumulator.\<close>

primrec fold_res :: "('a \<Rightarrow> 's \<Rightarrow> 's res) \<Rightarrow> 'a list \<Rightarrow> 's \<Rightarrow> 's res" where
  "fold_res f [] s = Inr s"
| "fold_res f (x # xs) s = res_bind (f x s) (fold_res f xs)"

text \<open>A comprehension whose element expression may raise.\<close>

primrec map_res :: "('a \<Rightarrow> 'b res) \<Rightarrow> 'a list \<Rightarrow> 'b list res" where
  "map_res f [] = Inr []"
| "map_res f (x # xs) =
     res_bind (f x) (\<lambda>y. res_bind (map_res f xs) (\<lambda>ys. Inr (y # ys)))"

lemma fold_res_append:
  "fold_res f (xs @ ys) s = res_bind (fold_res f xs s) (fold_res f ys)"
proof (induction xs arbitrary: s)
  case (Cons x xs)
  then show ?case by (cases "f x s") simp_all
qed simp

lemma fold_res_invariant:
  assumes "fold_res f xs s = Inr t" and "P s"
    and "\<And>x s t. x \<in> set xs \<Longrightarrow> P s \<Longrightarrow> f x s = Inr t \<Longrightarrow> P t"
  shows "P t"
  using assms
proof (induction xs arbitrary: s)
  case (Cons x xs)
  then obtain u where u: "f x s = Inr u" "fold_res f xs u = Inr t"
    by (auto simp: result_simps)
  with Cons.prems have "P u" by (meson list.set_intros(1))
  with u Cons show ?case by (meson list.set_intros(2))
qed simp

lemma fold_res_total: "(\<And>x s. x \<in> set xs \<Longrightarrow> f x s = Inr (g x s)) \<Longrightarrow> fold_res f xs s = Inr (fold g xs s)"
  by (induction xs arbitrary: s) auto

lemma map_res_Inr:
  "map_res f xs = Inr ys \<longleftrightarrow> list_all2 (\<lambda>x y. f x = Inr y) xs ys"
proof (induction xs arbitrary: ys)
  case Nil
  then show ?case by (cases ys) auto
next
  case (Cons x xs)
  then show ?case by (cases ys) (auto simp: result_simps)
qed

lemma map_res_total: "(\<And>x. x \<in> set xs \<Longrightarrow> f x = Inr (g x)) \<Longrightarrow> map_res f xs = Inr (map g xs)"
  by (induction xs) auto

section \<open>Rounding to an integer\<close>

text \<open>
  Python's \<open>//\<close> and \<open>%\<close> floor, as \<open>div\<close> and \<open>mod\<close> on \<open>int\<close> do. \<open>round(x)\<close> on a
  \<open>float\<close> goes to the nearest integer, ties to the even one. Where the code rounds the
  quotient of two integers the model rounds the exact quotient: the double nearest to
  \<open>n / d\<close> is a tie exactly when \<open>n / d\<close> is, as long as \<open>2 * d\<close> and the quotient stay below
  \<open>2 ^ 46\<close>.
\<close>

definition round_half_even :: "int \<Rightarrow> int \<Rightarrow> int" where
  "round_half_even num den =
     (let n = (if den < 0 then - num else num); d = \<bar>den\<bar>; q = n div d; r = n mod d
      in if d < 2 * r \<or> (2 * r = d \<and> odd q) then q + 1 else q)"

text \<open>The specification: a nearest integer, the even one of the two at a tie.\<close>

definition nearest_even :: "int \<Rightarrow> int \<Rightarrow> int \<Rightarrow> bool" where
  "nearest_even num den q \<longleftrightarrow>
     2 * \<bar>num - q * den\<bar> \<le> \<bar>den\<bar> \<and> (2 * \<bar>num - q * den\<bar> = \<bar>den\<bar> \<longrightarrow> even q)"

lemma nearest_even_neg: "nearest_even (- num) (- den) q = nearest_even num den q"
proof -
  have "\<bar>- num - q * - den\<bar> = \<bar>num - q * den\<bar>" by simp
  then show ?thesis by (simp only: nearest_even_def abs_minus_cancel)
qed

lemma round_half_even_neg: "den \<noteq> 0 \<Longrightarrow> round_half_even (- num) (- den) = round_half_even num den"
  by (simp add: round_half_even_def Let_def)

lemma nearest_even_round_pos:
  assumes "0 < den" shows "nearest_even num den (round_half_even num den)"
proof -
  define q r where "q = num div den" and "r = num mod den"
  have num: "num = q * den + r" by (simp add: q_def r_def)
  have r: "0 \<le> r" "r < den" using assms by (simp_all add: r_def)
  have down: "\<bar>num - q * den\<bar> = r" using r num by simp
  have "num - (q + 1) * den = r - den" by (simp add: num algebra_simps)
  then have up: "\<bar>num - (q + 1) * den\<bar> = den - r" using r by simp
  have rhe: "round_half_even num den = (if den < 2 * r \<or> (2 * r = den \<and> odd q) then q + 1 else q)"
    using assms by (simp add: round_half_even_def q_def r_def Let_def)
  show ?thesis
  proof (cases "den < 2 * r \<or> (2 * r = den \<and> odd q)")
    case True
    then have "round_half_even num den = q + 1" using rhe by simp
    moreover have "2 * (den - r) \<le> den" "2 * (den - r) = den \<longrightarrow> even (q + 1)"
      using True by auto
    ultimately show ?thesis using up assms unfolding nearest_even_def by presburger
  next
    case False
    then have "round_half_even num den = q" using rhe by simp
    moreover have "2 * r \<le> den" "2 * r = den \<longrightarrow> even q" using False by auto
    ultimately show ?thesis using down assms unfolding nearest_even_def by presburger
  qed
qed

lemma nearest_even_round:
  assumes "den \<noteq> 0" shows "nearest_even num den (round_half_even num den)"
proof (cases "0 < den")
  case False
  with assms have "nearest_even (- num) (- den) (round_half_even (- num) (- den))"
    by (intro nearest_even_round_pos) simp
  then show ?thesis by (simp only: nearest_even_neg round_half_even_neg [OF assms])
qed (rule nearest_even_round_pos)

lemma nearest_even_unique:
  assumes "den \<noteq> 0" "nearest_even num den p" "nearest_even num den q"
  shows "p = q"
proof -
  have "\<bar>(p - q) * den\<bar> = \<bar>(num - q * den) - (num - p * den)\<bar>"
    by (simp add: algebra_simps)
  also have "\<dots> \<le> \<bar>num - q * den\<bar> + \<bar>num - p * den\<bar>" by (rule abs_triangle_ineq4)
  finally have le: "2 * \<bar>(p - q) * den\<bar> \<le> 2 * \<bar>num - q * den\<bar> + 2 * \<bar>num - p * den\<bar>" by simp
  then have "2 * \<bar>(p - q) * den\<bar> \<le> 2 * \<bar>den\<bar>"
    using assms(2,3) unfolding nearest_even_def by linarith
  then have "\<bar>p - q\<bar> * \<bar>den\<bar> \<le> 1 * \<bar>den\<bar>" by (simp add: abs_mult)
  then have one: "\<bar>p - q\<bar> \<le> 1" using assms(1) by (subst (asm) mult_le_cancel_right) auto
  show ?thesis
  proof (rule ccontr)
    assume "p \<noteq> q"
    with one have d: "\<bar>p - q\<bar> = 1" by linarith
    then have "\<bar>(p - q) * den\<bar> = \<bar>den\<bar>" by (simp add: abs_mult)
    with le assms(2,3) have "2 * \<bar>num - q * den\<bar> = \<bar>den\<bar>" "2 * \<bar>num - p * den\<bar> = \<bar>den\<bar>"
      unfolding nearest_even_def by linarith+
    with assms(2,3) have "even p" "even q" unfolding nearest_even_def by blast+
    with d show False by presburger
  qed
qed

lemma round_half_even_eq_iff:
  "den \<noteq> 0 \<Longrightarrow> round_half_even num den = q \<longleftrightarrow> nearest_even num den q"
  using nearest_even_round nearest_even_unique by blast

lemma round_half_even_minus: "den \<noteq> 0 \<Longrightarrow> round_half_even (- num) den = - round_half_even num den"
proof -
  assume den: "den \<noteq> 0"
  define q where "q = round_half_even num den"
  have ne: "nearest_even num den q" using den by (simp add: q_def nearest_even_round)
  have "\<bar>- num - (- q) * den\<bar> = \<bar>num - q * den\<bar>" by simp
  then have "nearest_even (- num) den (- q)"
    using ne unfolding nearest_even_def by (metis even_minus)
  then show ?thesis using den by (simp add: round_half_even_eq_iff q_def)
qed

lemma round_half_even_exact: "den \<noteq> 0 \<Longrightarrow> round_half_even (q * den) den = q"
  by (simp add: round_half_even_eq_iff nearest_even_def)

lemma round_half_even_1 [simp]: "round_half_even n 1 = n"
  using round_half_even_exact [of 1 n] by simp

lemma round_half_even_0 [simp]: "round_half_even 0 d = 0"
  by (cases "d = 0") (simp_all add: round_half_even_def Let_def)

lemma round_half_even_mono:
  assumes "0 < den" "m \<le> n" shows "round_half_even m den \<le> round_half_even n den"
proof -
  define p q where "p = round_half_even m den" and "q = round_half_even n den"
  have ne: "nearest_even m den p" "nearest_even n den q"
    using assms by (simp_all add: p_def q_def nearest_even_round)
  have "p \<le> q"
  proof (rule ccontr)
    assume "\<not> p \<le> q"
    then have "(q + 1) * den \<le> p * den" using assms by (intro mult_right_mono) simp_all
    then have pq: "q * den + den \<le> p * den" by (simp add: algebra_simps)
    have a: "2 * (p * den) \<le> 2 * m + den" "2 * n \<le> 2 * (q * den) + den"
      using ne assms unfolding nearest_even_def by (simp_all add: abs_if split: if_splits)
    with pq assms have "m = n" by linarith
    with ne have "p = q" using nearest_even_unique [of den n p q] assms by simp
    with \<open>\<not> p \<le> q\<close> show False by simp
  qed
  then show ?thesis by (simp add: p_def q_def)
qed

lemma round_half_even_bounds:
  assumes "0 < den" "lo * den \<le> num" "num \<le> hi * den"
  shows "lo \<le> round_half_even num den" "round_half_even num den \<le> hi"
  using round_half_even_mono [OF assms(1,2)] round_half_even_mono [OF assms(1,3)]
    round_half_even_exact [of den] assms(1) by simp_all

section \<open>Integer square root\<close>

fun isqrt :: "nat \<Rightarrow> nat" where
  "isqrt n = (if n = 0 then 0
     else let r = 2 * isqrt (n div 4) in if (r + 1) * (r + 1) \<le> n then r + 1 else r)"

declare isqrt.simps [simp del]

lemma isqrt_0 [simp]: "isqrt 0 = 0"
  by (simp add: isqrt.simps)

lemma isqrt_bounds: "isqrt n * isqrt n \<le> n \<and> n < (isqrt n + 1) * (isqrt n + 1)"
proof (induction n rule: isqrt.induct)
  case (1 n)
  show ?case
  proof (cases "n = 0")
    case False
    define s where "s = isqrt (n div 4)"
    have s: "s * s \<le> n div 4" "n div 4 < (s + 1) * (s + 1)"
      using "1.IH" [OF False] by (simp_all add: s_def)
    then have "4 * (s * s) \<le> n" "n < 4 * ((s + 1) * (s + 1))" by linarith+
    then have s2: "2 * s * (2 * s) \<le> n" "n < (2 * s + 2) * (2 * s + 2)"
      by (simp_all add: algebra_simps)
    have "isqrt n = (if (2 * s + 1) * (2 * s + 1) \<le> n then 2 * s + 1 else 2 * s)"
      using False by (subst isqrt.simps) (simp add: s_def Let_def)
    with s2 show ?thesis by (simp add: not_le)
  qed simp
qed

lemma le_isqrt_iff: "m \<le> isqrt n \<longleftrightarrow> m * m \<le> n"
proof
  assume m: "m \<le> isqrt n"
  have "m * m \<le> isqrt n * isqrt n" using mult_le_mono [OF m m] .
  with isqrt_bounds [of n] show "m * m \<le> n" by simp
next
  assume "m * m \<le> n"
  show "m \<le> isqrt n"
  proof (rule ccontr)
    assume "\<not> m \<le> isqrt n"
    then have m: "isqrt n + 1 \<le> m" by simp
    have "(isqrt n + 1) * (isqrt n + 1) \<le> m * m" using mult_le_mono [OF m m] .
    with isqrt_bounds [of n] \<open>m * m \<le> n\<close> show False by simp
  qed
qed

section \<open>Decimal numerals\<close>

definition digit_char :: "nat \<Rightarrow> char" where
  "digit_char n = char_of (48 + n)"

definition digit_val :: "char \<Rightarrow> nat" where
  "digit_val c = of_char c - 48"

definition is_digit :: "char \<Rightarrow> bool" where
  "is_digit c = (48 \<le> (of_char c :: nat) \<and> (of_char c :: nat) \<le> 57)"

lemma digit_val_char [simp]: "n < 10 \<Longrightarrow> digit_val (digit_char n) = n"
  by (simp add: digit_val_def digit_char_def)

lemma is_digit_char [simp]: "n < 10 \<Longrightarrow> is_digit (digit_char n)"
  by (simp add: is_digit_def digit_char_def)

lemma digit_val_less: "is_digit c \<Longrightarrow> digit_val c < 10"
  unfolding is_digit_def digit_val_def by arith

text \<open>\<open>str(n)\<close> of a non-negative integer.\<close>

fun str_nat :: "nat \<Rightarrow> string" where
  "str_nat n = (if n < 10 then [digit_char n] else str_nat (n div 10) @ [digit_char (n mod 10)])"

declare str_nat.simps [simp del]

text \<open>\<open>str(i)\<close> and \<open>f"{i:+d}"\<close>.\<close>

definition str_int :: "int \<Rightarrow> string" where
  "str_int i = (if i < 0 then CHR ''-'' # str_nat (nat (- i)) else str_nat (nat i))"

definition str_signed :: "int \<Rightarrow> string" where
  "str_signed i = (if i < 0 then CHR ''-'' # str_nat (nat (- i)) else CHR ''+'' # str_nat (nat i))"

text \<open>\<open>int(s)\<close> of a string of ASCII digits.\<close>

definition int_of_digits :: "string \<Rightarrow> nat" where
  "int_of_digits s = foldl (\<lambda>a c. 10 * a + digit_val c) 0 s"

text \<open>\<open>str.rjust\<close>, \<open>str.ljust\<close>.\<close>

definition rjust :: "nat \<Rightarrow> char \<Rightarrow> string \<Rightarrow> string" where
  "rjust n c s = replicate (n - length s) c @ s"

definition ljust :: "nat \<Rightarrow> char \<Rightarrow> string \<Rightarrow> string" where
  "ljust n c s = s @ replicate (n - length s) c"

lemma str_nat_not_Nil [simp]: "str_nat n \<noteq> []"
  by (subst str_nat.simps) simp

lemma str_nat_digits: "list_all is_digit (str_nat n)"
proof (induction n rule: str_nat.induct)
  case (1 n)
  then show ?case by (subst str_nat.simps) simp
qed

lemma int_of_digits_Nil [simp]: "int_of_digits [] = 0"
  by (simp add: int_of_digits_def)

lemma int_of_digits_snoc [simp]: "int_of_digits (s @ [c]) = 10 * int_of_digits s + digit_val c"
  by (simp add: int_of_digits_def)

lemma int_of_digits_append:
  "int_of_digits (s @ t) = int_of_digits s * 10 ^ length t + int_of_digits t"
proof (induction t rule: rev_induct)
  case (snoc c t)
  then show ?case by (simp flip: append_assoc add: algebra_simps)
qed simp

lemma int_of_digits_zeros: "int_of_digits (replicate k CHR ''0'' @ s) = int_of_digits s"
proof (induction s rule: rev_induct)
  case Nil
  have "int_of_digits (replicate k CHR ''0'') = 0"
    by (induction k) (simp_all flip: replicate_append_same add: digit_val_def)
  then show ?case by simp
next
  case (snoc c s)
  then show ?case by (simp flip: append_assoc)
qed

lemma int_of_digits_str_nat [simp]: "int_of_digits (str_nat n) = n"
proof (induction n rule: str_nat.induct)
  case (1 n)
  show ?case
  proof (cases "n < 10")
    case True
    then show ?thesis by (subst str_nat.simps) (simp add: int_of_digits_def)
  next
    case False
    then show ?thesis using 1 by (subst str_nat.simps) simp
  qed
qed

lemma int_of_digits_less: "list_all is_digit s \<Longrightarrow> int_of_digits s < 10 ^ length s"
proof (induction s rule: rev_induct)
  case (snoc c s)
  then have "int_of_digits s + 1 \<le> 10 ^ length s" "digit_val c < 10"
    by (simp_all add: digit_val_less)
  then have "10 * (int_of_digits s + 1) \<le> 10 * 10 ^ length s" by (simp only: mult_le_mono2)
  with \<open>digit_val c < 10\<close> show ?case by simp
qed simp

lemma str_nat_inj: "str_nat m = str_nat n \<longleftrightarrow> m = n"
  by (metis int_of_digits_str_nat)

lemma str_nat_no_minus: "str_nat n \<noteq> CHR ''-'' # s"
  using str_nat_digits [of n] by (auto simp: is_digit_def)

lemma str_int_inj: "str_int i = str_int j \<longleftrightarrow> i = j"
  using str_nat_no_minus [symmetric]
  by (auto simp: str_int_def str_nat_inj str_nat_no_minus eq_nat_nat_iff)

text \<open>\<open>f"{n:,}"\<close>: the digits in groups of three from the right.\<close>

fun group_rev :: "string \<Rightarrow> string" where
  "group_rev (a # b # c # d # s) = a # b # c # CHR '','' # group_rev (d # s)"
| "group_rev s = s"

definition str_grouped :: "nat \<Rightarrow> string" where
  "str_grouped n = rev (group_rev (rev (str_nat n)))"

text \<open>
  \<open>f"{b / 100:.0f}"\<close> and \<open>f"{b / 100:.2f}"\<close> of a number of basis points: \<open>b / 100\<close> has two
  decimals, so the second is exact and the first rounds half to even.
\<close>

definition fmt_hundredths0 :: "int \<Rightarrow> string" where
  "fmt_hundredths0 b =
     (if b < 0 then ''-'' else []) @ str_nat (nat (round_half_even \<bar>b\<bar> 100))"

definition fmt_hundredths2 :: "int \<Rightarrow> string" where
  "fmt_hundredths2 b =
     (if b < 0 then ''-'' else []) @ str_nat (nat (\<bar>b\<bar> div 100)) @ ''.'' @
     rjust 2 CHR ''0'' (str_nat (nat (\<bar>b\<bar> mod 100)))"

text \<open>
  \<open>f"{b / 100:.1f}"\<close> for \<open>0 \<le> b < 2 ^ 59\<close>: the quotient as a double is \<open>n / 2 ^ e\<close> with a
  significand \<open>n\<close> of 53 bits, which is then rounded to one decimal, exactly. Below one tenth of a tie
  this is the nearest decimal; at a tie the error of the double decides.
\<close>

definition double_scale :: "int \<Rightarrow> nat" where
  "double_scale b = (case find (\<lambda>e. 100 * 2 ^ 52 \<le> b * 2 ^ e) [0..<60] of Some e \<Rightarrow> e | None \<Rightarrow> 60)"

definition fmt_tenths :: "int \<Rightarrow> string" where
  "fmt_tenths b =
     (let e = double_scale b; n = round_half_even (b * 2 ^ e) 100; t = round_half_even (n * 10) (2 ^ e)
      in str_int (t div 10) @ ''.'' @ str_int (t mod 10))"

section \<open>Sorting and maxima as Python has them\<close>

text \<open>
  \<open>sorted(xs, key=k)\<close> is stable: it is \<open>sort_key k xs\<close>. With \<open>reverse=True\<close> equal
  elements keep their order as well.
\<close>

definition sort_key_reverse :: "('a \<Rightarrow> 'k::linorder) \<Rightarrow> 'a list \<Rightarrow> 'a list" where
  "sort_key_reverse k xs = rev (sort_key k (rev xs))"

lemma mset_sort_key_reverse [simp]: "mset (sort_key_reverse k xs) = mset xs"
  by (simp add: sort_key_reverse_def)

lemma set_sort_key_reverse [simp]: "set (sort_key_reverse k xs) = set xs"
  by (simp add: sort_key_reverse_def)

lemma sorted_sort_key_reverse: "sorted_wrt (\<lambda>x y. k y \<le> k x) (sort_key_reverse k xs)"
proof -
  have "sorted_wrt (\<lambda>x y. k x \<le> k y) (sort_key k (rev xs))"
    using sorted_sort_key [of k "rev xs"] by (simp add: sorted_wrt_map)
  then show ?thesis by (simp add: sort_key_reverse_def sorted_wrt_rev)
qed

text \<open>\<open>max(xs, key=k)\<close> of a non-empty sequence: the first of the largest.\<close>

fun max_by :: "('a \<Rightarrow> 'k::linorder) \<Rightarrow> 'a \<Rightarrow> 'a list \<Rightarrow> 'a" where
  "max_by k b [] = b"
| "max_by k b (x # xs) = max_by k (if k b < k x then x else b) xs"

lemma max_by_mem: "max_by k b xs \<in> insert b (set xs)"
proof (induction xs arbitrary: b)
  case (Cons x xs)
  then show ?case using Cons.IH [of x] Cons.IH [of b] by auto
qed simp

lemma max_by_ge: "x \<in> insert b (set xs) \<Longrightarrow> k x \<le> k (max_by k b xs)"
proof (induction xs arbitrary: b x)
  case (Cons y ys)
  let ?b = "if k b < k y then y else b"
  have IH: "k z \<le> k (max_by k ?b ys)" if "z \<in> insert ?b (set ys)" for z
    using Cons.IH that by blast
  have "k b \<le> k ?b" "k y \<le> k ?b" by auto
  then show ?case using Cons.prems IH [of ?b] IH [of x] by fastforce
qed simp

section \<open>Bytes of the non-ASCII characters the code prints\<close>

definition em_dash :: string where
  "em_dash = [CHR 0xE2, CHR 0x80, CHR 0x94]"

definition plus_minus :: string where
  "plus_minus = [CHR 0xC2, CHR 0xB1]"

text \<open>
  Printing of a concrete number is evaluated by the simplifier with this bundle; the digits
  themselves are computed once.
\<close>

lemma digit_char_eval:
  "digit_char 0 = CHR ''0''" "digit_char (Suc 0) = CHR ''1''" "digit_char 1 = CHR ''1''"
  "digit_char 2 = CHR ''2''" "digit_char 3 = CHR ''3''" "digit_char 4 = CHR ''4''"
  "digit_char 5 = CHR ''5''" "digit_char 6 = CHR ''6''" "digit_char 7 = CHR ''7''"
  "digit_char 8 = CHR ''8''" "digit_char 9 = CHR ''9''"
  by code_simp+

lemmas string_eval =
  str_nat.simps digit_char_eval str_int_def str_signed_def rjust_def ljust_def
  str_grouped_def int_of_digits_def digit_val_def is_digit_def fmt_hundredths0_def
  fmt_hundredths2_def round_half_even_def Let_def

section \<open>Calls that may not return\<close>

text \<open>
  \<open>None\<close> is a call that never returns, \<open>Some\<close> one that returns a value or raises. The loops
  of the code without a termination argument are \<open>partial_function (option)\<close> of this type.
\<close>

type_synonym 'a run = "'a res option"

definition run_bind :: "'a run \<Rightarrow> ('a \<Rightarrow> 'b run) \<Rightarrow> 'b run" where
  "run_bind m f = (case m of None \<Rightarrow> None | Some (Inl e) \<Rightarrow> Some (Inl e) | Some (Inr x) \<Rightarrow> f x)"

lemma run_bind_simps [simp]:
  "run_bind None f = None"
  "run_bind (Some (Inl e)) f = Some (Inl e)"
  "run_bind (Some (Inr x)) f = f x"
  by (simp_all add: run_bind_def)

lemma run_bind_Inr [result_simps]:
  "run_bind m f = Some (Inr y) \<longleftrightarrow> (\<exists>x. m = Some (Inr x) \<and> f x = Some (Inr y))"
  by (auto simp: run_bind_def split: option.splits sum.splits)

lemma run_bind_assoc: "run_bind (run_bind x f) g = run_bind x (\<lambda>y. run_bind (f y) g)"
  by (simp add: run_bind_def split: option.splits sum.splits)

lemma run_bind_returns:
  "m \<noteq> None \<Longrightarrow> (\<And>x. m = Some (Inr x) \<Longrightarrow> f x \<noteq> None) \<Longrightarrow> run_bind m f \<noteq> None"
  by (auto simp: run_bind_def split: option.splits sum.splits)

primrec fold_run :: "('a \<Rightarrow> 's \<Rightarrow> 's run) \<Rightarrow> 'a list \<Rightarrow> 's \<Rightarrow> 's run" where
  "fold_run f [] s = Some (Inr s)"
| "fold_run f (x # xs) s = run_bind (f x s) (fold_run f xs)"

lemma fold_run_returns: "(\<And>x s. x \<in> set xs \<Longrightarrow> f x s \<noteq> None) \<Longrightarrow> fold_run f xs s \<noteq> None"
proof (induction xs arbitrary: s)
  case (Cons x xs)
  then have "fold_run f xs t \<noteq> None" for t by (meson list.set_intros(2))
  moreover have "f x s \<noteq> None" using Cons.prems by (meson list.set_intros(1))
  ultimately show ?case unfolding fold_run.simps by (intro run_bind_returns)
qed simp

lemma fold_run_invariant:
  assumes "fold_run f xs s = Some (Inr t)" and "P s"
    and "\<And>x s t. x \<in> set xs \<Longrightarrow> P s \<Longrightarrow> f x s = Some (Inr t) \<Longrightarrow> P t"
  shows "P t"
  using assms
proof (induction xs arbitrary: s)
  case (Cons x xs)
  then obtain u where u: "f x s = Some (Inr u)" "fold_run f xs u = Some (Inr t)"
    by (auto simp: result_simps)
  with Cons.prems have "P u" by (meson list.set_intros(1))
  with u Cons show ?case by (meson list.set_intros(2))
qed simp

lemma list_all2_left: "list_all2 R xs ys \<Longrightarrow> x \<in> set xs \<Longrightarrow> \<exists>y\<in>set ys. R x y"
  by (induction rule: list_all2_induct) auto

lemma find_SomeD: "find P xs = Some x \<Longrightarrow> x \<in> set xs \<and> P x"
  by (induction xs) (auto split: if_splits)

lemma sort_key_Nil_iff [simp]: "sort_key k xs = [] \<longleftrightarrow> xs = []"
  by (metis length_0_conv length_sort)

section \<open>Dictionaries of numbers\<close>

text \<open>\<open>d.get(k, 0)\<close> and \<open>d[k] = d.get(k, 0) + v\<close>.\<close>

definition dict_get0 :: "('k \<times> int) list \<Rightarrow> 'k \<Rightarrow> int" where
  "dict_get0 d k = (case map_of d k of Some v \<Rightarrow> v | None \<Rightarrow> 0)"

definition dict_add :: "'k \<Rightarrow> int \<Rightarrow> ('k \<times> int) list \<Rightarrow> ('k \<times> int) list" where
  "dict_add k v d = AList.update k (dict_get0 d k + v) d"

definition dict_values_sum :: "('k \<times> int) list \<Rightarrow> int" where
  "dict_values_sum d = (\<Sum>v\<leftarrow>map snd d. v)"

lemma dict_get0_Nil [simp]: "dict_get0 [] k = 0"
  by (simp add: dict_get0_def)

lemma dict_get0_add: "dict_get0 (dict_add k v d) k' = dict_get0 d k' + (if k' = k then v else 0)"
  by (auto simp: dict_get0_def dict_add_def update_conv')

lemma dict_values_sum_add: "dict_values_sum (dict_add k v d) = dict_values_sum d + v"
proof -
  have "(\<Sum>x\<leftarrow>map snd (AList.update k (dict_get0 d k + v) d). x) = (\<Sum>x\<leftarrow>map snd d. x) + v"
    by (induction d) (auto simp: dict_get0_def)
  then show ?thesis by (simp add: dict_values_sum_def dict_add_def)
qed

text \<open>Grouping a list by a key in such a dictionary.\<close>

lemma dict_get0_group:
  "dict_get0 (fold (\<lambda>x. if P x then dict_add (k x) (v x) else id) xs d) key =
     dict_get0 d key + (\<Sum>x\<leftarrow>xs. if P x \<and> k x = key then v x else 0)"
  by (induction xs arbitrary: d) (auto simp: dict_get0_add)

lemma dict_values_sum_group:
  "dict_values_sum (fold (\<lambda>x. if P x then dict_add (k x) (v x) else id) xs d) =
     dict_values_sum d + (\<Sum>x\<leftarrow>xs. if P x then v x else 0)"
  by (induction xs arbitrary: d) (auto simp: dict_values_sum_add)

text \<open>A list sorted by a key without duplicates is determined by its elements.\<close>

lemma sorted_by_key_unique:
  assumes "sorted (map f xs)" "distinct (map f xs)" "sorted (map f ys)" "distinct (map f ys)" "set xs = set ys"
  shows "xs = ys"
proof -
  have "map f xs = map f ys" using assms by (intro sorted_distinct_set_unique) simp_all
  then show ?thesis using assms(2,5) by (intro map_inj_on [of f]) (simp_all add: distinct_map)
qed

lemma ran_map_of: "distinct (map fst t) \<Longrightarrow> ran (map_of t) = snd ` set t"
  by (rule ran_distinct)

lemma list_all_update_alist:
  "list_all P d \<Longrightarrow> P (k, v) \<Longrightarrow> list_all P (AList.update k v d)"
  by (induction d) auto

lemma list_all_delete_alist: "list_all P d \<Longrightarrow> list_all P (AList.delete k d)"
  by (induction d) auto

lemma sum_list_mset_cong: "mset xs = mset ys \<Longrightarrow> (\<Sum>x\<leftarrow>xs. f x :: int) = (\<Sum>x\<leftarrow>ys. f x)"
proof -
  assume "mset xs = mset ys"
  then have "sum_mset (image_mset f (mset xs)) = sum_mset (image_mset f (mset ys))" by (rule arg_cong)
  then show ?thesis by (simp add: sum_mset_sum_list flip: mset_map)
qed

section \<open>Strings\<close>

text \<open>\<open>str.lower\<close> on ASCII letters.\<close>

definition ascii_lower :: "string \<Rightarrow> string" where
  "ascii_lower s =
     map (\<lambda>c. let n = of_char c :: nat in if 65 \<le> n \<and> n \<le> 90 then char_of (n + 32) else c) s"

text \<open>\<open>sep.join(parts)\<close> and \<open>s.split(c)\<close> for a separator of one character.\<close>

fun join_sep :: "string \<Rightarrow> string list \<Rightarrow> string" where
  "join_sep sep [] = []"
| "join_sep sep [w] = w"
| "join_sep sep (w # v # ws) = w @ sep @ join_sep sep (v # ws)"

fun split_char :: "char \<Rightarrow> string \<Rightarrow> string list" where
  "split_char c [] = [[]]"
| "split_char c (x # s) =
     (if x = c then [] # split_char c s
      else (case split_char c s of w # ws \<Rightarrow> (x # w) # ws | [] \<Rightarrow> [[x]]))"

lemma split_char_prefix: "c \<notin> set w \<Longrightarrow> split_char c (w @ c # s) = w # split_char c s"
  by (induction w) auto

lemma split_char_no: "c \<notin> set w \<Longrightarrow> split_char c w = [w]"
  by (induction w) auto

lemma split_char_join: "list_all (\<lambda>w. c \<notin> set w) ws \<Longrightarrow> ws \<noteq> [] \<Longrightarrow> split_char c (join_sep [c] ws) = ws"
  by (induction "[c]" ws rule: join_sep.induct) (simp_all add: split_char_prefix split_char_no)

text \<open>\<open>s.startswith(p)\<close>, \<open>s.endswith(p)\<close> and \<open>s.strip()\<close> on ASCII white space.\<close>

definition starts_with :: "string \<Rightarrow> string \<Rightarrow> bool" where
  "starts_with p s \<longleftrightarrow> take (length p) s = p"

definition ends_with :: "string \<Rightarrow> string \<Rightarrow> bool" where
  "ends_with p s \<longleftrightarrow> length p \<le> length s \<and> drop (length s - length p) s = p"

lemma starts_with_append [simp]: "starts_with p (p @ s)"
  by (simp add: starts_with_def)

lemma starts_withD: "starts_with p s \<Longrightarrow> p @ drop (length p) s = s"
  by (metis append_take_drop_id starts_with_def)

definition is_space :: "char \<Rightarrow> bool" where
  "is_space c = (let n = of_char c :: nat in (9 \<le> n \<and> n \<le> 13) \<or> (28 \<le> n \<and> n \<le> 32))"

definition strip :: "string \<Rightarrow> string" where
  "strip s = rev (dropWhile is_space (rev (dropWhile is_space s)))"

text \<open>\<open>len(s)\<close> counts code points: the bytes that do not continue one.\<close>

definition char_count :: "string \<Rightarrow> nat" where
  "char_count s = length (filter (\<lambda>c. let n = of_char c :: nat in n < 128 \<or> 192 \<le> n) s)"

definition hex_digit :: "nat \<Rightarrow> char" where
  "hex_digit n = (if n < 10 then digit_char n else char_of (87 + n))"

text \<open>\<open>repr\<close> of a string.\<close>

definition py_repr :: "string \<Rightarrow> string" where
  "py_repr s =
     (let q = (if List.member s (char_of (39 :: nat)) \<and> \<not> List.member s (char_of (34 :: nat))
               then char_of (34 :: nat) else char_of (39 :: nat))
      in q # concat (map (\<lambda>c. let n = of_char c :: nat
             in if c = q \<or> n = 92 then [char_of (92 :: nat), c]
                else if n = 10 then char_of (92 :: nat) # ''n''
                else if n = 13 then char_of (92 :: nat) # ''r''
                else if n = 9 then char_of (92 :: nat) # ''t''
                else if n < 32 \<or> n = 127 then char_of (92 :: nat) # ''x'' @ [hex_digit (n div 16), hex_digit (n mod 16)]
                else [c]) s) @ [q])"

text \<open>\<open>xs[:n]\<close> of a list.\<close>

definition py_prefix :: "int \<Rightarrow> 'a list \<Rightarrow> 'a list" where
  "py_prefix n xs = take (nat (if n < 0 then int (length xs) + n else n)) xs"

section \<open>Methods that change state and may raise\<close>

text \<open>
  A method of an object maps the state to its result and the state it leaves, which an
  exception does not undo.
\<close>

type_synonym ('s, 'a) meth = "'s \<Rightarrow> 'a res \<times> 's"

definition ret :: "'a \<Rightarrow> ('s, 'a) meth" where
  "ret x s = (Inr x, s)"

definition raise :: "py_error \<Rightarrow> ('s, 'a) meth" where
  "raise e s = (Inl e, s)"

definition bind :: "('s, 'a) meth \<Rightarrow> ('a \<Rightarrow> ('s, 'b) meth) \<Rightarrow> ('s, 'b) meth" where
  "bind m f s = (case m s of (Inl e, t) \<Rightarrow> (Inl e, t) | (Inr x, t) \<Rightarrow> f x t)"

definition seqm :: "('s, 'a) meth \<Rightarrow> ('s, 'b) meth \<Rightarrow> ('s, 'b) meth" where
  "seqm m k = bind m (\<lambda>_. k)"

definition gets :: "('s \<Rightarrow> 'a) \<Rightarrow> ('s, 'a) meth" where
  "gets f s = (Inr (f s), s)"

definition modify :: "('s \<Rightarrow> 's) \<Rightarrow> ('s, unit) meth" where
  "modify f s = (Inr (), f s)"

definition raise_if :: "bool \<Rightarrow> py_error \<Rightarrow> ('s, unit) meth" where
  "raise_if c e = (if c then raise e else ret ())"

definition lift_res :: "'a res \<Rightarrow> ('s, 'a) meth" where
  "lift_res r s = (r, s)"

lemma meth_simps [simp]:
  "ret x s = (Inr x, s)" "raise e s = (Inl e, s)" "gets f s = (Inr (f s), s)"
  "modify g s = (Inr (), g s)" "lift_res r s = (r, s)"
  by (simp_all add: ret_def raise_def gets_def modify_def lift_res_def)

lemma raise_if_simps [simp]:
  "raise_if True e = raise e" "raise_if False e = ret ()"
  by (simp_all add: raise_if_def)

lemma bind_simps [simp]:
  "m s = (Inr x, t) \<Longrightarrow> bind m f s = f x t"
  "m s = (Inl e, t) \<Longrightarrow> bind m f s = (Inl e, t)"
  by (simp_all add: bind_def)

lemma seqm_simps [simp]:
  "m s = (Inr x, t) \<Longrightarrow> seqm m k s = k t"
  "m s = (Inl e, t) \<Longrightarrow> seqm m k s = (Inl e, t)"
  by (simp_all add: seqm_def)

lemma bind_Inr [result_simps]:
  "bind m f s = (Inr y, u) \<longleftrightarrow> (\<exists>x t. m s = (Inr x, t) \<and> f x t = (Inr y, u))"
  by (auto simp: bind_def split: prod.splits sum.splits)

lemma seqm_Inr [result_simps]:
  "seqm m k s = (Inr y, u) \<longleftrightarrow> (\<exists>x t. m s = (Inr x, t) \<and> k t = (Inr y, u))"
  by (auto simp: seqm_def result_simps)

text \<open>An invariant that both parts keep, whether they raise or not, is kept.\<close>

definition keeps :: "('s \<Rightarrow> bool) \<Rightarrow> ('s, 'a) meth \<Rightarrow> bool" where
  "keeps P m \<longleftrightarrow> (\<forall>s. P s \<longrightarrow> P (snd (m s)))"

lemma keepsD: "keeps P m \<Longrightarrow> P s \<Longrightarrow> m s = (r, t) \<Longrightarrow> P t"
  by (metis keeps_def snd_conv)

lemma keeps_bind: "keeps P m \<Longrightarrow> (\<And>x. keeps P (f x)) \<Longrightarrow> keeps P (bind m f)"
  by (fastforce simp: keeps_def bind_def split: prod.splits sum.splits)

lemma keeps_seqm: "keeps P m \<Longrightarrow> keeps P k \<Longrightarrow> keeps P (seqm m k)"
  by (simp add: seqm_def keeps_bind)

lemma keeps_simple [simp]:
  "keeps P (ret x)" "keeps P (raise e)" "keeps P (gets f)" "keeps P (raise_if c e)" "keeps P (lift_res r)"
  by (auto simp: keeps_def raise_if_def)

lemma keeps_modify: "(\<And>s. P s \<Longrightarrow> P (f s)) \<Longrightarrow> keeps P (modify f)"
  by (simp add: keeps_def)

lemmas keeps_intros = keeps_bind keeps_seqm keeps_modify

end
