(* ===== verification/Money.thy ===== *)
theory Money
  imports Prelude
begin

text \<open>
  \<open>packages/forecast/src/rgnr8_forecast/money.py\<close>: exact money in integer minor units, and
  \<open>format_money\<close> of \<open>brand.py\<close>, the one formatter of every surface.

  The lemmas show that arithmetic is exact and never mixes currencies, that \<open>scale_by\<close> is
  the unique nearest minor unit with ties to even (for either sign of the amount and of the
  denominator), and that printing and parsing an amount are inverse.
  Strings are taken to be ASCII where the code calls \<open>strip\<close> and \<open>isdigit\<close>; the
  interpreter's limit on the number of digits of an \<open>int\<close> literal is not modelled.
\<close>

section \<open>The type\<close>

datatype money = Money (minor_units: int) (currency: string)

text \<open>\<open>@dataclass(order=True)\<close>: compared by \<open>(minor_units, currency)\<close>.\<close>

instantiation money :: linorder
begin

definition less_eq_money :: "money \<Rightarrow> money \<Rightarrow> bool" where
  "less_eq_money a b \<longleftrightarrow>
     minor_units a < minor_units b \<or> (minor_units a = minor_units b \<and> currency a \<le> currency b)"

definition less_money :: "money \<Rightarrow> money \<Rightarrow> bool" where
  "less_money a b \<longleftrightarrow>
     minor_units a < minor_units b \<or> (minor_units a = minor_units b \<and> currency a < currency b)"

instance
proof
  fix a b :: money
  show "(a < b) = (a \<le> b \<and> \<not> b \<le> a)"
    by (auto simp: less_eq_money_def less_money_def)
  show "a \<le> b \<Longrightarrow> b \<le> a \<Longrightarrow> a = b"
    by (auto simp: less_eq_money_def intro: money.expand)
qed (auto simp: less_eq_money_def)

end

text \<open>\<open>_SCALES\<close> and \<open>currency_scale\<close>.\<close>

definition currency_scale :: "string \<Rightarrow> nat res" where
  "currency_scale code =
     (case map_of [(''USD'', 2), (''EUR'', 2), (''GBP'', 2)] code of
        None \<Rightarrow> Inl ValueError | Some n \<Rightarrow> Inr n)"

lemma currency_scale_cases:
  "currency_scale c = Inr n \<Longrightarrow> n = 2"
  by (auto simp: currency_scale_def split: if_splits)

section \<open>Arithmetic\<close>

definition money_zero :: "string \<Rightarrow> money" where
  "money_zero ccy = Money 0 ccy"

definition money_same :: "money \<Rightarrow> money \<Rightarrow> unit res" where
  "money_same a b = (if currency a \<noteq> currency b then Inl CurrencyMismatch else Inr ())"

definition money_add :: "money \<Rightarrow> money \<Rightarrow> money res" where
  "money_add a b =
     res_bind (money_same a b) (\<lambda>_. Inr (Money (minor_units a + minor_units b) (currency a)))"

definition money_sub :: "money \<Rightarrow> money \<Rightarrow> money res" where
  "money_sub a b =
     res_bind (money_same a b) (\<lambda>_. Inr (Money (minor_units a - minor_units b) (currency a)))"

definition money_neg :: "money \<Rightarrow> money" where
  "money_neg a = Money (- minor_units a) (currency a)"

definition scale_by :: "money \<Rightarrow> int \<Rightarrow> int \<Rightarrow> money res" where
  "scale_by a numerator denominator =
     (if denominator = 0 then Inl ValueError
      else
        let num = minor_units a * numerator;
            den = denominator;
            (num, den) = (if den < 0 then (- num, - den) else (num, den));
            q = num div den;
            r = num mod den;
            twice = r * 2;
            q = (if twice > den \<or> (twice = den \<and> q mod 2 \<noteq> 0) then q + 1 else q)
        in Inr (Money q (currency a)))"

definition money_abs :: "money \<Rightarrow> money" where
  "money_abs a = Money \<bar>minor_units a\<bar> (currency a)"

definition is_zero :: "money \<Rightarrow> bool" where
  "is_zero a = (minor_units a = 0)"

definition is_positive :: "money \<Rightarrow> bool" where
  "is_positive a = (0 < minor_units a)"

definition is_negative :: "money \<Rightarrow> bool" where
  "is_negative a = (minor_units a < 0)"

text \<open>\<open>money_sum\<close>: the accumulator starts at zero of the given currency.\<close>

definition money_sum :: "money list \<Rightarrow> string \<Rightarrow> money res" where
  "money_sum items ccy = fold_res (\<lambda>m total. money_add total m) items (money_zero ccy)"

section \<open>Parsing and printing\<close>

definition isdigit :: "string \<Rightarrow> bool" where
  "isdigit s = (s \<noteq> [] \<and> list_all is_digit s)"

definition from_decimal :: "string \<Rightarrow> string \<Rightarrow> money res" where
  "from_decimal value ccy =
     res_bind (currency_scale ccy) (\<lambda>scale.
       let s = strip value;
           neg = (case s of [] \<Rightarrow> False | c # _ \<Rightarrow> c = CHR ''-'');
           s = (if neg then drop 1 s else s);
           whole = takeWhile (\<lambda>c. c \<noteq> CHR ''.'') s;
           frac = drop 1 (dropWhile (\<lambda>c. c \<noteq> CHR ''.'') s)
       in if \<not> isdigit whole \<or> (frac \<noteq> [] \<and> \<not> isdigit frac) then Inl ValueError
          else if scale < length frac then Inl ValueError
          else
            let frac = ljust scale CHR ''0'' frac;
                minor = int (int_of_digits whole) * 10 ^ scale + int (int_of_digits frac)
            in Inr (Money (if neg then - minor else minor) ccy))"

text \<open>\<open>from_decimal\<close> also takes an \<open>int\<close>, through \<open>str\<close>.\<close>

definition from_decimal_int :: "int \<Rightarrow> string \<Rightarrow> money res" where
  "from_decimal_int value ccy = from_decimal (str_int value) ccy"

definition to_decimal_string :: "money \<Rightarrow> string res" where
  "to_decimal_string a =
     res_bind (currency_scale (currency a)) (\<lambda>scale.
       let neg = minor_units a < 0;
           s = rjust (scale + 1) CHR ''0'' (str_nat (nat \<bar>minor_units a\<bar>));
           body = (if scale = 0 then s
                   else take (length s - scale) s @ ''.'' @ drop (length s - scale) s)
       in Inr (if neg then ''-'' @ body else body))"

definition money_str :: "money \<Rightarrow> string res" where
  "money_str a = res_bind (to_decimal_string a) (\<lambda>s. Inr (currency a @ '' '' @ s))"

text \<open>
  \<open>format_money(m)\<close> with the default \<open>cents=True\<close>: \<open>lstrip("-")\<close>, \<open>partition(".")\<close>, and the
  integer part grouped in thousands.
\<close>

definition format_money :: "money \<Rightarrow> string res" where
  "format_money m =
     res_bind (to_decimal_string m) (\<lambda>d.
       let neg = minor_units m < 0;
           whole = dropWhile (\<lambda>c. c = CHR ''-'') d;
           intpart = takeWhile (\<lambda>c. c \<noteq> CHR ''.'') whole;
           frac = drop 1 (dropWhile (\<lambda>c. c \<noteq> CHR ''.'') whole);
           sym = (if currency m = ''USD'' then ''$'' else currency m @ '' '');
           body = str_grouped (int_of_digits intpart) @ ''.'' @ (if frac = [] then ''00'' else frac)
       in Inr ((if neg then ''-'' else []) @ sym @ body))"

section \<open>Exact arithmetic\<close>

lemma money_add_Inr [money_simps]:
  "money_add a b = Inr c \<longleftrightarrow>
     currency b = currency a \<and> c = Money (minor_units a + minor_units b) (currency a)"
  by (auto simp: money_add_def money_same_def)

lemma money_sub_Inr [money_simps]:
  "money_sub a b = Inr c \<longleftrightarrow>
     currency b = currency a \<and> c = Money (minor_units a - minor_units b) (currency a)"
  by (auto simp: money_sub_def money_same_def)

lemma money_add_Inl: "money_add a b = Inl e \<longleftrightarrow> currency a \<noteq> currency b \<and> e = CurrencyMismatch"
  by (auto simp: money_add_def money_same_def)

lemma money_sub_Inl: "money_sub a b = Inl e \<longleftrightarrow> currency a \<noteq> currency b \<and> e = CurrencyMismatch"
  by (auto simp: money_sub_def money_same_def)

lemma money_add_same: "currency b = currency a \<Longrightarrow>
    money_add a b = Inr (Money (minor_units a + minor_units b) (currency a))"
  by (simp add: money_add_Inr)

lemma money_sub_same: "currency b = currency a \<Longrightarrow>
    money_sub a b = Inr (Money (minor_units a - minor_units b) (currency a))"
  by (simp add: money_sub_Inr)

text \<open>The accumulating loop, from any starting total.\<close>

lemma fold_money_add:
  "fold_res (\<lambda>m total. money_add total m) ms t =
     (if \<forall>m\<in>set ms. currency m = currency t
      then Inr (Money (minor_units t + (\<Sum>m\<leftarrow>ms. minor_units m)) (currency t))
      else Inl CurrencyMismatch)"
proof (induction ms arbitrary: t)
  case (Cons m ms)
  show ?case
  proof (cases "currency m = currency t")
    case True
    then show ?thesis by (simp add: money_add_same Cons.IH add.assoc)
  next
    case False
    then have "money_add t m = Inl CurrencyMismatch" by (simp add: money_add_Inl)
    with False show ?thesis by simp
  qed
qed simp

lemma money_sum_eq:
  "money_sum ms ccy =
     (if \<forall>m\<in>set ms. currency m = ccy then Inr (Money (\<Sum>m\<leftarrow>ms. minor_units m) ccy)
      else Inl CurrencyMismatch)"
  by (simp add: money_sum_def fold_money_add money_zero_def)

section \<open>Banker's rounding\<close>

lemma scale_by_round:
  "scale_by a n d = (if d = 0 then Inl ValueError
     else Inr (Money (round_half_even (minor_units a * n) d) (currency a)))"
  by (simp add: scale_by_def round_half_even_def Let_def odd_iff_mod_2_eq_one mult.commute)

lemma scale_by_Inr [money_simps]:
  "scale_by a n d = Inr b \<longleftrightarrow>
     d \<noteq> 0 \<and> b = Money (round_half_even (minor_units a * n) d) (currency a)"
  by (auto simp: scale_by_round)

lemma scale_by_currency: "scale_by a n d = Inr b \<Longrightarrow> currency b = currency a"
  by (simp add: scale_by_Inr)

section \<open>Printing\<close>

lemma takeWhile_digits: "list_all is_digit s \<Longrightarrow> takeWhile (\<lambda>c. c \<noteq> CHR ''.'') (s @ CHR ''.'' # t) = s"
  by (induction s) (auto simp: is_digit_def)

lemma dropWhile_digits: "list_all is_digit s \<Longrightarrow> dropWhile (\<lambda>c. c \<noteq> CHR ''.'') (s @ CHR ''.'' # t) = CHR ''.'' # t"
  by (induction s) (auto simp: is_digit_def)

lemma list_all_is_digit_rjust: "list_all is_digit s \<Longrightarrow> list_all is_digit (rjust n CHR ''0'' s)"
  by (induction "n - length s" arbitrary: n)
    (auto simp: rjust_def list_all_iff is_digit_def in_set_replicate)

lemma length_rjust: "length (rjust n c s) = max n (length s)"
  by (simp add: rjust_def)

text \<open>A printed amount: its digits and where the point goes.\<close>

lemma to_decimal_stringE:
  assumes "to_decimal_string a = Inr s"
  obtains w f where "list_all is_digit w" "w \<noteq> []" "list_all is_digit f" "length f = 2"
    "int (int_of_digits w) * 100 + int (int_of_digits f) = \<bar>minor_units a\<bar>"
    "s = (if minor_units a < 0 then ''-'' else []) @ w @ ''.'' @ f"
    "currency_scale (currency a) = Inr 2"
proof -
  from assms obtain n where n: "currency_scale (currency a) = Inr n"
    by (auto simp: to_decimal_string_def result_simps)
  then have sc: "currency_scale (currency a) = Inr 2" using currency_scale_cases by blast
  define d where "d = rjust 3 CHR ''0'' (str_nat (nat \<bar>minor_units a\<bar>))"
  define w f where "w = take (length d - 2) d" and "f = drop (length d - 2) d"
  have d: "d = w @ f" by (simp add: w_def f_def)
  have len: "3 \<le> length d" by (simp add: d_def length_rjust)
  have dig: "list_all is_digit d"
    unfolding d_def by (rule list_all_is_digit_rjust [OF str_nat_digits])
  have val: "int_of_digits d = nat \<bar>minor_units a\<bar>"
    by (simp add: d_def rjust_def int_of_digits_zeros)
  have lf: "length f = 2" using len by (simp add: f_def)
  show thesis
  proof
    show "list_all is_digit w" "list_all is_digit f" using dig d by auto
    show "w \<noteq> []" using len by (auto simp: w_def)
    show "length f = 2" by (rule lf)
    show "int (int_of_digits w) * 100 + int (int_of_digits f) = \<bar>minor_units a\<bar>"
      using val lf unfolding d int_of_digits_append by simp
    show "s = (if minor_units a < 0 then ''-'' else []) @ w @ ''.'' @ f"
      using assms sc by (simp add: to_decimal_string_def Let_def d_def w_def f_def split: if_splits)
    show "currency_scale (currency a) = Inr 2" by (rule sc)
  qed
qed

lemma strip_printed:
  assumes "list_all is_digit w" "w \<noteq> []" "list_all is_digit f" "f \<noteq> []"
    and p: "p = [] \<or> p = ''-''"
  shows "strip (p @ w @ CHR ''.'' # f) = p @ w @ CHR ''.'' # f"
proof -
  have nd: "is_digit c \<Longrightarrow> \<not> is_space c" for c by (auto simp: is_digit_def is_space_def)
  obtain c w' where w: "w = c # w'" "is_digit c" using assms by (cases w) auto
  obtain g e where f: "f = g @ [e]" "is_digit e" using assms by (cases f rule: rev_cases) auto
  have "\<not> is_space CHR ''-''" by (simp add: is_space_def)
  then show ?thesis using p w f nd [of c] nd [of e] by (auto simp: strip_def)
qed

text \<open>Parsing what was printed gives the amount back.\<close>

lemma from_to_decimal:
  assumes "to_decimal_string a = Inr s"
  shows "from_decimal s (currency a) = Inr a"
proof -
  from assms obtain w f where wf: "list_all is_digit w" "w \<noteq> []" "list_all is_digit f" "length f = 2"
    and val: "int (int_of_digits w) * 100 + int (int_of_digits f) = \<bar>minor_units a\<bar>"
    and s: "s = (if minor_units a < 0 then ''-'' else []) @ w @ CHR ''.'' # f"
    and sc: "currency_scale (currency a) = Inr 2"
    by (rule to_decimal_stringE) auto
  have f: "f \<noteq> []" using wf by auto
  have strip: "strip s = s" using strip_printed [OF wf(1,2,3) f] s by auto
  have hd: "w = c # w' \<Longrightarrow> c \<noteq> CHR ''-''" for c w' using wf(1) by (auto simp: is_digit_def)
  have neg: "(case s of [] \<Rightarrow> False | c # _ \<Rightarrow> c = CHR ''-'') = (minor_units a < 0)"
    using s wf(2) hd by (cases w) auto
  have rest: "(if minor_units a < 0 then drop 1 s else s) = w @ CHR ''.'' # f"
    using s by simp
  have "ljust 2 CHR ''0'' f = f" by (simp add: ljust_def wf(4))
  then have "from_decimal s (currency a) =
      Inr (Money (if minor_units a < 0 then - \<bar>minor_units a\<bar> else \<bar>minor_units a\<bar>) (currency a))"
    using sc wf f val unfolding from_decimal_def
    by (simp add: strip neg rest Let_def takeWhile_digits dropWhile_digits isdigit_def)
  then show ?thesis by (cases a) (simp split: if_splits)
qed

lemma to_decimal_string_total: "currency_scale (currency a) = Inr n \<Longrightarrow> \<exists>s. to_decimal_string a = Inr s"
  by (simp add: to_decimal_string_def Let_def)

section \<open>Properties\<close>

text \<open>Printing an amount and parsing it back gives the amount.\<close>

theorem decimal_round_trip:
  assumes "to_decimal_string a = Inr s"
  shows "from_decimal s (currency a) = Inr a"
  using assms by (rule from_to_decimal)

theorem decimal_round_trip_witness:
  "to_decimal_string (Money (- 1205) ''USD'') = Inr ''-12.05'' \<and>
     from_decimal ''-12.05'' ''USD'' = Inr (Money (- 1205) ''USD'')"
proof -
  have "to_decimal_string (Money (- 1205) ''USD'') = Inr ''-12.05''"
    by (simp add: to_decimal_string_def currency_scale_def string_eval)
  with decimal_round_trip [OF this] show ?thesis by simp
qed

text \<open>A sum of amounts is exact in one currency and raises on a mixture.\<close>

theorem money_sum_exact:
  "money_sum ms ccy =
     (if \<forall>m\<in>set ms. currency m = ccy then Inr (Money (\<Sum>m\<leftarrow>ms. minor_units m) ccy)
      else Inl CurrencyMismatch)"
  by (rule money_sum_eq)

theorem money_sum_exact_witness:
  "money_sum [Money 5 ''USD'', Money 7 ''USD''] ''USD'' = Inr (Money 12 ''USD'')"
  unfolding money_sum_exact by simp

text \<open>Scaling an amount rounds to the nearest minor unit, ties to the even one.\<close>

theorem scale_by_nearest:
  assumes "scale_by a n d = Inr b"
  shows "currency b = currency a \<and> nearest_even (minor_units a * n) d (minor_units b)"
  using assms by (auto simp: scale_by_Inr nearest_even_round)

theorem scale_by_nearest_witness:
  "scale_by (Money 25 ''USD'') 1 10 = Inr (Money 2 ''USD'') \<and> nearest_even (25 * 1) 10 2"
proof -
  have "scale_by (Money 25 ''USD'') 1 10 = Inr (Money 2 ''USD'')"
    by (simp add: scale_by_Inr round_half_even_def)
  with scale_by_nearest [OF this] show ?thesis by simp
qed

end
