(* ===== verification/Dates.thy ===== *)
theory Dates
  imports Prelude
begin

text \<open>
  A model of \<open>datetime.date\<close> and of \<open>add_months\<close> of
  \<open>packages/forecast/src/rgnr8_forecast/dates.py\<close>.

  A \<open>date\<close> is its proleptic Gregorian ordinal (\<open>date.toordinal()\<close>; 1 is 0001-01-01), so the
  comparisons of dates are those of \<open>int\<close> and \<open>(a - b).days\<close> is \<open>a - b\<close>. Year, month and day
  are computed from it by \<open>ord2ymd\<close>, which is proved inverse to \<open>ymd2ord\<close>. An operation that
  leaves the years 1 to 9999 raises, as in Python: \<open>OverflowError\<close> from adding a
  \<open>timedelta\<close>, \<open>ValueError\<close> from the constructor.
\<close>

section \<open>The Gregorian calendar\<close>

type_synonym date = int

definition max_ordinal :: int where
  "max_ordinal = 3652059" \<comment> \<open>\<open>date.max.toordinal()\<close>, 9999-12-31\<close>

definition valid_date :: "date \<Rightarrow> bool" where
  "valid_date d = (1 \<le> d \<and> d \<le> max_ordinal)"

definition is_leap :: "int \<Rightarrow> bool" where
  "is_leap y = (y mod 4 = 0 \<and> (y mod 100 \<noteq> 0 \<or> y mod 400 = 0))"

definition days_in_month :: "int \<Rightarrow> int \<Rightarrow> int" where
  "days_in_month y m =
     (if m = 2 then (if is_leap y then 29 else 28)
      else if m = 4 \<or> m = 6 \<or> m = 9 \<or> m = 11 then 30 else 31)"

definition days_before_year :: "int \<Rightarrow> int" where
  "days_before_year y = (let p = y - 1 in p * 365 + p div 4 - p div 100 + p div 400)"

definition days_before_month :: "int \<Rightarrow> int \<Rightarrow> int" where
  "days_before_month y m =
     [0, 31, 59, 90, 120, 151, 181, 212, 243, 273, 304, 334] ! nat (m - 1) +
     (if 2 < m \<and> is_leap y then 1 else 0)"

definition ymd2ord :: "int \<Rightarrow> int \<Rightarrow> int \<Rightarrow> int" where
  "ymd2ord y m d = days_before_year y + days_before_month y m + d"

definition valid_ymd :: "int \<Rightarrow> int \<Rightarrow> int \<Rightarrow> bool" where
  "valid_ymd y m d = (1 \<le> m \<and> m \<le> 12 \<and> 1 \<le> d \<and> d \<le> days_in_month y m)"

text \<open>\<open>date(y, m, d)\<close>.\<close>

definition date_new :: "int \<Rightarrow> int \<Rightarrow> int \<Rightarrow> date res" where
  "date_new y m d =
     (if 1 \<le> y \<and> y \<le> 9999 \<and> valid_ymd y m d then Inr (ymd2ord y m d) else Inl ValueError)"

text \<open>\<open>d + timedelta(days=n)\<close>.\<close>

definition date_add :: "date \<Rightarrow> int \<Rightarrow> date res" where
  "date_add d n = (if valid_date (d + n) then Inr (d + n) else Inl OverflowError)"

lemma int_div_pred:
  fixes k y :: int assumes "0 < k"
  shows "y div k = (y - 1) div k + (if y mod k = 0 then 1 else 0)"
proof -
  have "y - 1 = y div k * k + (y mod k - 1)" using div_mult_mod_eq [of y k] by linarith
  then have eq: "(y - 1) div k = y div k + (y mod k - 1) div k"
    using assms by (metis div_mult_self3 less_irrefl mult.commute)
  have m: "0 \<le> y mod k" "y mod k < k" using assms by simp_all
  show ?thesis
  proof (cases "y mod k = 0")
    case True
    then show ?thesis using eq assms by (simp add: div_eq_minus1)
  next
    case False
    then have "(y mod k - 1) div k = 0" using m by (intro div_pos_pos_trivial) linarith+
    then show ?thesis using eq False by simp
  qed
qed

lemma leap_aux:
  fixes y :: int
  assumes "a = a' + (if p then 1 else 0)" "b = b' + (if q then 1 else 0)"
    "c = c' + (if r then 1 else 0)" "r \<Longrightarrow> q" "q \<Longrightarrow> p"
  shows "y * 365 + a - b + c =
    (y - 1) * 365 + a' - b' + c' + (if p \<and> (\<not> q \<or> r) then 366 else 365)"
  using assms by (cases p; cases q; cases r) simp_all

lemma days_before_year_Suc:
  "days_before_year (y + 1) = days_before_year y + (if is_leap y then 366 else 365)"
proof -
  have d: "y mod 400 = 0 \<Longrightarrow> y mod 100 = 0" "y mod 100 = 0 \<Longrightarrow> y mod 4 = 0"
    using dvd_trans [of 100 400 y] dvd_trans [of 4 100 y] by (simp_all add: mod_eq_0_iff_dvd)
  have e: "y div 4 = (y - 1) div 4 + (if y mod 4 = 0 then 1 else 0)"
    "y div 100 = (y - 1) div 100 + (if y mod 100 = 0 then 1 else 0)"
    "y div 400 = (y - 1) div 400 + (if y mod 400 = 0 then 1 else 0)"
    by (rule int_div_pred, simp)+
  have f: "days_before_year (y + 1) = y * 365 + y div 4 - y div 100 + y div 400"
    unfolding days_before_year_def Let_def add_diff_cancel_right' by (rule refl)
  have g: "days_before_year y = (y - 1) * 365 + (y - 1) div 4 - (y - 1) div 100 + (y - 1) div 400"
    unfolding days_before_year_def Let_def add_diff_cancel_right' by (rule refl)
  show ?thesis
    unfolding f g is_leap_def by (rule leap_aux [OF e d])
qed

lemma days_in_month_bounds: "28 \<le> days_in_month y m" "days_in_month y m \<le> 31"
  by (simp_all add: days_in_month_def)

lemma months_cases:
  fixes m :: int
  assumes "1 \<le> m" "m \<le> 12"
  obtains "m = 1" | "m = 2" | "m = 3" | "m = 4" | "m = 5" | "m = 6" | "m = 7" | "m = 8"
    | "m = 9" | "m = 10" | "m = 11" | "m = 12"
proof -
  from assms have "m = 1 \<or> m = 2 \<or> m = 3 \<or> m = 4 \<or> m = 5 \<or> m = 6 \<or> m = 7 \<or> m = 8
    \<or> m = 9 \<or> m = 10 \<or> m = 11 \<or> m = 12" by arith
  then show ?thesis using that by blast
qed

lemma days_before_month_Suc:
  assumes "1 \<le> m" "m < 12"
  shows "days_before_month y (m + 1) = days_before_month y m + days_in_month y m"
proof -
  from assms have "m \<le> 12" by simp
  with assms(1) show ?thesis
  proof (cases m rule: months_cases)
    case 12
    with assms show ?thesis by simp
  qed (simp_all add: days_before_month_def days_in_month_def)
qed

lemma days_before_month_last:
  "days_before_month y 1 = 0"
  "days_before_month y 12 + days_in_month y 12 = (if is_leap y then 366 else 365)"
  by (simp_all add: days_before_month_def days_in_month_def)

text \<open>The inverse: search for the year, then for the month.\<close>

function year_from :: "int \<Rightarrow> int \<Rightarrow> int" where
  "year_from y n = (if days_before_year (y + 1) < n then year_from (y + 1) n else y)"
  by pat_completeness auto
termination
proof (relation "measure (\<lambda>(y, n). nat (n - days_before_year (y + 1)))")
  fix y n :: int
  assume "days_before_year (y + 1) < n"
  moreover have "days_before_year (y + 1 + 1) > days_before_year (y + 1)"
    by (simp only: days_before_year_Suc) simp
  ultimately show "((y + 1, n), (y, n)) \<in> measure (\<lambda>(y, n). nat (n - days_before_year (y + 1)))"
    by simp
qed simp

declare year_from.simps [simp del]

fun month_day :: "int \<Rightarrow> int \<Rightarrow> int list \<Rightarrow> int \<times> int" where
  "month_day y r [] = (12, r)"
| "month_day y r (m # ms) =
     (if ms = [] \<or> r \<le> days_in_month y m then (m, r) else month_day y (r - days_in_month y m) ms)"

definition ord2ymd :: "date \<Rightarrow> int \<times> int \<times> int" where
  "ord2ymd n =
     (let y = year_from ((n - 1) div 366 + 1) n
      in (y, month_day y (n - days_before_year y) [1, 2, 3, 4, 5, 6, 7, 8, 9, 10, 11, 12]))"

definition year_of :: "date \<Rightarrow> int" where "year_of d = fst (ord2ymd d)"
definition month_of :: "date \<Rightarrow> int" where "month_of d = fst (snd (ord2ymd d))"
definition day_of :: "date \<Rightarrow> int" where "day_of d = snd (snd (ord2ymd d))"

text \<open>\<open>d.isoformat()\<close>.\<close>

definition isoformat :: "date \<Rightarrow> string" where
  "isoformat d =
     rjust 4 CHR ''0'' (str_nat (nat (year_of d))) @ ''-'' @
     rjust 2 CHR ''0'' (str_nat (nat (month_of d))) @ ''-'' @
     rjust 2 CHR ''0'' (str_nat (nat (day_of d)))"

lemma year_from_bounds:
  "days_before_year y < n \<Longrightarrow>
     y \<le> year_from y n \<and> days_before_year (year_from y n) < n \<and> n \<le> days_before_year (year_from y n + 1)"
proof (induction y n rule: year_from.induct)
  case (1 y n)
  show ?case
  proof (cases "days_before_year (y + 1) < n")
    case True
    then show ?thesis using "1.IH" [OF True True] by (subst (1 2 3) year_from.simps) simp
  next
    case False
    then show ?thesis using "1.prems" by (subst (1 2 3) year_from.simps) simp
  qed
qed

lemma month_day_upto:
  assumes "1 \<le> m" "m \<le> 12" "1 \<le> r" "days_before_month y m + r \<le> (if is_leap y then 366 else 365)"
  shows "\<exists>m' d. month_day y r [m..12] = (m', d) \<and> m \<le> m' \<and> m' \<le> 12 \<and> 1 \<le> d \<and>
    d \<le> days_in_month y m' \<and> days_before_month y m' + d = days_before_month y m + r"
  using assms
proof (induction "nat (12 - m)" arbitrary: m r)
  case 0
  then have "m = 12" by simp
  then show ?case using 0 days_before_month_last [of y] by (auto simp: upto_rec1)
next
  case (Suc k)
  then have m: "m < 12" "k = nat (12 - (m + 1))" by simp_all
  then have up: "[m..12] = m # [m + 1..12]" "[m + 1..12] \<noteq> []" by (simp_all add: upto_rec1)
  note step = days_before_month_Suc [OF Suc.prems(1) m(1), of y]
  show ?case
  proof (cases "r \<le> days_in_month y m")
    case True
    then show ?thesis using up Suc.prems by simp
  next
    case False
    then have "\<exists>m' d. month_day y (r - days_in_month y m) [m + 1..12] = (m', d) \<and> m + 1 \<le> m' \<and>
      m' \<le> 12 \<and> 1 \<le> d \<and> d \<le> days_in_month y m' \<and>
      days_before_month y m' + d = days_before_month y (m + 1) + (r - days_in_month y m)"
      using Suc.prems m step by (intro Suc.hyps(1)) auto
    then show ?thesis using False up step by auto
  qed
qed

lemma months_upto: "[1, 2, 3, 4, 5, 6, 7, 8, 9, 10, 11, 12] = [1..12::int]"
  by (simp add: upto_rec1)

text \<open>Both directions of the round trip between ordinals and calendar dates.\<close>

lemma ord2ymd_bounds:
  assumes "1 \<le> n" "ord2ymd n = (y, m, d)"
  shows "1 \<le> y" "valid_ymd y m d" "ymd2ord y m d = n"
proof -
  define p where "p = (n - 1) div 366"
  have p: "0 \<le> p" "p * 366 \<le> n - 1" using assms by (simp_all add: p_def pos_imp_zdiv_nonneg_iff)
  have le: "p * 365 + a - b + c \<le> n - 1" if "a \<le> p" "c \<le> b" for a b c
    using p that by linarith
  have "p div 4 \<le> p" "p div 400 \<le> p div 100"
    using zdiv_mono2 [OF p(1), of 1 4] zdiv_mono2 [OF p(1), of 100 400] by simp_all
  from le [OF this] have "days_before_year (p + 1) \<le> n - 1"
    unfolding days_before_year_def Let_def add_diff_cancel_right' .
  then have "days_before_year (p + 1) < n" by simp
  have y: "year_from (p + 1) n = y"
    and md: "month_day (year_from (p + 1) n) (n - days_before_year (year_from (p + 1) n)) [1..12] = (m, d)"
    using assms(2) unfolding ord2ymd_def Let_def months_upto p_def prod.inject by blast+
  from year_from_bounds [OF \<open>days_before_year (p + 1) < n\<close>] have yb: "p + 1 \<le> y"
    "days_before_year y < n" "n \<le> days_before_year (y + 1)" unfolding y by simp_all
  then show "1 \<le> y" using p by simp
  note md [unfolded y]
  moreover have "\<exists>m' d. month_day y (n - days_before_year y) [1..12] = (m', d) \<and> 1 \<le> m' \<and>
      m' \<le> 12 \<and> 1 \<le> d \<and> d \<le> days_in_month y m' \<and>
      days_before_month y m' + d = days_before_month y 1 + (n - days_before_year y)"
    using yb days_before_year_Suc [of y] days_before_month_last [of y]
    by (intro month_day_upto) auto
  ultimately show "valid_ymd y m d" "ymd2ord y m d = n"
    using days_before_month_last(1) [of y] by (auto simp: valid_ymd_def ymd2ord_def)
qed

lemma ord2ymd_expand: "ord2ymd n = (year_of n, month_of n, day_of n)"
  by (simp add: year_of_def month_of_def day_of_def)

lemmas ymd_of_bounds = ord2ymd_bounds [OF _ ord2ymd_expand]

section \<open>Counting months\<close>

text \<open>
  Month \<open>M\<close> counts months from year 0: \<open>month_start M\<close> is the ordinal before its first day.
\<close>

definition month_start :: "int \<Rightarrow> int" where
  "month_start M = days_before_year (M div 12) + days_before_month (M div 12) (M mod 12 + 1)"

definition month_len :: "int \<Rightarrow> int" where
  "month_len M = days_in_month (M div 12) (M mod 12 + 1)"

lemma month_len_bounds: "28 \<le> month_len M" "month_len M \<le> 31"
  by (simp_all add: month_len_def days_in_month_bounds)

lemma month_start_Suc: "month_start (M + 1) = month_start M + month_len M"
proof -
  define y m where "y = M div 12" and "m = M mod 12 + 1"
  have M: "M = 12 * y + (m - 1)" and m: "1 \<le> m" "m \<le> 12"
    using div_mult_mod_eq [of M 12] by (simp_all add: y_def m_def)
  show ?thesis
  proof (cases "m = 12")
    case True
    then have "M + 1 = 12 * (y + 1)" using M by simp
    then have "(M + 1) div 12 = y + 1" "(M + 1) mod 12 = 0" by simp_all
    then show ?thesis
      using True days_before_year_Suc [of y] days_before_month_last(2) [of y]
      by (simp add: month_start_def month_len_def days_before_month_last(1) flip: y_def m_def)
  next
    case False
    then have "M + 1 = m + 12 * y" "0 \<le> m" "m < 12" using M m by simp_all
    then have "(M + 1) div 12 = y" "(M + 1) mod 12 = m"
      by (simp_all add: div_add1_eq)
    then show ?thesis
      using False m days_before_month_Suc [of m y]
      by (simp add: month_start_def month_len_def flip: y_def m_def)
  qed
qed

lemma month_start_less: "M < N \<Longrightarrow> month_start (M + 1) \<le> month_start N"
proof (induction "nat (N - M - 1)" arbitrary: N)
  case 0
  then have "N = M + 1" by simp
  then show ?case by simp
next
  case (Suc k)
  then have "month_start (M + 1) \<le> month_start (N - 1)" by (intro Suc.hyps(1)) simp_all
  also have "\<dots> \<le> month_start (N - 1 + 1)"
    using month_start_Suc [of "N - 1"] month_len_bounds [of "N - 1"] by linarith
  finally show ?case by simp
qed

lemma month_index_div_mod:
  assumes "1 \<le> m" "m \<le> 12"
  shows "(12 * y + (m - 1)) div 12 = y" "(12 * y + (m - 1)) mod 12 = m - (1::int)"
  using assms by (simp_all add: div_add1_eq)

lemma ymd2ord_month:
  assumes "valid_ymd y m d"
  defines "M \<equiv> 12 * y + (m - 1)"
  shows "ymd2ord y m d = month_start M + d" "month_len M = days_in_month y m"
    "month_start M < ymd2ord y m d" "ymd2ord y m d \<le> month_start (M + 1)"
proof -
  have m: "1 \<le> m" "m \<le> 12" "1 \<le> d" "d \<le> days_in_month y m"
    using assms by (simp_all add: valid_ymd_def)
  note dm = month_index_div_mod [OF m(1,2), of y, folded M_def]
  show e: "ymd2ord y m d = month_start M + d" "month_len M = days_in_month y m"
    by (simp_all add: ymd2ord_def month_start_def month_len_def dm)
  show "month_start M < ymd2ord y m d" "ymd2ord y m d \<le> month_start (M + 1)"
    using e m by (simp_all add: month_start_Suc)
qed

lemma month_unique:
  assumes "month_start M < n" "n \<le> month_start (M + 1)" "month_start N < n" "n \<le> month_start (N + 1)"
  shows "M = N"
proof (rule ccontr)
  assume "M \<noteq> N"
  then consider "M < N" | "N < M" by linarith
  then show False using month_start_less [of M N] month_start_less [of N M] assms by cases linarith+
qed

lemma ymd_unique:
  assumes "valid_ymd y m d" "valid_ymd y' m' d'" "ymd2ord y m d = ymd2ord y' m' d'"
  shows "y = y'" "m = m'" "d = d'"
proof -
  define M where "M = 12 * y + (m - 1)"
  define M' where "M' = 12 * y' + (m' - 1)"
  note a = ymd2ord_month [OF assms(1), folded M_def]
  note b = ymd2ord_month [OF assms(2), folded M'_def]
  have "M = M'" using a(3,4) b(3,4) assms(3) by (intro month_unique) auto
  then show "d = d'" using a(1) b(1) assms(3) by simp
  have "M div 12 = M' div 12" "M mod 12 = M' mod 12" using \<open>M = M'\<close> by simp_all
  then show "y = y'" "m = m'"
    using assms(1,2) unfolding M_def M'_def by (simp_all add: valid_ymd_def month_index_div_mod)
qed

lemma month_start_year: "month_start (12 * y) = days_before_year y"
  by (simp add: month_start_def days_before_month_last)

lemma days_before_year_eval: "days_before_year 1 = 0" "days_before_year 10000 = max_ordinal"
  by (simp_all add: days_before_year_def max_ordinal_def Let_def)

lemma month_start_mono: "M \<le> N \<Longrightarrow> month_start M \<le> month_start N"
  using month_start_less [of M N] month_start_Suc [of M] month_len_bounds [of M]
  by (cases "M = N") auto

lemma valid_date_month:
  assumes "month_start M < n" "n \<le> month_start (M + 1)"
  shows "valid_date n \<longleftrightarrow> 12 \<le> M \<and> M < 120000"
proof -
  have e: "month_start 12 = 0" "month_start 120000 = max_ordinal"
    using month_start_year [of 1] month_start_year [of 10000] days_before_year_eval by simp_all
  have "M < 12 \<Longrightarrow> n < 1" "12 \<le> M \<Longrightarrow> 1 \<le> n"
    using assms e month_start_mono [of "M + 1" 12] month_start_mono [of 12 M] by linarith+
  moreover have "M < 120000 \<Longrightarrow> n \<le> max_ordinal" "120000 \<le> M \<Longrightarrow> max_ordinal < n"
    using assms e month_start_mono [of "M + 1" 120000] month_start_mono [of 120000 M] by linarith+
  ultimately show ?thesis
    unfolding valid_date_def by (cases "12 \<le> M"; cases "M < 120000") auto
qed

lemma valid_date_ymd2ord:
  assumes "valid_ymd y m d" shows "valid_date (ymd2ord y m d) \<longleftrightarrow> 1 \<le> y \<and> y \<le> 9999"
proof -
  have m: "1 \<le> m" "m \<le> 12" using assms by (simp_all add: valid_ymd_def)
  show ?thesis
    using valid_date_month [OF ymd2ord_month(3,4) [OF assms]] m by auto
qed

lemma ord2ymd_ymd2ord:
  assumes "1 \<le> y" "valid_ymd y m d" shows "ord2ymd (ymd2ord y m d) = (y, m, d)"
proof -
  define M where "M = 12 * y + (m - 1)"
  have "month_start 12 \<le> month_start M"
    using assms by (intro month_start_mono) (simp add: M_def valid_ymd_def)
  then have "0 \<le> month_start M"
    using month_start_year [of 1] days_before_year_eval by simp
  then have n: "1 \<le> ymd2ord y m d"
    using ymd2ord_month(3) [OF assms(2), folded M_def] by simp
  then show ?thesis
    using ymd_unique [OF ymd_of_bounds(2) [OF n] assms(2)] ymd_of_bounds(3) [OF n] ord2ymd_expand
    by metis
qed

lemma date_new_Inr:
  "date_new y m d = Inr n \<longleftrightarrow> valid_ymd y m d \<and> n = ymd2ord y m d \<and> valid_date n"
  by (auto simp: date_new_def valid_date_ymd2ord)

lemma date_new_of:
  "valid_date n \<Longrightarrow> date_new (year_of n) (month_of n) (day_of n) = Inr n"
  using ymd_of_bounds [of n] by (auto simp: date_new_Inr valid_date_def)

section \<open>Stepping by months\<close>

definition add_months :: "date \<Rightarrow> int \<Rightarrow> date res" where
  "add_months d n =
     (let m0 = month_of d - 1 + n;
          year = year_of d + m0 div 12;
          month = m0 mod 12 + 1;
          last = days_in_month year month
      in date_new year month (min (day_of d) last))"

text \<open>The month counter of a date, and \<open>add_months\<close> as a step of it.\<close>

definition month_index :: "date \<Rightarrow> int" where
  "month_index d = 12 * year_of d + (month_of d - 1)"

lemma month_index_bounds:
  assumes "1 \<le> d"
  shows "month_start (month_index d) < d" "d \<le> month_start (month_index d + 1)"
    "1 \<le> day_of d" "day_of d \<le> 31" "d = month_start (month_index d) + day_of d"
  using ymd2ord_month [OF ymd_of_bounds(2) [OF assms]] ymd_of_bounds [OF assms]
    days_in_month_bounds [of "year_of d" "month_of d"]
  by (simp_all add: month_index_def valid_ymd_def)

lemma add_months_eq:
  assumes "1 \<le> d"
  shows "add_months d n =
    (let M = month_index d + n
     in if 12 \<le> M \<and> M < 120000 then Inr (month_start M + min (day_of d) (month_len M))
        else Inl ValueError)"
proof -
  define M where "M = month_index d + n"
  define y where "y = year_of d + (month_of d - 1 + n) div 12"
  define m where "m = (month_of d - 1 + n) mod 12 + 1"
  have Me: "M = month_of d - 1 + n + 12 * year_of d" by (simp add: M_def month_index_def)
  have M: "M div 12 = y" "M mod 12 + 1 = m" unfolding Me y_def m_def by simp_all
  define k where "k = min (day_of d) (month_len M)"
  have len: "month_len M = days_in_month y m" by (simp add: month_len_def M)
  have vk: "valid_ymd y m k"
    using month_index_bounds [OF assms] month_len_bounds [of M] M
    by (simp add: valid_ymd_def k_def len m_def)
  have ord: "ymd2ord y m k = month_start M + k"
    by (simp add: ymd2ord_def month_start_def M)
  have "valid_date (month_start M + k) \<longleftrightarrow> 12 \<le> M \<and> M < 120000"
    using vk len by (intro valid_date_month) (auto simp: month_start_Suc valid_ymd_def)
  then have "date_new y m k = (if 12 \<le> M \<and> M < 120000 then Inr (month_start M + k) else Inl ValueError)"
    using vk ord valid_date_ymd2ord [OF vk] by (simp add: date_new_def)
  moreover have "add_months d n = date_new y m k"
    by (simp add: add_months_def Let_def k_def len y_def m_def)
  ultimately show ?thesis by (simp add: Let_def M_def k_def)
qed

lemma add_months_strict:
  assumes "1 \<le> d" "add_months d m = Inr a" "add_months d n = Inr b" "m < n"
  shows "a < b"
proof -
  define M N where "M = month_index d + m" and "N = month_index d + n"
  have a: "a = month_start M + min (day_of d) (month_len M)"
    and b: "b = month_start N + min (day_of d) (month_len N)"
    using assms by (auto simp: add_months_eq Let_def M_def N_def split: if_splits)
  have "a \<le> month_start (M + 1)" by (simp add: a month_start_Suc)
  also have "\<dots> \<le> month_start N" using assms(4) by (intro month_start_less) (simp add: M_def N_def)
  also have "\<dots> < b"
    using month_index_bounds(3) [OF assms(1)] month_len_bounds [of N] by (simp add: b)
  finally show ?thesis .
qed

lemma add_months_valid:
  assumes "1 \<le> d" "add_months d n = Inr a"
  shows "valid_date a" "month_index a = month_index d + n"
    "day_of a = min (day_of d) (month_len (month_index d + n))"
proof -
  define M where "M = month_index d + n"
  have a: "a = month_start M + min (day_of d) (month_len M)" and M: "12 \<le> M" "M < 120000"
    using assms by (auto simp: add_months_eq Let_def M_def split: if_splits)
  have b: "month_start M < a" "a \<le> month_start (M + 1)"
    using month_index_bounds(3) [OF assms(1)] month_len_bounds [of M]
    by (simp_all add: a month_start_Suc)
  then show v: "valid_date a" using M valid_date_month by simp
  then have a1: "1 \<le> a" by (simp add: valid_date_def)
  show mi: "month_index a = month_index d + n"
    using month_unique [OF b month_index_bounds(1,2) [OF a1]] by (simp add: M_def)
  show "day_of a = min (day_of d) (month_len (month_index d + n))"
    using month_index_bounds(5) [OF a1] a mi by (simp add: M_def)
qed

lemma date_add_Inr: "date_add d n = Inr a \<longleftrightarrow> a = d + n \<and> valid_date a"
  by (auto simp: date_add_def)

section \<open>Properties\<close>

text \<open>Adding months to a date moves it by exactly that many months and keeps the day, or takes
  the last day of a shorter month.\<close>

theorem add_months_clamps:
  assumes "1 \<le> d" "add_months d n = Inr a"
  shows "12 * year_of a + month_of a = 12 * year_of d + month_of d + n \<and>
    day_of a = min (day_of d) (days_in_month (year_of a) (month_of a))"
proof -
  note a = add_months_valid [OF assms]
  have a1: "1 \<le> a" using a(1) by (simp add: valid_date_def)
  have "1 \<le> month_of a \<and> month_of a \<le> 12" using ymd_of_bounds(2) [OF a1] by (simp add: valid_ymd_def)
  then have "month_len (month_index a) = days_in_month (year_of a) (month_of a)"
    by (simp add: month_len_def month_index_def)
  then have "day_of a = min (day_of d) (days_in_month (year_of a) (month_of a))"
    using a(3) by (simp only: a(2))
  with a(2) show ?thesis by (simp add: month_index_def)
qed

theorem add_months_clamps_witness:
  "add_months (ymd2ord 2024 1 31) 1 = Inr (ymd2ord 2024 2 29) \<and> day_of (ymd2ord 2024 2 29) = 29"
proof -
  have o: "ymd2ord 2024 1 31 = 738916" "ymd2ord 2024 2 29 = 738945" by code_simp+
  have a: "add_months 738916 1 = Inr 738945" by code_simp
  have "day_of 738916 = 31" "days_in_month (year_of 738945) (month_of 738945) = 29" by code_simp+
  with add_months_clamps [OF _ a] have "day_of 738945 = 29" by simp
  with a show ?thesis by (simp add: o)
qed

end
