(* ===== verification/Recurrence.thy ===== *)
theory Recurrence
  imports Dates
begin

text \<open>
  \<open>Frequency\<close>, \<open>Recurrence\<close> and the week buckets of
  \<open>packages/forecast/src/rgnr8_forecast/dates.py\<close>.

  The loops of \<open>Recurrence.occurrences\<close> need not end (an \<open>interval\<close> of 0 steps nowhere), so
  they are \<open>partial_function (option)\<close>: \<open>None\<close> is a call that does not return. The lemmas show
  that the call returns or raises for every interval from 1 up, that what it returns is
  exactly the occurrences inside the window, in order, and that an interval of 0 hangs.
\<close>

section \<open>Recurring schedules\<close>

datatype frequency = WEEKLY | BIWEEKLY | SEMIMONTHLY | MONTHLY | QUARTERLY | ANNUAL

record recurrence =
  frequency :: frequency
  anchor :: date
  rec_interval :: int \<comment> \<open>default 1\<close>
  second_day :: "int option"
  rec_end :: "date option"
  rec_count :: "int option"

text \<open>\<open>_occ\<close>: the \<open>k\<close>-th occurrence from the anchor.\<close>

definition occ :: "recurrence \<Rightarrow> int \<Rightarrow> date res" where
  "occ r k =
     (if frequency r = WEEKLY \<or> frequency r = BIWEEKLY then
        let step = (if frequency r = BIWEEKLY then 2 else rec_interval r)
        in date_add (anchor r) (7 * (step * k))
      else
        res_bind (case frequency r of
              MONTHLY \<Rightarrow> Inr 1 | QUARTERLY \<Rightarrow> Inr 3 | ANNUAL \<Rightarrow> Inr 12
            | _ \<Rightarrow> Inl (KeyError ''SEMIMONTHLY''))
          (\<lambda>m. add_months (anchor r) (m * rec_interval r * k)))"

text \<open>The three loops of \<open>occurrences\<close>: back to the window, forward to it, through it.\<close>

partial_function (option) seek_down :: "(int \<Rightarrow> date res) \<Rightarrow> date \<Rightarrow> int \<Rightarrow> int run" where
  "seek_down f start k =
     (case f (k - 1) of
        Inl e \<Rightarrow> Some (Inl e)
      | Inr d \<Rightarrow> if start \<le> d then seek_down f start (k - 1) else Some (Inr k))"

partial_function (option) seek_up :: "(int \<Rightarrow> date res) \<Rightarrow> date \<Rightarrow> int \<Rightarrow> int run" where
  "seek_up f start k =
     (case f k of
        Inl e \<Rightarrow> Some (Inl e)
      | Inr d \<Rightarrow> if d < start then seek_up f start (k + 1) else Some (Inr k))"

partial_function (option) collect ::
  "(int \<Rightarrow> date res) \<Rightarrow> date \<Rightarrow> int option \<Rightarrow> int \<Rightarrow> date list \<Rightarrow> date list run" where
  "collect f hard_end cnt k out =
     (case f k of
        Inl e \<Rightarrow> Some (Inl e)
      | Inr d \<Rightarrow>
          if d \<le> hard_end then
            if cnt \<noteq> None \<and> the cnt \<le> k then Some (Inr out)
            else collect f hard_end cnt (k + 1) (if cnt = None \<or> 0 \<le> k then out @ [d] else out)
          else Some (Inr out))"

text \<open>\<open>_semimonthly\<close>: the days of one month, then the loop over the months.\<close>

definition semimonthly_days :: "int \<Rightarrow> int \<Rightarrow> date \<Rightarrow> date \<Rightarrow> date \<Rightarrow> date list \<Rightarrow> date list res" where
  "semimonthly_days d1 d2 start hard_end cursor out =
     (let last = days_in_month (year_of cursor) (month_of cursor)
      in fold_res
           (\<lambda>day out. res_bind (date_new (year_of cursor) (month_of cursor) day) (\<lambda>d.
              Inr (if start \<le> d \<and> d \<le> hard_end then out @ [d] else out)))
           (sort (remdups [min d1 last, min d2 last])) out)"

partial_function (option) semimonthly_loop ::
  "int \<Rightarrow> int \<Rightarrow> date \<Rightarrow> date \<Rightarrow> date \<Rightarrow> date list \<Rightarrow> date list run" where
  "semimonthly_loop d1 d2 start hard_end cursor out =
     (if cursor \<le> hard_end then
        case semimonthly_days d1 d2 start hard_end cursor out of
          Inl e \<Rightarrow> Some (Inl e)
        | Inr out' \<Rightarrow>
            (case add_months cursor 1 of
               Inl e \<Rightarrow> Some (Inl e)
             | Inr cursor' \<Rightarrow> semimonthly_loop d1 d2 start hard_end cursor' out')
      else Some (Inr (sort out)))"

definition semimonthly :: "recurrence \<Rightarrow> date \<Rightarrow> date \<Rightarrow> date list run" where
  "semimonthly r start hard_end =
     (let d1 = day_of (anchor r);
          d2 = (case second_day r of Some d \<Rightarrow> d | None \<Rightarrow> 31)
      in run_bind (Some (date_new (year_of start) (month_of start) 1)) (\<lambda>cursor.
           semimonthly_loop d1 d2 start hard_end cursor []))"

definition occurrences :: "recurrence \<Rightarrow> date \<Rightarrow> date \<Rightarrow> date list run" where
  "occurrences r start stop =
     (let hard_end = (case rec_end r of Some e \<Rightarrow> min stop e | None \<Rightarrow> stop)
      in if hard_end < start then Some (Inr [])
         else if frequency r = SEMIMONTHLY then semimonthly r start hard_end
         else
           run_bind (if rec_count r = None then seek_down (occ r) start 0 else Some (Inr 0)) (\<lambda>k.
             run_bind (seek_up (occ r) start k) (\<lambda>k.
               collect (occ r) hard_end (rec_count r) k [])))"

section \<open>Week buckets\<close>

record week_bucket =
  wb_index :: int
  wb_start :: date
  wb_end :: date

definition wb_contains :: "week_bucket \<Rightarrow> date \<Rightarrow> bool" where
  "wb_contains w d = (wb_start w \<le> d \<and> d \<le> wb_end w)"

definition week_buckets :: "date \<Rightarrow> int \<Rightarrow> week_bucket list res" where
  "week_buckets as_of weeks =
     map_res (\<lambda>i. res_bind (date_add as_of (7 * i)) (\<lambda>s.
         res_bind (date_add s 6) (\<lambda>e.
           Inr \<lparr>wb_index = i + 1, wb_start = s, wb_end = e\<rparr>)))
       [0..weeks - 1]"

definition bucket_index :: "date \<Rightarrow> date \<Rightarrow> int \<Rightarrow> int option" where
  "bucket_index as_of d weeks =
     (if d < as_of then None
      else let delta = d - as_of; idx = delta div 7
           in if idx < weeks then Some (idx + 1) else None)"

section \<open>The loops\<close>

text \<open>
  What the loops need of the stepped schedule: occurrences increase with the step and are
  valid dates.
\<close>

definition steps_up :: "(int \<Rightarrow> date res) \<Rightarrow> bool" where
  "steps_up f \<longleftrightarrow>
     (\<forall>j k a b. f j = Inr a \<longrightarrow> f k = Inr b \<longrightarrow> j < k \<longrightarrow> a < b) \<and>
     (\<forall>k a. f k = Inr a \<longrightarrow> valid_date a)"

lemma steps_upD:
  assumes "steps_up f"
  shows "f j = Inr a \<Longrightarrow> f k = Inr b \<Longrightarrow> j < k \<Longrightarrow> a < b"
    and "f k = Inr a \<Longrightarrow> 1 \<le> a" "f k = Inr a \<Longrightarrow> a \<le> max_ordinal"
  using assms unfolding steps_up_def valid_date_def by blast+

lemma steps_up_le: "steps_up f \<Longrightarrow> f j = Inr a \<Longrightarrow> f k = Inr b \<Longrightarrow> j \<le> k \<Longrightarrow> a \<le> b"
  using steps_upD(1) [of f j a k b] by (cases "j = k") (auto simp: order_le_less)

definition positive_steps :: "recurrence \<Rightarrow> bool" where
  "positive_steps r \<longleftrightarrow> valid_date (anchor r) \<and> (1 \<le> rec_interval r \<or> frequency r = BIWEEKLY)"

lemma occ_months:
  "frequency r = MONTHLY \<Longrightarrow> occ r k = add_months (anchor r) (1 * rec_interval r * k)"
  "frequency r = QUARTERLY \<Longrightarrow> occ r k = add_months (anchor r) (3 * rec_interval r * k)"
  "frequency r = ANNUAL \<Longrightarrow> occ r k = add_months (anchor r) (12 * rec_interval r * k)"
  "frequency r = SEMIMONTHLY \<Longrightarrow> occ r k = Inl (KeyError ''SEMIMONTHLY'')"
  by (simp_all add: occ_def)

lemma steps_up_occ:
  assumes "positive_steps r" shows "steps_up (occ r)"
proof -
  have a: "1 \<le> anchor r" using assms by (simp add: positive_steps_def valid_date_def)
  show ?thesis
  proof (cases "frequency r = WEEKLY \<or> frequency r = BIWEEKLY")
    case True
    define step where "step = (if frequency r = BIWEEKLY then 2 else rec_interval r)"
    have "0 < step" using assms True by (auto simp: positive_steps_def step_def)
    moreover have "occ r k = date_add (anchor r) (7 * (step * k))" for k
      using True by (simp add: occ_def step_def Let_def)
    ultimately show ?thesis by (auto simp: steps_up_def date_add_Inr)
  next
    case False
    then have i: "0 < rec_interval r" using assms by (auto simp: positive_steps_def)
    show ?thesis
    proof (cases "frequency r = SEMIMONTHLY")
      case False
      with \<open>\<not> (frequency r = WEEKLY \<or> frequency r = BIWEEKLY)\<close>
      obtain m :: int where m: "0 < m" "\<And>k. occ r k = add_months (anchor r) (m * rec_interval r * k)"
        using occ_months [of r] that [of 1] that [of 3] that [of 12] by (cases "frequency r") simp_all
      have "j < k \<Longrightarrow> m * rec_interval r * j < m * rec_interval r * k" for j k
        using m(1) i by simp
      then show ?thesis
        unfolding steps_up_def m(2) using add_months_strict [OF a] add_months_valid(1) [OF a] by blast
    qed (use \<open>\<not> (frequency r = WEEKLY \<or> frequency r = BIWEEKLY)\<close> in \<open>simp add: occ_months steps_up_def\<close>)
  qed
qed

text \<open>Termination: every step moves a valid date towards the end of the calendar.\<close>

lemma seek_down_returns:
  assumes "steps_up f" shows "seek_down f start k \<noteq> None"
proof (induction "case f (k - 1) of Inl _ \<Rightarrow> 0 | Inr d \<Rightarrow> nat d" arbitrary: k rule: less_induct)
  case less
  show ?case
  proof (cases "f (k - 1)")
    case (Inr d)
    show ?thesis
    proof (cases "start \<le> d")
      case True
      have "(case f (k - 1 - 1) of Inl _ \<Rightarrow> 0 | Inr d \<Rightarrow> nat d) < nat d"
        using steps_upD(1) [OF assms, of "k - 1 - 1" _ "k - 1"] Inr
        by (cases "f (k - 1 - 1)") (auto dest: steps_upD(2) [OF assms])
      then have "seek_down f start (k - 1) \<noteq> None" using Inr by (intro less) simp
      with True Inr show ?thesis by (subst seek_down.simps) simp
    qed (use Inr in \<open>subst seek_down.simps, simp\<close>)
  qed (subst seek_down.simps, simp)
qed

lemma seek_up_returns:
  assumes "steps_up f" shows "seek_up f start k \<noteq> None"
proof (induction "case f k of Inl _ \<Rightarrow> 0 | Inr d \<Rightarrow> nat (max_ordinal + 1 - d)" arbitrary: k rule: less_induct)
  case less
  show ?case
  proof (cases "f k")
    case (Inr d)
    have "(case f (k + 1) of Inl _ \<Rightarrow> 0 | Inr d \<Rightarrow> nat (max_ordinal + 1 - d)) < nat (max_ordinal + 1 - d)"
      using steps_upD(1) [OF assms, of k _ "k + 1"] Inr steps_upD(3) [OF assms Inr]
      by (cases "f (k + 1)") auto
    then have "seek_up f start (k + 1) \<noteq> None" using Inr by (intro less) simp
    with Inr show ?thesis by (subst seek_up.simps) simp
  qed (subst seek_up.simps, simp)
qed

lemma collect_returns:
  assumes "steps_up f" shows "collect f hard_end cnt k out \<noteq> None"
proof (induction "case f k of Inl _ \<Rightarrow> 0 | Inr d \<Rightarrow> nat (max_ordinal + 1 - d)" arbitrary: k out rule: less_induct)
  case less
  show ?case
  proof (cases "f k")
    case (Inr d)
    have "(case f (k + 1) of Inl _ \<Rightarrow> 0 | Inr d \<Rightarrow> nat (max_ordinal + 1 - d)) < nat (max_ordinal + 1 - d)"
      using steps_upD(1) [OF assms, of k _ "k + 1"] Inr steps_upD(3) [OF assms Inr]
      by (cases "f (k + 1)") auto
    then have "collect f hard_end cnt (k + 1) out' \<noteq> None" for out' using Inr by (intro less) simp
    with Inr show ?thesis by (subst collect.simps) simp
  qed (subst collect.simps, simp)
qed

text \<open>What a returning loop established.\<close>

lemma seek_down_result:
  assumes "seek_down f start k = Some (Inr k')"
  shows "k' \<le> k \<and> (\<exists>d. f (k' - 1) = Inr d \<and> d < start)"
proof -
  have "\<forall>k'. r = Inr k' \<longrightarrow> k' \<le> k \<and> (\<exists>d. f (k' - 1) = Inr d \<and> d < start)"
    if "seek_down f start k = Some r" for r
    using that
  proof (rule seek_down.raw_induct [where P = "\<lambda>f start k r. \<forall>k'. r = Inr k' \<longrightarrow> k' \<le> k \<and> (\<exists>d. f (k' - 1) = Inr d \<and> d < start)", rotated])
    fix sd f k and start :: date and r :: "int res"
    assume IH: "\<And>f start k r. sd f start k = Some r \<Longrightarrow>
        \<forall>k'. r = Inr k' \<longrightarrow> k' \<le> k \<and> (\<exists>d. f (k' - 1) = Inr d \<and> d < start)"
      and eq: "(case f (k - 1) of Inl e \<Rightarrow> Some (Inl e)
        | Inr d \<Rightarrow> if start \<le> d then sd f start (k - 1) else Some (Inr k)) = Some r"
    show "\<forall>k'. r = Inr k' \<longrightarrow> k' \<le> k \<and> (\<exists>d. f (k' - 1) = Inr d \<and> d < start)"
    proof (cases "f (k - 1)")
      case (Inr d)
      then show ?thesis using eq IH [of f start "k - 1" r] by (cases "start \<le> d") (auto simp: not_le)
    qed (use eq in auto)
  qed
  with assms show ?thesis by blast
qed

lemma seek_up_result:
  assumes "seek_up f start k = Some (Inr k')"
  shows "k \<le> k' \<and> (\<exists>d. f k' = Inr d \<and> start \<le> d) \<and>
    (\<forall>j. k \<le> j \<and> j < k' \<longrightarrow> (\<exists>d. f j = Inr d \<and> d < start))"
proof -
  let ?P = "\<lambda>f start k r. \<forall>k'. r = Inr k' \<longrightarrow> k \<le> k' \<and> (\<exists>d. f k' = Inr d \<and> start \<le> d) \<and>
    (\<forall>j. k \<le> j \<and> j < k' \<longrightarrow> (\<exists>d. f j = Inr d \<and> d < (start::int)))"
  have "?P f start k r" if "seek_up f start k = Some r" for r
    using that
  proof (rule seek_up.raw_induct [where P = ?P, rotated])
    fix su f start k and r :: "int res"
    assume IH: "\<And>f start k r. su f start k = Some r \<Longrightarrow> ?P f start k r"
      and eq: "(case f k of Inl e \<Rightarrow> Some (Inl e)
        | Inr d \<Rightarrow> if d < start then su f start (k + 1) else Some (Inr k)) = Some r"
    show "?P f start k r"
    proof (intro allI impI)
      fix k' assume r: "r = Inr k'"
      with eq obtain d where d: "f k = Inr d" by (auto split: sum.splits)
      show "k \<le> k' \<and> (\<exists>d. f k' = Inr d \<and> start \<le> d) \<and>
        (\<forall>j. k \<le> j \<and> j < k' \<longrightarrow> (\<exists>d. f j = Inr d \<and> d < start))"
      proof (cases "d < start")
        case True
        then have su: "su f start (k + 1) = Some (Inr k')" using eq r d by simp
        have "j = k \<or> k + 1 \<le> j" if "k \<le> j" for j using that by linarith
        then show ?thesis using IH [OF su] True d by force
      qed (use eq r d in auto)
    qed
  qed
  with assms show ?thesis by blast
qed

lemma collect_result:
  assumes "collect f hard_end cnt k out = Some (Inr ys)"
  shows "\<exists>n\<ge>k. (\<forall>j. k \<le> j \<and> j < n \<longrightarrow> (\<exists>d. f j = Inr d \<and> d \<le> hard_end) \<and> (cnt \<noteq> None \<longrightarrow> j < the cnt)) \<and>
    ((\<exists>d. f n = Inr d \<and> hard_end < d) \<or> (cnt \<noteq> None \<and> the cnt \<le> n)) \<and>
    ys = out @ map (\<lambda>j. projr (f j)) (filter (\<lambda>j. cnt = None \<or> 0 \<le> j) [k..n - 1])"
proof -
  let ?Q = "\<lambda>f hard_end cnt k out ys n. (\<forall>j. k \<le> j \<and> j < n \<longrightarrow>
        (\<exists>d. f j = Inr d \<and> d \<le> (hard_end::int)) \<and> (cnt \<noteq> None \<longrightarrow> j < the cnt)) \<and>
    ((\<exists>d. f n = Inr d \<and> hard_end < d) \<or> (cnt \<noteq> None \<and> the cnt \<le> n)) \<and>
    ys = out @ map (\<lambda>j. projr (f j)) (filter (\<lambda>j. cnt = None \<or> 0 \<le> j) [k..n - 1])"
  let ?P = "\<lambda>f hard_end cnt k out r. \<forall>ys. r = Inr ys \<longrightarrow> (\<exists>n\<ge>k. ?Q f hard_end cnt k out ys n)"
  have "?P f hard_end cnt k out r" if "collect f hard_end cnt k out = Some r" for r
    using that
  proof (rule collect.raw_induct [where P = ?P, rotated])
    fix co f hard_end cnt k out and r :: "date list res"
    assume IH: "\<And>f hard_end cnt k out r. co f hard_end cnt k out = Some r \<Longrightarrow> ?P f hard_end cnt k out r"
      and eq: "(case f k of Inl e \<Rightarrow> Some (Inl e)
        | Inr d \<Rightarrow> if d \<le> hard_end then if cnt \<noteq> None \<and> the cnt \<le> k then Some (Inr out)
            else co f hard_end cnt (k + 1) (if cnt = None \<or> 0 \<le> k then out @ [d] else out)
          else Some (Inr out)) = Some r"
    show "?P f hard_end cnt k out r"
    proof (intro allI impI)
      fix ys assume r: "r = Inr ys"
      with eq obtain d where d: "f k = Inr d" by (auto split: sum.splits)
      show "\<exists>n\<ge>k. ?Q f hard_end cnt k out ys n"
      proof (cases "d \<le> hard_end \<and> \<not> (cnt \<noteq> None \<and> the cnt \<le> k)")
        case False
        then have "?Q f hard_end cnt k out ys k" using eq r d by (auto split: if_splits)
        then show ?thesis by blast
      next
        case True
        let ?out = "if cnt = None \<or> 0 \<le> k then out @ [d] else out"
        from True have "co f hard_end cnt (k + 1) ?out = Some (Inr ys)" using eq r d by auto
        from IH [OF this] obtain n where n: "k + 1 \<le> n" "?Q f hard_end cnt (k + 1) ?out ys n" by blast
        have up: "[k..n - 1] = k # [k + 1..n - 1]" using n(1) by (simp add: upto_rec1)
        have "(\<exists>d. f j = Inr d \<and> d \<le> hard_end) \<and> (cnt \<noteq> None \<longrightarrow> j < the cnt)"
          if "k \<le> j \<and> j < n" for j
        proof -
          from that consider "j = k" | "k + 1 \<le> j \<and> j < n" by linarith
          then show ?thesis using n(2) True d by cases (auto simp: not_le)
        qed
        then have "?Q f hard_end cnt k out ys n" using n(2) True d unfolding up by auto
        then show ?thesis using n(1) by (intro exI [of _ n]) simp
      qed
    qed
  qed
  with assms show ?thesis by blast
qed

section \<open>Occurrences of a stepped schedule\<close>

definition stop_date :: "recurrence \<Rightarrow> date \<Rightarrow> date" where
  "stop_date r stop = (case rec_end r of Some e \<Rightarrow> min stop e | None \<Rightarrow> stop)"

text \<open>The set the window asks for; \<open>count\<close> caps the steps from the anchor on.\<close>

definition in_schedule :: "recurrence \<Rightarrow> date \<Rightarrow> date \<Rightarrow> date \<Rightarrow> bool" where
  "in_schedule r start stop d \<longleftrightarrow> start \<le> d \<and> d \<le> stop_date r stop \<and>
     (\<exists>k. occ r k = Inr d \<and> (\<forall>c. rec_count r = Some c \<longrightarrow> 0 \<le> k \<and> k < c))"

lemma occurrences_unfold:
  "frequency r \<noteq> SEMIMONTHLY \<Longrightarrow> occurrences r start stop =
     (if stop_date r stop < start then Some (Inr [])
      else run_bind (if rec_count r = None then seek_down (occ r) start 0 else Some (Inr 0)) (\<lambda>k.
             run_bind (seek_up (occ r) start k) (\<lambda>k.
               collect (occ r) (stop_date r stop) (rec_count r) k [])))"
  by (simp add: occurrences_def stop_date_def Let_def)

lemma occurrences_stepped_returns:
  assumes "positive_steps r" "frequency r \<noteq> SEMIMONTHLY"
  shows "occurrences r start stop \<noteq> None"
proof -
  note up = steps_up_occ [OF assms(1)]
  have "run_bind (seek_up (occ r) start k)
      (\<lambda>k. collect (occ r) (stop_date r stop) (rec_count r) k []) \<noteq> None" for k
    by (rule run_bind_returns, rule seek_up_returns [OF up], rule collect_returns [OF up])
  moreover have "(if rec_count r = None then seek_down (occ r) start 0 else Some (Inr 0)) \<noteq> None"
    using seek_down_returns [OF up] by (simp del: not_None_eq)
  ultimately show ?thesis
    unfolding occurrences_unfold [OF assms(2)] by (simp del: not_None_eq add: run_bind_returns)
qed

lemma sorted_wrt_projr_steps:
  assumes "steps_up f" "\<And>j. j \<in> set js \<Longrightarrow> \<exists>d. f j = Inr d" "sorted_wrt (<) js"
  shows "sorted_wrt (<) (map (\<lambda>j. projr (f j)) js)"
  using assms(2,3)
proof (induction js)
  case (Cons j js)
  have "projr (f j) < projr (f i)" if i: "i \<in> set js" for i
  proof -
    obtain a b where "f j = Inr a" "f i = Inr b" using Cons.prems(1) i by (metis list.set_intros)
    then show ?thesis using steps_upD(1) [OF assms(1)] Cons.prems(2) i by simp
  qed
  then show ?case using Cons by auto
qed simp

lemma sorted_upto_int: "sorted_wrt (<) (filter P [a..b::int])"
  by (intro sorted_wrt_filter) (simp add: strict_sorted_iff)

theorem occurrences_stepped_exact:
  assumes "positive_steps r" "frequency r \<noteq> SEMIMONTHLY"
    and "occurrences r start stop = Some (Inr ds)"
  shows "sorted_wrt (<) ds" "set ds = {d. in_schedule r start stop d}"
proof -
  define f where "f = occ r"
  define he where "he = stop_date r stop"
  define c where "c = rec_count r"
  note up = steps_up_occ [OF assms(1), folded f_def]
  have "sorted_wrt (<) ds \<and> set ds = {d. in_schedule r start stop d}"
  proof (cases "he < start")
    case True
    then show ?thesis
      using assms(2,3) by (auto simp: occurrences_unfold he_def [symmetric] in_schedule_def)
  next
    case False
    then obtain k0 k where k0: "(if c = None then seek_down f start 0 else Some (Inr 0)) = Some (Inr k0)"
      and k: "seek_up f start k0 = Some (Inr k)" and ds: "collect f he c k [] = Some (Inr ds)"
      using assms(3) unfolding occurrences_unfold [OF assms(2)] he_def [symmetric] c_def [symmetric]
        f_def [symmetric] if_not_P [OF False] run_bind_Inr by blast
    from seek_up_result [OF k] obtain dk where dk: "k0 \<le> k" "f k = Inr dk" "start \<le> dk"
      and before: "\<And>j. k0 \<le> j \<and> j < k \<Longrightarrow> \<exists>d. f j = Inr d \<and> d < start" by blast
    from collect_result [OF ds] obtain n where n: "k \<le> n"
      and inw: "\<And>j. k \<le> j \<and> j < n \<Longrightarrow> (\<exists>d. f j = Inr d \<and> d \<le> he) \<and> (c \<noteq> None \<longrightarrow> j < the c)"
      and stop: "(\<exists>d. f n = Inr d \<and> he < d) \<or> (c \<noteq> None \<and> the c \<le> n)"
      and eq: "ds = map (\<lambda>j. projr (f j)) (filter (\<lambda>j. c = None \<or> 0 \<le> j) [k..n - 1])" by auto
    have low: "d < start" if "f j = Inr d" "j < k" "c \<noteq> None \<longrightarrow> 0 \<le> j" for j d
    proof (cases "k0 \<le> j")
      case True
      with before that show ?thesis by force
    next
      case False
      with that k0 have "seek_down f start 0 = Some (Inr k0)" by (auto split: if_splits)
      then obtain d' where "f (k0 - 1) = Inr d'" "d' < start" using seek_down_result by blast
      with steps_up_le [OF up that(1)] False show ?thesis by fastforce
    qed
    have "in_schedule r start stop d \<longleftrightarrow> (\<exists>j. k \<le> j \<and> j < n \<and> (c = None \<or> 0 \<le> j) \<and> f j = Inr d)" for d
    proof
      assume "in_schedule r start stop d"
      then obtain j where j: "f j = Inr d" "start \<le> d" "d \<le> he" "\<And>m. c = Some m \<Longrightarrow> 0 \<le> j \<and> j < m"
        by (auto simp: in_schedule_def f_def he_def c_def)
      then have "k \<le> j" using low [OF j(1)] by (cases c) force+
      moreover have "j < n"
      proof (rule ccontr)
        assume "\<not> j < n"
        with stop j(4) obtain d' where "f n = Inr d'" "he < d'" by (cases c) force+
        with steps_up_le [OF up _ j(1)] j(3) \<open>\<not> j < n\<close> show False by force
      qed
      ultimately show "\<exists>j. k \<le> j \<and> j < n \<and> (c = None \<or> 0 \<le> j) \<and> f j = Inr d"
        using j by (cases c) auto
    next
      assume "\<exists>j. k \<le> j \<and> j < n \<and> (c = None \<or> 0 \<le> j) \<and> f j = Inr d"
      then obtain j where j: "k \<le> j" "j < n" "c = None \<or> 0 \<le> j" "f j = Inr d" by blast
      then have "start \<le> d" using steps_up_le [OF up dk(2) j(4)] dk(3) by simp
      then show "in_schedule r start stop d"
        using inw [of j] j by (force simp: in_schedule_def f_def he_def c_def)
    qed
    moreover have "set ds = {d. \<exists>j. k \<le> j \<and> j < n \<and> (c = None \<or> 0 \<le> j) \<and> f j = Inr d}"
      using inw unfolding eq by (force simp: image_iff)
    moreover have "sorted_wrt (<) ds"
      unfolding eq using inw by (intro sorted_wrt_projr_steps [OF up] sorted_upto_int) auto
    ultimately show ?thesis by simp
  qed
  then show "sorted_wrt (<) ds" "set ds = {d. in_schedule r start stop d}" by simp_all
qed

text \<open>An \<open>interval\<close> of 0: every step is the anchor again, so the backward loop never ends.\<close>

lemma seek_down_stuck:
  assumes "\<And>k. f k = Inr d" "start \<le> d" shows "seek_down f start k = None"
proof (rule ccontr)
  assume "seek_down f start k \<noteq> None"
  then obtain r where r: "seek_down f start k = Some r" by blast
  have "\<not> ((\<forall>k. f k = Inr d) \<and> start \<le> d)"
  proof (rule seek_down.raw_induct [where P = "\<lambda>f start k r. \<not> ((\<forall>k. f k = Inr d) \<and> start \<le> d)", OF _ r])
    fix sd f start k and r :: "int res"
    assume IH: "\<And>f start k r. sd f start k = Some r \<Longrightarrow> \<not> ((\<forall>k. f k = Inr d) \<and> start \<le> d)"
      and eq: "(case f (k - 1) of Inl e \<Rightarrow> Some (Inl e)
        | Inr d \<Rightarrow> if start \<le> d then sd f start (k - 1) else Some (Inr k)) = Some r"
    show "\<not> ((\<forall>k. f k = Inr d) \<and> start \<le> d)"
      using eq IH [of f start "k - 1" r] by auto
  qed
  with assms show False by simp
qed

lemma occurrences_stuck:
  assumes "frequency r = WEEKLY" "rec_interval r = 0" "rec_count r = None"
    and "valid_date (anchor r)" "start \<le> anchor r" "start \<le> stop_date r stop"
  shows "occurrences r start stop = None"
proof -
  have "occ r k = Inr (anchor r)" for k
    using assms by (simp add: occ_def Let_def date_add_def)
  then show ?thesis
    using assms by (simp add: occurrences_unfold seek_down_stuck)
qed

section \<open>Semi-monthly schedules\<close>

lemma add_months_1_less: "1 \<le> d \<Longrightarrow> add_months d 1 = Inr c \<Longrightarrow> d < c \<and> valid_date c"
  using add_months_valid [of d 1 c] month_index_bounds [of d] month_index_bounds [of c]
  by (force simp: valid_date_def)

lemma semimonthly_loop_returns:
  "valid_date cursor \<Longrightarrow> semimonthly_loop d1 d2 start hard_end cursor out \<noteq> None"
proof (induction "nat (max_ordinal - cursor)" arbitrary: cursor out rule: less_induct)
  case less
  then have c: "1 \<le> cursor" "cursor \<le> max_ordinal" by (simp_all add: valid_date_def)
  have "semimonthly_loop d1 d2 start hard_end c' out' \<noteq> None"
    if "add_months cursor 1 = Inr c'" for c' out'
    using add_months_1_less [OF c(1) that] c(2) by (intro less.hyps) (auto simp: valid_date_def)
  then show ?case
    by (subst semimonthly_loop.simps) (simp split: sum.split)
qed

lemma semimonthly_returns: "semimonthly r start hard_end \<noteq> None"
  unfolding semimonthly_def Let_def
  by (intro run_bind_returns semimonthly_loop_returns) (auto simp: date_new_Inr)

lemma semimonthly_days_window:
  assumes "semimonthly_days d1 d2 start hard_end cursor out = Inr ys"
    and "\<forall>d\<in>set out. start \<le> d \<and> d \<le> hard_end"
  shows "\<forall>d\<in>set ys. start \<le> d \<and> d \<le> hard_end"
  using assms unfolding semimonthly_days_def Let_def
  by (rule fold_res_invariant) (auto simp: result_simps split: if_splits)

lemma semimonthly_loop_window:
  assumes "semimonthly_loop d1 d2 start hard_end cursor out = Some (Inr ys)"
    and "\<forall>d\<in>set out. start \<le> d \<and> d \<le> hard_end"
  shows "sorted ys \<and> (\<forall>d\<in>set ys. start \<le> d \<and> d \<le> hard_end)"
proof -
  let ?P = "\<lambda>d1 d2 start hard_end cursor out r. \<forall>ys. r = Inr ys \<longrightarrow>
    (\<forall>d\<in>set out. start \<le> d \<and> d \<le> hard_end) \<longrightarrow>
    sorted ys \<and> (\<forall>d\<in>set ys. start \<le> d \<and> d \<le> (hard_end::date))"
  have "?P d1 d2 start hard_end cursor out r"
    if "semimonthly_loop d1 d2 start hard_end cursor out = Some r" for r
    using that
  proof (rule semimonthly_loop.raw_induct [where P = ?P, rotated])
    fix sl d1 d2 start hard_end cursor out and r :: "date list res"
    assume IH: "\<And>d1 d2 start hard_end cursor out r.
        sl d1 d2 start hard_end cursor out = Some r \<Longrightarrow> ?P d1 d2 start hard_end cursor out r"
      and eq: "(if cursor \<le> hard_end
        then case semimonthly_days d1 d2 start hard_end cursor out of Inl e \<Rightarrow> Some (Inl e)
          | Inr out' \<Rightarrow> (case add_months cursor 1 of Inl e \<Rightarrow> Some (Inl e)
              | Inr cursor' \<Rightarrow> sl d1 d2 start hard_end cursor' out')
        else Some (Inr (sort out))) = Some r"
    show "?P d1 d2 start hard_end cursor out r"
    proof (intro allI impI)
      fix ys assume r: "r = Inr ys" and out: "\<forall>d\<in>set out. start \<le> d \<and> d \<le> hard_end"
      show "sorted ys \<and> (\<forall>d\<in>set ys. start \<le> d \<and> d \<le> hard_end)"
      proof (cases "cursor \<le> hard_end")
        case True
        with eq r obtain out' c' where "semimonthly_days d1 d2 start hard_end cursor out = Inr out'"
          and "sl d1 d2 start hard_end c' out' = Some (Inr ys)" by (auto split: sum.splits)
        with IH semimonthly_days_window [OF _ out] show ?thesis by blast
      qed (use eq r out in auto)
    qed
  qed
  with assms show ?thesis by blast
qed

lemma semimonthly_window:
  "semimonthly r start hard_end = Some (Inr ds) \<Longrightarrow>
     sorted ds \<and> (\<forall>d\<in>set ds. start \<le> d \<and> d \<le> hard_end)"
  unfolding semimonthly_def Let_def run_bind_Inr
  by (elim exE conjE) (erule semimonthly_loop_window, simp)

section \<open>Every schedule\<close>

lemma occurrences_returns:
  "positive_steps r \<Longrightarrow> occurrences r start stop \<noteq> None"
  using occurrences_stepped_returns [of r] semimonthly_returns
  by (cases "frequency r = SEMIMONTHLY") (simp_all add: occurrences_def Let_def del: not_None_eq)

lemma occurrences_window:
  assumes "positive_steps r" "occurrences r start stop = Some (Inr ds)"
  shows "sorted ds" "d \<in> set ds \<Longrightarrow> start \<le> d \<and> d \<le> stop"
proof -
  have "sorted ds \<and> (\<forall>d\<in>set ds. start \<le> d \<and> d \<le> stop)"
  proof (cases "frequency r = SEMIMONTHLY")
    case True
    then show ?thesis
      using assms(2)
      by (auto simp: occurrences_def Let_def dest!: semimonthly_window split: if_splits option.splits)
  next
    case False
    note occurrences_stepped_exact [OF assms(1) False assms(2)]
    then show ?thesis
      by (auto simp: in_schedule_def stop_date_def strict_sorted_iff split: option.splits)
  qed
  then show "sorted ds" "d \<in> set ds \<Longrightarrow> start \<le> d \<and> d \<le> stop" by auto
qed

section \<open>Weeks\<close>

definition week_at :: "date \<Rightarrow> int \<Rightarrow> week_bucket" where
  "week_at as_of i = \<lparr>wb_index = i + 1, wb_start = as_of + 7 * i, wb_end = as_of + 7 * i + 6\<rparr>"

lemma week_buckets_Inr:
  assumes "week_buckets as_of n = Inr ws"
  shows "ws = map (week_at as_of) [0..n - 1]"
    and "0 \<le> k \<Longrightarrow> k < 7 * n \<Longrightarrow> valid_date (as_of + k)"
proof -
  have all2: "list_all2 (\<lambda>i w. w = week_at as_of i \<and> valid_date (as_of + 7 * i) \<and>
      valid_date (as_of + 7 * i + 6)) [0..n - 1] ws"
    using assms unfolding week_buckets_def map_res_Inr
    by (rule list_all2_mono) (auto simp: result_simps date_add_Inr week_at_def)
  then show "ws = map (week_at as_of) [0..n - 1]"
    by (auto simp: list_all2_conv_all_nth intro: nth_equalityI)
  assume k: "0 \<le> k" "k < 7 * n"
  define i where "i = k div 7"
  have i: "7 * i \<le> k" "k \<le> 7 * i + 6" "i \<in> set [0..n - 1]" using k by (auto simp: i_def)
  from all2 i(3) have "valid_date (as_of + 7 * i)" "valid_date (as_of + 7 * i + 6)"
    by (auto dest: list_all2_left)
  with i show "valid_date (as_of + k)" by (simp add: valid_date_def)
qed

lemma wb_contains_week_at: "wb_contains (week_at as_of i) d \<longleftrightarrow> (d - as_of) div 7 = i"
proof
  assume "wb_contains (week_at as_of i) d"
  then show "(d - as_of) div 7 = i"
    by (intro int_div_pos_eq [where r = "d - as_of - 7 * i"]) (auto simp: wb_contains_def week_at_def)
next
  assume "(d - as_of) div 7 = i"
  then have "7 * i \<le> d - as_of \<and> d - as_of \<le> 7 * i + 6" by auto
  then show "wb_contains (week_at as_of i) d" by (auto simp: wb_contains_def week_at_def)
qed

lemma wb_index_week_at [simp]: "wb_index (week_at as_of i) = i + 1"
  by (simp add: week_at_def)

lemma bucket_index_eq:
  assumes "week_buckets as_of n = Inr ws"
  shows "bucket_index as_of d n = Some i \<longleftrightarrow> (\<exists>w\<in>set ws. wb_contains w d \<and> wb_index w = i)"
proof -
  have "(\<exists>w\<in>set ws. wb_contains w d \<and> wb_index w = i) \<longleftrightarrow>
      (\<exists>j\<in>{0..n - 1}. (d - as_of) div 7 = j \<and> j + 1 = i)"
    using week_buckets_Inr(1) [OF assms] by (auto simp: wb_contains_week_at wb_index_week_at)
  also have "\<dots> \<longleftrightarrow> bucket_index as_of d n = Some i"
    by (auto simp: bucket_index_def Let_def pos_imp_zdiv_nonneg_iff not_less)
  finally show ?thesis by simp
qed

section \<open>Properties\<close>

declare seek_down.simps [code] seek_up.simps [code] collect.simps [code] semimonthly_loop.simps [code]

definition example_weekly :: "int \<Rightarrow> recurrence" where
  "example_weekly step =
     \<lparr>frequency = WEEKLY, anchor = 738000, rec_interval = step, second_day = None,
      rec_end = None, rec_count = None\<rparr>"

text \<open>C16. The occurrences of a weekly, biweekly, monthly, quarterly or annual schedule in a window
  are listed once each in increasing order, and are exactly the scheduled dates of the window
  (up to the end date and, counted from the anchor, the number of occurrences).\<close>

theorem occurrences_exact:
  assumes "positive_steps r" "frequency r \<noteq> SEMIMONTHLY"
    and "occurrences r start stop = Some (Inr ds)"
  shows "sorted_wrt (<) ds \<and> set ds = {d. in_schedule r start stop d}"
  using occurrences_stepped_exact [OF assms] by blast

theorem occurrences_exact_witness:
  "occurrences (example_weekly 2) 738001 738040 = Some (Inr [738014, 738028]) \<and>
     {738014, 738028} = {d. in_schedule (example_weekly 2) 738001 738040 d}"
proof -
  have "occurrences (example_weekly 2) 738001 738040 = Some (Inr [738014, 738028])" by code_simp
  with occurrences_exact [OF _ _ this] show ?thesis
    by (simp add: example_weekly_def positive_steps_def valid_date_def max_ordinal_def)
qed

text \<open>A weekly schedule with an interval of 0 and no count hangs: the call does not return
  once its anchor is not before the window and the window is not empty.\<close>

theorem occurrences_interval_zero_hangs:
  assumes "frequency r = WEEKLY" "rec_interval r = 0" "rec_count r = None"
    and "valid_date (anchor r)" "start \<le> anchor r" "start \<le> stop_date r stop"
  shows "occurrences r start stop = None"
  using assms by (rule occurrences_stuck)

theorem occurrences_interval_zero_hangs_witness:
  "occurrences (example_weekly 0) 738000 738090 = None"
  by (rule occurrences_interval_zero_hangs)
    (simp_all add: example_weekly_def valid_date_def max_ordinal_def stop_date_def)

text \<open>Every schedule with an interval of at least one returns or raises, and what it returns
  is sorted and inside the window.\<close>

theorem occurrences_total_in_window:
  assumes "positive_steps r"
  shows "\<exists>res. occurrences r start stop = Some res \<and>
    (case res of Inl _ \<Rightarrow> True | Inr ds \<Rightarrow> sorted ds \<and> (\<forall>d\<in>set ds. start \<le> d \<and> d \<le> stop))"
proof -
  from occurrences_returns [OF assms] obtain res where "occurrences r start stop = Some res" by blast
  then show ?thesis
    using occurrences_window [OF assms] by (cases res) auto
qed

theorem occurrences_total_in_window_witness:
  "\<exists>res. occurrences (example_weekly 1) 738001 738090 = Some res"
  using occurrences_total_in_window [of "example_weekly 1"]
  by (fastforce simp: example_weekly_def positive_steps_def valid_date_def max_ordinal_def)

text \<open>A date is in the bucket of the week that contains it, and in none beyond the horizon.\<close>

theorem bucket_index_is_week:
  assumes "week_buckets as_of n = Inr ws"
  shows "bucket_index as_of d n = Some i \<longleftrightarrow> (\<exists>w\<in>set ws. wb_contains w d \<and> wb_index w = i)"
  using assms by (rule bucket_index_eq)

theorem bucket_index_is_week_witness:
  "\<exists>ws. week_buckets 738000 2 = Inr ws \<and> (\<exists>w\<in>set ws. wb_contains w 738009 \<and> wb_index w = 2)"
proof -
  have ws: "week_buckets 738000 2 = Inr [\<lparr>wb_index = 1, wb_start = 738000, wb_end = 738006\<rparr>,
      \<lparr>wb_index = 2, wb_start = 738007, wb_end = 738013\<rparr>]"
    by code_simp
  have "bucket_index 738000 738009 2 = Some 2" by code_simp
  then have "\<exists>w\<in>set [\<lparr>wb_index = 1, wb_start = 738000, wb_end = 738006\<rparr>,
      \<lparr>wb_index = 2, wb_start = 738007, wb_end = 738013\<rparr>]. wb_contains w 738009 \<and> wb_index w = 2"
    by (simp only: bucket_index_is_week [OF ws])
  with ws show ?thesis by (intro exI conjI)
qed

end
