(* ===== verification/Forecast_Model.thy ===== *)
theory Forecast_Model
  imports Money Recurrence
begin

text \<open>
  The vocabulary of the forecast: \<open>enums.py\<close>, the input bundle, the scenario assumptions and
  the configuration of \<open>models.py\<close>, and the resolved cash flow of \<open>flow.py\<close>, all of
  \<open>packages/forecast/src/rgnr8_forecast\<close>. A dataclass is a record, an enum a datatype; a
  field that several classes share gets the class's prefix.
\<close>

section \<open>Enumerations\<close>

datatype direction = INFLOW | OUTFLOW

datatype confidence = RECORDED | PREDICTED | PLANNED | SCENARIO

datatype category =
    CUSTOMER_RECEIPT | PIPELINE_RECEIPT | OTHER_INFLOW | VENDOR_PAYMENT | PAYROLL_NET
  | PAYROLL_TAX | TAX_REMITTANCE | DEBT_SERVICE | RENT | OWNER_DISTRIBUTION
  | CAPITAL_EXPENDITURE | REFUND_CHARGEBACK | OTHER_OUTFLOW | TRANSFER

datatype scenario = BASE | DOWNSIDE | UPSIDE

datatype publication_status = PRELIMINARY | VERIFIED | PUBLISHED

datatype invoice_status = OPEN | PARTIAL | DISPUTED

text \<open>\<open>.value\<close> of the members that are compared as strings.\<close>

fun direction_value :: "direction \<Rightarrow> string" where
  "direction_value INFLOW = ''INFLOW''"
| "direction_value OUTFLOW = ''OUTFLOW''"

fun category_value :: "category \<Rightarrow> string" where
  "category_value CUSTOMER_RECEIPT = ''CUSTOMER_RECEIPT''"
| "category_value PIPELINE_RECEIPT = ''PIPELINE_RECEIPT''"
| "category_value OTHER_INFLOW = ''OTHER_INFLOW''"
| "category_value VENDOR_PAYMENT = ''VENDOR_PAYMENT''"
| "category_value PAYROLL_NET = ''PAYROLL_NET''"
| "category_value PAYROLL_TAX = ''PAYROLL_TAX''"
| "category_value TAX_REMITTANCE = ''TAX_REMITTANCE''"
| "category_value DEBT_SERVICE = ''DEBT_SERVICE''"
| "category_value RENT = ''RENT''"
| "category_value OWNER_DISTRIBUTION = ''OWNER_DISTRIBUTION''"
| "category_value CAPITAL_EXPENDITURE = ''CAPITAL_EXPENDITURE''"
| "category_value REFUND_CHARGEBACK = ''REFUND_CHARGEBACK''"
| "category_value OTHER_OUTFLOW = ''OTHER_OUTFLOW''"
| "category_value TRANSFER = ''TRANSFER''"

fun scenario_value :: "scenario \<Rightarrow> string" where
  "scenario_value BASE = ''BASE''"
| "scenario_value DOWNSIDE = ''DOWNSIDE''"
| "scenario_value UPSIDE = ''UPSIDE''"

text \<open>\<open>CONFIDENCE_WEIGHT\<close>.\<close>

fun confidence_weight :: "confidence \<Rightarrow> int" where
  "confidence_weight RECORDED = 100"
| "confidence_weight PREDICTED = 70"
| "confidence_weight PLANNED = 55"
| "confidence_weight SCENARIO = 30"

lemma confidence_weight_bounds: "30 \<le> confidence_weight c" "confidence_weight c \<le> 100"
  by (cases c; simp)+

section \<open>Inputs\<close>

record provenance =
  source_system :: string
  source_type :: string
  source_id :: string
  source_version :: string

record cash_position =
  cp_as_of :: date
  cp_available :: money
  cp_restricted :: money
  cp_verified :: bool

record invoice =
  inv_id :: string
  inv_customer_id :: string
  inv_issue_date :: date
  inv_due_date :: date
  inv_open_amount :: money
  inv_status :: invoice_status
  inv_provenance :: "provenance option"

record payment_observation =
  po_due_date :: date
  po_paid_date :: date

definition po_days_late :: "payment_observation \<Rightarrow> int" where
  "po_days_late p = po_paid_date p - po_due_date p"

record customer_history =
  ch_customer_id :: string
  ch_observations :: "payment_observation list"
  ch_override_days_late :: "int option"

record bill =
  bill_id :: string
  bill_vendor_id :: string
  bill_due_date :: date
  bill_amount :: money
  bill_scheduled_date :: "date option"
  bill_provenance :: "provenance option"

record recurring_item =
  ri_label :: string
  ri_category :: category
  ri_direction :: direction
  ri_amount :: money
  ri_recurrence :: recurrence
  ri_provenance :: "provenance option"

record payroll_schedule =
  pr_label :: string
  pr_recurrence :: recurrence
  pr_net_pay :: money
  pr_payroll_taxes :: money
  pr_tax_remit_lag_days :: int
  pr_provenance :: "provenance option"

record debt_instrument =
  di_label :: string
  di_recurrence :: recurrence
  di_payment :: money
  di_principal_portion :: "money option"
  di_interest_portion :: "money option"
  di_provenance :: "provenance option"

record one_time_item =
  ot_label :: string
  ot_category :: category
  ot_direction :: direction
  ot_amount :: money
  ot_on_date :: date
  ot_confidence :: confidence
  ot_provenance :: "provenance option"

record pipeline_opportunity =
  opp_label :: string
  opp_customer_id :: string
  opp_expected_date :: date
  opp_amount :: money
  opp_probability_bps :: int
  opp_provenance :: "provenance option"

record forecast_inputs =
  fi_opening :: cash_position
  fi_currency :: string
  fi_invoices :: "invoice list"
  fi_customer_histories :: "customer_history list"
  fi_bills :: "bill list"
  fi_recurring :: "recurring_item list"
  fi_payroll :: "payroll_schedule list"
  fi_debt :: "debt_instrument list"
  fi_one_time :: "one_time_item list"
  fi_pipeline :: "pipeline_opportunity list"

text \<open>\<open>history_for\<close>: the first history of the customer.\<close>

definition history_for :: "forecast_inputs \<Rightarrow> string \<Rightarrow> customer_history option" where
  "history_for inputs customer_id =
     find (\<lambda>h. ch_customer_id h = customer_id) (fi_customer_histories inputs)"

section \<open>Scenario assumptions and configuration\<close>

record scenario_assumptions =
  ar_extra_delay_days :: int
  bad_debt_age_days :: "int option"
  bad_debt_bps :: int
  refund_reserve_bps :: int
  include_pipeline :: bool
  ar_on_time :: bool

definition base_assumptions :: scenario_assumptions where
  "base_assumptions =
     \<lparr>ar_extra_delay_days = 0, bad_debt_age_days = None, bad_debt_bps = 0,
      refund_reserve_bps = 0, include_pipeline = False, ar_on_time = False\<rparr>"

definition downside_assumptions :: scenario_assumptions where
  "downside_assumptions =
     base_assumptions\<lparr>ar_extra_delay_days := 14, bad_debt_age_days := Some 90,
      bad_debt_bps := 2500, refund_reserve_bps := 150\<rparr>"

definition upside_assumptions :: scenario_assumptions where
  "upside_assumptions = base_assumptions\<lparr>include_pipeline := True, ar_on_time := True\<rparr>"

record forecast_config =
  cfg_currency :: string
  horizon_weeks :: int
  minimum_cash :: money
  default_payment_delay_days :: int
  min_history_observations :: int
  cfg_engine_version :: string
  cfg_assumption_version :: string
  cfg_mapping_version :: string
  cfg_model_version :: string
  cfg_timezone :: string
  cfg_rounding_policy :: string

definition default_config :: "string \<Rightarrow> forecast_config" where
  "default_config ccy =
     \<lparr>cfg_currency = ccy, horizon_weeks = 13, minimum_cash = Money 0 ''USD'',
      default_payment_delay_days = 5, min_history_observations = 3,
      cfg_engine_version = ''0.1.0'', cfg_assumption_version = ''2026-08-a'',
      cfg_mapping_version = ''map-1'', cfg_model_version = ''timing-1'',
      cfg_timezone = ''America/Denver'', cfg_rounding_policy = ''half-even-minor-unit''\<rparr>"

section \<open>The resolved cash flow\<close>

record cash_flow =
  seq :: int
  on_date :: date
  direction :: direction
  amount :: money
  category :: category
  confidence :: confidence
  basis :: string
  cf_scenario :: scenario
  source :: "provenance option"
  origin_id :: "string option"

definition signed_minor :: "cash_flow \<Rightarrow> int" where
  "signed_minor f = (if direction f = INFLOW then minor_units (amount f) else - minor_units (amount f))"

definition signed_money :: "cash_flow \<Rightarrow> money" where
  "signed_money f = (if direction f = INFLOW then amount f else money_neg (amount f))"

end
