(* ===== verification/Predict.thy ===== *)
theory Predict
  imports Forecast_Model
begin

text \<open>
  \<open>packages/forecast/src/rgnr8_forecast/predict.py\<close>: how many days after the due date a
  customer pays. The median and the population standard deviation of \<open>statistics\<close> are
  computed exactly on the integers and rounded half to even, which is what rounding their
  correctly rounded doubles gives for samples of any realistic size.

  The lemmas bound the confidence, place the median between the extremes of the sample, and
  show that an explicit override or a short history is never overridden by learning.
\<close>

section \<open>Statistics\<close>

text \<open>\<open>int(round(statistics.median(xs)))\<close>, which raises on an empty sample.\<close>

definition median_rounded :: "int list \<Rightarrow> int res" where
  "median_rounded xs =
     (let data = sort xs; n = length data; i = n div 2
      in if n = 0 then Inl StatisticsError
         else if odd n then Inr (data ! i)
         else Inr (round_half_even (data ! (i - 1) + data ! i) 2))"

text \<open>The integer nearest to the square root of \<open>num / den\<close>, ties to even.\<close>

definition sqrt_rounded :: "nat \<Rightarrow> nat \<Rightarrow> nat" where
  "sqrt_rounded num den =
     (let f = isqrt (num div den); lhs = 4 * num; rhs = (2 * f + 1) * (2 * f + 1) * den
      in if lhs < rhs then f else if rhs < lhs then f + 1 else if even f then f else f + 1)"

text \<open>\<open>int(round(statistics.pstdev(xs)))\<close> of a non-empty sample.\<close>

definition pstdev_rounded :: "int list \<Rightarrow> int" where
  "pstdev_rounded xs =
     (let n = int (length xs);
          ss = n * (\<Sum>x\<leftarrow>xs. x * x) - (\<Sum>x\<leftarrow>xs. x) * (\<Sum>x\<leftarrow>xs. x)
      in int (sqrt_rounded (nat ss) (nat (n * n))))"

section \<open>The prediction\<close>

record timing_prediction =
  days_late :: int
  sample_size :: int
  dispersion_days :: int
  tp_basis :: string
  numeric_confidence :: int

definition predict_days_late ::
  "customer_history option \<Rightarrow> forecast_config \<Rightarrow> timing_prediction res" where
  "predict_days_late history config =
     (case (case history of None \<Rightarrow> None | Some h \<Rightarrow> ch_override_days_late h) of
        Some ov \<Rightarrow>
          Inr \<lparr>days_late = ov, sample_size = 0, dispersion_days = 0,
               tp_basis = ''override: '' @ str_signed ov @ '' days vs due'',
               numeric_confidence = 90\<rparr>
      | None \<Rightarrow>
          let samples = (case history of None \<Rightarrow> [] | Some h \<Rightarrow> map po_days_late (ch_observations h));
              n = int (length samples)
          in if min_history_observations config \<le> n then
               res_bind (median_rounded samples) (\<lambda>med.
                 let disp = (if 1 < n then pstdev_rounded samples else 0);
                     conf = min 95 (45 + 5 * n - 2 * disp);
                     conf = max 30 conf
                 in Inr \<lparr>days_late = med, sample_size = n, dispersion_days = disp,
                         tp_basis = ''median of '' @ str_int n @ '' paid invoices: '' @
                           str_signed med @ '' days vs due ('' @ plus_minus @ str_int disp @ ''d)'',
                         numeric_confidence = conf\<rparr>)
             else
               Inr \<lparr>days_late = default_payment_delay_days config, sample_size = n,
                    dispersion_days = 0,
                    tp_basis = ''default '' @ str_signed (default_payment_delay_days config) @
                      '' days ('' @ str_int n @ '' prior payments, below '' @
                      str_int (min_history_observations config) @ '' needed)'',
                    numeric_confidence = 40\<rparr>)"

section \<open>Properties of the estimates\<close>

lemma median_rounded_between:
  assumes "median_rounded xs = Inr m" "\<And>x. x \<in> set xs \<Longrightarrow> lo \<le> x \<and> x \<le> hi"
  shows "lo \<le> m \<and> m \<le> hi"
proof -
  define data where "data = sort xs"
  have nth: "lo \<le> data ! i \<and> data ! i \<le> hi" if "i < length xs" for i
  proof -
    have "data ! i \<in> set xs" using that nth_mem [of i data] by (simp add: data_def)
    then show ?thesis by (rule assms(2))
  qed
  show ?thesis
  proof (cases "odd (length xs)")
    case True
    then have "length xs div 2 < length xs" by (cases xs) simp_all
    then show ?thesis
      using assms(1) True nth by (auto simp: median_rounded_def Let_def data_def split: if_splits)
  next
    case False
    then have m: "xs \<noteq> []" "m = round_half_even (data ! (length xs div 2 - 1) + data ! (length xs div 2)) 2"
      using assms(1) by (auto simp: median_rounded_def Let_def data_def split: if_splits)
    then have "length xs div 2 - 1 < length xs" "length xs div 2 < length xs"
      by (cases xs; simp)+
    then have "lo * 2 \<le> data ! (length xs div 2 - 1) + data ! (length xs div 2)"
      "data ! (length xs div 2 - 1) + data ! (length xs div 2) \<le> hi * 2"
      using nth [of "length xs div 2 - 1"] nth [of "length xs div 2"] by linarith+
    then show ?thesis using round_half_even_bounds [of 2] m(2) by simp
  qed
qed

lemma median_rounded_total: "xs \<noteq> [] \<Longrightarrow> \<exists>m. median_rounded xs = Inr m"
  by (simp add: median_rounded_def Let_def)

text \<open>\<open>sqrt_rounded\<close> is within half a unit of the square root.\<close>

lemma sqrt_rounded_nearest:
  fixes num den :: nat
  assumes "0 < den" defines "r \<equiv> sqrt_rounded num den"
  shows "4 * num \<le> (2 * r + 1) * (2 * r + 1) * den"
    and "(2 * r - 1) * (2 * r - 1) * den \<le> 4 * num"
proof -
  define f where "f = isqrt (num div den)"
  have "f * f \<le> num div den" "num div den < (f + 1) * (f + 1)"
    using isqrt_bounds [of "num div den"] by (simp_all add: f_def)
  then have lo: "f * f * den \<le> num" and hi: "num < (f + 1) * (f + 1) * den"
    using assms(1) by (simp_all add: less_eq_div_iff_mult_less_eq div_less_iff_less_mult)
  define R where "R = (2 * f + 1) * (2 * f + 1) * den"
  have "r = (if 4 * num < R then f else if R < 4 * num then f + 1 else if even f then f else f + 1)"
    by (simp add: r_def sqrt_rounded_def f_def R_def Let_def)
  then consider "r = f" "4 * num \<le> R" | "r = f + 1" "R \<le> 4 * num"
    by (auto simp: not_less split: if_splits)
  note r = this
  have "4 * num \<le> (2 * (f + 1)) * (2 * (f + 1)) * den" using hi by (simp add: algebra_simps)
  also have "\<dots> \<le> (2 * (f + 1) + 1) * (2 * (f + 1) + 1) * den"
    by (intro mult_le_mono) simp_all
  finally have up: "4 * num \<le> (2 * (f + 1) + 1) * (2 * (f + 1) + 1) * den" .
  have "(2 * f - 1) * (2 * f - 1) * den \<le> (2 * f) * (2 * f) * den" by (intro mult_le_mono) simp_all
  also have "\<dots> \<le> 4 * num" using lo by (simp add: algebra_simps)
  finally have dn: "(2 * f - 1) * (2 * f - 1) * den \<le> 4 * num" .
  from r show "4 * num \<le> (2 * r + 1) * (2 * r + 1) * den"
    by cases (use up in \<open>simp_all only: R_def\<close>)
  have e: "2 * (f + 1) - 1 = 2 * f + 1" by simp
  from r show "(2 * r - 1) * (2 * r - 1) * den \<le> 4 * num"
    by cases (use dn in \<open>simp_all only: R_def e\<close>)
qed

lemma predict_override:
  "ch_override_days_late h = Some ov \<Longrightarrow>
     \<exists>p. predict_days_late (Some h) config = Inr p \<and> days_late p = ov"
  by (simp add: predict_days_late_def)

lemma predict_confidence_bounds:
  "predict_days_late history config = Inr p \<Longrightarrow> 30 \<le> numeric_confidence p \<and> numeric_confidence p \<le> 95"
  by (auto simp: predict_days_late_def Let_def result_simps split: option.splits if_splits)

lemma predict_short_history:
  assumes "ch_override_days_late h = None" "int (length (ch_observations h)) < min_history_observations config"
  shows "\<exists>p. predict_days_late (Some h) config = Inr p \<and> days_late p = default_payment_delay_days config"
  using assms by (simp add: predict_days_late_def Let_def)

lemma predict_within_observed:
  assumes "ch_override_days_late h = None" "min_history_observations config \<le> int (length (ch_observations h))"
    and "predict_days_late (Some h) config = Inr p"
    and "\<And>ob. ob \<in> set (ch_observations h) \<Longrightarrow> lo \<le> po_days_late ob \<and> po_days_late ob \<le> hi"
  shows "lo \<le> days_late p \<and> days_late p \<le> hi"
proof -
  from assms(1-3) have "median_rounded (map po_days_late (ch_observations h)) = Inr (days_late p)"
    by (auto simp: predict_days_late_def Let_def result_simps)
  then show ?thesis by (rule median_rounded_between) (use assms(4) in auto)
qed

text \<open>The only way to raise: a threshold of zero observations and none recorded.\<close>

lemma predict_total:
  assumes "0 < min_history_observations config"
  shows "\<exists>p. predict_days_late history config = Inr p"
proof -
  define samples where "samples = (case history of None \<Rightarrow> [] | Some h \<Rightarrow> map po_days_late (ch_observations h))"
  have "\<exists>m. median_rounded samples = Inr m" if "min_history_observations config \<le> int (length samples)"
    using assms that by (intro median_rounded_total) auto
  then show ?thesis
    unfolding predict_days_late_def samples_def [symmetric] Let_def
    by (auto split: option.splits if_splits)
qed

section \<open>Properties\<close>

definition example_history :: customer_history where
  "example_history =
     \<lparr>ch_customer_id = ''C1'',
      ch_observations = map (\<lambda>n. \<lparr>po_due_date = 738000, po_paid_date = 738000 + n\<rparr>) [3, 9, 4],
      ch_override_days_late = None\<rparr>"

text \<open>C38. A prediction learned from a customer's own payments lies between the earliest and the
  latest delay observed, and its confidence between 30 and 95.\<close>

theorem prediction_within_observed:
  assumes "ch_override_days_late h = None" "min_history_observations config \<le> int (length (ch_observations h))"
    and "predict_days_late (Some h) config = Inr p"
    and "\<And>ob. ob \<in> set (ch_observations h) \<Longrightarrow> lo \<le> po_days_late ob \<and> po_days_late ob \<le> hi"
  shows "lo \<le> days_late p \<and> days_late p \<le> hi \<and> 30 \<le> numeric_confidence p \<and> numeric_confidence p \<le> 95"
  using predict_within_observed [OF assms] predict_confidence_bounds [OF assms(3)] by blast

theorem prediction_within_observed_witness:
  "\<exists>p. predict_days_late (Some example_history) (default_config ''USD'') = Inr p \<and> 3 \<le> days_late p \<and> days_late p \<le> 9"
proof -
  obtain p where p: "predict_days_late (Some example_history) (default_config ''USD'') = Inr p"
    using predict_total [of "default_config ''USD''"] by (auto simp: default_config_def)
  have "3 \<le> days_late p \<and> days_late p \<le> 9 \<and> 30 \<le> numeric_confidence p \<and> numeric_confidence p \<le> 95"
    by (rule prediction_within_observed [OF _ _ p])
      (auto simp: example_history_def default_config_def po_days_late_def)
  with p show ?thesis by blast
qed

end
