(* ===== verification/Resolve.thy ===== *)
theory Resolve
  imports Predict
begin

text \<open>
  \<open>packages/forecast/src/rgnr8_forecast/resolve.py\<close>: the treatment policies that turn the
  inputs and the assumptions of a scenario into dated cash flows. \<open>resolve\<close> is one function of
  eight sections that share the lists \<open>raw\<close> and \<open>notes\<close>; each section is a definition on the
  record of these locals, and \<open>resolve\<close> composes them in the order of the code.

  The lemmas show that every flow falls inside the horizon and is no transfer, that the flows
  are numbered from 1 in a fixed order, that every invoice is accounted for, and that the call
  returns whenever every schedule steps forward.
\<close>

section \<open>The sections\<close>

text \<open>The local variables of \<open>resolve\<close> that its sections update.\<close>

record resolve_state =
  raw :: "cash_flow list"
  rs_notes :: "string list"
  dropped_ar :: int
  excluded_disputed :: int
  excluded_transfers :: int
  dropped_one_time :: int

text \<open>The arguments and the window, which stay fixed.\<close>

record resolve_env =
  re_inputs :: forecast_inputs
  re_config :: forecast_config
  re_scenario :: scenario
  re_assumptions :: scenario_assumptions
  re_as_of :: date
  re_horizon_end :: date

definition in_window :: "resolve_env \<Rightarrow> date \<Rightarrow> bool" where
  "in_window env d = (re_as_of env \<le> d \<and> d \<le> re_horizon_end env)"

definition clamp :: "resolve_env \<Rightarrow> date \<Rightarrow> date" where
  "clamp env d = (if re_as_of env \<le> d then d else re_as_of env)"

definition add_flow :: "cash_flow \<Rightarrow> resolve_state \<Rightarrow> resolve_state" where
  "add_flow f st = st\<lparr>raw := raw st @ [f]\<rparr>"

definition add_note :: "bool \<Rightarrow> string \<Rightarrow> resolve_state \<Rightarrow> resolve_state" where
  "add_note c n st = (if c then st\<lparr>rs_notes := rs_notes st @ [n]\<rparr> else st)"

text \<open>When an invoice is expected to be paid, and why.\<close>

definition expected_payment :: "resolve_env \<Rightarrow> invoice \<Rightarrow> (date \<times> string) res" where
  "expected_payment env invoice =
     (let a = re_assumptions env
      in if ar_on_time a then
           Inr (clamp env (inv_due_date invoice), ''assumed paid on due date (optimistic)'')
         else
           res_bind (predict_days_late (history_for (re_inputs env) (inv_customer_id invoice)) (re_config env))
             (\<lambda>pred. res_bind (date_add (inv_due_date invoice) (days_late pred + ar_extra_delay_days a))
               (\<lambda>pay_date.
                 let extra = (if ar_extra_delay_days a \<noteq> 0
                              then '' +'' @ str_int (ar_extra_delay_days a) @ ''d stress'' else []);
                     clamped = pay_date < re_as_of env
                 in Inr (clamp env pay_date,
                         tp_basis pred @ extra @
                         (if clamped then '' (clamped to today; overdue)'' else [])))))"

text \<open>The bad-debt write-down of an aged receivable.\<close>

definition written_down :: "resolve_env \<Rightarrow> invoice \<Rightarrow> string \<Rightarrow> (money \<times> string) res" where
  "written_down env invoice why =
     (let a = re_assumptions env; amt = inv_open_amount invoice
      in case bad_debt_age_days a of
           None \<Rightarrow> Inr (amt, why)
         | Some age_days \<Rightarrow>
             if 0 < bad_debt_bps a then
               let age = re_as_of env - inv_due_date invoice
               in if age_days < age then
                    res_bind (scale_by amt (10000 - bad_debt_bps a) 10000) (\<lambda>kept.
                      Inr (kept, why @ ''; '' @ fmt_hundredths0 (bad_debt_bps a) @
                           ''% bad-debt write-down ('' @ str_int age @ ''d past due)''))
                  else Inr (amt, why)
             else Inr (amt, why))"

text \<open>The refund reserve of a receipt.\<close>

definition resolve_refund ::
  "resolve_env \<Rightarrow> invoice \<Rightarrow> date \<Rightarrow> money \<Rightarrow> resolve_state \<Rightarrow> resolve_state res" where
  "resolve_refund env invoice pay_date amt st =
     (let bps = refund_reserve_bps (re_assumptions env)
      in if 0 < bps then
           res_bind (scale_by amt bps 10000) (\<lambda>reserve.
             Inr (if is_positive reserve then
                    add_flow \<lparr>seq = 0, on_date = pay_date, direction = OUTFLOW, amount = reserve,
                      category = REFUND_CHARGEBACK, confidence = SCENARIO,
                      basis = fmt_hundredths2 bps @ ''% refund reserve on receipt '' @ inv_id invoice,
                      cf_scenario = re_scenario env, source = inv_provenance invoice,
                      origin_id = Some (inv_id invoice)\<rparr> st
                  else st))
         else Inr st)"

definition resolve_invoice :: "resolve_env \<Rightarrow> invoice \<Rightarrow> resolve_state \<Rightarrow> resolve_state res" where
  "resolve_invoice env invoice st =
     (if inv_status invoice = DISPUTED then
        Inr (st\<lparr>excluded_disputed := excluded_disputed st + 1\<rparr>)
      else
        res_bind (expected_payment env invoice) (\<lambda>(pay_date, basis0).
          if \<not> in_window env pay_date then Inr (st\<lparr>dropped_ar := dropped_ar st + 1\<rparr>)
          else
            res_bind (written_down env invoice basis0) (\<lambda>(amt, basis1).
              if is_zero amt then Inr st
              else
                resolve_refund env invoice pay_date amt
                  (add_flow \<lparr>seq = 0, on_date = pay_date, direction = INFLOW, amount = amt,
                     category = CUSTOMER_RECEIPT, confidence = PREDICTED, basis = basis1,
                     cf_scenario = re_scenario env, source = inv_provenance invoice,
                     origin_id = Some (inv_id invoice)\<rparr> st))))"

definition resolve_ar :: "resolve_env \<Rightarrow> resolve_state \<Rightarrow> resolve_state res" where
  "resolve_ar env st =
     res_bind (fold_res (resolve_invoice env) (fi_invoices (re_inputs env)) st) (\<lambda>st.
       let st = add_note (excluded_disputed st \<noteq> 0)
                  (str_int (excluded_disputed st) @ '' disputed invoice(s) excluded from receipts'') st;
           st = add_note (dropped_ar st \<noteq> 0)
                  (str_int (dropped_ar st) @ '' predicted receipt(s) fall beyond the '' @
                   str_int (horizon_weeks (re_config env)) @ ''-week horizon'') st
       in Inr st)"

definition resolve_opportunity ::
  "resolve_env \<Rightarrow> pipeline_opportunity \<Rightarrow> resolve_state \<Rightarrow> resolve_state res" where
  "resolve_opportunity env opp st =
     (let d = clamp env (opp_expected_date opp)
      in if \<not> in_window env d then Inr st
         else
           res_bind (scale_by (opp_amount opp) (opp_probability_bps opp) 10000) (\<lambda>weighted.
             Inr (if is_zero weighted then st
                  else
                    add_flow \<lparr>seq = 0, on_date = d, direction = INFLOW, amount = weighted,
                      category = PIPELINE_RECEIPT, confidence = SCENARIO,
                      basis = ''pipeline '' @ opp_label opp @ '' at '' @
                        fmt_hundredths0 (opp_probability_bps opp) @ ''% probability'',
                      cf_scenario = re_scenario env, source = opp_provenance opp,
                      origin_id = Some (opp_customer_id opp)\<rparr> st)))"

definition resolve_pipeline :: "resolve_env \<Rightarrow> resolve_state \<Rightarrow> resolve_state res" where
  "resolve_pipeline env st =
     (if include_pipeline (re_assumptions env)
      then fold_res (resolve_opportunity env) (fi_pipeline (re_inputs env)) st
      else Inr st)"

definition resolve_bill :: "resolve_env \<Rightarrow> bill \<Rightarrow> resolve_state \<Rightarrow> resolve_state" where
  "resolve_bill env b st =
     (let d = clamp env (case bill_scheduled_date b of Some s \<Rightarrow> s | None \<Rightarrow> bill_due_date b)
      in if \<not> in_window env d then st
         else
           add_flow \<lparr>seq = 0, on_date = d, direction = OUTFLOW, amount = bill_amount b,
             category = VENDOR_PAYMENT, confidence = RECORDED,
             basis = (if bill_scheduled_date b \<noteq> None then ''scheduled bill payment'' else ''bill due''),
             cf_scenario = re_scenario env, source = bill_provenance b,
             origin_id = Some (bill_id b)\<rparr> st)"

definition resolve_bills :: "resolve_env \<Rightarrow> resolve_state \<Rightarrow> resolve_state" where
  "resolve_bills env st = fold (resolve_bill env) (fi_bills (re_inputs env)) st"

definition resolve_item :: "resolve_env \<Rightarrow> recurring_item \<Rightarrow> resolve_state \<Rightarrow> resolve_state run" where
  "resolve_item env item st =
     (if ri_category item = TRANSFER then
        Some (Inr (st\<lparr>excluded_transfers := excluded_transfers st + 1\<rparr>))
      else
        run_bind (occurrences (ri_recurrence item) (re_as_of env) (re_horizon_end env)) (\<lambda>ds.
          Some (Inr (fold (\<lambda>d. add_flow \<lparr>seq = 0, on_date = d, direction = ri_direction item,
              amount = ri_amount item, category = ri_category item, confidence = RECORDED,
              basis = ''recurring: '' @ ri_label item, cf_scenario = re_scenario env,
              source = ri_provenance item, origin_id = Some (ri_label item)\<rparr>) ds st))))"

definition resolve_recurring :: "resolve_env \<Rightarrow> resolve_state \<Rightarrow> resolve_state run" where
  "resolve_recurring env st =
     run_bind (fold_run (resolve_item env) (fi_recurring (re_inputs env)) st) (\<lambda>st.
       Some (Inr (add_note (excluded_transfers st \<noteq> 0)
         (str_int (excluded_transfers st) @ '' internal transfer schedule(s) excluded from net cash'') st)))"

definition resolve_payday ::
  "resolve_env \<Rightarrow> payroll_schedule \<Rightarrow> date \<Rightarrow> resolve_state \<Rightarrow> resolve_state res" where
  "resolve_payday env pr payday st =
     (let st = add_flow \<lparr>seq = 0, on_date = payday, direction = OUTFLOW, amount = pr_net_pay pr,
                 category = PAYROLL_NET, confidence = RECORDED,
                 basis = ''payroll net: '' @ pr_label pr, cf_scenario = re_scenario env,
                 source = pr_provenance pr, origin_id = Some (pr_label pr)\<rparr> st
      in if is_positive (pr_payroll_taxes pr) then
           res_bind (date_add payday (pr_tax_remit_lag_days pr)) (\<lambda>remit.
             Inr (if in_window env remit then
                    add_flow \<lparr>seq = 0, on_date = remit, direction = OUTFLOW,
                      amount = pr_payroll_taxes pr, category = PAYROLL_TAX, confidence = RECORDED,
                      basis = ''payroll taxes remitted (+'' @ str_int (pr_tax_remit_lag_days pr) @
                        ''d): '' @ pr_label pr,
                      cf_scenario = re_scenario env, source = pr_provenance pr,
                      origin_id = Some (pr_label pr)\<rparr> st
                  else st))
         else Inr st)"

definition resolve_payroll :: "resolve_env \<Rightarrow> resolve_state \<Rightarrow> resolve_state run" where
  "resolve_payroll env st =
     fold_run (\<lambda>pr st.
         run_bind (occurrences (pr_recurrence pr) (re_as_of env) (re_horizon_end env)) (\<lambda>ds.
           Some (fold_res (resolve_payday env pr) ds st)))
       (fi_payroll (re_inputs env)) st"

definition debt_split :: "debt_instrument \<Rightarrow> string res" where
  "debt_split di =
     (case (di_principal_portion di, di_interest_portion di) of
        (Some p, Some i) \<Rightarrow>
          res_bind (format_money p) (\<lambda>ps. res_bind (format_money i) (\<lambda>is.
            Inr ('' (principal '' @ ps @ '', interest '' @ is @ '')'')))
      | _ \<Rightarrow> Inr [])"

definition resolve_payment ::
  "resolve_env \<Rightarrow> debt_instrument \<Rightarrow> date \<Rightarrow> resolve_state \<Rightarrow> resolve_state res" where
  "resolve_payment env di pay_date st =
     res_bind (debt_split di) (\<lambda>split.
       Inr (add_flow \<lparr>seq = 0, on_date = pay_date, direction = OUTFLOW, amount = di_payment di,
         category = DEBT_SERVICE, confidence = RECORDED,
         basis = ''debt service: '' @ di_label di @ split, cf_scenario = re_scenario env,
         source = di_provenance di, origin_id = Some (di_label di)\<rparr> st))"

definition resolve_debt :: "resolve_env \<Rightarrow> resolve_state \<Rightarrow> resolve_state run" where
  "resolve_debt env st =
     fold_run (\<lambda>di st.
         run_bind (occurrences (di_recurrence di) (re_as_of env) (re_horizon_end env)) (\<lambda>ds.
           Some (fold_res (resolve_payment env di) ds st)))
       (fi_debt (re_inputs env)) st"

definition resolve_one_time_item :: "resolve_env \<Rightarrow> one_time_item \<Rightarrow> resolve_state \<Rightarrow> resolve_state" where
  "resolve_one_time_item env ot st =
     (if ot_category ot = TRANSFER then st
      else if \<not> in_window env (ot_on_date ot) then st\<lparr>dropped_one_time := dropped_one_time st + 1\<rparr>
      else
        add_flow \<lparr>seq = 0, on_date = ot_on_date ot, direction = ot_direction ot,
          amount = ot_amount ot, category = ot_category ot, confidence = ot_confidence ot,
          basis = ''one-time: '' @ ot_label ot, cf_scenario = re_scenario env,
          source = ot_provenance ot, origin_id = Some (ot_label ot)\<rparr> st)"

definition resolve_one_time :: "resolve_env \<Rightarrow> resolve_state \<Rightarrow> resolve_state" where
  "resolve_one_time env st =
     (let st = fold (resolve_one_time_item env) (fi_one_time (re_inputs env)) st
      in add_note (dropped_one_time st \<noteq> 0)
           (str_int (dropped_one_time st) @ '' one-time item(s) fall outside the horizon'') st)"

text \<open>The sort key and the numbering.\<close>

definition flow_key :: "cash_flow \<Rightarrow> date \<times> string \<times> string \<times> string \<times> int" where
  "flow_key f =
     (on_date f, direction_value (direction f), category_value (category f),
      (case origin_id f of Some s \<Rightarrow> s | None \<Rightarrow> []), minor_units (amount f))"

definition number_flows :: "cash_flow list \<Rightarrow> cash_flow list" where
  "number_flows fs = map (\<lambda>(i, f). f\<lparr>seq := int i + 1\<rparr>) (enumerate 0 fs)"

record resolved_flows =
  rf_flows :: "cash_flow list"
  rf_notes :: "string list"

definition resolve_start :: resolve_state where
  "resolve_start =
     \<lparr>raw = [], rs_notes = [], dropped_ar = 0, excluded_disputed = 0, excluded_transfers = 0,
      dropped_one_time = 0\<rparr>"

definition resolve ::
  "forecast_inputs \<Rightarrow> forecast_config \<Rightarrow> scenario \<Rightarrow> scenario_assumptions \<Rightarrow> resolved_flows run" where
  "resolve inputs config scen assumptions =
     (let as_of = cp_as_of (fi_opening inputs)
      in run_bind (Some (date_add as_of (horizon_weeks config * 7 - 1))) (\<lambda>horizon_end.
           let env = \<lparr>re_inputs = inputs, re_config = config, re_scenario = scen,
                      re_assumptions = assumptions, re_as_of = as_of, re_horizon_end = horizon_end\<rparr>
           in run_bind (Some (resolve_ar env resolve_start)) (\<lambda>st.
              run_bind (Some (resolve_pipeline env st)) (\<lambda>st.
              run_bind (resolve_recurring env (resolve_bills env st)) (\<lambda>st.
              run_bind (resolve_payroll env st) (\<lambda>st.
              run_bind (resolve_debt env st) (\<lambda>st.
                let st = resolve_one_time env st
                in Some (Inr \<lparr>rf_flows = number_flows (sort_key flow_key (raw st)),
                              rf_notes = rs_notes st\<rparr>))))))))"

section \<open>What every section keeps\<close>

text \<open>A flow the policies admit, and the invariant that all resolved flows are.\<close>

definition admissible :: "resolve_env \<Rightarrow> cash_flow \<Rightarrow> bool" where
  "admissible env f \<longleftrightarrow>
     in_window env (on_date f) \<and> category f \<noteq> TRANSFER \<and> cf_scenario f = re_scenario env"

definition flows_ok :: "resolve_env \<Rightarrow> resolve_state \<Rightarrow> bool" where
  "flows_ok env st \<longleftrightarrow> list_all (admissible env) (raw st)"

lemma raw_add_flow [simp]: "raw (add_flow f st) = raw st @ [f]"
  by (simp add: add_flow_def)

lemma raw_add_note [simp]: "raw (add_note c n st) = raw st"
  by (simp add: add_note_def)

lemma flows_ok_add_flow: "flows_ok env st \<Longrightarrow> admissible env f \<Longrightarrow> flows_ok env (add_flow f st)"
  by (simp add: flows_ok_def)

lemma flows_ok_add_note [simp]: "flows_ok env (add_note c n st) = flows_ok env st"
  by (simp add: flows_ok_def)

lemma flows_ok_counters [simp]:
  "flows_ok env (st\<lparr>dropped_ar := a\<rparr>) = flows_ok env st"
  "flows_ok env (st\<lparr>excluded_disputed := a\<rparr>) = flows_ok env st"
  "flows_ok env (st\<lparr>excluded_transfers := a\<rparr>) = flows_ok env st"
  "flows_ok env (st\<lparr>dropped_one_time := a\<rparr>) = flows_ok env st"
  by (simp_all add: flows_ok_def)

lemma resolve_refund_ok:
  assumes "resolve_refund env iv d m st = Inr st'" "flows_ok env st" "in_window env d"
  shows "flows_ok env st'"
  using assms by (auto simp: resolve_refund_def admissible_def result_simps Let_def
      intro!: flows_ok_add_flow split: if_splits)

lemma resolve_invoiceE:
  assumes "resolve_invoice env iv st = Inr st'"
  obtains (disputed) "inv_status iv = DISPUTED"
      "st' = st\<lparr>excluded_disputed := excluded_disputed st + 1\<rparr>"
  | (beyond) d b where "inv_status iv \<noteq> DISPUTED" "expected_payment env iv = Inr (d, b)"
      "\<not> in_window env d" "st' = st\<lparr>dropped_ar := dropped_ar st + 1\<rparr>"
  | (nothing) d b amt c where "inv_status iv \<noteq> DISPUTED" "expected_payment env iv = Inr (d, b)"
      "in_window env d" "written_down env iv b = Inr (amt, c)" "is_zero amt" "st' = st"
  | (receipt) d b amt c f where "inv_status iv \<noteq> DISPUTED" "expected_payment env iv = Inr (d, b)"
      "in_window env d" "written_down env iv b = Inr (amt, c)" "\<not> is_zero amt"
      "f = \<lparr>seq = 0, on_date = d, direction = INFLOW, amount = amt, category = CUSTOMER_RECEIPT,
         confidence = PREDICTED, basis = c, cf_scenario = re_scenario env,
         source = inv_provenance iv, origin_id = Some (inv_id iv)\<rparr>"
      "resolve_refund env iv d amt (add_flow f st) = Inr st'"
proof (cases "inv_status iv = DISPUTED")
  case False
  with assms obtain d b where d: "expected_payment env iv = Inr (d, b)"
    by (auto simp: resolve_invoice_def result_simps)
  show thesis
  proof (cases "in_window env d")
    case True
    with assms False d obtain amt c where "written_down env iv b = Inr (amt, c)"
      by (auto simp: resolve_invoice_def result_simps)
    note amt = this
    show thesis
    proof (cases "is_zero amt")
      case zero: True
      with assms False d True amt have "st' = st" by (simp add: resolve_invoice_def)
      with False d True amt zero show thesis by (rule nothing)
    next
      case nonzero: False
      show thesis
        by (rule receipt [OF False d True amt nonzero refl])
           (use assms False d True amt nonzero in \<open>simp add: resolve_invoice_def\<close>)
    qed
  qed (use assms False d in \<open>simp add: resolve_invoice_def beyond\<close>)
qed (use assms in \<open>simp add: resolve_invoice_def disputed\<close>)

lemma resolve_invoice_ok:
  assumes "resolve_invoice env iv st = Inr st'" "flows_ok env st"
  shows "flows_ok env st'"
  using assms(1)
proof (cases rule: resolve_invoiceE)
  case receipt
  with assms(2) show ?thesis
    by (auto simp: admissible_def intro!: flows_ok_add_flow elim!: resolve_refund_ok)
qed (use assms(2) in simp_all)

lemma resolve_ar_ok: "resolve_ar env st = Inr st' \<Longrightarrow> flows_ok env st \<Longrightarrow> flows_ok env st'"
  by (auto simp: resolve_ar_def result_simps Let_def
      elim!: fold_res_invariant [where P = "flows_ok env"] intro: resolve_invoice_ok)

lemma resolve_opportunity_ok:
  "resolve_opportunity env opp st = Inr st' \<Longrightarrow> flows_ok env st \<Longrightarrow> flows_ok env st'"
  by (auto simp: resolve_opportunity_def admissible_def result_simps Let_def
      intro!: flows_ok_add_flow split: if_splits)

lemma resolve_pipeline_ok: "resolve_pipeline env st = Inr st' \<Longrightarrow> flows_ok env st \<Longrightarrow> flows_ok env st'"
  by (auto simp: resolve_pipeline_def
      elim!: fold_res_invariant [where P = "flows_ok env"] intro: resolve_opportunity_ok split: if_splits)

lemma fold_keeps: "P s \<Longrightarrow> (\<And>x s. x \<in> set xs \<Longrightarrow> P s \<Longrightarrow> P (f x s)) \<Longrightarrow> P (fold f xs s)"
  by (induction xs arbitrary: s) auto

lemma resolve_bills_ok: "flows_ok env st \<Longrightarrow> flows_ok env (resolve_bills env st)"
  unfolding resolve_bills_def
  by (rule fold_keeps)
    (auto simp: resolve_bill_def admissible_def Let_def intro!: flows_ok_add_flow)

lemma resolve_one_time_ok: "flows_ok env st \<Longrightarrow> flows_ok env (resolve_one_time env st)"
  unfolding resolve_one_time_def Let_def flows_ok_add_note
  by (rule fold_keeps)
    (auto simp: resolve_one_time_item_def admissible_def intro!: flows_ok_add_flow)

text \<open>The sections that follow a schedule.\<close>

lemma occurrences_in_window:
  assumes "positive_steps r" "occurrences r (re_as_of env) (re_horizon_end env) = Some (Inr ds)"
  shows "d \<in> set ds \<Longrightarrow> in_window env d"
  using occurrences_window(2) [OF assms] by (simp add: in_window_def)

lemma resolve_item_ok:
  assumes "resolve_item env item st = Some (Inr st')" "positive_steps (ri_recurrence item)" "flows_ok env st"
  shows "flows_ok env st'"
  using assms
  by (auto simp: resolve_item_def result_simps admissible_def
      intro!: fold_keeps [where P = "flows_ok env"] flows_ok_add_flow
      dest: occurrences_in_window split: if_splits)

lemma resolve_recurring_ok:
  assumes "resolve_recurring env st = Some (Inr st')" "flows_ok env st"
    and pos: "\<And>i. i \<in> set (fi_recurring (re_inputs env)) \<Longrightarrow> positive_steps (ri_recurrence i)"
  shows "flows_ok env st'"
proof -
  from assms(1) obtain u where u: "fold_run (resolve_item env) (fi_recurring (re_inputs env)) st = Some (Inr u)"
    and "flows_ok env st' = flows_ok env u"
    by (auto simp: resolve_recurring_def result_simps)
  moreover from u assms(2) have "flows_ok env u"
    by (rule fold_run_invariant) (auto intro: resolve_item_ok pos)
  ultimately show ?thesis by simp
qed

lemma resolve_payday_ok:
  assumes "resolve_payday env pr d st = Inr st'" "in_window env d" "flows_ok env st"
  shows "flows_ok env st'"
  using assms
  by (auto simp: resolve_payday_def result_simps admissible_def Let_def
      intro!: flows_ok_add_flow split: if_splits)

lemma resolve_payroll_ok:
  assumes "resolve_payroll env st = Some (Inr st')" "flows_ok env st"
    and pos: "\<And>p. p \<in> set (fi_payroll (re_inputs env)) \<Longrightarrow> positive_steps (pr_recurrence p)"
  shows "flows_ok env st'"
  using assms(1,2) unfolding resolve_payroll_def
  by (rule fold_run_invariant)
    (auto simp: result_simps dest!: pos elim!: fold_res_invariant [where P = "flows_ok env"]
      intro: resolve_payday_ok occurrences_in_window)

lemma resolve_payment_ok:
  assumes "resolve_payment env di d st = Inr st'" "in_window env d" "flows_ok env st"
  shows "flows_ok env st'"
  using assms by (auto simp: resolve_payment_def result_simps admissible_def intro!: flows_ok_add_flow)

lemma resolve_debt_ok:
  assumes "resolve_debt env st = Some (Inr st')" "flows_ok env st"
    and pos: "\<And>p. p \<in> set (fi_debt (re_inputs env)) \<Longrightarrow> positive_steps (di_recurrence p)"
  shows "flows_ok env st'"
  using assms(1,2) unfolding resolve_debt_def
  by (rule fold_run_invariant)
    (auto simp: result_simps dest!: pos elim!: fold_res_invariant [where P = "flows_ok env"]
      intro: resolve_payment_ok occurrences_in_window)

section \<open>Ordering and numbering\<close>

lemma number_flows_nth: "i < length fs \<Longrightarrow> number_flows fs ! i = (fs ! i)\<lparr>seq := int i + 1\<rparr>"
  by (simp add: number_flows_def enumerate_eq_zip)

lemma length_number_flows [simp]: "length (number_flows fs) = length fs"
  by (simp add: number_flows_def)

lemma number_flows_seq: "map seq (number_flows fs) = map int [1..<Suc (length fs)]"
  by (rule nth_equalityI) (auto simp: number_flows_nth simp del: upt_Suc)

lemma number_flows_forget: "map (\<lambda>f. f\<lparr>seq := s\<rparr>) (number_flows fs) = map (\<lambda>f. f\<lparr>seq := s\<rparr>) fs"
  by (rule nth_equalityI) (auto simp: number_flows_nth)

lemma flow_key_seq [simp]: "flow_key (f\<lparr>seq := s\<rparr>) = flow_key f"
  by (simp add: flow_key_def)

lemma number_flows_key: "map flow_key (number_flows fs) = map flow_key fs"
  by (rule nth_equalityI) (auto simp: number_flows_nth)

lemma number_flows_all:
  "(\<And>f s. P (f\<lparr>seq := s\<rparr>) = P f) \<Longrightarrow> (\<forall>f\<in>set (number_flows fs). P f) = (\<forall>f\<in>set fs. P f)"
  by (simp add: all_set_conv_all_nth number_flows_nth)

section \<open>The whole function\<close>

definition schedules_step :: "forecast_inputs \<Rightarrow> bool" where
  "schedules_step inputs \<longleftrightarrow>
     list_all (\<lambda>i. positive_steps (ri_recurrence i)) (fi_recurring inputs) \<and>
     list_all (\<lambda>p. positive_steps (pr_recurrence p)) (fi_payroll inputs) \<and>
     list_all (\<lambda>d. positive_steps (di_recurrence d)) (fi_debt inputs)"

lemma resolve_flows:
  assumes "resolve inputs config scen assumptions = Some (Inr r)" "schedules_step inputs"
  shows "\<forall>f\<in>set (rf_flows r). cp_as_of (fi_opening inputs) \<le> on_date f \<and>
      on_date f \<le> cp_as_of (fi_opening inputs) + (horizon_weeks config * 7 - 1) \<and>
      category f \<noteq> TRANSFER \<and> cf_scenario f = scen"
proof -
  define env where "env he = \<lparr>re_inputs = inputs, re_config = config, re_scenario = scen,
    re_assumptions = assumptions, re_as_of = cp_as_of (fi_opening inputs), re_horizon_end = he\<rparr>" for he
  from assms(1) obtain he st1 st2 st3 st4 st5 where
    he: "date_add (cp_as_of (fi_opening inputs)) (horizon_weeks config * 7 - 1) = Inr he"
    and st: "resolve_ar (env he) resolve_start = Inr st1" "resolve_pipeline (env he) st1 = Inr st2"
      "resolve_recurring (env he) (resolve_bills (env he) st2) = Some (Inr st3)"
      "resolve_payroll (env he) st3 = Some (Inr st4)" "resolve_debt (env he) st4 = Some (Inr st5)"
    and r: "r = \<lparr>rf_flows = number_flows (sort_key flow_key (raw (resolve_one_time (env he) st5))),
      rf_notes = rs_notes (resolve_one_time (env he) st5)\<rparr>"
    by (auto simp: resolve_def Let_def result_simps env_def)
  have "flows_ok (env he) resolve_start" by (simp add: flows_ok_def resolve_start_def)
  then have "flows_ok (env he) st2" using st(1,2) resolve_ar_ok resolve_pipeline_ok by blast
  then have "flows_ok (env he) st3"
    using assms(2) by (intro resolve_recurring_ok [OF st(3)] resolve_bills_ok)
      (auto simp: schedules_step_def env_def list_all_iff)
  then have "flows_ok (env he) st4"
    using assms(2) by (intro resolve_payroll_ok [OF st(4)]) (auto simp: schedules_step_def env_def list_all_iff)
  then have "flows_ok (env he) st5"
    using assms(2) by (intro resolve_debt_ok [OF st(5)]) (auto simp: schedules_step_def env_def list_all_iff)
  then have "\<forall>f\<in>set (raw (resolve_one_time (env he) st5)). admissible (env he) f"
    using resolve_one_time_ok by (simp add: flows_ok_def list_all_iff)
  then have "\<forall>f\<in>set (rf_flows r). admissible (env he) f"
    unfolding r resolved_flows.simps by (subst number_flows_all) (simp_all add: admissible_def)
  then show ?thesis
    using he by (auto simp: admissible_def in_window_def env_def date_add_Inr)
qed

lemma resolve_order:
  assumes "resolve inputs config scen assumptions = Some (Inr r)"
  shows "sorted (map flow_key (rf_flows r)) \<and>
    map seq (rf_flows r) = map int [1..<Suc (length (rf_flows r))]"
proof -
  from assms obtain fs where "rf_flows r = number_flows (sort_key flow_key fs)"
    by (auto simp: resolve_def Let_def result_simps)
  then show ?thesis by (simp only: number_flows_key number_flows_seq length_number_flows sorted_sort_key)
qed

lemma resolve_returns:
  assumes "schedules_step inputs"
  shows "resolve inputs config scen assumptions \<noteq> None"
proof -
  have occ: "occurrences r s e \<noteq> None" if "positive_steps r" for r s e
    using that by (rule occurrences_returns)
  have "resolve_item env i st \<noteq> None" if "positive_steps (ri_recurrence i)" for env i st
    using occ [OF that] by (simp add: resolve_item_def run_bind_returns del: not_None_eq)
  then have "resolve_recurring env st \<noteq> None" if "re_inputs env = inputs" for env st
    unfolding resolve_recurring_def using assms that
    by (intro run_bind_returns fold_run_returns) (auto simp: schedules_step_def list_all_iff)
  moreover have "resolve_payroll env st \<noteq> None" if "re_inputs env = inputs" for env st
    unfolding resolve_payroll_def using assms that
    by (intro fold_run_returns run_bind_returns occ) (auto simp: schedules_step_def list_all_iff)
  moreover have "resolve_debt env st \<noteq> None" if "re_inputs env = inputs" for env st
    unfolding resolve_debt_def using assms that
    by (intro fold_run_returns run_bind_returns occ) (auto simp: schedules_step_def list_all_iff)
  ultimately show ?thesis
    unfolding resolve_def Let_def by (intro run_bind_returns) simp_all
qed

section \<open>Receivables are accounted for\<close>

text \<open>
  Every invoice of the list is counted once: as disputed, as beyond the horizon, as written
  down to nothing, or by one receipt.
\<close>

definition receipts :: "resolve_state \<Rightarrow> cash_flow list" where
  "receipts st = filter (\<lambda>f. category f = CUSTOMER_RECEIPT) (raw st)"

definition ar_total :: "resolve_state \<Rightarrow> int" where
  "ar_total st = int (length (receipts st)) + dropped_ar st + excluded_disputed st"

lemma ar_total_refund: "resolve_refund env iv d m st = Inr st' \<Longrightarrow> ar_total st' = ar_total st"
  by (auto simp: resolve_refund_def ar_total_def receipts_def add_flow_def result_simps Let_def
      split: if_splits)

definition invoice_vanishes :: "resolve_env \<Rightarrow> invoice \<Rightarrow> bool" where
  "invoice_vanishes env iv =
     (inv_status iv \<noteq> DISPUTED \<and>
      (case expected_payment env iv of Inl _ \<Rightarrow> False | Inr (d, b) \<Rightarrow>
         in_window env d \<and>
         (case written_down env iv b of Inl _ \<Rightarrow> False | Inr (amt, c) \<Rightarrow> is_zero amt)))"

lemma resolve_invoice_total:
  assumes "resolve_invoice env iv st = Inr st'"
  shows "ar_total st' = ar_total st + (if invoice_vanishes env iv then 0 else 1)"
  using assms
proof (cases rule: resolve_invoiceE)
  case receipt
  then show ?thesis
    by (simp add: invoice_vanishes_def ar_total_refund [OF receipt(7)])
       (simp add: ar_total_def receipts_def add_flow_def)
qed (simp_all add: invoice_vanishes_def ar_total_def receipts_def)

lemma fold_invoices_total:
  "fold_res (resolve_invoice env) ivs st = Inr st' \<Longrightarrow>
     ar_total st' = ar_total st + int (length (filter (\<lambda>iv. \<not> invoice_vanishes env iv) ivs))"
  by (induction ivs arbitrary: st) (auto simp: result_simps dest: resolve_invoice_total)

lemma resolve_ar_total:
  assumes "resolve_ar env st = Inr st'"
  shows "ar_total st' = ar_total st +
    int (length (filter (\<lambda>iv. \<not> invoice_vanishes env iv) (fi_invoices (re_inputs env))))"
proof -
  have "ar_total (add_note c n s) = ar_total s" for c n s
    by (simp add: ar_total_def receipts_def add_note_def)
  with assms show ?thesis
    by (auto simp: resolve_ar_def result_simps Let_def dest: fold_invoices_total)
qed

section \<open>Properties\<close>

definition example_invoice :: invoice where
  "example_invoice =
     \<lparr>inv_id = ''I1'', inv_customer_id = ''C1'', inv_issue_date = 738000, inv_due_date = 738003,
      inv_open_amount = Money 5000 ''USD'', inv_status = OPEN, inv_provenance = None\<rparr>"

definition example_inputs :: forecast_inputs where
  "example_inputs =
     \<lparr>fi_opening = \<lparr>cp_as_of = 738000, cp_available = Money 100 ''USD'', cp_restricted = Money 0 ''USD'',
        cp_verified = True\<rparr>,
      fi_currency = ''USD'',
      fi_invoices = [example_invoice, example_invoice\<lparr>inv_status := DISPUTED\<rparr>],
      fi_customer_histories = [],
      fi_bills = [\<lparr>bill_id = ''B1'', bill_vendor_id = ''V1'', bill_due_date = 737990,
        bill_amount = Money 300 ''USD'', bill_scheduled_date = None, bill_provenance = None\<rparr>],
      fi_recurring = [\<lparr>ri_label = ''sweep'', ri_category = TRANSFER, ri_direction = OUTFLOW,
        ri_amount = Money 70 ''USD'', ri_recurrence = \<lparr>frequency = WEEKLY, anchor = 738000,
          rec_interval = 1, second_day = None, rec_end = None, rec_count = None\<rparr>,
        ri_provenance = None\<rparr>],
      fi_payroll = [], fi_debt = [], fi_one_time = [], fi_pipeline = []\<rparr>"

definition example_flows_of :: "resolved_flows run" where
  "example_flows_of = resolve example_inputs (default_config ''USD'') UPSIDE upside_assumptions"

lemma example_schedules: "schedules_step example_inputs"
  by (simp add: schedules_step_def example_inputs_def positive_steps_def valid_date_def max_ordinal_def)

lemma example_resolved:
  "\<exists>r. example_flows_of = Some (Inr r) \<and> map on_date (rf_flows r) = [738000, 738003] \<and>
     map amount (rf_flows r) = [Money 300 ''USD'', Money 5000 ''USD''] \<and>
     map direction (rf_flows r) = [OUTFLOW, INFLOW]"
  unfolding example_flows_of_def resolve_def
  by (simp add: example_inputs_def example_invoice_def default_config_def upside_assumptions_def
      base_assumptions_def resolve_ar_def resolve_start_def resolve_invoice_def
      expected_payment_def clamp_def in_window_def written_down_def resolve_refund_def add_flow_def
      add_note_def is_zero_def resolve_pipeline_def resolve_recurring_def resolve_bills_def resolve_bill_def
      resolve_item_def resolve_payroll_def resolve_debt_def resolve_one_time_def number_flows_def flow_key_def
      date_add_def valid_date_def max_ordinal_def)

text \<open>C28. When every schedule steps forward, each resolved flow is dated inside the horizon,
  carries the scenario it was resolved for, and is not an internal transfer.\<close>

theorem resolve_within_horizon:
  assumes "resolve inputs config scen assumptions = Some (Inr r)" "schedules_step inputs"
    and "f \<in> set (rf_flows r)"
  shows "cp_as_of (fi_opening inputs) \<le> on_date f \<and>
    on_date f \<le> cp_as_of (fi_opening inputs) + (horizon_weeks config * 7 - 1) \<and>
    category f \<noteq> TRANSFER \<and> cf_scenario f = scen"
  using resolve_flows [OF assms(1,2)] assms(3) by blast

theorem resolve_within_horizon_witness:
  "\<exists>r. example_flows_of = Some (Inr r) \<and> length (rf_flows r) = 2 \<and>
     (\<forall>f\<in>set (rf_flows r). category f \<noteq> TRANSFER \<and> cf_scenario f = UPSIDE)"
proof -
  from example_resolved obtain r where r: "example_flows_of = Some (Inr r)"
    "map on_date (rf_flows r) = [738000, 738003]" by (elim exE conjE)
  from arg_cong [OF r(2), of length] have "length (rf_flows r) = 2" by (simp only: length_map) simp
  with r(1) resolve_within_horizon [OF r(1) [unfolded example_flows_of_def] example_schedules]
  show ?thesis by (intro exI [of _ r] conjI ballI) (assumption | simp)+
qed

text \<open>The resolved flows are in the order of date, direction, category, origin and amount, and
  numbered 1, 2, 3 and so on in that order.\<close>

theorem resolve_sorted_numbered:
  assumes "resolve inputs config scen assumptions = Some (Inr r)"
  shows "sorted (map flow_key (rf_flows r)) \<and>
    map seq (rf_flows r) = map int [1..<Suc (length (rf_flows r))]"
  using assms by (rule resolve_order)

theorem resolve_sorted_numbered_witness:
  "\<exists>r. example_flows_of = Some (Inr r) \<and> map seq (rf_flows r) = [1, 2]"
proof -
  from example_resolved obtain r where r: "example_flows_of = Some (Inr r)"
    "map on_date (rf_flows r) = [738000, 738003]" by (elim exE conjE)
  from arg_cong [OF r(2), of length] have "length (rf_flows r) = 2" by (simp only: length_map) simp
  moreover have "map int [1..<Suc 2] = [1, 2]" by (simp add: upt_rec)
  ultimately have "map seq (rf_flows r) = [1, 2]"
    using resolve_sorted_numbered [OF r(1) [unfolded example_flows_of_def]] by simp
  with r(1) show ?thesis by (intro exI conjI)
qed

text \<open>Resolving returns, with flows or with an exception, whenever every schedule steps
  forward.\<close>

theorem resolve_terminates:
  assumes "schedules_step inputs"
  shows "resolve inputs config scen assumptions \<noteq> None"
  using assms by (rule resolve_returns)

theorem resolve_terminates_witness: "example_flows_of \<noteq> None"
  unfolding example_flows_of_def by (rule resolve_terminates [OF example_schedules])

text \<open>Every invoice is accounted for: it is counted as disputed, counted as beyond the
  horizon, forecast by one receipt, or written down to nothing.\<close>

theorem resolve_ar_accounts:
  assumes "resolve_ar env st = Inr st'"
  shows "int (length (receipts st')) + dropped_ar st' + excluded_disputed st' =
    int (length (receipts st)) + dropped_ar st + excluded_disputed st +
    int (length (filter (\<lambda>iv. \<not> invoice_vanishes env iv) (fi_invoices (re_inputs env))))"
  using resolve_ar_total [OF assms] by (simp add: ar_total_def)

definition example_env :: resolve_env where
  "example_env = \<lparr>re_inputs = example_inputs, re_config = default_config ''USD'', re_scenario = UPSIDE,
     re_assumptions = upside_assumptions, re_as_of = 738000, re_horizon_end = 738090\<rparr>"

theorem resolve_ar_accounts_witness:
  "\<exists>st'. resolve_ar example_env resolve_start = Inr st' \<and>
     int (length (receipts st')) + dropped_ar st' + excluded_disputed st' = 2"
proof -
  have "\<exists>st'. resolve_ar example_env resolve_start = Inr st'"
    by (simp add: example_env_def example_inputs_def example_invoice_def upside_assumptions_def
      base_assumptions_def resolve_ar_def resolve_start_def resolve_invoice_def
      expected_payment_def clamp_def in_window_def written_down_def resolve_refund_def is_zero_def
      add_flow_def add_note_def Let_def)
  moreover have "int (length (receipts resolve_start)) + dropped_ar resolve_start + excluded_disputed resolve_start +
      int (length (filter (\<lambda>iv. \<not> invoice_vanishes example_env iv) (fi_invoices (re_inputs example_env)))) = 2"
    by (simp add: example_env_def example_inputs_def example_invoice_def upside_assumptions_def
      base_assumptions_def resolve_start_def receipts_def invoice_vanishes_def
      expected_payment_def clamp_def in_window_def written_down_def is_zero_def)
  ultimately show ?thesis using resolve_ar_accounts by metis
qed

end
