(* ===== verification/Projection.thy ===== *)
theory Projection
  imports Forecast_Model
begin

text \<open>
  \<open>packages/forecast/src/rgnr8_forecast/projection.py\<close>: the walk from the opening cash through
  the dated flows, day by day, and its weekly lines.

  The abstract specification is \<open>end_of_day\<close>: the opening balance plus every flow dated up to
  that day. The lemmas show that the walk and the weekly lines compute exactly this, and that
  the trough, the first breach, the worst shortfall and the recovery are those of that path.
\<close>

section \<open>Results\<close>

record week_line =
  wl_index :: int
  wl_start :: date
  wl_end :: date
  wl_opening :: money
  wl_inflows :: money
  wl_outflows :: money
  wl_net :: money
  wl_closing :: money
  wl_confidence :: int
  wl_flow_seqs :: "int list"

record cash_trough =
  ct_on_date :: date
  ct_balance :: money

record breach =
  br_breached :: bool
  br_floor :: money
  br_worst_shortfall :: money
  br_first_date :: "date option"
  br_weeks_until :: "int option"
  br_recovery_date :: "date option"

record projection =
  pj_currency :: string
  pj_as_of :: date
  pj_opening_available :: money
  pj_restricted :: money
  pj_effective_floor :: money
  pj_weeks :: "week_line list"
  pj_total_inflows :: money
  pj_total_outflows :: money
  pj_ending_balance :: money
  pj_trough :: cash_trough
  pj_breach :: breach

section \<open>The daily totals\<close>

text \<open>The dictionaries \<open>daily_delta\<close>, \<open>daily_in\<close> and \<open>daily_out\<close>.\<close>

record daily =
  daily_delta :: "(date \<times> int) list"
  daily_in :: "(date \<times> int) list"
  daily_out :: "(date \<times> int) list"

definition add_daily :: "date \<Rightarrow> date \<Rightarrow> cash_flow \<Rightarrow> daily \<Rightarrow> daily" where
  "add_daily as_of horizon_end f dy =
     (if \<not> (as_of \<le> on_date f \<and> on_date f \<le> horizon_end) then dy
      else
        let dy = dy\<lparr>daily_delta := dict_add (on_date f) (signed_minor f) (daily_delta dy)\<rparr>
        in if direction f = INFLOW
           then dy\<lparr>daily_in := dict_add (on_date f) (minor_units (amount f)) (daily_in dy)\<rparr>
           else dy\<lparr>daily_out := dict_add (on_date f) (minor_units (amount f)) (daily_out dy)\<rparr>)"

definition daily_totals :: "date \<Rightarrow> date \<Rightarrow> cash_flow list \<Rightarrow> daily" where
  "daily_totals as_of horizon_end flows =
     fold (add_daily as_of horizon_end) flows \<lparr>daily_delta = [], daily_in = [], daily_out = []\<rparr>"

section \<open>The walk\<close>

record walk =
  balance :: int
  trough_val :: int
  trough_date :: date
  first_breach :: "date option"
  recovery :: "date option"
  worst_shortfall :: int

definition walk_start :: "int \<Rightarrow> date \<Rightarrow> walk" where
  "walk_start opening as_of =
     \<lparr>balance = opening, trough_val = opening, trough_date = as_of, first_breach = None,
      recovery = None, worst_shortfall = 0\<rparr>"

definition walk_day :: "int \<Rightarrow> date \<Rightarrow> int \<Rightarrow> walk \<Rightarrow> walk" where
  "walk_day floor_units day delta w =
     (let w = w\<lparr>balance := balance w + delta\<rparr>;
          w = (if balance w < trough_val w then w\<lparr>trough_val := balance w, trough_date := day\<rparr> else w)
      in if balance w < floor_units then
           let w = (if first_breach w = None then w\<lparr>first_breach := Some day\<rparr> else w);
               w = w\<lparr>recovery := None\<rparr>;
               shortfall = floor_units - balance w
           in if worst_shortfall w < shortfall then w\<lparr>worst_shortfall := shortfall\<rparr> else w
         else if first_breach w \<noteq> None \<and> recovery w = None then w\<lparr>recovery := Some day\<rparr>
         else w)"

definition walk_days :: "int \<Rightarrow> date \<Rightarrow> (date \<times> int) list \<Rightarrow> int \<Rightarrow> walk \<Rightarrow> walk res" where
  "walk_days floor_units as_of delta total_days w =
     fold_res (\<lambda>i w. res_bind (date_add as_of i) (\<lambda>day.
         Inr (walk_day floor_units day (dict_get0 delta day) w)))
       [0..total_days - 1] w"

section \<open>The weekly lines\<close>

text \<open>\<open>_confidence\<close>: confidence weighted by amount, 100 when nothing moves.\<close>

definition weighted_confidence :: "cash_flow list \<Rightarrow> int" where
  "weighted_confidence flows =
     (let total_weight = (\<Sum>f\<leftarrow>flows. minor_units (amount f));
          weighted = (\<Sum>f\<leftarrow>flows. minor_units (amount f) * confidence_weight (confidence f))
      in if total_weight = 0 then 100 else round_half_even weighted total_weight)"

text \<open>\<open>seqs_by_week\<close>: each flow goes to the first week that contains its date.\<close>

definition add_seq :: "week_bucket list \<Rightarrow> cash_flow \<Rightarrow> (int \<times> int list) list \<Rightarrow> (int \<times> int list) list" where
  "add_seq weeks f d =
     (case find (\<lambda>w. wb_contains w (on_date f)) weeks of
        None \<Rightarrow> d
      | Some w \<Rightarrow> AList.map_entry (wb_index w) (\<lambda>ss. ss @ [seq f]) d)"

definition seqs_by_week :: "week_bucket list \<Rightarrow> cash_flow list \<Rightarrow> (int \<times> int list) list" where
  "seqs_by_week weeks flows =
     fold (add_seq weeks) flows (map (\<lambda>w. (wb_index w, [])) weeks)"

text \<open>\<open>sum(d.get(start + k, 0) for k in range(7))\<close>.\<close>

definition week_sum :: "(date \<times> int) list \<Rightarrow> date \<Rightarrow> int res" where
  "week_sum d start =
     fold_res (\<lambda>k acc. res_bind (date_add start k) (\<lambda>day. Inr (acc + dict_get0 d day))) [0..6] 0"

definition build_week_line ::
  "string \<Rightarrow> cash_flow list \<Rightarrow> daily \<Rightarrow> (int \<times> int list) list \<Rightarrow> week_bucket
     \<Rightarrow> int \<times> week_line list \<Rightarrow> (int \<times> week_line list) res" where
  "build_week_line ccy flows dy seqs w = (\<lambda>(running, week_lines).
     let opening = running
     in res_bind (week_sum (daily_in dy) (wb_start w)) (\<lambda>w_in.
        res_bind (week_sum (daily_out dy) (wb_start w)) (\<lambda>w_out.
          let net = w_in - w_out;
              running = opening + net;
              week_flows = filter (\<lambda>f. wb_contains w (on_date f)) flows;
              conf = weighted_confidence week_flows
          in case map_of seqs (wb_index w) of
               None \<Rightarrow> Inl (KeyError (str_int (wb_index w)))
             | Some ss \<Rightarrow>
                 Inr (running, week_lines @
                   [\<lparr>wl_index = wb_index w, wl_start = wb_start w, wl_end = wb_end w,
                     wl_opening = Money opening ccy, wl_inflows = Money w_in ccy,
                     wl_outflows = Money w_out ccy, wl_net = Money net ccy,
                     wl_closing = Money running ccy, wl_confidence = conf,
                     wl_flow_seqs = sort ss\<rparr>]))))"

section \<open>The projection\<close>

definition compute_projection ::
  "money \<Rightarrow> money \<Rightarrow> cash_flow list \<Rightarrow> forecast_config \<Rightarrow> date \<Rightarrow> projection res" where
  "compute_projection opening_available restricted flows config as_of =
     (let ccy = cfg_currency config
      in res_bind (week_buckets as_of (horizon_weeks config)) (\<lambda>weeks.
         res_bind (if weeks = [] then Inl IndexError else Inr (wb_end (last weeks))) (\<lambda>horizon_end.
         let dy = daily_totals as_of horizon_end flows
         in res_bind (money_add (minimum_cash config) restricted) (\<lambda>flr.
            res_bind (walk_days (minor_units flr) as_of (daily_delta dy) (horizon_weeks config * 7)
                        (walk_start (minor_units opening_available) as_of)) (\<lambda>w.
            let seqs = seqs_by_week weeks flows
            in res_bind (fold_res (build_week_line ccy flows dy seqs) weeks
                          (minor_units opening_available, [])) (\<lambda>(running, week_lines).
               Inr \<lparr>pj_currency = ccy, pj_as_of = as_of, pj_opening_available = opening_available,
                 pj_restricted = restricted, pj_effective_floor = flr, pj_weeks = week_lines,
                 pj_total_inflows = Money (dict_values_sum (daily_in dy)) ccy,
                 pj_total_outflows = Money (dict_values_sum (daily_out dy)) ccy,
                 pj_ending_balance = Money running ccy,
                 pj_trough = \<lparr>ct_on_date = trough_date w, ct_balance = Money (trough_val w) ccy\<rparr>,
                 pj_breach = \<lparr>br_breached = (first_breach w \<noteq> None), br_floor = flr,
                   br_worst_shortfall = Money (worst_shortfall w) ccy,
                   br_first_date = first_breach w,
                   br_weeks_until = map_option (\<lambda>d. (d - as_of) div 7 + 1) (first_breach w),
                   br_recovery_date = recovery w\<rparr>\<rparr>))))))"

section \<open>The specification\<close>

text \<open>The balance at the end of day \<open>i\<close> after \<open>as_of\<close>; \<open>- 1\<close> is the opening.\<close>

definition end_of_day :: "int \<Rightarrow> date \<Rightarrow> cash_flow list \<Rightarrow> int \<Rightarrow> int" where
  "end_of_day opening as_of flows i =
     opening + (\<Sum>f\<leftarrow>flows. if as_of \<le> on_date f \<and> on_date f \<le> as_of + i then signed_minor f else 0)"

lemma end_of_day_start: "end_of_day opening as_of flows (- 1) = opening"
  by (induction flows) (auto simp: end_of_day_def)

section \<open>The daily totals are those of the flows\<close>

lemma daily_fold:
  fixes as_of he :: date
  defines "win f \<equiv> as_of \<le> on_date f \<and> on_date f \<le> he"
  shows "daily_delta (fold (add_daily as_of he) fs dy) =
      fold (\<lambda>f. if win f then dict_add (on_date f) (signed_minor f) else id) fs (daily_delta dy)"
    and "daily_in (fold (add_daily as_of he) fs dy) =
      fold (\<lambda>f. if win f \<and> direction f = INFLOW
        then dict_add (on_date f) (minor_units (amount f)) else id) fs (daily_in dy)"
    and "daily_out (fold (add_daily as_of he) fs dy) =
      fold (\<lambda>f. if win f \<and> direction f \<noteq> INFLOW
        then dict_add (on_date f) (minor_units (amount f)) else id) fs (daily_out dy)"
  by (induction fs arbitrary: dy) (simp_all add: add_daily_def win_def Let_def)

lemma daily_delta_at:
  "dict_get0 (daily_delta (daily_totals as_of he fs)) d =
     (\<Sum>f\<leftarrow>fs. if (as_of \<le> on_date f \<and> on_date f \<le> he) \<and> on_date f = d then signed_minor f else 0)"
  by (simp add: daily_totals_def daily_fold dict_get0_group)

lemma daily_in_out_at:
  "dict_get0 (daily_in (daily_totals as_of he fs)) d - dict_get0 (daily_out (daily_totals as_of he fs)) d =
     dict_get0 (daily_delta (daily_totals as_of he fs)) d"
  unfolding daily_totals_def daily_fold dict_get0_group
  by (induction fs) (auto simp: signed_minor_def)

lemma end_of_day_step:
  assumes "0 \<le> i" "as_of + i \<le> he"
  shows "end_of_day opening as_of fs i =
    end_of_day opening as_of fs (i - 1) + dict_get0 (daily_delta (daily_totals as_of he fs)) (as_of + i)"
proof -
  have "(if as_of \<le> on_date f \<and> on_date f \<le> as_of + i then signed_minor f else 0) =
      (if as_of \<le> on_date f \<and> on_date f \<le> as_of + (i - 1) then signed_minor f else 0) +
      (if (as_of \<le> on_date f \<and> on_date f \<le> he) \<and> on_date f = as_of + i then signed_minor f else 0)" for f
    using assms by auto
  then show ?thesis
    by (simp add: end_of_day_def daily_delta_at sum_list_addf)
qed

text \<open>The totals of the horizon.\<close>

lemma daily_sums:
  "dict_values_sum (daily_in (daily_totals as_of he fs)) - dict_values_sum (daily_out (daily_totals as_of he fs)) =
     (\<Sum>f\<leftarrow>fs. if as_of \<le> on_date f \<and> on_date f \<le> he then signed_minor f else 0)"
  unfolding daily_totals_def daily_fold dict_values_sum_group
  by (induction fs) (auto simp: signed_minor_def dict_values_sum_def)

section \<open>The walk follows a path\<close>

lemma walk_day_simps:
  "balance (walk_day fl day x w) = balance w + x"
  "trough_val (walk_day fl day x w) = (if balance w + x < trough_val w then balance w + x else trough_val w)"
  "trough_date (walk_day fl day x w) = (if balance w + x < trough_val w then day else trough_date w)"
  "first_breach (walk_day fl day x w) =
     (if balance w + x < fl \<and> first_breach w = None then Some day else first_breach w)"
  "recovery (walk_day fl day x w) =
     (if balance w + x < fl then None
      else if first_breach w \<noteq> None \<and> recovery w = None then Some day else recovery w)"
  "worst_shortfall (walk_day fl day x w) =
     (if balance w + x < fl \<and> worst_shortfall w < fl - (balance w + x) then fl - (balance w + x)
      else worst_shortfall w)"
  by (simp_all add: walk_day_def Let_def)

text \<open>
  What the walk knows of the path \<open>b\<close> after the days \<open>0\<close> to \<open>n - 1\<close>. Index \<open>- 1\<close> is the
  opening, whose date is also \<open>as_of\<close>.
\<close>

definition trough_of :: "(int \<Rightarrow> int) \<Rightarrow> date \<Rightarrow> int \<Rightarrow> int \<Rightarrow> date \<Rightarrow> bool" where
  "trough_of b as_of n v d \<longleftrightarrow>
     (\<exists>j. - 1 \<le> j \<and> j < n \<and> v = b j \<and> d = as_of + max j 0 \<and>
        (\<forall>k. - 1 \<le> k \<and> k < j \<longrightarrow> b j < b k) \<and> (\<forall>k. - 1 \<le> k \<and> k < n \<longrightarrow> b j \<le> b k))"

definition first_below :: "(int \<Rightarrow> int) \<Rightarrow> date \<Rightarrow> int \<Rightarrow> int \<Rightarrow> date option \<Rightarrow> bool" where
  "first_below b as_of fl n d0 \<longleftrightarrow>
     (case d0 of
        None \<Rightarrow> \<forall>k. 0 \<le> k \<and> k < n \<longrightarrow> fl \<le> b k
      | Some d \<Rightarrow> \<exists>j. 0 \<le> j \<and> j < n \<and> d = as_of + j \<and> b j < fl \<and> (\<forall>k. 0 \<le> k \<and> k < j \<longrightarrow> fl \<le> b k))"

definition back_above :: "(int \<Rightarrow> int) \<Rightarrow> date \<Rightarrow> int \<Rightarrow> int \<Rightarrow> date option \<Rightarrow> date option \<Rightarrow> bool" where
  "back_above b as_of fl n first d0 \<longleftrightarrow>
     (case d0 of
        None \<Rightarrow> first = None \<or> (0 < n \<and> b (n - 1) < fl)
      | Some d \<Rightarrow> first \<noteq> None \<and> (\<exists>j. 0 < j \<and> j < n \<and> d = as_of + j \<and> b (j - 1) < fl \<and>
                     (\<forall>k. j \<le> k \<and> k < n \<longrightarrow> fl \<le> b k)))"

definition shortfall_of :: "(int \<Rightarrow> int) \<Rightarrow> int \<Rightarrow> int \<Rightarrow> int \<Rightarrow> bool" where
  "shortfall_of b fl n s \<longleftrightarrow>
     0 \<le> s \<and> (\<forall>k. 0 \<le> k \<and> k < n \<longrightarrow> fl - b k \<le> s) \<and> (s = 0 \<or> (\<exists>k. 0 \<le> k \<and> k < n \<and> s = fl - b k))"

definition follows :: "(int \<Rightarrow> int) \<Rightarrow> date \<Rightarrow> int \<Rightarrow> int \<Rightarrow> walk \<Rightarrow> bool" where
  "follows b as_of fl n w \<longleftrightarrow>
     balance w = b (n - 1) \<and> trough_of b as_of n (trough_val w) (trough_date w) \<and>
     first_below b as_of fl n (first_breach w) \<and>
     back_above b as_of fl n (first_breach w) (recovery w) \<and>
     shortfall_of b fl n (worst_shortfall w)"

text \<open>One more day.\<close>

lemma all_upto: "(\<forall>k. l \<le> k \<and> k < n + 1 \<longrightarrow> P k) \<longleftrightarrow> (\<forall>k. l \<le> k \<and> k < n \<longrightarrow> P k) \<and> (l \<le> n \<longrightarrow> P n)"
  for l n :: int
proof -
  have "k < n + 1 \<longleftrightarrow> k < n \<or> k = n" for k by linarith
  then show ?thesis by blast
qed

lemma trough_of_step:
  assumes "trough_of b as_of n v d" "0 \<le> n"
  shows "trough_of b as_of (n + 1) (if b n < v then b n else v) (if b n < v then as_of + n else d)"
proof -
  from assms(1) obtain j where j: "- 1 \<le> j" "j < n" "v = b j" "d = as_of + max j 0"
    "\<forall>k. - 1 \<le> k \<and> k < j \<longrightarrow> b j < b k" "\<forall>k. - 1 \<le> k \<and> k < n \<longrightarrow> b j \<le> b k"
    unfolding trough_of_def by blast
  show ?thesis
  proof (cases "b n < v")
    case True
    then have "\<forall>k. - 1 \<le> k \<and> k < n \<longrightarrow> b n < b k" using j(3,6) by fastforce
    with True assms(2) show ?thesis
      unfolding trough_of_def all_upto by (intro exI [of _ n]) (auto simp: order_le_less)
  next
    case False
    with j show ?thesis
      unfolding trough_of_def all_upto by (intro exI [of _ j]) simp
  qed
qed

lemma first_below_step:
  assumes "first_below b as_of fl n d0" "0 \<le> n"
  shows "first_below b as_of fl (n + 1) (if b n < fl \<and> d0 = None then Some (as_of + n) else d0)"
proof (cases d0)
  case None
  with assms show ?thesis
    unfolding first_below_def all_upto by (auto intro: exI [of _ n])
next
  case (Some d)
  with assms obtain j where "0 \<le> j" "j < n" "d = as_of + j" "b j < fl" "\<forall>k. 0 \<le> k \<and> k < j \<longrightarrow> fl \<le> b k"
    by (auto simp: first_below_def)
  with Some show ?thesis by (auto simp: first_below_def intro!: exI [of _ j])
qed

lemma back_above_step:
  assumes "back_above b as_of fl n f d0" "0 \<le> n"
  shows "back_above b as_of fl (n + 1) (if b n < fl \<and> f = None then Some (as_of + n) else f)
    (if b n < fl then None else if f \<noteq> None \<and> d0 = None then Some (as_of + n) else d0)"
proof (cases "b n < fl")
  case False
  show ?thesis
  proof (cases d0)
    case None
    with assms(1) have "f = None \<or> (0 < n \<and> b (n - 1) < fl)" by (simp add: back_above_def)
    with None False show ?thesis
      unfolding back_above_def all_upto by (auto intro!: exI [of _ n])
  next
    case (Some d)
    with assms(1) obtain j where "f \<noteq> None" "0 < j" "j < n" "d = as_of + j" "b (j - 1) < fl"
      "\<forall>k. j \<le> k \<and> k < n \<longrightarrow> fl \<le> b k"
      by (auto simp: back_above_def)
    with Some False show ?thesis
      unfolding back_above_def all_upto by (auto intro!: exI [of _ j])
  qed
qed (use assms(2) in \<open>simp add: back_above_def\<close>)

lemma shortfall_of_step:
  assumes "shortfall_of b fl n s" "0 \<le> n"
  shows "shortfall_of b fl (n + 1) (if b n < fl \<and> s < fl - b n then fl - b n else s)"
proof (cases "s < fl - b n")
  case True
  moreover have "0 \<le> s" "\<forall>k. 0 \<le> k \<and> k < n \<longrightarrow> fl - b k \<le> s"
    using assms(1) by (simp_all add: shortfall_of_def)
  ultimately show ?thesis
    unfolding shortfall_of_def all_upto using assms(2) by (auto intro!: exI [of _ n])
next
  case False
  with assms show ?thesis
    unfolding shortfall_of_def all_upto by (auto intro: exI)
qed

lemma follows_step:
  assumes w: "follows b as_of fl n w" and "0 \<le> n"
  shows "follows b as_of fl (n + 1) (walk_day fl (as_of + n) (b n - b (n - 1)) w)"
proof -
  have bal: "balance w + (b n - b (n - 1)) = b n" using w by (simp add: follows_def)
  have "n + 1 - 1 = n" by simp
  then show ?thesis
    using w trough_of_step [OF _ assms(2)] first_below_step [OF _ assms(2)]
      back_above_step [OF _ assms(2)] shortfall_of_step [OF _ assms(2)]
    unfolding follows_def walk_day_simps bal by (simp del: split_paired_All)
qed

lemma follows_start:
  assumes "b (- 1) = opening" shows "follows b as_of fl 0 (walk_start opening as_of)"
proof -
  have "k = - 1" if "- 1 \<le> k" "k < 0" for k :: int using that by linarith
  then have "b (- 1) \<le> b k" if "- 1 \<le> k \<and> k < 0" for k using that by blast
  then have "trough_of b as_of 0 (b (- 1)) as_of"
    unfolding trough_of_def by (intro exI [of _ "- 1"]) auto
  with assms show ?thesis
    by (simp add: follows_def first_below_def back_above_def shortfall_of_def walk_start_def)
qed

lemma upto_snoc: "0 \<le> n \<Longrightarrow> [0..n] = [0..n - 1] @ [n]" for n :: int
  by (simp add: upto_rec2)

lemma follows_days:
  assumes "0 \<le> n" "b (- 1) = opening"
  shows "follows b as_of fl n
    (fold (\<lambda>i. walk_day fl (as_of + i) (b i - b (i - 1))) [0..n - 1] (walk_start opening as_of))"
  using assms(1)
proof (induction n rule: int_ge_induct)
  case base
  then show ?case using follows_start [of b, OF assms(2)] by simp
next
  case (step n)
  then show ?case using follows_step [OF step.IH] by (simp add: upto_snoc)
qed

lemma walk_days_follows:
  assumes "week_buckets as_of weeks = Inr ws" "he = as_of + 7 * weeks - 1"
    and "walk_days fl as_of (daily_delta (daily_totals as_of he fs)) (weeks * 7)
           (walk_start opening as_of) = Inr w" "0 \<le> weeks"
  shows "follows (end_of_day opening as_of fs) as_of fl (7 * weeks) w"
proof -
  let ?b = "end_of_day opening as_of fs" and ?d = "daily_delta (daily_totals as_of he fs)"
  have step: "date_add as_of i = Inr (as_of + i)" "dict_get0 ?d (as_of + i) = ?b i - ?b (i - 1)"
    if "i \<in> set [0..weeks * 7 - 1]" for i
    using that week_buckets_Inr(2) [OF assms(1), of i] end_of_day_step [of i as_of he "opening" fs] assms(2)
    by (auto simp: date_add_Inr)
  have "walk_days fl as_of ?d (weeks * 7) (walk_start opening as_of) =
      Inr (fold (\<lambda>i. walk_day fl (as_of + i) (?b i - ?b (i - 1))) [0..weeks * 7 - 1] (walk_start opening as_of))"
    unfolding walk_days_def using step by (intro fold_res_total) simp
  with assms(3) follows_days [of "weeks * 7" ?b "opening" as_of fl] assms(4)
  show ?thesis by (simp add: end_of_day_start mult.commute)
qed

section \<open>The weekly lines follow the path\<close>

lemma week_sum_eq:
  assumes "\<And>k. 0 \<le> k \<Longrightarrow> k \<le> 6 \<Longrightarrow> valid_date (start + k)"
  shows "week_sum d start = Inr (\<Sum>k\<leftarrow>[0..6]. dict_get0 d (start + k))"
proof -
  have "week_sum d start = Inr (fold (\<lambda>k acc. acc + dict_get0 d (start + k)) [0..6] 0)"
  proof -
    have "date_add start k = Inr (start + k)" if "k \<in> set [0..6]" for k
      using assms that by (simp add: date_add_Inr)
    then show ?thesis unfolding week_sum_def by (intro fold_res_total) (simp del: set_upto)
  qed
  moreover have "fold (\<lambda>k acc. acc + g k) ks a = a + (\<Sum>k\<leftarrow>ks. g k)" for g :: "int \<Rightarrow> int" and ks a
    by (induction ks arbitrary: a) simp_all
  ultimately show ?thesis by simp
qed

definition week_total :: "(date \<times> int) list \<Rightarrow> date \<Rightarrow> int \<Rightarrow> int" where
  "week_total d as_of i = (\<Sum>k\<leftarrow>[0..6]. dict_get0 d (as_of + 7 * i + k))"

lemma week_net:
  assumes "0 \<le> i" "as_of + 7 * i + 6 \<le> he"
  shows "week_total (daily_in (daily_totals as_of he fs)) as_of i -
      week_total (daily_out (daily_totals as_of he fs)) as_of i =
    end_of_day opening as_of fs (7 * i + 6) - end_of_day opening as_of fs (7 * i - 1)"
proof -
  let ?b = "end_of_day opening as_of fs" and ?d = "\<lambda>k. dict_get0 (daily_delta (daily_totals as_of he fs)) (as_of + 7 * i + k)"
  have b: "?d k = ?b (7 * i + k) - ?b (7 * i + k - 1)" if "k \<in> {0..6}" for k
    using end_of_day_step [of "7 * i + k" as_of he "opening" fs] assms that by (simp add: add.assoc)
  have "week_total (daily_in (daily_totals as_of he fs)) as_of i -
      week_total (daily_out (daily_totals as_of he fs)) as_of i = (\<Sum>k\<leftarrow>[0..6]. ?d k)"
    unfolding week_total_def sum_list_subtractf [symmetric] daily_in_out_at ..
  also have "\<dots> = (\<Sum>k\<leftarrow>[0..6]. ?b (7 * i + k) - ?b (7 * i + k - 1))"
    using b by (intro arg_cong [where f = sum_list] map_cong) auto
  also have "\<dots> = ?b (7 * i + 6) - ?b (7 * i - 1)"
  proof -
    have "(\<Sum>k\<leftarrow>[0..6]. g k - g (k - 1)) = g 6 - g (- 1)" for g :: "int \<Rightarrow> int"
      by (simp add: upto.simps)
    from this [of "\<lambda>k. ?b (7 * i + k)"] show ?thesis by (simp add: add_diff_eq)
  qed
  finally show ?thesis .
qed

lemma find_week:
  "find (\<lambda>w. wb_contains w d) (map (week_at as_of) [0..n - 1]) =
     (let c = (d - as_of) div 7 in if 0 \<le> c \<and> c < n then Some (week_at as_of c) else None)"
proof (cases "find (\<lambda>w. wb_contains w d) (map (week_at as_of) [0..n - 1])")
  case None
  then show ?thesis by (auto simp: find_None_iff wb_contains_week_at Let_def)
next
  case (Some w)
  then obtain c where "c \<in> {0..n - 1}" "w = week_at as_of c" "wb_contains w d"
    by (auto dest!: find_SomeD)
  with Some show ?thesis by (auto simp: wb_contains_week_at Let_def)
qed

lemma map_of_seqs_fold:
  "map_of (fold (add_seq ws) fs d) idx =
     map_option (\<lambda>ss. ss @ map seq (filter (\<lambda>f. case find (\<lambda>w. wb_contains w (on_date f)) ws of
         None \<Rightarrow> False | Some w \<Rightarrow> wb_index w = idx) fs)) (map_of d idx)"
proof (induction fs arbitrary: d)
  case Nil
  then show ?case by (cases "map_of d idx") simp_all
next
  case (Cons f fs)
  then show ?case
    by (cases "map_of d idx") (auto simp: add_seq_def AList.map_of_map_entry split: option.splits)
qed

lemma map_of_weeks:
  "0 \<le> i \<Longrightarrow> i < n \<Longrightarrow> map_of (map (\<lambda>w. (wb_index w, x)) (map (week_at as_of) [0..n - 1])) (i + 1) = Some x"
proof -
  assume "0 \<le> i" "i < n"
  then have "(i + 1, x) \<in> set (map (\<lambda>w. (wb_index w, x)) (map (week_at as_of) [0..n - 1]))"
    by (auto simp: image_iff)
  moreover have "distinct (map fst (map (\<lambda>w. (wb_index w, x)) (map (week_at as_of) [0..n - 1])))"
    by (auto simp: distinct_map inj_on_def)
  ultimately show ?thesis by (intro map_of_is_SomeI)
qed

definition week_flows :: "date \<Rightarrow> int \<Rightarrow> cash_flow list \<Rightarrow> cash_flow list" where
  "week_flows as_of i flows = filter (\<lambda>f. wb_contains (week_at as_of i) (on_date f)) flows"

lemma seqs_of_week:
  assumes "0 \<le> i" "i < n"
  shows "map_of (seqs_by_week (map (week_at as_of) [0..n - 1]) fs) (i + 1) =
    Some (map seq (week_flows as_of i fs))"
  unfolding seqs_by_week_def map_of_seqs_fold map_of_weeks [OF assms] find_week week_flows_def
    wb_contains_week_at
  using assms by (auto simp: Let_def split: option.splits if_splits intro!: arg_cong [where f = "map seq"] filter_cong)

text \<open>The line of week \<open>i\<close>, by the specification.\<close>

definition line_at ::
  "string \<Rightarrow> cash_flow list \<Rightarrow> daily \<Rightarrow> int \<Rightarrow> date \<Rightarrow> int \<Rightarrow> week_line" where
  "line_at ccy flows dy opening as_of i =
     (let b = end_of_day opening as_of flows; w_in = week_total (daily_in dy) as_of i;
          w_out = week_total (daily_out dy) as_of i
      in \<lparr>wl_index = i + 1, wl_start = as_of + 7 * i, wl_end = as_of + 7 * i + 6,
          wl_opening = Money (b (7 * i - 1)) ccy, wl_inflows = Money w_in ccy,
          wl_outflows = Money w_out ccy, wl_net = Money (w_in - w_out) ccy,
          wl_closing = Money (b (7 * i + 6)) ccy,
          wl_confidence = weighted_confidence (week_flows as_of i flows),
          wl_flow_seqs = sort (map seq (week_flows as_of i flows))\<rparr>)"

lemma week_line_step:
  assumes "week_buckets as_of n = Inr ws" "he = as_of + 7 * n - 1" "dy = daily_totals as_of he fs"
    and "0 \<le> i" "i < n"
  shows "build_week_line ccy fs dy (seqs_by_week ws fs) (week_at as_of i)
      (end_of_day opening as_of fs (7 * i - 1), lines) =
    Inr (end_of_day opening as_of fs (7 * i + 6), lines @ [line_at ccy fs dy opening as_of i])"
proof -
  have v: "valid_date (as_of + 7 * i + k)" if "0 \<le> k" "k \<le> 6" for k
    using week_buckets_Inr(2) [OF assms(1), of "7 * i + k"] assms(4,5) that by (simp add: add.assoc)
  have sums: "week_sum (daily_in dy) (as_of + 7 * i) = Inr (week_total (daily_in dy) as_of i)"
    "week_sum (daily_out dy) (as_of + 7 * i) = Inr (week_total (daily_out dy) as_of i)"
    using v by (simp_all add: week_sum_eq week_total_def)
  have seqs: "map_of (seqs_by_week ws fs) (i + 1) = Some (map seq (week_flows as_of i fs))"
    using seqs_of_week [OF assms(4,5)] week_buckets_Inr(1) [OF assms(1)] by simp
  have "week_total (daily_in dy) as_of i - week_total (daily_out dy) as_of i =
      end_of_day opening as_of fs (7 * i + 6) - end_of_day opening as_of fs (7 * i - 1)"
    unfolding assms(3) using assms(2,4,5) by (intro week_net) simp_all
  then have net: "end_of_day opening as_of fs (7 * i + 6) =
      end_of_day opening as_of fs (7 * i - 1) + (week_total (daily_in dy) as_of i - week_total (daily_out dy) as_of i)"
    by simp
  have wk: "wb_start (week_at as_of i) = as_of + 7 * i" "wb_end (week_at as_of i) = as_of + 7 * i + 6"
    by (simp_all add: week_at_def)
  show ?thesis
    by (simp add: build_week_line_def wk sums seqs line_at_def net week_flows_def [symmetric] Let_def)
qed

lemma week_lines_exact:
  assumes "week_buckets as_of n = Inr ws" "he = as_of + 7 * n - 1" "dy = daily_totals as_of he fs"
    and "0 \<le> m" "m \<le> n"
  shows "fold_res (build_week_line ccy fs dy (seqs_by_week ws fs)) (map (week_at as_of) [0..m - 1]) (opening, []) =
    Inr (end_of_day opening as_of fs (7 * m - 1), map (line_at ccy fs dy opening as_of) [0..m - 1])"
  using assms(4,5)
proof (induction m rule: int_ge_induct)
  case base
  then show ?case by (simp add: end_of_day_start)
next
  case (step m)
  have e: "7 * (m + 1) - 1 = 7 * m + 6" by simp
  have "[0..m] = [0..m - 1] @ [m]" using step.hyps by (rule upto_snoc)
  then show ?case
    using step week_line_step [OF assms(1-3) step.hyps] unfolding e by (simp add: fold_res_append)
qed

section \<open>The projection is the path\<close>

lemma compute_projection_exact:
  assumes "compute_projection op rs flows config as_of = Inr p"
  defines "n \<equiv> horizon_weeks config" and "b \<equiv> end_of_day (minor_units op) as_of flows"
    and "fl \<equiv> minor_units (minimum_cash config) + minor_units rs" and "ccy \<equiv> cfg_currency config"
  defines "dy \<equiv> daily_totals as_of (as_of + 7 * n - 1) flows"
  obtains w where "0 < n" "follows b as_of fl (7 * n) w"
    "currency rs = currency (minimum_cash config)"
    "p = \<lparr>pj_currency = ccy, pj_as_of = as_of, pj_opening_available = op, pj_restricted = rs,
      pj_effective_floor = Money fl (currency rs),
      pj_weeks = map (line_at ccy flows dy (minor_units op) as_of) [0..n - 1],
      pj_total_inflows = Money (dict_values_sum (daily_in dy)) ccy,
      pj_total_outflows = Money (dict_values_sum (daily_out dy)) ccy,
      pj_ending_balance = Money (b (7 * n - 1)) ccy,
      pj_trough = \<lparr>ct_on_date = trough_date w, ct_balance = Money (trough_val w) ccy\<rparr>,
      pj_breach = \<lparr>br_breached = (first_breach w \<noteq> None), br_floor = Money fl (currency rs),
        br_worst_shortfall = Money (worst_shortfall w) ccy, br_first_date = first_breach w,
        br_weeks_until = map_option (\<lambda>d. (d - as_of) div 7 + 1) (first_breach w),
        br_recovery_date = recovery w\<rparr>\<rparr>"
proof -
  from assms(1) obtain ws where ws: "week_buckets as_of n = Inr ws" "ws \<noteq> []"
    unfolding compute_projection_def Let_def n_def [symmetric] res_bind_Inr by (auto split: if_splits)
  then have map_ws: "ws = map (week_at as_of) [0..n - 1]" and n: "0 < n"
    using week_buckets_Inr(1) [OF ws(1)] by auto
  have he: "wb_end (last ws) = as_of + 7 * n - 1"
    using upto_snoc [of "n - 1"] n by (simp add: map_ws week_at_def)
  obtain w where w: "walk_days fl as_of (daily_delta dy) (n * 7) (walk_start (minor_units op) as_of) = Inr w"
    and c: "currency rs = currency (minimum_cash config)"
  proof -
    obtain flr w where "money_add (minimum_cash config) rs = Inr flr"
      "walk_days (minor_units flr) as_of (daily_delta dy) (n * 7) (walk_start (minor_units op) as_of) = Inr w"
      using assms(1) unfolding compute_projection_def Let_def n_def [symmetric] ws(1) res_bind_simps
        if_not_P [OF ws(2)] he dy_def [symmetric]
      unfolding result_simps by blast
    then show thesis using that by (auto simp: money_simps fl_def)
  qed
  have "follows b as_of fl (7 * n) w"
    unfolding b_def using w n by (intro walk_days_follows [OF ws(1) refl]) (simp_all add: dy_def)
  then show thesis
  proof (rule that [OF n _ c])
    have "fold_res (build_week_line ccy flows dy (seqs_by_week ws flows)) ws (minor_units op, []) =
      Inr (b (7 * n - 1), map (line_at ccy flows dy (minor_units op) as_of) [0..n - 1])"
      using week_lines_exact [OF ws(1) refl meta_eq_to_obj_eq [OF dy_def], of n ccy "minor_units op"] n
      by (simp add: map_ws b_def)
    then show "p = \<lparr>pj_currency = ccy, pj_as_of = as_of, pj_opening_available = op, pj_restricted = rs,
      pj_effective_floor = Money fl (currency rs),
      pj_weeks = map (line_at ccy flows dy (minor_units op) as_of) [0..n - 1],
      pj_total_inflows = Money (dict_values_sum (daily_in dy)) ccy,
      pj_total_outflows = Money (dict_values_sum (daily_out dy)) ccy,
      pj_ending_balance = Money (b (7 * n - 1)) ccy,
      pj_trough = \<lparr>ct_on_date = trough_date w, ct_balance = Money (trough_val w) ccy\<rparr>,
      pj_breach = \<lparr>br_breached = (first_breach w \<noteq> None), br_floor = Money fl (currency rs),
        br_worst_shortfall = Money (worst_shortfall w) ccy, br_first_date = first_breach w,
        br_weeks_until = map_option (\<lambda>d. (d - as_of) div 7 + 1) (first_breach w),
        br_recovery_date = recovery w\<rparr>\<rparr>"
      using assms(1) ws he w c
      by (simp add: compute_projection_def n_def [symmetric] ccy_def [symmetric] Let_def
          money_add_same dy_def [symmetric] fl_def [symmetric])
  qed
qed

section \<open>Consequences\<close>

lemma compute_projection_total:
  assumes "0 < horizon_weeks config" "valid_date as_of" "valid_date (as_of + 7 * horizon_weeks config - 1)"
    and "currency rs = currency (minimum_cash config)"
  shows "\<exists>p. compute_projection op rs flows config as_of = Inr p"
proof -
  define n where "n = horizon_weeks config"
  have v: "valid_date (as_of + k)" if "0 \<le> k" "k < 7 * n" for k
    using assms(2,3) that by (simp add: valid_date_def n_def)
  have "map_res (\<lambda>i. res_bind (date_add as_of (7 * i)) (\<lambda>s.
         res_bind (date_add s 6) (\<lambda>e. Inr \<lparr>wb_index = i + 1, wb_start = s, wb_end = e\<rparr>)))
       [0..n - 1] = Inr (map (week_at as_of) [0..n - 1])"
  proof (rule map_res_total)
    fix i assume "i \<in> set [0..n - 1]"
    then have "date_add as_of (7 * i) = Inr (as_of + 7 * i)" "date_add (as_of + 7 * i) 6 = Inr (as_of + 7 * i + 6)"
      using v [of "7 * i"] v [of "7 * i + 6"] by (auto simp: date_add_Inr add.assoc)
    then show "res_bind (date_add as_of (7 * i)) (\<lambda>s.
         res_bind (date_add s 6) (\<lambda>e. Inr \<lparr>wb_index = i + 1, wb_start = s, wb_end = e\<rparr>)) = Inr (week_at as_of i)"
      by (simp add: week_at_def)
  qed
  then have ws: "week_buckets as_of n = Inr (map (week_at as_of) [0..n - 1])"
    by (simp add: week_buckets_def)
  define dy where "dy = daily_totals as_of (as_of + 7 * n - 1) flows"
  have he: "wb_end (last (map (week_at as_of) [0..n - 1])) = as_of + 7 * n - 1"
    using upto_snoc [of "n - 1"] assms(1) by (simp add: week_at_def n_def)
  have "\<exists>w. walk_days fl as_of (daily_delta dy) (n * 7) w0 = Inr w" for fl w0
  proof -
    have "date_add as_of i = Inr (as_of + i)" if "i \<in> set [0..n * 7 - 1]" for i
      using v that by (auto simp: date_add_Inr)
    then have "walk_days fl as_of (daily_delta dy) (n * 7) w0 =
        Inr (fold (\<lambda>i. walk_day fl (as_of + i) (dict_get0 (daily_delta dy) (as_of + i))) [0..n * 7 - 1] w0)"
      unfolding walk_days_def by (intro fold_res_total) (simp del: set_upto)
    then show ?thesis by blast
  qed
  then obtain w where "walk_days (minor_units (minimum_cash config) + minor_units rs) as_of (daily_delta dy)
      (n * 7) (walk_start (minor_units op) as_of) = Inr w" by blast
  moreover have "fold_res (build_week_line (cfg_currency config) flows dy (seqs_by_week (map (week_at as_of) [0..n - 1]) flows))
      (map (week_at as_of) [0..n - 1]) (minor_units op, []) =
    Inr (end_of_day (minor_units op) as_of flows (7 * n - 1),
      map (line_at (cfg_currency config) flows dy (minor_units op) as_of) [0..n - 1])"
    using week_lines_exact [OF ws refl, of dy flows n] assms(1) by (simp add: dy_def n_def)
  moreover have "map (week_at as_of) [0..n - 1] \<noteq> []" using assms(1) by (simp add: n_def)
  ultimately show ?thesis
    unfolding compute_projection_def Let_def n_def [symmetric] ws res_bind_simps
    using assms(4) by (simp add: he dy_def [symmetric] money_add_same)
qed

lemma filter_mset_disjoint:
  "(\<And>x. x \<in> set xs \<Longrightarrow> \<not> (P x \<and> Q x)) \<Longrightarrow>
     mset (filter P xs) + mset (filter Q xs) = mset (filter (\<lambda>x. P x \<or> Q x) xs)"
  by (induction xs) auto

lemma week_flows_partition:
  assumes "0 \<le> n"
  shows "mset (concat (map (\<lambda>i. map g (week_flows as_of i fs)) [0..n - 1])) =
    mset (map g (filter (\<lambda>f. as_of \<le> on_date f \<and> on_date f \<le> as_of + 7 * n - 1) fs))"
proof -
  have in_weeks: "as_of \<le> d \<and> d \<le> as_of + 7 * n - 1 \<longleftrightarrow> 0 \<le> (d - as_of) div 7 \<and> (d - as_of) div 7 < n" for d n :: int
    by (simp add: pos_imp_zdiv_nonneg_iff div_less_iff_less_mult) linarith
  have "mset (concat (map (\<lambda>i. week_flows as_of i fs) [0..n - 1])) =
      mset (filter (\<lambda>f. 0 \<le> (on_date f - as_of) div 7 \<and> (on_date f - as_of) div 7 < n) fs)"
    using assms
  proof (induction n rule: int_ge_induct)
    case base
    have "filter (\<lambda>f. 0 \<le> (on_date f - as_of) div 7 \<and> (on_date f - as_of) div 7 < 0) fs = []"
      by (simp add: filter_empty_conv)
    then show ?case by simp
  next
    case (step n)
    have "(0 \<le> c \<and> c < n + 1) \<longleftrightarrow> (0 \<le> c \<and> c < n) \<or> c = n" for c :: int
      using step.hyps by linarith
    then show ?case
      using step filter_mset_disjoint [of fs "\<lambda>f. 0 \<le> (on_date f - as_of) div 7 \<and> (on_date f - as_of) div 7 < n"
          "\<lambda>f. (on_date f - as_of) div 7 = n"]
      by (simp add: upto_snoc week_flows_def wb_contains_week_at)
  qed
  then have "image_mset g (mset (concat (map (\<lambda>i. week_flows as_of i fs) [0..n - 1]))) =
      image_mset g (mset (filter (\<lambda>f. as_of \<le> on_date f \<and> on_date f \<le> as_of + 7 * n - 1) fs))"
    by (simp only: in_weeks)
  moreover have "concat (map (\<lambda>i. map g (week_flows as_of i fs)) [0..n - 1]) =
      map g (concat (map (\<lambda>i. week_flows as_of i fs) [0..n - 1]))"
    by (simp add: map_concat comp_def)
  ultimately show ?thesis by (simp only: mset_map)
qed

text \<open>\<open>_confidence\<close> is a weighted average of the weights of the flows.\<close>

lemma weighted_confidence_bounds:
  assumes "\<And>f. f \<in> set fs \<Longrightarrow> 0 \<le> minor_units (amount f)"
  shows "30 \<le> weighted_confidence fs \<and> weighted_confidence fs \<le> 100"
proof -
  have w: "30 * (\<Sum>f\<leftarrow>fs. minor_units (amount f)) \<le> (\<Sum>f\<leftarrow>fs. minor_units (amount f) * confidence_weight (confidence f))"
    "(\<Sum>f\<leftarrow>fs. minor_units (amount f) * confidence_weight (confidence f)) \<le> 100 * (\<Sum>f\<leftarrow>fs. minor_units (amount f))"
    using assms
  proof (induction fs)
    case (Cons f fs)
    {
      case 1
      have "minor_units (amount f) * 30 \<le> minor_units (amount f) * confidence_weight (confidence f)"
        using 1 confidence_weight_bounds by (intro mult_left_mono) simp_all
      with 1 Cons.IH(1) show ?case by simp
    next
      case 2
      have "minor_units (amount f) * confidence_weight (confidence f) \<le> minor_units (amount f) * 100"
        using 2 confidence_weight_bounds by (intro mult_left_mono) simp_all
      with 2 Cons.IH(2) show ?case by simp
    }
  qed simp_all
  have t: "0 \<le> (\<Sum>f\<leftarrow>fs. minor_units (amount f))" using assms by (intro sum_list_nonneg) auto
  show ?thesis
  proof (cases "(\<Sum>f\<leftarrow>fs. minor_units (amount f)) = 0")
    case False
    with t have "0 < (\<Sum>f\<leftarrow>fs. minor_units (amount f))" by simp
    from round_half_even_bounds [OF this w] False show ?thesis
      by (simp add: weighted_confidence_def Let_def)
  qed (simp add: weighted_confidence_def)
qed

lemma projection_fields:
  assumes "compute_projection op rs flows config as_of = Inr p"
  defines "n \<equiv> horizon_weeks config" and "b \<equiv> end_of_day (minor_units op) as_of flows"
    and "fl \<equiv> minor_units (minimum_cash config) + minor_units rs" and "ccy \<equiv> cfg_currency config"
  defines "dy \<equiv> daily_totals as_of (as_of + 7 * n - 1) flows"
  shows "0 < n"
    and "pj_weeks p = map (line_at ccy flows dy (minor_units op) as_of) [0..n - 1]"
    and "pj_total_inflows p = Money (dict_values_sum (daily_in dy)) ccy"
    and "pj_total_outflows p = Money (dict_values_sum (daily_out dy)) ccy"
    and "pj_ending_balance p = Money (b (7 * n - 1)) ccy"
    and "pj_effective_floor p = Money fl (currency rs)"
    and "pj_currency p = ccy" "pj_opening_available p = op" "pj_restricted p = rs" "pj_as_of p = as_of"
    and "\<exists>w. follows b as_of fl (7 * n) w \<and>
      pj_trough p = \<lparr>ct_on_date = trough_date w, ct_balance = Money (trough_val w) ccy\<rparr> \<and>
      pj_breach p = \<lparr>br_breached = (first_breach w \<noteq> None), br_floor = Money fl (currency rs),
        br_worst_shortfall = Money (worst_shortfall w) ccy, br_first_date = first_breach w,
        br_weeks_until = map_option (\<lambda>d. (d - as_of) div 7 + 1) (first_breach w),
        br_recovery_date = recovery w\<rparr>"
  using compute_projection_exact [OF assms(1)] unfolding n_def b_def fl_def ccy_def dy_def
  by (metis projection.select_convs)+

lemma projection_trough_of:
  assumes "compute_projection op rs flows config as_of = Inr p"
  shows "\<exists>d. trough_of (end_of_day (minor_units op) as_of flows) as_of (7 * horizon_weeks config)
    (minor_units (ct_balance (pj_trough p))) d"
  using projection_fields(11) [OF assms] by (auto simp: follows_def)

section \<open>Properties\<close>

definition example_flow :: "date \<Rightarrow> direction \<Rightarrow> int \<Rightarrow> cash_flow" where
  "example_flow d dir m =
     \<lparr>seq = 1, on_date = d, direction = dir, amount = Money m ''USD'',
      category = (if dir = INFLOW then OTHER_INFLOW else RENT), confidence = RECORDED,
      basis = ''example'', cf_scenario = BASE, source = None, origin_id = None\<rparr>"

definition example_flows :: "cash_flow list" where
  "example_flows = [example_flow 738002 OUTFLOW 90, example_flow 738004 INFLOW 50]"

definition example_config :: forecast_config where
  "example_config = (default_config ''USD'')\<lparr>horizon_weeks := 1\<rparr>"

definition example_run :: "projection res" where
  "example_run = compute_projection (Money 100 ''USD'') (Money 20 ''USD'') example_flows example_config 738000"

lemma example_config_simps [simp]:
  "horizon_weeks example_config = 1" "minimum_cash example_config = Money 0 ''USD''"
  by (simp_all add: example_config_def default_config_def)

lemma example_projection: "\<exists>p. example_run = Inr p"
  unfolding example_run_def
  by (rule compute_projection_total) (simp_all add: valid_date_def max_ordinal_def)

lemma example_end_of_day:
  "end_of_day 100 738000 example_flows k = (if k < 2 then 100 else if k < 4 then 10 else 60)"
  by (simp add: end_of_day_def example_flows_def example_flow_def signed_minor_def)

text \<open>The ending balance of a projection is the opening cash plus every flow of the horizon,
  and equals opening plus total inflows minus total outflows.\<close>

theorem projection_balance:
  assumes "compute_projection op rs flows config as_of = Inr p"
  shows "minor_units (pj_ending_balance p) =
      end_of_day (minor_units op) as_of flows (7 * horizon_weeks config - 1) \<and>
    minor_units (pj_ending_balance p) =
      minor_units op + minor_units (pj_total_inflows p) - minor_units (pj_total_outflows p)"
  using daily_sums [of as_of "as_of + 7 * horizon_weeks config - 1" flows]
  by (simp add: projection_fields(3-5) [OF assms] end_of_day_def add_diff_eq diff_eq_eq)

theorem projection_balance_witness:
  "\<exists>p. example_run = Inr p \<and> minor_units (pj_ending_balance p) = 60 \<and>
     100 + minor_units (pj_total_inflows p) - minor_units (pj_total_outflows p) = 60"
  using example_projection projection_balance unfolding example_run_def
  by (fastforce simp: example_end_of_day)

text \<open>Week \<open>i\<close> opens with the balance at the end of the day before it and closes with the
  balance at the end of its last day, which is its opening plus its inflows minus its outflows;
  so each week opens where the one before it closed.\<close>

theorem projection_weeks:
  assumes "compute_projection op rs flows config as_of = Inr p" "i < nat (horizon_weeks config)"
  shows "length (pj_weeks p) = nat (horizon_weeks config) \<and>
    minor_units (wl_opening (pj_weeks p ! i)) = end_of_day (minor_units op) as_of flows (7 * int i - 1) \<and>
    minor_units (wl_closing (pj_weeks p ! i)) = end_of_day (minor_units op) as_of flows (7 * int i + 6) \<and>
    minor_units (wl_closing (pj_weeks p ! i)) = minor_units (wl_opening (pj_weeks p ! i)) +
      minor_units (wl_inflows (pj_weeks p ! i)) - minor_units (wl_outflows (pj_weeks p ! i))"
proof -
  have "week_total (daily_in (daily_totals as_of (as_of + 7 * horizon_weeks config - 1) flows)) as_of (int i) -
      week_total (daily_out (daily_totals as_of (as_of + 7 * horizon_weeks config - 1) flows)) as_of (int i) =
    end_of_day (minor_units op) as_of flows (7 * int i + 6) - end_of_day (minor_units op) as_of flows (7 * int i - 1)"
    using assms(2) by (intro week_net) auto
  then show ?thesis
    using assms(2) by (simp add: projection_fields(2) [OF assms(1)] line_at_def Let_def)
qed

theorem projection_weeks_witness:
  "\<exists>p. example_run = Inr p \<and> length (pj_weeks p) = 1 \<and>
     minor_units (wl_opening (pj_weeks p ! 0)) = 100 \<and> minor_units (wl_closing (pj_weeks p ! 0)) = 60"
  using example_projection projection_weeks [where i = 0] unfolding example_run_def
  by (fastforce simp: example_end_of_day)

text \<open>The trough is the lowest end-of-day balance of the horizon, the opening included, on
  the first day it is reached.\<close>

theorem projection_trough:
  assumes "compute_projection op rs flows config as_of = Inr p"
  defines "b \<equiv> end_of_day (minor_units op) as_of flows"
  shows "\<exists>j. - 1 \<le> j \<and> j < 7 * horizon_weeks config \<and>
    minor_units (ct_balance (pj_trough p)) = b j \<and> ct_on_date (pj_trough p) = as_of + max j 0 \<and>
    (\<forall>k. - 1 \<le> k \<and> k < 7 * horizon_weeks config \<longrightarrow> b j \<le> b k) \<and>
    (\<forall>k. - 1 \<le> k \<and> k < j \<longrightarrow> b j < b k)"
proof -
  obtain w where w: "follows b as_of (minor_units (minimum_cash config) + minor_units rs) (7 * horizon_weeks config) w"
    and "pj_trough p = \<lparr>ct_on_date = trough_date w, ct_balance = Money (trough_val w) (cfg_currency config)\<rparr>"
    using projection_fields(11) [OF assms(1)] unfolding b_def by blast
  then show ?thesis by (auto simp: follows_def trough_of_def)
qed

theorem projection_trough_witness:
  "\<exists>p. example_run = Inr p \<and> minor_units (ct_balance (pj_trough p)) = 10"
proof -
  from example_projection obtain p where p: "example_run = Inr p" by blast
  from projection_trough [OF this [unfolded example_run_def]]
  obtain j where "minor_units (ct_balance (pj_trough p)) = end_of_day 100 738000 example_flows j"
    "\<forall>k. - 1 \<le> k \<and> k < 7 \<longrightarrow> end_of_day 100 738000 example_flows j \<le> end_of_day 100 738000 example_flows k"
    by auto
  moreover from this(2) have "end_of_day 100 738000 example_flows j \<le> end_of_day 100 738000 example_flows 3" by simp
  ultimately show ?thesis using p by (auto simp: example_end_of_day split: if_splits)
qed

text \<open>C1. A projection reports a breach exactly when some end-of-day balance of the horizon is
  below the floor (the minimum cash plus the restricted cash). The date is the first such day,
  the week that of the date, the worst shortfall the greatest gap, and the recovery the first
  day of the last stretch that stays at or above the floor to the end.\<close>

theorem projection_breach:
  assumes "compute_projection op rs flows config as_of = Inr p"
  defines "b \<equiv> end_of_day (minor_units op) as_of flows"
    and "fl \<equiv> minor_units (minimum_cash config) + minor_units rs"
    and "days \<equiv> 7 * horizon_weeks config" and "br \<equiv> pj_breach p"
  shows "(br_breached br \<longleftrightarrow> (\<exists>k. 0 \<le> k \<and> k < days \<and> b k < fl)) \<and>
    (case br_first_date br of
       None \<Rightarrow> \<not> br_breached br \<and> br_weeks_until br = None \<and> br_recovery_date br = None
     | Some d \<Rightarrow> \<exists>j. 0 \<le> j \<and> j < days \<and> d = as_of + j \<and> b j < fl \<and> (\<forall>k. 0 \<le> k \<and> k < j \<longrightarrow> fl \<le> b k) \<and>
         br_weeks_until br = Some (j div 7 + 1)) \<and>
    shortfall_of b fl days (minor_units (br_worst_shortfall br)) \<and>
    (case br_recovery_date br of
       None \<Rightarrow> \<not> br_breached br \<or> b (days - 1) < fl
     | Some d \<Rightarrow> \<exists>j. 0 < j \<and> j < days \<and> d = as_of + j \<and> b (j - 1) < fl \<and> (\<forall>k. j \<le> k \<and> k < days \<longrightarrow> fl \<le> b k))"
proof -
  obtain w where w: "follows b as_of fl days w" and br: "br = \<lparr>br_breached = (first_breach w \<noteq> None),
      br_floor = Money fl (currency rs), br_worst_shortfall = Money (worst_shortfall w) (cfg_currency config),
      br_first_date = first_breach w, br_weeks_until = map_option (\<lambda>d. (d - as_of) div 7 + 1) (first_breach w),
      br_recovery_date = recovery w\<rparr>"
    using projection_fields(11) [OF assms(1)] unfolding b_def fl_def days_def br_def by blast
  have "(first_breach w \<noteq> None) = (\<exists>k. 0 \<le> k \<and> k < days \<and> b k < fl)"
    using w by (cases "first_breach w") (fastforce simp: follows_def first_below_def not_less [symmetric])+
  then show ?thesis
    using w unfolding br follows_def first_below_def back_above_def
    by (auto split: option.splits)
qed

theorem projection_breach_witness:
  "\<exists>p. example_run = Inr p \<and> br_breached (pj_breach p) \<and> br_recovery_date (pj_breach p) = Some 738004"
proof -
  from example_projection obtain p where p: "example_run = Inr p" by blast
  let ?b = "end_of_day 100 738000 example_flows"
  note props = projection_breach [OF p [unfolded example_run_def]]
  have br: "br_breached (pj_breach p)"
  proof -
    have "br_breached (pj_breach p) \<longleftrightarrow> (\<exists>k. 0 \<le> k \<and> k < 7 \<and> ?b k < 20)"
      using conjunct1 [OF props] by (simp only: example_config_simps money.sel mult_1_right add_0)
    moreover have "?b 2 < 20" by (simp add: example_end_of_day)
    then have "\<exists>k. 0 \<le> k \<and> k < 7 \<and> ?b k < 20" by (intro exI [of _ 2]) simp
    ultimately show ?thesis by (simp only:)
  qed
  have rec: "case br_recovery_date (pj_breach p) of None \<Rightarrow> \<not> br_breached (pj_breach p) \<or> ?b (7 - 1) < 20
      | Some d \<Rightarrow> \<exists>j. 0 < j \<and> j < 7 \<and> d = 738000 + j \<and> ?b (j - 1) < 20 \<and> (\<forall>k. j \<le> k \<and> k < 7 \<longrightarrow> 20 \<le> ?b k)"
    using conjunct2 [OF conjunct2 [OF conjunct2 [OF props]]]
    by (simp only: example_config_simps money.sel mult_1_right add_0)
  show ?thesis
  proof (cases "br_recovery_date (pj_breach p)")
    case None
    with rec br show ?thesis by (simp add: example_end_of_day)
  next
    case (Some d)
    with rec obtain j where j: "0 < j" "j < 7" "d = 738000 + j" "?b (j - 1) < 20"
      "\<forall>k. j \<le> k \<and> k < 7 \<longrightarrow> 20 \<le> ?b k" by auto
    from j(2,5) have "20 \<le> ?b j" by simp
    with j(4) have "j = 4" by (simp add: example_end_of_day split: if_splits)
    with Some j(3) have "br_recovery_date (pj_breach p) = Some 738004" by simp
    with br p show ?thesis by (intro exI [of _ p] conjI)
  qed
qed

text \<open>Each flow of the horizon is listed in exactly one week, and no other flow is.\<close>

theorem projection_flow_seqs:
  assumes "compute_projection op rs flows config as_of = Inr p"
  shows "mset (concat (map wl_flow_seqs (pj_weeks p))) =
    mset (map seq (filter (\<lambda>f. as_of \<le> on_date f \<and> on_date f \<le> as_of + 7 * horizon_weeks config - 1) flows))"
proof -
  have "mset (concat (map wl_flow_seqs (pj_weeks p))) =
      mset (concat (map (\<lambda>i. map seq (week_flows as_of i flows)) [0..horizon_weeks config - 1]))"
    unfolding projection_fields(2) [OF assms]
    by (simp add: mset_concat comp_def line_at_def Let_def)
  then show ?thesis
    using week_flows_partition [of "horizon_weeks config" seq] projection_fields(1) [OF assms] by simp
qed

theorem projection_flow_seqs_witness:
  "\<exists>p. example_run = Inr p \<and> mset (concat (map wl_flow_seqs (pj_weeks p))) = {#1, 1#}"
  using example_projection projection_flow_seqs unfolding example_run_def
  by (fastforce simp: example_flows_def example_flow_def)

text \<open>A projection exists whenever the horizon is a positive number of weeks inside the
  calendar and the restricted cash is in the currency of the minimum.\<close>

theorem projection_total:
  assumes "0 < horizon_weeks config" "valid_date as_of" "valid_date (as_of + 7 * horizon_weeks config - 1)"
    and "currency rs = currency (minimum_cash config)"
  shows "\<exists>p. compute_projection op rs flows config as_of = Inr p"
  using assms by (rule compute_projection_total)

theorem projection_total_witness: "\<exists>p. example_run = Inr p"
  unfolding example_run_def
  by (rule projection_total) (simp_all add: valid_date_def max_ordinal_def)

text \<open>When no flow has a negative amount, every weekly confidence is between 30 and 100.\<close>

theorem projection_confidence:
  assumes "compute_projection op rs flows config as_of = Inr p"
    and "\<And>f. f \<in> set flows \<Longrightarrow> 0 \<le> minor_units (amount f)" and "l \<in> set (pj_weeks p)"
  shows "30 \<le> wl_confidence l \<and> wl_confidence l \<le> 100"
proof -
  have "30 \<le> weighted_confidence (week_flows as_of i flows) \<and> weighted_confidence (week_flows as_of i flows) \<le> 100" for i
    by (rule weighted_confidence_bounds) (simp add: week_flows_def assms(2))
  then show ?thesis
    using assms(3) unfolding projection_fields(2) [OF assms(1)]
    by (auto simp: line_at_def Let_def)
qed

theorem projection_confidence_witness:
  "\<exists>p. example_run = Inr p \<and> (\<forall>l\<in>set (pj_weeks p). 30 \<le> wl_confidence l \<and> wl_confidence l \<le> 100)"
  using example_projection projection_confidence unfolding example_run_def
  by (fastforce simp: example_flows_def example_flow_def)

end
