(* ===== verification/Forecast.thy ===== *)
theory Forecast
  imports Resolve Projection
begin

text \<open>
  \<open>result.py\<close>, \<open>scenarios.py\<close> and the version identity of \<open>reproducibility.py\<close>
  (\<open>packages/forecast/src/rgnr8_forecast\<close>): one run of the forecast from inputs to the
  owner-facing result, its publication lifecycle, and the three scenarios side by side.

  \<open>fingerprint\<close> (a SHA-256 digest over canonical JSON) is the argument \<open>fp\<close> of the definitions
  that call it; nothing is assumed of it.
\<close>

section \<open>Results\<close>

record forecast_version =
  fv_engine_version :: string
  fv_assumption_version :: string
  fv_mapping_version :: string
  fv_model_version :: string
  fv_timezone :: string
  fv_rounding_policy :: string
  fv_scenario :: scenario
  fv_input_fingerprint :: string
  fv_status :: publication_status
  fv_published_at :: "string option"
  fv_reviewer :: "string option"

record forecast_result =
  fr_scenario :: scenario
  fr_version :: forecast_version
  fr_projection :: projection
  fr_flows :: "cash_flow list"
  fr_overall_confidence :: int
  fr_data_quality :: "string list"
  fr_headline :: string
  fr_recommended_action :: "string option"

fun scenario_lower :: "scenario \<Rightarrow> string" where
  "scenario_lower BASE = ''base''"
| "scenario_lower DOWNSIDE = ''downside''"
| "scenario_lower UPSIDE = ''upside''"

definition version_id :: "forecast_version \<Rightarrow> string" where
  "version_id v =
     fv_engine_version v @ ''+'' @ scenario_lower (fv_scenario v) @ ''.'' @
     take 12 (fv_input_fingerprint v)"

definition fr_flow :: "forecast_result \<Rightarrow> int \<Rightarrow> cash_flow option" where
  "fr_flow r s = find (\<lambda>f. seq f = s) (fr_flows r)"

definition with_status ::
  "forecast_result \<Rightarrow> publication_status \<Rightarrow> string option \<Rightarrow> string option \<Rightarrow> forecast_result" where
  "with_status r status reviewer published_at =
     r\<lparr>fr_version := (fr_version r)\<lparr>fv_status := status,
         fv_reviewer := (if reviewer \<noteq> None then reviewer else fv_reviewer (fr_version r)),
         fv_published_at := (if published_at \<noteq> None then published_at
                             else fv_published_at (fr_version r))\<rparr>\<rparr>"

definition fr_verified :: "forecast_result \<Rightarrow> string \<Rightarrow> forecast_result" where
  "fr_verified r reviewer = with_status r VERIFIED (Some reviewer) None"

definition fr_published :: "forecast_result \<Rightarrow> string \<Rightarrow> string \<Rightarrow> forecast_result" where
  "fr_published r reviewer published_at = with_status r PUBLISHED (Some reviewer) (Some published_at)"

section \<open>The helpers of a run\<close>

definition no_costs_note :: string where
  "no_costs_note =
     ''no costs in the outlook '' @ em_dash @ '' nothing is set to leave the account, so it '' @
     ''cannot say how long cash lasts; add payroll and recurring costs''"

definition no_costs_confidence_cap :: int where
  "no_costs_confidence_cap = 20"

definition has_outflow :: "cash_flow list \<Rightarrow> bool" where
  "has_outflow flows = list_ex (\<lambda>f. direction f = OUTFLOW) flows"

definition customers_without_history :: "forecast_inputs \<Rightarrow> int" where
  "customers_without_history inputs =
     (let known = map ch_customer_id (filter (\<lambda>h. ch_observations h \<noteq> [] \<or> ch_override_days_late h \<noteq> None)
                    (fi_customer_histories inputs));
          customers = remdups (map inv_customer_id (fi_invoices inputs))
      in int (length (filter (\<lambda>c. c \<notin> set known) customers)))"

definition overall_confidence :: "cash_flow list \<Rightarrow> forecast_inputs \<Rightarrow> int" where
  "overall_confidence flows inputs =
     (let total = (\<Sum>f\<leftarrow>flows. minor_units (amount f));
          base = (if total = 0 then no_costs_confidence_cap
                  else round_half_even
                         (\<Sum>f\<leftarrow>flows. minor_units (amount f) * confidence_weight (confidence f)) total);
          base = (if \<not> cp_verified (fi_opening inputs) then min base 60 else base);
          base = (if \<not> has_outflow flows then min base no_costs_confidence_cap else base)
      in base)"

fun scenario_label :: "scenario \<Rightarrow> string" where
  "scenario_label BASE = []"
| "scenario_label DOWNSIDE = '' (downside)''"
| "scenario_label UPSIDE = '' (upside)''"

definition headline :: "projection \<Rightarrow> scenario \<Rightarrow> bool \<Rightarrow> string res" where
  "headline pj scen no_costs =
     (let trough = pj_trough pj; label = scenario_label scen; br = pj_breach pj
      in if no_costs \<and> \<not> br_breached br then
           res_bind (format_money (pj_opening_available pj)) (\<lambda>m.
             Inr (''You have '' @ m @ '' today, but no costs are in '' @
                  ''the outlook yet, so it can't say how long that lasts'' @ label @ ''.''))
         else
           case (if br_breached br then br_first_date br else None) of
             Some first \<Rightarrow>
               res_bind (format_money (pj_effective_floor pj)) (\<lambda>fl.
               res_bind (format_money (br_worst_shortfall br)) (\<lambda>short.
                 Inr (''Cash is projected to fall below your '' @ fl @ '' floor in week '' @
                      (case br_weeks_until br of Some wk \<Rightarrow> str_int wk | None \<Rightarrow> ''None'') @
                      '' (around '' @ isoformat first @ ''), short by up to '' @ short @ label @ ''.'')))
           | None \<Rightarrow>
               res_bind (format_money (pj_effective_floor pj)) (\<lambda>fl.
               res_bind (format_money (ct_balance trough)) (\<lambda>low.
                 Inr (''Cash stays above your '' @ fl @ '' floor for all '' @
                      str_int (int (length (pj_weeks pj))) @ '' weeks. Low point is '' @ low @
                      '' around '' @ isoformat (ct_on_date trough) @ label @ ''.''))))"

definition pullable :: "date \<Rightarrow> cash_flow list \<Rightarrow> cash_flow list" where
  "pullable breach_date flows =
     filter (\<lambda>f. category f = CUSTOMER_RECEIPT \<and> direction f = INFLOW \<and> breach_date \<le> on_date f) flows"

definition recommended_action :: "projection \<Rightarrow> cash_flow list \<Rightarrow> string option res" where
  "recommended_action pj flows =
     (let br = pj_breach pj
      in case (if br_breached br then br_first_date br else None) of
           None \<Rightarrow> Inr None
         | Some breach_date \<Rightarrow>
             (case pullable breach_date flows of
                p # ps \<Rightarrow>
                  res_bind (money_sum (map amount (p # ps)) (pj_currency pj)) (\<lambda>total.
                  let largest = max_by (\<lambda>f. (minor_units (amount f), on_date f)) p ps
                  in res_bind (format_money total) (\<lambda>total_s.
                     res_bind (format_money (amount largest)) (\<lambda>largest_s.
                       Inr (Some (''Accelerate collection of '' @ str_int (int (length (p # ps))) @
                         '' receipt(s) totaling '' @ total_s @ '' that currently land on or after '' @
                         isoformat breach_date @ '' '' @ em_dash @ '' pulling in the largest (invoice '' @
                         (case origin_id largest of Some s \<Rightarrow> s | None \<Rightarrow> ''None'') @ '', '' @ largest_s @
                         '') would most directly protect the floor.'')))))
              | [] \<Rightarrow>
                  res_bind (format_money (br_worst_shortfall br)) (\<lambda>short.
                    Inr (Some (''Cover the projected shortfall of up to '' @ short @ '' before '' @
                      isoformat breach_date @ '' '' @ em_dash @
                      '' delay non-critical outflows or arrange a short-term draw.'')))))"

definition data_quality :: "forecast_inputs \<Rightarrow> resolved_flows \<Rightarrow> string list" where
  "data_quality inputs resolved =
     (let dq = rf_notes resolved;
          dq = (if \<not> cp_verified (fi_opening inputs)
                then ''opening cash is not yet verified/reconciled'' # dq else dq);
          dq = (if \<not> has_outflow (rf_flows resolved) then no_costs_note # dq else dq);
          dq = (if fi_invoices inputs = []
                then dq @ [''no receivables provided '' @ em_dash @ '' inflows may be understated'']
                else dq);
          missing = customers_without_history inputs
      in if missing \<noteq> 0
         then dq @ [str_int missing @ '' customer(s) have no payment history; default timing used'']
         else dq)"

section \<open>One run\<close>

type_synonym fingerprint =
  "forecast_inputs \<Rightarrow> forecast_config \<Rightarrow> scenario_assumptions \<Rightarrow> string \<Rightarrow> string"

fun scenario_assumptions_of :: "scenario \<Rightarrow> scenario_assumptions" where
  "scenario_assumptions_of BASE = base_assumptions"
| "scenario_assumptions_of DOWNSIDE = downside_assumptions"
| "scenario_assumptions_of UPSIDE = upside_assumptions"

definition run_forecast ::
  "fingerprint \<Rightarrow> forecast_inputs \<Rightarrow> forecast_config option \<Rightarrow> scenario \<Rightarrow> scenario_assumptions option
     \<Rightarrow> forecast_result run" where
  "run_forecast fp inputs config scen assumptions =
     (let config = (case config of Some c \<Rightarrow> c | None \<Rightarrow> default_config (fi_currency inputs));
          assumptions = (case assumptions of Some a \<Rightarrow> a | None \<Rightarrow> scenario_assumptions_of scen)
      in run_bind (resolve inputs config scen assumptions) (\<lambda>resolved.
         Some (
           res_bind (compute_projection (cp_available (fi_opening inputs)) (cp_restricted (fi_opening inputs))
                       (rf_flows resolved) config (cp_as_of (fi_opening inputs))) (\<lambda>pj.
           let no_costs = \<not> has_outflow (rf_flows resolved);
               overall = overall_confidence (rf_flows resolved) inputs
           in res_bind (headline pj scen no_costs) (\<lambda>hl.
              res_bind (recommended_action pj (rf_flows resolved)) (\<lambda>action.
              let version = \<lparr>fv_engine_version = cfg_engine_version config,
                    fv_assumption_version = cfg_assumption_version config,
                    fv_mapping_version = cfg_mapping_version config,
                    fv_model_version = cfg_model_version config,
                    fv_timezone = cfg_timezone config,
                    fv_rounding_policy = cfg_rounding_policy config,
                    fv_scenario = scen,
                    fv_input_fingerprint = fp inputs config assumptions (scenario_value scen),
                    fv_status = PRELIMINARY, fv_published_at = None, fv_reviewer = None\<rparr>
              in Inr \<lparr>fr_scenario = scen, fr_version = version, fr_projection = pj,
                      fr_flows = rf_flows resolved, fr_overall_confidence = overall,
                      fr_data_quality = data_quality inputs resolved,
                      fr_headline = hl, fr_recommended_action = action\<rparr>))))))"

section \<open>The scenarios\<close>

record scenario_comparison =
  sc_base :: forecast_result
  sc_downside :: forecast_result
  sc_upside :: forecast_result

definition as_list :: "scenario_comparison \<Rightarrow> (scenario \<times> forecast_result) list" where
  "as_list c = [(BASE, sc_base c), (DOWNSIDE, sc_downside c), (UPSIDE, sc_upside c)]"

definition trough_spread :: "scenario_comparison \<Rightarrow> money \<times> money" where
  "trough_spread c =
     (ct_balance (pj_trough (fr_projection (sc_downside c))),
      ct_balance (pj_trough (fr_projection (sc_upside c))))"

definition any_breach :: "scenario_comparison \<Rightarrow> bool" where
  "any_breach c = list_ex (\<lambda>r. br_breached (pj_breach (fr_projection r))) (map snd (as_list c))"

definition summary_line :: "scenario \<Rightarrow> forecast_result \<Rightarrow> string res" where
  "summary_line scen r =
     (let p = fr_projection r; b = pj_breach p
      in res_bind
           (if br_breached b then
              res_bind (to_decimal_string (br_worst_shortfall b)) (\<lambda>s.
                Inr (''breaches week '' @
                     (case br_weeks_until b of Some wk \<Rightarrow> str_int wk | None \<Rightarrow> ''None'') @
                     '' (short '' @ pj_currency p @ '' '' @ s @ '')''))
            else Inr ''stays above floor'')
           (\<lambda>status. res_bind (to_decimal_string (ct_balance (pj_trough p))) (\<lambda>t.
             Inr (ljust 8 CHR '' '' (scenario_value scen) @ '' trough '' @ pj_currency p @ '' '' @ t @
                  '' on '' @ isoformat (ct_on_date (pj_trough p)) @ '' '' @ em_dash @ '' '' @ status))))"

definition summary_lines :: "scenario_comparison \<Rightarrow> string list res" where
  "summary_lines c = map_res (\<lambda>(scen, r). summary_line scen r) (as_list c)"

definition run_all_scenarios ::
  "fingerprint \<Rightarrow> forecast_inputs \<Rightarrow> forecast_config option \<Rightarrow> scenario_comparison run" where
  "run_all_scenarios fp inputs config =
     run_bind (run_forecast fp inputs config BASE None) (\<lambda>b.
     run_bind (run_forecast fp inputs config DOWNSIDE None) (\<lambda>d.
     run_bind (run_forecast fp inputs config UPSIDE None) (\<lambda>u.
       Some (Inr \<lparr>sc_base = b, sc_downside = d, sc_upside = u\<rparr>))))"

section \<open>Runs\<close>

lemma run_forecastE:
  assumes "run_forecast fp inputs config scen assumptions = Some (Inr r)"
  obtains rf pj where
    "resolve inputs (case config of Some c \<Rightarrow> c | None \<Rightarrow> default_config (fi_currency inputs)) scen
       (case assumptions of Some a \<Rightarrow> a | None \<Rightarrow> scenario_assumptions_of scen) = Some (Inr rf)"
    "compute_projection (cp_available (fi_opening inputs)) (cp_restricted (fi_opening inputs)) (rf_flows rf)
       (case config of Some c \<Rightarrow> c | None \<Rightarrow> default_config (fi_currency inputs)) (cp_as_of (fi_opening inputs)) = Inr pj"
    "fr_scenario r = scen" "fr_projection r = pj" "fr_flows r = rf_flows rf"
    "fr_overall_confidence r = overall_confidence (rf_flows rf) inputs"
    "fr_data_quality r = data_quality inputs rf"
    "headline pj scen (\<not> has_outflow (rf_flows rf)) = Inr (fr_headline r)"
    "recommended_action pj (rf_flows rf) = Inr (fr_recommended_action r)"
    "fv_status (fr_version r) = PRELIMINARY" "fv_scenario (fr_version r) = scen"
  using assms by (auto simp: run_forecast_def Let_def result_simps)

text \<open>When all flows fall in the horizon, the end of the last day counts every one of them.\<close>

lemma end_of_day_all:
  "(\<And>f. f \<in> set flows \<Longrightarrow> as_of \<le> on_date f \<and> on_date f \<le> as_of + i) \<Longrightarrow>
     end_of_day opening as_of flows i = opening + (\<Sum>f\<leftarrow>flows. signed_minor f)"
  unfolding end_of_day_def by (intro arg_cong2 [where f = "(+)"] arg_cong [where f = sum_list] map_cong) auto

lemma run_forecast_ending:
  assumes "run_forecast fp inputs config scen assumptions = Some (Inr r)" "schedules_step inputs"
  shows "minor_units (pj_ending_balance (fr_projection r)) =
    minor_units (cp_available (fi_opening inputs)) + (\<Sum>f\<leftarrow>fr_flows r. signed_minor f)"
  using assms(1)
proof (rule run_forecastE)
  fix rf pj
  define c where "c = (case config of Some c \<Rightarrow> c | None \<Rightarrow> default_config (fi_currency inputs))"
  assume res: "resolve inputs (case config of Some c \<Rightarrow> c | None \<Rightarrow> default_config (fi_currency inputs)) scen
       (case assumptions of Some a \<Rightarrow> a | None \<Rightarrow> scenario_assumptions_of scen) = Some (Inr rf)"
    and pj: "compute_projection (cp_available (fi_opening inputs)) (cp_restricted (fi_opening inputs)) (rf_flows rf)
       (case config of Some c \<Rightarrow> c | None \<Rightarrow> default_config (fi_currency inputs)) (cp_as_of (fi_opening inputs)) = Inr pj"
    and r: "fr_projection r = pj" "fr_flows r = rf_flows rf"
  note rf = resolve_flows [OF res assms(2), folded c_def]
  note pf = projection_fields(5) [OF pj, folded c_def]
  have "end_of_day (minor_units (cp_available (fi_opening inputs))) (cp_as_of (fi_opening inputs)) (rf_flows rf)
      (7 * horizon_weeks c - 1) =
    minor_units (cp_available (fi_opening inputs)) + (\<Sum>f\<leftarrow>rf_flows rf. signed_minor f)"
    using rf by (intro end_of_day_all) (simp add: mult.commute)
  then show ?thesis by (simp add: r pf)
qed

lemma overall_confidence_caps:
  "(\<not> cp_verified (fi_opening inputs) \<longrightarrow> overall_confidence flows inputs \<le> 60) \<and>
   (\<not> has_outflow flows \<longrightarrow> overall_confidence flows inputs \<le> 20)"
  unfolding overall_confidence_def Let_def no_costs_confidence_cap_def by auto

lemma overall_confidence_bounds:
  assumes "\<And>f. f \<in> set flows \<Longrightarrow> 0 \<le> minor_units (amount f)"
  shows "20 \<le> overall_confidence flows inputs \<and> overall_confidence flows inputs \<le> 100"
proof -
  define total where "total = (\<Sum>f\<leftarrow>flows. minor_units (amount f))"
  have "(if total = 0 then no_costs_confidence_cap
      else round_half_even (\<Sum>f\<leftarrow>flows. minor_units (amount f) * confidence_weight (confidence f)) total) =
    (if total = 0 then 20 else weighted_confidence flows)"
    by (simp add: weighted_confidence_def total_def no_costs_confidence_cap_def Let_def)
  moreover have "20 \<le> weighted_confidence flows" "weighted_confidence flows \<le> 100"
    using weighted_confidence_bounds [of flows] assms by auto
  ultimately show ?thesis
    unfolding overall_confidence_def total_def [symmetric] Let_def
    by (auto simp: no_costs_confidence_cap_def)
qed

lemma recommended_action_iff:
  assumes "compute_projection op rs flows config as_of = Inr pj" "recommended_action pj fs = Inr a"
  shows "a \<noteq> None \<longleftrightarrow> br_breached (pj_breach pj)"
proof -
  from projection_fields(11) [OF assms(1)]
  have "br_breached (pj_breach pj) \<longleftrightarrow> br_first_date (pj_breach pj) \<noteq> None" by auto
  with assms(2) show ?thesis
    by (auto simp: recommended_action_def Let_def result_simps split: option.splits list.splits)
qed

text \<open>In one known currency a run raises nowhere after the flows are resolved.\<close>

definition known_currency :: "string \<Rightarrow> bool" where
  "known_currency c = is_ok (currency_scale c)"

lemma format_money_total: "known_currency (currency m) \<Longrightarrow> \<exists>s. format_money m = Inr s"
  using to_decimal_string_total [of m]
  by (auto simp: known_currency_def is_ok_def format_money_def Let_def split: sum.splits)

lemma headline_total:
  assumes "known_currency (currency (pj_opening_available pj))" "known_currency (currency (pj_effective_floor pj))"
    "known_currency (currency (br_worst_shortfall (pj_breach pj)))"
    "known_currency (currency (ct_balance (pj_trough pj)))"
  shows "\<exists>h. headline pj scen no_costs = Inr h"
  using assms [THEN format_money_total]
  by (auto simp: headline_def Let_def split: option.splits)

lemma recommended_action_total:
  assumes "known_currency (pj_currency pj)" "known_currency (currency (br_worst_shortfall (pj_breach pj)))"
    and "\<And>f. f \<in> set flows \<Longrightarrow> currency (amount f) = pj_currency pj"
  shows "\<exists>a. recommended_action pj flows = Inr a"
proof (cases "if br_breached (pj_breach pj) then br_first_date (pj_breach pj) else None")
  case (Some d)
  show ?thesis
  proof (cases "pullable d flows")
    case Nil
    with Some format_money_total [OF assms(2)] show ?thesis
      by (auto simp: recommended_action_def Let_def)
  next
    case (Cons p ps)
    have sub: "f \<in> set flows" if "f \<in> insert p (set ps)" for f
    proof -
      have "f \<in> set (pullable d flows)" using that Cons by simp
      then show ?thesis by (simp add: pullable_def)
    qed
    then have cs: "\<forall>m\<in>set (map amount (p # ps)). currency m = pj_currency pj" using assms(3) by auto
    let ?l = "max_by (\<lambda>f. (minor_units (amount f), on_date f)) p ps"
    have "currency (amount ?l) = pj_currency pj" using sub [OF max_by_mem] assms(3) by blast
    then obtain s where s: "format_money (amount ?l) = Inr s"
      using format_money_total assms(1) by metis
    obtain t where t: "format_money (Money (\<Sum>m\<leftarrow>map amount (p # ps). minor_units m) (pj_currency pj)) = Inr t"
      using format_money_total assms(1) by (metis money.sel(2))
    show ?thesis
      unfolding recommended_action_def Let_def Some option.case Cons list.case money_sum_eq if_P [OF cs]
        res_bind_simps t s by blast
  qed
qed (simp add: recommended_action_def)

lemma run_forecast_total:
  assumes "resolve inputs config scen assumptions = Some (Inr rf)"
    and "0 < horizon_weeks config" "valid_date (cp_as_of (fi_opening inputs))"
      "valid_date (cp_as_of (fi_opening inputs) + 7 * horizon_weeks config - 1)"
    and ccy: "known_currency (cfg_currency config)" "currency (cp_available (fi_opening inputs)) = cfg_currency config"
      "currency (cp_restricted (fi_opening inputs)) = cfg_currency config"
      "currency (minimum_cash config) = cfg_currency config"
    and "\<And>f. f \<in> set (rf_flows rf) \<Longrightarrow> currency (amount f) = cfg_currency config"
  shows "\<exists>r. run_forecast fp inputs (Some config) scen (Some assumptions) = Some (Inr r)"
proof -
  obtain pj where pj: "compute_projection (cp_available (fi_opening inputs)) (cp_restricted (fi_opening inputs))
      (rf_flows rf) config (cp_as_of (fi_opening inputs)) = Inr pj"
    using compute_projection_total [OF assms(2-4), of "cp_restricted (fi_opening inputs)"] ccy by auto
  note f = projection_fields [OF pj]
  have k: "known_currency (currency (br_worst_shortfall (pj_breach pj)))"
    "known_currency (currency (ct_balance (pj_trough pj)))"
    using f(11) ccy(1) by auto
  obtain h where h: "headline pj scen (\<not> has_outflow (rf_flows rf)) = Inr h"
    using headline_total [of pj scen] k f(6,8) ccy by auto
  obtain a where a: "recommended_action pj (rf_flows rf) = Inr a"
    using recommended_action_total [of pj "rf_flows rf"] k f(7) ccy assms(9) by auto
  show ?thesis by (simp add: run_forecast_def assms(1) pj h a Let_def)
qed

lemma run_forecast_default_currency:
  assumes "resolve inputs (default_config (fi_currency inputs)) scen assumptions = Some (Inr rf)"
    and "valid_date (cp_as_of (fi_opening inputs))" "valid_date (cp_as_of (fi_opening inputs) + 90)"
    and "currency (cp_restricted (fi_opening inputs)) \<noteq> ''USD''"
  shows "run_forecast fp inputs None scen (Some assumptions) = Some (Inl CurrencyMismatch)"
proof -
  let ?c = "default_config (fi_currency inputs)" and ?d = "cp_as_of (fi_opening inputs)"
  have c: "horizon_weeks ?c = 13" "minimum_cash ?c = Money 0 ''USD''" by (simp_all add: default_config_def)
  have "\<exists>pj. compute_projection (cp_available (fi_opening inputs)) (Money 0 ''USD'') (rf_flows rf) ?c ?d = Inr pj"
    using assms(2,3) by (intro compute_projection_total) (simp_all add: c add.commute)
  then obtain ws where "week_buckets ?d 13 = Inr ws" "ws \<noteq> []"
    unfolding compute_projection_def Let_def c res_bind_Inr by (auto split: if_splits)
  then have "compute_projection (cp_available (fi_opening inputs)) (cp_restricted (fi_opening inputs))
      (rf_flows rf) ?c ?d = Inl CurrencyMismatch"
    using assms(4) by (simp add: compute_projection_def c money_add_def money_same_def)
  with assms(1) show ?thesis by (simp add: run_forecast_def)
qed

section \<open>Properties\<close>



definition example_fp :: fingerprint where
  "example_fp = (\<lambda>_ _ _ _. ''5f2c9b7e0a4d11aa'')"

definition example_forecast :: "forecast_result run" where
  "example_forecast = run_forecast example_fp example_inputs (Some (default_config ''USD'')) UPSIDE (Some upside_assumptions)"

lemma example_inputs_opening [simp]:
  "fi_opening example_inputs = \<lparr>cp_as_of = 738000, cp_available = Money 100 ''USD'',
     cp_restricted = Money 0 ''USD'', cp_verified = True\<rparr>"
  "fi_currency example_inputs = ''USD''"
  by (simp_all add: example_inputs_def)

lemma default_config_simps [simp]:
  "horizon_weeks (default_config c) = 13" "minimum_cash (default_config c) = Money 0 ''USD''"
  "cfg_currency (default_config c) = c"
  by (simp_all add: default_config_def)

lemma example_forecast_runs:
  "\<exists>r. example_forecast = Some (Inr r)"
proof -
  from example_resolved obtain rf where rf: "example_flows_of = Some (Inr rf)"
    "map amount (rf_flows rf) = [Money 300 ''USD'', Money 5000 ''USD'']" by (elim exE conjE)
  have "amount f \<in> {Money 300 ''USD'', Money 5000 ''USD''}" if "f \<in> set (rf_flows rf)" for f
  proof -
    have "amount f \<in> set (map amount (rf_flows rf))" using that by simp
    then show ?thesis unfolding rf(2) by simp
  qed
  then have "currency (amount f) = ''USD''" if "f \<in> set (rf_flows rf)" for f using that by fastforce
  then show ?thesis
    unfolding example_forecast_def
    by (intro run_forecast_total [OF rf(1) [unfolded example_flows_of_def]])
      (simp_all add: valid_date_def max_ordinal_def known_currency_def currency_scale_def)
qed


text \<open>The overall confidence is at most 60 while the opening cash is unverified and at most 20
  when the forecast holds no outflow, and between 20 and 100 when no amount is negative.\<close>

theorem forecast_confidence_caps:
  assumes "run_forecast fp inputs config scen assumptions = Some (Inr r)"
  shows "(cp_verified (fi_opening inputs) \<or> fr_overall_confidence r \<le> 60) \<and>
    (has_outflow (fr_flows r) \<or> fr_overall_confidence r \<le> 20) \<and>
    (list_all (\<lambda>f. 0 \<le> minor_units (amount f)) (fr_flows r) \<longrightarrow>
       20 \<le> fr_overall_confidence r \<and> fr_overall_confidence r \<le> 100)"
  using assms
proof (rule run_forecastE)
  fix rf
  assume "fr_flows r = rf_flows rf" "fr_overall_confidence r = overall_confidence (rf_flows rf) inputs"
  then show ?thesis
    using overall_confidence_caps [of inputs "rf_flows rf"] overall_confidence_bounds [of "rf_flows rf" inputs]
    by (auto simp: list_all_iff)
qed

theorem forecast_confidence_caps_witness:
  "\<exists>r. example_forecast = Some (Inr r) \<and> (has_outflow (fr_flows r) \<or> fr_overall_confidence r \<le> 20)"
proof -
  from example_forecast_runs obtain r where r: "example_forecast = Some (Inr r)" by (elim exE)
  from forecast_confidence_caps [OF this [unfolded example_forecast_def]] r
  show ?thesis by (intro exI [of _ r] conjI) (assumption | elim conjE)+
qed

text \<open>A run recommends an action exactly when the projection breaches its floor.\<close>

theorem forecast_action_iff_breach:
  assumes "run_forecast fp inputs config scen assumptions = Some (Inr r)"
  shows "fr_recommended_action r \<noteq> None \<longleftrightarrow> br_breached (pj_breach (fr_projection r))"
  using assms
proof (rule run_forecastE)
  fix rf pj
  assume pj: "compute_projection (cp_available (fi_opening inputs)) (cp_restricted (fi_opening inputs)) (rf_flows rf)
       (case config of Some c \<Rightarrow> c | None \<Rightarrow> default_config (fi_currency inputs)) (cp_as_of (fi_opening inputs)) = Inr pj"
    and "recommended_action pj (rf_flows rf) = Inr (fr_recommended_action r)" "fr_projection r = pj"
  then show ?thesis using recommended_action_iff [OF pj] by blast
qed

theorem forecast_action_iff_breach_witness:
  "\<exists>r. example_forecast = Some (Inr r) \<and>
     (fr_recommended_action r \<noteq> None \<longleftrightarrow> br_breached (pj_breach (fr_projection r)))"
proof -
  from example_forecast_runs obtain r where r: "example_forecast = Some (Inr r)" by (elim exE)
  from forecast_action_iff_breach [OF this [unfolded example_forecast_def]] r
  show ?thesis by (intro exI [of _ r] conjI)
qed

text \<open>Verifying and publishing a result change its status, reviewer and publication date and
  nothing else: no number, flow, note or fingerprint of a published forecast differs from the
  preliminary one.\<close>

theorem publication_keeps_numbers:
  "fr_published (fr_verified r reviewer1) reviewer2 published_at =
     r\<lparr>fr_version := (fr_version r)\<lparr>fv_status := PUBLISHED, fv_reviewer := Some reviewer2,
        fv_published_at := Some published_at\<rparr>\<rparr> \<and>
   version_id (fr_version (fr_published (fr_verified r reviewer1) reviewer2 published_at)) =
     version_id (fr_version r)"
  by (simp add: fr_published_def fr_verified_def with_status_def version_id_def)

text \<open>A run in one known currency raises nowhere once its flows are resolved.\<close>

theorem forecast_single_currency_total:
  assumes "resolve inputs config scen assumptions = Some (Inr rf)"
    and "0 < horizon_weeks config" "valid_date (cp_as_of (fi_opening inputs))"
      "valid_date (cp_as_of (fi_opening inputs) + 7 * horizon_weeks config - 1)"
    and "known_currency (cfg_currency config)" "currency (cp_available (fi_opening inputs)) = cfg_currency config"
      "currency (cp_restricted (fi_opening inputs)) = cfg_currency config"
      "currency (minimum_cash config) = cfg_currency config"
    and "\<And>f. f \<in> set (rf_flows rf) \<Longrightarrow> currency (amount f) = cfg_currency config"
  shows "\<exists>r. run_forecast fp inputs (Some config) scen (Some assumptions) = Some (Inr r)"
  using assms by (rule run_forecast_total)

definition empty_inputs :: "string \<Rightarrow> forecast_inputs" where
  "empty_inputs ccy =
     \<lparr>fi_opening = \<lparr>cp_as_of = 738000, cp_available = Money 100 ccy, cp_restricted = Money 0 ccy,
        cp_verified = True\<rparr>,
      fi_currency = ccy, fi_invoices = [], fi_customer_histories = [], fi_bills = [], fi_recurring = [],
      fi_payroll = [], fi_debt = [], fi_one_time = [], fi_pipeline = []\<rparr>"

lemma empty_inputs_opening [simp]:
  "fi_opening (empty_inputs c) = \<lparr>cp_as_of = 738000, cp_available = Money 100 c,
     cp_restricted = Money 0 c, cp_verified = True\<rparr>" "fi_currency (empty_inputs c) = c"
  by (simp_all add: empty_inputs_def)

lemma resolve_empty_inputs:
  "resolve (empty_inputs c) (default_config d) BASE base_assumptions = Some (Inr \<lparr>rf_flows = [], rf_notes = []\<rparr>)"
  by (simp add: resolve_def empty_inputs_def base_assumptions_def resolve_ar_def
      resolve_start_def add_note_def resolve_pipeline_def resolve_recurring_def resolve_bills_def
      resolve_payroll_def resolve_debt_def resolve_one_time_def number_flows_def
      date_add_def valid_date_def max_ordinal_def)

theorem forecast_single_currency_total_witness:
  "\<exists>r. run_forecast example_fp (empty_inputs ''USD'') (Some (default_config ''USD'')) BASE (Some base_assumptions) =
     Some (Inr r)"
  by (rule forecast_single_currency_total [OF resolve_empty_inputs])
    (simp_all add: valid_date_def max_ordinal_def known_currency_def currency_scale_def)

text \<open>Without an explicit configuration, a run over inputs whose restricted cash is not in
  dollars raises: the default minimum cash stays in dollars whatever the currency of the inputs.\<close>

theorem forecast_default_config_currency:
  assumes "resolve inputs (default_config (fi_currency inputs)) scen assumptions = Some (Inr rf)"
    and "valid_date (cp_as_of (fi_opening inputs))" "valid_date (cp_as_of (fi_opening inputs) + 90)"
    and "currency (cp_restricted (fi_opening inputs)) \<noteq> ''USD''"
  shows "run_forecast fp inputs None scen (Some assumptions) = Some (Inl CurrencyMismatch)"
  using assms by (rule run_forecast_default_currency)

theorem forecast_default_config_currency_witness:
  "run_forecast example_fp (empty_inputs ''EUR'') None BASE (Some base_assumptions) = Some (Inl CurrencyMismatch)"
  by (rule forecast_default_config_currency [where rf = "\<lparr>rf_flows = [], rf_notes = []\<rparr>"])
    (simp_all add: resolve_empty_inputs valid_date_def max_ordinal_def)

end
