(* ===== verification/Backtest.thy ===== *)
theory Backtest
  imports Forecast
begin

text \<open>
  \<open>packages/forecast/src/rgnr8_forecast/backtest.py\<close>: published forecasts scored against
  what happened, per week of the horizon, in exact integer arithmetic.

  The lemmas relate the error measures (the mean absolute error bounds the bias and is bounded
  by the root mean square), show that no observation is lost when they are grouped by horizon,
  and characterise the horizon through which a forecast counts as reliable.
\<close>

section \<open>Cases\<close>

record week_observation =
  wo_horizon :: int
  wo_predicted :: money
  wo_actual :: money

definition error_minor :: "week_observation \<Rightarrow> int" where
  "error_minor ob = minor_units (wo_predicted ob) - minor_units (wo_actual ob)"

record backtest_case =
  bc_as_of :: date
  bc_currency :: string
  bc_observations :: "week_observation list"
  bc_predicted_breach :: "bool option"
  bc_actual_breach :: "bool option"

definition case_from_forecast :: "forecast_result \<Rightarrow> money list \<Rightarrow> bool option \<Rightarrow> backtest_case" where
  "case_from_forecast published actual_closings actual_breach =
     (let pj = fr_projection published
      in \<lparr>bc_as_of = pj_as_of pj, bc_currency = pj_currency pj,
          bc_observations = map (\<lambda>(w, a). \<lparr>wo_horizon = wl_index w, wo_predicted = wl_closing w, wo_actual = a\<rparr>)
            (zip (pj_weeks pj) actual_closings),
          bc_predicted_breach = Some (br_breached (pj_breach pj)),
          bc_actual_breach = actual_breach\<rparr>)"

section \<open>Statistics of one horizon\<close>

record horizon_stat =
  hs_horizon :: int
  hs_n :: int
  hs_mae_minor :: int
  hs_mape_bps :: int
  hs_bias_minor :: int
  hs_rmse_minor :: int

definition pct_errors :: "int list \<Rightarrow> int list \<Rightarrow> int list" where
  "pct_errors errs actuals =
     map (\<lambda>(e, a). (\<bar>e\<bar> * 10000) div \<bar>a\<bar>) (filter (\<lambda>(e, a). a \<noteq> 0) (zip errs actuals))"

definition mean_floor :: "int list \<Rightarrow> int" where
  "mean_floor xs = (if xs = [] then 0 else (\<Sum>x\<leftarrow>xs. x) div int (length xs))"

text \<open>\<open>_horizon_stat\<close> of a non-empty list of errors; \<open>//\<close> by an empty one raises.\<close>

definition horizon_stat :: "int \<Rightarrow> int list \<Rightarrow> int list \<Rightarrow> horizon_stat res" where
  "horizon_stat h errs actuals =
     (let n = int (length errs); pcts = pct_errors errs actuals
      in if n = 0 then Inl ZeroDivisionError
         else Inr \<lparr>hs_horizon = h, hs_n = n, hs_mae_minor = (\<Sum>e\<leftarrow>errs. \<bar>e\<bar>) div n,
                hs_mape_bps = mean_floor pcts, hs_bias_minor = (\<Sum>e\<leftarrow>errs. e) div n,
                hs_rmse_minor = int (isqrt (nat ((\<Sum>e\<leftarrow>errs. e * e) div n)))\<rparr>)"

section \<open>Breach calls\<close>

record breach_score =
  true_positive :: int
  false_positive :: int
  false_negative :: int
  true_negative :: int

definition scored :: "breach_score \<Rightarrow> int" where
  "scored b = true_positive b + false_positive b + false_negative b + true_negative b"

definition precision_bps :: "breach_score \<Rightarrow> int option" where
  "precision_bps b =
     (let denom = true_positive b + false_positive b
      in if denom \<noteq> 0 then Some ((true_positive b * 10000) div denom) else None)"

definition recall_bps :: "breach_score \<Rightarrow> int option" where
  "recall_bps b =
     (let denom = true_positive b + false_negative b
      in if denom \<noteq> 0 then Some ((true_positive b * 10000) div denom) else None)"

definition score_case :: "backtest_case \<Rightarrow> breach_score option \<Rightarrow> breach_score option" where
  "score_case c acc =
     (case (bc_predicted_breach c, bc_actual_breach c) of
        (Some p, Some a) \<Rightarrow>
          let b = (case acc of Some b \<Rightarrow> b | None \<Rightarrow>
                     \<lparr>true_positive = 0, false_positive = 0, false_negative = 0, true_negative = 0\<rparr>)
          in Some (if p \<and> a then b\<lparr>true_positive := true_positive b + 1\<rparr>
                   else if p \<and> \<not> a then b\<lparr>false_positive := false_positive b + 1\<rparr>
                   else if \<not> p \<and> a then b\<lparr>false_negative := false_negative b + 1\<rparr>
                   else b\<lparr>true_negative := true_negative b + 1\<rparr>)
      | _ \<Rightarrow> acc)"

definition breach_score_of :: "backtest_case list \<Rightarrow> breach_score option" where
  "breach_score_of cases = fold score_case cases None"

section \<open>The report\<close>

record backtest_report =
  rp_currency :: string
  rp_cases :: int
  rp_observations :: int
  rp_by_horizon :: "horizon_stat list"
  rp_overall_mae_minor :: int
  rp_overall_mape_bps :: int
  rp_overall_bias_minor :: int
  rp_breach :: "breach_score option"
  rp_reliable_through :: "int option"

text \<open>\<open>d.setdefault(k, []).append(x)\<close>.\<close>

definition dict_append :: "'k \<Rightarrow> 'v \<Rightarrow> ('k \<times> 'v list) list \<Rightarrow> ('k \<times> 'v list) list" where
  "dict_append k x d = AList.update k ((case map_of d k of Some xs \<Rightarrow> xs | None \<Rightarrow> []) @ [x]) d"

definition group_by_horizon ::
  "(week_observation \<Rightarrow> int) \<Rightarrow> week_observation list \<Rightarrow> (int \<times> int list) list" where
  "group_by_horizon g obs = fold (\<lambda>ob d. dict_append (wo_horizon ob) (g ob) d) obs []"

definition lookup_list :: "int \<Rightarrow> (int \<times> int list) list \<Rightarrow> int list res" where
  "lookup_list k d = (case map_of d k of Some xs \<Rightarrow> Inr xs | None \<Rightarrow> Inl (KeyError (str_int k)))"

fun reliable_through :: "int \<Rightarrow> horizon_stat list \<Rightarrow> int option \<Rightarrow> int option" where
  "reliable_through tol [] acc = acc"
| "reliable_through tol (s # ss) acc =
     (if hs_mape_bps s \<le> tol then reliable_through tol ss (Some (hs_horizon s)) else acc)"

definition run_backtest :: "backtest_case list \<Rightarrow> int \<Rightarrow> backtest_report res" where
  "run_backtest cases reliable_mape_bps =
     (let ccy = (case cases of c # _ \<Rightarrow> bc_currency c | [] \<Rightarrow> ''USD'');
          obs = concat (map bc_observations cases);
          by_h_err = group_by_horizon error_minor obs;
          by_h_actual = group_by_horizon (\<lambda>ob. minor_units (wo_actual ob)) obs;
          all_errs = map error_minor obs;
          all_actuals = map (\<lambda>ob. minor_units (wo_actual ob)) obs;
          n_obs = int (length obs);
          horizons = sort (map fst by_h_err)
      in res_bind (map_res (\<lambda>h. res_bind (lookup_list h by_h_err) (\<lambda>errs.
                              res_bind (lookup_list h by_h_actual) (\<lambda>actuals. horizon_stat h errs actuals)))
                     horizons) (\<lambda>stats.
         Inr \<lparr>rp_currency = ccy, rp_cases = int (length cases), rp_observations = n_obs,
              rp_by_horizon = stats,
              rp_overall_mae_minor = mean_floor (map abs all_errs),
              rp_overall_mape_bps = mean_floor (pct_errors all_errs all_actuals),
              rp_overall_bias_minor = mean_floor all_errs,
              rp_breach = breach_score_of cases,
              rp_reliable_through = reliable_through reliable_mape_bps stats None\<rparr>))"

section \<open>Error measures\<close>

lemma sum_abs_square: "(\<Sum>x\<leftarrow>xs. \<bar>x\<bar>) * (\<Sum>x\<leftarrow>xs. \<bar>x\<bar>) \<le> int (length xs) * (\<Sum>x\<leftarrow>xs. x * x)" for xs :: "int list"
proof -
  have am: "2 * (a * (\<Sum>x\<leftarrow>xs. \<bar>x\<bar>)) \<le> int (length xs) * (a * a) + (\<Sum>x\<leftarrow>xs. x * x)" for a :: int and xs
  proof (induction xs)
    case (Cons x xs)
    have "0 \<le> (a - \<bar>x\<bar>) * (a - \<bar>x\<bar>)" by simp
    then have "2 * (a * \<bar>x\<bar>) \<le> a * a + x * x" by (simp add: algebra_simps abs_mult [symmetric])
    with Cons.IH show ?case by (simp add: algebra_simps)
  qed simp
  show ?thesis
  proof (induction xs)
    case (Cons x xs)
    have "2 * (\<bar>x\<bar> * (\<Sum>x\<leftarrow>xs. \<bar>x\<bar>)) \<le> int (length xs) * (\<bar>x\<bar> * \<bar>x\<bar>) + (\<Sum>x\<leftarrow>xs. x * x)" by (rule am)
    with Cons.IH show ?case by (simp add: algebra_simps)
  qed simp
qed

lemma horizon_stat_measures:
  assumes "horizon_stat h errs actuals = Inr s"
  shows "hs_horizon s = h" "hs_n s = int (length errs)" "0 \<le> hs_mae_minor s"
    "hs_mae_minor s \<le> hs_rmse_minor s" "- hs_mae_minor s - 1 \<le> hs_bias_minor s" "hs_bias_minor s \<le> hs_mae_minor s"
proof -
  define n where "n = int (length errs)"
  define A Q where "A = (\<Sum>e\<leftarrow>errs. \<bar>e\<bar>)" and "Q = (\<Sum>e\<leftarrow>errs. e * e)"
  have n: "0 < n" and s: "s = \<lparr>hs_horizon = h, hs_n = n, hs_mae_minor = A div n,
      hs_mape_bps = mean_floor (pct_errors errs actuals), hs_bias_minor = (\<Sum>e\<leftarrow>errs. e) div n,
      hs_rmse_minor = int (isqrt (nat (Q div n)))\<rparr>"
    using assms by (auto simp: horizon_stat_def Let_def n_def A_def Q_def split: if_splits)
  have A: "0 \<le> A" unfolding A_def by (induction errs) simp_all
  show "hs_horizon s = h" "hs_n s = int (length errs)" by (simp_all add: s n_def)
  show m0: "0 \<le> hs_mae_minor s" using A n by (simp add: s pos_imp_zdiv_nonneg_iff)
  have b: "- A \<le> (\<Sum>e\<leftarrow>errs. e)" "(\<Sum>e\<leftarrow>errs. e) \<le> A"
    unfolding A_def by (induction errs) auto
  show "hs_bias_minor s \<le> hs_mae_minor s" using b(2) n by (simp add: s zdiv_mono1)
  have "(- A) div n \<le> (\<Sum>e\<leftarrow>errs. e) div n" using b(1) n by (simp add: zdiv_mono1)
  moreover have "- (A div n) - 1 \<le> (- A) div n" using n by (simp add: zdiv_zminus1_eq_if)
  ultimately show "- hs_mae_minor s - 1 \<le> hs_bias_minor s" by (simp add: s)
  have "(A div n) * n \<le> A" using n by (simp add: minus_mod_eq_div_mult [symmetric])
  have "((A div n) * n) * ((A div n) * n) \<le> A * A"
    using \<open>(A div n) * n \<le> A\<close> A n by (intro mult_mono) (simp_all add: pos_imp_zdiv_nonneg_iff)
  also have "\<dots> \<le> n * Q" using sum_abs_square [of errs] by (simp add: A_def Q_def n_def)
  finally have "n * (n * ((A div n) * (A div n))) \<le> n * Q" by (simp add: algebra_simps)
  then have "((A div n) * (A div n)) * n \<le> Q" using n by (simp add: mult.commute)
  then have "(A div n) * (A div n) \<le> Q div n" using zdiv_mono1 [of _ Q n] n by fastforce
  moreover have "0 \<le> A div n" using A n by (simp add: pos_imp_zdiv_nonneg_iff)
  ultimately have "nat (A div n) * nat (A div n) \<le> nat (Q div n)"
    by (simp add: nat_mult_distrib [symmetric] nat_mono)
  then have "nat (A div n) \<le> isqrt (nat (Q div n))" by (simp add: le_isqrt_iff)
  then show "hs_mae_minor s \<le> hs_rmse_minor s" using \<open>0 \<le> A div n\<close> by (simp add: s)
qed

section \<open>Grouping loses nothing\<close>

lemma map_of_dict_append:
  "map_of (dict_append k x d) k' =
     (if k' = k then Some ((case map_of d k of Some xs \<Rightarrow> xs | None \<Rightarrow> []) @ [x]) else map_of d k')"
  by (auto simp: dict_append_def update_conv')

lemma group_fold:
  "map_of (fold (\<lambda>ob d. dict_append (wo_horizon ob) (g ob) d) obs d) h =
     (let new = map g (filter (\<lambda>ob. wo_horizon ob = h) obs)
      in case map_of d h of Some xs \<Rightarrow> Some (xs @ new) | None \<Rightarrow> if new = [] then None else Some new)"
proof (induction obs arbitrary: d)
  case (Cons ob obs)
  then show ?case by (cases "map_of d h") (auto simp: map_of_dict_append Let_def)
qed (simp split: option.split)

lemma map_of_group_by_horizon:
  "map_of (group_by_horizon g obs) h =
     (if filter (\<lambda>ob. wo_horizon ob = h) obs = [] then None
      else Some (map g (filter (\<lambda>ob. wo_horizon ob = h) obs)))"
  by (simp add: group_by_horizon_def group_fold Let_def)

lemma distinct_keys_group: "distinct (map fst (group_by_horizon g obs))"
proof -
  have "distinct (map fst d) \<Longrightarrow> distinct (map fst (fold (\<lambda>ob d. dict_append (wo_horizon ob) (g ob) d) obs d))" for d
    by (induction obs arbitrary: d) (simp_all add: dict_append_def distinct_update)
  then show ?thesis by (simp add: group_by_horizon_def)
qed

lemma keys_group: "set (map fst (group_by_horizon g obs)) = set (map wo_horizon obs)"
proof -
  have "h \<in> set (map fst (group_by_horizon g obs)) \<longleftrightarrow> map_of (group_by_horizon g obs) h \<noteq> None" for h
    by (simp add: map_of_eq_None_iff)
  moreover have "map_of (group_by_horizon g obs) h \<noteq> None \<longleftrightarrow> h \<in> set (map wo_horizon obs)" for h
    unfolding map_of_group_by_horizon filter_empty_conv by auto
  ultimately show ?thesis by blast
qed

definition at_horizon :: "int \<Rightarrow> week_observation list \<Rightarrow> week_observation list" where
  "at_horizon h obs = filter (\<lambda>ob. wo_horizon ob = h) obs"

definition all_observations :: "backtest_case list \<Rightarrow> week_observation list" where
  "all_observations cases = concat (map bc_observations cases)"

lemma run_backtest_total:
  obtains r stats where "run_backtest cases tol = Inr r" "rp_by_horizon r = stats"
    "list_all2 (\<lambda>h s. horizon_stat h (map error_minor (at_horizon h (all_observations cases)))
        (map (\<lambda>ob. minor_units (wo_actual ob)) (at_horizon h (all_observations cases))) = Inr s)
      (sort (remdups (map wo_horizon (all_observations cases)))) stats"
    "rp_observations r = int (length (all_observations cases))"
    "rp_reliable_through r = reliable_through tol stats None" "rp_breach r = breach_score_of cases"
proof -
  define obs where "obs = all_observations cases"
  define e a where "e = group_by_horizon error_minor obs" and "a = group_by_horizon (\<lambda>ob. minor_units (wo_actual ob)) obs"
  define hs where "hs = sort (map fst e)"
  have hs: "hs = sort (remdups (map wo_horizon obs))"
    unfolding hs_def e_def
    by (intro sorted_distinct_set_unique) (simp_all add: distinct_keys_group keys_group [simplified])
  define f where "f = (\<lambda>h. res_bind (lookup_list h e) (\<lambda>errs.
     res_bind (lookup_list h a) (\<lambda>actuals. horizon_stat h errs actuals)))"
  have f: "f h = horizon_stat h (map error_minor (at_horizon h obs)) (map (\<lambda>ob. minor_units (wo_actual ob)) (at_horizon h obs))"
    and ok: "\<exists>s. f h = Inr s" if "h \<in> set hs" for h
  proof -
    have ne: "at_horizon h obs \<noteq> []" using that by (auto simp: hs at_horizon_def filter_empty_conv)
    then show eq: "f h = horizon_stat h (map error_minor (at_horizon h obs)) (map (\<lambda>ob. minor_units (wo_actual ob)) (at_horizon h obs))"
      by (simp add: f_def lookup_list_def e_def a_def map_of_group_by_horizon at_horizon_def)
    from ne show "\<exists>s. f h = Inr s" unfolding eq by (simp add: horizon_stat_def Let_def)
  qed
  have "map_res f hs = Inr (map (\<lambda>h. projr (f h)) hs)" using ok by (intro map_res_total) force
  moreover have "list_all2 (\<lambda>h s. horizon_stat h (map error_minor (at_horizon h obs))
        (map (\<lambda>ob. minor_units (wo_actual ob)) (at_horizon h obs)) = Inr s) hs (map (\<lambda>h. projr (f h)) hs)"
  proof (unfold list.rel_map list_all2_same, intro ballI)
    fix h assume h: "h \<in> set hs"
    with ok obtain s where "f h = Inr s" by blast
    then show "horizon_stat h (map error_minor (at_horizon h obs))
        (map (\<lambda>ob. minor_units (wo_actual ob)) (at_horizon h obs)) = Inr (projr (f h))"
      using f [OF h] by simp
  qed
  ultimately show thesis
    using that unfolding hs [symmetric] obs_def [symmetric]
    by (simp add: run_backtest_def Let_def all_observations_def [symmetric] obs_def [symmetric]
        e_def [symmetric] a_def [symmetric] hs_def [symmetric] f_def)
qed

lemma sum_at_horizons:
  assumes "distinct hs" "set (map wo_horizon obs) \<subseteq> set hs"
  shows "(\<Sum>h\<leftarrow>hs. length (at_horizon h obs)) = length obs"
  using assms(2)
proof (induction obs)
  case (Cons ob obs)
  have "(\<Sum>h\<leftarrow>hs. length (at_horizon h (ob # obs))) =
      (\<Sum>h\<leftarrow>hs. length (at_horizon h obs)) + (\<Sum>h\<leftarrow>hs. if h = wo_horizon ob then 1 else 0)"
    unfolding sum_list_addf [symmetric] by (intro arg_cong [where f = sum_list] map_cong) (auto simp: at_horizon_def)
  also have "(\<Sum>h\<leftarrow>hs. if h = wo_horizon ob then 1 else 0) = (1 :: nat)"
    using assms(1) Cons.prems by (subst sum_list_distinct_conv_sum_set) auto
  finally show ?case using Cons by simp
qed (simp add: at_horizon_def)

section \<open>The reliable horizon\<close>

lemma reliable_through_eq:
  "reliable_through tol ss acc =
     (let ok = takeWhile (\<lambda>s. hs_mape_bps s \<le> tol) ss in if ok = [] then acc else Some (hs_horizon (last ok)))"
  by (induction ss arbitrary: acc) (auto simp: Let_def)

section \<open>Breach scores\<close>

definition outcomes :: "backtest_case list \<Rightarrow> (bool \<times> bool) list" where
  "outcomes cases = concat (map (\<lambda>c. case (bc_predicted_breach c, bc_actual_breach c) of
     (Some p, Some a) \<Rightarrow> [(p, a)] | _ \<Rightarrow> []) cases)"

definition counts :: "(bool \<times> bool) list \<Rightarrow> breach_score" where
  "counts os = \<lparr>true_positive = int (count_list os (True, True)), false_positive = int (count_list os (True, False)),
     false_negative = int (count_list os (False, True)), true_negative = int (count_list os (False, False))\<rparr>"

definition score_plus :: "breach_score option \<Rightarrow> (bool \<times> bool) list \<Rightarrow> breach_score option" where
  "score_plus acc os = (if os = [] then acc else
     (let b = (case acc of Some b \<Rightarrow> b | None \<Rightarrow> counts []); c = counts os
      in Some \<lparr>true_positive = true_positive b + true_positive c, false_positive = false_positive b + false_positive c,
           false_negative = false_negative b + false_negative c, true_negative = true_negative b + true_negative c\<rparr>))"

lemma fold_score_case: "fold score_case cases acc = score_plus acc (outcomes cases)"
proof (induction cases arbitrary: acc)
  case Nil
  then show ?case by (simp add: outcomes_def score_plus_def)
next
  case (Cons c cases)
  have o: "outcomes (c # cases) = (case (bc_predicted_breach c, bc_actual_breach c) of
      (Some p, Some a) \<Rightarrow> [(p, a)] | _ \<Rightarrow> []) @ outcomes cases"
    by (simp add: outcomes_def)
  show ?case unfolding fold_simps comp_def Cons.IH o
    by (auto simp: score_case_def score_plus_def counts_def Let_def split: option.split)
qed

lemma breach_score_of_eq:
  "breach_score_of cases = (if outcomes cases = [] then None else Some (counts (outcomes cases)))"
  by (simp add: breach_score_of_def fold_score_case score_plus_def counts_def Let_def)

section \<open>Properties\<close>

text \<open>A backtest never raises; its horizons are listed once each in increasing order, the
  observations of all horizons together are all the observations, and the breach calls are
  counted over the cases whose prediction and outcome are both known.\<close>

theorem backtest_loses_nothing:
  "\<exists>r. run_backtest cases tol = Inr r \<and>
     map hs_horizon (rp_by_horizon r) = sort (remdups (map wo_horizon (all_observations cases))) \<and>
     (\<Sum>s\<leftarrow>rp_by_horizon r. hs_n s) = int (length (all_observations cases)) \<and>
     rp_breach r = (if outcomes cases = [] then None else Some (counts (outcomes cases)))"
proof (rule run_backtest_total [of cases tol])
  fix r stats
  define hs where "hs = sort (remdups (map wo_horizon (all_observations cases)))"
  assume r: "run_backtest cases tol = Inr r" "rp_by_horizon r = stats" "rp_breach r = breach_score_of cases"
    and st: "list_all2 (\<lambda>h s. horizon_stat h (map error_minor (at_horizon h (all_observations cases)))
        (map (\<lambda>ob. minor_units (wo_actual ob)) (at_horizon h (all_observations cases))) = Inr s)
      (sort (remdups (map wo_horizon (all_observations cases)))) stats"
  have "list_all2 (\<lambda>h s. hs_horizon s = h \<and> hs_n s = int (length (at_horizon h (all_observations cases)))) hs stats"
    using st unfolding hs_def [symmetric]
    by (rule list_all2_mono) (auto dest: horizon_stat_measures)
  then have m: "map hs_horizon stats = hs" "map hs_n stats = map (\<lambda>h. int (length (at_horizon h (all_observations cases)))) hs"
    by (induction rule: list_all2_induct) auto
  have "(\<Sum>s\<leftarrow>stats. hs_n s) = int (\<Sum>h\<leftarrow>hs. length (at_horizon h (all_observations cases)))"
    unfolding m(2) by (induction hs) auto
  also have "(\<Sum>h\<leftarrow>hs. length (at_horizon h (all_observations cases))) = length (all_observations cases)"
    by (intro sum_at_horizons) (simp_all add: hs_def)
  finally show ?thesis using r m(1) by (auto simp: hs_def breach_score_of_eq)
qed

text \<open>At every horizon the mean absolute error bounds the mean signed error (down to the
  rounding of one unit) and is at most the root mean square error.\<close>

theorem backtest_measures:
  assumes "run_backtest cases tol = Inr r" "s \<in> set (rp_by_horizon r)"
  shows "0 \<le> hs_mae_minor s \<and> hs_mae_minor s \<le> hs_rmse_minor s \<and>
    - hs_mae_minor s - 1 \<le> hs_bias_minor s \<and> hs_bias_minor s \<le> hs_mae_minor s"
proof (rule run_backtest_total [of cases tol])
  fix r' stats
  assume "run_backtest cases tol = Inr r'" "rp_by_horizon r' = stats"
    and st: "list_all2 (\<lambda>h s. horizon_stat h (map error_minor (at_horizon h (all_observations cases)))
        (map (\<lambda>ob. minor_units (wo_actual ob)) (at_horizon h (all_observations cases))) = Inr s)
      (sort (remdups (map wo_horizon (all_observations cases)))) stats"
  with assms have "s \<in> set stats" by simp
  then obtain i where "i < length stats" "stats ! i = s" by (auto simp: in_set_conv_nth)
  with st show ?thesis
    using horizon_stat_measures by (auto simp: list_all2_conv_all_nth)
qed

definition example_case :: backtest_case where
  "example_case =
     \<lparr>bc_as_of = 738000, bc_currency = ''USD'',
      bc_observations = [\<lparr>wo_horizon = 1, wo_predicted = Money 110 ''USD'', wo_actual = Money 100 ''USD''\<rparr>,
        \<lparr>wo_horizon = 1, wo_predicted = Money 70 ''USD'', wo_actual = Money 100 ''USD''\<rparr>],
      bc_predicted_breach = Some True, bc_actual_breach = Some False\<rparr>"

theorem backtest_measures_witness:
  "\<exists>r s. run_backtest [example_case] 500 = Inr r \<and> rp_by_horizon r = [s] \<and>
     hs_mae_minor s = 20 \<and> hs_bias_minor s = - 10 \<and> 20 \<le> hs_rmse_minor s"
proof -
  have "\<exists>r s. run_backtest [example_case] 500 = Inr r \<and> rp_by_horizon r = [s] \<and>
      hs_mae_minor s = 20 \<and> hs_bias_minor s = - 10"
    by (simp add: run_backtest_def example_case_def group_by_horizon_def dict_append_def lookup_list_def
        horizon_stat_def error_minor_def Let_def)
  then obtain r s where rs: "run_backtest [example_case] 500 = Inr r" "rp_by_horizon r = [s]"
    "hs_mae_minor s = 20" "hs_bias_minor s = - 10" by (elim exE conjE)
  with backtest_measures [OF rs(1), of s] show ?thesis by (intro exI [of _ r] exI [of _ s]) simp
qed

text \<open>The reliable horizon is the last of the leading horizons whose percentage error stays
  within the tolerance; there is none when the first already exceeds it.\<close>

theorem backtest_reliable_through:
  assumes "run_backtest cases tol = Inr r"
  shows "rp_reliable_through r =
    (let ok = takeWhile (\<lambda>s. hs_mape_bps s \<le> tol) (rp_by_horizon r)
     in if ok = [] then None else Some (hs_horizon (last ok)))"
  by (rule run_backtest_total [of cases tol]) (use assms in \<open>simp add: reliable_through_eq\<close>)

theorem backtest_reliable_through_witness:
  "\<exists>r. run_backtest [] 500 = Inr r \<and> rp_reliable_through r = None"
  using backtest_reliable_through [of "[]" 500]
  by (fastforce simp: run_backtest_def group_by_horizon_def)

end
