(* ===== verification/Billing_Model.thy ===== *)
theory Billing_Model
  imports Money
begin

text \<open>
  The data of \<open>packages/billing/src/rgnr8_billing\<close>: plans and entitlements (\<open>plans.py\<close>,
  \<open>entitlements.py\<close>), accounts (\<open>accounts.py\<close>), metered usage (\<open>usage.py\<close>), the invoice built
  from them (\<open>invoice.py\<close>) and the classification of a plan change (\<open>plan_changes.py\<close>).

  The lemmas give the total of an invoice in closed form and the usage summary as a sum over
  the events of the period.
\<close>

section \<open>Plans\<close>

datatype tier = SELF_SERVE | ASSISTED | CO_DELIVERY

datatype feature =
  CASH | BRIEFING | REGISTER | CLOSE | PACKAGE | ASK_CFO | MULTI_TENANT | ACCOUNTANT_SEAT
| API_ACCESS | PRIORITY_SUPPORT

fun tier_value :: "tier \<Rightarrow> string" where
  "tier_value SELF_SERVE = ''self_serve''"
| "tier_value ASSISTED = ''assisted''"
| "tier_value CO_DELIVERY = ''co_delivery''"

text \<open>\<open>Tier(value)\<close>, which raises on an unknown value.\<close>

definition tier_of :: "string \<Rightarrow> tier res" where
  "tier_of s =
     (case find (\<lambda>t. tier_value t = s) [SELF_SERVE, ASSISTED, CO_DELIVERY] of
        Some t \<Rightarrow> Inr t | None \<Rightarrow> Inl ValueError)"

record plan =
  pl_tier :: tier
  pl_name :: string
  base_price :: money
  included_tenants :: int
  included_seats :: int
  included_analyst_minutes :: int
  analyst_minute_rate :: money
  extra_tenant_rate :: money
  features :: "feature list"

definition plan_has :: "plan \<Rightarrow> feature \<Rightarrow> bool" where
  "plan_has p f = (f \<in> set (features p))"

definition core_features :: "feature list" where
  "core_features = [CASH, BRIEFING, REGISTER, CLOSE, PACKAGE, ASK_CFO]"

text \<open>\<open>PLANS\<close>; the prices are the values of \<open>_usd\<close> on the literals of the code.\<close>

fun plan_for :: "tier \<Rightarrow> plan" where
  "plan_for SELF_SERVE =
     \<lparr>pl_tier = SELF_SERVE, pl_name = ''Self-serve'', base_price = Money 19900 ''USD'',
      included_tenants = 1, included_seats = 3, included_analyst_minutes = 0,
      analyst_minute_rate = Money 300 ''USD'', extra_tenant_rate = Money 14900 ''USD'',
      features = core_features\<rparr>"
| "plan_for ASSISTED =
     \<lparr>pl_tier = ASSISTED, pl_name = ''Assisted'', base_price = Money 49900 ''USD'',
      included_tenants = 1, included_seats = 5, included_analyst_minutes = 120,
      analyst_minute_rate = Money 250 ''USD'', extra_tenant_rate = Money 19900 ''USD'',
      features = core_features @ [PRIORITY_SUPPORT]\<rparr>"
| "plan_for CO_DELIVERY =
     \<lparr>pl_tier = CO_DELIVERY, pl_name = ''Co-delivery'', base_price = Money 99900 ''USD'',
      included_tenants = 5, included_seats = 10, included_analyst_minutes = 600,
      analyst_minute_rate = Money 200 ''USD'', extra_tenant_rate = Money 14900 ''USD'',
      features = core_features @ [MULTI_TENANT, ACCOUNTANT_SEAT, API_ACCESS, PRIORITY_SUPPORT]\<rparr>"

lemma plan_prices:
  "from_decimal ''199.00'' ''USD'' = Inr (base_price (plan_for SELF_SERVE))"
  "from_decimal ''499.00'' ''USD'' = Inr (base_price (plan_for ASSISTED))"
  "from_decimal ''999.00'' ''USD'' = Inr (base_price (plan_for CO_DELIVERY))"
  by (simp_all add: from_decimal_def currency_scale_def strip_def is_space_def isdigit_def ljust_def string_eval)

section \<open>Accounts\<close>

datatype account_status = TRIALING | ACTIVE | PAST_DUE | PAUSED | CANCELED

fun status_value :: "account_status \<Rightarrow> string" where
  "status_value TRIALING = ''trialing''"
| "status_value ACTIVE = ''active''"
| "status_value PAST_DUE = ''past_due''"
| "status_value PAUSED = ''paused''"
| "status_value CANCELED = ''canceled''"

definition status_of :: "string \<Rightarrow> account_status res" where
  "status_of s =
     (case find (\<lambda>t. status_value t = s) [TRIALING, ACTIVE, PAST_DUE, PAUSED, CANCELED] of
        Some t \<Rightarrow> Inr t | None \<Rightarrow> Inl ValueError)"

record account =
  acc_id :: string
  acc_name :: string
  billing_email :: string
  acc_tier :: tier
  acc_status :: account_status
  tenant_ids :: "string list"
  seats_used :: int
  stripe_customer_id :: "string option"
  stripe_subscription_id :: "string option"
  trial_end :: "int option"
  created_at :: int

definition with_account_status :: "account_status \<Rightarrow> account \<Rightarrow> account" where
  "with_account_status st a = a\<lparr>acc_status := st\<rparr>"

definition with_tenant :: "string \<Rightarrow> account \<Rightarrow> account" where
  "with_tenant t a = (if t \<in> set (tenant_ids a) then a else a\<lparr>tenant_ids := tenant_ids a @ [t]\<rparr>)"

definition without_tenant :: "string \<Rightarrow> account \<Rightarrow> account" where
  "without_tenant t a = a\<lparr>tenant_ids := filter (\<lambda>x. x \<noteq> t) (tenant_ids a)\<rparr>"

definition with_billing_refs :: "string option \<Rightarrow> string option \<Rightarrow> account \<Rightarrow> account" where
  "with_billing_refs customer subscription a =
     a\<lparr>stripe_customer_id := (if customer \<noteq> None then customer else stripe_customer_id a),
       stripe_subscription_id := (if subscription \<noteq> None then subscription else stripe_subscription_id a)\<rparr>"

definition tenant_count :: "account \<Rightarrow> int" where
  "tenant_count a = int (length (tenant_ids a))"

definition is_billable :: "account \<Rightarrow> bool" where
  "is_billable a = (acc_status a = ACTIVE \<or> acc_status a = PAST_DUE)"

section \<open>Entitlements\<close>

text \<open>\<open>Entitlements.of(account)\<close> pairs the account with the plan of its tier.\<close>

definition feature_enabled :: "account \<Rightarrow> feature \<Rightarrow> bool" where
  "feature_enabled a f =
     (if acc_status a = PAUSED \<or> acc_status a = CANCELED then False
      else plan_has (plan_for (acc_tier a)) f)"

definition within_included_tenants :: "account \<Rightarrow> bool" where
  "within_included_tenants a = (tenant_count a \<le> included_tenants (plan_for (acc_tier a)))"

definition can_add_tenant :: "account \<Rightarrow> bool" where
  "can_add_tenant a =
     (let p = plan_for (acc_tier a)
      in if plan_has p MULTI_TENANT then True else tenant_count a < included_tenants p)"

definition can_add_seat :: "account \<Rightarrow> bool" where
  "can_add_seat a = (seats_used a < included_seats (plan_for (acc_tier a)))"

section \<open>Usage\<close>

datatype usage_kind = ANALYST_MINUTES | BRIEFING_SENT | API_CALL | ACTIVE_TENANT

fun usage_kind_value :: "usage_kind \<Rightarrow> string" where
  "usage_kind_value ANALYST_MINUTES = ''analyst_minutes''"
| "usage_kind_value BRIEFING_SENT = ''briefing_sent''"
| "usage_kind_value API_CALL = ''api_call''"
| "usage_kind_value ACTIVE_TENANT = ''active_tenant''"

record usage_event =
  ue_account_id :: string
  ue_kind :: usage_kind
  ue_quantity :: int
  ue_period :: string
  ue_tenant_id :: string
  ue_at :: int
  ue_note :: string

record usage_summary =
  us_account_id :: string
  us_period :: string
  us_analyst_minutes :: int
  us_briefings_sent :: int
  us_api_calls :: int
  us_active_tenants :: int

text \<open>\<open>summarize\<close>: the dictionary of totals is keyed by kind.\<close>

definition add_usage :: "string \<Rightarrow> string \<Rightarrow> usage_event \<Rightarrow> (usage_kind \<times> int) list \<Rightarrow> (usage_kind \<times> int) list" where
  "add_usage aid period e totals =
     (if ue_account_id e \<noteq> aid \<or> ue_period e \<noteq> period then totals
      else dict_add (ue_kind e) (ue_quantity e) totals)"

definition summarize :: "string \<Rightarrow> string \<Rightarrow> usage_event list \<Rightarrow> usage_summary" where
  "summarize aid period events =
     (let totals = fold (add_usage aid period) events
                     [(ANALYST_MINUTES, 0), (BRIEFING_SENT, 0), (API_CALL, 0), (ACTIVE_TENANT, 0)]
      in \<lparr>us_account_id = aid, us_period = period,
          us_analyst_minutes = dict_get0 totals ANALYST_MINUTES,
          us_briefings_sent = dict_get0 totals BRIEFING_SENT,
          us_api_calls = dict_get0 totals API_CALL,
          us_active_tenants = dict_get0 totals ACTIVE_TENANT\<rparr>)"

definition usage_total :: "usage_kind \<Rightarrow> string \<Rightarrow> string \<Rightarrow> usage_event list \<Rightarrow> int" where
  "usage_total k aid period events =
     (\<Sum>e\<leftarrow>events. if ue_kind e = k \<and> ue_account_id e = aid \<and> ue_period e = period then ue_quantity e else 0)"

lemma fold_add_usage:
  "dict_get0 (fold (add_usage aid period) events d) k = dict_get0 d k + usage_total k aid period events"
  by (induction events arbitrary: d) (auto simp: usage_total_def add_usage_def dict_get0_add)

lemma summarize_totals:
  "us_analyst_minutes (summarize aid period events) = usage_total ANALYST_MINUTES aid period events"
  "us_briefings_sent (summarize aid period events) = usage_total BRIEFING_SENT aid period events"
  "us_api_calls (summarize aid period events) = usage_total API_CALL aid period events"
  "us_active_tenants (summarize aid period events) = usage_total ACTIVE_TENANT aid period events"
  "us_account_id (summarize aid period events) = aid" "us_period (summarize aid period events) = period"
  by (simp_all add: summarize_def fold_add_usage Let_def) (simp_all add: dict_get0_def)

section \<open>Invoices\<close>

record invoice_line =
  il_description :: string
  il_quantity :: int
  il_unit_amount :: money
  il_amount :: money

record billing_invoice =
  bi_account_id :: string
  bi_period :: string
  bi_currency :: string
  bi_lines :: "invoice_line list"
  bi_subtotal :: money
  bi_total :: money

definition line_count :: "billing_invoice \<Rightarrow> int" where
  "line_count i = int (length (bi_lines i))"

definition minutes_line :: "plan \<Rightarrow> usage_summary \<Rightarrow> invoice_line list res" where
  "minutes_line p usage =
     (let over = max 0 (us_analyst_minutes usage - included_analyst_minutes p)
      in if 0 < over then
           res_bind (scale_by (analyst_minute_rate p) over 1) (\<lambda>amt.
             Inr [\<lparr>il_description = ''Analyst minutes over '' @ str_int (included_analyst_minutes p) @ '' bundled'',
                   il_quantity = over, il_unit_amount = analyst_minute_rate p, il_amount = amt\<rparr>])
         else Inr [])"

definition tenants_line :: "plan \<Rightarrow> int \<Rightarrow> invoice_line list res" where
  "tenants_line p tenants =
     (let over = max 0 (tenants - included_tenants p)
      in if 0 < over then
           res_bind (scale_by (extra_tenant_rate p) over 1) (\<lambda>amt.
             Inr [\<lparr>il_description = ''Additional businesses over '' @ str_int (included_tenants p) @ '' included'',
                   il_quantity = over, il_unit_amount = extra_tenant_rate p, il_amount = amt\<rparr>])
         else Inr [])"

definition build_invoice :: "account \<Rightarrow> plan \<Rightarrow> usage_summary \<Rightarrow> int option \<Rightarrow> billing_invoice res" where
  "build_invoice a p usage tenants =
     (let ccy = currency (base_price p);
          n = (case tenants of Some n \<Rightarrow> n | None \<Rightarrow> tenant_count a);
          base = \<lparr>il_description = pl_name p @ '' plan '' @ em_dash @ '' '' @ acc_name a,
                  il_quantity = 1, il_unit_amount = base_price p, il_amount = base_price p\<rparr>
      in res_bind (minutes_line p usage) (\<lambda>ms.
         res_bind (tenants_line p n) (\<lambda>ts.
         res_bind (fold_res (\<lambda>ln subtotal. money_add subtotal (il_amount ln)) (base # ms @ ts) (Money 0 ccy))
           (\<lambda>subtotal.
              Inr \<lparr>bi_account_id = acc_id a, bi_period = us_period usage, bi_currency = ccy,
                   bi_lines = base # ms @ ts, bi_subtotal = subtotal, bi_total = subtotal\<rparr>))))"

section \<open>Plan changes\<close>

datatype plan_change_kind = UPGRADE | DOWNGRADE | LATERAL

record plan_change =
  pc_account_id :: string
  pc_from_tier :: tier
  pc_to_tier :: tier
  pc_kind :: plan_change_kind
  pc_at :: int

text \<open>\<open>Money\<close> is compared as the dataclass orders it.\<close>

definition classify_change :: "plan \<Rightarrow> plan \<Rightarrow> plan_change_kind" where
  "classify_change from_plan to_plan =
     (if base_price from_plan < base_price to_plan then UPGRADE
      else if base_price to_plan < base_price from_plan then DOWNGRADE
      else LATERAL)"

section \<open>The total of an invoice\<close>

lemma fold_invoice_lines:
  "fold_res (\<lambda>ln subtotal. money_add subtotal (il_amount ln)) lns t =
     fold_res (\<lambda>m total. money_add total m) (map il_amount lns) t"
proof (induction lns arbitrary: t)
  case (Cons ln lns)
  then show ?case by (cases "money_add t (il_amount ln)") simp_all
qed simp

text \<open>A plan priced in one currency.\<close>

definition one_currency :: "plan \<Rightarrow> bool" where
  "one_currency p \<longleftrightarrow>
     currency (analyst_minute_rate p) = currency (base_price p) \<and>
     currency (extra_tenant_rate p) = currency (base_price p)"

lemma one_currency_plan_for [simp]: "one_currency (plan_for t)"
  by (cases t) (simp_all add: one_currency_def)

definition invoice_total :: "plan \<Rightarrow> int \<Rightarrow> int \<Rightarrow> int" where
  "invoice_total p minutes tenants =
     minor_units (base_price p) +
     minor_units (analyst_minute_rate p) * max 0 (minutes - included_analyst_minutes p) +
     minor_units (extra_tenant_rate p) * max 0 (tenants - included_tenants p)"

lemma minutes_line_amount:
  assumes "one_currency p"
  obtains ms where "minutes_line p usage = Inr ms"
    "\<forall>m\<in>set (map il_amount ms). currency m = currency (base_price p)"
    "(\<Sum>ln\<leftarrow>ms. minor_units (il_amount ln)) =
       minor_units (analyst_minute_rate p) * max 0 (us_analyst_minutes usage - included_analyst_minutes p)"
proof (cases "0 < us_analyst_minutes usage - included_analyst_minutes p")
  case True
  then show thesis
    using that [of "[\<lparr>il_description = ''Analyst minutes over '' @ str_int (included_analyst_minutes p) @ '' bundled'',
      il_quantity = us_analyst_minutes usage - included_analyst_minutes p, il_unit_amount = analyst_minute_rate p,
      il_amount = Money (minor_units (analyst_minute_rate p) * (us_analyst_minutes usage - included_analyst_minutes p))
        (currency (analyst_minute_rate p))\<rparr>]"] assms
    by (simp add: minutes_line_def scale_by_round one_currency_def Let_def)
next
  case False
  then show thesis using that [of "[]"] by (simp add: minutes_line_def max_def)
qed

lemma tenants_line_amount:
  assumes "one_currency p"
  obtains ts where "tenants_line p n = Inr ts"
    "\<forall>m\<in>set (map il_amount ts). currency m = currency (base_price p)"
    "(\<Sum>ln\<leftarrow>ts. minor_units (il_amount ln)) =
       minor_units (extra_tenant_rate p) * max 0 (n - included_tenants p)"
proof (cases "0 < n - included_tenants p")
  case True
  then show thesis
    using that [of "[\<lparr>il_description = ''Additional businesses over '' @ str_int (included_tenants p) @ '' included'',
      il_quantity = n - included_tenants p, il_unit_amount = extra_tenant_rate p,
      il_amount = Money (minor_units (extra_tenant_rate p) * (n - included_tenants p))
        (currency (extra_tenant_rate p))\<rparr>]"] assms
    by (simp add: tenants_line_def scale_by_round one_currency_def Let_def)
next
  case False
  then show thesis using that [of "[]"] by (simp add: tenants_line_def max_def)
qed

lemma build_invoice_total:
  assumes "one_currency p"
  obtains inv where "build_invoice a p usage tenants = Inr inv"
    "bi_total inv = Money (invoice_total p (us_analyst_minutes usage)
       (case tenants of Some n \<Rightarrow> n | None \<Rightarrow> tenant_count a)) (currency (base_price p))"
    "bi_subtotal inv = bi_total inv" "bi_account_id inv = acc_id a" "bi_period inv = us_period usage"
    "minor_units (bi_total inv) = (\<Sum>ln\<leftarrow>bi_lines inv. minor_units (il_amount ln))"
proof -
  define n where "n = (case tenants of Some n \<Rightarrow> n | None \<Rightarrow> tenant_count a)"
  obtain ms where ms: "minutes_line p usage = Inr ms"
    "\<forall>m\<in>set (map il_amount ms). currency m = currency (base_price p)"
    "(\<Sum>ln\<leftarrow>ms. minor_units (il_amount ln)) =
       minor_units (analyst_minute_rate p) * max 0 (us_analyst_minutes usage - included_analyst_minutes p)"
    by (rule minutes_line_amount [OF assms])
  obtain ts where ts: "tenants_line p n = Inr ts"
    "\<forall>m\<in>set (map il_amount ts). currency m = currency (base_price p)"
    "(\<Sum>ln\<leftarrow>ts. minor_units (il_amount ln)) =
       minor_units (extra_tenant_rate p) * max 0 (n - included_tenants p)"
    by (rule tenants_line_amount [OF assms])
  define base where "base = \<lparr>il_description = pl_name p @ '' plan '' @ em_dash @ '' '' @ acc_name a,
    il_quantity = 1, il_unit_amount = base_price p, il_amount = base_price p\<rparr>"
  have ccy: "\<forall>m\<in>set (map il_amount (base # ms @ ts)). currency m = currency (Money 0 (currency (base_price p)))"
    using ms(2) ts(2) by (auto simp: base_def)
  have tot: "(\<Sum>ln\<leftarrow>base # ms @ ts. minor_units (il_amount ln)) = invoice_total p (us_analyst_minutes usage) n"
    by (simp add: invoice_total_def ms(3) ts(3) base_def)
  have fold: "fold_res (\<lambda>ln subtotal. money_add subtotal (il_amount ln)) (base # ms @ ts) (Money 0 (currency (base_price p))) =
      Inr (Money (invoice_total p (us_analyst_minutes usage) n) (currency (base_price p)))"
    unfolding fold_invoice_lines fold_money_add if_P [OF ccy] map_map comp_def tot by simp
  have "build_invoice a p usage tenants = Inr \<lparr>bi_account_id = acc_id a, bi_period = us_period usage,
      bi_currency = currency (base_price p), bi_lines = base # ms @ ts,
      bi_subtotal = Money (invoice_total p (us_analyst_minutes usage) n) (currency (base_price p)),
      bi_total = Money (invoice_total p (us_analyst_minutes usage) n) (currency (base_price p))\<rparr>"
    unfolding build_invoice_def Let_def n_def [symmetric] ms(1) ts(1) res_bind_simps base_def [symmetric] fold ..
  then show thesis by (rule that) (use tot in \<open>simp_all add: n_def\<close>)
qed

end
