(* ===== verification/Billing_Store.thy ===== *)
theory Billing_Store
  imports Billing_Model
begin

text \<open>
  \<open>packages/billing/src/rgnr8_billing/store.py\<close>: the protocol \<open>AccountStore\<close> as a record of
  operations, its contract as the locale \<open>account_store\<close>, and the in-memory store as the
  model it is interpreted on. Of the SQL store the conversion of an account to a row and back
  is modelled (the statements are the database's); the lemmas say when it is lossless.
\<close>

section \<open>The protocol\<close>

record 's store_ops =
  so_save_account :: "account \<Rightarrow> 's \<Rightarrow> 's"
  so_get_account :: "string \<Rightarrow> 's \<Rightarrow> account option"
  so_find_by_tenant :: "string \<Rightarrow> 's \<Rightarrow> account option"
  so_list_accounts :: "'s \<Rightarrow> account list"
  so_append_usage :: "usage_event \<Rightarrow> 's \<Rightarrow> 's"
  so_usage_for :: "string \<Rightarrow> string \<Rightarrow> 's \<Rightarrow> usage_event list"

locale account_store =
  fixes ops :: "'s store_ops"
    and valid :: "'s \<Rightarrow> bool"
    and accounts :: "'s \<Rightarrow> string \<Rightarrow> account option"
    and usage :: "'s \<Rightarrow> usage_event list"
  assumes valid_save: "valid s \<Longrightarrow> valid (so_save_account ops a s)"
    and accounts_save: "valid s \<Longrightarrow> accounts (so_save_account ops a s) = (accounts s)(acc_id a \<mapsto> a)"
    and usage_save: "valid s \<Longrightarrow> usage (so_save_account ops a s) = usage s"
    and valid_append: "valid s \<Longrightarrow> valid (so_append_usage ops e s)"
    and accounts_append: "valid s \<Longrightarrow> accounts (so_append_usage ops e s) = accounts s"
    and usage_append: "valid s \<Longrightarrow> usage (so_append_usage ops e s) = usage s @ [e]"
    and get_account: "valid s \<Longrightarrow> so_get_account ops i s = accounts s i"
    and usage_for: "valid s \<Longrightarrow>
      so_usage_for ops i p s = filter (\<lambda>e. ue_account_id e = i \<and> ue_period e = p) (usage s)"
    and keyed: "valid s \<Longrightarrow> accounts s i = Some a \<Longrightarrow> acc_id a = i"
begin

lemma get_save:
  "valid s \<Longrightarrow> so_get_account ops i (so_save_account ops a s) = (if i = acc_id a then Some a else so_get_account ops i s)"
  by (simp add: get_account valid_save accounts_save)

lemma get_append: "valid s \<Longrightarrow> so_get_account ops i (so_append_usage ops e s) = so_get_account ops i s"
  by (simp add: get_account valid_append accounts_append)

lemma get_id: "valid s \<Longrightarrow> so_get_account ops i s = Some a \<Longrightarrow> acc_id a = i"
  by (simp add: get_account keyed)

lemma usage_for_save: "valid s \<Longrightarrow> so_usage_for ops i p (so_save_account ops a s) = so_usage_for ops i p s"
  by (simp add: usage_for valid_save usage_save)

lemma usage_for_append:
  "valid s \<Longrightarrow> so_usage_for ops i p (so_append_usage ops e s) =
     so_usage_for ops i p s @ (if ue_account_id e = i \<and> ue_period e = p then [e] else [])"
  by (simp add: usage_for valid_append usage_append)

text \<open>What is saved last is what is read; different accounts do not interfere.\<close>

lemma save_commute:
  "valid s \<Longrightarrow> acc_id a \<noteq> acc_id b \<Longrightarrow>
     so_get_account ops i (so_save_account ops a (so_save_account ops b s)) =
     so_get_account ops i (so_save_account ops b (so_save_account ops a s))"
  by (simp add: get_save valid_save)

end

text \<open>A store that can also find the account of a tenant and list its accounts.\<close>

locale indexed_store = account_store +
  assumes find_Some: "valid s \<Longrightarrow> so_find_by_tenant ops t s = Some a \<Longrightarrow>
      accounts s (acc_id a) = Some a \<and> t \<in> set (tenant_ids a)"
    and find_None: "valid s \<Longrightarrow> so_find_by_tenant ops t s = None \<Longrightarrow> accounts s i = Some a \<Longrightarrow> t \<notin> set (tenant_ids a)"
    and list_sorted: "valid s \<Longrightarrow> sorted (map acc_id (so_list_accounts ops s)) \<and> distinct (map acc_id (so_list_accounts ops s))"
    and list_set: "valid s \<Longrightarrow> a \<in> set (so_list_accounts ops s) \<longleftrightarrow> accounts s (acc_id a) = Some a"
begin

text \<open>When every tenant has one account, looking it up by tenant finds it.\<close>

lemma find_owner:
  assumes "valid s" "accounts s i = Some a" "t \<in> set (tenant_ids a)"
    and "\<And>b. accounts s (acc_id b) = Some b \<Longrightarrow> t \<in> set (tenant_ids b) \<Longrightarrow> b = a"
  shows "so_find_by_tenant ops t s = Some a"
proof (cases "so_find_by_tenant ops t s")
  case None
  with find_None [OF assms(1) None assms(2)] assms(3) show ?thesis by simp
next
  case (Some b)
  with find_Some [OF assms(1) Some] assms(4) show ?thesis by simp
qed

lemma find_in_list: "valid s \<Longrightarrow> so_find_by_tenant ops t s = Some a \<Longrightarrow> a \<in> set (so_list_accounts ops s)"
  using find_Some list_set by blast

end

section \<open>In memory\<close>

record mem_store =
  ms_accounts :: "(string \<times> account) list"
  ms_usage :: "usage_event list"

definition mem_save_account :: "account \<Rightarrow> mem_store \<Rightarrow> mem_store" where
  "mem_save_account a s = s\<lparr>ms_accounts := AList.update (acc_id a) a (ms_accounts s)\<rparr>"

definition mem_get_account :: "string \<Rightarrow> mem_store \<Rightarrow> account option" where
  "mem_get_account i s = map_of (ms_accounts s) i"

definition mem_find_by_tenant :: "string \<Rightarrow> mem_store \<Rightarrow> account option" where
  "mem_find_by_tenant t s = find (\<lambda>a. t \<in> set (tenant_ids a)) (map snd (ms_accounts s))"

definition mem_list_accounts :: "mem_store \<Rightarrow> account list" where
  "mem_list_accounts s = sort_key acc_id (map snd (ms_accounts s))"

definition mem_append_usage :: "usage_event \<Rightarrow> mem_store \<Rightarrow> mem_store" where
  "mem_append_usage e s = s\<lparr>ms_usage := ms_usage s @ [e]\<rparr>"

definition mem_usage_for :: "string \<Rightarrow> string \<Rightarrow> mem_store \<Rightarrow> usage_event list" where
  "mem_usage_for i p s = filter (\<lambda>e. ue_account_id e = i \<and> ue_period e = p) (ms_usage s)"

definition mem_ops :: "mem_store store_ops" where
  "mem_ops = \<lparr>so_save_account = mem_save_account, so_get_account = mem_get_account,
     so_find_by_tenant = mem_find_by_tenant, so_list_accounts = mem_list_accounts,
     so_append_usage = mem_append_usage, so_usage_for = mem_usage_for\<rparr>"

definition mem_empty :: mem_store where
  "mem_empty = \<lparr>ms_accounts = [], ms_usage = []\<rparr>"

definition mem_valid :: "mem_store \<Rightarrow> bool" where
  "mem_valid s \<longleftrightarrow> distinct (map fst (ms_accounts s)) \<and> list_all (\<lambda>(i, a). acc_id a = i) (ms_accounts s)"

lemma mem_valid_empty [simp]: "mem_valid mem_empty"
  by (simp add: mem_valid_def mem_empty_def)

lemma mem_valid_save: "mem_valid s \<Longrightarrow> mem_valid (mem_save_account a s)"
proof -
  have "list_all (\<lambda>(i, a). acc_id a = i) al \<Longrightarrow> list_all (\<lambda>(i, a). acc_id a = i) (AList.update (acc_id a) a al)" for al
    by (induction al) auto
  then show "mem_valid s \<Longrightarrow> mem_valid (mem_save_account a s)"
    by (simp add: mem_valid_def mem_save_account_def distinct_update)
qed

lemma mem_valid_lookup: "mem_valid s \<Longrightarrow> (i, a) \<in> set (ms_accounts s) \<longleftrightarrow> acc_id a = i \<and> map_of (ms_accounts s) i = Some a"
  by (auto simp: mem_valid_def list_all_iff dest: map_of_SomeD)

lemma mem_values: "mem_valid s \<Longrightarrow> a \<in> set (map snd (ms_accounts s)) \<longleftrightarrow> map_of (ms_accounts s) (acc_id a) = Some a"
proof -
  assume v: "mem_valid s"
  have "a \<in> set (map snd (ms_accounts s)) \<longleftrightarrow> (\<exists>i. (i, a) \<in> set (ms_accounts s))" by force
  then show ?thesis unfolding mem_valid_lookup [OF v] by blast
qed

lemma mem_ids: "mem_valid s \<Longrightarrow> map acc_id (map snd (ms_accounts s)) = map fst (ms_accounts s)"
  by (auto simp: mem_valid_def list_all_iff)

interpretation mem: indexed_store mem_ops mem_valid "\<lambda>s. map_of (ms_accounts s)" ms_usage
proof
  fix s :: mem_store and a e i p t
  assume v: "mem_valid s"
  show "mem_valid (so_save_account mem_ops a s)" using v by (simp add: mem_ops_def mem_valid_save)
  show "map_of (ms_accounts (so_save_account mem_ops a s)) = (map_of (ms_accounts s))(acc_id a \<mapsto> a)"
    by (simp add: mem_ops_def mem_save_account_def update_conv')
  show "ms_usage (so_save_account mem_ops a s) = ms_usage s"
    "mem_valid (so_append_usage mem_ops e s)"
    "map_of (ms_accounts (so_append_usage mem_ops e s)) = map_of (ms_accounts s)"
    "ms_usage (so_append_usage mem_ops e s) = ms_usage s @ [e]"
    "so_get_account mem_ops i s = map_of (ms_accounts s) i"
    "so_usage_for mem_ops i p s = filter (\<lambda>e. ue_account_id e = i \<and> ue_period e = p) (ms_usage s)"
    using v by (simp_all add: mem_ops_def mem_save_account_def mem_append_usage_def mem_get_account_def
        mem_usage_for_def mem_valid_def)
  show "map_of (ms_accounts s) i = Some a \<Longrightarrow> acc_id a = i"
    using v by (auto simp: mem_valid_def list_all_iff dest: map_of_SomeD)
  show "so_find_by_tenant mem_ops t s = Some a \<Longrightarrow> map_of (ms_accounts s) (acc_id a) = Some a \<and> t \<in> set (tenant_ids a)"
    using mem_values [OF v] by (auto simp: mem_ops_def mem_find_by_tenant_def dest!: find_SomeD)
  show "so_find_by_tenant mem_ops t s = None \<Longrightarrow> map_of (ms_accounts s) i = Some a \<Longrightarrow> t \<notin> set (tenant_ids a)"
    by (auto simp: mem_ops_def mem_find_by_tenant_def find_None_iff dest!: map_of_SomeD)
  have "distinct (map acc_id (map snd (ms_accounts s)))" unfolding mem_ids [OF v] using v by (simp add: mem_valid_def)
  moreover have "mset (map acc_id (mem_list_accounts s)) = mset (map acc_id (map snd (ms_accounts s)))"
    by (simp only: mset_map mset_sort mem_list_accounts_def)
  ultimately have "distinct (map acc_id (mem_list_accounts s))" by (metis mset_eq_imp_distinct_iff)
  then show "sorted (map acc_id (so_list_accounts mem_ops s)) \<and> distinct (map acc_id (so_list_accounts mem_ops s))"
    by (simp add: mem_ops_def mem_list_accounts_def)
  show "a \<in> set (so_list_accounts mem_ops s) \<longleftrightarrow> map_of (ms_accounts s) (acc_id a) = Some a"
    using mem_values [OF v] by (simp add: mem_ops_def mem_list_accounts_def)
qed

section \<open>Rows of the SQL store\<close>

text \<open>\<open>sep.join(xs)\<close> and \<open>s.split(sep)\<close> of a one-character separator.\<close>

fun join :: "char \<Rightarrow> string list \<Rightarrow> string" where
  "join c [] = []"
| "join c [x] = x"
| "join c (x # y # xs) = x @ c # join c (y # xs)"

fun split_on :: "char \<Rightarrow> string \<Rightarrow> string list" where
  "split_on c [] = [[]]"
| "split_on c (x # xs) =
     (if x = c then [] # split_on c xs
      else case split_on c xs of [] \<Rightarrow> [[x]] | y # ys \<Rightarrow> (x # y) # ys)"

record account_row =
  row_id :: string
  row_name :: string
  row_billing_email :: string
  row_tier :: string
  row_status :: string
  row_tenant_ids :: string
  row_seats_used :: int
  row_customer :: "string option"
  row_subscription :: "string option"
  row_trial_end :: "int option"
  row_created_at :: int

definition account_to_row :: "account \<Rightarrow> account_row" where
  "account_to_row a =
     \<lparr>row_id = acc_id a, row_name = acc_name a, row_billing_email = billing_email a,
      row_tier = tier_value (acc_tier a), row_status = status_value (acc_status a),
      row_tenant_ids = join CHR '','' (tenant_ids a), row_seats_used = seats_used a,
      row_customer = stripe_customer_id a, row_subscription = stripe_subscription_id a,
      row_trial_end = trial_end a, row_created_at = created_at a\<rparr>"

definition row_to_account :: "account_row \<Rightarrow> account res" where
  "row_to_account r =
     (let tenants = filter (\<lambda>t. t \<noteq> []) (split_on CHR '','' (row_tenant_ids r))
      in res_bind (tier_of (row_tier r)) (\<lambda>tr.
         res_bind (status_of (row_status r)) (\<lambda>st.
           Inr \<lparr>acc_id = row_id r, acc_name = row_name r, billing_email = row_billing_email r,
                acc_tier = tr, acc_status = st, tenant_ids = tenants, seats_used = row_seats_used r,
                stripe_customer_id = row_customer r, stripe_subscription_id = row_subscription r,
                trial_end = row_trial_end r, created_at = row_created_at r\<rparr>)))"

lemma split_on_not_Nil [simp]: "split_on c s \<noteq> []"
  by (induction s) (auto split: list.splits)

lemma split_on_append: "c \<notin> set x \<Longrightarrow> split_on c (x @ c # s) = x # split_on c s"
  by (induction x) auto

lemma split_on_one: "c \<notin> set x \<Longrightarrow> split_on c x = [x]"
  by (induction x) auto

lemma split_join:
  "(\<And>x. x \<in> set xs \<Longrightarrow> c \<notin> set x) \<Longrightarrow> split_on c (join c xs) = (if xs = [] then [[]] else xs)"
  by (induction c xs rule: join.induct) (simp_all add: split_on_append split_on_one)

lemma tier_of_value [simp]: "tier_of (tier_value t) = Inr t"
  by (cases t) (simp_all add: tier_of_def)

lemma status_of_value [simp]: "status_of (status_value t) = Inr t"
  by (cases t) (simp_all add: status_of_def)

definition clean_tenants :: "account \<Rightarrow> bool" where
  "clean_tenants a = list_all (\<lambda>t. t \<noteq> [] \<and> CHR '','' \<notin> set t) (tenant_ids a)"

lemma row_round_trip:
  assumes "clean_tenants a" shows "row_to_account (account_to_row a) = Inr a"
proof -
  have "filter (\<lambda>t. t \<noteq> []) (split_on CHR '','' (join CHR '','' (tenant_ids a))) = tenant_ids a"
    using assms by (subst split_join) (auto simp: clean_tenants_def list_all_iff intro!: filter_True)
  then show ?thesis
    by (simp add: row_to_account_def account_to_row_def)
qed

section \<open>Properties\<close>

text \<open>An account written to its SQL row and read back is unchanged, provided that no tenant id is
  empty or contains a comma.\<close>

theorem account_row_round_trip:
  assumes "clean_tenants a"
  shows "row_to_account (account_to_row a) = Inr a"
  using assms by (rule row_round_trip)

definition example_row_account :: "string list \<Rightarrow> account" where
  "example_row_account ts = \<lparr>acc_id = ''a1'', acc_name = ''Acme'', billing_email = ''o'', acc_tier = ASSISTED,
     acc_status = ACTIVE, tenant_ids = ts, seats_used = 2, stripe_customer_id = None,
     stripe_subscription_id = None, trial_end = None, created_at = 0\<rparr>"

theorem account_row_round_trip_witness:
  "row_to_account (account_to_row (example_row_account [''t1'', ''t2''])) = Inr (example_row_account [''t1'', ''t2''])"
  by (rule account_row_round_trip) (simp add: clean_tenants_def example_row_account_def)

text \<open>A tenant id with a comma comes back as two.\<close>

lemma comma_tenant_splits:
  "\<exists>a. row_to_account (account_to_row (example_row_account [''t1,t2''])) = Inr a \<and> tenant_ids a = [''t1'', ''t2'']"
  by (simp add: row_to_account_def account_to_row_def example_row_account_def tier_of_def status_of_def)

end
