(* ===== verification/Billing_Provider.thy ===== *)
theory Billing_Provider
  imports Billing_Model
begin

text \<open>
  \<open>packages/billing/src/rgnr8_billing/provider.py\<close>: the protocols \<open>BillingProvider\<close> and
  \<open>BillingPortalProvider\<close> as a record of methods on the state of the provider, the recording
  fakes, and the request construction of the Stripe providers over an HTTP client. The client
  itself (\<open>post_form\<close>) and \<open>json.loads\<close> are arguments of the Stripe definitions.

  The contract the service relies on is the locale \<open>finalizing_provider\<close>: finalizing an invoice
  records it, and nothing else does. The fake provider interprets it.
\<close>

section \<open>The protocol\<close>

record 'w provider_ops =
  po_ensure_customer :: "account \<Rightarrow> ('w, string) meth"
  po_ensure_subscription :: "account \<Rightarrow> plan \<Rightarrow> ('w, string) meth"
  po_report_usage :: "account \<Rightarrow> usage_kind \<Rightarrow> int \<Rightarrow> int \<Rightarrow> ('w, unit) meth"
  po_finalize_invoice :: "billing_invoice \<Rightarrow> ('w, string) meth"
  po_cancel_subscription :: "account \<Rightarrow> bool \<Rightarrow> ('w, unit) meth"

text \<open>Python's \<open>a or b\<close> on an optional string.\<close>

definition or_else :: "string option \<Rightarrow> string \<Rightarrow> string" where
  "or_else s d = (case s of Some x \<Rightarrow> if x = [] then d else x | None \<Rightarrow> d)"

section \<open>The fakes\<close>

record fake_provider =
  fp_customers :: "(string \<times> string) list"
  fp_subscriptions :: "(string \<times> string) list"
  fp_usage :: "(string \<times> usage_kind \<times> int \<times> int) list"
  fp_invoices :: "string list"
  fp_canceled :: "(string \<times> bool) list"

definition fake_empty :: fake_provider where
  "fake_empty = \<lparr>fp_customers = [], fp_subscriptions = [], fp_usage = [], fp_invoices = [], fp_canceled = []\<rparr>"

definition fake_ensure_customer :: "account \<Rightarrow> (fake_provider, string) meth" where
  "fake_ensure_customer a =
     (let cid = or_else (stripe_customer_id a) (''cus_fake_'' @ acc_id a)
      in seqm (modify (\<lambda>w. w\<lparr>fp_customers := AList.update (acc_id a) cid (fp_customers w)\<rparr>)) (ret cid))"

definition fake_ensure_subscription :: "account \<Rightarrow> plan \<Rightarrow> (fake_provider, string) meth" where
  "fake_ensure_subscription a p =
     (let sid = or_else (stripe_subscription_id a) (''sub_fake_'' @ acc_id a @ ''_'' @ tier_value (pl_tier p))
      in seqm (modify (\<lambda>w. w\<lparr>fp_subscriptions := AList.update (acc_id a) sid (fp_subscriptions w)\<rparr>)) (ret sid))"

definition fake_report_usage :: "account \<Rightarrow> usage_kind \<Rightarrow> int \<Rightarrow> int \<Rightarrow> (fake_provider, unit) meth" where
  "fake_report_usage a k q t = modify (\<lambda>w. w\<lparr>fp_usage := fp_usage w @ [(acc_id a, k, q, t)]\<rparr>)"

definition fake_invoice_id :: "string \<times> string \<Rightarrow> string" where
  "fake_invoice_id ap = ''in_fake_'' @ fst ap @ ''_'' @ snd ap"

definition fake_finalize_invoice :: "billing_invoice \<Rightarrow> (fake_provider, string) meth" where
  "fake_finalize_invoice i =
     (let iid = fake_invoice_id (bi_account_id i, bi_period i)
      in seqm (modify (\<lambda>w. w\<lparr>fp_invoices := fp_invoices w @ [iid]\<rparr>)) (ret iid))"

definition fake_cancel_subscription :: "account \<Rightarrow> bool \<Rightarrow> (fake_provider, unit) meth" where
  "fake_cancel_subscription a at_end = modify (\<lambda>w. w\<lparr>fp_canceled := fp_canceled w @ [(acc_id a, at_end)]\<rparr>)"

definition fake_ops :: "fake_provider provider_ops" where
  "fake_ops = \<lparr>po_ensure_customer = fake_ensure_customer, po_ensure_subscription = fake_ensure_subscription,
     po_report_usage = fake_report_usage, po_finalize_invoice = fake_finalize_invoice,
     po_cancel_subscription = fake_cancel_subscription\<rparr>"

record fake_portal =
  fpo_calls :: "(string \<times> string) list"
  fpo_base_url :: string

definition fake_portal_session :: "account \<Rightarrow> string \<Rightarrow> (fake_portal, string) meth" where
  "fake_portal_session a return_url =
     (let customer = or_else (stripe_customer_id a) (''cus_fake_'' @ acc_id a)
      in seqm (modify (\<lambda>w. w\<lparr>fpo_calls := fpo_calls w @ [(customer, return_url)]\<rparr>))
           (gets (\<lambda>w. fpo_base_url w @ ''/'' @ customer)))"

section \<open>JSON values\<close>

text \<open>What \<open>json.loads\<close> returns, as far as the code looks into it.\<close>

datatype json = JNull | JBool bool | JNum int | JStr string | JArr "json list" | JObj "(string \<times> json) list"

definition json_get :: "json \<Rightarrow> string \<Rightarrow> json option" where
  "json_get j k = (case j of JObj m \<Rightarrow> map_of m k | _ \<Rightarrow> None)"

definition json_str :: "json option \<Rightarrow> string option" where
  "json_str j = (case j of Some (JStr s) \<Rightarrow> Some s | _ \<Rightarrow> None)"

section \<open>Stripe\<close>

type_synonym form = "(string \<times> string) list"

text \<open>\<open>post_form(url, data, headers)\<close> of the client: a status and a body.\<close>

type_synonym 'w http = "string \<Rightarrow> form \<Rightarrow> form \<Rightarrow> ('w, int \<times> string) meth"

record stripe_config =
  st_key :: string
  st_price_ids :: "(string \<times> string) list"
  st_usage_items :: "(string \<times> string) list"

definition stripe_api :: string where
  "stripe_api = ''https://api.stripe.com/v1''"

definition stripe_headers :: "stripe_config \<Rightarrow> form" where
  "stripe_headers c =
     [(''Authorization'', ''Bearer '' @ st_key c),
      (''Content-Type'', ''application/x-www-form-urlencoded'')]"

definition stripe_post :: "'w http \<Rightarrow> stripe_config \<Rightarrow> string \<Rightarrow> form \<Rightarrow> ('w, int \<times> string) meth" where
  "stripe_post post c path data =
     bind (post (stripe_api @ ''/'' @ path) data (stripe_headers c)) (\<lambda>resp.
       seqm (raise_if (\<not> (200 \<le> fst resp \<and> fst resp < 300)) RuntimeError) (ret resp))"

definition nonempty :: "string option \<Rightarrow> bool" where
  "nonempty s = (s \<noteq> None \<and> s \<noteq> Some [])"

definition dict_get_str :: "(string \<times> string) list \<Rightarrow> string \<Rightarrow> string" where
  "dict_get_str d k = (case map_of d k of Some v \<Rightarrow> v | None \<Rightarrow> [])"

definition stripe_ensure_customer :: "'w http \<Rightarrow> stripe_config \<Rightarrow> account \<Rightarrow> ('w, string) meth" where
  "stripe_ensure_customer post c a =
     (if nonempty (stripe_customer_id a) then ret (the (stripe_customer_id a))
      else seqm (stripe_post post c ''customers''
                   [(''name'', acc_name a), (''email'', billing_email a), (''metadata[account_id]'', acc_id a)])
             (ret (''cus_pending_'' @ acc_id a)))"

definition stripe_ensure_subscription :: "'w http \<Rightarrow> stripe_config \<Rightarrow> account \<Rightarrow> plan \<Rightarrow> ('w, string) meth" where
  "stripe_ensure_subscription post c a p =
     (if nonempty (stripe_subscription_id a) then ret (the (stripe_subscription_id a))
      else seqm (stripe_post post c ''subscriptions''
                   [(''customer'', or_else (stripe_customer_id a) []),
                    (''items[0][price]'', dict_get_str (st_price_ids c) (tier_value (pl_tier p))),
                    (''metadata[account_id]'', acc_id a)])
             (ret (''sub_pending_'' @ acc_id a)))"

definition stripe_report_usage ::
  "'w http \<Rightarrow> stripe_config \<Rightarrow> account \<Rightarrow> usage_kind \<Rightarrow> int \<Rightarrow> int \<Rightarrow> ('w, unit) meth" where
  "stripe_report_usage post c a k q t =
     (if k \<noteq> ANALYST_MINUTES then ret ()
      else
        let item = dict_get_str (st_usage_items c) (acc_id a)
        in if item = [] then ret ()
           else seqm (stripe_post post c (''subscription_items/'' @ item @ ''/usage_records'')
                        [(''quantity'', str_int q), (''timestamp'', str_int t), (''action'', ''increment'')])
                  (ret ()))"

definition stripe_finalize_invoice :: "billing_invoice \<Rightarrow> ('w, string) meth" where
  "stripe_finalize_invoice i = ret (''in_pending_'' @ bi_account_id i @ ''_'' @ bi_period i)"

definition stripe_cancel_subscription :: "'w http \<Rightarrow> stripe_config \<Rightarrow> account \<Rightarrow> bool \<Rightarrow> ('w, unit) meth" where
  "stripe_cancel_subscription post c a at_end =
     (if \<not> nonempty (stripe_subscription_id a) then ret ()
      else seqm (stripe_post post c (''subscriptions/'' @ the (stripe_subscription_id a))
                   [(''cancel_at_period_end'', if at_end then ''true'' else ''false'')])
             (ret ()))"

definition stripe_ops :: "'w http \<Rightarrow> stripe_config \<Rightarrow> 'w provider_ops" where
  "stripe_ops post c = \<lparr>po_ensure_customer = stripe_ensure_customer post c,
     po_ensure_subscription = stripe_ensure_subscription post c,
     po_report_usage = stripe_report_usage post c, po_finalize_invoice = stripe_finalize_invoice,
     po_cancel_subscription = stripe_cancel_subscription post c\<rparr>"

definition read_portal_url :: "(string \<Rightarrow> json option) \<Rightarrow> string \<Rightarrow> account \<Rightarrow> string" where
  "read_portal_url loads body a =
     (let url = (case loads body of Some j \<Rightarrow> json_str (json_get j ''url'') | None \<Rightarrow> None)
      in if nonempty url then the url
         else ''https://billing.stripe.com/p/session/'' @
              or_else (stripe_customer_id a) (''cus_pending_'' @ acc_id a))"

definition stripe_portal_session ::
  "'w http \<Rightarrow> (string \<Rightarrow> json option) \<Rightarrow> stripe_config \<Rightarrow> account \<Rightarrow> string \<Rightarrow> ('w, string) meth" where
  "stripe_portal_session post loads c a return_url =
     bind (stripe_post post c ''billing_portal/sessions''
             [(''customer'', or_else (stripe_customer_id a) []), (''return_url'', return_url)])
       (\<lambda>resp. ret (read_portal_url loads (snd resp) a))"

section \<open>The contract\<close>

text \<open>\<open>finalized w\<close> lists the invoices finalized so far, by account and period.\<close>

locale finalizing_provider =
  fixes pops :: "'w provider_ops" and finalized :: "'w \<Rightarrow> string list" and label :: "string \<times> string \<Rightarrow> string"
  assumes finalize_ok: "po_finalize_invoice pops i w = (Inr x, w') \<Longrightarrow>
      finalized w' = finalized w @ [label (bi_account_id i, bi_period i)]"
    and finalize_fails: "po_finalize_invoice pops i w = (Inl e, w') \<Longrightarrow> finalized w' = finalized w"
    and customer_quiet: "finalized (snd (po_ensure_customer pops a w)) = finalized w"
    and subscription_quiet: "finalized (snd (po_ensure_subscription pops a p w)) = finalized w"
    and report_quiet: "finalized (snd (po_report_usage pops a k q t w)) = finalized w"
    and cancel_quiet: "finalized (snd (po_cancel_subscription pops a b w)) = finalized w"
begin

text \<open>Every method but \<open>finalize_invoice\<close> keeps any property of the finalized invoices.\<close>

lemma keeps_finalized:
  "keeps (\<lambda>w. P (finalized w)) (po_ensure_customer pops a)"
  "keeps (\<lambda>w. P (finalized w)) (po_ensure_subscription pops a p)"
  "keeps (\<lambda>w. P (finalized w)) (po_report_usage pops a k q t)"
  "keeps (\<lambda>w. P (finalized w)) (po_cancel_subscription pops a b)"
  by (simp_all add: keeps_def customer_quiet subscription_quiet report_quiet cancel_quiet)

lemma finalize_grows: "length (finalized w) \<le> length (finalized (snd (po_finalize_invoice pops i w)))"
  by (cases "po_finalize_invoice pops i w"; cases "fst (po_finalize_invoice pops i w)")
    (auto dest: finalize_ok finalize_fails)

end

lemmas fake_defs =
  fake_ops_def fake_ensure_customer_def fake_ensure_subscription_def fake_report_usage_def
  fake_finalize_invoice_def fake_cancel_subscription_def

interpretation fake: finalizing_provider fake_ops fp_invoices fake_invoice_id
  by unfold_locales (auto simp: fake_defs Let_def)

lemma fake_never_raises:
  "\<exists>x w'. po_ensure_customer fake_ops a w = (Inr x, w')"
  "\<exists>x w'. po_ensure_subscription fake_ops a p w = (Inr x, w')"
  "\<exists>w'. po_report_usage fake_ops a k q t w = (Inr (), w')"
  "\<exists>x w'. po_finalize_invoice fake_ops i w = (Inr x, w')"
  "\<exists>w'. po_cancel_subscription fake_ops a b w = (Inr (), w')"
  by (simp_all add: fake_defs Let_def)

text \<open>Stripe's identifiers are stable: an account that has one is not registered again.\<close>

lemma stripe_customer_stable:
  "nonempty (stripe_customer_id a) \<Longrightarrow>
     po_ensure_customer (stripe_ops post c) a w = (Inr (the (stripe_customer_id a)), w)"
  by (simp add: stripe_ops_def stripe_ensure_customer_def)

lemma stripe_subscription_stable:
  "nonempty (stripe_subscription_id a) \<Longrightarrow>
     po_ensure_subscription (stripe_ops post c) a p w = (Inr (the (stripe_subscription_id a)), w)"
  by (simp add: stripe_ops_def stripe_ensure_subscription_def)

end
