(* ===== verification/Billing_Service.thy ===== *)
theory Billing_Service
  imports Billing_Store Billing_Provider
begin

text \<open>
  \<open>packages/billing/src/rgnr8_billing/service.py\<close>: \<open>BillingService\<close>, over any account store and
  any provider. Its state is the store, the provider and the three collections it keeps; an
  operation is a method of that state. The injected clock is read at most once by each
  operation, so its value is the argument \<open>now\<close>. The injected \<open>on_plan_change\<close> is an argument as
  well, a method of the provider's state.

  \<open>billing_op\<close> names the operations that change state, \<open>billing_step\<close> is one call of any of
  them, whether it returns or raises, and \<open>billing_reachable\<close> what a service can become. The
  lemmas are proved for every store and provider that keep their contracts, in the locale
  \<open>billing_service\<close>.
\<close>

section \<open>State\<close>

record ('s, 'w) billing =
  bl_store :: 's
  bl_provider :: 'w
  bl_closed :: "(string \<times> string) list" \<comment> \<open>a set in the code\<close>
  bl_plan_changes :: "plan_change list"
  bl_grace_start :: "string \<Rightarrow> int option"

record ('s, 'w) billing_env =
  be_store :: "'s store_ops"
  be_provider :: "'w provider_ops"
  be_portal :: "(account \<Rightarrow> string \<Rightarrow> ('w, string) meth) option"
  be_on_plan_change :: "(plan_change \<Rightarrow> ('w, unit) meth) option"
  be_grace_days :: int

definition billing_init :: "'s \<Rightarrow> 'w \<Rightarrow> ('s, 'w) billing" where
  "billing_init st w = \<lparr>bl_store = st, bl_provider = w, bl_closed = [], bl_plan_changes = [],
     bl_grace_start = Map.empty\<rparr>"

text \<open>A call of the provider, and \<open>save_account\<close>.\<close>

definition on_provider :: "('w, 'a) meth \<Rightarrow> (('s, 'w) billing, 'a) meth" where
  "on_provider m b = (case m (bl_provider b) of (r, w) \<Rightarrow> (r, b\<lparr>bl_provider := w\<rparr>))"

definition save :: "('s, 'w) billing_env \<Rightarrow> account \<Rightarrow> (('s, 'w) billing, unit) meth" where
  "save env a = modify (\<lambda>b. b\<lparr>bl_store := so_save_account (be_store env) a (bl_store b)\<rparr>)"

definition day_seconds :: int where
  "day_seconds = 86400"

section \<open>Lookups\<close>

definition get_acct :: "('s, 'w) billing_env \<Rightarrow> string \<Rightarrow> ('s, 'w) billing \<Rightarrow> account option" where
  "get_acct env i b = so_get_account (be_store env) i (bl_store b)"

definition require :: "('s, 'w) billing_env \<Rightarrow> string \<Rightarrow> (('s, 'w) billing, account) meth" where
  "require env i b = (case get_acct env i b of None \<Rightarrow> (Inl BillingError, b) | Some a \<Rightarrow> (Inr a, b))"

definition require_live :: "account \<Rightarrow> (('s, 'w) billing, account) meth" where
  "require_live a = seqm (raise_if (acc_status a = CANCELED \<or> acc_status a = PAUSED) BillingError) (ret a)"

section \<open>Lifecycle\<close>

definition create_account ::
  "('s, 'w) billing_env \<Rightarrow> int \<Rightarrow> string \<Rightarrow> string \<Rightarrow> string \<Rightarrow> tier \<Rightarrow> int \<Rightarrow> (('s, 'w) billing, account) meth" where
  "create_account env now i name email t trial_days =
     (let a = \<lparr>acc_id = i, acc_name = name, billing_email = email, acc_tier = t, acc_status = TRIALING,
            tenant_ids = [], seats_used = 0, stripe_customer_id = None, stripe_subscription_id = None,
            trial_end = (if 0 < trial_days then Some (now + trial_days * day_seconds) else None),
            created_at = now\<rparr>
      in bind (on_provider (po_ensure_customer (be_provider env) a)) (\<lambda>cid.
         let a = with_billing_refs (Some cid) None a in seqm (save env a) (ret a)))"

definition activate :: "('s, 'w) billing_env \<Rightarrow> string \<Rightarrow> (('s, 'w) billing, account) meth" where
  "activate env i =
     bind (require env i) (\<lambda>a.
     bind (on_provider (po_ensure_subscription (be_provider env) a (plan_for (acc_tier a)))) (\<lambda>sid.
       let a = with_account_status ACTIVE (with_billing_refs None (Some sid) a)
       in seqm (save env a) (ret a)))"

definition set_status :: "('s, 'w) billing_env \<Rightarrow> string \<Rightarrow> account_status \<Rightarrow> (('s, 'w) billing, account) meth" where
  "set_status env i st =
     bind (require env i) (\<lambda>a. let a = with_account_status st a in seqm (save env a) (ret a))"

definition record_billing_refs ::
  "('s, 'w) billing_env \<Rightarrow> string \<Rightarrow> string option \<Rightarrow> string option \<Rightarrow> (('s, 'w) billing, account) meth" where
  "record_billing_refs env i customer subscription =
     bind (require env i) (\<lambda>a. let a = with_billing_refs customer subscription a in seqm (save env a) (ret a))"

definition change_tier :: "('s, 'w) billing_env \<Rightarrow> string \<Rightarrow> tier \<Rightarrow> (('s, 'w) billing, account) meth" where
  "change_tier env i t =
     bind (require env i) (\<lambda>a.
       let a = a\<lparr>acc_tier := t\<rparr>
       in seqm (on_provider (po_ensure_subscription (be_provider env) a (plan_for t)))
         (seqm (save env a) (ret a)))"

section \<open>Self-serve plan changes\<close>

definition downgrade_strands :: "account \<Rightarrow> plan \<Rightarrow> bool" where
  "downgrade_strands a p =
     ((\<not> plan_has p MULTI_TENANT \<and> included_tenants p < tenant_count a) \<or> included_seats p < seats_used a)"

definition change_plan ::
  "('s, 'w) billing_env \<Rightarrow> int \<Rightarrow> string \<Rightarrow> tier \<Rightarrow> (('s, 'w) billing, account) meth" where
  "change_plan env now i new_tier =
     bind (require env i) (\<lambda>a. bind (require_live a) (\<lambda>a.
       let old_tier = acc_tier a;
           new_plan = plan_for new_tier;
           kind = classify_change (plan_for old_tier) new_plan
       in seqm (raise_if (kind = DOWNGRADE \<and> downgrade_strands a new_plan) EntitlementError)
         (let a = a\<lparr>acc_tier := new_tier\<rparr>
          in seqm (on_provider (po_ensure_subscription (be_provider env) a new_plan))
            (seqm (save env a)
              (let change = \<lparr>pc_account_id = i, pc_from_tier = old_tier, pc_to_tier = new_tier,
                     pc_kind = kind, pc_at = now\<rparr>
               in seqm (modify (\<lambda>b. b\<lparr>bl_plan_changes := bl_plan_changes b @ [change]\<rparr>))
                 (seqm (case be_on_plan_change env of None \<Rightarrow> ret () | Some f \<Rightarrow> on_provider (f change))
                   (ret a)))))))"

definition cancel :: "('s, 'w) billing_env \<Rightarrow> int \<Rightarrow> string \<Rightarrow> bool \<Rightarrow> (('s, 'w) billing, account) meth" where
  "cancel env now i at_period_end =
     bind (require env i) (\<lambda>a.
       seqm (on_provider (po_cancel_subscription (be_provider env) a at_period_end))
         (let a = with_account_status CANCELED a
          in seqm (save env a)
            (seqm (modify (\<lambda>b. b\<lparr>bl_grace_start := (bl_grace_start b)(i \<mapsto> now)\<rparr>)) (ret a))))"

definition pause :: "('s, 'w) billing_env \<Rightarrow> int \<Rightarrow> string \<Rightarrow> (('s, 'w) billing, account) meth" where
  "pause env now i =
     bind (require env i) (\<lambda>a.
       let a = with_account_status PAUSED a
       in seqm (save env a)
         (seqm (modify (\<lambda>b. b\<lparr>bl_grace_start := (bl_grace_start b)(i \<mapsto> now)\<rparr>)) (ret a)))"

definition revive :: "('s, 'w) billing_env \<Rightarrow> account \<Rightarrow> (('s, 'w) billing, account) meth" where
  "revive env a =
     seqm (on_provider (po_ensure_subscription (be_provider env) a (plan_for (acc_tier a))))
       (let a = with_account_status ACTIVE a
        in seqm (save env a)
          (seqm (modify (\<lambda>b. b\<lparr>bl_grace_start := (bl_grace_start b)(acc_id a := None)\<rparr>)) (ret a)))"

definition resume :: "('s, 'w) billing_env \<Rightarrow> string \<Rightarrow> (('s, 'w) billing, account) meth" where
  "resume env i =
     bind (require env i) (\<lambda>a.
       seqm (raise_if (acc_status a \<noteq> PAUSED) BillingError) (revive env a))"

definition grace_over :: "('s, 'w) billing_env \<Rightarrow> int \<Rightarrow> string \<Rightarrow> ('s, 'w) billing \<Rightarrow> bool" where
  "grace_over env now i b =
     (case bl_grace_start b i of None \<Rightarrow> False | Some start \<Rightarrow> be_grace_days env * day_seconds < now - start)"

definition reactivate :: "('s, 'w) billing_env \<Rightarrow> int \<Rightarrow> string \<Rightarrow> (('s, 'w) billing, account) meth" where
  "reactivate env now i =
     bind (require env i) (\<lambda>a.
       seqm (raise_if (acc_status a \<noteq> CANCELED \<and> acc_status a \<noteq> PAUSED) BillingError)
         (bind (gets (grace_over env now i)) (\<lambda>over.
           seqm (raise_if over BillingError) (revive env a))))"

definition plan_changes :: "string \<Rightarrow> ('s, 'w) billing \<Rightarrow> plan_change list" where
  "plan_changes i b = filter (\<lambda>c. pc_account_id c = i) (bl_plan_changes b)"

definition create_portal_session ::
  "('s, 'w) billing_env \<Rightarrow> string \<Rightarrow> string \<Rightarrow> (('s, 'w) billing, string) meth" where
  "create_portal_session env i return_url =
     (case be_portal env of
        None \<Rightarrow> raise BillingError
      | Some portal \<Rightarrow> bind (require env i) (\<lambda>a. on_provider (portal a return_url)))"

section \<open>Tenancy\<close>

definition attach_tenant :: "('s, 'w) billing_env \<Rightarrow> string \<Rightarrow> string \<Rightarrow> (('s, 'w) billing, account) meth" where
  "attach_tenant env i t =
     bind (require env i) (\<lambda>a. bind (require_live a) (\<lambda>a.
       seqm (raise_if (t \<notin> set (tenant_ids a) \<and> \<not> can_add_tenant a) EntitlementError)
         (let a = with_tenant t a in seqm (save env a) (ret a))))"

definition detach_tenant :: "('s, 'w) billing_env \<Rightarrow> string \<Rightarrow> string \<Rightarrow> (('s, 'w) billing, account) meth" where
  "detach_tenant env i t =
     bind (require env i) (\<lambda>a. let a = without_tenant t a in seqm (save env a) (ret a))"

section \<open>Metering and invoicing\<close>

definition record_usage ::
  "('s, 'w) billing_env \<Rightarrow> int \<Rightarrow> string \<Rightarrow> usage_kind \<Rightarrow> int \<Rightarrow> string \<Rightarrow> string \<Rightarrow> string
     \<Rightarrow> (('s, 'w) billing, usage_event) meth" where
  "record_usage env now i k quantity period tenant_id note =
     bind (require env i) (\<lambda>a. bind (require_live a) (\<lambda>a.
       let e = \<lparr>ue_account_id = acc_id a, ue_kind = k, ue_quantity = quantity, ue_period = period,
              ue_tenant_id = tenant_id, ue_at = now, ue_note = note\<rparr>
       in seqm (modify (\<lambda>b. b\<lparr>bl_store := so_append_usage (be_store env) e (bl_store b)\<rparr>))
         (seqm (on_provider (po_report_usage (be_provider env) a k quantity (ue_at e))) (ret e))))"

definition record_analyst_minutes ::
  "('s, 'w) billing_env \<Rightarrow> int \<Rightarrow> string \<Rightarrow> int \<Rightarrow> string \<Rightarrow> string \<Rightarrow> string
     \<Rightarrow> (('s, 'w) billing, usage_event) meth" where
  "record_analyst_minutes env now i minutes period tenant_id note =
     record_usage env now i ANALYST_MINUTES minutes period tenant_id note"

definition usage_summary_for ::
  "('s, 'w) billing_env \<Rightarrow> string \<Rightarrow> string \<Rightarrow> ('s, 'w) billing \<Rightarrow> usage_summary" where
  "usage_summary_for env i period b = summarize i period (so_usage_for (be_store env) i period (bl_store b))"

definition close_period ::
  "('s, 'w) billing_env \<Rightarrow> string \<Rightarrow> string \<Rightarrow> (('s, 'w) billing, billing_invoice) meth" where
  "close_period env i period =
     bind (require env i) (\<lambda>a.
     bind (gets (usage_summary_for env i period)) (\<lambda>summary.
     bind (lift_res (build_invoice a (plan_for (acc_tier a)) summary None)) (\<lambda>invoice.
     bind (gets (\<lambda>b. (i, period) \<in> set (bl_closed b))) (\<lambda>closed.
       if closed then ret invoice
       else seqm (on_provider (po_finalize_invoice (be_provider env) invoice))
              (seqm (modify (\<lambda>b. b\<lparr>bl_closed := (i, period) # bl_closed b\<rparr>)) (ret invoice))))))"

section \<open>Reads\<close>

definition account_for_tenant :: "('s, 'w) billing_env \<Rightarrow> string \<Rightarrow> ('s, 'w) billing \<Rightarrow> account option" where
  "account_for_tenant env t b = so_find_by_tenant (be_store env) t (bl_store b)"

definition service_feature_enabled ::
  "('s, 'w) billing_env \<Rightarrow> string \<Rightarrow> feature \<Rightarrow> ('s, 'w) billing \<Rightarrow> bool" where
  "service_feature_enabled env i f b =
     (case get_acct env i b of None \<Rightarrow> False | Some a \<Rightarrow> feature_enabled a f)"

section \<open>Every operation\<close>

datatype billing_op =
    CreateAccount int string string string tier int
  | Activate string
  | SetStatus string account_status
  | RecordRefs string "string option" "string option"
  | ChangeTier string tier
  | ChangePlan int string tier
  | Cancel int string bool
  | Pause int string
  | Resume string
  | Reactivate int string
  | AttachTenant string string
  | DetachTenant string string
  | RecordUsage int string usage_kind int string string string
  | ClosePeriod string string

definition forget :: "('s, 'a) meth \<Rightarrow> ('s, unit) meth" where
  "forget m = seqm m (ret ())"

primrec run_op :: "('s, 'w) billing_env \<Rightarrow> billing_op \<Rightarrow> (('s, 'w) billing, unit) meth" where
  "run_op env (CreateAccount now i name email t days) = forget (create_account env now i name email t days)"
| "run_op env (Activate i) = forget (activate env i)"
| "run_op env (SetStatus i st) = forget (set_status env i st)"
| "run_op env (RecordRefs i c s) = forget (record_billing_refs env i c s)"
| "run_op env (ChangeTier i t) = forget (change_tier env i t)"
| "run_op env (ChangePlan now i t) = forget (change_plan env now i t)"
| "run_op env (Cancel now i e) = forget (cancel env now i e)"
| "run_op env (Pause now i) = forget (pause env now i)"
| "run_op env (Resume i) = forget (resume env i)"
| "run_op env (Reactivate now i) = forget (reactivate env now i)"
| "run_op env (AttachTenant i t) = forget (attach_tenant env i t)"
| "run_op env (DetachTenant i t) = forget (detach_tenant env i t)"
| "run_op env (RecordUsage now i k q p t n) = forget (record_usage env now i k q p t n)"
| "run_op env (ClosePeriod i p) = forget (close_period env i p)"

text \<open>One call, whatever its outcome, and what a service can become.\<close>

inductive billing_step :: "('s, 'w) billing_env \<Rightarrow> ('s, 'w) billing \<Rightarrow> ('s, 'w) billing \<Rightarrow> bool" for env where
  call: "run_op env op b = (r, b') \<Longrightarrow> billing_step env b b'"

inductive billing_reachable :: "('s, 'w) billing_env \<Rightarrow> ('s, 'w) billing \<Rightarrow> ('s, 'w) billing \<Rightarrow> bool" for env b0 where
  start: "billing_reachable env b0 b0"
| step: "billing_reachable env b0 b \<Longrightarrow> billing_step env b b' \<Longrightarrow> billing_reachable env b0 b'"

inductive_cases billing_stepE: "billing_step env b b'"
inductive_simps billing_step_iff: "billing_step env b b'"

section \<open>The contract of the service\<close>

lemma on_provider_simps:
  "m (bl_provider b) = (r, w) \<Longrightarrow> on_provider m b = (r, b\<lparr>bl_provider := w\<rparr>)"
  by (simp add: on_provider_def)

lemma keeps_require [simp]: "keeps P (require env i)"
  by (simp add: keeps_def require_def split: option.split)

lemma keeps_require_live [simp]: "keeps P (require_live a)"
  by (simp add: require_live_def keeps_seqm)

lemma keeps_forget: "keeps P m \<Longrightarrow> keeps P (forget m)"
  by (simp add: forget_def keeps_seqm)

lemma requireE:
  assumes "require env i b = (Inr a, b')" obtains "get_acct env i b = Some a" "b' = b"
  using assms by (auto simp: require_def split: option.splits)

locale billing_service =
  st: account_store "be_store env" valid accounts usage + pr: finalizing_provider "be_provider env" finalized label
  for env :: "('s, 'w) billing_env" and valid accounts usage finalized label +
  assumes change_quiet: "be_on_plan_change env = Some f \<Longrightarrow> finalized (snd (f c w)) = finalized w"
begin

text \<open>
  The invariant: the store is valid, and the provider has finalized exactly the closed
  periods, each once, after the invoices \<open>f0\<close> it had at the start.
\<close>

definition closed_once :: "string list \<Rightarrow> ('s, 'w) billing \<Rightarrow> bool" where
  "closed_once f0 b \<longleftrightarrow> valid (bl_store b) \<and> distinct (bl_closed b) \<and>
     finalized (bl_provider b) = f0 @ map label (rev (bl_closed b))"

lemma keeps_provider:
  assumes "\<And>w. finalized (snd (m w)) = finalized w"
  shows "keeps (closed_once f0) (on_provider m)"
proof -
  have "finalized w = finalized (bl_provider b)" if "m (bl_provider b) = (r, w)"
    for b :: "('s, 'w) billing" and r w
    using assms [of "bl_provider b"] that by simp
  then show ?thesis by (auto simp: keeps_def on_provider_def closed_once_def split: prod.splits)
qed

lemma keeps_save: "keeps (closed_once f0) (save env a)"
  unfolding save_def by (intro keeps_modify) (simp add: closed_once_def st.valid_save)

lemma keeps_records:
  "keeps (closed_once f0) (modify (\<lambda>b. b\<lparr>bl_plan_changes := h b\<rparr>))"
  "keeps (closed_once f0) (modify (\<lambda>b. b\<lparr>bl_grace_start := g b\<rparr>))"
  "keeps (closed_once f0) (modify (\<lambda>b. b\<lparr>bl_store := so_append_usage (be_store env) e (bl_store b)\<rparr>))"
  by (intro keeps_modify; simp add: closed_once_def st.valid_append)+

lemma keeps_plan_change_hook:
  "keeps (closed_once f0) (case be_on_plan_change env of None \<Rightarrow> ret () | Some f \<Rightarrow> on_provider (f c))"
  by (auto split: option.split intro!: keeps_provider change_quiet)

lemmas keeps_calls =
  keeps_save keeps_records keeps_plan_change_hook
  keeps_provider [OF pr.customer_quiet] keeps_provider [OF pr.subscription_quiet]
  keeps_provider [OF pr.report_quiet] keeps_provider [OF pr.cancel_quiet]

lemma keeps_revive: "keeps (closed_once f0) (revive env a)"
  unfolding revive_def Let_def by (intro keeps_intros keeps_calls keeps_simple)

lemma keeps_lifecycle:
  "keeps (closed_once f0) (create_account env now i name email t days)"
  "keeps (closed_once f0) (activate env i)"
  "keeps (closed_once f0) (set_status env i s)"
  "keeps (closed_once f0) (record_billing_refs env i cu su)"
  "keeps (closed_once f0) (change_tier env i t)"
  "keeps (closed_once f0) (change_plan env now i t)"
  "keeps (closed_once f0) (cancel env now i e)"
  "keeps (closed_once f0) (pause env now i)"
  "keeps (closed_once f0) (resume env i)"
  "keeps (closed_once f0) (reactivate env now i)"
  "keeps (closed_once f0) (attach_tenant env i u)"
  "keeps (closed_once f0) (detach_tenant env i u)"
  "keeps (closed_once f0) (record_usage env now i k q p u n)"
  unfolding create_account_def activate_def set_status_def record_billing_refs_def change_tier_def
    change_plan_def cancel_def pause_def resume_def reactivate_def attach_tenant_def detach_tenant_def
    record_usage_def Let_def
  by (intro keeps_bind keeps_seqm keeps_calls keeps_revive keeps_simple keeps_require keeps_require_live)+

lemma close_period_cases:
  assumes "valid (bl_store b)" "close_period env i p b = (r, b')"
  obtains (unknown) "get_acct env i b = None" "r = Inl BillingError" "b' = b"
  | (again) a inv where "get_acct env i b = Some a" "(i, p) \<in> set (bl_closed b)" "r = Inr inv" "b' = b"
      "build_invoice a (plan_for (acc_tier a)) (usage_summary_for env i p b) None = Inr inv"
  | (failed) a inv e w where "get_acct env i b = Some a" "(i, p) \<notin> set (bl_closed b)"
      "po_finalize_invoice (be_provider env) inv (bl_provider b) = (Inl e, w)" "r = Inl e"
      "b' = b\<lparr>bl_provider := w\<rparr>"
  | (first) a inv x w where "get_acct env i b = Some a" "(i, p) \<notin> set (bl_closed b)" "r = Inr inv"
      "build_invoice a (plan_for (acc_tier a)) (usage_summary_for env i p b) None = Inr inv"
      "po_finalize_invoice (be_provider env) inv (bl_provider b) = (Inr x, w)"
      "bi_account_id inv = i" "bi_period inv = p"
      "b' = b\<lparr>bl_provider := w, bl_closed := (i, p) # bl_closed b\<rparr>"
proof (cases "get_acct env i b")
  case None
  with assms(2) show thesis by (intro unknown) (auto simp: close_period_def bind_def require_def)
next
  case (Some a)
  obtain inv where inv: "build_invoice a (plan_for (acc_tier a)) (usage_summary_for env i p b) None = Inr inv"
    "bi_account_id inv = acc_id a" "bi_period inv = us_period (usage_summary_for env i p b)"
    by (rule build_invoice_total [OF one_currency_plan_for])
  have ids: "bi_account_id inv = i" "bi_period inv = p"
    using inv(2,3) st.get_id [OF assms(1)] Some
    by (auto simp: get_acct_def usage_summary_for_def summarize_totals)
  show thesis
  proof (cases "(i, p) \<in> set (bl_closed b)")
    case True
    with assms(2) Some inv(1) show thesis
      by (intro again [OF Some True _ _ inv(1)]) (auto simp: close_period_def bind_def require_def)
  next
    case new: False
    obtain rr w where fin: "po_finalize_invoice (be_provider env) inv (bl_provider b) = (rr, w)" by force
    show thesis
    proof (cases rr)
      case (Inl e)
      with assms(2) Some inv(1) fin new show thesis
        by (intro failed [OF Some new, of inv e w])
          (auto simp: close_period_def bind_def seqm_def require_def on_provider_def)
    next
      case (Inr x)
      with assms(2) Some inv(1) fin new show thesis
        by (intro first [OF Some new _ inv(1) _ ids, of x w])
          (auto simp: close_period_def bind_def seqm_def require_def on_provider_def)
    qed
  qed
qed

lemma keeps_close_period: "keeps (closed_once f0) (close_period env i p)"
  unfolding keeps_def
proof (intro allI impI)
  fix b assume b: "closed_once f0 b"
  obtain r b' where c: "close_period env i p b = (r, b')" by force
  have v: "valid (bl_store b)" using b by (simp add: closed_once_def)
  from v c show "closed_once f0 (snd (close_period env i p b))"
  proof (cases rule: close_period_cases)
    case (failed a inv e w)
    with b c show ?thesis by (simp add: closed_once_def pr.finalize_fails)
  next
    case (first a inv x w)
    with b c show ?thesis by (simp add: closed_once_def pr.finalize_ok)
  qed (use b c in simp_all)
qed

lemma keeps_run_op: "keeps (closed_once f0) (run_op env op)"
  by (cases op) (simp_all add: keeps_forget keeps_lifecycle keeps_close_period)

theorem reachable_closed_once:
  assumes "billing_reachable env b0 b" "closed_once f0 b0"
  shows "closed_once f0 b"
  using assms(1)
proof (induction rule: billing_reachable.induct)
  case start
  show ?case by (rule assms(2))
next
  case (step b b')
  from step.hyps(2) obtain op r where "run_op env op b = (r, b')" by (auto elim: billing_stepE)
  with keepsD [OF keeps_run_op step.IH] show ?case by blast
qed

end

section \<open>What the operations do\<close>

lemma usage_total_append:
  "usage_total k i p (es @ fs) = usage_total k i p es + usage_total k i p fs"
  by (simp add: usage_total_def)

context billing_service begin

text \<open>A suspended or churned account can neither grow, change plan nor accrue usage.\<close>

lemma suspended_refused:
  assumes "get_acct env i b = Some a" "acc_status a = CANCELED \<or> acc_status a = PAUSED"
  shows "attach_tenant env i t b = (Inl BillingError, b)"
    and "change_plan env now i tr b = (Inl BillingError, b)"
    and "record_usage env now i k q p t n b = (Inl BillingError, b)"
  using assms
  by (auto simp: attach_tenant_def change_plan_def record_usage_def bind_def seqm_def require_def require_live_def
      raise_if_def)

lemma get_after_save:
  "valid (bl_store b) \<Longrightarrow> get_acct env i (b\<lparr>bl_store := so_save_account (be_store env) a (bl_store b)\<rparr>) =
     (if i = acc_id a then Some a else get_acct env i b)"
  by (simp add: get_acct_def st.get_save)

lemma get_id: "valid (bl_store b) \<Longrightarrow> get_acct env i b = Some a \<Longrightarrow> acc_id a = i"
  by (simp add: get_acct_def st.get_id)

lemma attach_tenant_ok:
  assumes "attach_tenant env i t b = (Inr a, b')" "valid (bl_store b)"
  obtains a0 where "get_acct env i b = Some a0" "get_acct env i b' = Some a" "a = with_tenant t a0"
    "acc_status a0 \<noteq> CANCELED \<and> acc_status a0 \<noteq> PAUSED"
    "t \<in> set (tenant_ids a0) \<or> can_add_tenant a0"
proof (cases "get_acct env i b")
  case (Some a0)
  then have "acc_id a0 = i" using assms(2) get_id by blast
  with assms Some show thesis
    by (intro that [of a0])
      (auto simp: attach_tenant_def bind_def seqm_def require_def require_live_def raise_if_def save_def
        get_after_save Let_def with_tenant_def split: if_splits)
qed (use assms in \<open>simp add: attach_tenant_def bind_def require_def\<close>)

lemma change_plan_ok:
  assumes "change_plan env now i tr b = (Inr a, b')" "valid (bl_store b)"
  obtains a0 where "get_acct env i b = Some a0" "a = a0\<lparr>acc_tier := tr\<rparr>" "get_acct env i b' = Some a"
    "acc_status a0 \<noteq> CANCELED \<and> acc_status a0 \<noteq> PAUSED"
    "classify_change (plan_for (acc_tier a0)) (plan_for tr) = DOWNGRADE \<longrightarrow> \<not> downgrade_strands a0 (plan_for tr)"
proof (cases "get_acct env i b")
  case (Some a0)
  have id: "acc_id a0 = i" using assms(2) Some get_id by blast
  from assms(1) Some have live: "acc_status a0 \<noteq> CANCELED \<and> acc_status a0 \<noteq> PAUSED"
    and ok: "classify_change (plan_for (acc_tier a0)) (plan_for tr) = DOWNGRADE \<longrightarrow> \<not> downgrade_strands a0 (plan_for tr)"
    by (auto simp: change_plan_def bind_def seqm_def require_def require_live_def raise_if_def Let_def split: if_splits)
  from assms(1) Some live ok have a: "a = a0\<lparr>acc_tier := tr\<rparr>"
    and st: "bl_store b' = so_save_account (be_store env) (a0\<lparr>acc_tier := tr\<rparr>) (bl_store b)"
    by (auto simp: change_plan_def bind_def seqm_def require_def require_live_def raise_if_def Let_def
        save_def on_provider_def split: prod.splits sum.splits option.splits)
  then have "get_acct env i b' = Some a"
    using id assms(2) by (simp add: get_acct_def st.get_save)
  with that [OF Some a _ live ok] show thesis by blast
qed (use assms in \<open>simp add: change_plan_def bind_def require_def\<close>)

text \<open>Reactivation honours the grace window that \<open>cancel\<close> opened.\<close>

lemma reactivate_after_grace:
  assumes "get_acct env i b = Some a" "bl_grace_start b i = Some start"
    and "be_grace_days env * day_seconds < now - start"
  shows "reactivate env now i b = (Inl BillingError, b)"
  using assms by (auto simp: reactivate_def bind_def seqm_def require_def grace_over_def raise_if_def)

text \<open>Usage is counted once, in the account and period it is recorded for.\<close>

lemma record_usage_summary:
  assumes "record_usage env now i k q p t n b = (Inr e, b')" "valid (bl_store b)"
  shows "usage_summary_for env j p' b' =
    (if j = i \<and> p' = p then summarize i p (so_usage_for (be_store env) i p (bl_store b) @ [e])
     else usage_summary_for env j p' b)"
    and "ue_account_id e = i \<and> ue_kind e = k \<and> ue_quantity e = q \<and> ue_period e = p"
proof -
  obtain a where a: "get_acct env i b = Some a" and e: "e = \<lparr>ue_account_id = i, ue_kind = k, ue_quantity = q,
      ue_period = p, ue_tenant_id = t, ue_at = now, ue_note = n\<rparr>"
    and st: "bl_store b' = so_append_usage (be_store env) e (bl_store b)"
  proof (cases "get_acct env i b")
    case (Some a)
    have "acc_id a = i" using assms(2) Some get_id by blast
    with that [OF Some] assms(1) Some show thesis
      by (auto simp: record_usage_def bind_def seqm_def require_def require_live_def raise_if_def Let_def
          on_provider_def split: prod.splits sum.splits if_splits)
  qed (use assms in \<open>simp add: record_usage_def bind_def require_def\<close>)
  show "ue_account_id e = i \<and> ue_kind e = k \<and> ue_quantity e = q \<and> ue_period e = p" by (simp add: e)
  show "usage_summary_for env j p' b' =
    (if j = i \<and> p' = p then summarize i p (so_usage_for (be_store env) i p (bl_store b) @ [e])
     else usage_summary_for env j p' b)"
    unfolding usage_summary_for_def st using assms(2) by (auto simp: st.usage_for_append e)
qed

lemma record_usage_minutes:
  assumes "record_usage env now i k q p t n b = (Inr e, b')" "valid (bl_store b)"
  shows "us_analyst_minutes (usage_summary_for env j p' b') = us_analyst_minutes (usage_summary_for env j p' b) +
    (if j = i \<and> p' = p \<and> k = ANALYST_MINUTES then q else 0)"
  using record_usage_summary [OF assms]
  by (auto simp: usage_summary_for_def summarize_totals usage_total_append) (auto simp: usage_total_def)

text \<open>The invoice of a period.\<close>

lemma close_period_total:
  assumes "close_period env i p b = (Inr iv, b')" "valid (bl_store b)" "get_acct env i b = Some a"
  shows "bi_total iv = Money (invoice_total (plan_for (acc_tier a)) (us_analyst_minutes (usage_summary_for env i p b))
      (tenant_count a)) (currency (base_price (plan_for (acc_tier a))))"
    and "bi_account_id iv = i" "bi_period iv = p" "(i, p) \<in> set (bl_closed b')"
proof -
  have iv: "build_invoice a (plan_for (acc_tier a)) (usage_summary_for env i p b) None = Inr iv"
    and closed: "(i, p) \<in> set (bl_closed b')"
    using assms(3) by (cases rule: close_period_cases [OF assms(2,1)]; simp)+
  obtain iv' where iv': "build_invoice a (plan_for (acc_tier a)) (usage_summary_for env i p b) None = Inr iv'"
    "bi_total iv' = Money (invoice_total (plan_for (acc_tier a)) (us_analyst_minutes (usage_summary_for env i p b))
      (tenant_count a)) (currency (base_price (plan_for (acc_tier a))))"
    "bi_account_id iv' = acc_id a" "bi_period iv' = us_period (usage_summary_for env i p b)"
    by (rule build_invoice_total [OF one_currency_plan_for [of "acc_tier a"], of a "usage_summary_for env i p b" None]) simp
  moreover have "us_period (usage_summary_for env i p b) = p" by (simp add: usage_summary_for_def summarize_totals)
  ultimately show "bi_total iv = Money (invoice_total (plan_for (acc_tier a)) (us_analyst_minutes (usage_summary_for env i p b))
      (tenant_count a)) (currency (base_price (plan_for (acc_tier a))))" "bi_account_id iv = i" "bi_period iv = p"
    using iv get_id [OF assms(2,3)] by simp_all
  show "(i, p) \<in> set (bl_closed b')" by (rule closed)
qed

end

section \<open>The default service\<close>

text \<open>\<open>BillingService()\<close>: the in-memory store, the fake provider, a grace of 30 days.\<close>

definition default_env :: "(mem_store, fake_provider) billing_env" where
  "default_env = \<lparr>be_store = mem_ops, be_provider = fake_ops, be_portal = None, be_on_plan_change = None,
     be_grace_days = 30\<rparr>"

lemma default_env_simps [simp]:
  "be_store default_env = mem_ops" "be_provider default_env = fake_ops"
  "be_portal default_env = None" "be_on_plan_change default_env = None" "be_grace_days default_env = 30"
  by (simp_all add: default_env_def)

interpretation svc: billing_service default_env mem_valid "\<lambda>s. map_of (ms_accounts s)" ms_usage
    fp_invoices fake_invoice_id
  by (intro billing_service.intro billing_service_axioms.intro)
    (simp_all add: mem.account_store_axioms fake.finalizing_provider_axioms)

definition new_service :: "(mem_store, fake_provider) billing" where
  "new_service = billing_init mem_empty fake_empty"

definition run_ops :: "('s, 'w) billing_env \<Rightarrow> billing_op list \<Rightarrow> ('s, 'w) billing \<Rightarrow> ('s, 'w) billing" where
  "run_ops env ops b = fold (\<lambda>op b. snd (run_op env op b)) ops b"

lemma reachable_run_ops: "billing_reachable env b0 b \<Longrightarrow> billing_reachable env b0 (run_ops env ops b)"
proof (induction ops arbitrary: b)
  case (Cons op ops)
  have "billing_step env b (snd (run_op env op b))"
    by (metis billing_step.call prod.collapse)
  with Cons show ?case by (simp add: run_ops_def billing_reachable.step)
qed (simp add: run_ops_def)

lemma new_service_ok: "svc.closed_once [] new_service"
  by (simp add: svc.closed_once_def new_service_def billing_init_def fake_empty_def)

text \<open>An account on the assisted plan, for the examples.\<close>

definition example_account :: "account_status \<Rightarrow> account" where
  "example_account st = \<lparr>acc_id = ''a1'', acc_name = ''Acme'', billing_email = ''o@acme.test'', acc_tier = ASSISTED,
     acc_status = st, tenant_ids = [''t1''], seats_used = 2, stripe_customer_id = Some ''cus_1'',
     stripe_subscription_id = Some ''sub_1'', trial_end = None, created_at = 0\<rparr>"

definition example_service :: "account_status \<Rightarrow> (mem_store, fake_provider) billing" where
  "example_service st = new_service\<lparr>bl_store := \<lparr>ms_accounts = [(''a1'', example_account st)], ms_usage = []\<rparr>\<rparr>"

lemma example_service_ok [simp]: "mem_valid (bl_store (example_service st))"
  by (simp add: example_service_def mem_valid_def example_account_def)

lemma example_service_get [simp]: "get_acct default_env ''a1'' (example_service st) = Some (example_account st)"
  by (simp add: get_acct_def example_service_def mem_ops_def mem_get_account_def)

text \<open>A pause restarts the grace window, and \<open>resume\<close> does not look at it.\<close>

lemma pause_resume:
  assumes "get_acct default_env i b = Some a" "mem_valid (bl_store b)"
  obtains b' b'' a' where "pause default_env now i b = (Inr (with_account_status PAUSED a), b')"
    "resume default_env i b' = (Inr a', b'')" "acc_status a' = ACTIVE"
    "get_acct default_env i b'' = Some a'"
proof -
  have id: "acc_id a = i" using assms svc.get_id by blast
  let ?p = "with_account_status PAUSED a"
  let ?b1 = "b\<lparr>bl_store := so_save_account mem_ops ?p (bl_store b), bl_grace_start := (bl_grace_start b)(i \<mapsto> now)\<rparr>"
  have p: "pause default_env now i b = (Inr ?p, ?b1)"
    using assms by (simp add: pause_def bind_def seqm_def require_def save_def Let_def)
  have g: "get_acct default_env i ?b1 = Some ?p"
    using assms(2) id by (simp add: get_acct_def mem.get_save with_account_status_def)
  have v: "mem_valid (so_save_account mem_ops ?p (bl_store b))" using assms(2) by (simp add: mem.valid_save)
  let ?a' = "with_account_status ACTIVE ?p"
  obtain sid w where sub: "po_ensure_subscription fake_ops ?p (plan_for (acc_tier ?p)) (bl_provider b) = (Inr sid, w)"
    using fake_never_raises(2) by blast
  let ?b2 = "?b1\<lparr>bl_provider := w, bl_store := so_save_account mem_ops ?a' (bl_store ?b1),
    bl_grace_start := (bl_grace_start ?b1)(acc_id ?a' := None)\<rparr>"
  have r: "resume default_env i ?b1 = (Inr ?a', ?b2)"
    using g sub by (simp add: resume_def revive_def bind_def seqm_def require_def save_def on_provider_def
        Let_def with_account_status_def)
  show thesis
    by (rule that [OF p r]) (use v id in \<open>simp_all add: get_acct_def mem.get_save with_account_status_def\<close>)
qed

lemma close_period_returns:
  assumes "get_acct default_env i b = Some a" "mem_valid (bl_store b)"
  shows "\<exists>iv b'. close_period default_env i p b = (Inr iv, b')"
proof -
  obtain r b' where c: "close_period default_env i p b = (r, b')" by force
  from assms(2) c show ?thesis
  proof (cases rule: svc.close_period_cases)
    case (failed a iv e w)
    with fake_never_raises(4) [of iv "bl_provider b"] show ?thesis by auto
  qed (use assms c in auto)
qed

section \<open>Properties\<close>

text \<open>C7. Over any sequence of calls, returning or raising, each period of an account is finalized
  at the provider at most once: the finalized invoices are exactly the closed periods, in order.\<close>

theorem billing_finalizes_once:
  assumes "billing_reachable default_env new_service b"
  shows "distinct (bl_closed b) \<and> fp_invoices (bl_provider b) = map fake_invoice_id (rev (bl_closed b))"
  using svc.reachable_closed_once [OF assms new_service_ok] by (simp add: svc.closed_once_def)

theorem billing_finalizes_once_witness:
  "fp_invoices (bl_provider (run_ops default_env [CreateAccount 0 ''a1'' ''Acme'' ''o'' ASSISTED 14,
       ClosePeriod ''a1'' ''2026-08'', ClosePeriod ''a1'' ''2026-08''] new_service)) =
     map fake_invoice_id (rev (bl_closed (run_ops default_env [CreateAccount 0 ''a1'' ''Acme'' ''o'' ASSISTED 14,
       ClosePeriod ''a1'' ''2026-08'', ClosePeriod ''a1'' ''2026-08''] new_service)))"
  by (rule conjunct2 [OF billing_finalizes_once [OF reachable_run_ops [OF billing_reachable.start]]])

text \<open>The invoice of a period charges the base price, the analyst minutes above the bundle and
  the businesses above the included number, and nothing else.\<close>

theorem billing_period_total:
  assumes "close_period default_env i p b = (Inr iv, b')" "mem_valid (bl_store b)"
    and "get_acct default_env i b = Some a"
  shows "bi_total iv = Money (invoice_total (plan_for (acc_tier a))
      (us_analyst_minutes (usage_summary_for default_env i p b)) (tenant_count a))
      (currency (base_price (plan_for (acc_tier a)))) \<and> (i, p) \<in> set (bl_closed b')"
  using svc.close_period_total [OF assms] by simp

theorem billing_period_total_witness:
  "\<exists>iv b'. close_period default_env ''a1'' ''2026-08'' (example_service ACTIVE) = (Inr iv, b') \<and>
     bi_total iv = Money 49900 ''USD''"
proof -
  have "\<exists>iv b'. close_period default_env ''a1'' ''2026-08'' (example_service ACTIVE) = (Inr iv, b')"
    by (rule close_period_returns [OF example_service_get example_service_ok])
  then obtain iv b' where c: "close_period default_env ''a1'' ''2026-08'' (example_service ACTIVE) = (Inr iv, b')"
    by (elim exE)
  have u: "us_analyst_minutes (usage_summary_for default_env ''a1'' ''2026-08'' (example_service ACTIVE)) = 0"
    by (simp add: usage_summary_for_def summarize_totals usage_total_def mem_ops_def mem_usage_for_def
        example_service_def)
  have "bi_total iv = Money 49900 ''USD''"
    using conjunct1 [OF billing_period_total [OF c example_service_ok example_service_get]]
    by (simp add: u invoice_total_def example_account_def tenant_count_def)
  with c show ?thesis by (intro exI conjI)
qed

text \<open>A downgrade that succeeds leaves no business and no seat the new plan cannot hold, on any
  account that is neither canceled nor paused.\<close>

theorem billing_downgrade_guard:
  assumes "change_plan default_env now i tr b = (Inr a, b')" "mem_valid (bl_store b)"
  shows "get_acct default_env i b' = Some a \<and> acc_tier a = tr \<and>
    (\<exists>a0. get_acct default_env i b = Some a0 \<and> a = a0\<lparr>acc_tier := tr\<rparr> \<and>
       acc_status a0 \<noteq> CANCELED \<and> acc_status a0 \<noteq> PAUSED \<and>
       (classify_change (plan_for (acc_tier a0)) (plan_for tr) = DOWNGRADE \<longrightarrow>
          seats_used a \<le> included_seats (plan_for tr) \<and>
          (plan_has (plan_for tr) MULTI_TENANT \<or> within_included_tenants a)))"
  using assms by (rule svc.change_plan_ok)
    (auto simp: downgrade_strands_def within_included_tenants_def tenant_count_def)

theorem billing_downgrade_guard_witness:
  "\<exists>a b'. change_plan default_env 0 ''a1'' SELF_SERVE (example_service ACTIVE) = (Inr a, b') \<and> acc_tier a = SELF_SERVE"
proof -
  have "\<exists>a b'. change_plan default_env 0 ''a1'' SELF_SERVE (example_service ACTIVE) = (Inr a, b')"
    by (simp add: change_plan_def bind_def seqm_def require_def require_live_def raise_if_def Let_def
        example_account_def downgrade_strands_def tenant_count_def classify_change_def less_money_def
        on_provider_def fake_defs save_def)
  then obtain a b' where c: "change_plan default_env 0 ''a1'' SELF_SERVE (example_service ACTIVE) = (Inr a, b')"
    by (elim exE)
  from billing_downgrade_guard [OF this example_service_ok] c show ?thesis by (intro exI conjI) (assumption | elim conjE)+
qed

text \<open>On a canceled or paused account, attaching a business, changing the plan and recording
  usage are refused and change nothing, and no feature is enabled.\<close>

theorem billing_suspended_refused:
  assumes "get_acct default_env i b = Some a" "acc_status a = CANCELED \<or> acc_status a = PAUSED"
  shows "attach_tenant default_env i t b = (Inl BillingError, b) \<and>
    change_plan default_env now i tr b = (Inl BillingError, b) \<and>
    record_usage default_env now i k q p t n b = (Inl BillingError, b) \<and>
    \<not> service_feature_enabled default_env i f b"
  using svc.suspended_refused [OF assms] assms
  by (auto simp: service_feature_enabled_def feature_enabled_def)

theorem billing_suspended_refused_witness:
  "attach_tenant default_env ''a1'' ''t2'' (example_service PAUSED) = (Inl BillingError, example_service PAUSED)"
  by (rule conjunct1 [OF billing_suspended_refused [OF example_service_get]]) (simp add: example_account_def)

text \<open>Recorded analyst minutes are counted once, in the account and the period they are recorded
  for.\<close>

theorem billing_usage_counted_once:
  assumes "record_usage default_env now i k q p t n b = (Inr e, b')" "mem_valid (bl_store b)"
  shows "us_analyst_minutes (usage_summary_for default_env j p' b') =
    us_analyst_minutes (usage_summary_for default_env j p' b) +
    (if j = i \<and> p' = p \<and> k = ANALYST_MINUTES then q else 0)"
  using assms by (rule svc.record_usage_minutes)

theorem billing_usage_counted_once_witness:
  "\<exists>e b'. record_usage default_env 0 ''a1'' ANALYST_MINUTES 30 ''2026-08'' [] [] (example_service ACTIVE) = (Inr e, b') \<and>
     us_analyst_minutes (usage_summary_for default_env ''a1'' ''2026-08'' b') = 30"
proof -
  have "\<exists>e b'. record_usage default_env 0 ''a1'' ANALYST_MINUTES 30 ''2026-08'' [] [] (example_service ACTIVE) = (Inr e, b')"
    by (simp add: record_usage_def bind_def seqm_def require_def require_live_def raise_if_def Let_def
        example_account_def on_provider_def fake_defs)
  then obtain e b' where r: "record_usage default_env 0 ''a1'' ANALYST_MINUTES 30 ''2026-08'' [] [] (example_service ACTIVE) = (Inr e, b')"
    by (elim exE)
  have u: "us_analyst_minutes (usage_summary_for default_env ''a1'' ''2026-08'' (example_service ACTIVE)) = 0"
    by (simp add: usage_summary_for_def summarize_totals usage_total_def mem_ops_def mem_usage_for_def
        example_service_def)
  have "us_analyst_minutes (usage_summary_for default_env ''a1'' ''2026-08'' b') = 30"
    using billing_usage_counted_once [OF r example_service_ok, of "''a1''" "''2026-08''"] u by simp
  with r show ?thesis by (intro exI conjI)
qed

text \<open>Canceling opens a grace window after which \<open>reactivate\<close> refuses; pausing the canceled
  account and resuming it makes it active again at any time.\<close>

theorem billing_pause_bypasses_grace:
  assumes "get_acct default_env i b = Some a" "acc_status a = CANCELED" "mem_valid (bl_store b)"
    and "bl_grace_start b i = Some start" "30 * day_seconds < now - start"
  shows "reactivate default_env now i b = (Inl BillingError, b) \<and>
    (\<exists>b' b'' a'. pause default_env now i b = (Inr (with_account_status PAUSED a), b') \<and>
       resume default_env i b' = (Inr a', b'') \<and> get_acct default_env i b'' = Some a' \<and> acc_status a' = ACTIVE)"
proof
  show "reactivate default_env now i b = (Inl BillingError, b)"
    using assms by (intro svc.reactivate_after_grace) simp_all
  show "\<exists>b' b'' a'. pause default_env now i b = (Inr (with_account_status PAUSED a), b') \<and>
       resume default_env i b' = (Inr a', b'') \<and> get_acct default_env i b'' = Some a' \<and> acc_status a' = ACTIVE"
    by (rule pause_resume [OF assms(1,3), of now]) (intro exI conjI)
qed

theorem billing_pause_bypasses_grace_witness:
  "reactivate default_env 9000000 ''a1'' ((example_service CANCELED)\<lparr>bl_grace_start := [''a1'' \<mapsto> 0]\<rparr>) =
     (Inl BillingError, (example_service CANCELED)\<lparr>bl_grace_start := [''a1'' \<mapsto> 0]\<rparr>)"
proof -
  have g: "get_acct default_env ''a1'' ((example_service CANCELED)\<lparr>bl_grace_start := [''a1'' \<mapsto> 0]\<rparr>) = Some (example_account CANCELED)"
    using example_service_get [of CANCELED] by (simp add: get_acct_def)
  show ?thesis
  proof (rule conjunct1 [OF billing_pause_bypasses_grace [OF g, where start = 0]])
    show "30 * day_seconds < 9000000 - 0" by (simp add: day_seconds_def)
  qed (use example_service_ok [of CANCELED] in \<open>simp_all add: example_account_def\<close>)
qed

text \<open>Over the Stripe provider, changing the plan of an account that already has a subscription
  sends no request: the account moves to the new tier, the subscription does not.\<close>

theorem billing_stripe_plan_change_is_silent:
  assumes "be_provider env = stripe_ops post c" "be_on_plan_change env = None"
    and "get_acct env i b = Some a" "nonempty (stripe_subscription_id a)"
    and "change_plan env now i tr b = (Inr a', b')"
  shows "bl_provider b' = bl_provider b \<and> acc_tier a' = tr"
  using assms
  by (auto simp: change_plan_def bind_def seqm_def require_def require_live_def raise_if_def Let_def save_def
      on_provider_def stripe_subscription_stable split: if_splits)

definition silent_env :: "(mem_store, nat) billing_env" where
  "silent_env = \<lparr>be_store = mem_ops, be_provider = stripe_ops (\<lambda>_ _ _ n. (Inr (200, []), n + 1))
     \<lparr>st_key = ''sk'', st_price_ids = [], st_usage_items = []\<rparr>, be_portal = None, be_on_plan_change = None,
     be_grace_days = 30\<rparr>"

theorem billing_stripe_plan_change_is_silent_witness:
  "\<exists>a' b'. change_plan silent_env 0 ''a1'' CO_DELIVERY
      (billing_init \<lparr>ms_accounts = [(''a1'', example_account ACTIVE)], ms_usage = []\<rparr> 7) = (Inr a', b') \<and>
     bl_provider b' = 7 \<and> acc_tier a' = CO_DELIVERY"
proof -
  let ?b = "billing_init \<lparr>ms_accounts = [(''a1'', example_account ACTIVE)], ms_usage = []\<rparr> (7 :: nat)"
  have g: "get_acct silent_env ''a1'' ?b = Some (example_account ACTIVE)"
    by (simp add: get_acct_def silent_env_def mem_ops_def mem_get_account_def billing_init_def)
  have "\<exists>a' b'. change_plan silent_env 0 ''a1'' CO_DELIVERY ?b = (Inr a', b')"
    using g by (simp add: change_plan_def bind_def seqm_def require_def require_live_def raise_if_def Let_def
        example_account_def classify_change_def less_money_def on_provider_def save_def)
      (simp add: silent_env_def stripe_ops_def stripe_ensure_subscription_def nonempty_def)
  then obtain a' b' where c: "change_plan silent_env 0 ''a1'' CO_DELIVERY ?b = (Inr a', b')" by (elim exE)
  have "bl_provider b' = bl_provider ?b \<and> acc_tier a' = CO_DELIVERY"
    by (rule billing_stripe_plan_change_is_silent [OF _ _ g _ c])
      (simp_all add: silent_env_def nonempty_def example_account_def)
  with c show ?thesis by (intro exI conjI) (assumption | simp add: billing_init_def)+
qed

end
