(* ===== verification/Signup.thy ===== *)
theory Signup
  imports Billing_Service
begin

text \<open>
  \<open>checkout.py\<close> and \<open>signup.py\<close> of \<open>packages/billing/src/rgnr8_billing\<close>: the hosted checkout,
  the parsing of its completed event, and the self-serve signup that turns the event into an
  active account. The HTTP client, \<open>json.loads\<close> and HMAC-SHA256 are arguments.

  The lemmas show that a completed event is applied once: replaying it changes nothing.
\<close>

section \<open>Checkout\<close>

record checkout_session =
  cs_id :: string
  cs_url :: string

record checkout_completed =
  cc_account_id :: string
  cc_tier :: tier
  cc_customer_id :: string
  cc_subscription_id :: string
  cc_session_id :: string

record 'c checkout_ops =
  co_create_session :: "string \<Rightarrow> tier \<Rightarrow> string \<Rightarrow> string \<Rightarrow> string \<Rightarrow> ('c, checkout_session) meth"
  co_parse_completed :: "json \<Rightarrow> checkout_completed option"

text \<open>
  \<open>verify_hmac_sha256\<close>. \<open>hmac.compare_digest\<close> on strings raises on a character outside ASCII.
\<close>

definition is_ascii :: "string \<Rightarrow> bool" where
  "is_ascii s = list_all (\<lambda>c. (of_char c :: nat) < 128) s"

definition verify_hmac_sha256 ::
  "(string \<Rightarrow> string \<Rightarrow> string) \<Rightarrow> string \<Rightarrow> string \<Rightarrow> string \<Rightarrow> string \<Rightarrow> bool res" where
  "verify_hmac_sha256 hmac_hex payload signature secret prefix =
     (let provided = (if prefix \<noteq> [] \<and> take (length prefix) signature = prefix
                      then drop (length prefix) signature else signature);
          expected = hmac_hex secret payload
      in if is_ascii provided \<and> is_ascii expected then Inr (provided = expected) else Inl TypeError)"

definition json_field :: "json \<Rightarrow> string \<Rightarrow> string" where
  "json_field j k = (case json_str (json_get j k) of Some s \<Rightarrow> s | None \<Rightarrow> [])"

fun is_mapping :: "json option \<Rightarrow> bool" where
  "is_mapping (Some (JObj m)) = True"
| "is_mapping _ = False"

definition parse_completed :: "json \<Rightarrow> checkout_completed option" where
  "parse_completed payload =
     (if json_field payload ''type'' \<noteq> ''checkout.session.completed'' then None
      else
        let data = json_get payload ''data''
        in if \<not> is_mapping data then None
           else
             let obj = json_get (the data) ''object''
             in if \<not> is_mapping obj then None
                else
                  let obj = the obj;
                      metadata = json_get obj ''metadata'';
                      meta = (if is_mapping metadata then the metadata else JObj []);
                      cri = json_field obj ''client_reference_id'';
                      aid = (if cri = [] then json_field meta ''account_id'' else cri);
                      tier_value = json_field meta ''tier'';
                      customer = json_field obj ''customer'';
                      subscription = json_field obj ''subscription''
                  in if aid = [] \<or> tier_value = [] \<or> subscription = [] then None
                     else case tier_of tier_value of
                            Inl _ \<Rightarrow> None
                          | Inr t \<Rightarrow> Some \<lparr>cc_account_id = aid, cc_tier = t, cc_customer_id = customer,
                                          cc_subscription_id = subscription,
                                          cc_session_id = json_field obj ''id''\<rparr>)"

record fake_checkout =
  fc_sessions :: "checkout_session list"
  fc_calls :: "(string \<times> string) list list"
  fc_base_url :: string

definition fake_create_session ::
  "string \<Rightarrow> tier \<Rightarrow> string \<Rightarrow> string \<Rightarrow> string \<Rightarrow> (fake_checkout, checkout_session) meth" where
  "fake_create_session aid t success_url cancel_url email =
     bind (gets fc_base_url) (\<lambda>base.
       let sid = ''cs_fake_'' @ aid @ ''_'' @ tier_value t;
           session = \<lparr>cs_id = sid, cs_url = base @ ''/'' @ sid\<rparr>;
           c = [(''account_id'', aid), (''tier'', tier_value t), (''success_url'', success_url),
                (''cancel_url'', cancel_url), (''customer_email'', email)]
       in seqm (modify (\<lambda>w. w\<lparr>fc_calls := fc_calls w @ [c], fc_sessions := fc_sessions w @ [session]\<rparr>))
            (ret session))"

definition fake_checkout_ops :: "fake_checkout checkout_ops" where
  "fake_checkout_ops = \<lparr>co_create_session = fake_create_session, co_parse_completed = parse_completed\<rparr>"

text \<open>Stripe's session: the form, and the id and url read back with fallbacks.\<close>

definition read_session :: "(string \<Rightarrow> json option) \<Rightarrow> string \<Rightarrow> string \<Rightarrow> string \<times> string" where
  "read_session loads body aid =
     (let parsed = (case loads body of Some j \<Rightarrow> j | None \<Rightarrow> JNull);
          sid = (case json_str (json_get parsed ''id'') of Some s \<Rightarrow> s | None \<Rightarrow> ''cs_pending_'' @ aid);
          url = json_field parsed ''url''
      in (sid, if url = [] then ''https://checkout.stripe.com/c/pay/'' @ sid else url))"

definition stripe_create_session ::
  "'w http \<Rightarrow> (string \<Rightarrow> json option) \<Rightarrow> stripe_config
     \<Rightarrow> string \<Rightarrow> tier \<Rightarrow> string \<Rightarrow> string \<Rightarrow> string \<Rightarrow> ('w, checkout_session) meth" where
  "stripe_create_session post loads c aid t success_url cancel_url email =
     bind (stripe_post post c ''checkout/sessions''
             [(''mode'', ''subscription''), (''success_url'', success_url), (''cancel_url'', cancel_url),
              (''client_reference_id'', aid), (''customer_email'', email),
              (''line_items[0][price]'', dict_get_str (st_price_ids c) (tier_value t)),
              (''line_items[0][quantity]'', ''1''), (''metadata[account_id]'', aid),
              (''metadata[tier]'', tier_value t)])
       (\<lambda>resp. case read_session loads (snd resp) aid of (sid, url) \<Rightarrow>
          ret \<lparr>cs_id = sid, cs_url = url\<rparr>)"

definition stripe_checkout_ops :: "'w http \<Rightarrow> (string \<Rightarrow> json option) \<Rightarrow> stripe_config \<Rightarrow> 'w checkout_ops" where
  "stripe_checkout_ops post loads c =
     \<lparr>co_create_session = stripe_create_session post loads c, co_parse_completed = parse_completed\<rparr>"

definition stripe_verify_signature ::
  "(string \<Rightarrow> string \<Rightarrow> string) \<Rightarrow> string \<Rightarrow> string \<Rightarrow> string \<Rightarrow> string \<Rightarrow> bool res" where
  "stripe_verify_signature hmac_hex signing_secret payload signature prefix =
     (if signing_secret = [] then Inr False
      else verify_hmac_sha256 hmac_hex payload signature signing_secret prefix)"

section \<open>Signup\<close>

record ('s, 'w, 'c, 'p) signup =
  su_service :: "('s, 'w) billing"
  su_checkout :: 'c
  su_counter :: nat
  su_provisioned :: "string list" \<comment> \<open>a set in the code\<close>
  su_fleet :: 'p \<comment> \<open>what \<open>on_provisioned\<close> changes\<close>

record ('s, 'w, 'c, 'p) signup_env =
  se_billing :: "('s, 'w) billing_env"
  se_checkout :: "'c checkout_ops"
  se_success_url :: string
  se_cancel_url :: string
  se_trial_days :: int
  se_on_provisioned :: "(string \<Rightarrow> string \<Rightarrow> ('p, unit) meth) option"

definition in_service :: "(('s, 'w) billing, 'a) meth \<Rightarrow> (('s, 'w, 'c, 'p) signup, 'a) meth" where
  "in_service m u = (case m (su_service u) of (r, b) \<Rightarrow> (r, u\<lparr>su_service := b\<rparr>))"

definition in_checkout :: "('c, 'a) meth \<Rightarrow> (('s, 'w, 'c, 'p) signup, 'a) meth" where
  "in_checkout m u = (case m (su_checkout u) of (r, b) \<Rightarrow> (r, u\<lparr>su_checkout := b\<rparr>))"

definition in_fleet :: "('p, 'a) meth \<Rightarrow> (('s, 'w, 'c, 'p) signup, 'a) meth" where
  "in_fleet m u = (case m (su_fleet u) of (r, b) \<Rightarrow> (r, u\<lparr>su_fleet := b\<rparr>))"

text \<open>\<open>_default_ids\<close>: \<open>acct_1\<close>, \<open>acct_2\<close>, and so on.\<close>

definition next_id :: "(('s, 'w, 'c, 'p) signup, string) meth" where
  "next_id = seqm (modify (\<lambda>u. u\<lparr>su_counter := su_counter u + 1\<rparr>))
     (gets (\<lambda>u. ''acct_'' @ str_nat (su_counter u)))"

definition start_checkout ::
  "('s, 'w, 'c, 'p) signup_env \<Rightarrow> int \<Rightarrow> string \<Rightarrow> tier
     \<Rightarrow> (('s, 'w, 'c, 'p) signup, account \<times> checkout_session) meth" where
  "start_checkout env now email t =
     bind next_id (\<lambda>aid.
     bind (in_service (create_account (se_billing env) now aid email email t (se_trial_days env))) (\<lambda>a.
     bind (in_checkout (co_create_session (se_checkout env) aid t (se_success_url env) (se_cancel_url env) email))
       (\<lambda>session. ret (a, session))))"

definition complete_checkout ::
  "('s, 'w, 'c, 'p) signup_env \<Rightarrow> json \<Rightarrow> (('s, 'w, 'c, 'p) signup, account option) meth" where
  "complete_checkout env payload =
     (case co_parse_completed (se_checkout env) payload of
        None \<Rightarrow> ret None
      | Some completed \<Rightarrow>
          bind (gets (\<lambda>u. get_acct (se_billing env) (cc_account_id completed) (su_service u))) (\<lambda>acct.
          case acct of
            None \<Rightarrow> ret None
          | Some a \<Rightarrow>
              bind (gets (\<lambda>u. cc_subscription_id completed \<in> set (su_provisioned u))) (\<lambda>known.
              if known then ret (Some a)
              else
                seqm (in_service (record_billing_refs (se_billing env) (cc_account_id completed)
                        (if cc_customer_id completed = [] then None else Some (cc_customer_id completed))
                        (Some (cc_subscription_id completed))))
                (bind (in_service (set_status (se_billing env) (cc_account_id completed) ACTIVE)) (\<lambda>a.
                 seqm (modify (\<lambda>u. u\<lparr>su_provisioned := cc_subscription_id completed # su_provisioned u\<rparr>))
                 (seqm (case se_on_provisioned env of None \<Rightarrow> ret ()
                        | Some f \<Rightarrow> in_fleet (f (acc_id a) (billing_email a)))
                   (ret (Some a))))))))"

section \<open>A completed event is applied once\<close>

lemma parse_completed_nonempty:
  "parse_completed payload = Some c \<Longrightarrow> cc_account_id c \<noteq> [] \<and> cc_subscription_id c \<noteq> []"
  by (auto simp: parse_completed_def Let_def split: if_splits sum.splits)

context account_store begin

lemma complete_checkout_replay:
  assumes "be_store (se_billing env) = ops" "valid (bl_store (su_service u))"
    and "complete_checkout env payload u = (Inr (Some a), u')"
  shows "complete_checkout env payload u' = (Inr (Some a), u')"
proof -
  from assms(3) obtain c where c: "co_parse_completed (se_checkout env) payload = Some c"
    by (auto simp: complete_checkout_def split: option.splits)
  from assms(3) c obtain a0 where a0: "get_acct (se_billing env) (cc_account_id c) (su_service u) = Some a0"
    by (auto simp: complete_checkout_def bind_def split: option.splits)
  show ?thesis
  proof (cases "cc_subscription_id c \<in> set (su_provisioned u)")
    case True
    with assms(3) c a0 show ?thesis by (auto simp: complete_checkout_def bind_def)
  next
    case False
    let ?cu = "if cc_customer_id c = [] then None else Some (cc_customer_id c)"
    let ?a1 = "with_billing_refs ?cu (Some (cc_subscription_id c)) a0"
    let ?a2 = "with_account_status ACTIVE ?a1"
    have id: "acc_id a0 = cc_account_id c" using a0 assms(1,2) by (auto simp: get_acct_def get_id)
    have id12: "acc_id ?a1 = cc_account_id c" "acc_id ?a2 = cc_account_id c"
      using id by (simp_all add: with_billing_refs_def with_account_status_def)
    let ?s1 = "so_save_account ops ?a1 (bl_store (su_service u))"
    let ?s2 = "so_save_account ops ?a2 ?s1"
    have v: "valid ?s1" using assms(2) by (simp add: valid_save)
    have "a = ?a2 \<and> bl_store (su_service u') = ?s2 \<and>
        su_provisioned u' = cc_subscription_id c # su_provisioned u"
      using assms(3) c a0 False assms(1) id12 v assms(2)
      by (auto simp: complete_checkout_def bind_def seqm_def in_service_def record_billing_refs_def set_status_def
          require_def save_def get_acct_def get_save in_fleet_def Let_def split: option.splits prod.splits sum.splits)
    then have "get_acct (se_billing env) (cc_account_id c) (su_service u') = Some a"
      "cc_subscription_id c \<in> set (su_provisioned u')"
      using assms(1) id12 v by (simp_all add: get_acct_def get_save)
    with c show ?thesis by (simp add: complete_checkout_def bind_def)
  qed
qed

end

text \<open>Payloads that are no completed checkout, or of an unknown account, are ignored.\<close>

lemma complete_checkout_ignores:
  "co_parse_completed (se_checkout env) payload = None \<Longrightarrow> complete_checkout env payload u = (Inr None, u)"
  "co_parse_completed (se_checkout env) payload = Some c \<Longrightarrow>
     get_acct (se_billing env) (cc_account_id c) (su_service u) = None \<Longrightarrow>
     complete_checkout env payload u = (Inr None, u)"
  by (simp_all add: complete_checkout_def bind_def)

section \<open>Properties\<close>

definition default_signup_env :: "(mem_store, fake_provider, fake_checkout, 'p) signup_env" where
  "default_signup_env = \<lparr>se_billing = default_env, se_checkout = fake_checkout_ops, se_success_url = ''ok'',
     se_cancel_url = ''no'', se_trial_days = 14, se_on_provisioned = None\<rparr>"

text \<open>C39. Replaying a completed-checkout event is a no-op: it returns the same account and leaves the
  billing service, the provisioning hook and everything else as they are.\<close>

theorem signup_replay_is_noop:
  assumes "be_store (se_billing env) = mem_ops" "mem_valid (bl_store (su_service u))"
    and "complete_checkout env payload u = (Inr (Some a), u')"
  shows "complete_checkout env payload u' = (Inr (Some a), u')"
  using assms by (rule mem.complete_checkout_replay)

definition example_event :: json where
  "example_event = JObj [(''type'', JStr ''checkout.session.completed''),
     (''data'', JObj [(''object'', JObj [(''client_reference_id'', JStr ''a1''), (''customer'', JStr ''cus_9''),
        (''subscription'', JStr ''sub_9''), (''metadata'', JObj [(''tier'', JStr ''assisted'')])])])]"

definition example_signup :: "(mem_store, fake_provider, fake_checkout, nat) signup" where
  "example_signup = \<lparr>su_service = example_service TRIALING,
     su_checkout = \<lparr>fc_sessions = [], fc_calls = [], fc_base_url = ''https://c''\<rparr>, su_counter = 0,
     su_provisioned = [], su_fleet = 0\<rparr>"

theorem signup_replay_is_noop_witness:
  "\<exists>a u'. complete_checkout default_signup_env example_event example_signup = (Inr (Some a), u') \<and>
     complete_checkout default_signup_env example_event u' = (Inr (Some a), u')"
proof -
  have "\<exists>a u'. complete_checkout default_signup_env example_event example_signup = (Inr (Some a), u')"
    by (simp add: complete_checkout_def default_signup_env_def fake_checkout_ops_def example_event_def
        parse_completed_def json_field_def json_get_def json_str_def tier_of_def example_signup_def bind_def seqm_def
        in_service_def record_billing_refs_def set_status_def require_def save_def Let_def get_acct_def
        mem_ops_def mem_get_account_def mem_save_account_def example_service_def example_account_def
        with_billing_refs_def)
  then obtain a u' where r: "complete_checkout default_signup_env example_event example_signup = (Inr (Some a), u')"
    by (elim exE)
  have "complete_checkout default_signup_env example_event u' = (Inr (Some a), u')"
    by (rule signup_replay_is_noop [OF _ _ r])
      (use example_service_ok [of TRIALING] in \<open>simp_all add: default_signup_env_def example_signup_def\<close>)
  with r show ?thesis by (intro exI conjI)
qed

text \<open>Checking a webhook signature raises, instead of answering, exactly when the signature or the
  expected digest holds a character outside ASCII.\<close>

theorem signature_check_raises:
  "verify_hmac_sha256 hmac_hex payload signature secret [] = Inl TypeError \<longleftrightarrow>
     \<not> is_ascii signature \<or> \<not> is_ascii (hmac_hex secret payload)"
  by (simp add: verify_hmac_sha256_def Let_def)

end
