(* ===== verification/Receivables.thy ===== *)
theory Receivables
  imports Complex_Main Predict
begin

text \<open>
  \<open>packages/ar/src/rgnr8_ar\<close>: the collections surface over the open invoices of the forecast
  (\<open>aging.py\<close>, \<open>report.py\<close>, \<open>chase.py\<close>, \<open>nudge.py\<close>). The days sales outstanding, a float in
  the code, is the exact quotient here.

  The lemmas give the aging buckets as sums over the invoices, show that the chase list is the
  overdue invoices in an order that does not depend on how they arrive, and compare the payment
  timing of the chase list with that of the forecast.
\<close>

section \<open>Aging\<close>

datatype aging_bucket = CURRENT | D1_30 | D31_60 | D60_PLUS

text \<open>\<open>BUCKET_ORDER\<close>, the ascending age, as the order of the type.\<close>

definition BUCKET_ORDER :: "aging_bucket list" where
  "BUCKET_ORDER = [CURRENT, D1_30, D31_60, D60_PLUS]"

fun bucket_rank :: "aging_bucket \<Rightarrow> nat" where
  "bucket_rank CURRENT = 0"
| "bucket_rank D1_30 = 1"
| "bucket_rank D31_60 = 2"
| "bucket_rank D60_PLUS = 3"

lemma bucket_rank_inj: "bucket_rank a = bucket_rank b \<longleftrightarrow> a = b"
  by (cases a; cases b; simp)

instantiation aging_bucket :: linorder
begin

definition less_eq_aging_bucket :: "aging_bucket \<Rightarrow> aging_bucket \<Rightarrow> bool" where
  "less_eq_aging_bucket a b \<longleftrightarrow> bucket_rank a \<le> bucket_rank b"

definition less_aging_bucket :: "aging_bucket \<Rightarrow> aging_bucket \<Rightarrow> bool" where
  "less_aging_bucket a b \<longleftrightarrow> bucket_rank a < bucket_rank b"

instance
  by standard (auto simp: less_eq_aging_bucket_def less_aging_bucket_def bucket_rank_inj)

end

definition days_overdue :: "date \<Rightarrow> date \<Rightarrow> int" where
  "days_overdue due_date as_of = as_of - due_date"

definition bucket_for :: "date \<Rightarrow> date \<Rightarrow> aging_bucket" where
  "bucket_for due_date as_of =
     (let overdue = days_overdue due_date as_of
      in if overdue \<le> 0 then CURRENT
         else if overdue \<le> 30 then D1_30
         else if overdue \<le> 60 then D31_60
         else D60_PLUS)"

record aging_summary =
  ag_as_of :: date
  ag_current :: money
  ag_d1_30 :: money
  ag_d31_60 :: money
  ag_d60_plus :: money
  ag_grand_total :: money

fun ag_amount :: "aging_summary \<Rightarrow> aging_bucket \<Rightarrow> money" where
  "ag_amount s CURRENT = ag_current s"
| "ag_amount s D1_30 = ag_d1_30 s"
| "ag_amount s D31_60 = ag_d31_60 s"
| "ag_amount s D60_PLUS = ag_d60_plus s"

definition as_mapping :: "aging_summary \<Rightarrow> (aging_bucket \<times> money) list" where
  "as_mapping s = map (\<lambda>b. (b, ag_amount s b)) BUCKET_ORDER"

definition overdue_total :: "aging_summary \<Rightarrow> money res" where
  "overdue_total s = money_sub (ag_grand_total s) (ag_current s)"

text \<open>The dictionary \<open>totals\<close> has every bucket as a key from the start: it is a function.\<close>

definition age_invoice :: "date \<Rightarrow> invoice \<Rightarrow> (aging_bucket \<Rightarrow> money) \<Rightarrow> (aging_bucket \<Rightarrow> money) res" where
  "age_invoice as_of iv totals =
     (let b = bucket_for (inv_due_date iv) as_of
      in res_bind (money_add (totals b) (inv_open_amount iv)) (\<lambda>m. Inr (totals(b := m))))"

definition summarize_aging :: "invoice list \<Rightarrow> date \<Rightarrow> string \<Rightarrow> aging_summary res" where
  "summarize_aging invoices as_of ccy =
     res_bind (fold_res (age_invoice as_of) invoices (\<lambda>_. money_zero ccy)) (\<lambda>totals.
     res_bind (fold_res (\<lambda>b grand. money_add grand (totals b)) BUCKET_ORDER (money_zero ccy)) (\<lambda>grand.
       Inr \<lparr>ag_as_of = as_of, ag_current = totals CURRENT, ag_d1_30 = totals D1_30,
            ag_d31_60 = totals D31_60, ag_d60_plus = totals D60_PLUS, ag_grand_total = grand\<rparr>))"

section \<open>The report\<close>

record ar_report =
  ar_as_of :: date
  ar_aging :: aging_summary
  ar_total :: money
  ar_overdue_total :: money
  ar_dso :: "rat option"

definition dso_of :: "money \<Rightarrow> money option \<Rightarrow> rat option res" where
  "dso_of grand avg_daily_sales =
     (case avg_daily_sales of
        None \<Rightarrow> Inr None
      | Some avg \<Rightarrow>
          if currency avg \<noteq> currency grand then Inl ValueError
          else if is_positive avg then Inr (Some (Fract (minor_units grand) (minor_units avg)))
          else Inr None)"

definition make_ar_report :: "invoice list \<Rightarrow> date \<Rightarrow> money option \<Rightarrow> string \<Rightarrow> ar_report res" where
  "make_ar_report invoices as_of avg_daily_sales ccy =
     res_bind (summarize_aging invoices as_of ccy) (\<lambda>aging.
     res_bind (dso_of (ag_grand_total aging) avg_daily_sales) (\<lambda>dso.
     res_bind (overdue_total aging) (\<lambda>od.
       Inr \<lparr>ar_as_of = as_of, ar_aging = aging, ar_total = ag_grand_total aging,
            ar_overdue_total = od, ar_dso = dso\<rparr>)))"

section \<open>The chase list\<close>

definition NEUTRAL_RISK_WEIGHT :: int where
  "NEUTRAL_RISK_WEIGHT = 100"

definition max_risk_bonus :: int where
  "max_risk_bonus = 100"

definition typical_days_late :: "customer_history option \<Rightarrow> int res" where
  "typical_days_late history =
     (case history of
        None \<Rightarrow> Inr 0
      | Some h \<Rightarrow>
          (case ch_override_days_late h of
             Some ov \<Rightarrow> Inr ov
           | None \<Rightarrow>
               let samples = map po_days_late (ch_observations h)
               in if samples = [] then Inr 0 else median_rounded samples))"

definition risk_weight :: "customer_history option \<Rightarrow> int res" where
  "risk_weight history =
     res_bind (typical_days_late history) (\<lambda>late.
       let bonus = max 0 (min late max_risk_bonus) in Inr (NEUTRAL_RISK_WEIGHT + bonus))"

record chase_item =
  ci_invoice :: invoice
  ci_days_overdue :: int
  ci_bucket :: aging_bucket
  ci_risk_score :: int
  ci_priority :: int

definition chase_step ::
  "date \<Rightarrow> (string \<times> customer_history) list \<Rightarrow> invoice \<Rightarrow> chase_item list \<Rightarrow> chase_item list res" where
  "chase_step as_of hist iv items =
     (let overdue = days_overdue (inv_due_date iv) as_of
      in if overdue \<le> 0 then Inr items
         else
           res_bind (risk_weight (map_of hist (inv_customer_id iv))) (\<lambda>weight.
             let priority = minor_units (inv_open_amount iv) * overdue * weight
             in Inr (items @ [\<lparr>ci_invoice = iv, ci_days_overdue = overdue,
                    ci_bucket = bucket_for (inv_due_date iv) as_of, ci_risk_score = weight,
                    ci_priority = priority\<rparr>])))"

definition chase_key :: "chase_item \<Rightarrow> int \<times> int \<times> int \<times> string" where
  "chase_key it =
     (ci_priority it, ci_days_overdue it, minor_units (inv_open_amount (ci_invoice it)),
      inv_id (ci_invoice it))"

definition chase_list ::
  "invoice list \<Rightarrow> date \<Rightarrow> (string \<times> customer_history) list option \<Rightarrow> chase_item list res" where
  "chase_list invoices as_of histories =
     (let hist = (case histories of Some h \<Rightarrow> h | None \<Rightarrow> [])
      in res_bind (fold_res (chase_step as_of hist) invoices []) (\<lambda>items.
           Inr (sort_key_reverse chase_key items)))"

section \<open>Nudges\<close>

datatype nudge_tone = FRIENDLY | FIRM | FINAL

fun tone_for :: "aging_bucket \<Rightarrow> nudge_tone" where
  "tone_for CURRENT = FRIENDLY"
| "tone_for D1_30 = FRIENDLY"
| "tone_for D31_60 = FIRM"
| "tone_for D60_PLUS = FINAL"

record collection_nudge =
  cn_invoice :: invoice
  cn_tone :: nudge_tone
  cn_subject :: string
  cn_body :: string

definition newline :: string where
  "newline = [CHR 0x0A]"

text \<open>The four texts, with the invoice id, the printed amount, the due date and the days.\<close>

definition reminder_upcoming :: "string \<Rightarrow> string \<Rightarrow> string \<Rightarrow> string \<times> string" where
  "reminder_upcoming i amt due =
     (''Friendly reminder: invoice '' @ i @ '' due '' @ due,
      ''Hi,'' @ newline @ newline @
      ''Just a friendly reminder that invoice '' @ i @ '' for '' @ amt @ '' '' @
      ''is due on '' @ due @ ''. If it is already on its way, thank you and '' @
      ''please disregard this note.'' @ newline @ newline @
      ''Thanks so much,'' @ newline @ ''Accounts Receivable'')"

definition reminder_recent :: "string \<Rightarrow> string \<Rightarrow> string \<Rightarrow> string \<Rightarrow> string \<times> string" where
  "reminder_recent i amt due days =
     (''Quick reminder: invoice '' @ i @ '' is '' @ days @ '' day(s) past due'',
      ''Hi,'' @ newline @ newline @
      ''We wanted to flag that invoice '' @ i @ '' for '' @ amt @ '' was due '' @
      ''on '' @ due @ '' and is now '' @ days @ '' day(s) past due. A quick payment '' @
      ''when you have a moment would be much appreciated.'' @ newline @ newline @
      ''Thanks,'' @ newline @ ''Accounts Receivable'')"

definition reminder_firm :: "string \<Rightarrow> string \<Rightarrow> string \<Rightarrow> string \<Rightarrow> string \<times> string" where
  "reminder_firm i amt due days =
     (''Past due: invoice '' @ i @ '' is '' @ days @ '' day(s) overdue'',
      ''Hello,'' @ newline @ newline @
      ''Our records show invoice '' @ i @ '' for '' @ amt @ '', due '' @ due @ '', is now '' @
      days @ '' day(s) overdue. Please arrange payment promptly, or reply so '' @
      ''we can sort out anything holding it up.'' @ newline @ newline @
      ''Regards,'' @ newline @ ''Accounts Receivable'')"

definition reminder_final :: "string \<Rightarrow> string \<Rightarrow> string \<Rightarrow> string \<Rightarrow> string \<times> string" where
  "reminder_final i amt due days =
     (''FINAL NOTICE: invoice '' @ i @ '' is '' @ days @ '' day(s) overdue'',
      ''Hello,'' @ newline @ newline @
      ''This is a final notice. Invoice '' @ i @ '' for '' @ amt @ '', due '' @ due @ '', '' @
      ''is now '' @ days @ '' day(s) overdue and requires immediate payment. Please '' @
      ''remit the full balance or contact us right away to avoid further '' @
      ''collection steps.'' @ newline @ newline @
      ''Accounts Receivable'')"

text \<open>The amount is printed by each branch, and printing it raises on an unknown currency.\<close>

definition draft_nudge :: "invoice \<Rightarrow> date \<Rightarrow> collection_nudge res" where
  "draft_nudge iv as_of =
     (let tone = tone_for (bucket_for (inv_due_date iv) as_of);
          overdue = days_overdue (inv_due_date iv) as_of;
          due = isoformat (inv_due_date iv);
          i = inv_id iv
      in res_bind (money_str (inv_open_amount iv)) (\<lambda>amt.
           let (subject, body) =
             (case tone of
                FRIENDLY \<Rightarrow> if overdue \<le> 0 then reminder_upcoming i amt due
                            else reminder_recent i amt due (str_int overdue)
              | FIRM \<Rightarrow> reminder_firm i amt due (str_int overdue)
              | FINAL \<Rightarrow> reminder_final i amt due (str_int overdue))
           in Inr \<lparr>cn_invoice = iv, cn_tone = tone, cn_subject = subject, cn_body = body\<rparr>))"

section \<open>Buckets\<close>

lemma bucket_for_mono: "as_of \<le> later \<Longrightarrow> bucket_for due as_of \<le> bucket_for due later"
  by (simp add: bucket_for_def days_overdue_def less_eq_aging_bucket_def Let_def)

lemma bucket_for_current: "bucket_for due as_of = CURRENT \<longleftrightarrow> as_of \<le> due"
  by (simp add: bucket_for_def days_overdue_def Let_def)

definition in_bucket :: "date \<Rightarrow> aging_bucket \<Rightarrow> invoice list \<Rightarrow> int" where
  "in_bucket as_of b invoices =
     (\<Sum>iv\<leftarrow>filter (\<lambda>iv. bucket_for (inv_due_date iv) as_of = b) invoices. minor_units (inv_open_amount iv))"

lemma in_bucket_partition:
  "in_bucket as_of CURRENT ivs + in_bucket as_of D1_30 ivs + in_bucket as_of D31_60 ivs +
     in_bucket as_of D60_PLUS ivs = (\<Sum>iv\<leftarrow>ivs. minor_units (inv_open_amount iv))"
proof (induction ivs)
  case (Cons iv ivs)
  then show ?case
    by (cases "bucket_for (inv_due_date iv) as_of") (simp_all add: in_bucket_def)
qed (simp add: in_bucket_def)

lemma not_current_bucket:
  "(\<Sum>iv\<leftarrow>ivs. minor_units (inv_open_amount iv)) - in_bucket as_of CURRENT ivs =
     (\<Sum>iv\<leftarrow>filter (\<lambda>iv. inv_due_date iv < as_of) ivs. minor_units (inv_open_amount iv))"
  by (induction ivs) (auto simp: in_bucket_def bucket_for_current)

lemma age_invoices:
  assumes "list_all (\<lambda>iv. currency (inv_open_amount iv) = ccy) ivs" "\<forall>b. currency (t b) = ccy"
  shows "fold_res (age_invoice as_of) ivs t =
    Inr (\<lambda>b. Money (minor_units (t b) + in_bucket as_of b ivs) ccy)"
  using assms
proof (induction ivs arbitrary: t)
  case Nil
  then have "t = (\<lambda>b. Money (minor_units (t b)) ccy)" by (metis money.collapse)
  then show ?case by (simp add: in_bucket_def)
next
  case (Cons iv ivs)
  let ?b = "bucket_for (inv_due_date iv) as_of"
  let ?t = "t(?b := Money (minor_units (t ?b) + minor_units (inv_open_amount iv)) ccy)"
  have "age_invoice as_of iv t = Inr ?t"
    using Cons.prems by (simp add: age_invoice_def money_add_same Let_def)
  moreover have "fold_res (age_invoice as_of) ivs ?t =
      Inr (\<lambda>b. Money (minor_units (?t b) + in_bucket as_of b ivs) ccy)"
    using Cons.prems by (intro Cons.IH) simp_all
  ultimately show ?case by (simp add: in_bucket_def fun_eq_iff)
qed

lemma age_invoices_foreign:
  assumes "list_ex (\<lambda>iv. currency (inv_open_amount iv) \<noteq> ccy) ivs" "\<forall>b. currency (t b) = ccy"
  shows "fold_res (age_invoice as_of) ivs t = Inl CurrencyMismatch"
  using assms
proof (induction ivs arbitrary: t)
  case (Cons iv ivs)
  show ?case
  proof (cases "currency (inv_open_amount iv) = ccy")
    case True
    with Cons show ?thesis by (simp add: age_invoice_def money_add_same Let_def)
  next
    case False
    with Cons.prems show ?thesis by (simp add: age_invoice_def money_add_def money_same_def Let_def)
  qed
qed simp

lemma summarize_aging_eq:
  "summarize_aging ivs as_of ccy =
     (if list_all (\<lambda>iv. currency (inv_open_amount iv) = ccy) ivs
      then Inr \<lparr>ag_as_of = as_of, ag_current = Money (in_bucket as_of CURRENT ivs) ccy,
                ag_d1_30 = Money (in_bucket as_of D1_30 ivs) ccy,
                ag_d31_60 = Money (in_bucket as_of D31_60 ivs) ccy,
                ag_d60_plus = Money (in_bucket as_of D60_PLUS ivs) ccy,
                ag_grand_total = Money (\<Sum>iv\<leftarrow>ivs. minor_units (inv_open_amount iv)) ccy\<rparr>
      else Inl CurrencyMismatch)"
proof (cases "list_all (\<lambda>iv. currency (inv_open_amount iv) = ccy) ivs")
  case True
  then show ?thesis
    using in_bucket_partition [of as_of ivs]
    by (simp add: summarize_aging_def age_invoices money_zero_def BUCKET_ORDER_def money_add_same)
next
  case False
  then have "list_ex (\<lambda>iv. currency (inv_open_amount iv) \<noteq> ccy) ivs"
    by (auto simp: list_all_iff list_ex_iff)
  with False show ?thesis
    by (simp only: if_False summarize_aging_def)
       (subst age_invoices_foreign, simp_all add: money_zero_def)
qed

section \<open>The chase list\<close>

definition is_overdue :: "date \<Rightarrow> invoice \<Rightarrow> bool" where
  "is_overdue as_of iv \<longleftrightarrow> inv_due_date iv < as_of"

lemma risk_weight_total: "\<exists>w. risk_weight h = Inr w \<and> 100 \<le> w \<and> w \<le> 200"
proof -
  obtain l where "typical_days_late h = Inr l"
    using median_rounded_total
    by (fastforce simp: typical_days_late_def Let_def split: option.splits)
  then show ?thesis
    by (simp add: risk_weight_def NEUTRAL_RISK_WEIGHT_def max_risk_bonus_def Let_def)
qed

text \<open>The score of one overdue invoice.\<close>

definition scored :: "date \<Rightarrow> (string \<times> customer_history) list \<Rightarrow> invoice \<Rightarrow> chase_item" where
  "scored as_of hist iv =
     (let w = projr (risk_weight (map_of hist (inv_customer_id iv)))
      in \<lparr>ci_invoice = iv, ci_days_overdue = as_of - inv_due_date iv,
          ci_bucket = bucket_for (inv_due_date iv) as_of, ci_risk_score = w,
          ci_priority = minor_units (inv_open_amount iv) * (as_of - inv_due_date iv) * w\<rparr>)"

lemma chase_step_eq:
  "chase_step as_of hist iv items =
     Inr (if is_overdue as_of iv then items @ [scored as_of hist iv] else items)"
  using risk_weight_total [of "map_of hist (inv_customer_id iv)"]
  by (auto simp: chase_step_def scored_def is_overdue_def days_overdue_def Let_def)

lemma fold_chase_step:
  "fold_res (chase_step as_of hist) ivs items =
     Inr (items @ map (scored as_of hist) (filter (is_overdue as_of) ivs))"
  by (induction ivs arbitrary: items) (simp_all add: chase_step_eq)

lemma chase_list_eq:
  "chase_list ivs as_of h =
     Inr (sort_key_reverse chase_key
       (map (scored as_of (case h of Some h \<Rightarrow> h | None \<Rightarrow> [])) (filter (is_overdue as_of) ivs)))"
  by (simp add: chase_list_def fold_chase_step Let_def)

lemma scored_simps [simp]:
  "ci_invoice (scored as_of hist iv) = iv" "ci_days_overdue (scored as_of hist iv) = as_of - inv_due_date iv"
  by (simp_all add: scored_def Let_def)

text \<open>A reverse sort by a key that tells the elements apart depends on the elements only.\<close>

lemma sort_key_reverse_unique:
  assumes "mset xs = mset ys" "distinct (map k xs)"
  shows "sort_key_reverse k xs = sort_key_reverse k ys"
proof -
  have d: "distinct (map k (rev xs))" using assms(2) by (simp add: rev_map [symmetric])
  have "sort_key k (rev ys) = sort_key k (rev xs)"
  proof (rule properties_for_sort_key)
    show "mset (sort_key k (rev xs)) = mset (rev ys)" using assms(1) by simp
    fix x assume x: "x \<in> set (sort_key k (rev xs))"
    have "filter (\<lambda>y. k x = k y) zs = [x]" if "mset zs = mset xs" for zs
    proof -
      have z: "distinct (map k zs)" "x \<in> set zs"
        using assms(2) x that by (metis mset_map mset_eq_imp_distinct_iff, metis set_mset_mset set_sort set_rev)
      then obtain us vs where zs: "zs = us @ x # vs" by (meson split_list)
      with z(1) have "filter (\<lambda>y. k x = k y) us = []" "filter (\<lambda>y. k x = k y) vs = []"
        by (force simp: filter_empty_conv image_iff)+
      with zs show ?thesis by simp
    qed
    from this [of "sort_key k (rev xs)"] this [of "rev ys"] assms(1)
    show "filter (\<lambda>y. k x = k y) (sort_key k (rev xs)) = filter (\<lambda>y. k x = k y) (rev ys)" by simp
  qed simp
  then show ?thesis by (simp add: sort_key_reverse_def)
qed

section \<open>Properties\<close>

text \<open>The aging summary raises \<open>CurrencyMismatch\<close> exactly when an invoice is in another currency.
  Otherwise each bucket is the sum of the open amounts that fall into it, the grand total is the
  sum over all invoices, and the overdue total is the sum over those due before the date.\<close>

theorem aging_reconciles:
  "(if list_all (\<lambda>iv. currency (inv_open_amount iv) = ccy) ivs
    then \<exists>s. summarize_aging ivs as_of ccy = Inr s \<and>
       (\<forall>b. ag_amount s b = Money (in_bucket as_of b ivs) ccy) \<and>
       ag_grand_total s = Money (\<Sum>iv\<leftarrow>ivs. minor_units (inv_open_amount iv)) ccy \<and>
       overdue_total s =
         Inr (Money (\<Sum>iv\<leftarrow>filter (is_overdue as_of) ivs. minor_units (inv_open_amount iv)) ccy)
    else summarize_aging ivs as_of ccy = Inl CurrencyMismatch)"
proof -
  have "ag_amount \<lparr>ag_as_of = as_of, ag_current = Money (in_bucket as_of CURRENT ivs) ccy,
      ag_d1_30 = Money (in_bucket as_of D1_30 ivs) ccy, ag_d31_60 = Money (in_bucket as_of D31_60 ivs) ccy,
      ag_d60_plus = Money (in_bucket as_of D60_PLUS ivs) ccy, ag_grand_total = g\<rparr> b =
      Money (in_bucket as_of b ivs) ccy" for b g
    by (cases b) simp_all
  then show ?thesis
    using not_current_bucket [of ivs as_of]
    by (simp add: summarize_aging_eq overdue_total_def money_sub_same is_overdue_def [abs_def])
qed

text \<open>The chase list never raises. It holds the overdue invoices, each once, and no other; every
  priority is the open amount times the days overdue times a risk weight from 100 to 200, and the
  list is in descending order of priority, days overdue, amount and invoice id.\<close>

theorem chase_list_exact:
  "\<exists>items. chase_list ivs as_of h = Inr items \<and>
     mset (map ci_invoice items) = mset (filter (\<lambda>iv. inv_due_date iv < as_of) ivs) \<and>
     sorted_wrt (\<lambda>a b. chase_key b \<le> chase_key a) items \<and>
     list_all (\<lambda>it. ci_priority it = minor_units (inv_open_amount (ci_invoice it)) *
         (as_of - inv_due_date (ci_invoice it)) * ci_risk_score it \<and>
       100 \<le> ci_risk_score it \<and> ci_risk_score it \<le> 200) items"
proof -
  let ?hist = "case h of Some h \<Rightarrow> h | None \<Rightarrow> []"
  have "100 \<le> ci_risk_score (scored as_of ?hist iv) \<and> ci_risk_score (scored as_of ?hist iv) \<le> 200" for iv
    using risk_weight_total [of "map_of ?hist (inv_customer_id iv)"] by (auto simp: scored_def Let_def)
  then show ?thesis
    by (simp add: chase_list_eq sorted_sort_key_reverse list_all_iff is_overdue_def [abs_def]
        multiset.map_comp comp_def)
       (simp add: scored_def Let_def)
qed

text \<open>When invoice ids are unique, the chase list does not depend on the order of the invoices.\<close>

theorem chase_list_order_independent:
  assumes "mset ivs = mset ivs'" "distinct (map inv_id ivs)"
  shows "chase_list ivs as_of h = chase_list ivs' as_of h"
proof -
  let ?items = "\<lambda>ivs. map (scored as_of (case h of Some h \<Rightarrow> h | None \<Rightarrow> [])) (filter (is_overdue as_of) ivs)"
  have "distinct (map inv_id (filter (is_overdue as_of) ivs))"
    using assms(2) by (simp add: distinct_map_filter)
  then have "distinct (map chase_key (?items ivs))"
    by (simp add: distinct_map inj_on_def chase_key_def)
  moreover have "mset (?items ivs) = mset (?items ivs')" using assms(1) by simp
  ultimately show ?thesis by (simp add: chase_list_eq sort_key_reverse_unique)
qed

definition example_due_invoice :: "string \<Rightarrow> date \<Rightarrow> int \<Rightarrow> invoice" where
  "example_due_invoice i d m =
     \<lparr>inv_id = i, inv_customer_id = ''C1'', inv_issue_date = 737900, inv_due_date = d,
      inv_open_amount = Money m ''USD'', inv_status = OPEN, inv_provenance = None\<rparr>"

theorem chase_list_order_independent_witness:
  "chase_list [example_due_invoice ''A'' 737990 500, example_due_invoice ''B'' 737990 500] 738000 None =
     chase_list [example_due_invoice ''B'' 737990 500, example_due_invoice ''A'' 737990 500] 738000 None"
  by (rule chase_list_order_independent) (simp_all add: example_due_invoice_def add_mset_commute)

text \<open>The chase list and the forecast agree on the typical lateness of a customer whose timing is
  overridden or who has enough observations. For every other customer the forecast uses its
  configured default, which the chase list ignores: it takes 0 without observations.\<close>

theorem chase_timing_versus_forecast:
  assumes "0 < min_history_observations config" "predict_days_late h config = Inr p"
  shows "(if list_ex (\<lambda>h. ch_override_days_late h \<noteq> None \<or>
            min_history_observations config \<le> int (length (ch_observations h))) (case h of None \<Rightarrow> [] | Some h \<Rightarrow> [h])
          then typical_days_late h = Inr (days_late p)
          else days_late p = default_payment_delay_days config) \<and>
    typical_days_late None = Inr 0"
  using assms
  by (auto simp: predict_days_late_def typical_days_late_def Let_def result_simps
      split: option.splits if_splits)

theorem chase_timing_versus_forecast_witness:
  "\<exists>p. predict_days_late None (default_config ''USD'') = Inr p \<and> days_late p = 5 \<and> typical_days_late None = Inr 0"
proof -
  obtain p where p: "predict_days_late None (default_config ''USD'') = Inr p"
    by (simp add: predict_days_late_def default_config_def Let_def)
  from chase_timing_versus_forecast [OF _ p] p show ?thesis
    by (intro exI [of _ p]) (simp add: default_config_def)
qed

end
