(* ===== verification/Alerts.thy ===== *)
theory Alerts
  imports Forecast
begin

text \<open>
  \<open>packages/alerts/src/rgnr8_alerts\<close>: the rules over a forecast result (\<open>rules.py\<close>), their
  evaluation worst first and the dispatcher that delivers each condition once and re-arms it
  when it clears (\<open>engine.py\<close>). The clock is an argument.

  The store of active keys and the sink are interfaces: the locale \<open>alert_state_store\<close> states
  what a store promises, \<open>alert_delivery\<close> adds a sink that does not raise, and the in-memory
  ones of the code are interpretations. The lemmas inside show that the dispatcher is an edge
  detector on the keys.
\<close>

section \<open>Alerts\<close>

datatype severity = INFO | WATCH | AT_RISK

fun severity_int :: "severity \<Rightarrow> int" where
  "severity_int INFO = 0"
| "severity_int WATCH = 1"
| "severity_int AT_RISK = 2"

text \<open>The values of the evidence dictionary.\<close>

datatype evidence_value = EvStr string | EvInt int | EvNone

record alert =
  al_key :: string
  al_severity :: severity
  al_title :: string
  al_message :: string
  al_evidence :: "(string \<times> evidence_value) list"
  al_at :: int

section \<open>Rules\<close>

definition ev_iso :: "date option \<Rightarrow> evidence_value" where
  "ev_iso d = (case d of Some d \<Rightarrow> EvStr (isoformat d) | None \<Rightarrow> EvNone)"

definition floor_breach_within_weeks :: "int \<Rightarrow> forecast_result \<Rightarrow> alert option res" where
  "floor_breach_within_weeks weeks r =
     (let pj = fr_projection r; br = pj_breach pj
      in case br_weeks_until br of
           None \<Rightarrow> Inr None
         | Some wk \<Rightarrow>
             if \<not> br_breached br then Inr None
             else if weeks < wk then Inr None
             else
               let at_date = (case br_first_date br of
                      Some d \<Rightarrow> '' (around '' @ isoformat d @ '')'' | None \<Rightarrow> [])
               in res_bind (format_money (pj_effective_floor pj)) (\<lambda>fl.
                  res_bind (format_money (br_worst_shortfall br)) (\<lambda>short.
                    Inr (Some \<lparr>al_key = ''floor_breach_within_'' @ str_int weeks @ ''w'',
                      al_severity = AT_RISK, al_title = ''Cash floor breach forming'',
                      al_message = ''Cash is projected to fall below your '' @ fl @
                        '' floor in week '' @ str_int wk @ at_date @ '', short by up to '' @ short @ ''.'',
                      al_evidence =
                        [(''kind'', EvStr ''floor_breach_within_weeks''), (''threshold_weeks'', EvInt weeks),
                         (''weeks_until'', EvInt wk), (''first_date'', ev_iso (br_first_date br)),
                         (''worst_shortfall_minor'', EvInt (minor_units (br_worst_shortfall br))),
                         (''floor_minor'', EvInt (minor_units (pj_effective_floor pj))),
                         (''currency'', EvStr (pj_currency pj))],
                      al_at = 0\<rparr>))))"

definition balance_below :: "money \<Rightarrow> forecast_result \<Rightarrow> alert option res" where
  "balance_below amt r =
     (let pj = fr_projection r; trough = pj_trough pj
      in if currency (ct_balance trough) \<noteq> currency amt then Inr None
         else if minor_units amt \<le> minor_units (ct_balance trough) then Inr None
         else
           res_bind (format_money (ct_balance trough)) (\<lambda>low.
           res_bind (format_money amt) (\<lambda>threshold.
             Inr (Some \<lparr>al_key = ''balance_below_'' @ currency amt @ ''_'' @ str_int (minor_units amt),
               al_severity = WATCH, al_title = ''Projected balance below threshold'',
               al_message = ''Projected cash reaches a low of '' @ low @ '' around '' @
                 isoformat (ct_on_date trough) @ '', below your '' @ threshold @ '' threshold.'',
               al_evidence =
                 [(''kind'', EvStr ''balance_below''), (''threshold_minor'', EvInt (minor_units amt)),
                  (''trough_minor'', EvInt (minor_units (ct_balance trough))),
                  (''trough_on'', EvStr (isoformat (ct_on_date trough))),
                  (''currency'', EvStr (pj_currency pj))],
               al_at = 0\<rparr>))))"

text \<open>The loop over the weeks: the first week with the largest drop above the threshold.\<close>

definition worse_week :: "money \<Rightarrow> week_line \<Rightarrow> week_line option \<times> int \<Rightarrow> week_line option \<times> int" where
  "worse_week amt week = (\<lambda>(worst_week, worst_drop).
     if currency (wl_closing week) \<noteq> currency amt then (worst_week, worst_drop)
     else
       let fall = minor_units (wl_opening week) - minor_units (wl_closing week)
       in if minor_units amt < fall \<and> worst_drop < fall then (Some week, fall)
          else (worst_week, worst_drop))"

definition large_outflow :: "money \<Rightarrow> forecast_result \<Rightarrow> alert option res" where
  "large_outflow amt r =
     (let pj = fr_projection r
      in case fold (worse_week amt) (pj_weeks pj) (None, 0) of
           (None, _) \<Rightarrow> Inr None
         | (Some week, worst_drop) \<Rightarrow>
             res_bind (format_money (Money worst_drop (pj_currency pj))) (\<lambda>out.
             res_bind (format_money amt) (\<lambda>threshold.
               Inr (Some \<lparr>al_key = ''large_outflow_over_'' @ currency amt @ ''_'' @
                   str_int (minor_units amt) @ '':'' @ isoformat (wl_start week),
                 al_severity = WATCH, al_title = ''Large single-week outflow'',
                 al_message = ''A large net outflow of '' @ out @ '' is projected in week '' @
                   str_int (wl_index week) @ '' (starting '' @ isoformat (wl_start week) @
                   ''), above your '' @ threshold @ '' threshold.'',
                 al_evidence =
                   [(''kind'', EvStr ''large_outflow''), (''threshold_minor'', EvInt (minor_units amt)),
                    (''week_index'', EvInt (wl_index week)),
                    (''week_start'', EvStr (isoformat (wl_start week))), (''drop_minor'', EvInt worst_drop),
                    (''currency'', EvStr (pj_currency pj))],
                 al_at = 0\<rparr>))))"

definition trough_worsened :: "money \<Rightarrow> forecast_result \<Rightarrow> alert option res" where
  "trough_worsened vs r =
     (let pj = fr_projection r; trough = pj_trough pj
      in if currency (ct_balance trough) \<noteq> currency vs then Inr None
         else if minor_units vs \<le> minor_units (ct_balance trough) then Inr None
         else
           let worse_by = Money (minor_units vs - minor_units (ct_balance trough)) (pj_currency pj)
           in res_bind (format_money (ct_balance trough)) (\<lambda>low.
              res_bind (format_money worse_by) (\<lambda>worse.
              res_bind (format_money vs) (\<lambda>prior.
                Inr (Some \<lparr>al_key = ''trough_worsened_vs_'' @ currency vs @ ''_'' @ str_int (minor_units vs),
                  al_severity = INFO, al_title = ''Cash trough worsened vs. prior forecast'',
                  al_message = ''The projected cash trough of '' @ low @ '' (around '' @
                    isoformat (ct_on_date trough) @ '') is '' @ worse @
                    '' worse than the prior baseline of '' @ prior @ ''.'',
                  al_evidence =
                    [(''kind'', EvStr ''trough_worsened''), (''baseline_minor'', EvInt (minor_units vs)),
                     (''trough_minor'', EvInt (minor_units (ct_balance trough))),
                     (''worse_by_minor'', EvInt (minor_units worse_by)),
                     (''trough_on'', EvStr (isoformat (ct_on_date trough))),
                     (''currency'', EvStr (pj_currency pj))],
                  al_at = 0\<rparr>)))))"

section \<open>Evaluation\<close>

text \<open>A rule is anything with an \<open>evaluate\<close> method.\<close>

type_synonym alert_rule = "forecast_result \<Rightarrow> alert option res"

definition fire_rule :: "forecast_result \<Rightarrow> int \<Rightarrow> alert_rule \<Rightarrow> alert list \<Rightarrow> alert list res" where
  "fire_rule forecast at_time rule fired =
     res_bind (rule forecast) (\<lambda>a. Inr (case a of
        Some alert \<Rightarrow> fired @ [alert\<lparr>al_at := at_time\<rparr>] | None \<Rightarrow> fired))"

definition alert_key_of :: "alert \<Rightarrow> int \<times> string" where
  "alert_key_of a = (- severity_int (al_severity a), al_key a)"

definition evaluate :: "forecast_result \<Rightarrow> alert_rule list \<Rightarrow> int \<Rightarrow> alert list res" where
  "evaluate forecast rules clock =
     res_bind (fold_res (fire_rule forecast clock) rules []) (\<lambda>fired. Inr (sort_key alert_key_of fired))"

section \<open>Dispatch\<close>

text \<open>The protocol \<open>AlertStateStore\<close>. The keys come back as a set: no order is promised.\<close>

record 's state_store_ops =
  ss_active_keys :: "'s \<Rightarrow> string list"
  ss_is_active :: "'s \<Rightarrow> string \<Rightarrow> bool"
  ss_mark :: "string \<Rightarrow> 's \<Rightarrow> 's"
  ss_unmark :: "string \<Rightarrow> 's \<Rightarrow> 's"

definition mem_alert_state :: "string list state_store_ops" where
  "mem_alert_state =
     \<lparr>ss_active_keys = (\<lambda>s. s), ss_is_active = (\<lambda>s k. List.member s k),
      ss_mark = List.insert, ss_unmark = removeAll\<rparr>"

text \<open>A sink is a \<open>send\<close>; the in-memory one records, any callable is one.\<close>

type_synonym 'k alert_sink = "alert \<Rightarrow> ('k, unit) meth"

definition memory_sink :: "alert list alert_sink" where
  "memory_sink a = modify (\<lambda>sent. sent @ [a])"

definition callable_sink :: "(alert \<Rightarrow> ('k, unit) meth) \<Rightarrow> 'k alert_sink" where
  "callable_sink fn a = fn a"

record ('s, 'k) dispatcher =
  dp_store :: 's
  dp_sink :: 'k
  last_dispatch_at :: int

definition call_sink :: "'k alert_sink \<Rightarrow> alert \<Rightarrow> (('s, 'k) dispatcher, unit) meth" where
  "call_sink send a d = (let (r, k) = send a (dp_sink d) in (r, d\<lparr>dp_sink := k\<rparr>))"

definition store_do :: "('s \<Rightarrow> 's) \<Rightarrow> (('s, 'k) dispatcher, unit) meth" where
  "store_do f = modify (\<lambda>d. d\<lparr>dp_store := f (dp_store d)\<rparr>)"

primrec deliver ::
  "'s state_store_ops \<Rightarrow> 'k alert_sink \<Rightarrow> alert list \<Rightarrow> string list \<Rightarrow> alert list
     \<Rightarrow> (('s, 'k) dispatcher, alert list) meth" where
  "deliver ops send [] seen delivered = ret delivered"
| "deliver ops send (a # as) seen delivered =
     (if List.member seen (al_key a) then deliver ops send as seen delivered
      else
        bind (gets (\<lambda>d. ss_is_active ops (dp_store d) (al_key a))) (\<lambda>active.
          if active then deliver ops send as (al_key a # seen) delivered
          else
            seqm (store_do (ss_mark ops (al_key a)))
              (seqm (call_sink send a) (deliver ops send as (al_key a # seen) (delivered @ [a])))))"

definition rearm :: "'s state_store_ops \<Rightarrow> string list \<Rightarrow> 's \<Rightarrow> 's" where
  "rearm ops present s =
     fold (\<lambda>k s. if \<not> List.member present k then ss_unmark ops k s else s) (ss_active_keys ops s) s"

definition dispatch ::
  "'s state_store_ops \<Rightarrow> 'k alert_sink \<Rightarrow> int \<Rightarrow> alert list \<Rightarrow> (('s, 'k) dispatcher, alert list) meth" where
  "dispatch ops send clock alerts =
     seqm (modify (\<lambda>d. d\<lparr>last_dispatch_at := clock\<rparr>))
       (seqm (store_do (rearm ops (map al_key alerts)))
         (deliver ops send alerts [] []))"

definition new_dispatcher :: "'s \<Rightarrow> 'k \<Rightarrow> ('s, 'k) dispatcher" where
  "new_dispatcher s k = \<lparr>dp_store = s, dp_sink = k, last_dispatch_at = 0\<rparr>"

section \<open>The dispatcher as an edge detector\<close>

text \<open>
  The specification: of the alerts of a tick, those whose key was not active, the first of each
  key.
\<close>

primrec newly :: "string set \<Rightarrow> alert list \<Rightarrow> alert list" where
  "newly A [] = []"
| "newly A (a # as) =
     (if al_key a \<in> A then newly A as else a # newly (insert (al_key a) A) as)"

primrec edges :: "string set \<Rightarrow> (int \<times> alert list) list \<Rightarrow> alert list list" where
  "edges A [] = []"
| "edges A (t # ts) = newly A (snd t) # edges (set (map al_key (snd t))) ts"

text \<open>A run of ticks, each with its time and its alerts.\<close>

primrec run_ticks ::
  "'s state_store_ops \<Rightarrow> 'k alert_sink \<Rightarrow> (int \<times> alert list) list
     \<Rightarrow> (('s, 'k) dispatcher, alert list list) meth" where
  "run_ticks ops send [] = ret []"
| "run_ticks ops send (t # ts) =
     bind (dispatch ops send (fst t) (snd t)) (\<lambda>out.
       bind (run_ticks ops send ts) (\<lambda>outs. ret (out # outs)))"

definition active_set :: "'s state_store_ops \<Rightarrow> ('s, 'k) dispatcher \<Rightarrow> string set" where
  "active_set ops d = set (ss_active_keys ops (dp_store d))"

definition send_all :: "'k alert_sink \<Rightarrow> alert list \<Rightarrow> 'k \<Rightarrow> 'k" where
  "send_all send as k = fold (\<lambda>a k. snd (send a k)) as k"

lemma newly_cong: "A \<inter> al_key ` set as = B \<inter> al_key ` set as \<Longrightarrow> newly A as = newly B as"
proof (induction as arbitrary: A B)
  case (Cons a as)
  then have "al_key a \<in> A \<longleftrightarrow> al_key a \<in> B" by auto
  moreover have "newly A as = newly B as" "newly (insert (al_key a) A) as = newly (insert (al_key a) B) as"
    using Cons.prems by (auto intro: Cons.IH)
  ultimately show ?case by simp
qed simp

lemma newly_keys: "al_key ` set (newly A as) = al_key ` set as - A"
  by (induction as arbitrary: A) auto

lemma newly_distinct: "distinct (map al_key (newly A as))"
  by (induction as arbitrary: A) (simp_all add: newly_keys)

lemma length_edges [simp]: "length (edges A ts) = length ts"
  by (induction ts arbitrary: A) simp_all

lemma edges_nth:
  "i < length ts \<Longrightarrow>
     edges A ts ! i = newly (if i = 0 then A else al_key ` set (snd (ts ! (i - 1)))) (snd (ts ! i))"
  by (induction ts arbitrary: A i) (auto simp: nth_Cons split: nat.splits)

locale alert_state_store =
  fixes ops :: "'s state_store_ops" and ok :: "'s \<Rightarrow> bool"
  assumes mark_ok: "ok s \<Longrightarrow> ok (ss_mark ops k s)"
    and unmark_ok: "ok s \<Longrightarrow> ok (ss_unmark ops k s)"
    and active_mark: "ok s \<Longrightarrow> set (ss_active_keys ops (ss_mark ops k s)) = insert k (set (ss_active_keys ops s))"
    and active_unmark: "ok s \<Longrightarrow> set (ss_active_keys ops (ss_unmark ops k s)) = set (ss_active_keys ops s) - {k}"
    and is_active: "ok s \<Longrightarrow> ss_is_active ops s k \<longleftrightarrow> k \<in> set (ss_active_keys ops s)"
begin

lemma rearm_fold:
  "ok s \<Longrightarrow>
     ok (fold (\<lambda>k s. if \<not> List.member P k then ss_unmark ops k s else s) ks s) \<and>
     set (ss_active_keys ops (fold (\<lambda>k s. if \<not> List.member P k then ss_unmark ops k s else s) ks s)) =
       set (ss_active_keys ops s) - (set ks - set P)"
  by (induction ks arbitrary: s) (auto simp: unmark_ok active_unmark)

lemma rearm_keeps_present:
  "ok s \<Longrightarrow> ok (rearm ops P s) \<and>
     set (ss_active_keys ops (rearm ops P s)) = set (ss_active_keys ops s) \<inter> set P"
  using rearm_fold [of s P "ss_active_keys ops s"] by (auto simp: rearm_def)

end

text \<open>A store together with a sink that does not raise.\<close>

locale alert_delivery = alert_state_store ops ok
  for ops :: "'s state_store_ops" and ok :: "'s \<Rightarrow> bool" +
  fixes send :: "'k alert_sink"
  assumes send_returns: "fst (send a k) = Inr ()"
begin

lemma call_sink_eq: "call_sink send a d = (Inr (), d\<lparr>dp_sink := snd (send a (dp_sink d))\<rparr>)"
  using send_returns [of a "dp_sink d"] by (cases "send a (dp_sink d)") (simp add: call_sink_def)

lemma deliver_newly:
  assumes "ok (dp_store d)" "set seen \<subseteq> active_set ops d"
  shows "\<exists>d'. deliver ops send as seen out d = (Inr (out @ newly (active_set ops d) as), d') \<and>
    ok (dp_store d') \<and> active_set ops d' = active_set ops d \<union> al_key ` set as \<and>
    dp_sink d' = send_all send (newly (active_set ops d) as) (dp_sink d) \<and>
    last_dispatch_at d' = last_dispatch_at d"
  using assms
proof (induction as arbitrary: seen out d)
  case Nil
  then show ?case by (simp add: send_all_def)
next
  case (Cons a as)
  show ?case
  proof (cases "al_key a \<in> active_set ops d")
    case True
    then show ?thesis
      using Cons.IH [of d seen out] Cons.IH [of d "al_key a # seen" out] Cons.prems
      by (auto simp: is_active active_set_def insert_absorb)
  next
    case False
    let ?d = "d\<lparr>dp_store := ss_mark ops (al_key a) (dp_store d), dp_sink := snd (send a (dp_sink d))\<rparr>"
    have s: "active_set ops ?d = insert (al_key a) (active_set ops d)" "ok (dp_store ?d)"
      using Cons.prems(1) by (simp_all add: active_set_def active_mark mark_ok)
    have "al_key a \<notin> set seen" using False Cons.prems(2) by blast
    then have "deliver ops send (a # as) seen out d = deliver ops send as (al_key a # seen) (out @ [a]) ?d"
      using False Cons.prems(1) by (simp add: is_active active_set_def store_do_def call_sink_eq)
    with Cons.IH [of ?d "al_key a # seen" "out @ [a]"] s False Cons.prems(2) show ?thesis
      by (auto simp: send_all_def)
  qed
qed

lemma dispatch_newly:
  assumes "ok (dp_store d)"
  shows "\<exists>d'. dispatch ops send t as d = (Inr (newly (active_set ops d) as), d') \<and>
    ok (dp_store d') \<and> active_set ops d' = al_key ` set as \<and>
    dp_sink d' = send_all send (newly (active_set ops d) as) (dp_sink d) \<and> last_dispatch_at d' = t"
proof -
  let ?d = "d\<lparr>last_dispatch_at := t, dp_store := rearm ops (map al_key as) (dp_store d)\<rparr>"
  have s: "ok (dp_store ?d)" "active_set ops ?d = active_set ops d \<inter> al_key ` set as"
    using rearm_keeps_present [OF assms, of "map al_key as"] by (simp_all add: active_set_def)
  have "newly (active_set ops ?d) as = newly (active_set ops d) as"
    by (rule newly_cong) (auto simp: s)
  then show ?thesis
    using deliver_newly [of ?d "[]" as "[]"] s by (auto simp: dispatch_def store_do_def)
qed

lemma run_ticks_edges:
  assumes "ok (dp_store d)"
  shows "\<exists>d'. run_ticks ops send ts d = (Inr (edges (active_set ops d) ts), d') \<and>
    dp_sink d' = send_all send (concat (edges (active_set ops d) ts)) (dp_sink d)"
  using assms
proof (induction ts arbitrary: d)
  case Nil
  then show ?case by (simp add: send_all_def)
next
  case (Cons t ts)
  from dispatch_newly [OF Cons.prems, of "fst t" "snd t"] obtain d1 where
    d1: "dispatch ops send (fst t) (snd t) d = (Inr (newly (active_set ops d) (snd t)), d1)"
      "ok (dp_store d1)" "active_set ops d1 = al_key ` set (snd t)"
      "dp_sink d1 = send_all send (newly (active_set ops d) (snd t)) (dp_sink d)" by blast
  from Cons.IH [OF d1(2)] obtain d2 where
    "run_ticks ops send ts d1 = (Inr (edges (al_key ` set (snd t)) ts), d2)"
    "dp_sink d2 = send_all send (concat (edges (al_key ` set (snd t)) ts)) (dp_sink d1)"
    unfolding d1(3) by blast
  with d1 show ?case by (simp add: send_all_def)
qed

end

interpretation mem_alerts: alert_delivery mem_alert_state "\<lambda>_. True" memory_sink
  by unfold_locales (auto simp: mem_alert_state_def memory_sink_def)

section \<open>When a rule fires\<close>

text \<open>Comparing a week number is comparing a day.\<close>

lemma week_of_day: "j div 7 + 1 \<le> w \<longleftrightarrow> j < 7 * w" for j w :: int
  by presburger

lemma floor_breach_returns:
  assumes "known_currency (currency (pj_effective_floor (fr_projection r)))"
    "known_currency (currency (br_worst_shortfall (pj_breach (fr_projection r))))"
  shows "\<exists>a. floor_breach_within_weeks w r = Inr a \<and>
    (a \<noteq> None \<longleftrightarrow> br_breached (pj_breach (fr_projection r)) \<and>
       (case br_weeks_until (pj_breach (fr_projection r)) of None \<Rightarrow> False | Some wk \<Rightarrow> wk \<le> w))"
  using assms [THEN format_money_total]
  by (auto simp: floor_breach_within_weeks_def Let_def split: option.splits)

lemma balance_below_returns:
  assumes "known_currency (currency amt)" "currency (ct_balance (pj_trough (fr_projection r))) = currency amt"
  shows "\<exists>a. balance_below amt r = Inr a \<and>
    (a \<noteq> None \<longleftrightarrow> minor_units (ct_balance (pj_trough (fr_projection r))) < minor_units amt)"
proof -
  obtain x y where "format_money amt = Inr x" "format_money (ct_balance (pj_trough (fr_projection r))) = Inr y"
    using assms format_money_total by metis
  with assms(2) show ?thesis by (auto simp: balance_below_def Let_def)
qed

lemma worse_week_fold:
  assumes "list_all (\<lambda>w. currency (wl_closing w) = currency amt) ws" "0 \<le> d" "wk = None \<longleftrightarrow> d = 0"
  shows "case fold (worse_week amt) ws (wk, d) of (wk', d') \<Rightarrow>
    0 \<le> d' \<and> (wk' = None \<longleftrightarrow> d' = 0) \<and>
    (wk' \<noteq> None \<longleftrightarrow> wk \<noteq> None \<or>
      (\<exists>w\<in>set ws. max 0 (minor_units amt) < minor_units (wl_opening w) - minor_units (wl_closing w)))"
  using assms
proof (induction ws arbitrary: wk d)
  case (Cons w ws)
  let ?fall = "minor_units (wl_opening w) - minor_units (wl_closing w)"
  obtain wk1 d1 where 1: "worse_week amt w (wk, d) = (wk1, d1)" by (cases "worse_week amt w (wk, d)")
  have "0 \<le> d1" "wk1 = None \<longleftrightarrow> d1 = 0" "wk1 \<noteq> None \<longleftrightarrow> wk \<noteq> None \<or> max 0 (minor_units amt) < ?fall"
    using 1 Cons.prems by (auto simp: worse_week_def Let_def split: if_splits)
  with 1 Cons.IH [of d1 wk1] Cons.prems(1) show ?case
    by (auto split: prod.splits)
qed auto

section \<open>Properties\<close>

text \<open>C29. Over a projection in a known currency, the floor rule raises nowhere and fires exactly when the
  balance ends a day below the floor within the first \<open>weeks\<close> weeks of the horizon.\<close>

theorem floor_alert_iff_breach_day:
  assumes "compute_projection op rs flows config as_of = Inr (fr_projection r)"
    and "known_currency (cfg_currency config)" "known_currency (currency rs)"
  shows "\<exists>a. floor_breach_within_weeks weeks r = Inr a \<and>
    (a \<noteq> None \<longleftrightarrow>
      (\<exists>i. 0 \<le> i \<and> i < 7 * min weeks (horizon_weeks config) \<and>
         end_of_day (minor_units op) as_of flows i < minor_units (minimum_cash config) + minor_units rs))"
proof -
  let ?b = "end_of_day (minor_units op) as_of flows"
    and ?fl = "minor_units (minimum_cash config) + minor_units rs" and ?n = "7 * horizon_weeks config"
  note f = projection_fields [OF assms(1)]
  from f(11) obtain w where w: "follows ?b as_of ?fl ?n w"
    and br: "br_breached (pj_breach (fr_projection r)) \<longleftrightarrow> first_breach w \<noteq> None"
      "br_weeks_until (pj_breach (fr_projection r)) = map_option (\<lambda>d. (d - as_of) div 7 + 1) (first_breach w)"
      "currency (br_worst_shortfall (pj_breach (fr_projection r))) = cfg_currency config" by auto
  have days: "(case first_breach w of None \<Rightarrow> False | Some d \<Rightarrow> (d - as_of) div 7 + 1 \<le> weeks) \<longleftrightarrow>
      (\<exists>i. 0 \<le> i \<and> i < 7 * min weeks (horizon_weeks config) \<and> ?b i < ?fl)"
  proof (cases "first_breach w")
    case None
    with w show ?thesis by (fastforce simp: follows_def first_below_def)
  next
    case (Some d)
    with w obtain j where j: "0 \<le> j" "j < ?n" "d = as_of + j" "?b j < ?fl" "\<forall>k. 0 \<le> k \<and> k < j \<longrightarrow> ?fl \<le> ?b k"
      by (auto simp: follows_def first_below_def)
    have "j < 7 * weeks \<longleftrightarrow> (\<exists>i. 0 \<le> i \<and> i < 7 * min weeks (horizon_weeks config) \<and> ?b i < ?fl)"
    proof
      assume "j < 7 * weeks"
      with j show "\<exists>i. 0 \<le> i \<and> i < 7 * min weeks (horizon_weeks config) \<and> ?b i < ?fl"
        by (intro exI [of _ j]) simp
    next
      assume "\<exists>i. 0 \<le> i \<and> i < 7 * min weeks (horizon_weeks config) \<and> ?b i < ?fl"
      then obtain i where "0 \<le> i" "i < 7 * weeks" "?b i < ?fl" by auto
      moreover from this j(5) have "\<not> i < j" by fastforce
      ultimately show "j < 7 * weeks" by simp
    qed
    with Some j(3) show ?thesis by (simp add: week_of_day)
  qed
  have "known_currency (currency (pj_effective_floor (fr_projection r)))" using f(6) assms(3) by simp
  moreover have "known_currency (currency (br_worst_shortfall (pj_breach (fr_projection r))))"
    using br(3) assms(2) by simp
  ultimately obtain a where a: "floor_breach_within_weeks weeks r = Inr a"
    "a \<noteq> None \<longleftrightarrow> br_breached (pj_breach (fr_projection r)) \<and>
       (case br_weeks_until (pj_breach (fr_projection r)) of None \<Rightarrow> False | Some wk \<Rightarrow> wk \<le> weeks)"
    using floor_breach_returns by blast
  then have "a \<noteq> None \<longleftrightarrow> (case first_breach w of None \<Rightarrow> False | Some d \<Rightarrow> (d - as_of) div 7 + 1 \<le> weeks)"
    unfolding br by (cases "first_breach w") simp_all
  with a(1) days show ?thesis by (intro exI [of _ a]) simp
qed

definition result_of :: "projection \<Rightarrow> forecast_result" where
  "result_of pj =
     \<lparr>fr_scenario = BASE,
      fr_version = \<lparr>fv_engine_version = [], fv_assumption_version = [], fv_mapping_version = [],
        fv_model_version = [], fv_timezone = [], fv_rounding_policy = [], fv_scenario = BASE,
        fv_input_fingerprint = [], fv_status = PRELIMINARY, fv_published_at = None, fv_reviewer = None\<rparr>,
      fr_projection = pj, fr_flows = [], fr_overall_confidence = 100, fr_data_quality = [],
      fr_headline = [], fr_recommended_action = None\<rparr>"

lemma result_of_projection [simp]: "fr_projection (result_of pj) = pj"
  by (simp add: result_of_def)

lemma known_usd [simp]: "known_currency ''USD''"
  by (simp add: known_currency_def currency_scale_def)

lemma example_config_usd [simp]: "cfg_currency example_config = ''USD''"
  by (simp add: example_config_def)

theorem floor_alert_iff_breach_day_witness:
  "\<exists>pj a. example_run = Inr pj \<and> floor_breach_within_weeks 1 (result_of pj) = Inr (Some a)"
proof -
  from example_projection obtain pj where pj: "example_run = Inr pj" by (elim exE)
  have "\<exists>i::int. 0 \<le> i \<and> i < 7 \<and> end_of_day 100 738000 example_flows i < 20"
    by (rule exI [of _ 2]) (simp add: example_end_of_day)
  with floor_alert_iff_breach_day [of "Money 100 ''USD''" "Money 20 ''USD''" example_flows example_config
      738000 "result_of pj" 1] pj
  show ?thesis by (auto simp: example_run_def)
qed

text \<open>The threshold rules compare the path of the balance: \<open>BalanceBelow\<close> fires exactly when the
  opening or some day of the horizon ends below the amount, \<open>LargeOutflow\<close> exactly when some week
  loses more than the amount (and more than nothing).\<close>

theorem threshold_alerts_exact:
  assumes "compute_projection op rs flows config as_of = Inr (fr_projection r)"
    and "known_currency (cfg_currency config)" "currency amt = cfg_currency config"
  shows "\<exists>a b. balance_below amt r = Inr a \<and> large_outflow amt r = Inr b \<and>
    (a \<noteq> None \<longleftrightarrow> (\<exists>i. - 1 \<le> i \<and> i < 7 * horizon_weeks config \<and>
       end_of_day (minor_units op) as_of flows i < minor_units amt)) \<and>
    (b \<noteq> None \<longleftrightarrow> (\<exists>k. 0 \<le> k \<and> k < horizon_weeks config \<and>
       max 0 (minor_units amt) < end_of_day (minor_units op) as_of flows (7 * k - 1) -
         end_of_day (minor_units op) as_of flows (7 * k + 6)))"
proof -
  let ?b = "end_of_day (minor_units op) as_of flows" and ?n = "horizon_weeks config"
    and ?pj = "fr_projection r"
  note f = projection_fields [OF assms(1)]
  from f(11) obtain w where fw: "follows ?b as_of (minor_units (minimum_cash config) + minor_units rs) (7 * ?n) w"
    and tw: "pj_trough ?pj = \<lparr>ct_on_date = trough_date w, ct_balance = Money (trough_val w) (cfg_currency config)\<rparr>"
    by (elim exE conjE)
  then have w: "trough_of ?b as_of (7 * ?n) (trough_val w) (trough_date w)"
    and t: "ct_balance (pj_trough ?pj) = Money (trough_val w) (cfg_currency config)"
    by (simp_all add: follows_def)
  from w have low: "trough_val w < minor_units amt \<longleftrightarrow>
      (\<exists>i. - 1 \<le> i \<and> i < 7 * ?n \<and> ?b i < minor_units amt)"
    unfolding trough_of_def by (metis order_le_less_trans)
  obtain a where a: "balance_below amt r = Inr a"
    "a \<noteq> None \<longleftrightarrow> (\<exists>i. - 1 \<le> i \<and> i < 7 * ?n \<and> ?b i < minor_units amt)"
    using balance_below_returns [of amt r] assms(2,3) t low by auto
  obtain wk d where wd: "fold (worse_week amt) (pj_weeks ?pj) (None, 0) = (wk, d)"
    by (cases "fold (worse_week amt) (pj_weeks ?pj) (None, 0)")
  have "list_all (\<lambda>w. currency (wl_closing w) = currency amt) (pj_weeks ?pj)"
    by (simp add: f(2) assms(3) list_all_iff line_at_def Let_def)
  from worse_week_fold [OF this, of 0 None] wd have "wk \<noteq> None \<longleftrightarrow>
      (\<exists>w\<in>set (pj_weeks ?pj). max 0 (minor_units amt) < minor_units (wl_opening w) - minor_units (wl_closing w))"
    by auto
  also have "\<dots> \<longleftrightarrow> (\<exists>k. 0 \<le> k \<and> k < ?n \<and> max 0 (minor_units amt) < ?b (7 * k - 1) - ?b (7 * k + 6))"
    by (auto simp: f(2) line_at_def Let_def)
  finally have weeks: "wk \<noteq> None \<longleftrightarrow>
      (\<exists>k. 0 \<le> k \<and> k < ?n \<and> max 0 (minor_units amt) < ?b (7 * k - 1) - ?b (7 * k + 6))" .
  obtain x y where "format_money amt = Inr x" "format_money (Money d (pj_currency ?pj)) = Inr y"
    using assms(2,3) f(7) format_money_total by (metis money.sel(2))
  with wd obtain b where "large_outflow amt r = Inr b" "b \<noteq> None \<longleftrightarrow> wk \<noteq> None"
    by (cases wk) (simp_all add: large_outflow_def Let_def)
  with a weeks show ?thesis by (intro exI [of _ a] exI [of _ b]) simp
qed

theorem threshold_alerts_exact_witness:
  "\<exists>pj a b. example_run = Inr pj \<and> balance_below (Money 11 ''USD'') (result_of pj) = Inr (Some a) \<and>
     large_outflow (Money 30 ''USD'') (result_of pj) = Inr (Some b)"
proof -
  from example_projection obtain pj where pj: "example_run = Inr pj" by (elim exE)
  have "\<exists>i::int. - 1 \<le> i \<and> i < 7 \<and> end_of_day 100 738000 example_flows i < 11"
    by (rule exI [of _ 2]) (simp add: example_end_of_day)
  moreover have "\<exists>k::int. 0 \<le> k \<and> k < 1 \<and> 30 < end_of_day 100 738000 example_flows (7 * k - 1) -
      end_of_day 100 738000 example_flows (7 * k + 6)"
    by (rule exI [of _ 0]) (simp add: example_end_of_day)
  moreover have c: "compute_projection (Money 100 ''USD'') (Money 20 ''USD'') example_flows example_config 738000 =
      Inr (fr_projection (result_of pj))" using pj by (simp add: example_run_def)
  note threshold_alerts_exact [OF c, of "Money 11 ''USD''"] threshold_alerts_exact [OF c, of "Money 30 ''USD''"]
  ultimately show ?thesis using pj by (auto simp: max_def)
qed

text \<open>Evaluation keeps every fired alert, stamped with the time, and puts the worst first.\<close>

lemma fold_fire_rule:
  "fold_res (fire_rule f t) rules fired = Inr out \<Longrightarrow>
     \<exists>as. map_res (\<lambda>rule. rule f) rules = Inr as \<and>
       out = fired @ map (\<lambda>a. a\<lparr>al_at := t\<rparr>) (map the (filter (\<lambda>a. a \<noteq> None) as))"
proof (induction rules arbitrary: fired)
  case (Cons rule rules)
  then obtain a where a: "rule f = Inr a" by (auto simp: fire_rule_def result_simps)
  with Cons.prems have "fold_res (fire_rule f t) rules
      (case a of Some x \<Rightarrow> fired @ [x\<lparr>al_at := t\<rparr>] | None \<Rightarrow> fired) = Inr out"
    by (simp add: fire_rule_def [of f t rule])
  from Cons.IH [OF this] a show ?case by (cases a) auto
qed simp

text \<open>C10. Over any sequence of ticks the dispatcher is an edge detector: on each tick it delivers, once,
  the keys that are present now and were absent on the tick before, and the sink receives exactly
  what is delivered. A cleared condition that recurs fires again.\<close>

theorem alerts_fire_on_rising_edge:
  assumes "i < length ticks"
  shows "\<exists>outs d. run_ticks mem_alert_state memory_sink ticks (new_dispatcher [] []) = (Inr outs, d) \<and>
    length outs = length ticks \<and> dp_sink d = concat outs \<and> distinct (map al_key (outs ! i)) \<and>
    al_key ` set (outs ! i) =
      al_key ` set (snd (ticks ! i)) - (if i = 0 then {} else al_key ` set (snd (ticks ! (i - 1))))"
proof -
  let ?e = "edges {} ticks"
  have "active_set mem_alert_state (new_dispatcher [] ([] :: alert list)) = {}"
    by (simp add: active_set_def mem_alert_state_def new_dispatcher_def)
  then obtain d where d: "run_ticks mem_alert_state memory_sink ticks (new_dispatcher [] []) = (Inr ?e, d)"
    "dp_sink d = send_all memory_sink (concat ?e) []"
    using mem_alerts.run_ticks_edges [of ticks "new_dispatcher [] []"]
    by (auto simp: new_dispatcher_def)
  have "fold (\<lambda>a s. s @ [a]) as s = s @ as" for as s :: "alert list"
    by (induction as arbitrary: s) simp_all
  then have "send_all memory_sink as [] = as" for as
    by (simp add: send_all_def memory_sink_def)
  then show ?thesis
    using d assms by (intro exI [of _ ?e] exI [of _ d]) (simp add: edges_nth newly_keys newly_distinct)
qed

definition example_alert :: "string \<Rightarrow> alert" where
  "example_alert k =
     \<lparr>al_key = k, al_severity = WATCH, al_title = [], al_message = [], al_evidence = [], al_at = 0\<rparr>"

theorem alerts_fire_on_rising_edge_witness:
  "\<exists>outs d. run_ticks mem_alert_state memory_sink
      [(1, [example_alert ''a'']), (2, []), (3, [example_alert ''a''])] (new_dispatcher [] []) = (Inr outs, d) \<and>
    al_key ` set (outs ! 2) = {''a''}"
  using alerts_fire_on_rising_edge [of 2 "[(1, [example_alert ''a'']), (2, []), (3, [example_alert ''a''])]"]
  by (fastforce simp: example_alert_def)

text \<open>An alert whose delivery raises is lost: its key is marked before it is sent, so the next tick
  that still has the condition delivers nothing and does not call the sink.\<close>

theorem alert_lost_when_sink_raises:
  assumes "send a k = (Inl e, k')" "\<not> List.member s (al_key a)"
  shows "\<exists>d. dispatch mem_alert_state send t1 [a] (new_dispatcher s k) = (Inl e, d) \<and>
    (\<exists>d'. dispatch mem_alert_state send' t2 [a] d = (Inr [], d') \<and> dp_sink d' = dp_sink d)"
proof -
  let ?s = "rearm mem_alert_state [al_key a] s"
  have s: "\<not> List.member ?s (al_key a)"
    using assms(2) mem_alerts.rearm_keeps_present [of "[al_key a]" s]
    by (auto simp: mem_alert_state_def)
  let ?d = "\<lparr>dp_store = List.insert (al_key a) ?s, dp_sink = k', last_dispatch_at = t1\<rparr>"
  have "dispatch mem_alert_state send t1 [a] (new_dispatcher s k) = (Inl e, ?d)"
    using s assms(1)
    by (simp add: dispatch_def new_dispatcher_def store_do_def call_sink_def)
       (simp add: mem_alert_state_def)
  moreover have "al_key a \<in> set (rearm mem_alert_state [al_key a] (List.insert (al_key a) ?s))"
    using mem_alerts.rearm_keeps_present [of "[al_key a]" "List.insert (al_key a) ?s"]
    by (simp add: mem_alert_state_def)
  then have "\<exists>d'. dispatch mem_alert_state send' t2 [a] ?d = (Inr [], d') \<and> dp_sink d' = k'"
    by (simp add: dispatch_def store_do_def) (simp add: mem_alert_state_def)
  ultimately show ?thesis by (intro exI [of _ ?d]) simp
qed

definition failing_sink :: "unit alert_sink" where
  "failing_sink a k = (Inl ValueError, k)"

theorem alert_lost_when_sink_raises_witness:
  "\<exists>d. dispatch mem_alert_state failing_sink 1 [example_alert ''a''] (new_dispatcher [] ()) = (Inl ValueError, d) \<and>
    (\<exists>d'. dispatch mem_alert_state (\<lambda>_ k. (Inr (), k)) 2 [example_alert ''a''] d = (Inr [], d') \<and> dp_sink d' = dp_sink d)"
  by (rule alert_lost_when_sink_raises) (simp_all add: failing_sink_def)

text \<open>An evaluation that does not raise returns the alerts of every rule that fired, stamped with the
  time of the clock and in order of severity, then key.\<close>

lemma evaluate_worst_first:
  assumes "evaluate f rules t = Inr out"
  shows "sorted (map alert_key_of out) \<and>
    (\<exists>as. map_res (\<lambda>rule. rule f) rules = Inr as \<and>
       mset out = mset (map (\<lambda>a. a\<lparr>al_at := t\<rparr>) (map the (filter (\<lambda>a. a \<noteq> None) as))))"
  using assms fold_fire_rule [of f t rules "[]"]
  by (fastforce simp: evaluate_def result_simps)

end
