(* ===== verification/Scenario.thy ===== *)
theory Scenario
  imports Complex_Main Forecast
begin

text \<open>
  \<open>packages/scenario/src/rgnr8_scenario\<close>: what-if adjustments of the forecast inputs
  (\<open>adjustments.py\<close>), the templates built from them (\<open>library.py\<close>), the signed difference of two
  forecasts (\<open>compare.py\<close>) and the run of a scenario against its baseline (\<open>runner.py\<close>). The
  class \<open>Scenario\<close> is \<open>what_if\<close>, since the forecast has a type of that name. A \<open>Fraction\<close> is a
  rational, whose numerator and denominator are those in lowest terms.

  The lemmas follow an adjustment through the resolution of the flows to the path of the balance.
\<close>

section \<open>Adjustments\<close>

datatype adjustment =
    DelayCustomerPayment string int
  | OneTimeFlow string money date bool
  | ScaleRecurring string rat
  | AddRecurring recurring_item
  | ScalePayroll rat
  | SetMinimumCash money

record what_if =
  wi_name :: string
  wi_adjustments :: "adjustment list"

definition scale_money :: "money \<Rightarrow> rat \<Rightarrow> money res" where
  "scale_money amt factor = (let (n, d) = quotient_of factor in scale_by amt n d)"

definition effective_days_late :: "customer_history option \<Rightarrow> int res" where
  "effective_days_late history =
     (case history of
        None \<Rightarrow> Inr 0
      | Some h \<Rightarrow>
          (case ch_override_days_late h of
             Some ov \<Rightarrow> Inr ov
           | None \<Rightarrow>
               if ch_observations h \<noteq> [] then median_rounded (map po_days_late (ch_observations h))
               else Inr 0))"

definition delay_customer ::
  "customer_history list \<Rightarrow> string \<Rightarrow> int \<Rightarrow> customer_history list res" where
  "delay_customer histories customer_id days =
     (let existing = find (\<lambda>h. ch_customer_id h = customer_id) histories
      in res_bind (effective_days_late existing) (\<lambda>late.
           let new_override = late + days;
               updated = \<lparr>ch_customer_id = customer_id,
                 ch_observations = (case existing of Some h \<Rightarrow> ch_observations h | None \<Rightarrow> []),
                 ch_override_days_late = Some new_override\<rparr>;
               out = filter (\<lambda>h. ch_customer_id h \<noteq> customer_id) histories
           in Inr (out @ [updated])))"

text \<open>\<open>label_match in item.label\<close>.\<close>

fun occurs_in :: "string \<Rightarrow> string \<Rightarrow> bool" where
  "occurs_in s [] = (s = [])"
| "occurs_in s (c # t) = (take (length s) (c # t) = s \<or> occurs_in s t)"

definition scale_item :: "string \<Rightarrow> rat \<Rightarrow> recurring_item \<Rightarrow> recurring_item res" where
  "scale_item label_match factor item =
     (if occurs_in label_match (ri_label item)
      then res_bind (scale_money (ri_amount item) factor) (\<lambda>m. Inr (item\<lparr>ri_amount := m\<rparr>))
      else Inr item)"

definition scale_schedule :: "rat \<Rightarrow> payroll_schedule \<Rightarrow> payroll_schedule res" where
  "scale_schedule factor pr =
     res_bind (scale_money (pr_net_pay pr) factor) (\<lambda>net.
     res_bind (scale_money (pr_payroll_taxes pr) factor) (\<lambda>taxes.
       Inr (pr\<lparr>pr_net_pay := net, pr_payroll_taxes := taxes\<rparr>)))"

text \<open>One pass of the loop of \<open>apply\<close>: it updates the four lists, which are fields of the inputs.\<close>

fun apply_adjustment :: "adjustment \<Rightarrow> forecast_inputs \<Rightarrow> forecast_inputs res" where
  "apply_adjustment (DelayCustomerPayment customer_id days) inputs =
     res_bind (delay_customer (fi_customer_histories inputs) customer_id days) (\<lambda>hs.
       Inr (inputs\<lparr>fi_customer_histories := hs\<rparr>))"
| "apply_adjustment (OneTimeFlow label amt on inflow) inputs =
     Inr (inputs\<lparr>fi_one_time := fi_one_time inputs @
       [\<lparr>ot_label = label, ot_category = (if inflow then OTHER_INFLOW else OTHER_OUTFLOW),
         ot_direction = (if inflow then INFLOW else OUTFLOW), ot_amount = amt, ot_on_date = on,
         ot_confidence = PLANNED, ot_provenance = None\<rparr>]\<rparr>)"
| "apply_adjustment (ScaleRecurring label_match factor) inputs =
     res_bind (map_res (scale_item label_match factor) (fi_recurring inputs)) (\<lambda>rs.
       Inr (inputs\<lparr>fi_recurring := rs\<rparr>))"
| "apply_adjustment (AddRecurring item) inputs =
     Inr (inputs\<lparr>fi_recurring := fi_recurring inputs @ [item]\<rparr>)"
| "apply_adjustment (ScalePayroll factor) inputs =
     res_bind (map_res (scale_schedule factor) (fi_payroll inputs)) (\<lambda>ps.
       Inr (inputs\<lparr>fi_payroll := ps\<rparr>))"
| "apply_adjustment (SetMinimumCash amt) inputs = Inr inputs"

definition apply_what_if :: "forecast_inputs \<Rightarrow> what_if \<Rightarrow> forecast_inputs res" where
  "apply_what_if inputs scen = fold_res apply_adjustment (wi_adjustments scen) inputs"

fun override_adjustment :: "adjustment \<Rightarrow> forecast_config \<Rightarrow> forecast_config" where
  "override_adjustment (SetMinimumCash amt) config = config\<lparr>minimum_cash := amt\<rparr>"
| "override_adjustment _ config = config"

definition config_override :: "what_if \<Rightarrow> forecast_config \<Rightarrow> forecast_config" where
  "config_override scen config = fold override_adjustment (wi_adjustments scen) config"

section \<open>Templates\<close>

definition monthly_from :: "date \<Rightarrow> recurrence" where
  "monthly_from start =
     \<lparr>frequency = MONTHLY, anchor = start, rec_interval = 1, second_day = None, rec_end = None,
      rec_count = None\<rparr>"

definition hire_employee :: "money \<Rightarrow> date \<Rightarrow> what_if res" where
  "hire_employee monthly_cost start =
     res_bind (format_money monthly_cost) (\<lambda>m.
       Inr \<lparr>wi_name = ''Hire an employee'',
            wi_adjustments = [AddRecurring \<lparr>ri_label = ''New hire ('' @ m @ ''/mo)'',
              ri_category = PAYROLL_NET, ri_direction = OUTFLOW, ri_amount = monthly_cost,
              ri_recurrence = monthly_from start, ri_provenance = None\<rparr>]\<rparr>)"

definition customer_pays_late :: "string \<Rightarrow> int \<Rightarrow> what_if" where
  "customer_pays_late customer_id days =
     \<lparr>wi_name = ''Customer '' @ customer_id @ '' pays '' @ str_int days @ ''d late'',
      wi_adjustments = [DelayCustomerPayment customer_id days]\<rparr>"

definition take_loan :: "money \<Rightarrow> date \<Rightarrow> money \<Rightarrow> date \<Rightarrow> what_if res" where
  "take_loan amt on monthly_repayment first_repayment =
     res_bind (format_money amt) (\<lambda>a.
     res_bind (format_money monthly_repayment) (\<lambda>m.
       Inr \<lparr>wi_name = ''Take a loan'',
            wi_adjustments =
              [OneTimeFlow (''Loan draw ('' @ a @ '')'') amt on True,
               AddRecurring \<lparr>ri_label = ''Loan repayment ('' @ m @ ''/mo)'', ri_category = DEBT_SERVICE,
                 ri_direction = OUTFLOW, ri_amount = monthly_repayment,
                 ri_recurrence = monthly_from first_repayment, ri_provenance = None\<rparr>]\<rparr>))"

definition one_time_expense :: "string \<Rightarrow> money \<Rightarrow> date \<Rightarrow> what_if" where
  "one_time_expense label amt on =
     \<lparr>wi_name = ''One-time expense: '' @ label, wi_adjustments = [OneTimeFlow label amt on False]\<rparr>"

section \<open>The difference of two forecasts\<close>

record scenario_diff =
  trough_delta :: money
  breach_week_before :: "int option"
  breach_week_after :: "int option"
  cushion_delta :: money
  weekly_closing_deltas :: "money list"

definition cushion :: "projection \<Rightarrow> money res" where
  "cushion pj = money_sub (ct_balance (pj_trough pj)) (pj_effective_floor pj)"

definition compare_results :: "forecast_result \<Rightarrow> forecast_result \<Rightarrow> scenario_diff res" where
  "compare_results base scen =
     (let bp = fr_projection base; sp = fr_projection scen
      in res_bind (money_sub (ct_balance (pj_trough sp)) (ct_balance (pj_trough bp))) (\<lambda>td.
         res_bind (cushion sp) (\<lambda>cs.
         res_bind (cushion bp) (\<lambda>cb.
         res_bind (money_sub cs cb) (\<lambda>cd.
         res_bind (map_res (\<lambda>(b, s). money_sub (wl_closing s) (wl_closing b))
                     (zip (pj_weeks bp) (pj_weeks sp))) (\<lambda>weekly.
           Inr \<lparr>trough_delta = td, breach_week_before = br_weeks_until (pj_breach bp),
                breach_week_after = br_weeks_until (pj_breach sp), cushion_delta = cd,
                weekly_closing_deltas = weekly\<rparr>))))))"

text \<open>The engine is an argument; the default is \<open>run_forecast\<close> in its base scenario.\<close>

type_synonym forecast_runner = "forecast_inputs \<Rightarrow> forecast_config \<Rightarrow> forecast_result run"

definition default_runner :: "fingerprint \<Rightarrow> forecast_runner" where
  "default_runner fp inputs config = run_forecast fp inputs (Some config) BASE None"

definition run_scenario ::
  "forecast_runner \<Rightarrow> forecast_inputs \<Rightarrow> forecast_config \<Rightarrow> what_if \<Rightarrow> (forecast_result \<times> scenario_diff) run" where
  "run_scenario run inputs config scen =
     run_bind (run inputs config) (\<lambda>base_result.
     run_bind (Some (apply_what_if inputs scen)) (\<lambda>scenario_inputs.
     run_bind (run scenario_inputs (config_override scen config)) (\<lambda>scenario_result.
     run_bind (Some (compare_results base_result scenario_result)) (\<lambda>diff.
       Some (Inr (scenario_result, diff))))))"

section \<open>Delaying a customer\<close>

lemma find_filter_other: "c \<noteq> d \<Longrightarrow>
    find (\<lambda>h. k h = c) (filter (\<lambda>h. k h \<noteq> d) xs) = find (\<lambda>h. k h = c) xs"
  by (induction xs) auto

lemma find_append: "find P (xs @ ys) = (case find P xs of None \<Rightarrow> find P ys | Some x \<Rightarrow> Some x)"
  by (induction xs) auto

lemma find_filter_same: "find (\<lambda>h. k h = d) (filter (\<lambda>h. k h \<noteq> d) xs) = None"
  by (induction xs) auto

lemma effective_days_late_total: "\<exists>l. effective_days_late h = Inr l"
  using median_rounded_total [of "map po_days_late (ch_observations (the h))"]
  by (cases h) (auto simp: effective_days_late_def split: option.splits)

lemma delayed_history:
  assumes "apply_what_if inputs (customer_pays_late c days) = Inr inputs'"
  shows "\<exists>l h'. effective_days_late (history_for inputs c) = Inr l \<and>
    history_for inputs' c = Some h' \<and> ch_override_days_late h' = Some (l + days) \<and>
    (\<forall>d. d \<noteq> c \<longrightarrow> history_for inputs' d = history_for inputs d)"
  using assms effective_days_late_total [of "history_for inputs c"]
  by (auto simp: apply_what_if_def customer_pays_late_def delay_customer_def history_for_def Let_def
      find_append find_filter_other find_filter_same result_simps split: option.splits)

section \<open>What the other sections do not see\<close>

text \<open>
  The one-time items and the minimum cash are read by no section of \<open>resolve\<close> but the last:
  \<open>swap\<close> replaces them in the environment.
\<close>

definition swap :: "one_time_item list \<Rightarrow> money \<Rightarrow> resolve_env \<Rightarrow> resolve_env" where
  "swap items m env =
     env\<lparr>re_inputs := (re_inputs env)\<lparr>fi_one_time := items\<rparr>,
         re_config := (re_config env)\<lparr>minimum_cash := m\<rparr>\<rparr>"

lemma predict_minimum_cash: "predict_days_late h (c\<lparr>minimum_cash := m\<rparr>) = predict_days_late h c"
proof -
  have c: "min_history_observations (c\<lparr>minimum_cash := m\<rparr>) = min_history_observations c"
    "default_payment_delay_days (c\<lparr>minimum_cash := m\<rparr>) = default_payment_delay_days c" by simp_all
  show ?thesis unfolding predict_days_late_def c ..
qed

lemma swap_fields [simp]:
  "re_scenario (swap x m env) = re_scenario env" "re_assumptions (swap x m env) = re_assumptions env"
  "re_as_of (swap x m env) = re_as_of env" "re_horizon_end (swap x m env) = re_horizon_end env"
  "fi_invoices (re_inputs (swap x m env)) = fi_invoices (re_inputs env)"
  "fi_bills (re_inputs (swap x m env)) = fi_bills (re_inputs env)"
  "fi_recurring (re_inputs (swap x m env)) = fi_recurring (re_inputs env)"
  "fi_payroll (re_inputs (swap x m env)) = fi_payroll (re_inputs env)"
  "fi_debt (re_inputs (swap x m env)) = fi_debt (re_inputs env)"
  "fi_pipeline (re_inputs (swap x m env)) = fi_pipeline (re_inputs env)"
  "fi_one_time (re_inputs (swap x m env)) = x"
  "horizon_weeks (re_config (swap x m env)) = horizon_weeks (re_config env)"
  "history_for (re_inputs (swap x m env)) c = history_for (re_inputs env) c"
  "predict_days_late h (re_config (swap x m env)) = predict_days_late h (re_config env)"
  by (simp_all add: swap_def history_for_def predict_minimum_cash)

lemma swap_window [simp]: "in_window (swap x m env) = in_window env" "clamp (swap x m env) = clamp env"
  by (simp_all add: fun_eq_iff in_window_def clamp_def)

lemma swap_expected [simp]: "expected_payment (swap x m env) = expected_payment env"
  unfolding expected_payment_def [abs_def] swap_fields swap_window ..

lemma swap_written_down [simp]: "written_down (swap x m env) = written_down env"
  unfolding written_down_def [abs_def] swap_fields swap_window ..

lemma swap_refund [simp]: "resolve_refund (swap x m env) = resolve_refund env"
  unfolding resolve_refund_def [abs_def] swap_fields swap_window ..

lemma swap_invoice [simp]: "resolve_invoice (swap x m env) = resolve_invoice env"
  unfolding resolve_invoice_def [abs_def] swap_fields swap_window swap_expected swap_written_down swap_refund ..

lemma swap_ar [simp]: "resolve_ar (swap x m env) = resolve_ar env"
  unfolding resolve_ar_def [abs_def] swap_fields swap_window swap_invoice ..

lemma swap_opportunity [simp]: "resolve_opportunity (swap x m env) = resolve_opportunity env"
  unfolding resolve_opportunity_def [abs_def] swap_fields swap_window ..

lemma swap_pipeline [simp]: "resolve_pipeline (swap x m env) = resolve_pipeline env"
  unfolding resolve_pipeline_def [abs_def] swap_fields swap_window swap_opportunity ..

lemma swap_bill [simp]: "resolve_bill (swap x m env) = resolve_bill env"
  unfolding resolve_bill_def [abs_def] swap_fields swap_window ..

lemma swap_bills [simp]: "resolve_bills (swap x m env) = resolve_bills env"
  unfolding resolve_bills_def [abs_def] swap_fields swap_window swap_bill ..

lemma swap_item [simp]: "resolve_item (swap x m env) = resolve_item env"
  unfolding resolve_item_def [abs_def] swap_fields swap_window ..

lemma swap_recurring [simp]: "resolve_recurring (swap x m env) = resolve_recurring env"
  unfolding resolve_recurring_def [abs_def] swap_fields swap_window swap_item ..

lemma swap_payday [simp]: "resolve_payday (swap x m env) = resolve_payday env"
  unfolding resolve_payday_def [abs_def] swap_fields swap_window ..

lemma swap_payroll [simp]: "resolve_payroll (swap x m env) = resolve_payroll env"
  unfolding resolve_payroll_def [abs_def] swap_fields swap_window swap_payday ..

lemma swap_payment [simp]: "resolve_payment (swap x m env) = resolve_payment env"
  unfolding resolve_payment_def [abs_def] swap_fields swap_window ..

lemma swap_debt [simp]: "resolve_debt (swap x m env) = resolve_debt env"
  unfolding resolve_debt_def [abs_def] swap_fields swap_window swap_payment ..

lemma swap_one_time_item [simp]: "resolve_one_time_item (swap x m env) = resolve_one_time_item env"
  unfolding resolve_one_time_item_def [abs_def] swap_fields swap_window ..

text \<open>A resolution is that of the other sections, then the one-time items.\<close>

lemma resolve_by_sections:
  "resolve inputs config scen a =
     run_bind (Some (date_add (cp_as_of (fi_opening inputs)) (horizon_weeks config * 7 - 1))) (\<lambda>he.
       let env = \<lparr>re_inputs = inputs, re_config = config, re_scenario = scen, re_assumptions = a,
                  re_as_of = cp_as_of (fi_opening inputs), re_horizon_end = he\<rparr>
       in run_bind
            (run_bind (Some (resolve_ar env resolve_start)) (\<lambda>st.
             run_bind (Some (resolve_pipeline env st)) (\<lambda>st.
             run_bind (resolve_recurring env (resolve_bills env st)) (\<lambda>st.
             run_bind (resolve_payroll env st) (resolve_debt env)))))
            (\<lambda>st. Some (Inr \<lparr>rf_flows = number_flows (sort_key flow_key (raw (resolve_one_time env st))),
                             rf_notes = rs_notes (resolve_one_time env st)\<rparr>)))"
  unfolding resolve_def Let_def run_bind_assoc ..

text \<open>The flows of the one-time items, and what one more item adds to them.\<close>

lemma raw_one_time:
  "raw (resolve_one_time env st) = raw (fold (resolve_one_time_item env) (fi_one_time (re_inputs env)) st)"
  by (simp add: resolve_one_time_def Let_def)

definition expense_item :: "string \<Rightarrow> money \<Rightarrow> date \<Rightarrow> one_time_item" where
  "expense_item label amt on =
     \<lparr>ot_label = label, ot_category = OTHER_OUTFLOW, ot_direction = OUTFLOW, ot_amount = amt, ot_on_date = on,
      ot_confidence = PLANNED, ot_provenance = None\<rparr>"

lemma apply_expense:
  "apply_what_if inputs (one_time_expense label amt on) =
     Inr (inputs\<lparr>fi_one_time := fi_one_time inputs @ [expense_item label amt on]\<rparr>)"
  by (simp add: apply_what_if_def one_time_expense_def expense_item_def)

lemma end_of_day_numbered:
  "end_of_day op d (number_flows (sort_key flow_key fs)) i = end_of_day op d fs i"
proof -
  let ?g = "\<lambda>f. if d \<le> on_date f \<and> on_date f \<le> d + i then signed_minor f else 0"
  have "map ?g (number_flows xs) = map ?g xs" for xs
    by (rule nth_equalityI) (simp_all add: number_flows_nth signed_minor_def)
  then have "(\<Sum>f\<leftarrow>number_flows (sort_key flow_key fs). ?g f) = (\<Sum>f\<leftarrow>sort_key flow_key fs. ?g f)" by simp
  also have "\<dots> = (\<Sum>f\<leftarrow>fs. ?g f)"
    by (simp flip: sum_mset_sum_list)
  finally show ?thesis by (simp add: end_of_day_def)
qed

text \<open>Two resolutions that differ in the one-time items and the minimum cash differ in the last section.\<close>

lemma resolve_swap:
  assumes "resolve inputs config scen a = Some (Inr rf)"
  defines "env \<equiv> \<lparr>re_inputs = inputs, re_config = config, re_scenario = scen, re_assumptions = a,
    re_as_of = cp_as_of (fi_opening inputs),
    re_horizon_end = cp_as_of (fi_opening inputs) + horizon_weeks config * 7 - 1\<rparr>"
  obtains st where
    "rf = \<lparr>rf_flows = number_flows (sort_key flow_key (raw (resolve_one_time env st))),
           rf_notes = rs_notes (resolve_one_time env st)\<rparr>"
    "\<And>x m. resolve (inputs\<lparr>fi_one_time := x\<rparr>) (config\<lparr>minimum_cash := m\<rparr>) scen a =
       Some (Inr \<lparr>rf_flows = number_flows (sort_key flow_key (raw (resolve_one_time (swap x m env) st))),
                  rf_notes = rs_notes (resolve_one_time (swap x m env) st)\<rparr>)"
proof -
  let ?sections = "\<lambda>env. run_bind (Some (resolve_ar env resolve_start)) (\<lambda>st.
             run_bind (Some (resolve_pipeline env st)) (\<lambda>st.
             run_bind (resolve_recurring env (resolve_bills env st)) (\<lambda>st.
             run_bind (resolve_payroll env st) (resolve_debt env))))"
  have he: "date_add (cp_as_of (fi_opening inputs)) (horizon_weeks config * 7 - 1) =
      Inr (cp_as_of (fi_opening inputs) + horizon_weeks config * 7 - 1)"
    using assms(1) by (auto simp: resolve_by_sections date_add_def run_bind_Inr split: if_splits)
  from assms(1) obtain st where st: "?sections env = Some (Inr st)"
    and rf: "rf = \<lparr>rf_flows = number_flows (sort_key flow_key (raw (resolve_one_time env st))),
           rf_notes = rs_notes (resolve_one_time env st)\<rparr>"
    unfolding resolve_by_sections he run_bind_simps Let_def env_def [symmetric] run_bind_Inr by auto
  have "?sections (swap x m env) = Some (Inr st)" for x m using st by simp
  moreover have "\<lparr>re_inputs = inputs\<lparr>fi_one_time := x\<rparr>, re_config = config\<lparr>minimum_cash := m\<rparr>, re_scenario = scen,
      re_assumptions = a, re_as_of = cp_as_of (fi_opening inputs),
      re_horizon_end = cp_as_of (fi_opening inputs) + horizon_weeks config * 7 - 1\<rparr> = swap x m env" for x m
    by (simp add: swap_def env_def)
  ultimately have "resolve (inputs\<lparr>fi_one_time := x\<rparr>) (config\<lparr>minimum_cash := m\<rparr>) scen a =
       Some (Inr \<lparr>rf_flows = number_flows (sort_key flow_key (raw (resolve_one_time (swap x m env) st))),
                  rf_notes = rs_notes (resolve_one_time (swap x m env) st)\<rparr>)" for x m
    using he by (simp add: resolve_by_sections Let_def)
  with rf show thesis by (rule that)
qed

section \<open>From an adjustment to the difference\<close>

lemma raw_one_time_item:
  "raw (resolve_one_time_item env (expense_item label amt on) st) =
     raw st @ (if in_window env on
       then [\<lparr>seq = 0, on_date = on, direction = OUTFLOW, amount = amt, category = OTHER_OUTFLOW,
              confidence = PLANNED, basis = ''one-time: '' @ label, cf_scenario = re_scenario env,
              source = None, origin_id = Some label\<rparr>] else [])"
  by (simp add: resolve_one_time_item_def expense_item_def)

lemma expense_path:
  fixes inputs config
  defines "as_of \<equiv> cp_as_of (fi_opening inputs)"
  assumes "resolve inputs config scen a = Some (Inr rf)"
    and "as_of \<le> on" "on < as_of + 7 * horizon_weeks config"
  shows "\<exists>rf'. resolve (inputs\<lparr>fi_one_time := fi_one_time inputs @ [expense_item label amt on]\<rparr>) config scen a =
      Some (Inr rf') \<and>
    (\<forall>i. end_of_day op as_of (rf_flows rf') i =
       end_of_day op as_of (rf_flows rf) i - (if on \<le> as_of + i then minor_units amt else 0))"
proof -
  let ?env = "\<lparr>re_inputs = inputs, re_config = config, re_scenario = scen, re_assumptions = a,
    re_as_of = as_of, re_horizon_end = as_of + horizon_weeks config * 7 - 1\<rparr>"
  let ?x = "fi_one_time inputs @ [expense_item label amt on]"
  obtain st where st: "rf = \<lparr>rf_flows = number_flows (sort_key flow_key (raw (resolve_one_time ?env st))),
      rf_notes = rs_notes (resolve_one_time ?env st)\<rparr>"
    and all: "\<And>x m. resolve (inputs\<lparr>fi_one_time := x\<rparr>) (config\<lparr>minimum_cash := m\<rparr>) scen a =
       Some (Inr \<lparr>rf_flows = number_flows (sort_key flow_key (raw (resolve_one_time (swap x m ?env) st))),
                  rf_notes = rs_notes (resolve_one_time (swap x m ?env) st)\<rparr>)"
    using resolve_swap [OF assms(2)] unfolding as_of_def by blast
  let ?rf' = "\<lparr>rf_flows = number_flows (sort_key flow_key (raw (resolve_one_time (swap ?x (minimum_cash config) ?env) st))),
    rf_notes = rs_notes (resolve_one_time (swap ?x (minimum_cash config) ?env) st)\<rparr>"
  have "resolve (inputs\<lparr>fi_one_time := ?x\<rparr>) config scen a = Some (Inr ?rf')"
    using all [of ?x "minimum_cash config"] by simp
  moreover have "end_of_day op as_of (rf_flows ?rf') i =
       end_of_day op as_of (rf_flows rf) i - (if on \<le> as_of + i then minor_units amt else 0)" for i
    using assms(3,4)
    by (simp add: st end_of_day_numbered raw_one_time raw_one_time_item in_window_def)
       (simp add: end_of_day_def signed_minor_def)
  ultimately show ?thesis by (intro exI [of _ ?rf'] conjI allI)
qed

text \<open>Setting the minimum cash changes no flow.\<close>

lemma minimum_cash_path:
  assumes "resolve inputs config scen a = Some (Inr rf)"
  shows "resolve inputs (config\<lparr>minimum_cash := m\<rparr>) scen a = Some (Inr rf)"
proof -
  let ?env = "\<lparr>re_inputs = inputs, re_config = config, re_scenario = scen, re_assumptions = a,
    re_as_of = cp_as_of (fi_opening inputs),
    re_horizon_end = cp_as_of (fi_opening inputs) + horizon_weeks config * 7 - 1\<rparr>"
  obtain st where st: "rf = \<lparr>rf_flows = number_flows (sort_key flow_key (raw (resolve_one_time ?env st))),
      rf_notes = rs_notes (resolve_one_time ?env st)\<rparr>"
    and all: "\<And>x m. resolve (inputs\<lparr>fi_one_time := x\<rparr>) (config\<lparr>minimum_cash := m\<rparr>) scen a =
       Some (Inr \<lparr>rf_flows = number_flows (sort_key flow_key (raw (resolve_one_time (swap x m ?env) st))),
                  rf_notes = rs_notes (resolve_one_time (swap x m ?env) st)\<rparr>)"
    using resolve_swap [OF assms(1)] by blast
  have "resolve_one_time (swap (fi_one_time inputs) m ?env) st = resolve_one_time ?env st"
    by (simp add: resolve_one_time_def)
  with st all [of "fi_one_time inputs" m] show ?thesis by simp
qed

text \<open>The two projections that a difference compares.\<close>

lemma run_scenarioE:
  assumes "run_scenario (default_runner fp) inputs config w = Some (Inr (r, diff))"
  obtains base rf inputs' rf' where
    "apply_what_if inputs w = Inr inputs'"
    "resolve inputs config BASE base_assumptions = Some (Inr rf)"
    "resolve inputs' (config_override w config) BASE base_assumptions = Some (Inr rf')"
    "compute_projection (cp_available (fi_opening inputs)) (cp_restricted (fi_opening inputs)) (rf_flows rf)
       config (cp_as_of (fi_opening inputs)) = Inr (fr_projection base)"
    "compute_projection (cp_available (fi_opening inputs')) (cp_restricted (fi_opening inputs')) (rf_flows rf')
       (config_override w config) (cp_as_of (fi_opening inputs')) = Inr (fr_projection r)"
    "compare_results base r = Inr diff"
proof -
  from assms obtain base inputs' where
    b: "run_forecast fp inputs (Some config) BASE None = Some (Inr base)"
    and i: "apply_what_if inputs w = Inr inputs'"
    and r: "run_forecast fp inputs' (Some (config_override w config)) BASE None = Some (Inr r)"
    and c: "compare_results base r = Inr diff"
    by (auto simp: run_scenario_def default_runner_def result_simps)
  from b obtain rf where "resolve inputs config BASE base_assumptions = Some (Inr rf)"
    "compute_projection (cp_available (fi_opening inputs)) (cp_restricted (fi_opening inputs)) (rf_flows rf)
       config (cp_as_of (fi_opening inputs)) = Inr (fr_projection base)"
    by (rule run_forecastE) simp
  moreover from r obtain rf' where "resolve inputs' (config_override w config) BASE base_assumptions = Some (Inr rf')"
    "compute_projection (cp_available (fi_opening inputs')) (cp_restricted (fi_opening inputs')) (rf_flows rf')
       (config_override w config) (cp_as_of (fi_opening inputs')) = Inr (fr_projection r)"
    by (rule run_forecastE) simp
  ultimately show thesis using i c by (intro that)
qed

lemma compare_results_fields:
  assumes "compare_results base r = Inr diff"
  shows "minor_units (trough_delta diff) =
      minor_units (ct_balance (pj_trough (fr_projection r))) - minor_units (ct_balance (pj_trough (fr_projection base)))"
    and "minor_units (cushion_delta diff) = minor_units (trough_delta diff) -
      (minor_units (pj_effective_floor (fr_projection r)) - minor_units (pj_effective_floor (fr_projection base)))"
    and "map_res (\<lambda>(b, s). money_sub (wl_closing s) (wl_closing b))
      (zip (pj_weeks (fr_projection base)) (pj_weeks (fr_projection r))) = Inr (weekly_closing_deltas diff)"
    and "breach_week_before diff = br_weeks_until (pj_breach (fr_projection base))"
    and "breach_week_after diff = br_weeks_until (pj_breach (fr_projection r))"
  using assms by (auto simp: compare_results_def cushion_def Let_def result_simps money_simps)

text \<open>The weekly differences are those of the two paths.\<close>

lemma weekly_deltas:
  assumes "map_res (\<lambda>(b, s). money_sub (wl_closing s) (wl_closing b))
      (zip (map (line_at ccy fs dy o1 as_of) ks) (map (line_at ccy fs' dy' o2 as_of) ks)) = Inr ds"
  shows "ds = map (\<lambda>k. Money (end_of_day o2 as_of fs' (7 * k + 6) - end_of_day o1 as_of fs (7 * k + 6)) ccy) ks"
proof -
  have "map_res (\<lambda>(b, s). money_sub (wl_closing s) (wl_closing b))
      (zip (map (line_at ccy fs dy o1 as_of) ks) (map (line_at ccy fs' dy' o2 as_of) ks)) =
      Inr (map (\<lambda>k. Money (end_of_day o2 as_of fs' (7 * k + 6) - end_of_day o1 as_of fs (7 * k + 6)) ccy) ks)"
    by (induction ks) (simp_all add: line_at_def Let_def money_sub_same)
  with assms show ?thesis by simp
qed

text \<open>The lowest values of two paths that stay within a band.\<close>

lemma trough_of_band:
  assumes "trough_of b d n v t" "trough_of b' d n v' t'" "\<And>k. b k - m \<le> b' k \<and> b' k \<le> b k"
  shows "v - m \<le> v' \<and> v' \<le> v"
proof -
  from assms(1) obtain j where j: "- 1 \<le> j" "j < n" "v = b j" "\<forall>k. - 1 \<le> k \<and> k < n \<longrightarrow> b j \<le> b k"
    by (auto simp: trough_of_def)
  from assms(2) obtain j' where j': "- 1 \<le> j'" "j' < n" "v' = b' j'" "\<forall>k. - 1 \<le> k \<and> k < n \<longrightarrow> b' j' \<le> b' k"
    by (auto simp: trough_of_def)
  have "b j \<le> b j'" "b' j' \<le> b' j" using j j' by blast+
  with assms(3) [of j] assms(3) [of j'] j(3) j'(3) show ?thesis by linarith
qed

text \<open>In one currency two projections can be compared.\<close>

lemma compare_results_total:
  assumes "compute_projection op rs fs config d = Inr (fr_projection base)"
    and "compute_projection op' rs' fs' config' d' = Inr (fr_projection r)"
    and "currency rs = cfg_currency config" "currency rs' = cfg_currency config"
      "cfg_currency config' = cfg_currency config"
  shows "\<exists>diff. compare_results base r = Inr diff"
proof -
  note f = projection_fields [OF assms(1)] and f' = projection_fields [OF assms(2)]
  have t: "currency (ct_balance (pj_trough (fr_projection base))) = cfg_currency config"
    "currency (ct_balance (pj_trough (fr_projection r))) = cfg_currency config"
    using f(11) f'(11) assms(5) by auto
  have "map_res (\<lambda>(b, s). money_sub (wl_closing s) (wl_closing b)) (zip (pj_weeks (fr_projection base)) (pj_weeks (fr_projection r))) =
      Inr (map (\<lambda>(b, s). Money (minor_units (wl_closing s) - minor_units (wl_closing b)) (cfg_currency config))
        (zip (pj_weeks (fr_projection base)) (pj_weeks (fr_projection r))))"
  proof (rule map_res_total)
    fix p assume p: "p \<in> set (zip (pj_weeks (fr_projection base)) (pj_weeks (fr_projection r)))"
    obtain b s where bs: "p = (b, s)" by (cases p)
    with p have "b \<in> set (pj_weeks (fr_projection base))" "s \<in> set (pj_weeks (fr_projection r))"
      by (auto dest: set_zip_leftD set_zip_rightD)
    then have "currency (wl_closing b) = cfg_currency config" "currency (wl_closing s) = cfg_currency config"
      using assms(5) by (auto simp: f(2) f'(2) line_at_def Let_def)
    then show "(\<lambda>(b, s). money_sub (wl_closing s) (wl_closing b)) p =
        Inr ((\<lambda>(b, s). Money (minor_units (wl_closing s) - minor_units (wl_closing b)) (cfg_currency config)) p)"
      by (simp add: bs money_sub_same)
  qed
  then show ?thesis
    by (simp add: compare_results_def cushion_def Let_def money_sub_same t f(6) f'(6) assms(3,4))
qed

section \<open>Properties\<close>

text \<open>C12. A one-time expense inside the horizon lowers the closing balance of exactly the weeks that end on
  or after its day, by exactly its amount; the trough falls by at most the amount and never rises,
  and the cushion moves with the trough.\<close>

theorem expense_shifts_path:
  assumes "run_scenario (default_runner fp) inputs config (one_time_expense label amt on) = Some (Inr (r, diff))"
    and "cp_as_of (fi_opening inputs) \<le> on" "on < cp_as_of (fi_opening inputs) + 7 * horizon_weeks config"
    and "0 \<le> minor_units amt"
  shows "weekly_closing_deltas diff =
      map (\<lambda>k. Money (if on \<le> cp_as_of (fi_opening inputs) + 7 * k + 6 then - minor_units amt else 0) (cfg_currency config))
        [0..horizon_weeks config - 1] \<and>
    - minor_units amt \<le> minor_units (trough_delta diff) \<and> minor_units (trough_delta diff) \<le> 0 \<and>
    minor_units (cushion_delta diff) = minor_units (trough_delta diff)"
  using assms(1)
proof (rule run_scenarioE)
  let ?as_of = "cp_as_of (fi_opening inputs)" and ?op = "cp_available (fi_opening inputs)"
    and ?rs = "cp_restricted (fi_opening inputs)" and ?w = "one_time_expense label amt on"
  fix base rf inputs' rf'
  assume i: "apply_what_if inputs ?w = Inr inputs'"
    and rf: "resolve inputs config BASE base_assumptions = Some (Inr rf)"
    and rf': "resolve inputs' (config_override ?w config) BASE base_assumptions = Some (Inr rf')"
    and b: "compute_projection ?op ?rs (rf_flows rf) config ?as_of = Inr (fr_projection base)"
    and r: "compute_projection (cp_available (fi_opening inputs')) (cp_restricted (fi_opening inputs')) (rf_flows rf')
       (config_override ?w config) (cp_as_of (fi_opening inputs')) = Inr (fr_projection r)"
    and c: "compare_results base r = Inr diff"
  let ?path = "\<lambda>rf. end_of_day (minor_units ?op) ?as_of (rf_flows rf)"
  have cfg: "config_override ?w config = config" by (simp add: config_override_def one_time_expense_def)
  have i': "inputs' = inputs\<lparr>fi_one_time := fi_one_time inputs @ [expense_item label amt on]\<rparr>"
    using i by (simp add: apply_expense)
  then have r': "compute_projection ?op ?rs (rf_flows rf') config ?as_of = Inr (fr_projection r)" using r cfg by simp
  have path: "?path rf' k = ?path rf k - (if on \<le> ?as_of + k then minor_units amt else 0)" for k
    using expense_path [OF rf assms(2,3), of label amt "minor_units ?op"] rf' by (auto simp: i' cfg)
  note f = projection_fields [OF b] and f' = projection_fields [OF r'] and d = compare_results_fields [OF c]
  have "weekly_closing_deltas diff =
      map (\<lambda>k. Money (?path rf' (7 * k + 6) - ?path rf (7 * k + 6)) (cfg_currency config)) [0..horizon_weeks config - 1]"
    by (rule weekly_deltas) (use d(3) in \<open>simp add: f(2) f'(2)\<close>)
  then have weeks: "weekly_closing_deltas diff =
      map (\<lambda>k. Money (if on \<le> ?as_of + 7 * k + 6 then - minor_units amt else 0) (cfg_currency config)) [0..horizon_weeks config - 1]"
    by (simp add: path add.assoc)
  obtain t t' where
    "trough_of (?path rf) ?as_of (7 * horizon_weeks config) (minor_units (ct_balance (pj_trough (fr_projection base)))) t"
    "trough_of (?path rf') ?as_of (7 * horizon_weeks config) (minor_units (ct_balance (pj_trough (fr_projection r)))) t'"
    using projection_trough_of [OF b] projection_trough_of [OF r'] by blast
  then have "minor_units (ct_balance (pj_trough (fr_projection base))) - minor_units amt \<le>
      minor_units (ct_balance (pj_trough (fr_projection r))) \<and>
    minor_units (ct_balance (pj_trough (fr_projection r))) \<le> minor_units (ct_balance (pj_trough (fr_projection base)))"
    by (rule trough_of_band) (use assms(4) in \<open>simp add: path\<close>)
  with weeks d(1,2) f(6) f'(6) show ?thesis by simp
qed

text \<open>Setting the minimum cash changes no balance: the trough and every weekly closing stay, and the
  cushion moves by the change of the floor.\<close>

theorem minimum_cash_moves_only_floor:
  assumes "run_scenario (default_runner fp) inputs config \<lparr>wi_name = n, wi_adjustments = [SetMinimumCash m]\<rparr> =
    Some (Inr (r, diff))"
  shows "list_all is_zero (weekly_closing_deltas diff) \<and> is_zero (trough_delta diff) \<and>
    minor_units (cushion_delta diff) = minor_units (minimum_cash config) - minor_units m"
  using assms
proof (rule run_scenarioE)
  let ?as_of = "cp_as_of (fi_opening inputs)" and ?op = "cp_available (fi_opening inputs)"
    and ?rs = "cp_restricted (fi_opening inputs)" and ?w = "\<lparr>wi_name = n, wi_adjustments = [SetMinimumCash m]\<rparr>"
    and ?c = "config\<lparr>minimum_cash := m\<rparr>"
  fix base rf inputs' rf'
  assume i: "apply_what_if inputs ?w = Inr inputs'"
    and rf: "resolve inputs config BASE base_assumptions = Some (Inr rf)"
    and rf': "resolve inputs' (config_override ?w config) BASE base_assumptions = Some (Inr rf')"
    and b: "compute_projection ?op ?rs (rf_flows rf) config ?as_of = Inr (fr_projection base)"
    and r: "compute_projection (cp_available (fi_opening inputs')) (cp_restricted (fi_opening inputs')) (rf_flows rf')
       (config_override ?w config) (cp_as_of (fi_opening inputs')) = Inr (fr_projection r)"
    and c: "compare_results base r = Inr diff"
  have w: "config_override ?w config = ?c" "inputs' = inputs"
    using i by (simp_all add: config_override_def apply_what_if_def)
  have "rf' = rf" using minimum_cash_path [OF rf, of m] rf' by (simp add: w)
  then have r': "compute_projection ?op ?rs (rf_flows rf) ?c ?as_of = Inr (fr_projection r)" using r w by simp
  note f = projection_fields [OF b] and f' = projection_fields [OF r'] and d = compare_results_fields [OF c]
  let ?path = "end_of_day (minor_units ?op) ?as_of (rf_flows rf)"
  have "weekly_closing_deltas diff =
      map (\<lambda>k. Money (?path (7 * k + 6) - ?path (7 * k + 6)) (cfg_currency config)) [0..horizon_weeks config - 1]"
    by (rule weekly_deltas) (use d(3) in \<open>simp add: f(2) f'(2)\<close>)
  then have weeks: "list_all is_zero (weekly_closing_deltas diff)" by (simp add: list_all_iff is_zero_def)
  obtain t1 t2 where
    t: "trough_of ?path ?as_of (7 * horizon_weeks config) (minor_units (ct_balance (pj_trough (fr_projection base)))) t1"
    "trough_of ?path ?as_of (7 * horizon_weeks config) (minor_units (ct_balance (pj_trough (fr_projection r)))) t2"
    using projection_trough_of [OF b] projection_trough_of [OF r'] by auto
  have "minor_units (ct_balance (pj_trough (fr_projection base))) = minor_units (ct_balance (pj_trough (fr_projection r)))"
    using trough_of_band [OF t, of 0] by simp
  with weeks d(1,2) f(6) f'(6) show ?thesis by (simp add: is_zero_def)
qed

text \<open>Concrete runs: the empty inputs, and with one expense.\<close>

lemma empty_inputs_one_time [simp]: "fi_one_time (empty_inputs c) = []"
  by (simp add: empty_inputs_def)

lemma resolve_example_expense:
  "resolve ((empty_inputs ''USD'')\<lparr>fi_one_time := [expense_item ''van'' (Money 30 ''USD'') 738002]\<rparr>)
     (default_config ''USD'') BASE base_assumptions =
   Some (Inr \<lparr>rf_flows = [\<lparr>seq = 1, on_date = 738002, direction = OUTFLOW, amount = Money 30 ''USD'',
      category = OTHER_OUTFLOW, confidence = PLANNED, basis = ''one-time: '' @ ''van'', cf_scenario = BASE,
      source = None, origin_id = Some ''van''\<rparr>], rf_notes = []\<rparr>)"
  by (simp add: resolve_def empty_inputs_def base_assumptions_def resolve_ar_def resolve_start_def add_note_def
      resolve_pipeline_def resolve_recurring_def resolve_bills_def resolve_payroll_def resolve_debt_def
      resolve_one_time_def resolve_one_time_item_def expense_item_def in_window_def add_flow_def
      number_flows_def date_add_def valid_date_def max_ordinal_def)

lemma usd_run:
  assumes "resolve inputs config BASE base_assumptions = Some (Inr rf)"
    and "fi_opening inputs = fi_opening (empty_inputs ''USD'')" "horizon_weeks config = 13"
      "cfg_currency config = ''USD''" "currency (minimum_cash config) = ''USD''"
    and "\<And>f. f \<in> set (rf_flows rf) \<Longrightarrow> currency (amount f) = ''USD''"
  shows "\<exists>r. run_forecast fp inputs (Some config) BASE None = Some (Inr r)"
proof -
  have "\<exists>r. run_forecast fp inputs (Some config) BASE (Some base_assumptions) = Some (Inr r)"
    by (rule run_forecast_total [OF assms(1)])
      (use assms(2-6) in \<open>simp_all add: valid_date_def max_ordinal_def known_currency_def currency_scale_def\<close>)
  then show ?thesis by (simp add: run_forecast_def)
qed

lemma run_forecast_projection:
  assumes "run_forecast fp inputs (Some config) scen a = Some (Inr r)"
  shows "\<exists>rf :: resolved_flows. compute_projection (cp_available (fi_opening inputs)) (cp_restricted (fi_opening inputs))
    (rf_flows rf) config (cp_as_of (fi_opening inputs)) = Inr (fr_projection r)"
  using assms
proof (rule run_forecastE)
  fix rf :: resolved_flows and pj
  assume "compute_projection (cp_available (fi_opening inputs)) (cp_restricted (fi_opening inputs)) (rf_flows rf)
      (case Some config of Some c \<Rightarrow> c | None \<Rightarrow> default_config (fi_currency inputs)) (cp_as_of (fi_opening inputs)) = Inr pj"
    and "fr_projection r = pj"
  then show ?thesis by (intro exI [of _ rf]) simp
qed

lemma run_scenario_returns:
  assumes "apply_what_if inputs w = Inr inputs'"
    and "run_forecast fp inputs (Some config) BASE None = Some (Inr base)"
    and "run_forecast fp inputs' (Some (config_override w config)) BASE None = Some (Inr r)"
    and "currency (cp_restricted (fi_opening inputs)) = cfg_currency config"
      "currency (cp_restricted (fi_opening inputs')) = cfg_currency config"
      "cfg_currency (config_override w config) = cfg_currency config"
  shows "\<exists>diff. run_scenario (default_runner fp) inputs config w = Some (Inr (r, diff))"
proof -
  obtain rf :: resolved_flows where b: "compute_projection (cp_available (fi_opening inputs)) (cp_restricted (fi_opening inputs))
      (rf_flows rf) config (cp_as_of (fi_opening inputs)) = Inr (fr_projection base)"
    using run_forecast_projection [OF assms(2)] by blast
  obtain rf' :: resolved_flows where r: "compute_projection (cp_available (fi_opening inputs')) (cp_restricted (fi_opening inputs'))
      (rf_flows rf') (config_override w config) (cp_as_of (fi_opening inputs')) = Inr (fr_projection r)"
    using run_forecast_projection [OF assms(3)] by blast
  obtain diff where "compare_results base r = Inr diff"
    using compare_results_total [OF b r assms(4-6)] by (elim exE)
  then show ?thesis using assms(1-3) by (simp add: run_scenario_def default_runner_def)
qed

theorem expense_shifts_path_witness:
  "\<exists>r diff. run_scenario (default_runner example_fp) (empty_inputs ''USD'') (default_config ''USD'')
      (one_time_expense ''van'' (Money 30 ''USD'') 738002) = Some (Inr (r, diff)) \<and>
    - 30 \<le> minor_units (trough_delta diff) \<and> length (weekly_closing_deltas diff) = 13"
proof -
  let ?w = "one_time_expense ''van'' (Money 30 ''USD'') 738002"
  have c: "config_override ?w (default_config ''USD'') = default_config ''USD''"
    by (simp add: config_override_def one_time_expense_def)
  obtain base where b: "run_forecast example_fp (empty_inputs ''USD'') (Some (default_config ''USD'')) BASE None = Some (Inr base)"
    using usd_run [OF resolve_empty_inputs] by fastforce
  obtain r where r: "run_forecast example_fp
      ((empty_inputs ''USD'')\<lparr>fi_one_time := [expense_item ''van'' (Money 30 ''USD'') 738002]\<rparr>)
      (Some (default_config ''USD'')) BASE None = Some (Inr r)"
    using usd_run [OF resolve_example_expense] by fastforce
  obtain diff where d: "run_scenario (default_runner example_fp) (empty_inputs ''USD'') (default_config ''USD'') ?w =
      Some (Inr (r, diff))"
    using run_scenario_returns [OF apply_expense b, of "''van''" "Money 30 ''USD''" 738002 r] r c by auto
  from expense_shifts_path [OF d] d show ?thesis by (intro exI [of _ r] exI [of _ diff]) simp
qed

theorem minimum_cash_moves_only_floor_witness:
  "\<exists>r diff. run_scenario (default_runner example_fp) (empty_inputs ''USD'') (default_config ''USD'')
      \<lparr>wi_name = ''floor'', wi_adjustments = [SetMinimumCash (Money 40 ''USD'')]\<rparr> = Some (Inr (r, diff)) \<and>
    minor_units (cushion_delta diff) = - 40"
proof -
  let ?w = "\<lparr>wi_name = ''floor'', wi_adjustments = [SetMinimumCash (Money 40 ''USD'')]\<rparr>"
    and ?c = "(default_config ''USD'')\<lparr>minimum_cash := Money 40 ''USD''\<rparr>"
  have c: "config_override ?w (default_config ''USD'') = ?c" and i: "apply_what_if (empty_inputs ''USD'') ?w = Inr (empty_inputs ''USD'')"
    by (simp_all add: config_override_def apply_what_if_def)
  obtain base where b: "run_forecast example_fp (empty_inputs ''USD'') (Some (default_config ''USD'')) BASE None = Some (Inr base)"
    using usd_run [OF resolve_empty_inputs] by fastforce
  obtain r where r: "run_forecast example_fp (empty_inputs ''USD'') (Some ?c) BASE None = Some (Inr r)"
    using usd_run [OF minimum_cash_path [OF resolve_empty_inputs, where m = "Money 40 ''USD''"]] by fastforce
  obtain diff where d: "run_scenario (default_runner example_fp) (empty_inputs ''USD'') (default_config ''USD'') ?w =
      Some (Inr (r, diff))"
    using run_scenario_returns [OF i b] r c by fastforce
  from minimum_cash_moves_only_floor [OF d] d show ?thesis by (intro exI [of _ r] exI [of _ diff]) simp
qed

text \<open>The template \<open>customer_pays_late\<close> leaves every other customer alone. It shifts the predicted
  lateness by the given days when the forecast predicts from an override or from enough history;
  otherwise the forecast used its configured default, and the template starts from the median of
  the few observations, or from 0.\<close>

theorem delay_shifts_prediction:
  assumes "apply_what_if inputs (customer_pays_late c days) = Inr inputs'"
    and "predict_days_late (history_for inputs c) config = Inr p" "0 < min_history_observations config"
  shows "\<exists>p' l. predict_days_late (history_for inputs' c) config = Inr p' \<and>
    effective_days_late (history_for inputs c) = Inr l \<and> days_late p' = l + days \<and>
    (case history_for inputs c of
       None \<Rightarrow> l = 0 \<and> days_late p = default_payment_delay_days config
     | Some h \<Rightarrow>
         if ch_override_days_late h \<noteq> None \<or> min_history_observations config \<le> int (length (ch_observations h))
         then l = days_late p else days_late p = default_payment_delay_days config) \<and>
    (\<forall>d. d \<noteq> c \<longrightarrow> history_for inputs' d = history_for inputs d)"
proof -
  from delayed_history [OF assms(1)] obtain l h' where l: "effective_days_late (history_for inputs c) = Inr l"
    and h': "history_for inputs' c = Some h'" "ch_override_days_late h' = Some (l + days)"
    and others: "\<forall>d. d \<noteq> c \<longrightarrow> history_for inputs' d = history_for inputs d" by (elim exE conjE)
  obtain p' where p': "predict_days_late (history_for inputs' c) config = Inr p'" "days_late p' = l + days"
    using h' by (simp add: predict_days_late_def)
  have "case history_for inputs c of
       None \<Rightarrow> l = 0 \<and> days_late p = default_payment_delay_days config
     | Some h \<Rightarrow>
         if ch_override_days_late h \<noteq> None \<or> min_history_observations config \<le> int (length (ch_observations h))
         then l = days_late p else days_late p = default_payment_delay_days config"
    using l assms(2,3)
    by (auto simp: predict_days_late_def effective_days_late_def Let_def result_simps split: option.splits if_splits)
  with l p' others show ?thesis by (intro exI [of _ p'] exI [of _ l] conjI)
qed

theorem delay_shifts_prediction_witness:
  "\<exists>inputs' p'. apply_what_if (empty_inputs ''USD'') (customer_pays_late ''C1'' 30) = Inr inputs' \<and>
     predict_days_late (history_for inputs' ''C1'') (default_config ''USD'') = Inr p' \<and> days_late p' = 30"
proof -
  obtain inputs' where i: "apply_what_if (empty_inputs ''USD'') (customer_pays_late ''C1'' 30) = Inr inputs'"
    by (simp add: apply_what_if_def customer_pays_late_def delay_customer_def empty_inputs_def effective_days_late_def)
  obtain p where p: "predict_days_late (history_for (empty_inputs ''USD'') ''C1'') (default_config ''USD'') = Inr p"
    by (simp add: history_for_def empty_inputs_def predict_days_late_def default_config_def Let_def)
  have "0 < min_history_observations (default_config ''USD'')" by (simp add: default_config_def)
  from delay_shifts_prediction [OF i p this] i show ?thesis
    by (auto simp: history_for_def empty_inputs_def)
qed

text \<open>Hence delaying a customer without history by fewer days than the configured default makes the
  forecast expect the payment earlier, not later.\<close>

theorem delay_without_history_pays_earlier:
  assumes "history_for inputs c = None" "0 < min_history_observations config"
    and "days < default_payment_delay_days config"
  shows "\<exists>inputs' p p'. apply_what_if inputs (customer_pays_late c days) = Inr inputs' \<and>
    predict_days_late (history_for inputs c) config = Inr p \<and>
    predict_days_late (history_for inputs' c) config = Inr p' \<and> days_late p' < days_late p"
proof -
  obtain inputs' where i: "apply_what_if inputs (customer_pays_late c days) = Inr inputs'"
    using assms(1)
    by (simp add: apply_what_if_def customer_pays_late_def delay_customer_def history_for_def effective_days_late_def Let_def)
  from delayed_history [OF this] obtain h' where h': "history_for inputs' c = Some h'" "ch_override_days_late h' = Some days"
    using assms(1) by (auto simp: effective_days_late_def)
  obtain p where "predict_days_late (history_for inputs c) config = Inr p" "days_late p = default_payment_delay_days config"
    using assms(1,2) by (simp add: predict_days_late_def Let_def)
  moreover obtain p' where "predict_days_late (history_for inputs' c) config = Inr p'" "days_late p' = days"
    using h' by (simp add: predict_days_late_def)
  ultimately show ?thesis using i assms(3) by (intro exI [of _ inputs'] exI [of _ p] exI [of _ p']) simp
qed

theorem delay_without_history_pays_earlier_witness:
  "\<exists>inputs' p p'. apply_what_if (empty_inputs ''USD'') (customer_pays_late ''C1'' 3) = Inr inputs' \<and>
    predict_days_late (history_for (empty_inputs ''USD'') ''C1'') (default_config ''USD'') = Inr p \<and>
    predict_days_late (history_for inputs' ''C1'') (default_config ''USD'') = Inr p' \<and> days_late p' < days_late p"
  by (rule delay_without_history_pays_earlier) (simp_all add: history_for_def empty_inputs_def default_config_def)

end
