(* ===== verification/Categorize.thy ===== *)
theory Categorize
  imports Complex_Main Prelude
begin

text \<open>
  \<open>packages/categorize/src/rgnr8_categorize\<close>: categorization by rules (\<open>rules.py\<close>) over learned
  frequencies (\<open>learn.py\<close>), combined by the categorizer (\<open>suggester.py\<close>), and the split of one bank
  account into several balanced books (\<open>split.py\<close>).

  \<open>re.search\<close> with \<open>IGNORECASE\<close> is the argument \<open>search\<close>; a rule that is built elsewhere may
  carry any pattern. The confidence, a float in the code, is the exact share here, and the text
  functions are modelled on ASCII.
\<close>

section \<open>Transactions\<close>

record txn =
  tx_id :: string
  tx_description :: string
  tx_counterparty :: string
  tx_amount_minor :: int
  tx_currency :: string

record categorized_txn = txn +
  tx_category :: string

section \<open>Rules\<close>

datatype amount_sign = In | Out

record rule =
  rule_name :: string
  rule_category :: string
  rule_description_regex :: "string option"
  rule_counterparty :: "string option"
  rule_amount_sign :: "amount_sign option"

type_synonym search = "string \<Rightarrow> string \<Rightarrow> bool"

definition rule_matches :: "search \<Rightarrow> rule \<Rightarrow> ('a) txn_scheme \<Rightarrow> bool" where
  "rule_matches search r t \<longleftrightarrow>
     (case rule_description_regex r of None \<Rightarrow> True | Some re \<Rightarrow> search re (tx_description t)) \<and>
     (case rule_counterparty r of None \<Rightarrow> True | Some c \<Rightarrow> tx_counterparty t = c) \<and>
     (case rule_amount_sign r of
        None \<Rightarrow> True | Some In \<Rightarrow> \<not> tx_amount_minor t \<le> 0 | Some Out \<Rightarrow> \<not> 0 \<le> tx_amount_minor t)"

definition first_match :: "search \<Rightarrow> rule list \<Rightarrow> ('a) txn_scheme \<Rightarrow> rule option" where
  "first_match search rules t = find (\<lambda>r. rule_matches search r t) rules"

section \<open>Learned frequencies\<close>

definition is_lower_letter :: "char \<Rightarrow> bool" where
  "is_lower_letter c = (let n = of_char c :: nat in 97 \<le> n \<and> n \<le> 122)"

text \<open>\<open>words p s\<close>: the maximal runs of characters with \<open>p\<close>, in order.\<close>

fun words_of :: "(char \<Rightarrow> bool) \<Rightarrow> string \<Rightarrow> string \<Rightarrow> string list" where
  "words_of p w [] = (if w = [] then [] else [w])"
| "words_of p w (c # s) =
     (if p c then words_of p (w @ [c]) s
      else if w = [] then words_of p [] s else w # words_of p [] s)"

fun join_words :: "string list \<Rightarrow> string" where
  "join_words [] = []"
| "join_words [w] = w"
| "join_words (w # ws) = w @ '' '' @ join_words ws"

text \<open>
  Replacing every run of other characters by a space and stripping joins the runs of letters with
  single spaces.
\<close>

definition normalize_description :: "string \<Rightarrow> string" where
  "normalize_description s = join_words (words_of is_lower_letter [] (ascii_lower s))"

definition is_blank :: "char \<Rightarrow> bool" where
  "is_blank c = (let n = of_char c :: nat in (9 \<le> n \<and> n \<le> 13) \<or> (28 \<le> n \<and> n \<le> 32))"

definition normalize_counterparty :: "string \<Rightarrow> string" where
  "normalize_counterparty s = join_words (words_of (\<lambda>c. \<not> is_blank c) [] (ascii_lower s))"

type_synonym counter = "(string \<times> int) list"

definition count_of :: "counter \<Rightarrow> string \<Rightarrow> int" where
  "count_of c k = dict_get0 c k"

text \<open>\<open>min(counts.items(), key=...)\<close>: the first item with the least key.\<close>

definition pick_key :: "string \<times> int \<Rightarrow> int \<times> string" where
  "pick_key kv = (- snd kv, fst kv)"

fun min_item :: "string \<times> int \<Rightarrow> (string \<times> int) list \<Rightarrow> string \<times> int" where
  "min_item b [] = b"
| "min_item b (x # xs) = min_item (if pick_key x < pick_key b then x else b) xs"

definition pick :: "counter \<Rightarrow> (string \<times> int \<times> int) res" where
  "pick counts =
     (case counts of
        [] \<Rightarrow> Inl ValueError
      | x # xs \<Rightarrow>
          let seen = dict_values_sum counts; (cat, winning) = min_item x xs
          in Inr (cat, winning, seen))"

record learned_model =
  by_counterparty :: "(string \<times> counter) list"
  by_description :: "(string \<times> counter) list"

text \<open>\<open>setdefault(key, Counter())[category] += 1\<close>.\<close>

definition tally :: "string \<Rightarrow> string \<Rightarrow> (string \<times> counter) list \<Rightarrow> (string \<times> counter) list" where
  "tally key cat d =
     AList.update key (dict_add cat 1 (case map_of d key of Some c \<Rightarrow> c | None \<Rightarrow> [])) d"

definition learn_txn :: "categorized_txn \<Rightarrow> learned_model \<Rightarrow> learned_model" where
  "learn_txn t m =
     (let cp_key = normalize_counterparty (tx_counterparty t);
          m = (if cp_key \<noteq> [] then m\<lparr>by_counterparty := tally cp_key (tx_category t) (by_counterparty m)\<rparr> else m);
          desc_key = normalize_description (tx_description t)
      in if desc_key \<noteq> [] then m\<lparr>by_description := tally desc_key (tx_category t) (by_description m)\<rparr> else m)"

definition from_history :: "categorized_txn list \<Rightarrow> learned_model" where
  "from_history history = fold learn_txn history \<lparr>by_counterparty = [], by_description = []\<rparr>"

definition apostrophe :: string where
  "apostrophe = [CHR 0x27]"

definition quoted :: "string \<Rightarrow> string" where
  "quoted s = apostrophe @ s @ apostrophe"

definition learned_reason :: "string \<Rightarrow> string \<Rightarrow> int \<Rightarrow> int \<Rightarrow> string \<Rightarrow> string" where
  "learned_reason what key seen winning cat =
     what @ '' '' @ quoted key @ '' seen '' @ str_int seen @ ''x in history, '' @ str_int winning @ '' as '' @ cat"

definition from_counter :: "string \<Rightarrow> string \<Rightarrow> counter \<Rightarrow> (string \<times> rat \<times> string) res" where
  "from_counter what key c =
     res_bind (pick c) (\<lambda>(cat, winning, seen).
       Inr (cat, Fract winning seen, learned_reason what key seen winning cat))"

definition learned_suggest :: "learned_model \<Rightarrow> ('a) txn_scheme \<Rightarrow> (string \<times> rat \<times> string) option res" where
  "learned_suggest m t =
     (let cp_key = normalize_counterparty (tx_counterparty t);
          desc_key = normalize_description (tx_description t)
      in case (if cp_key \<noteq> [] then map_of (by_counterparty m) cp_key else None) of
           Some c \<Rightarrow> res_bind (from_counter ''counterparty'' cp_key c) (\<lambda>s. Inr (Some s))
         | None \<Rightarrow>
             (case (if desc_key \<noteq> [] then map_of (by_description m) desc_key else None) of
                Some c \<Rightarrow> res_bind (from_counter ''description'' desc_key c) (\<lambda>s. Inr (Some s))
              | None \<Rightarrow> Inr None))"

section \<open>The categorizer\<close>

datatype suggestion_source = FromRule | FromLearned | FromNone

fun source_value :: "suggestion_source \<Rightarrow> string" where
  "source_value FromRule = ''rule''"
| "source_value FromLearned = ''learned''"
| "source_value FromNone = ''none''"

record suggestion =
  sg_category :: string
  sg_confidence :: rat
  sg_reason :: string
  sg_source :: suggestion_source

record categorizer =
  cz_rules :: "rule list"
  cz_model :: learned_model

definition suggest :: "search \<Rightarrow> categorizer \<Rightarrow> ('a) txn_scheme \<Rightarrow> suggestion res" where
  "suggest search cz t =
     (case first_match search (cz_rules cz) t of
        Some r \<Rightarrow>
          Inr \<lparr>sg_category = rule_category r, sg_confidence = 1,
               sg_reason = ''matched rule '' @ quoted (rule_name r), sg_source = FromRule\<rparr>
      | None \<Rightarrow>
          res_bind (learned_suggest (cz_model cz) t) (\<lambda>learned.
            Inr (case learned of
                   Some (cat, conf, why) \<Rightarrow>
                     \<lparr>sg_category = cat, sg_confidence = conf, sg_reason = why, sg_source = FromLearned\<rparr>
                 | None \<Rightarrow>
                     \<lparr>sg_category = ''Uncategorized'', sg_confidence = 0,
                      sg_reason = ''no rule or history match'', sg_source = FromNone\<rparr>)))"

definition categorize_batch :: "search \<Rightarrow> categorizer \<Rightarrow> txn list \<Rightarrow> suggestion list res" where
  "categorize_batch search cz ts = map_res (suggest search cz) ts"

section \<open>What is learned\<close>

lemma pick_key_inj: "pick_key a = pick_key b \<longleftrightarrow> a = b"
  by (cases a; cases b) (auto simp: pick_key_def)

lemma min_item_mem: "min_item b xs \<in> insert b (set xs)"
proof (induction xs arbitrary: b)
  case (Cons x xs)
  from Cons.IH [of "if pick_key x < pick_key b then x else b"] show ?case by (auto split: if_splits)
qed simp

lemma min_item_le: "x \<in> insert b (set xs) \<Longrightarrow> pick_key (min_item b xs) \<le> pick_key x"
proof (induction xs arbitrary: b x)
  case (Cons y xs)
  let ?c = "if pick_key y < pick_key b then y else b"
  have c: "pick_key ?c \<le> pick_key b" "pick_key ?c \<le> pick_key y" by auto
  have m: "min_item b (y # xs) = min_item ?c xs" by simp
  have "pick_key (min_item ?c xs) \<le> pick_key ?c" by (rule Cons.IH) simp
  moreover have "pick_key (min_item ?c xs) \<le> pick_key x" if "x \<in> set xs"
    by (rule Cons.IH) (simp add: that)
  moreover have "x = b \<or> x = y \<or> x \<in> set xs" using Cons.prems by auto
  ultimately show ?case unfolding m using c by (blast intro: order_trans)
qed simp

text \<open>A counter is well formed when its keys are distinct and its counts positive.\<close>

definition counter_ok :: "counter \<Rightarrow> bool" where
  "counter_ok c \<longleftrightarrow> c \<noteq> [] \<and> distinct (map fst c) \<and> list_all (\<lambda>(k, v). 0 < v) c"

lemma update_not_Nil [simp]: "AList.update k v c \<noteq> []"
  by (cases c) auto

lemma counter_add: "c = [] \<or> counter_ok c \<Longrightarrow> counter_ok (dict_add k 1 c)"
proof -
  assume c: "c = [] \<or> counter_ok c"
  have "0 \<le> dict_get0 c k"
    using c by (auto simp: dict_get0_def counter_ok_def list_all_iff split: option.splits dest!: map_of_SomeD)
  moreover have "list_all (\<lambda>(k, v). 0 < v) xs \<Longrightarrow> 0 < n \<Longrightarrow> list_all (\<lambda>(k, v). 0 < v) (AList.update k n xs)" for xs :: counter and n
    by (induction xs) auto
  ultimately show ?thesis
    using c by (auto simp: counter_ok_def dict_add_def distinct_update)
qed

lemma counter_ok_get:
  assumes "counter_ok c"
  shows "(k, v) \<in> set c \<longleftrightarrow> dict_get0 c k = v \<and> 0 < v"
proof -
  have "(k, v) \<in> set c \<longleftrightarrow> map_of c k = Some v"
    using assms by (auto simp: counter_ok_def dest: map_of_SomeD)
  moreover have "0 < v" if "(k, v) \<in> set c" using assms that by (auto simp: counter_ok_def list_all_iff)
  ultimately show ?thesis by (auto simp: dict_get0_def split: option.splits)
qed

text \<open>The winner has the largest count, and the least name among those.\<close>

lemma pick_winner:
  assumes "counter_ok c"
  shows "\<exists>cat. pick c = Inr (cat, dict_get0 c cat, dict_values_sum c) \<and> 0 < dict_get0 c cat \<and>
    (\<forall>k. dict_get0 c k \<le> dict_get0 c cat \<and> (dict_get0 c k = dict_get0 c cat \<longrightarrow> cat \<le> k))"
proof -
  from assms obtain x xs where c: "c = x # xs" by (cases c) (auto simp: counter_ok_def)
  obtain cat w where m: "min_item x xs = (cat, w)" by (cases "min_item x xs")
  with min_item_mem [of x xs] have w: "dict_get0 c cat = w" "0 < w"
    using counter_ok_get [OF assms, of cat w] c by auto
  have "dict_get0 c k \<le> w \<and> (dict_get0 c k = w \<longrightarrow> cat \<le> k)" for k
  proof (cases "0 < dict_get0 c k")
    case True
    then have "(k, dict_get0 c k) \<in> insert x (set xs)" using counter_ok_get [OF assms] c by auto
    from min_item_le [OF this] m show ?thesis by (auto simp: pick_key_def)
  qed (use w in auto)
  with m w c show ?thesis by (simp add: pick_def)
qed

text \<open>The tables after a history: the counters of the keys are the counts in the history.\<close>

definition times_as :: "(categorized_txn \<Rightarrow> string) \<Rightarrow> categorized_txn list \<Rightarrow> string \<Rightarrow> string \<Rightarrow> int" where
  "times_as key h k cat = int (length (filter (\<lambda>t. key t = k \<and> tx_category t = cat) h))"

definition times_seen :: "(categorized_txn \<Rightarrow> string) \<Rightarrow> categorized_txn list \<Rightarrow> string \<Rightarrow> int" where
  "times_seen key h k = int (length (filter (\<lambda>t. key t = k) h))"

definition tallied :: "(categorized_txn \<Rightarrow> string) \<Rightarrow> categorized_txn list \<Rightarrow> (string \<times> counter) list \<Rightarrow> bool" where
  "tallied key h d \<longleftrightarrow> (\<forall>k. k \<noteq> [] \<longrightarrow>
     (case map_of d k of
        None \<Rightarrow> times_seen key h k = 0
      | Some c \<Rightarrow> counter_ok c \<and> (\<forall>cat. dict_get0 c cat = times_as key h k cat) \<and>
                  dict_values_sum c = times_seen key h k))"

lemma times_0: "times_seen key h k = 0 \<Longrightarrow> times_as key h k cat = 0"
  by (auto simp: times_as_def times_seen_def filter_empty_conv)

lemma tallied_at:
  assumes "tallied key h d" "k \<noteq> []"
  shows "((case map_of d k of Some c \<Rightarrow> c | None \<Rightarrow> []) = [] \<or> counter_ok (case map_of d k of Some c \<Rightarrow> c | None \<Rightarrow> [])) \<and>
    (\<forall>cat. dict_get0 (case map_of d k of Some c \<Rightarrow> c | None \<Rightarrow> []) cat = times_as key h k cat) \<and>
    dict_values_sum (case map_of d k of Some c \<Rightarrow> c | None \<Rightarrow> []) = times_seen key h k"
proof -
  from assms have "case map_of d k of
        None \<Rightarrow> times_seen key h k = 0
      | Some c \<Rightarrow> counter_ok c \<and> (\<forall>cat. dict_get0 c cat = times_as key h k cat) \<and> dict_values_sum c = times_seen key h k"
    unfolding tallied_def by blast
  then show ?thesis using times_0 [of key h k] by (cases "map_of d k") (simp_all add: dict_values_sum_def)
qed

lemma tallied_snoc:
  assumes "tallied key h d"
  shows "tallied key (h @ [t]) (if key t \<noteq> [] then tally (key t) (tx_category t) d else d)"
  unfolding tallied_def
proof (intro allI impI)
  fix k :: string assume k: "k \<noteq> []"
  show "case map_of (if key t \<noteq> [] then tally (key t) (tx_category t) d else d) k of
        None \<Rightarrow> times_seen key (h @ [t]) k = 0
      | Some c \<Rightarrow> counter_ok c \<and> (\<forall>cat. dict_get0 c cat = times_as key (h @ [t]) k cat) \<and>
                  dict_values_sum c = times_seen key (h @ [t]) k"
  proof (cases "key t = k")
    case False
    then have "map_of (if key t \<noteq> [] then tally (key t) (tx_category t) d else d) k = map_of d k"
      "times_seen key (h @ [t]) k = times_seen key h k" "times_as key (h @ [t]) k = times_as key h k"
      by (auto simp: tally_def update_conv' times_as_def times_seen_def fun_eq_iff)
    moreover from assms k have "case map_of d k of
        None \<Rightarrow> times_seen key h k = 0
      | Some c \<Rightarrow> counter_ok c \<and> (\<forall>cat. dict_get0 c cat = times_as key h k cat) \<and> dict_values_sum c = times_seen key h k"
      unfolding tallied_def by blast
    ultimately show ?thesis by (simp cong: option.case_cong)
  next
    case True
    let ?c = "case map_of d k of Some c \<Rightarrow> c | None \<Rightarrow> []"
    have old: "?c = [] \<or> counter_ok ?c" "\<forall>cat. dict_get0 ?c cat = times_as key h k cat"
      "dict_values_sum ?c = times_seen key h k"
      using tallied_at [OF assms k] by simp_all
    have "map_of (tally (key t) (tx_category t) d) k = Some (dict_add (tx_category t) 1 ?c)"
      using True by (simp add: tally_def update_conv')
    moreover have "counter_ok (dict_add (tx_category t) 1 ?c)" using old(1) by (rule counter_add)
    ultimately show ?thesis
      using True k old(2,3)
      by (simp add: dict_get0_add dict_values_sum_add times_as_def times_seen_def)
  qed
qed

lemma from_history_tallied:
  "tallied (\<lambda>t. normalize_counterparty (tx_counterparty t)) h (by_counterparty (from_history h)) \<and>
   tallied (\<lambda>t. normalize_description (tx_description t)) h (by_description (from_history h))"
proof (induction h rule: rev_induct)
  case Nil
  then show ?case by (simp add: from_history_def tallied_def times_seen_def)
next
  case (snoc t h)
  then show ?case
    using tallied_snoc [of "\<lambda>t. normalize_counterparty (tx_counterparty t)" h "by_counterparty (from_history h)" t]
      tallied_snoc [of "\<lambda>t. normalize_description (tx_description t)" h "by_description (from_history h)" t]
    by (auto simp: from_history_def learn_txn_def Let_def)
qed

section \<open>The learned suggestion\<close>

definition cp_key_of :: "('a) txn_scheme \<Rightarrow> string" where
  "cp_key_of t = normalize_counterparty (tx_counterparty t)"

definition desc_key_of :: "('a) txn_scheme \<Rightarrow> string" where
  "desc_key_of t = normalize_description (tx_description t)"

text \<open>The category most often chosen for a key, the least name among equals.\<close>

definition winner :: "(categorized_txn \<Rightarrow> string) \<Rightarrow> categorized_txn list \<Rightarrow> string \<Rightarrow> string \<Rightarrow> bool" where
  "winner key h k cat \<longleftrightarrow> 0 < times_as key h k cat \<and>
     (\<forall>c. times_as key h k c \<le> times_as key h k cat \<and> (times_as key h k c = times_as key h k cat \<longrightarrow> cat \<le> c))"

lemma winner_unique: "winner key h k a \<Longrightarrow> winner key h k b \<Longrightarrow> a = b"
  unfolding winner_def by (meson antisym)

lemma from_counter_winner:
  assumes "tallied key h d" "k \<noteq> []"
  shows "case map_of d k of
      None \<Rightarrow> times_seen key h k = 0
    | Some c \<Rightarrow> times_seen key h k \<noteq> 0 \<and> (\<exists>cat. winner key h k cat \<and> from_counter what k c =
        Inr (cat, Fract (times_as key h k cat) (times_seen key h k),
             learned_reason what k (times_seen key h k) (times_as key h k cat) cat))"
proof -
  from assms have c: "case map_of d k of
        None \<Rightarrow> times_seen key h k = 0
      | Some c \<Rightarrow> counter_ok c \<and> (\<forall>cat. dict_get0 c cat = times_as key h k cat) \<and> dict_values_sum c = times_seen key h k"
    unfolding tallied_def by blast
  show ?thesis
  proof (cases "map_of d k")
    case (Some c)
    with c have ok: "counter_ok c" "\<forall>cat. dict_get0 c cat = times_as key h k cat" "dict_values_sum c = times_seen key h k"
      by simp_all
    from pick_winner [OF ok(1)] obtain cat where cat: "pick c = Inr (cat, times_as key h k cat, times_seen key h k)"
      "winner key h k cat" unfolding winner_def ok(2) [rule_format] ok(3) by blast
    from cat(2) have "times_seen key h k \<noteq> 0" using times_0 [of key h k cat] by (auto simp: winner_def)
    with Some cat show ?thesis by (auto simp: from_counter_def)
  qed (use c in simp)
qed

text \<open>The three outcomes, over the history.\<close>

definition learned_from :: "categorized_txn list \<Rightarrow> ('a) txn_scheme \<Rightarrow> (string \<times> rat \<times> string) option \<Rightarrow> bool" where
  "learned_from h t out \<longleftrightarrow>
     (if cp_key_of t \<noteq> [] \<and> times_seen cp_key_of h (cp_key_of t) \<noteq> 0 then
        \<exists>cat. winner cp_key_of h (cp_key_of t) cat \<and> out = Some
          (cat, Fract (times_as cp_key_of h (cp_key_of t) cat) (times_seen cp_key_of h (cp_key_of t)),
           learned_reason ''counterparty'' (cp_key_of t) (times_seen cp_key_of h (cp_key_of t))
             (times_as cp_key_of h (cp_key_of t) cat) cat)
      else if desc_key_of t \<noteq> [] \<and> times_seen desc_key_of h (desc_key_of t) \<noteq> 0 then
        \<exists>cat. winner desc_key_of h (desc_key_of t) cat \<and> out = Some
          (cat, Fract (times_as desc_key_of h (desc_key_of t) cat) (times_seen desc_key_of h (desc_key_of t)),
           learned_reason ''description'' (desc_key_of t) (times_seen desc_key_of h (desc_key_of t))
             (times_as desc_key_of h (desc_key_of t) cat) cat)
      else out = None)"

lemma learned_from_unique: "learned_from h t a \<Longrightarrow> learned_from h t b \<Longrightarrow> a = b"
  unfolding learned_from_def by (auto split: if_splits dest: winner_unique)

lemma learned_suggest_from: "\<exists>out. learned_suggest (from_history h) t = Inr out \<and> learned_from h t out"
proof -
  note tl = from_history_tallied [of h, folded cp_key_of_def desc_key_of_def]
  have tc: "tallied cp_key_of h (by_counterparty (from_history h))"
    and td: "tallied desc_key_of h (by_description (from_history h))" using tl by simp_all
  define mc where "mc = (if cp_key_of t \<noteq> [] then map_of (by_counterparty (from_history h)) (cp_key_of t) else None)"
  define md where "md = (if desc_key_of t \<noteq> [] then map_of (by_description (from_history h)) (desc_key_of t) else None)"
  have s: "learned_suggest (from_history h) t =
      (case mc of Some c \<Rightarrow> res_bind (from_counter ''counterparty'' (cp_key_of t) c) (\<lambda>s. Inr (Some s))
       | None \<Rightarrow> (case md of Some c \<Rightarrow> res_bind (from_counter ''description'' (desc_key_of t) c) (\<lambda>s. Inr (Some s))
                  | None \<Rightarrow> Inr None))"
    by (simp only: learned_suggest_def Let_def mc_def md_def cp_key_of_def desc_key_of_def)
  have c: "case mc of
      None \<Rightarrow> cp_key_of t = [] \<or> times_seen cp_key_of h (cp_key_of t) = 0
    | Some c \<Rightarrow> cp_key_of t \<noteq> [] \<and> times_seen cp_key_of h (cp_key_of t) \<noteq> 0 \<and>
       (\<exists>cat. winner cp_key_of h (cp_key_of t) cat \<and> from_counter ''counterparty'' (cp_key_of t) c =
        Inr (cat, Fract (times_as cp_key_of h (cp_key_of t) cat) (times_seen cp_key_of h (cp_key_of t)),
             learned_reason ''counterparty'' (cp_key_of t) (times_seen cp_key_of h (cp_key_of t)) (times_as cp_key_of h (cp_key_of t) cat) cat))"
    using from_counter_winner [OF tc, of "cp_key_of t" "''counterparty''"]
    by (cases mc) (auto simp: mc_def split: if_splits option.splits)
  have d: "case md of
      None \<Rightarrow> desc_key_of t = [] \<or> times_seen desc_key_of h (desc_key_of t) = 0
    | Some c \<Rightarrow> desc_key_of t \<noteq> [] \<and> times_seen desc_key_of h (desc_key_of t) \<noteq> 0 \<and>
       (\<exists>cat. winner desc_key_of h (desc_key_of t) cat \<and> from_counter ''description'' (desc_key_of t) c =
        Inr (cat, Fract (times_as desc_key_of h (desc_key_of t) cat) (times_seen desc_key_of h (desc_key_of t)),
             learned_reason ''description'' (desc_key_of t) (times_seen desc_key_of h (desc_key_of t)) (times_as desc_key_of h (desc_key_of t) cat) cat))"
    using from_counter_winner [OF td, of "desc_key_of t" "''description''"]
    by (cases md) (auto simp: md_def split: if_splits option.splits)
  show ?thesis
    using c d unfolding s learned_from_def by (cases mc; cases md) auto
qed

lemma times_perm:
  assumes "mset h = mset h'"
  shows "times_as key h = times_as key h'" "times_seen key h = times_seen key h'"
proof -
  have "length (filter P h) = length (filter P h')" for P
    using assms by (metis mset_filter size_mset)
  then show "times_as key h = times_as key h'" "times_seen key h = times_seen key h'"
    by (simp_all add: times_as_def times_seen_def fun_eq_iff)
qed

section \<open>Properties\<close>

text \<open>With a known counterparty the learned suggestion is the category chosen most often for it, the
  first by name among equals, with its share of the counterparty's history as confidence.\<close>

theorem learned_majority:
  assumes "normalize_counterparty (tx_counterparty t) \<noteq> []"
    and "\<exists>x\<in>set h. normalize_counterparty (tx_counterparty x) = normalize_counterparty (tx_counterparty t)"
  shows "\<exists>cat why. learned_suggest (from_history h) t =
      Inr (Some (cat, Fract (times_as cp_key_of h (cp_key_of t) cat) (times_seen cp_key_of h (cp_key_of t)), why)) \<and>
    0 < times_as cp_key_of h (cp_key_of t) cat \<and>
    (\<forall>c. times_as cp_key_of h (cp_key_of t) c \<le> times_as cp_key_of h (cp_key_of t) cat \<and>
       (times_as cp_key_of h (cp_key_of t) c = times_as cp_key_of h (cp_key_of t) cat \<longrightarrow> cat \<le> c))"
proof -
  have "times_seen cp_key_of h (cp_key_of t) \<noteq> 0"
    using assms(2) by (auto simp: times_seen_def filter_empty_conv cp_key_of_def)
  with assms(1) learned_suggest_from [of h t] show ?thesis
    by (auto simp: learned_from_def winner_def cp_key_of_def [of t, symmetric])
qed

definition example_txn :: "string \<Rightarrow> string \<Rightarrow> int \<Rightarrow> txn" where
  "example_txn i c m = \<lparr>tx_id = i, tx_description = ''card'', tx_counterparty = c, tx_amount_minor = m, tx_currency = ''USD''\<rparr>"

definition example_history :: "categorized_txn list" where
  "example_history =
     [\<lparr>tx_id = ''1'', tx_description = [], tx_counterparty = ''Gusto'', tx_amount_minor = - 5, tx_currency = ''USD'', tx_category = ''Payroll''\<rparr>]"

theorem learned_majority_witness:
  "\<exists>cat c why. learned_suggest (from_history example_history) (example_txn ''2'' ''gusto '' 7) = Inr (Some (cat, c, why))"
proof -
  have k: "normalize_counterparty ''Gusto'' = ''gusto''" "normalize_counterparty ''gusto '' = ''gusto''"
    by code_simp+
  show ?thesis
    using learned_majority [of "example_txn ''2'' ''gusto '' 7" example_history]
    by (force simp: example_txn_def example_history_def k)
qed

text \<open>The categorizer always returns a suggestion, with a confidence between 0 and 1; a rule that
  matches decides it, the first in order, and the suggestion does not depend on the order of the
  history it learned from.\<close>

theorem categorizer_total:
  "\<exists>s. suggest search \<lparr>cz_rules = rules, cz_model = from_history h\<rparr> t = Inr s \<and>
     0 \<le> sg_confidence s \<and> sg_confidence s \<le> 1 \<and>
     (case first_match search rules t of
        Some r \<Rightarrow> sg_category s = rule_category r \<and> sg_confidence s = 1 \<and> sg_source s = FromRule
      | None \<Rightarrow> sg_source s = FromLearned \<or> (sg_category s = ''Uncategorized'' \<and> sg_confidence s = 0))"
proof -
  obtain out where out: "learned_suggest (from_history h) t = Inr out" "learned_from h t out"
    using learned_suggest_from [of h t] by (elim exE conjE)
  have share: "0 \<le> Fract (times_as key h k c) (times_seen key h k) \<and> Fract (times_as key h k c) (times_seen key h k) \<le> 1"
    if "times_seen key h k \<noteq> 0" for key k c
  proof -
    have "times_as key h k c \<le> times_seen key h k" "0 \<le> times_as key h k c" "0 < times_seen key h k"
      using that length_filter_le [of "\<lambda>t. tx_category t = c" "filter (\<lambda>t. key t = k) h"]
      by (auto simp: times_as_def times_seen_def conj_commute)
    then show ?thesis by (simp add: zero_le_Fract_iff Fract_le_one_iff)
  qed
  have "0 \<le> c \<and> c \<le> 1" if "out = Some (cat, c, why)" for cat c why
    using out(2) that share by (auto simp: learned_from_def split: if_splits)
  then show ?thesis
    by (cases "first_match search rules t"; cases out) (auto simp: suggest_def out(1))
qed

text \<open>The order of the history does not matter.\<close>

theorem categorizer_history_order:
  assumes "mset h = mset h'"
  shows "suggest search \<lparr>cz_rules = rules, cz_model = from_history h\<rparr> t =
    suggest search \<lparr>cz_rules = rules, cz_model = from_history h'\<rparr> t"
proof -
  obtain a b where ab: "learned_suggest (from_history h) t = Inr a" "learned_from h t a"
    "learned_suggest (from_history h') t = Inr b" "learned_from h' t b"
    using learned_suggest_from [of h t] learned_suggest_from [of h' t] by (elim exE conjE)
  have "learned_from h' t a"
    using ab(2) unfolding learned_from_def winner_def times_perm [OF assms] .
  with ab(4) have "a = b" by (rule learned_from_unique [symmetric])
  with ab show ?thesis by (cases "first_match search rules t") (simp_all add: suggest_def)
qed

theorem categorizer_history_order_witness:
  "suggest (\<lambda>_ _. False) \<lparr>cz_rules = [], cz_model = from_history (example_history @ [(example_history ! 0)\<lparr>tx_category := ''Rent''\<rparr>])\<rparr>
     (example_txn ''2'' ''gusto '' 7) =
   suggest (\<lambda>_ _. False) \<lparr>cz_rules = [], cz_model = from_history ([(example_history ! 0)\<lparr>tx_category := ''Rent''\<rparr>] @ example_history)\<rparr>
     (example_txn ''2'' ''gusto '' 7)"
  by (rule categorizer_history_order) simp

end
