(* ===== verification/Split_Books.thy ===== *)
theory Split_Books
  imports Categorize
begin

text \<open>
  \<open>packages/categorize/src/rgnr8_categorize/split.py\<close>: one commingled bank account split into
  several sets of books. The lemmas show that nothing is lost or duplicated, that every book's
  journal balances, and when its cash account is the net movement.
\<close>

section \<open>Routing\<close>

definition CASH_ACCOUNT :: string where
  "CASH_ACCOUNT = ''Cash''"

definition SUSPENSE_ACCOUNT :: string where
  "SUSPENSE_ACCOUNT = ''Uncategorized''"

record book_rule =
  br_book :: string
  br_rule :: rule

record book_router =
  ro_rules :: "book_rule list"
  ro_default_book :: string

definition route :: "search \<Rightarrow> book_router \<Rightarrow> txn \<Rightarrow> string \<times> string option" where
  "route search ro t =
     (case find (\<lambda>b. rule_matches search (br_rule b) t) (ro_rules ro) of
        Some b \<Rightarrow> (br_book b, Some (rule_name (br_rule b)))
      | None \<Rightarrow> (ro_default_book ro, None))"

definition add_unseen :: "string \<Rightarrow> string list \<Rightarrow> string list" where
  "add_unseen b seen = (if \<not> List.member seen b then seen @ [b] else seen)"

definition router_books :: "book_router \<Rightarrow> string list" where
  "router_books ro = fold (\<lambda>b. add_unseen (br_book b)) (ro_rules ro) [ro_default_book ro]"

record routed_entry =
  re_txn_id :: string
  re_description :: string
  re_counterparty :: string
  re_amount_minor :: int
  re_currency :: string
  re_book :: string
  re_routed_by :: "string option"
  re_category :: string
  re_category_source :: string

section \<open>Books\<close>

record posting =
  po_account :: string
  po_debit_minor :: int
  po_credit_minor :: int

definition postings_for :: "routed_entry \<Rightarrow> posting list" where
  "postings_for e =
     (let amt = re_amount_minor e;
          cat = (if re_category e = [] then SUSPENSE_ACCOUNT else re_category e)
      in if 0 \<le> amt then
           [\<lparr>po_account = CASH_ACCOUNT, po_debit_minor = amt, po_credit_minor = 0\<rparr>,
            \<lparr>po_account = cat, po_debit_minor = 0, po_credit_minor = amt\<rparr>]
         else
           let mag = - amt
           in [\<lparr>po_account = cat, po_debit_minor = mag, po_credit_minor = 0\<rparr>,
               \<lparr>po_account = CASH_ACCOUNT, po_debit_minor = 0, po_credit_minor = mag\<rparr>])"

record book_set =
  bs_book :: string
  bs_entries :: "routed_entry list"

definition journal :: "book_set \<Rightarrow> posting list" where
  "journal b = concat (map postings_for (bs_entries b))"

definition debits_minor :: "book_set \<Rightarrow> int" where
  "debits_minor b = (\<Sum>p\<leftarrow>journal b. po_debit_minor p)"

definition credits_minor :: "book_set \<Rightarrow> int" where
  "credits_minor b = (\<Sum>p\<leftarrow>journal b. po_credit_minor p)"

definition balanced :: "book_set \<Rightarrow> bool" where
  "balanced b = (debits_minor b = credits_minor b)"

definition net_cash_minor :: "book_set \<Rightarrow> int" where
  "net_cash_minor b = (\<Sum>e\<leftarrow>bs_entries b. re_amount_minor e)"

section \<open>The split\<close>

type_synonym split_result = "book_set list"

definition sr_book :: "split_result \<Rightarrow> string \<Rightarrow> book_set option" where
  "sr_book r i = find (\<lambda>b. bs_book b = i) r"

definition all_balanced :: "split_result \<Rightarrow> bool" where
  "all_balanced r = list_all balanced r"

definition entry_count :: "split_result \<Rightarrow> int" where
  "entry_count r = (\<Sum>b\<leftarrow>r. int (length (bs_entries b)))"

record audit_row =
  au_txn_id :: string
  au_description :: string
  au_amount_minor :: int
  au_book :: string
  au_routed_by :: string
  au_category :: string
  au_category_source :: string

definition audit_row_of :: "routed_entry \<Rightarrow> audit_row" where
  "audit_row_of e =
     \<lparr>au_txn_id = re_txn_id e, au_description = re_description e, au_amount_minor = re_amount_minor e,
      au_book = re_book e,
      au_routed_by = (case re_routed_by e of
         Some s \<Rightarrow> if s = [] then ''(default)'' else s | None \<Rightarrow> ''(default)''),
      au_category = re_category e, au_category_source = re_category_source e\<rparr>"

definition audit_trail :: "split_result \<Rightarrow> audit_row list" where
  "audit_trail r = concat (map (\<lambda>b. map audit_row_of (bs_entries b)) r)"

definition route_entry :: "search \<Rightarrow> book_router \<Rightarrow> categorizer option \<Rightarrow> txn \<Rightarrow> routed_entry res" where
  "route_entry search ro cz t =
     (let (book, routed_by) = route search ro t
      in res_bind (case cz of
             Some c \<Rightarrow> res_bind (suggest search c t) (\<lambda>s. Inr (sg_category s, source_value (sg_source s)))
           | None \<Rightarrow> Inr (SUSPENSE_ACCOUNT, ''none'')) (\<lambda>(cat, src).
           Inr \<lparr>re_txn_id = tx_id t, re_description = tx_description t, re_counterparty = tx_counterparty t,
                re_amount_minor = tx_amount_minor t, re_currency = tx_currency t, re_book = book,
                re_routed_by = routed_by, re_category = cat, re_category_source = src\<rparr>))"

text \<open>\<open>buckets.setdefault(book, []).append(entry)\<close>.\<close>

definition add_entry :: "routed_entry \<Rightarrow> (string \<times> routed_entry list) list \<Rightarrow> (string \<times> routed_entry list) list" where
  "add_entry e d =
     AList.update (re_book e) ((case map_of d (re_book e) of Some es \<Rightarrow> es | None \<Rightarrow> []) @ [e]) d"

definition split_step ::
  "search \<Rightarrow> book_router \<Rightarrow> categorizer option \<Rightarrow> txn
     \<Rightarrow> (string \<times> routed_entry list) list \<Rightarrow> (string \<times> routed_entry list) list res" where
  "split_step search ro cz t d = res_bind (route_entry search ro cz t) (\<lambda>e. Inr (add_entry e d))"

definition split_books :: "search \<Rightarrow> txn list \<Rightarrow> book_router \<Rightarrow> categorizer option \<Rightarrow> split_result res" where
  "split_books search ts ro cz =
     res_bind (fold_res (split_step search ro cz) ts (map (\<lambda>b. (b, [])) (router_books ro))) (\<lambda>buckets.
       Inr (map (\<lambda>(b, es). \<lparr>bs_book = b, bs_entries = es\<rparr>) (filter (\<lambda>(b, es). es \<noteq> []) buckets)))"

section \<open>Balance\<close>

lemma postings_balance: "(\<Sum>p\<leftarrow>postings_for e. po_debit_minor p) = (\<Sum>p\<leftarrow>postings_for e. po_credit_minor p)"
  by (simp add: postings_for_def Let_def)

lemma journal_balances: "balanced b"
proof -
  have "(\<Sum>p\<leftarrow>concat (map postings_for es). po_debit_minor p) = (\<Sum>p\<leftarrow>concat (map postings_for es). po_credit_minor p)" for es
    by (induction es) (simp_all add: postings_balance)
  then show ?thesis by (simp add: balanced_def debits_minor_def credits_minor_def journal_def)
qed

text \<open>The movement of one account.\<close>

definition account_net :: "string \<Rightarrow> posting list \<Rightarrow> int" where
  "account_net a ps = (\<Sum>p\<leftarrow>filter (\<lambda>p. po_account p = a) ps. po_debit_minor p - po_credit_minor p)"

lemma account_net_append: "account_net a (ps @ qs) = account_net a ps + account_net a qs"
  by (simp add: account_net_def)

lemma cash_of_entry:
  "account_net CASH_ACCOUNT (postings_for e) = (if re_category e = CASH_ACCOUNT then 0 else re_amount_minor e)"
  by (auto simp: account_net_def postings_for_def Let_def CASH_ACCOUNT_def SUSPENSE_ACCOUNT_def)

lemma cash_of_journal:
  "account_net CASH_ACCOUNT (journal b) =
     (\<Sum>e\<leftarrow>bs_entries b. if re_category e = CASH_ACCOUNT then 0 else re_amount_minor e)"
proof -
  have "account_net CASH_ACCOUNT (concat (map postings_for es)) =
      (\<Sum>e\<leftarrow>es. if re_category e = CASH_ACCOUNT then 0 else re_amount_minor e)" for es
    by (induction es) (simp_all add: account_net_append cash_of_entry, simp add: account_net_def)
  then show ?thesis by (simp add: journal_def)
qed

section \<open>Nothing is lost\<close>

text \<open>The buckets: distinct books, and every entry in the bucket of its book.\<close>

definition buckets_ok :: "(string \<times> routed_entry list) list \<Rightarrow> bool" where
  "buckets_ok d \<longleftrightarrow> distinct (map fst d) \<and> list_all (\<lambda>(b, es). list_all (\<lambda>e. re_book e = b) es) d"

definition all_entries :: "(string \<times> routed_entry list) list \<Rightarrow> routed_entry multiset" where
  "all_entries d = (\<Sum>(b, es)\<in>#mset d. mset es)"

lemma all_entries_update:
  "distinct (map fst d) \<Longrightarrow>
     all_entries (AList.update k es d) + mset (case map_of d k of Some xs \<Rightarrow> xs | None \<Rightarrow> []) = all_entries d + mset es"
proof (induction d)
  case (Cons x d)
  then have "map_of d (fst x) = None" by (simp add: map_of_eq_None_iff)
  with Cons show ?case by (cases x) (auto simp: all_entries_def ac_simps)
qed (simp add: all_entries_def)

lemma all_entries_add: "distinct (map fst d) \<Longrightarrow> all_entries (add_entry e d) = add_mset e (all_entries d)"
  using all_entries_update [of d "re_book e" "(case map_of d (re_book e) of Some es \<Rightarrow> es | None \<Rightarrow> []) @ [e]"]
  by (simp add: add_entry_def)

lemma buckets_ok_add:
  assumes "buckets_ok d"
  shows "buckets_ok (add_entry e d)"
proof -
  have "list_all (\<lambda>e'. re_book e' = re_book e) (case map_of d (re_book e) of Some es \<Rightarrow> es | None \<Rightarrow> [])"
    using assms by (auto simp: buckets_ok_def list_all_iff split: option.splits dest: map_of_SomeD)
  with assms show ?thesis
    by (auto simp: buckets_ok_def add_entry_def distinct_update intro!: list_all_update_alist)
qed

lemma split_fold:
  assumes "fold_res (split_step search ro cz) ts d = Inr d'" "buckets_ok d"
  shows "buckets_ok d' \<and> (\<exists>es. map_res (route_entry search ro cz) ts = Inr es \<and> all_entries d' = all_entries d + mset es)"
  using assms
proof (induction ts arbitrary: d)
  case (Cons t ts)
  then obtain e where e: "route_entry search ro cz t = Inr e"
    and rest: "fold_res (split_step search ro cz) ts (add_entry e d) = Inr d'"
    by (auto simp: split_step_def [of search ro cz t] result_simps)
  from Cons.IH [OF rest buckets_ok_add [OF Cons.prems(2)]] obtain es where
    "buckets_ok d'" "map_res (route_entry search ro cz) ts = Inr es" "all_entries d' = all_entries (add_entry e d) + mset es"
    by (elim conjE exE)
  moreover have "all_entries (add_entry e d) = add_mset e (all_entries d)"
    using Cons.prems(2) by (intro all_entries_add) (simp add: buckets_ok_def)
  ultimately show ?case using e by simp
qed simp

lemma router_books_distinct: "distinct (router_books ro)"
proof -
  have keep: "distinct s \<Longrightarrow> distinct (fold (\<lambda>b. add_unseen (br_book b)) rs s)" for rs s
    by (induction rs arbitrary: s) (auto simp: add_unseen_def)
  show ?thesis unfolding router_books_def by (rule keep) simp
qed

section \<open>Properties\<close>

definition txn_of_entry :: "routed_entry \<Rightarrow> txn" where
  "txn_of_entry e =
     \<lparr>tx_id = re_txn_id e, tx_description = re_description e, tx_counterparty = re_counterparty e,
      tx_amount_minor = re_amount_minor e, tx_currency = re_currency e\<rparr>"

lemma route_entry_txn:
  assumes "route_entry search ro cz t = Inr e"
  shows "txn_of_entry e = t \<and> (re_book e, re_routed_by e) = route search ro t"
  using assms by (cases "route search ro t") (auto simp: route_entry_def txn_of_entry_def result_simps)

lemma route_entries_txns:
  "map_res (route_entry search ro cz) ts = Inr es \<Longrightarrow> map txn_of_entry es = ts"
  by (induction ts arbitrary: es) (auto simp: result_simps dest: route_entry_txn)

definition learned_categorizer :: "(rule list \<times> categorized_txn list) option \<Rightarrow> categorizer option" where
  "learned_categorizer c = map_option (\<lambda>(rules, h). \<lparr>cz_rules = rules, cz_model = from_history h\<rparr>) c"

lemma route_entry_returns: "\<exists>e. route_entry search ro (learned_categorizer c) t = Inr e"
proof (cases c)
  case None
  then show ?thesis by (cases "route search ro t") (simp add: route_entry_def learned_categorizer_def)
next
  case (Some rh)
  obtain rules h where rh: "rh = (rules, h)" by (cases rh)
  obtain out where out: "learned_suggest (from_history h) t = Inr out"
    using learned_suggest_from [of h t] by (elim exE conjE)
  have "\<exists>s. suggest search \<lparr>cz_rules = rules, cz_model = from_history h\<rparr> t = Inr s"
    by (cases "first_match search rules t") (simp_all add: suggest_def out)
  with Some rh show ?thesis
    by (cases "route search ro t") (auto simp: route_entry_def learned_categorizer_def)
qed

lemma split_fold_returns: "\<exists>d'. fold_res (split_step search ro (learned_categorizer c)) ts d = Inr d'"
proof (induction ts arbitrary: d)
  case (Cons t ts)
  obtain e where "route_entry search ro (learned_categorizer c) t = Inr e"
    using route_entry_returns [of search ro c t] by (elim exE)
  with Cons.IH [of "add_entry e d"] show ?case by (simp add: split_step_def [of search ro _ t])
qed simp

lemma all_entries_books:
  "mset (concat (map bs_entries (map (\<lambda>(b, es). \<lparr>bs_book = b, bs_entries = es\<rparr>) (filter (\<lambda>(b, es). es \<noteq> []) d)))) =
     all_entries d"
  by (induction d) (auto simp: all_entries_def)

text \<open>C15. A split with any learned categorizer, or with none, does not raise. The books together hold every
  transaction of the statement exactly once, unchanged; each entry is in the book it was routed to,
  books are distinct and not empty, and the net movements of the books add up to the statement's.\<close>

theorem split_conserves:
  "\<exists>books. split_books search ts ro (learned_categorizer c) = Inr books \<and>
     mset (map txn_of_entry (concat (map bs_entries books))) = mset ts \<and>
     list_all (\<lambda>b. bs_entries b \<noteq> [] \<and> list_all (\<lambda>e. re_book e = bs_book b) (bs_entries b)) books \<and>
     distinct (map bs_book books) \<and> all_balanced books \<and>
     (\<Sum>b\<leftarrow>books. net_cash_minor b) = (\<Sum>t\<leftarrow>ts. tx_amount_minor t)"
proof -
  let ?d0 = "map (\<lambda>b. (b, [])) (router_books ro) :: (string \<times> routed_entry list) list"
  obtain d where d: "fold_res (split_step search ro (learned_categorizer c)) ts ?d0 = Inr d"
    using split_fold_returns [of search ro c ts ?d0] by (elim exE)
  have "map fst ?d0 = router_books ro" by (simp add: comp_def)
  then have "buckets_ok ?d0" using router_books_distinct [of ro] by (simp add: buckets_ok_def list_all_iff)
  from split_fold [OF d this] obtain es where ok: "buckets_ok d"
    and es: "map_res (route_entry search ro (learned_categorizer c)) ts = Inr es" "all_entries d = all_entries ?d0 + mset es"
    by (elim conjE exE)
  have "all_entries (map (\<lambda>b. (b, [])) bs) = {#}" for bs :: "string list"
    by (induction bs) (simp_all add: all_entries_def)
  with es(2) have entries: "all_entries d = mset es" by simp
  let ?books = "map (\<lambda>(b, es). \<lparr>bs_book = b, bs_entries = es\<rparr>) (filter (\<lambda>(b, es). es \<noteq> []) d)"
  have m: "mset (concat (map bs_entries ?books)) = mset es" unfolding all_entries_books entries ..
  then have "mset (map txn_of_entry (concat (map bs_entries ?books))) = mset (map txn_of_entry es)"
    by (simp only: mset_map)
  then have txns: "mset (map txn_of_entry (concat (map bs_entries ?books))) = mset ts"
    using route_entries_txns [OF es(1)] by simp
  have "map bs_book ?books = map fst (filter (\<lambda>(b, es). es \<noteq> []) d)" by (induction d) auto
  moreover have "distinct (map fst (filter (\<lambda>(b, es). es \<noteq> []) d))"
    using ok by (simp add: buckets_ok_def distinct_map_filter)
  ultimately have dist: "distinct (map bs_book ?books)" by (simp only:)
  have own: "list_all (\<lambda>b. bs_entries b \<noteq> [] \<and> list_all (\<lambda>e. re_book e = bs_book b) (bs_entries b)) ?books"
    using ok by (auto simp: buckets_ok_def list_all_iff)
  have nets: "(\<Sum>b\<leftarrow>bs. net_cash_minor b) = (\<Sum>t\<leftarrow>map txn_of_entry (concat (map bs_entries bs)). tx_amount_minor t)" for bs
    by (induction bs) (simp_all add: net_cash_minor_def txn_of_entry_def comp_def)
  have "(\<Sum>t\<leftarrow>map txn_of_entry (concat (map bs_entries ?books)). tx_amount_minor t) = (\<Sum>t\<leftarrow>ts. tx_amount_minor t)"
    by (rule sum_list_mset_cong [OF txns])
  with nets have "(\<Sum>b\<leftarrow>?books. net_cash_minor b) = (\<Sum>t\<leftarrow>ts. tx_amount_minor t)" by (rule trans)
  moreover have "all_balanced ?books" by (simp add: all_balanced_def list_all_iff journal_balances)
  moreover have "split_books search ts ro (learned_categorizer c) = Inr ?books" by (simp add: split_books_def d)
  ultimately show ?thesis using txns own dist by (intro exI [of _ ?books] conjI)
qed

text \<open>The cash account of a book's journal moves by the net of its transactions except those categorized
  as \<open>Cash\<close>: both legs of such a transaction are on the cash account and cancel.\<close>

theorem book_cash_account:
  "account_net CASH_ACCOUNT (journal b) =
     net_cash_minor b - (\<Sum>e\<leftarrow>filter (\<lambda>e. re_category e = CASH_ACCOUNT) (bs_entries b). re_amount_minor e)"
proof -
  have "(\<Sum>e\<leftarrow>es. if re_category e = CASH_ACCOUNT then 0 else re_amount_minor e) =
      (\<Sum>e\<leftarrow>es. re_amount_minor e) - (\<Sum>e\<leftarrow>filter (\<lambda>e. re_category e = CASH_ACCOUNT) es. re_amount_minor e)" for es
    by (induction es) auto
  then show ?thesis by (simp add: cash_of_journal net_cash_minor_def)
qed

text \<open>A transaction of zero posts two legs with neither a debit nor a credit.\<close>

lemma zero_amount_postings:
  "re_amount_minor e = 0 \<Longrightarrow> list_all (\<lambda>p. po_debit_minor p = 0 \<and> po_credit_minor p = 0) (postings_for e)"
  by (simp add: postings_for_def)

text \<open>The audit trail has one row per transaction.\<close>

lemma length_audit_trail: "int (length (audit_trail r)) = entry_count r"
  by (induction r) (simp_all add: audit_trail_def entry_count_def)

end
