(* ===== verification/Json.thy ===== *)
theory Json
  imports Prelude
begin

text \<open>
  What the sources use of \<open>json.dumps(value, sort_keys=True)\<close> with its default separators and
  \<open>ensure_ascii\<close>: the values, the escapes and the printer. Floats are not printed.
\<close>

datatype json =
    JNull
  | JBool bool
  | JInt int
  | JStr string
  | JList "json list"
  | JObj "(string \<times> json) list"

definition hex4 :: "nat \<Rightarrow> string" where
  "hex4 n = map (\<lambda>k. hex_digit (n div 16 ^ k mod 16)) [3, 2, 1, 0]"

text \<open>The code point of a valid UTF-8 sequence and the bytes after it.\<close>

definition cont :: "char \<Rightarrow> nat" where
  "cont c = of_char c mod 64"

fun utf8_next :: "char \<Rightarrow> string \<Rightarrow> nat \<times> string" where
  "utf8_next a s =
     (let n = of_char a :: nat
      in if n < 128 then (n, s)
         else case s of
             [] \<Rightarrow> (n, s)
           | b # s1 \<Rightarrow>
               if n < 224 then (n mod 32 * 64 + cont b, s1)
               else case s1 of
                   [] \<Rightarrow> (n, s1)
                 | c # s2 \<Rightarrow>
                     if n < 240 then ((n mod 16 * 64 + cont b) * 64 + cont c, s2)
                     else case s2 of
                         [] \<Rightarrow> (n, s2)
                       | d # s3 \<Rightarrow> (((n mod 8 * 64 + cont b) * 64 + cont c) * 64 + cont d, s3))"

lemma utf8_next_shorter: "length (snd (utf8_next a s)) \<le> length s"
  by (auto simp: Let_def split: list.split)

declare utf8_next.simps [simp del]

definition escape_point :: "nat \<Rightarrow> string" where
  "escape_point n =
     (if n = 34 then [char_of (92 :: nat), char_of (34 :: nat)]
      else if n = 92 then [char_of (92 :: nat), char_of (92 :: nat)]
      else if n = 10 then char_of (92 :: nat) # ''n''
      else if n = 13 then char_of (92 :: nat) # ''r''
      else if n = 9 then char_of (92 :: nat) # ''t''
      else if n = 12 then char_of (92 :: nat) # ''f''
      else if n = 8 then char_of (92 :: nat) # ''b''
      else if 32 \<le> n \<and> n \<le> 126 then [char_of n]
      else if n < 65536 then char_of (92 :: nat) # ''u'' @ hex4 n
      else char_of (92 :: nat) # ''u'' @ hex4 (55296 + (n - 65536) div 1024) @
           char_of (92 :: nat) # ''u'' @ hex4 (56320 + (n - 65536) mod 1024))"

function escape_str :: "string \<Rightarrow> string" where
  "escape_str [] = []"
| "escape_str (a # s) = (let (n, rest) = utf8_next a s in escape_point n @ escape_str rest)"
  by pat_completeness auto
termination
proof (relation "measure length")
  fix a :: char and s x y rest assume "x = utf8_next a s" "(y, rest) = x"
  then show "(rest, a # s) \<in> measure length" using utf8_next_shorter [of a s]
    by (cases "utf8_next a s") simp
qed simp

definition json_str :: "string \<Rightarrow> string" where
  "json_str s = [char_of (34 :: nat)] @ escape_str s @ [char_of (34 :: nat)]"

fun dumps :: "json \<Rightarrow> string" where
  "dumps JNull = ''null''"
| "dumps (JBool b) = (if b then ''true'' else ''false'')"
| "dumps (JInt i) = str_int i"
| "dumps (JStr s) = json_str s"
| "dumps (JList xs) = ''['' @ join_sep '', '' (map dumps xs) @ '']''"
| "dumps (JObj kvs) =
     ''{'' @ join_sep '', '' (map snd (sort_key fst (map (\<lambda>(k, v). (k, json_str k @ '': '' @ dumps v)) kvs))) @ ''}''"

lemma dumps_example:
  "dumps (JObj [(''type'', JStr ''a/b''), (''at'', JInt (- 5)), (''data'', JObj []), (''id'', JStr [char_of (10 :: nat)])]) =
     ''{'' @ json_str ''at'' @ '': -5, '' @ json_str ''data'' @ '': {}, '' @ json_str ''id'' @ '': '' @
     [char_of (34 :: nat), char_of (92 :: nat)] @ ''n'' @ [char_of (34 :: nat)] @ '', '' @
     json_str ''type'' @ '': '' @ json_str ''a/b'' @ ''}''"
  by code_simp

end
