(* ===== verification/Secrets.thy ===== *)
theory Secrets
  imports Prelude
begin

text \<open>
  \<open>packages/qbo/src/rgnr8_qbo/secrets_cipher.py\<close>: encryption at rest. The Fernet primitive of the
  \<open>cryptography\<close> package is an argument: \<open>fe\<close> encrypts to a token, \<open>fd\<close> is \<open>None\<close> on an invalid
  token. The locale \<open>sealed_cipher\<close> is what a store asks of a cipher.
\<close>

record cipher =
  encrypt :: "string \<Rightarrow> string"
  decrypt :: "string \<Rightarrow> string res"

definition ENC_PREFIX :: string where
  "ENC_PREFIX = ''enc:fernet:v1:''"

definition null_cipher :: cipher where
  "null_cipher = \<lparr>encrypt = (\<lambda>p. p),
     decrypt = (\<lambda>stored. if starts_with ENC_PREFIX stored then Inl SecretCipherError else Inr stored)\<rparr>"

definition fernet_cipher :: "(string \<Rightarrow> string) \<Rightarrow> (string \<Rightarrow> string option) \<Rightarrow> cipher" where
  "fernet_cipher fe fd = \<lparr>encrypt = (\<lambda>p. ENC_PREFIX @ fe p),
     decrypt = (\<lambda>stored.
       if \<not> starts_with ENC_PREFIX stored then Inr stored
       else case fd (drop (length ENC_PREFIX) stored) of Some p \<Rightarrow> Inr p | None \<Rightarrow> Inl SecretCipherError)\<rparr>"

definition is_encrypted :: "string \<Rightarrow> bool" where
  "is_encrypted stored = starts_with ENC_PREFIX stored"

text \<open>\<open>fernet key\<close> is the pair of functions of a key; an invalid key raises on construction.\<close>

definition cipher_from_env ::
  "(string \<Rightarrow> ((string \<Rightarrow> string) \<times> (string \<Rightarrow> string option)) res) \<Rightarrow> (string \<Rightarrow> string option) \<Rightarrow> cipher res" where
  "cipher_from_env fernet env =
     (let key = strip (case env ''RGNR8_SECRET_KEY'' of Some k \<Rightarrow> k | None \<Rightarrow> [])
      in if key \<noteq> [] then res_bind (fernet key) (\<lambda>(fe, fd). Inr (fernet_cipher fe fd)) else Inr null_cipher)"

section \<open>What a store asks of a cipher\<close>

text \<open>A secret that satisfies \<open>safe\<close> is read back.\<close>

locale sealed_cipher =
  fixes cph :: cipher and safe :: "string \<Rightarrow> bool"
  assumes read_back: "safe s \<Longrightarrow> decrypt cph (encrypt cph s) = Inr s"

interpretation null_seal: sealed_cipher null_cipher "\<lambda>s. \<not> is_encrypted s"
  by unfold_locales (simp add: null_cipher_def is_encrypted_def)

lemma fernet_seals: "(\<And>s. fd (fe s) = Some s) \<Longrightarrow> sealed_cipher (fernet_cipher fe fd) (\<lambda>_. True)"
  by unfold_locales (simp add: fernet_cipher_def)

text \<open>Turning encryption on: with a working key, what was stored before reads as it is, what is
  saved from then on is encrypted and reads back, a process without the key is refused it, and so is
  one whose key does not open the token.\<close>

theorem encryption_migration:
  assumes "\<And>s. fd (fe s) = Some s" and "\<not> is_encrypted legacy"
  shows "decrypt (fernet_cipher fe fd) (encrypt null_cipher legacy) = Inr legacy \<and>
    (let stored = encrypt (fernet_cipher fe fd) secret
     in is_encrypted stored \<and> decrypt (fernet_cipher fe fd) stored = Inr secret \<and>
        decrypt null_cipher stored = Inl SecretCipherError \<and>
        (fd' (fe secret) = None \<longrightarrow> decrypt (fernet_cipher fe' fd') stored = Inl SecretCipherError))"
  using assms by (simp add: Let_def fernet_cipher_def null_cipher_def is_encrypted_def)

theorem encryption_migration_witness:
  "decrypt (fernet_cipher rev (\<lambda>t. Some (rev t))) ''token'' = Inr ''token'' \<and>
   decrypt null_cipher (encrypt (fernet_cipher rev (\<lambda>t. Some (rev t))) ''abc'') = Inl SecretCipherError"
  using encryption_migration [of "\<lambda>t. Some (rev t)" rev "''token''" "''abc''"]
  by (simp add: Let_def null_cipher_def is_encrypted_def ENC_PREFIX_def starts_with_def)

end
