(* ===== verification/Webhooks.thy ===== *)
theory Webhooks
  imports Json Secrets
begin

text \<open>
  \<open>packages/web/src/rgnr8_web/webhooks_out.py\<close>: the guard on webhook targets, endpoints and their
  stores in memory and in SQL, and the dispatcher that delivers within one process.

  Arguments of the model: \<open>urlsplit\<close>, \<open>ipaddress\<close> and name resolution (the record \<open>net\<close>; splitting and
  resolving may raise), the HMAC, and the HTTP client: \<open>http n url body headers\<close> is
  the outcome of the \<open>n\<close>-th request. Only the columns of a row and the statements over them are
  modelled of the database.
\<close>

section \<open>The target guard\<close>

record 'ip net =
  url_split :: "string \<Rightarrow> (string \<times> string option) res" \<comment> \<open>scheme and hostname\<close>
  parse_ip :: "string \<Rightarrow> 'ip option"
  is_loopback :: "'ip \<Rightarrow> bool"
  is_private :: "'ip \<Rightarrow> bool"
  is_link_local :: "'ip \<Rightarrow> bool"
  is_reserved :: "'ip \<Rightarrow> bool"
  is_multicast :: "'ip \<Rightarrow> bool"
  is_unspecified :: "'ip \<Rightarrow> bool"
  resolve_host :: "string \<Rightarrow> string list res"

definition LOOPBACK_NAMES :: "string list" where
  "LOOPBACK_NAMES = [''localhost'', ''localhost.localdomain'', ''ip6-localhost'', ''ip6-loopback'']"

definition is_blocked_ip :: "'ip net \<Rightarrow> 'ip \<Rightarrow> bool" where
  "is_blocked_ip nt ip \<longleftrightarrow> is_loopback nt ip \<or> is_private nt ip \<or> is_link_local nt ip \<or>
     is_reserved nt ip \<or> is_multicast nt ip \<or> is_unspecified nt ip"

text \<open>The loop over the resolved addresses.\<close>

primrec check_addresses :: "'ip net \<Rightarrow> string \<Rightarrow> string list \<Rightarrow> string option" where
  "check_addresses nt host [] = None"
| "check_addresses nt host (a # as) =
     (case parse_ip nt a of
        None \<Rightarrow> Some (''blocked: unparseable resolved address '' @ py_repr a @ '' for '' @ py_repr host)
      | Some ip \<Rightarrow>
          if is_blocked_ip nt ip
          then Some (''blocked: '' @ py_repr host @ '' resolves to non-public address '' @ a)
          else check_addresses nt host as)"

definition validate_target :: "'ip net \<Rightarrow> string list option \<Rightarrow> string \<Rightarrow> string option res" where
  "validate_target nt allow_hosts url =
     res_bind (url_split nt url) (\<lambda>(scheme, hostname).
       if scheme \<noteq> ''https'' then
         Inr (Some (''blocked: scheme '' @ py_repr (if scheme = [] then ''(none)'' else scheme) @ '' is not https''))
       else case hostname of
           None \<Rightarrow> Inr (Some ''blocked: URL has no host'')
         | Some host \<Rightarrow>
             let h = ascii_lower host
             in if host = [] then Inr (Some ''blocked: URL has no host'')
                else if (case allow_hosts of Some hs \<Rightarrow> \<not> List.member (map ascii_lower hs) h | None \<Rightarrow> False)
                  then Inr (Some (''blocked: host '' @ py_repr host @ '' is not in the allowlist''))
                else if List.member LOOPBACK_NAMES h \<or> ends_with ''.localhost'' h
                  then Inr (Some (''blocked: loopback host '' @ py_repr host))
                else case parse_ip nt host of
                    Some ip \<Rightarrow>
                      Inr (if is_blocked_ip nt ip then Some (''blocked: non-public address '' @ host) else None)
                  | None \<Rightarrow>
                      res_bind (resolve_host nt host) (\<lambda>addrs.
                        if addrs = [] then Inr (Some (''blocked: cannot resolve host '' @ py_repr host))
                        else Inr (check_addresses nt host addrs)))"

section \<open>Endpoints and events\<close>

definition EVENTS :: "string list" where
  "EVENTS = [''cash.at_risk'', ''close.sealed'', ''briefing.sent'']"

record webhook_endpoint =
  we_id :: string
  we_tenant_id :: string
  we_url :: string
  we_secret :: string
  we_events :: "string list"
  we_active :: bool

definition wants :: "webhook_endpoint \<Rightarrow> string \<Rightarrow> bool" where
  "wants ep event_type \<longleftrightarrow> we_active ep \<and> List.member (we_events ep) event_type"

record platform_event =
  pe_id :: string
  pe_type :: string
  pe_tenant_id :: string
  pe_at :: int
  pe_data :: "(string \<times> json) list"

definition envelope :: "platform_event \<Rightarrow> string" where
  "envelope e = dumps (JObj [(''id'', JStr (pe_id e)), (''type'', JStr (pe_type e)),
     (''tenant'', JStr (pe_tenant_id e)), (''at'', JInt (pe_at e)), (''data'', JObj (pe_data e))])"

definition cash_at_risk_event :: "string \<Rightarrow> string \<Rightarrow> int \<Rightarrow> int \<Rightarrow> string \<Rightarrow> platform_event" where
  "cash_at_risk_event event_id tenant_id at_time weeks_until short =
     \<lparr>pe_id = event_id, pe_type = ''cash.at_risk'', pe_tenant_id = tenant_id, pe_at = at_time,
      pe_data = [(''weeks_until_breach'', JInt weeks_until), (''shortfall'', JStr short)]\<rparr>"

definition close_sealed_event :: "string \<Rightarrow> string \<Rightarrow> int \<Rightarrow> string \<Rightarrow> platform_event" where
  "close_sealed_event event_id tenant_id at_time period =
     \<lparr>pe_id = event_id, pe_type = ''close.sealed'', pe_tenant_id = tenant_id, pe_at = at_time,
      pe_data = [(''period'', JStr period)]\<rparr>"

definition briefing_sent_event :: "string \<Rightarrow> string \<Rightarrow> int \<Rightarrow> string \<Rightarrow> platform_event" where
  "briefing_sent_event event_id tenant_id at_time status =
     \<lparr>pe_id = event_id, pe_type = ''briefing.sent'', pe_tenant_id = tenant_id, pe_at = at_time,
      pe_data = [(''status'', JStr status)]\<rparr>"

section \<open>Endpoint stores\<close>

record 's endpoint_store_ops =
  es_save :: "webhook_endpoint \<Rightarrow> 's \<Rightarrow> 's"
  es_for_tenant :: "string \<Rightarrow> 's \<Rightarrow> webhook_endpoint list res"
  es_get :: "string \<Rightarrow> 's \<Rightarrow> webhook_endpoint option res"
  es_delete :: "string \<Rightarrow> 's \<Rightarrow> 's"

type_synonym mem_endpoints = "(string \<times> webhook_endpoint) list"

definition mem_save_endpoint :: "webhook_endpoint \<Rightarrow> mem_endpoints \<Rightarrow> mem_endpoints" where
  "mem_save_endpoint ep s = AList.update (we_id ep) ep s"

definition mem_endpoints_for :: "string \<Rightarrow> mem_endpoints \<Rightarrow> webhook_endpoint list" where
  "mem_endpoints_for tenant_id s = sort_key we_id (filter (\<lambda>e. we_tenant_id e = tenant_id) (map snd s))"

definition mem_get_endpoint :: "string \<Rightarrow> mem_endpoints \<Rightarrow> webhook_endpoint option" where
  "mem_get_endpoint i s = map_of s i"

definition mem_delete_endpoint :: "string \<Rightarrow> mem_endpoints \<Rightarrow> mem_endpoints" where
  "mem_delete_endpoint i s = AList.delete i s"

definition mem_endpoint_store :: "mem_endpoints endpoint_store_ops" where
  "mem_endpoint_store = \<lparr>es_save = mem_save_endpoint, es_for_tenant = (\<lambda>t s. Inr (mem_endpoints_for t s)),
     es_get = (\<lambda>i s. Inr (mem_get_endpoint i s)), es_delete = mem_delete_endpoint\<rparr>"

text \<open>The SQL table: a row for each primary key, the secret encrypted.\<close>

record endpoint_row =
  er_tenant_id :: string
  er_url :: string
  er_secret :: string
  er_events :: string
  er_active :: int

type_synonym endpoint_table = "(string \<times> endpoint_row) list"

definition endpoint_of_row :: "cipher \<Rightarrow> string \<times> endpoint_row \<Rightarrow> webhook_endpoint res" where
  "endpoint_of_row cph = (\<lambda>(i, r).
     let events = filter (\<lambda>e. e \<noteq> []) (split_char (CHR '','') (er_events r))
     in res_bind (decrypt cph (er_secret r)) (\<lambda>secret.
          Inr \<lparr>we_id = i, we_tenant_id = er_tenant_id r, we_url = er_url r, we_secret = secret,
               we_events = (if events = [] then EVENTS else events), we_active = (er_active r \<noteq> 0)\<rparr>))"

definition row_of_endpoint :: "cipher \<Rightarrow> webhook_endpoint \<Rightarrow> endpoint_row" where
  "row_of_endpoint cph ep =
     \<lparr>er_tenant_id = we_tenant_id ep, er_url = we_url ep, er_secret = encrypt cph (we_secret ep),
      er_events = join_sep '','' (we_events ep), er_active = (if we_active ep then 1 else 0)\<rparr>"

definition sql_save_endpoint :: "cipher \<Rightarrow> webhook_endpoint \<Rightarrow> endpoint_table \<Rightarrow> endpoint_table" where
  "sql_save_endpoint cph ep t = AList.update (we_id ep) (row_of_endpoint cph ep) t"

definition sql_endpoints_for :: "cipher \<Rightarrow> string \<Rightarrow> endpoint_table \<Rightarrow> webhook_endpoint list res" where
  "sql_endpoints_for cph tenant_id t =
     map_res (endpoint_of_row cph) (sort_key fst (filter (\<lambda>(i, r). er_tenant_id r = tenant_id) t))"

definition sql_get_endpoint :: "cipher \<Rightarrow> string \<Rightarrow> endpoint_table \<Rightarrow> webhook_endpoint option res" where
  "sql_get_endpoint cph i t =
     (case map_of t i of None \<Rightarrow> Inr None
      | Some r \<Rightarrow> res_bind (endpoint_of_row cph (i, r)) (\<lambda>ep. Inr (Some ep)))"

definition sql_delete_endpoint :: "string \<Rightarrow> endpoint_table \<Rightarrow> endpoint_table" where
  "sql_delete_endpoint i t = AList.delete i t"

definition sql_endpoint_store :: "cipher \<Rightarrow> endpoint_table endpoint_store_ops" where
  "sql_endpoint_store cph = \<lparr>es_save = sql_save_endpoint cph, es_for_tenant = sql_endpoints_for cph,
     es_get = sql_get_endpoint cph, es_delete = sql_delete_endpoint\<rparr>"

section \<open>Requests\<close>

datatype http_outcome =
    Responded int
  | Raised string \<comment> \<open>the text \<open>type: message\<close> of the exception\<close>

definition accepted :: "http_outcome \<Rightarrow> bool" where
  "accepted r = (case r of Responded status \<Rightarrow> 200 \<le> status \<and> status < 300 | Raised _ \<Rightarrow> False)"

type_synonym http_client = "nat \<Rightarrow> string \<Rightarrow> string \<Rightarrow> (string \<times> string) list \<Rightarrow> http_outcome"

type_synonym hmac = "string \<Rightarrow> string \<Rightarrow> string" \<comment> \<open>key, message, hexadecimal digest\<close>

definition sign :: "hmac \<Rightarrow> string \<Rightarrow> string \<Rightarrow> string" where
  "sign hmac body secret = ''sha256='' @ hmac secret body"

definition delivery_headers :: "hmac \<Rightarrow> string \<Rightarrow> string \<Rightarrow> string \<Rightarrow> (string \<times> string) list" where
  "delivery_headers hmac body secret event_id =
     [(''content-type'', ''application/json''), (''X-RGNR8-Signature'', sign hmac body secret),
      (''X-RGNR8-Event-Id'', event_id)]"

text \<open>A request that was made, with its outcome. \<open>hp_letter\<close> says for which endpoint and event: it is
  not sent.\<close>

record http_post =
  hp_letter :: "string \<times> string"
  hp_url :: string
  hp_body :: string
  hp_headers :: "(string \<times> string) list"
  hp_outcome :: http_outcome

section \<open>The dispatcher of one process\<close>

record delivery_result =
  dr_endpoint_id :: string
  dr_event_id :: string
  dr_ok :: bool
  dr_status :: int
  dr_attempts :: int
  dr_error :: string

record 'ip dispatch_env =
  de_net :: "'ip net"
  de_allow_hosts :: "string list option"
  de_http :: http_client
  de_hmac :: hmac
  de_max :: int

record dispatch_state =
  ds_delivered :: "(string \<times> string) list" \<comment> \<open>a set in the code\<close>
  ds_posts :: "http_post list"

text \<open>The retry loop, \<open>n\<close> attempts left.\<close>

primrec try_deliver ::
  "'ip dispatch_env \<Rightarrow> webhook_endpoint \<Rightarrow> string \<Rightarrow> string \<Rightarrow> int \<Rightarrow> string \<Rightarrow> nat
     \<Rightarrow> (dispatch_state, delivery_result) meth" where
  "try_deliver env ep event_id body last_status last_error 0 =
     ret \<lparr>dr_endpoint_id = we_id ep, dr_event_id = event_id, dr_ok = False, dr_status = last_status,
          dr_attempts = de_max env, dr_error = last_error\<rparr>"
| "try_deliver env ep event_id body last_status last_error (Suc n) = (\<lambda>s.
     let headers = delivery_headers (de_hmac env) body (we_secret ep) event_id;
         out = de_http env (length (ds_posts s)) (we_url ep) body headers;
         s' = s\<lparr>ds_posts := ds_posts s @ [\<lparr>hp_letter = (we_id ep, event_id), hp_url = we_url ep, hp_body = body,
                  hp_headers = headers, hp_outcome = out\<rparr>]\<rparr>
     in case out of
          Responded status \<Rightarrow>
            if 200 \<le> status \<and> status < 300
            then ret \<lparr>dr_endpoint_id = we_id ep, dr_event_id = event_id, dr_ok = True, dr_status = status,
                      dr_attempts = de_max env - int n, dr_error = []\<rparr> s'
            else try_deliver env ep event_id body status (''HTTP '' @ str_int status) n s'
        | Raised err \<Rightarrow> try_deliver env ep event_id body last_status err n s')"

definition deliver_to ::
  "'ip dispatch_env \<Rightarrow> webhook_endpoint \<Rightarrow> string \<Rightarrow> string \<Rightarrow> (dispatch_state, delivery_result) meth" where
  "deliver_to env ep event_id body =
     bind (lift_res (validate_target (de_net env) (de_allow_hosts env) (we_url ep))) (\<lambda>blocked.
       case blocked of
         Some err \<Rightarrow> ret \<lparr>dr_endpoint_id = we_id ep, dr_event_id = event_id, dr_ok = False, dr_status = 0,
                          dr_attempts = 0, dr_error = err\<rparr>
       | None \<Rightarrow> try_deliver env ep event_id body 0 [] (nat (de_max env)))"

text \<open>The loop of \<open>dispatch\<close>, with \<open>seen\<close> and the results so far.\<close>

primrec dispatch_loop ::
  "'ip dispatch_env \<Rightarrow> platform_event \<Rightarrow> string \<Rightarrow> webhook_endpoint list \<Rightarrow> (string \<times> string) list
     \<Rightarrow> delivery_result list \<Rightarrow> (dispatch_state, delivery_result list) meth" where
  "dispatch_loop env event body [] seen results = ret results"
| "dispatch_loop env event body (ep # eps) seen results =
     (let key = (we_id ep, pe_id event)
      in if \<not> wants ep (pe_type event) then dispatch_loop env event body eps seen results
         else bind (gets (\<lambda>s. List.member (ds_delivered s) key)) (\<lambda>old.
           if List.member seen key \<or> old then dispatch_loop env event body eps seen results
           else bind (deliver_to env ep (pe_id event) body) (\<lambda>result.
             seqm (modify (\<lambda>s. if dr_ok result then s\<lparr>ds_delivered := List.insert key (ds_delivered s)\<rparr> else s))
               (dispatch_loop env event body eps (key # seen) (results @ [result])))))"

definition dispatch_event ::
  "'ip dispatch_env \<Rightarrow> 'e endpoint_store_ops \<Rightarrow> 'e \<Rightarrow> platform_event
     \<Rightarrow> (dispatch_state, delivery_result list) meth" where
  "dispatch_event env ops eps event =
     bind (lift_res (es_for_tenant ops (pe_tenant_id event) eps)) (\<lambda>endpoints.
       dispatch_loop env event (envelope event) endpoints [] [])"

section \<open>What an endpoint store promises\<close>

text \<open>
  \<open>ok\<close> is the store's invariant, \<open>storable\<close> says which endpoints it keeps as they are, and \<open>view\<close>
  the endpoints it holds.
\<close>

locale endpoint_store =
  fixes ops :: "'s endpoint_store_ops" and ok :: "'s \<Rightarrow> bool" and storable :: "webhook_endpoint \<Rightarrow> bool"
    and view :: "'s \<Rightarrow> string \<Rightarrow> webhook_endpoint option"
  assumes save_ok: "ok s \<Longrightarrow> storable ep \<Longrightarrow> ok (es_save ops ep s)"
    and delete_ok: "ok s \<Longrightarrow> ok (es_delete ops i s)"
    and view_save: "ok s \<Longrightarrow> storable ep \<Longrightarrow> view (es_save ops ep s) = (view s)(we_id ep \<mapsto> ep)"
    and view_delete: "ok s \<Longrightarrow> view (es_delete ops i s) = (view s)(i := None)"
    and view_id: "ok s \<Longrightarrow> view s i = Some ep \<Longrightarrow> we_id ep = i"
    and get_view: "ok s \<Longrightarrow> es_get ops i s = Inr (view s i)"
    and for_tenant: "ok s \<Longrightarrow> \<exists>eps. es_for_tenant ops tenant s = Inr eps \<and>
      sorted (map we_id eps) \<and> distinct (map we_id eps) \<and> set eps = {ep \<in> ran (view s). we_tenant_id ep = tenant}"
begin

lemma for_tenant_view:
  "ok s \<Longrightarrow> \<exists>eps. es_for_tenant ops tenant s = Inr eps \<and>
     set eps = {ep. view s (we_id ep) = Some ep \<and> we_tenant_id ep = tenant}"
  using for_tenant [of s tenant] view_id [of s] by (fastforce simp: ran_def)

text \<open>An endpoint id belongs to one tenant at a time: registering it again takes it over.\<close>

lemma save_takes_over:
  assumes "ok s" "storable ep" "we_tenant_id ep \<noteq> other"
  shows "\<exists>eps. es_for_tenant ops other (es_save ops ep s) = Inr eps \<and> we_id ep \<notin> we_id ` set eps"
  using for_tenant_view [OF save_ok [OF assms(1,2)], of other] assms(3)
  by (auto simp: view_save [OF assms(1,2)])

end

text \<open>Two stores with the same endpoints answer alike.\<close>

lemma endpoint_stores_agree:
  assumes "endpoint_store ops ok st view" "endpoint_store ops' ok' st' view'" "ok s" "ok' s'" "view s = view' s'"
  shows "es_for_tenant ops tenant s = es_for_tenant ops' tenant s' \<and> es_get ops i s = es_get ops' i s'"
proof -
  obtain eps where eps: "es_for_tenant ops tenant s = Inr eps" "sorted (map we_id eps)" "distinct (map we_id eps)"
    "set eps = {ep \<in> ran (view s). we_tenant_id ep = tenant}"
    using endpoint_store.for_tenant [OF assms(1,3)] by blast
  obtain eps' where eps': "es_for_tenant ops' tenant s' = Inr eps'" "sorted (map we_id eps')" "distinct (map we_id eps')"
    "set eps' = {ep \<in> ran (view' s'). we_tenant_id ep = tenant}"
    using endpoint_store.for_tenant [OF assms(2,4)] by blast
  have "eps = eps'" using eps eps' assms(5) by (intro sorted_by_key_unique [of we_id]) simp_all
  then show ?thesis using eps(1) eps'(1) assms
    by (simp add: endpoint_store.get_view [OF assms(1,3)] endpoint_store.get_view [OF assms(2,4)])
qed

subsection \<open>In memory\<close>

definition mem_endpoints_ok :: "mem_endpoints \<Rightarrow> bool" where
  "mem_endpoints_ok s \<longleftrightarrow> distinct (map fst s) \<and> list_all (\<lambda>(i, ep). we_id ep = i) s"

lemma mem_endpoint_ids: "mem_endpoints_ok s \<Longrightarrow> map we_id (map snd s) = map fst s"
  by (auto simp: mem_endpoints_ok_def list_all_iff)

lemma sort_filter_distinct:
  "distinct (map f xs) \<Longrightarrow> distinct (map f (sort_key f (filter P xs)))"
  by (auto simp: distinct_map intro: inj_on_subset)

interpretation mem_eps: endpoint_store mem_endpoint_store mem_endpoints_ok "\<lambda>_. True" map_of
proof unfold_locales
  fix s :: mem_endpoints and tenant
  assume s: "mem_endpoints_ok s"
  then have "distinct (map we_id (map snd s))" by (simp only: mem_endpoint_ids) (simp add: mem_endpoints_ok_def)
  then show "\<exists>eps. es_for_tenant mem_endpoint_store tenant s = Inr eps \<and>
      sorted (map we_id eps) \<and> distinct (map we_id eps) \<and> set eps = {ep \<in> ran (map_of s). we_tenant_id ep = tenant}"
    using s by (auto simp: mem_endpoint_store_def mem_endpoints_for_def mem_endpoints_ok_def ran_map_of
        intro: sort_filter_distinct)
qed (auto simp: mem_endpoint_store_def mem_save_endpoint_def mem_get_endpoint_def mem_delete_endpoint_def
    mem_endpoints_ok_def update_conv' delete_conv' distinct_update distinct_delete list_all_update_alist
    list_all_delete_alist, auto simp: list_all_iff dest: map_of_SomeD)

subsection \<open>In SQL\<close>

text \<open>What a row keeps: event names without commas, at least one, and a secret the cipher reads back.\<close>

definition sql_storable :: "(string \<Rightarrow> bool) \<Rightarrow> webhook_endpoint \<Rightarrow> bool" where
  "sql_storable safe ep \<longleftrightarrow>
     we_events ep \<noteq> [] \<and> list_all (\<lambda>e. e \<noteq> [] \<and> CHR '','' \<notin> set e) (we_events ep) \<and> safe (we_secret ep)"

definition sql_view :: "cipher \<Rightarrow> endpoint_table \<Rightarrow> string \<Rightarrow> webhook_endpoint option" where
  "sql_view cph t i = (case map_of t i of None \<Rightarrow> None
     | Some r \<Rightarrow> (case endpoint_of_row cph (i, r) of Inr ep \<Rightarrow> Some ep | Inl _ \<Rightarrow> None))"

definition sql_endpoints_ok :: "cipher \<Rightarrow> endpoint_table \<Rightarrow> bool" where
  "sql_endpoints_ok cph t \<longleftrightarrow> distinct (map fst t) \<and> list_all (\<lambda>r. is_ok (endpoint_of_row cph r)) t"

lemma row_id: "endpoint_of_row cph r = Inr ep \<Longrightarrow> we_id ep = fst r \<and> we_tenant_id ep = er_tenant_id (snd r)"
  by (auto simp: endpoint_of_row_def Let_def result_simps split: prod.splits)

lemma is_okD: "is_ok r \<Longrightarrow> \<exists>x. r = Inr x"
  by (cases r) simp_all

lemma sql_view_Some:
  "sql_view cph t i = Some ep \<longleftrightarrow> (\<exists>r. map_of t i = Some r \<and> endpoint_of_row cph (i, r) = Inr ep)"
  by (auto simp: sql_view_def split: option.splits sum.splits)

lemma sql_listing:
  assumes "sql_endpoints_ok cph t"
  shows "\<exists>eps. sql_endpoints_for cph tenant t = Inr eps \<and> sorted (map we_id eps) \<and> distinct (map we_id eps) \<and>
    set eps = {ep \<in> ran (sql_view cph t). we_tenant_id ep = tenant}"
proof -
  let ?rows = "sort_key fst (filter (\<lambda>(i, r). er_tenant_id r = tenant) t)"
  define g where "g r = projr (endpoint_of_row cph r)" for r
  have g: "endpoint_of_row cph r = Inr (g r)" if "r \<in> set t" for r
    using assms that is_okD [of "endpoint_of_row cph r"] by (auto simp: sql_endpoints_ok_def list_all_iff g_def)
  then have list: "sql_endpoints_for cph tenant t = Inr (map g ?rows)"
    unfolding sql_endpoints_for_def by (intro map_res_total) auto
  have ids: "map we_id (map g ?rows) = map fst ?rows" using row_id [OF g] by auto
  have "distinct (map fst t)" using assms by (simp add: sql_endpoints_ok_def)
  then have "distinct (map fst ?rows)" by (rule sort_filter_distinct)
  moreover have "set (map g ?rows) = {ep \<in> ran (sql_view cph t). we_tenant_id ep = tenant}"
  proof (intro set_eqI iffI)
    fix ep assume "ep \<in> set (map g ?rows)"
    then obtain i r where ir: "(i, r) \<in> set t" "er_tenant_id r = tenant" "ep = g (i, r)" by auto
    have "sql_view cph t i = Some ep"
      using ir g [OF ir(1)] \<open>distinct (map fst t)\<close> by (auto simp: sql_view_Some)
    then show "ep \<in> {ep \<in> ran (sql_view cph t). we_tenant_id ep = tenant}"
      using row_id [OF g [OF ir(1)]] ir by (auto simp: ran_def)
  next
    fix ep assume "ep \<in> {ep \<in> ran (sql_view cph t). we_tenant_id ep = tenant}"
    then obtain i r where ir: "map_of t i = Some r" "endpoint_of_row cph (i, r) = Inr ep" "we_tenant_id ep = tenant"
      by (auto simp: ran_def sql_view_Some)
    then have "(i, r) \<in> set t" by (simp add: map_of_SomeD)
    moreover from this have "ep = g (i, r)" using g ir(2) by fastforce
    moreover have "er_tenant_id r = tenant" using row_id [OF ir(2)] ir(3) by simp
    ultimately show "ep \<in> set (map g ?rows)" by force
  qed
  ultimately show ?thesis
    using list ids by (intro exI [of _ "map g ?rows"] conjI) (simp_all only: sorted_sort_key)
qed

context sealed_cipher begin

lemma endpoint_row_round_trip: "sql_storable safe ep \<Longrightarrow> endpoint_of_row cph (we_id ep, row_of_endpoint cph ep) = Inr ep"
proof -
  assume ep: "sql_storable safe ep"
  then have "split_char (CHR '','') (join_sep [CHR '',''] (we_events ep)) = we_events ep"
    by (intro split_char_join) (auto simp: sql_storable_def list_all_iff)
  moreover have "filter (\<lambda>e. e \<noteq> []) (we_events ep) = we_events ep"
    using ep by (auto simp: sql_storable_def list_all_iff intro: filter_True)
  ultimately show ?thesis
    using ep by (auto simp: endpoint_of_row_def row_of_endpoint_def read_back sql_storable_def)
qed

lemma sql_store: "endpoint_store (sql_endpoint_store cph) (sql_endpoints_ok cph) (sql_storable safe) (sql_view cph)"
proof unfold_locales
  fix t :: endpoint_table and ep
  assume t: "sql_endpoints_ok cph t" and ep: "sql_storable safe ep"
  show "sql_endpoints_ok cph (es_save (sql_endpoint_store cph) ep t)"
    using t endpoint_row_round_trip [OF ep]
    by (auto simp: sql_endpoint_store_def sql_save_endpoint_def sql_endpoints_ok_def distinct_update
        intro: list_all_update_alist)
  show "sql_view cph (es_save (sql_endpoint_store cph) ep t) = (sql_view cph t)(we_id ep \<mapsto> ep)"
    using endpoint_row_round_trip [OF ep]
    by (auto simp: sql_endpoint_store_def sql_save_endpoint_def sql_view_def update_conv')
next
  fix t :: endpoint_table and tenant
  assume "sql_endpoints_ok cph t"
  then show "\<exists>eps. es_for_tenant (sql_endpoint_store cph) tenant t = Inr eps \<and> sorted (map we_id eps) \<and>
      distinct (map we_id eps) \<and> set eps = {ep \<in> ran (sql_view cph t). we_tenant_id ep = tenant}"
    using sql_listing by (simp add: sql_endpoint_store_def)
next
  fix t :: endpoint_table and i
  assume t: "sql_endpoints_ok cph t"
  show "es_get (sql_endpoint_store cph) i t = Inr (sql_view cph t i)"
  proof (cases "map_of t i")
    case (Some r)
    with t have "is_ok (endpoint_of_row cph (i, r))"
      by (auto simp: sql_endpoints_ok_def list_all_iff dest!: map_of_SomeD)
    with Some show ?thesis
      by (auto simp: sql_endpoint_store_def sql_get_endpoint_def sql_view_def dest: is_okD)
  qed (simp add: sql_endpoint_store_def sql_get_endpoint_def sql_view_def)
qed (auto simp: sql_endpoint_store_def sql_delete_endpoint_def sql_endpoints_ok_def distinct_delete
    list_all_delete_alist sql_view_Some delete_conv' sql_view_def dest: row_id split: option.splits sum.splits)

end

sublocale sealed_cipher \<subseteq> sql_eps: endpoint_store "sql_endpoint_store cph" "sql_endpoints_ok cph"
  "sql_storable safe" "sql_view cph"
  by (rule sql_store)

section \<open>Both stores\<close>

datatype endpoint_call = SaveEndpoint webhook_endpoint | DeleteEndpoint string

fun endpoint_step :: "'s endpoint_store_ops \<Rightarrow> endpoint_call \<Rightarrow> 's \<Rightarrow> 's" where
  "endpoint_step ops (SaveEndpoint ep) s = es_save ops ep s"
| "endpoint_step ops (DeleteEndpoint i) s = es_delete ops i s"

fun view_step :: "endpoint_call \<Rightarrow> (string \<Rightarrow> webhook_endpoint option) \<Rightarrow> string \<Rightarrow> webhook_endpoint option" where
  "view_step (SaveEndpoint ep) m = m(we_id ep \<mapsto> ep)"
| "view_step (DeleteEndpoint i) m = m(i := None)"

fun saves_storable :: "(webhook_endpoint \<Rightarrow> bool) \<Rightarrow> endpoint_call \<Rightarrow> bool" where
  "saves_storable st (SaveEndpoint ep) = st ep"
| "saves_storable st (DeleteEndpoint i) = True"

context endpoint_store begin

lemma calls_view:
  "list_all (saves_storable storable) calls \<Longrightarrow> ok s \<Longrightarrow>
     ok (fold (endpoint_step ops) calls s) \<and> view (fold (endpoint_step ops) calls s) = fold view_step calls (view s)"
proof (induction calls arbitrary: s)
  case (Cons c calls)
  then show ?case by (cases c) (simp_all add: save_ok delete_ok view_save view_delete)
qed simp

end

lemma sql_view_empty: "sql_view cph [] = Map.empty"
  by (rule ext) (simp add: sql_view_def)


definition example_endpoint :: "string \<Rightarrow> webhook_endpoint" where
  "example_endpoint tenant = \<lparr>we_id = ''hook'', we_tenant_id = tenant, we_url = ''https://a.example/in'',
     we_secret = ''s3'', we_events = [''close.sealed''], we_active = True\<rparr>"

lemma example_endpoint_storable: "sql_storable (\<lambda>s. \<not> is_encrypted s) (example_endpoint t)"
  by (simp add: sql_storable_def example_endpoint_def is_encrypted_def ENC_PREFIX_def starts_with_def)


text \<open>An endpoint saved for no event is read back from SQL as subscribed to every event.\<close>

lemma no_events_read_as_all:
  "decrypt cph (encrypt cph (we_secret ep)) = Inr (we_secret ep) \<Longrightarrow> we_events ep = [] \<Longrightarrow>
     es_get (sql_endpoint_store cph) (we_id ep) (es_save (sql_endpoint_store cph) ep t) =
       Inr (Some (ep\<lparr>we_events := EVENTS\<rparr>))"
  by (cases ep) (simp add: sql_endpoint_store_def sql_get_endpoint_def sql_save_endpoint_def update_conv'
      endpoint_of_row_def row_of_endpoint_def)

section \<open>At most one accepted request\<close>

definition times_accepted :: "string \<times> string \<Rightarrow> http_post list \<Rightarrow> nat" where
  "times_accepted k ps = length (filter (\<lambda>p. hp_letter p = k \<and> accepted (hp_outcome p)) ps)"

lemma times_accepted_simps [simp]:
  "times_accepted k [] = 0"
  "times_accepted k (p # ps) = (if hp_letter p = k \<and> accepted (hp_outcome p) then 1 else 0) + times_accepted k ps"
  "times_accepted k (ps @ qs) = times_accepted k ps + times_accepted k qs"
  by (simp_all add: times_accepted_def)

text \<open>What every request of a delivery looks like.\<close>

definition post_for :: "hmac \<Rightarrow> webhook_endpoint \<Rightarrow> string \<Rightarrow> string \<Rightarrow> http_post \<Rightarrow> bool" where
  "post_for hmac ep event_id body p \<longleftrightarrow>
     hp_letter p = (we_id ep, event_id) \<and> hp_url p = we_url ep \<and> hp_body p = body \<and>
     hp_headers p = delivery_headers hmac body (we_secret ep) event_id"

lemma try_deliver_posts:
  "\<exists>r new. try_deliver env ep event_id body st er n s = (Inr r, s\<lparr>ds_posts := ds_posts s @ new\<rparr>) \<and>
     list_all (post_for (de_hmac env) ep event_id body) new \<and> length new \<le> n \<and>
     times_accepted (we_id ep, event_id) new = (if dr_ok r then 1 else 0)"
proof (induction n arbitrary: s st er)
  case 0
  have "s = s\<lparr>ds_posts := ds_posts s @ []\<rparr>" by simp
  then show ?case by fastforce
next
  case (Suc n)
  let ?headers = "delivery_headers (de_hmac env) body (we_secret ep) event_id"
  let ?out = "de_http env (length (ds_posts s)) (we_url ep) body ?headers"
  let ?p = "\<lparr>hp_letter = (we_id ep, event_id), hp_url = we_url ep, hp_body = body, hp_headers = ?headers, hp_outcome = ?out\<rparr>"
  let ?s = "s\<lparr>ds_posts := ds_posts s @ [?p]\<rparr>"
  have p: "post_for (de_hmac env) ep event_id body ?p" by (simp add: post_for_def)
  show ?case
  proof (cases "accepted ?out")
    case True
    then obtain status where "?out = Responded status" "200 \<le> status" "status < 300"
      by (auto simp: accepted_def split: http_outcome.splits)
    then show ?thesis using p True by (intro exI [of _ "[?p]"] exI conjI) (auto simp: Let_def)
  next
    case False
    then obtain st' er' where "try_deliver env ep event_id body st er (Suc n) s = try_deliver env ep event_id body st' er' n ?s"
      by (cases ?out) (auto simp: Let_def accepted_def)
    moreover obtain r new where "try_deliver env ep event_id body st' er' n ?s = (Inr r, ?s\<lparr>ds_posts := ds_posts ?s @ new\<rparr>)"
      "list_all (post_for (de_hmac env) ep event_id body) new" "length new \<le> n"
      "times_accepted (we_id ep, event_id) new = (if dr_ok r then 1 else 0)"
      using Suc.IH by blast
    ultimately show ?thesis using p False by (intro exI [of _ r] exI [of _ "?p # new"]) simp
  qed
qed

text \<open>The remembered pairs are those with an accepted request, which is then the only one.\<close>

definition delivered_exact :: "dispatch_state \<Rightarrow> bool" where
  "delivered_exact s \<longleftrightarrow> (\<forall>k. times_accepted k (ds_posts s) = (if k \<in> set (ds_delivered s) then 1 else 0))"

text \<open>A request passed the guard in the environment it was made in.\<close>

definition guarded :: "'ip dispatch_env \<Rightarrow> http_post \<Rightarrow> bool" where
  "guarded env p \<longleftrightarrow> validate_target (de_net env) (de_allow_hosts env) (hp_url p) = Inr None"

lemma times_accepted_other:
  "list_all (post_for h ep event_id body) new \<Longrightarrow> k \<noteq> (we_id ep, event_id) \<Longrightarrow> times_accepted k new = 0"
  by (auto simp: times_accepted_def post_for_def list_all_iff)

lemma dispatch_loop_posts:
  assumes "dispatch_loop env event body eps seen results s = (res, t)" and "delivered_exact s"
  shows "delivered_exact t \<and> (\<exists>new. ds_posts t = ds_posts s @ new \<and> list_all (guarded env) new)"
  using assms
proof (induction eps arbitrary: seen results s)
  case (Cons ep eps)
  let ?key = "(we_id ep, pe_id event)"
  show ?case
  proof (cases "\<not> wants ep (pe_type event) \<or> List.member seen ?key \<or> List.member (ds_delivered s) ?key")
    case True
    then obtain seen' where "dispatch_loop env event body eps seen' results s = (res, t)"
      using Cons.prems(1) by (auto simp: Let_def split: if_splits)
    then show ?thesis using Cons.IH Cons.prems(2) by blast
  next
    case False
    then have new_key: "?key \<notin> set (ds_delivered s)" by simp
    show ?thesis
    proof (cases "validate_target (de_net env) (de_allow_hosts env) (we_url ep)")
      case (Inl e)
      then have "t = s" using Cons.prems(1) False by (auto simp: Let_def deliver_to_def)
      then show ?thesis using Cons.prems(2) by simp
    next
      case (Inr blocked)
      show ?thesis
      proof (cases blocked)
        case (Some err)
        then obtain seen' results' where "dispatch_loop env event body eps seen' results' s = (res, t)"
          using Cons.prems(1) False Inr by (auto simp: Let_def deliver_to_def)
        then show ?thesis using Cons.IH Cons.prems(2) by blast
      next
        case None
        obtain r new where tried: "try_deliver env ep (pe_id event) body 0 [] (nat (de_max env)) s =
            (Inr r, s\<lparr>ds_posts := ds_posts s @ new\<rparr>)"
          "list_all (post_for (de_hmac env) ep (pe_id event) body) new"
          "times_accepted ?key new = (if dr_ok r then 1 else 0)"
          using try_deliver_posts [of env ep "pe_id event" body 0 "[]" "nat (de_max env)" s] by blast
        define u where "u = s\<lparr>ds_posts := ds_posts s @ new,
          ds_delivered := (if dr_ok r then List.insert ?key (ds_delivered s) else ds_delivered s)\<rparr>"
        have "dispatch_loop env event body eps (?key # seen) (results @ [r]) u = (res, t)"
          using Cons.prems(1) False Inr None tried(1) by (auto simp: Let_def deliver_to_def u_def split: if_splits)
        moreover have "times_accepted k (ds_posts u) = (if k \<in> set (ds_delivered u) then 1 else 0)" for k
          using Cons.prems(2) tried(3) new_key times_accepted_other [OF tried(2), of k]
          unfolding delivered_exact_def u_def by (cases k; cases "k = ?key") simp_all
        then have "delivered_exact u" by (simp add: delivered_exact_def)
        ultimately obtain new' where t: "delivered_exact t" "ds_posts t = ds_posts u @ new'" "list_all (guarded env) new'"
          using Cons.IH by blast
        have "list_all (guarded env) new"
          using tried(2) Inr None by (auto simp: list_all_iff guarded_def post_for_def)
        with t show ?thesis by (auto simp: u_def)
      qed
    qed
  qed
qed simp

definition run_dispatches ::
  "('ip dispatch_env \<times> 'e endpoint_store_ops \<times> 'e \<times> platform_event) list \<Rightarrow> dispatch_state \<Rightarrow> dispatch_state" where
  "run_dispatches runs s = fold (\<lambda>(env, ops, eps, event) s. snd (dispatch_event env ops eps event s)) runs s"

lemma run_dispatches_posts:
  "delivered_exact s \<Longrightarrow> delivered_exact (run_dispatches runs s) \<and>
     (\<exists>new. ds_posts (run_dispatches runs s) = ds_posts s @ new \<and>
        list_all (\<lambda>p. \<exists>run\<in>set runs. guarded (fst run) p) new)"
proof (induction runs arbitrary: s)
  case (Cons run runs)
  obtain env ops eps event where run: "run = (env, ops, eps, event)" by (cases run) auto
  obtain res u where u: "dispatch_event env ops eps event s = (res, u)" by fastforce
  have "delivered_exact u \<and> (\<exists>new. ds_posts u = ds_posts s @ new \<and> list_all (guarded env) new)"
  proof (cases "es_for_tenant ops (pe_tenant_id event) eps")
    case (Inr endpoints)
    then have "dispatch_loop env event (envelope event) endpoints [] [] s = (res, u)"
      using u by (simp add: dispatch_event_def)
    then show ?thesis using Cons.prems by (rule dispatch_loop_posts)
  qed (use u Cons.prems in \<open>simp add: dispatch_event_def\<close>)
  then obtain new where exact: "delivered_exact u" and new: "ds_posts u = ds_posts s @ new" "list_all (guarded env) new" by blast
  from Cons.IH [OF exact] obtain new' where
    "delivered_exact (run_dispatches runs u)" "ds_posts (run_dispatches runs u) = ds_posts u @ new'"
    "list_all (\<lambda>p. \<exists>run\<in>set runs. guarded (fst run) p) new'" by blast
  moreover have "run_dispatches (run # runs) s = run_dispatches runs u" by (simp add: run_dispatches_def run u)
  moreover have "list_all (\<lambda>p. \<exists>run\<in>set (run # runs). guarded (fst run) p) new"
    using new(2) by (auto simp: run list_all_iff)
  ultimately show ?case using new(1) by (intro conjI exI [of _ "new @ new'"]) (auto simp: list_all_iff)
qed (simp add: run_dispatches_def)

section \<open>Properties\<close>

text \<open>C33. The guard lets a target pass exactly when it is an https URL with a host, allowed if there is an
  allowlist, not a loopback name, and every address it is or resolves to is public.\<close>

theorem target_guard_exact:
  "validate_target nt allow_hosts url = Inr None \<longleftrightarrow>
     (\<exists>host. url_split nt url = Inr (''https'', Some host) \<and> host \<noteq> [] \<and>
        (\<forall>hs. allow_hosts = Some hs \<longrightarrow> ascii_lower host \<in> ascii_lower ` set hs) \<and>
        ascii_lower host \<notin> set LOOPBACK_NAMES \<and> \<not> ends_with ''.localhost'' (ascii_lower host) \<and>
        (case parse_ip nt host of
           Some ip \<Rightarrow> \<not> is_blocked_ip nt ip
         | None \<Rightarrow> \<exists>addrs. resolve_host nt host = Inr addrs \<and> addrs \<noteq> [] \<and>
             (\<forall>a\<in>set addrs. \<exists>ip. parse_ip nt a = Some ip \<and> \<not> is_blocked_ip nt ip)))"
proof -
  have "check_addresses nt host as = None \<longleftrightarrow> (\<forall>a\<in>set as. \<exists>ip. parse_ip nt a = Some ip \<and> \<not> is_blocked_ip nt ip)"
    for host as
    by (induction as) (auto split: option.splits)
  then show ?thesis
    by (cases "url_split nt url")
      (auto simp: validate_target_def Let_def result_simps split: prod.splits option.splits if_splits)
qed

definition example_net :: "nat net" where
  "example_net = \<lparr>url_split = (\<lambda>url. if url = ''https://a.example/in'' then Inr (''https'', Some ''a.example'')
                                   else if url = ''https://db.internal/'' then Inr (''https'', Some ''db.internal'')
                                   else Inr (''http'', Some ''b.example'')),
     parse_ip = (\<lambda>a. if a = ''93.184.215.14'' then Some 0 else if a = ''10.0.0.7'' then Some 1 else None),
     is_loopback = (\<lambda>_. False), is_private = (\<lambda>ip. ip = 1), is_link_local = (\<lambda>_. False),
     is_reserved = (\<lambda>_. False), is_multicast = (\<lambda>_. False), is_unspecified = (\<lambda>_. False),
     resolve_host = (\<lambda>h. Inr (if h = ''a.example'' then [''93.184.215.14''] else [''93.184.215.14'', ''10.0.0.7'']))\<rparr>"

lemma example_lower: "ascii_lower ''A.example'' = ''a.example''" "ascii_lower ''a.example'' = ''a.example''"
    "ascii_lower ''db.internal'' = ''db.internal''"
  by code_simp+

theorem target_guard_exact_witness:
  "validate_target example_net (Some [''A.example'']) ''https://a.example/in'' = Inr None \<and>
   validate_target example_net None ''https://db.internal/'' \<noteq> Inr None"
  using target_guard_exact [of example_net "Some [''A.example'']" "''https://a.example/in''"]
    target_guard_exact [of example_net None "''https://db.internal/''"]
  by (simp add: example_net_def LOOPBACK_NAMES_def is_blocked_ip_def ends_with_def example_lower)

text \<open>Whatever is dispatched, again and in any order, in any environment, an endpoint accepts the
  request for an event at most once, and every request went to a target that passed the guard.\<close>

theorem dispatch_at_most_once:
  "(let posts = ds_posts (run_dispatches runs \<lparr>ds_delivered = [], ds_posts = []\<rparr>)
    in times_accepted k posts \<le> 1 \<and> list_all (\<lambda>p. list_ex (\<lambda>run. guarded (fst run) p) runs) posts)"
  using run_dispatches_posts [of "\<lparr>ds_delivered = [], ds_posts = []\<rparr>" runs]
  by (cases k) (auto simp: delivered_exact_def list_all_iff list_ex_iff Let_def)

end
