(* ===== verification/Outbox.thy ===== *)
theory Outbox
  imports Webhooks
begin

text \<open>
  \<open>packages/web/src/rgnr8_web/webhook_outbox.py\<close>: the durable outbox of webhooks, in memory and in
  SQL, and the dispatcher that fills and sweeps it; the handlers of \<open>app.py\<close> that emit events and
  manage endpoints.

  The clock and the HTTP client are functions of the number of readings and requests made so far,
  so that they may answer differently each time. An exception leaves the state as it was when it
  was raised.
\<close>

section \<open>Deliveries\<close>

definition PENDING :: string where
  "PENDING = ''pending''"

definition DELIVERED :: string where
  "DELIVERED = ''delivered''"

definition DEAD :: string where
  "DEAD = ''dead''"

lemma statuses_distinct [simp]:
  "PENDING \<noteq> DELIVERED" "DELIVERED \<noteq> PENDING" "PENDING \<noteq> DEAD" "DEAD \<noteq> PENDING" "DELIVERED \<noteq> DEAD" "DEAD \<noteq> DELIVERED"
  by (simp_all add: PENDING_def DELIVERED_def DEAD_def)

definition BACKOFF_BASE_SECONDS :: int where
  "BACKOFF_BASE_SECONDS = 60"

definition BACKOFF_CAP_SECONDS :: int where
  "BACKOFF_CAP_SECONDS = 3600"

definition backoff_seconds :: "int \<Rightarrow> int \<Rightarrow> int \<Rightarrow> int" where
  "backoff_seconds attempts base cap =
     (if attempts \<le> 0 then base else min (base * 2 ^ nat (attempts - 1)) cap)"

record outbox_delivery =
  od_id :: string
  od_tenant_id :: string
  od_endpoint_id :: string
  od_event_id :: string
  od_event_type :: string
  od_body :: string
  od_status :: string
  od_attempts :: int
  od_next_attempt_at :: int
  od_last_error :: string
  od_last_status :: int
  od_created_at :: int

section \<open>Outboxes\<close>

record 'o outbox_ops =
  ob_enqueue :: "outbox_delivery \<Rightarrow> 'o \<Rightarrow> bool \<times> 'o"
  ob_due :: "int \<Rightarrow> int \<Rightarrow> 'o \<Rightarrow> outbox_delivery list"
  ob_update :: "outbox_delivery \<Rightarrow> 'o \<Rightarrow> 'o"
  ob_get :: "string \<Rightarrow> 'o \<Rightarrow> outbox_delivery option"
  ob_for_tenant :: "string \<Rightarrow> string option \<Rightarrow> 'o \<Rightarrow> outbox_delivery list"

definition due_key :: "outbox_delivery \<Rightarrow> int \<times> int \<times> string" where
  "due_key d = (od_next_attempt_at d, od_created_at d, od_id d)"

definition created_key :: "outbox_delivery \<Rightarrow> int \<times> string" where
  "created_key d = (od_created_at d, od_id d)"

definition is_due :: "int \<Rightarrow> outbox_delivery \<Rightarrow> bool" where
  "is_due now d \<longleftrightarrow> od_status d = PENDING \<and> od_next_attempt_at d \<le> now"

definition of_tenant :: "string \<Rightarrow> string option \<Rightarrow> outbox_delivery \<Rightarrow> bool" where
  "of_tenant tenant_id status d \<longleftrightarrow> od_tenant_id d = tenant_id \<and> (status = None \<or> status = Some (od_status d))"

type_synonym outbox_rows = "(string \<times> outbox_delivery) list"

definition mem_enqueue :: "outbox_delivery \<Rightarrow> outbox_rows \<Rightarrow> bool \<times> outbox_rows" where
  "mem_enqueue d rows =
     (if map_of rows (od_id d) \<noteq> None then (False, rows) else (True, AList.update (od_id d) d rows))"

definition mem_due :: "int \<Rightarrow> int \<Rightarrow> outbox_rows \<Rightarrow> outbox_delivery list" where
  "mem_due now limit rows = py_prefix limit (sort_key due_key (filter (is_due now) (map snd rows)))"

definition mem_update :: "outbox_delivery \<Rightarrow> outbox_rows \<Rightarrow> outbox_rows" where
  "mem_update d rows = AList.update (od_id d) d rows"

definition mem_get :: "string \<Rightarrow> outbox_rows \<Rightarrow> outbox_delivery option" where
  "mem_get i rows = map_of rows i"

definition mem_for_tenant :: "string \<Rightarrow> string option \<Rightarrow> outbox_rows \<Rightarrow> outbox_delivery list" where
  "mem_for_tenant tenant_id status rows = sort_key created_key (filter (of_tenant tenant_id status) (map snd rows))"

definition mem_outbox :: "outbox_rows outbox_ops" where
  "mem_outbox = \<lparr>ob_enqueue = mem_enqueue, ob_due = mem_due, ob_update = mem_update, ob_get = mem_get,
     ob_for_tenant = mem_for_tenant\<rparr>"

text \<open>The table of \<open>SqlWebhookOutbox\<close> has the columns of a delivery, keyed by \<open>id\<close>. \<open>UPDATE\<close> sets
  five columns of an existing row; \<open>LIMIT\<close> with a negative number is no limit (SQLite).\<close>

definition sql_enqueue :: "outbox_delivery \<Rightarrow> outbox_rows \<Rightarrow> bool \<times> outbox_rows" where
  "sql_enqueue d rows =
     (case map_of rows (od_id d) of Some _ \<Rightarrow> (False, rows) | None \<Rightarrow> (True, rows @ [(od_id d, d)]))"

definition sql_due :: "int \<Rightarrow> int \<Rightarrow> outbox_rows \<Rightarrow> outbox_delivery list" where
  "sql_due now limit rows =
     (let ds = sort_key due_key (filter (\<lambda>d. od_status d = ''pending'' \<and> od_next_attempt_at d \<le> now) (map snd rows))
      in if limit < 0 then ds else take (nat limit) ds)"

definition sql_update :: "outbox_delivery \<Rightarrow> outbox_rows \<Rightarrow> outbox_rows" where
  "sql_update d rows =
     map (\<lambda>(i, r). (i, if i = od_id d
        then r\<lparr>od_status := od_status d, od_attempts := od_attempts d, od_next_attempt_at := od_next_attempt_at d,
               od_last_error := od_last_error d, od_last_status := od_last_status d\<rparr>
        else r)) rows"

definition sql_get :: "string \<Rightarrow> outbox_rows \<Rightarrow> outbox_delivery option" where
  "sql_get i rows = (case filter (\<lambda>(k, r). k = i) rows of (_, r) # _ \<Rightarrow> Some r | [] \<Rightarrow> None)"

definition sql_for_tenant :: "string \<Rightarrow> string option \<Rightarrow> outbox_rows \<Rightarrow> outbox_delivery list" where
  "sql_for_tenant tenant_id status rows =
     (let P = (case status of
                 Some st \<Rightarrow> (\<lambda>d. od_tenant_id d = tenant_id \<and> od_status d = st)
               | None \<Rightarrow> (\<lambda>d. od_tenant_id d = tenant_id))
      in sort_key created_key (filter P (map snd rows)))"

definition sql_outbox :: "outbox_rows outbox_ops" where
  "sql_outbox = \<lparr>ob_enqueue = sql_enqueue, ob_due = sql_due, ob_update = sql_update, ob_get = sql_get,
     ob_for_tenant = sql_for_tenant\<rparr>"

section \<open>The dispatcher\<close>

record 'ip outbox_env =
  oe_net :: "'ip net"
  oe_allow_hosts :: "string list option"
  oe_http :: http_client
  oe_hmac :: hmac
  oe_clock :: "nat \<Rightarrow> int"
  oe_max :: int

record 'o outbox_world =
  ow_outbox :: 'o
  ow_reads :: nat \<comment> \<open>readings of the clock\<close>
  ow_posts :: "http_post list"

record delivery_summary =
  sm_considered :: int
  sm_delivered :: int
  sm_retried :: int
  sm_dead :: int

definition read_clock :: "'ip outbox_env \<Rightarrow> ('o outbox_world, int) meth" where
  "read_clock env w = (Inr (oe_clock env (ow_reads w)), w\<lparr>ow_reads := Suc (ow_reads w)\<rparr>)"

definition letter_id :: "string \<Rightarrow> string \<Rightarrow> string" where
  "letter_id endpoint_id event_id = endpoint_id @ '':'' @ event_id"

definition new_delivery :: "int \<Rightarrow> platform_event \<Rightarrow> webhook_endpoint \<Rightarrow> outbox_delivery" where
  "new_delivery now event ep =
     \<lparr>od_id = letter_id (we_id ep) (pe_id event), od_tenant_id = pe_tenant_id event, od_endpoint_id = we_id ep,
      od_event_id = pe_id event, od_event_type = pe_type event, od_body = envelope event, od_status = PENDING,
      od_attempts = 0, od_next_attempt_at = now, od_last_error = [], od_last_status = 0, od_created_at = now\<rparr>"

primrec enqueue_loop ::
  "'o outbox_ops \<Rightarrow> int \<Rightarrow> platform_event \<Rightarrow> webhook_endpoint list \<Rightarrow> int \<Rightarrow> ('o outbox_world, int) meth" where
  "enqueue_loop ops now event [] queued = ret queued"
| "enqueue_loop ops now event (ep # eps) queued =
     (if \<not> wants ep (pe_type event) then enqueue_loop ops now event eps queued
      else (\<lambda>w. let (inserted, o') = ob_enqueue ops (new_delivery now event ep) (ow_outbox w)
                in enqueue_loop ops now event eps (if inserted then queued + 1 else queued) (w\<lparr>ow_outbox := o'\<rparr>)))"

definition enqueue_event ::
  "'ip outbox_env \<Rightarrow> 'o outbox_ops \<Rightarrow> 'e endpoint_store_ops \<Rightarrow> 'e \<Rightarrow> platform_event \<Rightarrow> ('o outbox_world, int) meth" where
  "enqueue_event env ops eops eps event =
     bind (read_clock env) (\<lambda>now.
       bind (lift_res (es_for_tenant eops (pe_tenant_id event) eps)) (\<lambda>endpoints.
         enqueue_loop ops now event endpoints 0))"

definition fail_delivery ::
  "'ip outbox_env \<Rightarrow> outbox_delivery \<Rightarrow> int \<Rightarrow> int \<Rightarrow> string \<Rightarrow> ('o outbox_world, outbox_delivery) meth" where
  "fail_delivery env d attempts status err =
     (if oe_max env \<le> attempts
      then bind (read_clock env) (\<lambda>t.
        ret (d\<lparr>od_status := DEAD, od_attempts := attempts, od_last_status := status, od_last_error := err,
               od_next_attempt_at := t\<rparr>))
      else bind (read_clock env) (\<lambda>t.
        ret (d\<lparr>od_status := PENDING, od_attempts := attempts, od_last_status := status, od_last_error := err,
               od_next_attempt_at := t + backoff_seconds attempts BACKOFF_BASE_SECONDS BACKOFF_CAP_SECONDS\<rparr>)))"

definition post_letter ::
  "'ip outbox_env \<Rightarrow> outbox_delivery \<Rightarrow> webhook_endpoint \<Rightarrow> ('o outbox_world, http_outcome) meth" where
  "post_letter env d ep w =
     (let headers = delivery_headers (oe_hmac env) (od_body d) (we_secret ep) (od_event_id d);
          out = oe_http env (length (ow_posts w)) (we_url ep) (od_body d) headers
      in (Inr out, w\<lparr>ow_posts := ow_posts w @ [\<lparr>hp_letter = (od_endpoint_id d, od_event_id d), hp_url = we_url ep,
            hp_body = od_body d, hp_headers = headers, hp_outcome = out\<rparr>]\<rparr>))"

definition attempt ::
  "'ip outbox_env \<Rightarrow> outbox_delivery \<Rightarrow> webhook_endpoint option \<Rightarrow> ('o outbox_world, outbox_delivery) meth" where
  "attempt env d ep_opt =
     (let attempts = od_attempts d + 1
      in case ep_opt of
           None \<Rightarrow> fail_delivery env d attempts 0 ''endpoint no longer registered''
         | Some ep \<Rightarrow>
             bind (lift_res (validate_target (oe_net env) (oe_allow_hosts env) (we_url ep))) (\<lambda>blocked.
               case blocked of
                 Some err \<Rightarrow> fail_delivery env d attempts 0 err
               | None \<Rightarrow> bind (post_letter env d ep) (\<lambda>out.
                   case out of
                     Responded status \<Rightarrow>
                       if 200 \<le> status \<and> status < 300
                       then ret (d\<lparr>od_status := DELIVERED, od_attempts := attempts, od_last_status := status,
                                   od_last_error := []\<rparr>)
                       else fail_delivery env d attempts status (''HTTP '' @ str_int status)
                   | Raised err \<Rightarrow> fail_delivery env d attempts 0 err)))"

text \<open>The endpoint of a delivery, through the cache of the sweep.\<close>

definition endpoint_for ::
  "'e endpoint_store_ops \<Rightarrow> 'e \<Rightarrow> outbox_delivery \<Rightarrow> (string \<times> webhook_endpoint) list
     \<Rightarrow> (webhook_endpoint option \<times> (string \<times> webhook_endpoint) list) res" where
  "endpoint_for eops eps d cache =
     (case map_of cache (od_endpoint_id d) of
        Some ep \<Rightarrow> Inr (Some ep, cache)
      | None \<Rightarrow>
          res_bind (es_for_tenant eops (od_tenant_id d) eps) (\<lambda>endpoints.
            case find (\<lambda>e. we_id e = od_endpoint_id d) endpoints of
              Some ep \<Rightarrow> Inr (Some ep, AList.update (od_endpoint_id d) ep cache)
            | None \<Rightarrow> Inr (None, cache)))"

definition count_outcome :: "outbox_delivery \<Rightarrow> delivery_summary \<Rightarrow> delivery_summary" where
  "count_outcome d sm =
     (if od_status d = DELIVERED then sm\<lparr>sm_delivered := sm_delivered sm + 1\<rparr>
      else if od_status d = DEAD then sm\<lparr>sm_dead := sm_dead sm + 1\<rparr>
      else sm\<lparr>sm_retried := sm_retried sm + 1\<rparr>)"

primrec deliver_rows ::
  "'ip outbox_env \<Rightarrow> 'o outbox_ops \<Rightarrow> 'e endpoint_store_ops \<Rightarrow> 'e \<Rightarrow> outbox_delivery list
     \<Rightarrow> (string \<times> webhook_endpoint) list \<Rightarrow> delivery_summary \<Rightarrow> ('o outbox_world, delivery_summary) meth" where
  "deliver_rows env ops eops eps [] cache sm = ret sm"
| "deliver_rows env ops eops eps (d # ds) cache sm =
     bind (lift_res (endpoint_for eops eps d cache)) (\<lambda>(ep, cache').
       bind (attempt env d ep) (\<lambda>outcome.
         seqm (modify (\<lambda>w. w\<lparr>ow_outbox := ob_update ops outcome (ow_outbox w)\<rparr>))
           (deliver_rows env ops eops eps ds cache' (count_outcome outcome sm))))"

definition deliver_due ::
  "'ip outbox_env \<Rightarrow> 'o outbox_ops \<Rightarrow> 'e endpoint_store_ops \<Rightarrow> 'e \<Rightarrow> int \<Rightarrow> ('o outbox_world, delivery_summary) meth" where
  "deliver_due env ops eops eps limit =
     bind (read_clock env) (\<lambda>now.
       bind (gets (\<lambda>w. ob_due ops now limit (ow_outbox w))) (\<lambda>ds.
         deliver_rows env ops eops eps ds []
           \<lparr>sm_considered = int (length ds), sm_delivered = 0, sm_retried = 0, sm_dead = 0\<rparr>))"

definition replay :: "'ip outbox_env \<Rightarrow> 'o outbox_ops \<Rightarrow> string \<Rightarrow> ('o outbox_world, bool) meth" where
  "replay env ops delivery_id =
     bind (gets (\<lambda>w. ob_get ops delivery_id (ow_outbox w))) (\<lambda>row.
       case row of
         None \<Rightarrow> ret False
       | Some d \<Rightarrow> bind (read_clock env) (\<lambda>t.
           seqm (modify (\<lambda>w. w\<lparr>ow_outbox := ob_update ops
               (d\<lparr>od_status := PENDING, od_next_attempt_at := t, od_last_error := [], od_last_status := 0\<rparr>) (ow_outbox w)\<rparr>))
             (ret True)))"

section \<open>The handlers of the application\<close>

text \<open>\<open>_emit_event\<close>, with webhooks configured.\<close>

definition emit_event ::
  "'ip outbox_env \<Rightarrow> 'o outbox_ops \<Rightarrow> 'e endpoint_store_ops \<Rightarrow> 'e \<Rightarrow> string \<Rightarrow> string \<Rightarrow> (string \<times> json) list
     \<Rightarrow> ('o outbox_world, int) meth" where
  "emit_event env ops eops eps tenant_id event_type data =
     bind (read_clock env) (\<lambda>at_time.
       enqueue_event env ops eops eps
         \<lparr>pe_id = tenant_id @ '':'' @ event_type @ '':'' @ str_int at_time, pe_type = event_type,
          pe_tenant_id = tenant_id, pe_at = at_time, pe_data = data\<rparr>)"

text \<open>The \<open>events\<close> field of the form or JSON body.\<close>

datatype events_field = EventsText string | EventsList "string list" | EventsOther

definition events_of_field :: "events_field \<Rightarrow> string list" where
  "events_of_field f = (case f of
       EventsText s \<Rightarrow> if s \<noteq> [] then [s] else EVENTS
     | EventsList es \<Rightarrow> if es \<noteq> [] then es else EVENTS
     | EventsOther \<Rightarrow> EVENTS)"

text \<open>The redirect: an error, or the id and the secret that is shown once.\<close>

datatype integration_reply = IntegrationErr string | EndpointAdded string string | IntegrationDone string

definition integration_add ::
  "'ip net \<Rightarrow> 'e endpoint_store_ops \<Rightarrow> string \<Rightarrow> string \<Rightarrow> string \<Rightarrow> string \<Rightarrow> events_field
     \<Rightarrow> ('e, integration_reply) meth" where
  "integration_add nt eops tenant_id secret id_raw url_raw events_raw =
     (let endpoint_id = strip id_raw; url = strip url_raw
      in if endpoint_id = [] \<or> url = [] then ret (IntegrationErr ''An endpoint needs an id and an https URL'')
         else bind (lift_res (validate_target nt None url)) (\<lambda>blocked.
           case blocked of
             Some err \<Rightarrow> ret (IntegrationErr err)
           | None \<Rightarrow>
               seqm (modify (es_save eops \<lparr>we_id = endpoint_id, we_tenant_id = tenant_id, we_url = url,
                   we_secret = secret, we_events = events_of_field events_raw, we_active = True\<rparr>))
                 (ret (EndpointAdded endpoint_id secret))))"

definition integration_delete ::
  "'e endpoint_store_ops \<Rightarrow> string \<Rightarrow> string \<Rightarrow> ('e, integration_reply) meth" where
  "integration_delete eops tenant_id endpoint_id = (\<lambda>eps.
     bind (lift_res (es_get eops endpoint_id eps)) (\<lambda>ep.
       if (case ep of None \<Rightarrow> True | Some e \<Rightarrow> we_tenant_id e \<noteq> tenant_id) then ret (IntegrationErr ''Unknown endpoint'')
       else seqm (modify (es_delete eops endpoint_id)) (ret (IntegrationDone endpoint_id))) eps)"

definition integration_replay ::
  "'ip outbox_env \<Rightarrow> 'o outbox_ops \<Rightarrow> string \<Rightarrow> string \<Rightarrow> ('o outbox_world, integration_reply) meth" where
  "integration_replay env ops tenant_id delivery_id =
     bind (gets (\<lambda>w. ob_get ops delivery_id (ow_outbox w))) (\<lambda>row.
       if (case row of None \<Rightarrow> True | Some d \<Rightarrow> od_tenant_id d \<noteq> tenant_id) then ret (IntegrationErr ''Unknown delivery'')
       else seqm (replay env ops delivery_id) (ret (IntegrationDone delivery_id)))"

section \<open>What an outbox promises\<close>

definition same_letter :: "outbox_delivery \<Rightarrow> outbox_delivery \<Rightarrow> bool" where
  "same_letter d d' \<longleftrightarrow>
     od_id d = od_id d' \<and> od_tenant_id d = od_tenant_id d' \<and> od_endpoint_id d = od_endpoint_id d' \<and>
     od_event_id d = od_event_id d' \<and> od_event_type d = od_event_type d' \<and> od_body d = od_body d' \<and>
     od_created_at d = od_created_at d'"

text \<open>\<open>view\<close> is the deliveries an outbox holds by id. Only what an attempt or a replay changes of a
  delivery may be updated.\<close>

locale webhook_outbox =
  fixes ops :: "'o outbox_ops" and ok :: "'o \<Rightarrow> bool" and view :: "'o \<Rightarrow> string \<Rightarrow> outbox_delivery option"
  assumes enqueue_ok: "ok s \<Longrightarrow> ok (snd (ob_enqueue ops d s))"
    and enqueue_new: "ok s \<Longrightarrow> fst (ob_enqueue ops d s) \<longleftrightarrow> view s (od_id d) = None"
    and enqueue_view: "ok s \<Longrightarrow> view (snd (ob_enqueue ops d s)) =
      (if view s (od_id d) = None then (view s)(od_id d \<mapsto> d) else view s)"
    and update_ok: "ok s \<Longrightarrow> view s (od_id d) = Some d0 \<Longrightarrow> same_letter d0 d \<Longrightarrow> ok (ob_update ops d s)"
    and update_view: "ok s \<Longrightarrow> view s (od_id d) = Some d0 \<Longrightarrow> same_letter d0 d \<Longrightarrow>
      view (ob_update ops d s) = (view s)(od_id d \<mapsto> d)"
    and view_id: "ok s \<Longrightarrow> view s i = Some d \<Longrightarrow> od_id d = i"
    and get_view: "ok s \<Longrightarrow> ob_get ops i s = view s i"
    and due: "ok s \<Longrightarrow> 0 \<le> limit \<Longrightarrow> \<exists>ds. ob_due ops now limit s = take (nat limit) ds \<and>
      sorted (map due_key ds) \<and> distinct (map od_id ds) \<and> set ds = {d \<in> ran (view s). is_due now d}"
    and for_tenant: "ok s \<Longrightarrow> \<exists>ds. ob_for_tenant ops tenant status s = ds \<and>
      sorted (map created_key ds) \<and> distinct (map od_id ds) \<and> set ds = {d \<in> ran (view s). of_tenant tenant status d}"
begin

lemma due_rows:
  assumes "ok s" "0 \<le> limit"
  shows "distinct (map od_id (ob_due ops now limit s))"
    and "d \<in> set (ob_due ops now limit s) \<Longrightarrow> view s (od_id d) = Some d \<and> is_due now d"
proof -
  obtain ds where ds: "ob_due ops now limit s = take (nat limit) ds" "distinct (map od_id ds)"
    "set ds = {d \<in> ran (view s). is_due now d}"
    using due [OF assms] by blast
  show "distinct (map od_id (ob_due ops now limit s))" using ds by (simp add: take_map [symmetric])
  assume "d \<in> set (ob_due ops now limit s)"
  then have "d \<in> set ds" using ds(1) by (auto dest: in_set_takeD)
  then show "view s (od_id d) = Some d \<and> is_due now d" using ds(3) view_id [OF assms(1)] by (auto simp: ran_def)
qed

end

text \<open>Two outboxes with the same deliveries answer alike.\<close>

lemma distinct_by_id:
  "distinct (map od_id ds) \<Longrightarrow> distinct (map due_key ds) \<and> distinct (map created_key ds)"
  by (induction ds) (auto simp: due_key_def created_key_def)

lemma outboxes_agree:
  assumes "webhook_outbox ops ok view" "webhook_outbox ops' ok' view'" "ok s" "ok' s'" "view s = view' s'"
  shows "0 \<le> limit \<Longrightarrow> ob_due ops now limit s = ob_due ops' now limit s'"
    and "ob_for_tenant ops tenant status s = ob_for_tenant ops' tenant status s'"
    and "ob_get ops i s = ob_get ops' i s'"
    and "fst (ob_enqueue ops d s) = fst (ob_enqueue ops' d s')"
proof -
  show "ob_due ops now limit s = ob_due ops' now limit s'" if limit: "0 \<le> limit"
  proof -
    obtain ds where ds: "ob_due ops now limit s = take (nat limit) ds" "sorted (map due_key ds)" "distinct (map od_id ds)"
      "set ds = {d \<in> ran (view s). is_due now d}"
      using webhook_outbox.due [OF assms(1,3) limit] by blast
    obtain ds' where ds': "ob_due ops' now limit s' = take (nat limit) ds'" "sorted (map due_key ds')"
      "distinct (map od_id ds')" "set ds' = {d \<in> ran (view' s'). is_due now d}"
      using webhook_outbox.due [OF assms(2,4) limit] by blast
    have "ds = ds'" using ds ds' assms(5) distinct_by_id
      by (intro sorted_by_key_unique [of due_key]) simp_all
    then show ?thesis using ds(1) ds'(1) by simp
  qed
  obtain ds where ds: "ob_for_tenant ops tenant status s = ds" "sorted (map created_key ds)" "distinct (map od_id ds)"
    "set ds = {d \<in> ran (view s). of_tenant tenant status d}"
    using webhook_outbox.for_tenant [OF assms(1,3)] by blast
  obtain ds' where ds': "ob_for_tenant ops' tenant status s' = ds'" "sorted (map created_key ds')"
    "distinct (map od_id ds')" "set ds' = {d \<in> ran (view' s'). of_tenant tenant status d}"
    using webhook_outbox.for_tenant [OF assms(2,4)] by blast
  have "ds = ds'" using ds ds' assms(5) distinct_by_id
    by (intro sorted_by_key_unique [of created_key]) simp_all
  then show "ob_for_tenant ops tenant status s = ob_for_tenant ops' tenant status s'" using ds(1) ds'(1) by simp
  show "ob_get ops i s = ob_get ops' i s'" "fst (ob_enqueue ops d s) = fst (ob_enqueue ops' d s')"
    using assms by (simp_all add: webhook_outbox.get_view [OF assms(1,3)] webhook_outbox.get_view [OF assms(2,4)]
        webhook_outbox.enqueue_new [OF assms(1,3)] webhook_outbox.enqueue_new [OF assms(2,4)])
qed

definition outbox_ok :: "outbox_rows \<Rightarrow> bool" where
  "outbox_ok rows \<longleftrightarrow> distinct (map fst rows) \<and> list_all (\<lambda>(i, d). od_id d = i) rows"

lemma outbox_ids: "outbox_ok rows \<Longrightarrow> map od_id (map snd rows) = map fst rows"
  by (auto simp: outbox_ok_def list_all_iff)

lemma outbox_listing:
  assumes "outbox_ok rows"
  shows "distinct (map od_id (sort_key k (filter P (map snd rows))))"
    and "set (sort_key k (filter P (map snd rows))) = {d \<in> ran (map_of rows). P d}"
proof -
  have "distinct (map od_id (map snd rows))" using assms by (simp only: outbox_ids) (simp add: outbox_ok_def)
  then have "inj_on od_id (set (map snd rows))" "distinct (map snd rows)" by (simp_all only: distinct_map)
  then show "distinct (map od_id (sort_key k (filter P (map snd rows))))"
    by (auto simp: distinct_map intro: inj_on_subset distinct_filter)
  show "set (sort_key k (filter P (map snd rows))) = {d \<in> ran (map_of rows). P d}"
    using assms by (auto simp: outbox_ok_def ran_map_of)
qed

interpretation mem_ob: webhook_outbox mem_outbox outbox_ok map_of
proof unfold_locales
  fix s :: outbox_rows and limit now :: int
  assume s: "outbox_ok s" and limit: "0 \<le> limit"
  show "\<exists>ds. ob_due mem_outbox now limit s = take (nat limit) ds \<and> sorted (map due_key ds) \<and>
      distinct (map od_id ds) \<and> set ds = {d \<in> ran (map_of s). is_due now d}"
    using limit outbox_listing [OF s]
    by (intro exI [of _ "sort_key due_key (filter (is_due now) (map snd s))"])
      (simp add: mem_outbox_def mem_due_def py_prefix_def)
next
  fix s tenant status
  assume s: "outbox_ok s"
  show "\<exists>ds. ob_for_tenant mem_outbox tenant status s = ds \<and> sorted (map created_key ds) \<and>
      distinct (map od_id ds) \<and> set ds = {d \<in> ran (map_of s). of_tenant tenant status d}"
    using outbox_listing [OF s] by (simp add: mem_outbox_def mem_for_tenant_def)
qed (auto simp: mem_outbox_def mem_enqueue_def mem_update_def mem_get_def outbox_ok_def update_conv' distinct_update
    list_all_update_alist, auto simp: list_all_iff map_of_eq_None_iff dest: map_of_SomeD)

lemma sql_due_eq: "0 \<le> limit \<Longrightarrow> sql_due now limit rows = take (nat limit) (sort_key due_key (filter (is_due now) (map snd rows)))"
proof -
  have "is_due now = (\<lambda>d. od_status d = ''pending'' \<and> od_next_attempt_at d \<le> now)"
    by (rule ext) (simp add: is_due_def PENDING_def)
  then show "0 \<le> limit \<Longrightarrow> ?thesis" by (simp add: sql_due_def)
qed

lemma sql_for_tenant_eq: "sql_for_tenant t st rows = sort_key created_key (filter (of_tenant t st) (map snd rows))"
proof -
  have "(case st of Some s \<Rightarrow> \<lambda>d. od_tenant_id d = t \<and> od_status d = s | None \<Rightarrow> \<lambda>d. od_tenant_id d = t) = of_tenant t st"
    by (rule ext) (auto simp: of_tenant_def split: option.splits)
  then show ?thesis by (simp add: sql_for_tenant_def)
qed

lemma map_of_sql_update:
  "map_of (sql_update d rows) i =
     (if i = od_id d then map_option (\<lambda>r. r\<lparr>od_status := od_status d, od_attempts := od_attempts d,
        od_next_attempt_at := od_next_attempt_at d, od_last_error := od_last_error d, od_last_status := od_last_status d\<rparr>)
        (map_of rows i) else map_of rows i)"
  by (induction rows) (auto simp: sql_update_def)

lemma sql_update_view:
  assumes "map_of rows (od_id d) = Some d0" "same_letter d0 d"
  shows "map_of (sql_update d rows) = (map_of rows)(od_id d \<mapsto> d)"
  using assms by (cases d0; cases d) (auto simp: fun_eq_iff map_of_sql_update same_letter_def)

lemma sql_update_ok: "outbox_ok rows \<Longrightarrow> outbox_ok (sql_update d rows)"
proof -
  have "map fst (sql_update d rows) = map fst rows" by (auto simp: sql_update_def)
  moreover have "list_all (\<lambda>(i, d). od_id d = i) rows \<Longrightarrow> list_all (\<lambda>(i, d). od_id d = i) (sql_update d rows)"
    by (auto simp: list_all_iff sql_update_def)
  ultimately show "outbox_ok rows \<Longrightarrow> outbox_ok (sql_update d rows)"
    by (simp only: outbox_ok_def)
qed

lemma sql_get_view: "sql_get i rows = map_of rows i"
  by (induction rows) (auto simp: sql_get_def)

interpretation sql_ob: webhook_outbox sql_outbox outbox_ok map_of
proof unfold_locales
  fix s :: outbox_rows and limit now :: int
  assume s: "outbox_ok s" and limit: "0 \<le> limit"
  show "\<exists>ds. ob_due sql_outbox now limit s = take (nat limit) ds \<and> sorted (map due_key ds) \<and>
      distinct (map od_id ds) \<and> set ds = {d \<in> ran (map_of s). is_due now d}"
    using sql_due_eq [OF limit] outbox_listing [OF s]
    by (intro exI [of _ "sort_key due_key (filter (is_due now) (map snd s))"]) (simp add: sql_outbox_def)
next
  fix s tenant status
  assume s: "outbox_ok s"
  show "\<exists>ds. ob_for_tenant sql_outbox tenant status s = ds \<and> sorted (map created_key ds) \<and>
      distinct (map od_id ds) \<and> set ds = {d \<in> ran (map_of s). of_tenant tenant status d}"
    using outbox_listing [OF s] by (simp add: sql_outbox_def sql_for_tenant_eq)
next
  fix s d
  assume s: "outbox_ok s"
  show "outbox_ok (snd (ob_enqueue sql_outbox d s))"
    using s by (auto simp: sql_outbox_def sql_enqueue_def outbox_ok_def map_of_eq_None_iff split: option.splits)
  show "map_of (snd (ob_enqueue sql_outbox d s)) =
      (if map_of s (od_id d) = None then (map_of s)(od_id d \<mapsto> d) else map_of s)"
    by (auto simp: sql_outbox_def sql_enqueue_def map_add_def fun_eq_iff split: option.splits)
next
  fix s i d
  assume "outbox_ok s" "map_of s i = Some d"
  then show "od_id d = i" by (auto simp: outbox_ok_def list_all_iff dest: map_of_SomeD)
qed (auto simp: sql_outbox_def sql_enqueue_def sql_get_view sql_update_ok sql_update_view split: option.splits)

section \<open>One attempt\<close>

definition letter_of :: "outbox_delivery \<Rightarrow> string \<times> string" where
  "letter_of d = (od_endpoint_id d, od_event_id d)"

text \<open>What an attempt that returned has done.\<close>

definition attempted :: "'ip outbox_env \<Rightarrow> outbox_delivery \<Rightarrow> outbox_delivery \<Rightarrow> http_post list \<Rightarrow> bool" where
  "attempted env d d' new \<longleftrightarrow>
     same_letter d d' \<and> od_attempts d' = od_attempts d + 1 \<and> length new \<le> 1 \<and>
     list_all (\<lambda>p. hp_letter p = letter_of d \<and> hp_body p = od_body d \<and>
        validate_target (oe_net env) (oe_allow_hosts env) (hp_url p) = Inr None) new \<and>
     (od_status d' = DELIVERED \<and> times_accepted (letter_of d) new = 1 \<or>
      od_status d' = DEAD \<and> times_accepted (letter_of d) new = 0 \<and> oe_max env \<le> od_attempts d' \<or>
      od_status d' = PENDING \<and> times_accepted (letter_of d) new = 0 \<and> od_attempts d' < oe_max env)"

lemma fail_attempted:
  assumes "list_all (\<lambda>p. hp_letter p = letter_of d \<and> hp_body p = od_body d \<and>
      validate_target (oe_net env) (oe_allow_hosts env) (hp_url p) = Inr None) new"
    and "length new \<le> 1" "times_accepted (letter_of d) new = 0"
  shows "\<exists>d'. fail_delivery env d (od_attempts d + 1) st err w = (Inr d', w\<lparr>ow_reads := Suc (ow_reads w)\<rparr>) \<and>
    attempted env d d' new"
  using assms by (auto simp: fail_delivery_def read_clock_def attempted_def same_letter_def)

lemma attempt_effect:
  "attempt env d ep w = (res, w') \<Longrightarrow>
     (case res of
        Inl e \<Rightarrow> w' = w
      | Inr d' \<Rightarrow> \<exists>n new. w' = w\<lparr>ow_reads := n, ow_posts := ow_posts w @ new\<rparr> \<and> attempted env d d' new)"
proof -
  assume a: "attempt env d ep w = (res, w')"
  have failed: ?thesis
    if "fail_delivery env d (od_attempts d + 1) st err (w\<lparr>ow_posts := ow_posts w @ new\<rparr>) = (res, w')"
      "list_all (\<lambda>p. hp_letter p = letter_of d \<and> hp_body p = od_body d \<and>
         validate_target (oe_net env) (oe_allow_hosts env) (hp_url p) = Inr None) new"
      "length new \<le> 1" "times_accepted (letter_of d) new = 0" for st err new
    using that(1) fail_attempted [OF that(2-4), of st err "w\<lparr>ow_posts := ow_posts w @ new\<rparr>"]
    by (auto intro!: exI [of _ new] exI [of _ "Suc (ow_reads w)"])
  have same: "w\<lparr>ow_posts := ow_posts w @ []\<rparr> = w" by simp
  show ?thesis
  proof (cases ep)
    case None
    with a have "fail_delivery env d (od_attempts d + 1) 0 ''endpoint no longer registered'' w = (res, w')"
      by (simp add: attempt_def Let_def)
    then show ?thesis using failed [of 0 _ "[]"] by (simp only: same) simp
  next
    case (Some e)
    show ?thesis
    proof (cases "validate_target (oe_net env) (oe_allow_hosts env) (we_url e)")
      case (Inl err)
      then show ?thesis using a Some by (auto simp: attempt_def Let_def)
    next
      case (Inr blocked)
      show ?thesis
      proof (cases blocked)
        case (Some err)
        then show ?thesis using a \<open>ep = Some e\<close> Inr failed [of 0 err "[]"] by (auto simp: attempt_def Let_def same)
      next
        case None
        define out where "out = oe_http env (length (ow_posts w)) (we_url e) (od_body d)
          (delivery_headers (oe_hmac env) (od_body d) (we_secret e) (od_event_id d))"
        define p where "p = \<lparr>hp_letter = letter_of d, hp_url = we_url e, hp_body = od_body d,
          hp_headers = delivery_headers (oe_hmac env) (od_body d) (we_secret e) (od_event_id d), hp_outcome = out\<rparr>"
        have post: "post_letter env d e w = (Inr out, w\<lparr>ow_posts := ow_posts w @ [p]\<rparr>)"
          by (simp add: post_letter_def Let_def out_def p_def letter_of_def)
        have p: "list_all (\<lambda>p. hp_letter p = letter_of d \<and> hp_body p = od_body d \<and>
            validate_target (oe_net env) (oe_allow_hosts env) (hp_url p) = Inr None) [p]"
          using Inr None by (simp add: p_def)
        show ?thesis
        proof (cases "accepted out")
          case True
          then obtain status where out: "out = Responded status" "200 \<le> status" "status < 300"
            by (auto simp: accepted_def split: http_outcome.splits)
          have "times_accepted (letter_of d) [p] = 1" using True by (simp add: p_def)
          moreover have "(res, w') = (Inr (d\<lparr>od_status := DELIVERED, od_attempts := od_attempts d + 1,
              od_last_status := status, od_last_error := []\<rparr>), w\<lparr>ow_posts := ow_posts w @ [p]\<rparr>)"
            using a \<open>ep = Some e\<close> Inr None post out by (simp add: attempt_def Let_def)
          ultimately show ?thesis using p
            by (auto simp: attempted_def same_letter_def intro!: exI [of _ "[p]"] exI [of _ "ow_reads w"])
        next
          case False
          have "times_accepted (letter_of d) [p] = 0" using False by (simp add: p_def)
          moreover obtain st err where
            "fail_delivery env d (od_attempts d + 1) st err (w\<lparr>ow_posts := ow_posts w @ [p]\<rparr>) = (res, w')"
            using a \<open>ep = Some e\<close> Inr None post False
            by (cases out) (auto simp: attempt_def Let_def accepted_def)
          ultimately show ?thesis using p failed [of st err "[p]"] by simp
        qed
      qed
    qed
  qed
qed

section \<open>Runs of the outbox\<close>

datatype ('ip, 'e) outbox_call =
    Enqueue "'ip outbox_env" 'e platform_event
  | Sweep "'ip outbox_env" 'e int
  | Replay "'ip outbox_env" string

fun outbox_step :: "'o outbox_ops \<Rightarrow> 'e endpoint_store_ops \<Rightarrow> ('ip, 'e) outbox_call \<Rightarrow> 'o outbox_world \<Rightarrow> 'o outbox_world" where
  "outbox_step ops eops (Enqueue env eps event) w = snd (enqueue_event env ops eops eps event w)"
| "outbox_step ops eops (Sweep env eps limit) w = snd (deliver_due env ops eops eps limit w)"
| "outbox_step ops eops (Replay env i) w = snd (replay env ops i w)"

text \<open>The dispatchers of a run have the same bound on attempts, and sweeps a limit that is not negative.\<close>

fun call_ok :: "int \<Rightarrow> ('ip, 'e) outbox_call \<Rightarrow> bool" where
  "call_ok m (Enqueue env eps event) = True"
| "call_ok m (Sweep env eps limit) = (oe_max env = m \<and> 0 \<le> limit)"
| "call_ok m (Replay env i) = True"

fun is_replay :: "string \<Rightarrow> ('ip, 'e) outbox_call \<Rightarrow> bool" where
  "is_replay i (Replay env j) = (j = i)"
| "is_replay i c = False"

definition times_posted :: "string \<times> string \<Rightarrow> http_post list \<Rightarrow> nat" where
  "times_posted k ps = length (filter (\<lambda>p. hp_letter p = k) ps)"

lemma times_posted_simps [simp]:
  "times_posted k [] = 0" "times_posted k (ps @ qs) = times_posted k ps + times_posted k qs"
  by (simp_all add: times_posted_def)

lemma times_accepted_le: "times_accepted k ps \<le> times_posted k ps"
  by (induction ps) (auto simp: times_posted_def)

text \<open>A delivery after \<open>k\<close> replays, with at most \<open>m\<close> attempts.\<close>

definition row_ok :: "int \<Rightarrow> nat \<Rightarrow> outbox_delivery \<Rightarrow> http_post list \<Rightarrow> bool" where
  "row_ok m k d ps \<longleftrightarrow>
     od_status d \<in> {PENDING, DELIVERED, DEAD} \<and>
     times_accepted (letter_of d) ps \<le> k + (if od_status d = DELIVERED then 1 else 0) \<and>
     (od_status d = DELIVERED \<longrightarrow> 1 \<le> times_accepted (letter_of d) ps) \<and>
     int (times_posted (letter_of d) ps) \<le> od_attempts d \<and>
     od_attempts d + (if od_status d = PENDING then 1 else 0) \<le> max 1 m + int k"

definition outbox_inv :: "int \<Rightarrow> (string \<Rightarrow> nat) \<Rightarrow> (string \<Rightarrow> outbox_delivery option) \<Rightarrow> http_post list \<Rightarrow> bool" where
  "outbox_inv m r vw ps \<longleftrightarrow>
     (\<forall>i d. vw i = Some d \<longrightarrow> i = letter_id (od_endpoint_id d) (od_event_id d) \<and> row_ok m (r i) d ps) \<and>
     (\<forall>p\<in>set ps. \<exists>d. vw (letter_id (fst (hp_letter p)) (snd (hp_letter p))) = Some d \<and> letter_of d = hp_letter p)"

lemma outbox_invD:
  "outbox_inv m r vw ps \<Longrightarrow> vw i = Some d \<Longrightarrow> i = letter_id (od_endpoint_id d) (od_event_id d) \<and> row_ok m (r i) d ps"
  by (simp add: outbox_inv_def)

lemma times_other: "list_all (\<lambda>p. hp_letter p = k' \<and> Q p) new \<Longrightarrow> k \<noteq> k' \<Longrightarrow> times_posted k new = 0 \<and> times_accepted k new = 0"
  by (auto simp: times_posted_def times_accepted_def list_all_iff)

lemma row_ok_attempted:
  assumes "row_ok (oe_max env) k d ps" "od_status d = PENDING" "attempted env d d' new"
  shows "row_ok (oe_max env) k d' (ps @ new)"
proof -
  have l: "letter_of d' = letter_of d" using assms(3) by (simp add: attempted_def same_letter_def letter_of_def)
  have "times_posted (letter_of d) new \<le> length new" by (simp add: times_posted_def)
  with assms show ?thesis by (auto simp: row_ok_def attempted_def l)
qed

lemma outbox_inv_attempted:
  assumes inv: "outbox_inv (oe_max env) r vw ps" and d: "vw i = Some d" "od_status d = PENDING"
    and a: "attempted env d d' new"
  shows "outbox_inv (oe_max env) r (vw(i \<mapsto> d')) (ps @ new)"
proof -
  have l: "letter_of d' = letter_of d" "od_endpoint_id d' = od_endpoint_id d" "od_event_id d' = od_event_id d"
    using a by (simp_all add: attempted_def same_letter_def letter_of_def)
  have i: "i = letter_id (od_endpoint_id d) (od_event_id d)" using outbox_invD [OF inv d(1)] by simp
  have new: "list_all (\<lambda>p. hp_letter p = letter_of d \<and> hp_body p = od_body d \<and>
      validate_target (oe_net env) (oe_allow_hosts env) (hp_url p) = Inr None) new"
    using a by (simp add: attempted_def)
  have rows: "j = letter_id (od_endpoint_id x) (od_event_id x) \<and> row_ok (oe_max env) (r j) x (ps @ new)"
    if x: "(vw(i \<mapsto> d')) j = Some x" for j x
  proof (cases "j = i")
    case True
    have "row_ok (oe_max env) (r i) d' (ps @ new)"
      using row_ok_attempted [OF _ d(2) a] outbox_invD [OF inv d(1)] by blast
    then show ?thesis using True x i l by auto
  next
    case False
    then have "vw j = Some x" using x by simp
    note j = outbox_invD [OF inv this]
    then have "letter_of x \<noteq> letter_of d" using False i by (auto simp: letter_of_def)
    from times_other [OF new this] j show ?thesis by (auto simp: row_ok_def)
  qed
  have "\<exists>x. (vw(i \<mapsto> d')) (letter_id (fst (hp_letter p)) (snd (hp_letter p))) = Some x \<and> letter_of x = hp_letter p"
    if p: "p \<in> set (ps @ new)" for p
  proof (cases "p \<in> set new")
    case True
    then have "hp_letter p = letter_of d" using new by (auto simp: list_all_iff)
    then show ?thesis using i l by (simp add: letter_of_def)
  next
    case False
    then have "p \<in> set ps" using p by simp
    then obtain x where x: "vw (letter_id (fst (hp_letter p)) (snd (hp_letter p))) = Some x" "letter_of x = hp_letter p"
      using inv by (auto simp: outbox_inv_def)
    then show ?thesis using d(1) l(1) by (cases "letter_id (fst (hp_letter p)) (snd (hp_letter p)) = i") auto
  qed
  then show ?thesis using rows by (simp add: outbox_inv_def)
qed

lemma outbox_inv_enqueued:
  assumes inv: "outbox_inv m r vw ps" and "vw (od_id d) = None"
    and d: "od_id d = letter_id (od_endpoint_id d) (od_event_id d)" "od_status d = PENDING" "od_attempts d = 0"
  shows "outbox_inv m r (vw(od_id d \<mapsto> d)) ps"
proof -
  have "times_posted (letter_of d) ps = 0"
    using inv assms(2) d(1) by (fastforce simp: times_posted_def outbox_inv_def letter_of_def filter_empty_conv)
  then have "row_ok m k d ps" for k using d times_accepted_le [of "letter_of d" ps] by (simp add: row_ok_def)
  then show ?thesis using inv assms(2) d(1) by (fastforce simp: outbox_inv_def)
qed

lemma outbox_inv_replayed:
  assumes inv: "outbox_inv m r vw ps" and d: "vw i = Some d" and same: "same_letter d d'"
    and d': "od_status d' = PENDING" "od_attempts d' = od_attempts d"
  shows "outbox_inv m (r(i := Suc (r i))) (vw(i \<mapsto> d')) ps"
proof -
  have l: "letter_of d' = letter_of d" "od_endpoint_id d' = od_endpoint_id d" "od_event_id d' = od_event_id d"
    using same by (simp_all add: same_letter_def letter_of_def)
  have "row_ok m (Suc (r i)) d' ps"
    using outbox_invD [OF inv d] d' by (auto simp: row_ok_def l split: if_splits)
  moreover have "\<exists>x. (vw(i \<mapsto> d')) j = Some x \<and> letter_of x = k" if "vw j = Some x" "letter_of x = k" for j x k
    using that d l(1) by (cases "j = i") auto
  ultimately show ?thesis using inv d l by (fastforce simp: outbox_inv_def)
qed

definition world_inv ::
  "('o \<Rightarrow> bool) \<Rightarrow> ('o \<Rightarrow> string \<Rightarrow> outbox_delivery option) \<Rightarrow> int \<Rightarrow> (string \<Rightarrow> nat) \<Rightarrow> 'o outbox_world \<Rightarrow> bool" where
  "world_inv ok vw m r w \<longleftrightarrow> ok (ow_outbox w) \<and> outbox_inv m r (vw (ow_outbox w)) (ow_posts w)"

context webhook_outbox begin

lemma enqueue_loop_inv:
  assumes "world_inv ok view m r w"
  shows "world_inv ok view m r (snd (enqueue_loop ops now event eps queued w))"
  using assms
proof (induction eps arbitrary: queued w)
  case (Cons ep eps)
  let ?d = "new_delivery now event ep"
  obtain b o' where e: "ob_enqueue ops ?d (ow_outbox w) = (b, o')" by fastforce
  have ok: "ok o'" "view o' = (if view (ow_outbox w) (od_id ?d) = None then (view (ow_outbox w))(od_id ?d \<mapsto> ?d) else view (ow_outbox w))"
    using Cons.prems enqueue_ok [of "ow_outbox w" ?d] enqueue_view [of "ow_outbox w" ?d] by (simp_all add: world_inv_def e)
  have d: "od_id ?d = letter_id (od_endpoint_id ?d) (od_event_id ?d)" "od_status ?d = PENDING" "od_attempts ?d = 0"
    by (simp_all add: new_delivery_def)
  have "world_inv ok view m r (w\<lparr>ow_outbox := o'\<rparr>)"
    using Cons.prems ok outbox_inv_enqueued [OF _ _ d, of m r "view (ow_outbox w)" "ow_posts w"]
    by (auto simp: world_inv_def)
  then show ?case using Cons by (simp add: e)
qed simp

lemma deliver_rows_inv:
  assumes "world_inv ok view (oe_max env) r w" "distinct (map od_id ds)"
    and "\<And>d. d \<in> set ds \<Longrightarrow> view (ow_outbox w) (od_id d) = Some d \<and> od_status d = PENDING"
  shows "world_inv ok view (oe_max env) r (snd (deliver_rows env ops eops eps ds cache sm w))"
  using assms
proof (induction ds arbitrary: cache sm w)
  case (Cons d ds)
  show ?case
  proof (cases "endpoint_for eops eps d cache")
    case (Inl e)
    then show ?thesis using Cons.prems by simp
  next
    case (Inr x)
    obtain ep cache' where x: "x = (ep, cache')" by fastforce
    obtain res w' where a: "attempt env d ep w = (res, w')" by fastforce
    show ?thesis
    proof (cases res)
      case (Inl e)
      then show ?thesis using Cons.prems a Inr x attempt_effect [OF a] by simp
    next
      case (Inr d')
      then obtain n new where w': "w' = w\<lparr>ow_reads := n, ow_posts := ow_posts w @ new\<rparr>" and att: "attempted env d d' new"
        using attempt_effect [OF a] by auto
      have same: "same_letter d d'" "od_id d' = od_id d" using att by (simp_all add: attempted_def same_letter_def)
      have d: "view (ow_outbox w) (od_id d) = Some d" "od_status d = PENDING" using Cons.prems(3) by simp_all
      have ok: "ok (ow_outbox w)" using Cons.prems(1) by (simp add: world_inv_def)
      let ?w = "w'\<lparr>ow_outbox := ob_update ops d' (ow_outbox w')\<rparr>"
      have upd: "ok (ob_update ops d' (ow_outbox w))" "view (ob_update ops d' (ow_outbox w)) = (view (ow_outbox w))(od_id d \<mapsto> d')"
        using update_ok [OF ok, of d'] update_view [OF ok, of d'] d same by simp_all
      have "world_inv ok view (oe_max env) r ?w"
        using outbox_inv_attempted [of env r "view (ow_outbox w)" "ow_posts w", OF _ d att] Cons.prems(1) upd by (simp add: world_inv_def w')
      moreover have "\<And>x. x \<in> set ds \<Longrightarrow> view (ow_outbox ?w) (od_id x) = Some x \<and> od_status x = PENDING"
        using Cons.prems(2,3) upd by (simp add: w') (metis image_eqI)
      ultimately have "world_inv ok view (oe_max env) r (snd (deliver_rows env ops eops eps ds cache' (count_outcome d' sm) ?w))"
        using Cons.IH [of ?w cache' "count_outcome d' sm"] Cons.prems(2) by simp
      then show ?thesis using \<open>endpoint_for eops eps d cache = Inr x\<close> x a Inr by simp
    qed
  qed
qed simp

lemma step_inv:
  assumes "world_inv ok view m r w" "call_ok m c"
  shows "world_inv ok view m (\<lambda>i. r i + (if is_replay i c then 1 else 0)) (outbox_step ops eops c w)"
proof (cases c)
  case (Enqueue env eps event)
  then show ?thesis
    using assms(1) enqueue_loop_inv [of m r "w\<lparr>ow_reads := Suc (ow_reads w)\<rparr>"]
    by (cases "es_for_tenant eops (pe_tenant_id event) eps") (simp_all add: enqueue_event_def read_clock_def world_inv_def)
next
  case (Sweep env eps limit)
  let ?w = "w\<lparr>ow_reads := Suc (ow_reads w)\<rparr>"
  have m: "oe_max env = m" "0 \<le> limit" and ok: "ok (ow_outbox w)"
    using assms Sweep by (simp_all add: world_inv_def)
  have w: "world_inv ok view (oe_max env) r ?w" using assms(1) m by (simp add: world_inv_def)
  have "world_inv ok view (oe_max env) r (snd (deliver_rows env ops eops eps
      (ob_due ops (oe_clock env (ow_reads w)) limit (ow_outbox w)) cache sm ?w))" for cache sm
    using deliver_rows_inv [OF w due_rows(1) [OF ok m(2)]] due_rows(2) [OF ok m(2)] by (simp add: is_due_def)
  then have "world_inv ok view m r (snd (deliver_due env ops eops eps limit w))"
    by (simp add: deliver_due_def read_clock_def m)
  then show ?thesis using Sweep by simp
next
  case (Replay env i)
  show ?thesis
  proof (cases "view (ow_outbox w) i")
    case None
    then show ?thesis using assms Replay
      by (auto simp: replay_def get_view world_inv_def outbox_inv_def)
  next
    case (Some d)
    have ok: "ok (ow_outbox w)" using assms by (simp add: world_inv_def)
    let ?d = "d\<lparr>od_status := PENDING, od_next_attempt_at := oe_clock env (ow_reads w), od_last_error := [], od_last_status := 0\<rparr>"
    have same: "same_letter d ?d" by (simp add: same_letter_def)
    have i: "od_id d = i" using view_id [OF ok Some] .
    have "outbox_inv m (r(i := Suc (r i))) ((view (ow_outbox w))(i \<mapsto> ?d)) (ow_posts w)"
      using outbox_inv_replayed [of m r "view (ow_outbox w)" "ow_posts w", OF _ Some same] assms by (simp add: world_inv_def)
    moreover have "r(i := Suc (r i)) = (\<lambda>j. r j + (if is_replay j c then 1 else 0))"
      by (auto simp: fun_eq_iff Replay)
    ultimately show ?thesis
      using update_ok [OF ok, of ?d] update_view [OF ok, of ?d] Some same i get_view [OF ok]
      by (simp add: Replay replay_def read_clock_def world_inv_def)
  qed
qed

lemma run_inv:
  "world_inv ok view m r w \<Longrightarrow> list_all (call_ok m) calls \<Longrightarrow>
     world_inv ok view m (\<lambda>i. r i + length (filter (is_replay i) calls)) (fold (outbox_step ops eops) calls w)"
proof (induction calls arbitrary: r w)
  case (Cons c calls)
  have "world_inv ok view m (\<lambda>i. r i + (if is_replay i c then 1 else 0)) (outbox_step ops eops c w)"
    using Cons.prems by (intro step_inv) simp_all
  from Cons.IH [OF this] Cons.prems
  have "world_inv ok view m (\<lambda>i. r i + (if is_replay i c then 1 else 0) + length (filter (is_replay i) calls))
      (fold (outbox_step ops eops) calls (outbox_step ops eops c w))" by simp
  moreover have "(\<lambda>i. r i + (if is_replay i c then 1 else 0) + length (filter (is_replay i) calls)) =
      (\<lambda>i. r i + length (filter (is_replay i) (c # calls)))" by (auto simp: fun_eq_iff)
  ultimately show ?case by simp
qed simp

text \<open>From an empty outbox: what was accepted and requested for an endpoint and an event.\<close>

lemma run_bounds:
  assumes "ok s" "view s = Map.empty" "list_all (call_ok m) calls"
    and w_def: "w = fold (outbox_step ops eops) calls \<lparr>ow_outbox = s, ow_reads = n, ow_posts = []\<rparr>"
    and k_def: "k = length (filter (is_replay (letter_id e v)) calls)"
  shows "times_accepted (e, v) (ow_posts w) \<le> 1 + k \<and> int (times_posted (e, v) (ow_posts w)) \<le> max 1 m + int k \<and>
    (\<forall>d. view (ow_outbox w) (letter_id e v) = Some d \<and> letter_of d = (e, v) \<longrightarrow>
       (od_status d = DELIVERED \<longrightarrow> 1 \<le> times_accepted (e, v) (ow_posts w)) \<and>
       (k = 0 \<and> od_status d \<noteq> DELIVERED \<longrightarrow> times_accepted (e, v) (ow_posts w) = 0))"
proof -
  have "world_inv ok view m (\<lambda>_. 0) \<lparr>ow_outbox = s, ow_reads = n, ow_posts = []\<rparr>"
    using assms(1,2) by (simp add: world_inv_def outbox_inv_def)
  from run_inv [OF this assms(3)] have inv: "outbox_inv m (\<lambda>i. length (filter (is_replay i) calls)) (view (ow_outbox w)) (ow_posts w)"
    by (simp add: w_def world_inv_def)
  have row: "row_ok m k d (ow_posts w)" if "view (ow_outbox w) (letter_id e v) = Some d" for d
    using outbox_invD [OF inv that] unfolding k_def by blast
  have bounds: "times_accepted (e, v) (ow_posts w) \<le> 1 + k \<and> int (times_posted (e, v) (ow_posts w)) \<le> max 1 m + int k"
  proof (cases "\<exists>p\<in>set (ow_posts w). hp_letter p = (e, v)")
    case True
    then obtain p where p: "p \<in> set (ow_posts w)" "hp_letter p = (e, v)" by blast
    with inv obtain d where "view (ow_outbox w) (letter_id e v) = Some d" "letter_of d = (e, v)"
      by (fastforce simp: outbox_inv_def)
    then show ?thesis using row [of d] by (auto simp: row_ok_def split: if_splits)
  next
    case False
    then have "times_posted (e, v) (ow_posts w) = 0" by (auto simp: times_posted_def filter_empty_conv)
    then show ?thesis using times_accepted_le [of "(e, v)" "ow_posts w"] by simp
  qed
  then show ?thesis using row by (auto simp: row_ok_def)
qed

end

section \<open>Backoff and draining\<close>

lemma backoff_bounds:
  "BACKOFF_BASE_SECONDS \<le> backoff_seconds n BACKOFF_BASE_SECONDS BACKOFF_CAP_SECONDS"
  "backoff_seconds n BACKOFF_BASE_SECONDS BACKOFF_CAP_SECONDS \<le> BACKOFF_CAP_SECONDS"
proof -
  have "(1::int) \<le> 2 ^ nat (n - 1)" by simp
  then show "BACKOFF_BASE_SECONDS \<le> backoff_seconds n BACKOFF_BASE_SECONDS BACKOFF_CAP_SECONDS"
    by (simp add: backoff_seconds_def BACKOFF_BASE_SECONDS_def BACKOFF_CAP_SECONDS_def)
  show "backoff_seconds n BACKOFF_BASE_SECONDS BACKOFF_CAP_SECONDS \<le> BACKOFF_CAP_SECONDS"
    by (simp add: backoff_seconds_def BACKOFF_BASE_SECONDS_def BACKOFF_CAP_SECONDS_def)
qed

text \<open>The environment and the endpoint store of a sweep do not raise.\<close>

definition env_returns :: "'ip outbox_env \<Rightarrow> bool" where
  "env_returns env \<longleftrightarrow> (\<forall>url. is_ok (validate_target (oe_net env) (oe_allow_hosts env) url))"

definition listing_returns :: "'e endpoint_store_ops \<Rightarrow> 'e \<Rightarrow> bool" where
  "listing_returns eops eps \<longleftrightarrow> (\<forall>tenant. is_ok (es_for_tenant eops tenant eps))"

lemma endpoint_for_returns: "listing_returns eops eps \<Longrightarrow> \<exists>x. endpoint_for eops eps d cache = Inr x"
  using is_okD [of "es_for_tenant eops (od_tenant_id d) eps"]
  by (auto simp: endpoint_for_def listing_returns_def split: option.splits)

definition rescheduled :: "(nat \<Rightarrow> int) \<Rightarrow> nat \<Rightarrow> outbox_delivery \<Rightarrow> bool" where
  "rescheduled clk n d \<longleftrightarrow> (od_status d = PENDING \<longrightarrow> (\<exists>j<n. od_next_attempt_at d \<le> clk j + BACKOFF_CAP_SECONDS))"

lemma rescheduled_mono: "rescheduled clk n d \<Longrightarrow> n \<le> n' \<Longrightarrow> rescheduled clk n' d"
  by (auto simp: rescheduled_def) (metis le_trans less_le_trans)

lemma fail_returns:
  "\<exists>d'. fail_delivery env d attempts st err w = (Inr d', w\<lparr>ow_reads := Suc (ow_reads w)\<rparr>) \<and>
     rescheduled (oe_clock env) (Suc (ow_reads w)) d'"
  using backoff_bounds(2) [of attempts]
  by (auto simp: fail_delivery_def read_clock_def rescheduled_def intro!: exI [of _ "ow_reads w"])

lemma attempt_returns:
  assumes "env_returns env"
  shows "\<exists>d' w'. attempt env d ep w = (Inr d', w') \<and> ow_reads w \<le> ow_reads w' \<and>
    rescheduled (oe_clock env) (ow_reads w') d'"
proof (cases ep)
  case None
  then show ?thesis
    using fail_returns [of env d "od_attempts d + 1" 0 "''endpoint no longer registered''" w]
    by (auto simp: attempt_def Let_def)
next
  case (Some e)
  obtain blocked where v: "validate_target (oe_net env) (oe_allow_hosts env) (we_url e) = Inr blocked"
    using assms is_okD by (fastforce simp: env_returns_def)
  show ?thesis
  proof (cases blocked)
    case (Some err)
    then show ?thesis using \<open>ep = Some e\<close> v fail_returns [of env d "od_attempts d + 1" 0 err w]
      by (auto simp: attempt_def Let_def)
  next
    case None
    obtain out w' where p: "post_letter env d e w = (Inr out, w')" "ow_reads w' = ow_reads w"
      by (auto simp: post_letter_def Let_def)
    show ?thesis
    proof (cases "accepted out")
      case True
      then show ?thesis using \<open>ep = Some e\<close> v None p
        by (auto simp: attempt_def Let_def accepted_def rescheduled_def split: http_outcome.splits)
    next
      case False
      then obtain st err where "attempt env d ep w = fail_delivery env d (od_attempts d + 1) st err w'"
        using \<open>ep = Some e\<close> v None p by (cases out) (auto simp: attempt_def Let_def accepted_def)
      then show ?thesis using fail_returns [of env d "od_attempts d + 1" st err w'] p(2) by auto
    qed
  qed
qed

context webhook_outbox begin

lemma deliver_rows_all:
  assumes "env_returns env" "listing_returns eops eps" "ok (ow_outbox w)" "distinct (map od_id ds)"
    and "\<And>d. d \<in> set ds \<Longrightarrow> view (ow_outbox w) (od_id d) = Some d"
  shows "\<exists>sm' w'. deliver_rows env ops eops eps ds cache sm w = (Inr sm', w') \<and> ok (ow_outbox w') \<and>
    ow_reads w \<le> ow_reads w' \<and> dom (view (ow_outbox w')) = dom (view (ow_outbox w)) \<and>
    (\<forall>i. i \<notin> od_id ` set ds \<longrightarrow> view (ow_outbox w') i = view (ow_outbox w) i) \<and>
    (\<forall>d\<in>set ds. \<exists>d'. view (ow_outbox w') (od_id d) = Some d' \<and> od_attempts d' = od_attempts d + 1 \<and>
       rescheduled (oe_clock env) (ow_reads w') d')"
  using assms(3-)
proof (induction ds arbitrary: cache sm w)
  case (Cons d ds)
  obtain ep cache' where e: "endpoint_for eops eps d cache = Inr (ep, cache')"
    using endpoint_for_returns [OF assms(2)] by (metis surj_pair)
  obtain d' w1 where a: "attempt env d ep w = (Inr d', w1)" "ow_reads w \<le> ow_reads w1"
    "rescheduled (oe_clock env) (ow_reads w1) d'"
    using attempt_returns [OF assms(1)] by blast
  from attempt_effect [OF a(1)] have same: "same_letter d d'" and n: "od_attempts d' = od_attempts d + 1"
    and w1: "ow_outbox w1 = ow_outbox w"
    by (auto simp: attempted_def)
  have id: "od_id d' = od_id d" using same by (simp add: same_letter_def)
  have d: "view (ow_outbox w) (od_id d') = Some d" using Cons.prems(3) id by simp
  let ?w = "w1\<lparr>ow_outbox := ob_update ops d' (ow_outbox w1)\<rparr>"
  have upd: "ok (ow_outbox ?w)" "view (ow_outbox ?w) = (view (ow_outbox w))(od_id d \<mapsto> d')"
    using update_ok [OF Cons.prems(1) d same] update_view [OF Cons.prems(1) d same] by (simp_all add: w1 id)
  have "view (ow_outbox ?w) (od_id x) = Some x" if "x \<in> set ds" for x
  proof -
    have "od_id x \<in> od_id ` set ds" "od_id d \<notin> od_id ` set ds" using that Cons.prems(2) by simp_all
    then have "od_id x \<noteq> od_id d" by metis
    then show ?thesis using Cons.prems(3) that by (simp only: upd) simp
  qed
  moreover have "distinct (map od_id ds)" using Cons.prems(2) by simp
  ultimately obtain sm' w' where
    IH: "deliver_rows env ops eops eps ds cache' (count_outcome d' sm) ?w = (Inr sm', w')" "ok (ow_outbox w')"
      "ow_reads ?w \<le> ow_reads w'" "dom (view (ow_outbox w')) = dom (view (ow_outbox ?w))"
      "\<And>i. i \<notin> od_id ` set ds \<Longrightarrow> view (ow_outbox w') i = view (ow_outbox ?w) i"
      "\<And>x. x \<in> set ds \<Longrightarrow> \<exists>x'. view (ow_outbox w') (od_id x) = Some x' \<and> od_attempts x' = od_attempts x + 1 \<and>
         rescheduled (oe_clock env) (ow_reads w') x'"
    using Cons.IH [of ?w cache' "count_outcome d' sm"] upd(1) by blast
  have "deliver_rows env ops eops eps (d # ds) cache sm w = (Inr sm', w')" using e a(1) IH(1) by simp
  moreover have "dom (view (ow_outbox w')) = dom (view (ow_outbox w))"
    using IH(4) upd(2) Cons.prems(3) by (auto simp: insert_absorb domI)
  moreover have "view (ow_outbox w') i = view (ow_outbox w) i" if "i \<notin> od_id ` set (d # ds)" for i
    using IH(5) [of i] upd(2) that by simp
  moreover have "view (ow_outbox w') (od_id d) = Some d'"
    using IH(5) [of "od_id d"] upd(2) Cons.prems(2) by simp
  moreover have "rescheduled (oe_clock env) (ow_reads w') d'" using rescheduled_mono [OF a(3)] IH(3) by simp
  moreover have "ow_reads w \<le> ow_reads w'" using a(2) IH(3) by simp
  ultimately show ?case using IH(2,6) n
    by (intro exI [of _ sm'] exI [of _ w'] conjI) (simp_all del: deliver_rows.simps)
qed simp

text \<open>A sweep attempts every pending delivery that is due, if its limit leaves none out.\<close>

lemma sweep_attempts:
  assumes "env_returns env" "listing_returns eops eps" "ok (ow_outbox w)"
    and fin: "finite (dom (view (ow_outbox w)))" and limit: "int (card (dom (view (ow_outbox w)))) \<le> limit"
    and all_due: "\<forall>i d. view (ow_outbox w) i = Some d \<longrightarrow> od_status d = PENDING \<longrightarrow>
      od_next_attempt_at d \<le> oe_clock env (ow_reads w)"
  defines "u \<equiv> snd (deliver_due env ops eops eps limit w)"
  shows "ok (ow_outbox u)" "dom (view (ow_outbox u)) = dom (view (ow_outbox w))" "ow_reads w \<le> ow_reads u"
    and "view (ow_outbox u) i = Some d' \<Longrightarrow> od_status d' = PENDING \<Longrightarrow>
      \<exists>d. view (ow_outbox w) i = Some d \<and> od_status d = PENDING \<and> od_attempts d' = od_attempts d + 1 \<and>
        rescheduled (oe_clock env) (ow_reads u) d'"
proof -
  let ?w = "w\<lparr>ow_reads := Suc (ow_reads w)\<rparr>"
  define ds where "ds = ob_due ops (oe_clock env (ow_reads w)) limit (ow_outbox w)"
  have l: "0 \<le> limit" using limit by simp
  obtain es where es: "ds = take (nat limit) es" "distinct (map od_id es)"
    "set es = {d \<in> ran (view (ow_outbox w)). is_due (oe_clock env (ow_reads w)) d}"
    using due [OF assms(3) l, of "oe_clock env (ow_reads w)"] by (auto simp: ds_def)
  have "od_id ` set es \<subseteq> dom (view (ow_outbox w))"
    using view_id [OF assms(3)] by (auto simp: es(3) ran_def)
  then have "card (od_id ` set es) \<le> card (dom (view (ow_outbox w)))" using fin by (rule card_mono [rotated])
  moreover have "card (od_id ` set es) = length es" using es(2) by (metis distinct_card length_map list.set_map)
  ultimately have "ds = es" using es(1) limit by simp
  then have due_set: "set ds = {d \<in> ran (view (ow_outbox w)). is_due (oe_clock env (ow_reads w)) d}" using es(3) by simp
  have rows: "view (ow_outbox ?w) (od_id d) = Some d" if "d \<in> set ds" for d
    using that due_rows(2) [OF assms(3) l, of d "oe_clock env (ow_reads w)"] by (simp add: ds_def)
  have dist: "distinct (map od_id ds)" using es(2) \<open>ds = es\<close> by simp
  have "ok (ow_outbox ?w)" using assms(3) by simp
  from deliver_rows_all [OF assms(1,2) this dist rows] obtain sm u' where
    r: "deliver_rows env ops eops eps ds [] \<lparr>sm_considered = int (length ds), sm_delivered = 0, sm_retried = 0, sm_dead = 0\<rparr> ?w =
        (Inr sm, u')" and u': "ok (ow_outbox u')" "ow_reads ?w \<le> ow_reads u'"
      "dom (view (ow_outbox u')) = dom (view (ow_outbox ?w))"
      "\<And>i. i \<notin> od_id ` set ds \<Longrightarrow> view (ow_outbox u') i = view (ow_outbox ?w) i"
      "\<And>d. d \<in> set ds \<Longrightarrow> \<exists>d'. view (ow_outbox u') (od_id d) = Some d' \<and> od_attempts d' = od_attempts d + 1 \<and>
         rescheduled (oe_clock env) (ow_reads u') d'"
    by blast
  have u: "u = u'" using r by (simp add: u_def deliver_due_def read_clock_def ds_def)
  show "ok (ow_outbox u)" "dom (view (ow_outbox u)) = dom (view (ow_outbox w))" "ow_reads w \<le> ow_reads u"
    using u' by (simp_all add: u)
  show "\<exists>d. view (ow_outbox w) i = Some d \<and> od_status d = PENDING \<and> od_attempts d' = od_attempts d + 1 \<and>
      rescheduled (oe_clock env) (ow_reads u) d'"
    if d': "view (ow_outbox u) i = Some d'" "od_status d' = PENDING"
  proof (cases "i \<in> od_id ` set ds")
    case True
    then obtain d where d: "d \<in> set ds" "i = od_id d" by blast
    then show ?thesis using u'(5) [OF d(1)] rows [OF d(1)] d' due_set by (auto simp: u is_due_def)
  next
    case False
    then have w: "view (ow_outbox w) i = Some d'" using u'(4) d' by (simp add: u)
    then have "d' \<in> set ds" using all_due w d'(2) by (auto simp: due_set is_due_def ran_def)
    then have False using False view_id [OF assms(3) w] by blast
    then show ?thesis ..
  qed
qed

end

fun is_enqueue :: "(nat \<Rightarrow> int) \<Rightarrow> ('ip, 'e) outbox_call \<Rightarrow> bool" where
  "is_enqueue clk (Enqueue env eps event) = (oe_clock env = clk)"
| "is_enqueue clk c = False"

text \<open>A sweep with the clock, the bound and a sufficient limit, that does not raise.\<close>

fun is_full_sweep :: "'e endpoint_store_ops \<Rightarrow> (nat \<Rightarrow> int) \<Rightarrow> int \<Rightarrow> nat \<Rightarrow> ('ip, 'e) outbox_call \<Rightarrow> bool" where
  "is_full_sweep eops clk m n (Sweep env eps limit) =
     (oe_clock env = clk \<and> oe_max env = m \<and> int n \<le> limit \<and> env_returns env \<and> listing_returns eops eps)"
| "is_full_sweep eops clk m n c = False"

text \<open>Each call starts at least the longest backoff after every earlier reading of the clock.\<close>

primrec spaced ::
  "'o outbox_ops \<Rightarrow> 'e endpoint_store_ops \<Rightarrow> (nat \<Rightarrow> int) \<Rightarrow> ('ip, 'e) outbox_call list \<Rightarrow> 'o outbox_world \<Rightarrow> bool" where
  "spaced ops eops clk [] w = True"
| "spaced ops eops clk (c # cs) w =
     (list_all (\<lambda>j. clk j + BACKOFF_CAP_SECONDS \<le> clk (ow_reads w)) [0..<ow_reads w] \<and>
      spaced ops eops clk cs (outbox_step ops eops c w))"

definition pending_inv ::
  "('o \<Rightarrow> string \<Rightarrow> outbox_delivery option) \<Rightarrow> (nat \<Rightarrow> int) \<Rightarrow> nat \<Rightarrow> 'o outbox_world \<Rightarrow> bool" where
  "pending_inv vw clk n w \<longleftrightarrow> (\<forall>i d. vw (ow_outbox w) i = Some d \<longrightarrow> od_status d = PENDING \<longrightarrow>
     int n \<le> od_attempts d \<and> rescheduled clk (ow_reads w) d)"

context webhook_outbox begin

lemma enqueue_loop_pending:
  "ok (ow_outbox w) \<Longrightarrow> pending_inv view clk 0 w \<Longrightarrow> j < ow_reads w \<Longrightarrow>
     pending_inv view clk 0 (snd (enqueue_loop ops (clk j) event eps queued w)) \<and>
     ow_reads (snd (enqueue_loop ops (clk j) event eps queued w)) = ow_reads w"
proof (induction eps arbitrary: queued w)
  case (Cons ep eps)
  let ?d = "new_delivery (clk j) event ep"
  obtain b o' where e: "ob_enqueue ops ?d (ow_outbox w) = (b, o')" by fastforce
  have o': "ok o'" "view o' = (if view (ow_outbox w) (od_id ?d) = None then (view (ow_outbox w))(od_id ?d \<mapsto> ?d) else view (ow_outbox w))"
    using Cons.prems enqueue_ok [of "ow_outbox w" ?d] enqueue_view [of "ow_outbox w" ?d] by (simp_all add: e)
  have "rescheduled clk (ow_reads w) ?d" "od_attempts ?d = 0"
    using Cons.prems(3) by (auto simp: rescheduled_def new_delivery_def BACKOFF_CAP_SECONDS_def intro!: exI [of _ j])
  then have "pending_inv view clk 0 (w\<lparr>ow_outbox := o'\<rparr>)"
    using Cons.prems(2) o'(2) by (auto simp: pending_inv_def)
  then show ?case using Cons.IH [of "w\<lparr>ow_outbox := o'\<rparr>"] Cons.IH [of w] Cons.prems o'(1) by (simp add: e)
qed simp

lemma enqueues_pending:
  "world_inv ok view m (\<lambda>_. 0) w \<Longrightarrow> pending_inv view clk 0 w \<Longrightarrow> list_all (is_enqueue clk) calls \<Longrightarrow>
     world_inv ok view m (\<lambda>_. 0) (fold (outbox_step ops eops) calls w) \<and>
     pending_inv view clk 0 (fold (outbox_step ops eops) calls w)"
proof (induction calls arbitrary: w)
  case (Cons c calls)
  from Cons.prems(3) obtain env eps event where c: "c = Enqueue env eps event" and clk: "oe_clock env = clk"
    by (cases c) auto
  have "world_inv ok view m (\<lambda>_. 0) (outbox_step ops eops c w)"
    using step_inv [OF Cons.prems(1), of c] by (simp add: c)
  moreover have "pending_inv view clk 0 (outbox_step ops eops c w)"
  proof -
    let ?w = "w\<lparr>ow_reads := Suc (ow_reads w)\<rparr>"
    have "pending_inv view clk 0 ?w" using Cons.prems(2) rescheduled_mono [of clk "ow_reads w" _ "Suc (ow_reads w)"]
      by (auto simp: pending_inv_def)
    moreover have "ok (ow_outbox ?w)" using Cons.prems(1) by (simp add: world_inv_def)
    ultimately show ?thesis using enqueue_loop_pending [of ?w clk "ow_reads w" event _ 0]
      by (cases "es_for_tenant eops (pe_tenant_id event) eps") (simp_all add: c enqueue_event_def read_clock_def clk)
  qed
  ultimately show ?case using Cons.IH Cons.prems(3) by simp
qed simp

lemma sweeps_pending:
  "ok (ow_outbox w) \<Longrightarrow> finite (dom (view (ow_outbox w))) \<Longrightarrow> card (dom (view (ow_outbox w))) \<le> rows \<Longrightarrow>
     pending_inv view clk n w \<Longrightarrow> list_all (is_full_sweep eops clk m rows) sweeps \<Longrightarrow> spaced ops eops clk sweeps w \<Longrightarrow>
     pending_inv view clk (n + length sweeps) (fold (outbox_step ops eops) sweeps w) \<and>
     dom (view (ow_outbox (fold (outbox_step ops eops) sweeps w))) = dom (view (ow_outbox w))"
proof (induction sweeps arbitrary: n w)
  case (Cons c sweeps)
  from Cons.prems(5) obtain env eps limit where c: "c = Sweep env eps limit" "oe_clock env = clk" "int rows \<le> limit"
    "env_returns env" "listing_returns eops eps"
    by (cases c) auto
  have early: "clk j + BACKOFF_CAP_SECONDS \<le> clk (ow_reads w)" if "j < ow_reads w" for j
    using Cons.prems(6) that by (simp add: list_all_iff)
  have due_now: "od_next_attempt_at d \<le> oe_clock env (ow_reads w)"
    if pd: "view (ow_outbox w) i = Some d" "od_status d = PENDING" for i d
  proof -
    obtain j where "j < ow_reads w" "od_next_attempt_at d \<le> clk j + BACKOFF_CAP_SECONDS"
      using Cons.prems(4) pd unfolding pending_inv_def rescheduled_def by blast
    with early [of j] show ?thesis by (simp add: c)
  qed
  then have all_due: "\<forall>i d. view (ow_outbox w) i = Some d \<longrightarrow> od_status d = PENDING \<longrightarrow>
      od_next_attempt_at d \<le> oe_clock env (ow_reads w)" by blast
  have limit: "int (card (dom (view (ow_outbox w)))) \<le> limit" using Cons.prems(3) c(3) by linarith
  note sw = sweep_attempts [where eops = eops and eps = eps, OF c(4,5) Cons.prems(1,2) limit all_due]
  let ?u = "outbox_step ops eops c w"
  have u: "ok (ow_outbox ?u)" "dom (view (ow_outbox ?u)) = dom (view (ow_outbox w))" using sw(1,2) by (simp_all add: c(1))
  have "pending_inv view clk (Suc n) ?u"
    unfolding pending_inv_def
  proof (intro allI impI)
    fix i d' assume "view (ow_outbox ?u) i = Some d'" "od_status d' = PENDING"
    then obtain d where d: "view (ow_outbox w) i = Some d" "od_status d = PENDING" "od_attempts d' = od_attempts d + 1"
      "rescheduled clk (ow_reads ?u) d'"
      using sw(4) by (auto simp: c(1,2))
    then show "int (Suc n) \<le> od_attempts d' \<and> rescheduled clk (ow_reads ?u) d'"
      using Cons.prems(4) by (auto simp: pending_inv_def)
  qed
  from Cons.IH [OF u(1) _ _ this] Cons.prems u(2) show ?case by simp
qed simp

text \<open>Enqueued deliveries all end as delivered or dead, each delivered one by one accepted request.\<close>

lemma drained:
  assumes "ok s" "view s = Map.empty" and enq: "list_all (is_enqueue clk) events"
    and w: "w = fold (outbox_step ops eops) events \<lparr>ow_outbox = s, ow_reads = 0, ow_posts = []\<rparr>"
    and fin: "finite (dom (view (ow_outbox w)))" "card (dom (view (ow_outbox w))) \<le> rows"
    and sw: "list_all (is_full_sweep eops clk m rows) sweeps" "spaced ops eops clk sweeps w" "nat (max 1 m) \<le> length sweeps"
    and u: "u = fold (outbox_step ops eops) sweeps w"
  shows "dom (view (ow_outbox u)) = dom (view (ow_outbox w)) \<and>
    (\<forall>i d. view (ow_outbox u) i = Some d \<longrightarrow>
       od_status d = DELIVERED \<and> times_accepted (letter_of d) (ow_posts u) = 1 \<or>
       od_status d = DEAD \<and> times_accepted (letter_of d) (ow_posts u) = 0)"
proof -
  let ?s = "\<lparr>ow_outbox = s, ow_reads = 0, ow_posts = []\<rparr>"
  have "world_inv ok view m (\<lambda>_. 0) ?s" "pending_inv view clk 0 ?s"
    using assms(1,2) by (simp_all add: world_inv_def outbox_inv_def pending_inv_def)
  from enqueues_pending [OF this enq] have w0: "world_inv ok view m (\<lambda>_. 0) w" "pending_inv view clk 0 w"
    by (simp_all add: w)
  have okw: "ok (ow_outbox w)" using w0(1) by (simp add: world_inv_def)
  from sweeps_pending [OF okw fin w0(2) sw(1,2)]
  have p: "pending_inv view clk (length sweeps) u" and d: "dom (view (ow_outbox u)) = dom (view (ow_outbox w))"
    by (simp_all add: u)
  have calls: "list_all (call_ok m) sweeps"
  proof -
    have "call_ok m c" if "is_full_sweep eops clk m rows c" for c using that by (cases c) auto
    then show ?thesis using sw(1) by (auto simp: list_all_iff)
  qed
  have "\<not> is_replay i c" if "is_full_sweep eops clk m rows c" for c i using that by (cases c) auto
  then have "filter (is_replay i) sweeps = []" for i using sw(1) by (auto simp: list_all_iff filter_empty_conv)
  with run_inv [OF w0(1) calls] have inv: "outbox_inv m (\<lambda>_. 0) (view (ow_outbox u)) (ow_posts u)"
    by (simp add: world_inv_def u)
  have "od_status x = DELIVERED \<and> times_accepted (letter_of x) (ow_posts u) = 1 \<or>
       od_status x = DEAD \<and> times_accepted (letter_of x) (ow_posts u) = 0" if x: "view (ow_outbox u) i = Some x" for i x
  proof -
    have r: "row_ok m 0 x (ow_posts u)" using outbox_invD [OF inv x] by simp
    have "od_status x \<noteq> PENDING"
    proof
      assume pend: "od_status x = PENDING"
      then have "int (length sweeps) \<le> od_attempts x" using p x by (auto simp: pending_inv_def)
      moreover have "od_attempts x + 1 \<le> max 1 m" using r pend by (simp add: row_ok_def)
      ultimately show False using sw(3) by linarith
    qed
    then show ?thesis using r by (auto simp: row_ok_def)
  qed
  with d show ?thesis by blast
qed

end

section \<open>Enqueueing again\<close>

context webhook_outbox begin

lemma enqueue_loop_none:
  assumes "ok (ow_outbox w)"
    and "\<And>ep. ep \<in> set eps \<Longrightarrow> wants ep (pe_type event) \<Longrightarrow>
      view (ow_outbox w) (letter_id (we_id ep) (pe_id event)) \<noteq> None"
  shows "\<exists>w'. enqueue_loop ops now event eps queued w = (Inr queued, w') \<and> view (ow_outbox w') = view (ow_outbox w)"
  using assms
proof (induction eps arbitrary: w)
  case (Cons ep eps)
  let ?d = "new_delivery now event ep"
  show ?case
  proof (cases "wants ep (pe_type event)")
    case True
    obtain b o' where e: "ob_enqueue ops ?d (ow_outbox w) = (b, o')" by fastforce
    have "view (ow_outbox w) (od_id ?d) \<noteq> None" using Cons.prems(2) [of ep] True by (simp add: new_delivery_def)
    then have "\<not> b" "ok o'" "view o' = view (ow_outbox w)"
      using enqueue_new [OF Cons.prems(1), of ?d] enqueue_ok [OF Cons.prems(1), of ?d] enqueue_view [OF Cons.prems(1), of ?d]
      by (auto simp: e)
    then show ?thesis using Cons.IH [of "w\<lparr>ow_outbox := o'\<rparr>"] Cons.prems(2) True by (simp add: e)
  next
    case False
    then show ?thesis using Cons.IH [of w] Cons.prems by simp
  qed
qed simp

lemma enqueue_loop_covers:
  assumes "ok (ow_outbox w)"
  shows "\<exists>n w'. enqueue_loop ops now event eps queued w = (Inr n, w') \<and> ok (ow_outbox w') \<and> ow_reads w' = ow_reads w \<and>
    dom (view (ow_outbox w)) \<subseteq> dom (view (ow_outbox w')) \<and>
    (\<forall>ep\<in>set eps. wants ep (pe_type event) \<longrightarrow> view (ow_outbox w') (letter_id (we_id ep) (pe_id event)) \<noteq> None)"
  using assms
proof (induction eps arbitrary: w queued)
  case (Cons ep eps)
  let ?d = "new_delivery now event ep"
  show ?case
  proof (cases "wants ep (pe_type event)")
    case True
    obtain b o' where e: "ob_enqueue ops ?d (ow_outbox w) = (b, o')" by fastforce
    have id: "od_id ?d = letter_id (we_id ep) (pe_id event)" by (simp add: new_delivery_def)
    have o': "ok o'" "dom (view (ow_outbox w)) \<subseteq> dom (view o')" "view o' (letter_id (we_id ep) (pe_id event)) \<noteq> None"
      using enqueue_ok [OF Cons.prems, of ?d] enqueue_view [OF Cons.prems, of ?d]
      by (auto simp: e id split: if_splits)
    from Cons.IH [of "w\<lparr>ow_outbox := o'\<rparr>" "if b then queued + 1 else queued"] o'(1) obtain n w' where
      "enqueue_loop ops now event eps (if b then queued + 1 else queued) (w\<lparr>ow_outbox := o'\<rparr>) = (Inr n, w')"
      "ok (ow_outbox w')" "ow_reads w' = ow_reads w" "dom (view o') \<subseteq> dom (view (ow_outbox w'))"
      "\<forall>ep\<in>set eps. wants ep (pe_type event) \<longrightarrow> view (ow_outbox w') (letter_id (we_id ep) (pe_id event)) \<noteq> None"
      by auto
    moreover from this o' have "dom (view (ow_outbox w)) \<subseteq> dom (view (ow_outbox w'))"
      "view (ow_outbox w') (letter_id (we_id ep) (pe_id event)) \<noteq> None" by blast+
    ultimately show ?thesis using True by (simp add: e del: dom_eq_empty_conv)
  next
    case False
    then show ?thesis using Cons.IH [of w queued] Cons.prems by simp
  qed
qed simp

text \<open>An event with the id and the type of one enqueued before queues nothing, whatever its data.\<close>

lemma enqueue_again:
  assumes "ok (ow_outbox w)" "enqueue_event env ops eops eps event w = (Inr n, w1)"
    and "pe_id event' = pe_id event" "pe_type event' = pe_type event" "pe_tenant_id event' = pe_tenant_id event"
  shows "\<exists>w2. enqueue_event env' ops eops eps event' (w1\<lparr>ow_reads := r\<rparr>) = (Inr 0, w2) \<and> view (ow_outbox w2) = view (ow_outbox w1)"
proof (cases "es_for_tenant eops (pe_tenant_id event) eps")
  case (Inr endpoints)
  obtain n' w' where l: "enqueue_loop ops (oe_clock env (ow_reads w)) event endpoints 0 (w\<lparr>ow_reads := Suc (ow_reads w)\<rparr>) = (Inr n', w')"
      "ok (ow_outbox w')"
      "\<forall>ep\<in>set endpoints. wants ep (pe_type event) \<longrightarrow> view (ow_outbox w') (letter_id (we_id ep) (pe_id event)) \<noteq> None"
    using enqueue_loop_covers [of "w\<lparr>ow_reads := Suc (ow_reads w)\<rparr>" "oe_clock env (ow_reads w)" event endpoints 0] assms(1) by auto
  then have w1: "w1 = w'" using assms(2) Inr by (simp add: enqueue_event_def read_clock_def)
  have "\<exists>w2. enqueue_loop ops (oe_clock env' r) event' endpoints 0 (w1\<lparr>ow_reads := Suc r\<rparr>) = (Inr 0, w2) \<and>
      view (ow_outbox w2) = view (ow_outbox (w1\<lparr>ow_reads := Suc r\<rparr>))"
    using l(2,3) assms(3-) by (intro enqueue_loop_none) (auto simp: w1)
  then show ?thesis using Inr assms(5) by (simp add: enqueue_event_def read_clock_def)
qed (use assms(2) in \<open>simp add: enqueue_event_def read_clock_def\<close>)

end

section \<open>Properties\<close>

definition outbox_start :: "outbox_rows outbox_world" where
  "outbox_start = \<lparr>ow_outbox = [], ow_reads = 0, ow_posts = []\<rparr>"

definition example_env :: "nat outbox_env" where
  "example_env = \<lparr>oe_net = example_net, oe_allow_hosts = None,
     oe_http = (\<lambda>n url body headers. if n = 0 then Responded 500 else Responded 204),
     oe_hmac = (\<lambda>key message. key), oe_clock = (\<lambda>n. 4000 * int n), oe_max = 2\<rparr>"

definition example_event :: "string \<Rightarrow> platform_event" where
  "example_event tenant = close_sealed_event ''e1'' tenant 0 ''2026-01''"

lemma example_target: "validate_target example_net None ''https://a.example/in'' = Inr None"
  by (simp add: validate_target_def example_net_def LOOPBACK_NAMES_def is_blocked_ip_def ends_with_def example_lower Let_def)

text \<open>C14. Whatever is enqueued, swept and replayed, in any order and with any answers, exceptions included:
  an endpoint accepts the request for an event at most once more than its delivery is replayed, and
  at most the bound of attempts plus one for each replay are made.\<close>

theorem outbox_at_most_once:
  assumes "list_all (call_ok m) calls"
  shows "(let posts = ow_posts (fold (outbox_step sql_outbox eops) calls outbox_start);
              k = length (filter (is_replay (letter_id e v)) calls)
          in times_accepted (e, v) posts \<le> 1 + k \<and> int (times_posted (e, v) posts) \<le> max 1 m + int k)"
  using sql_ob.run_bounds [of "[]" m calls _ eops 0 _ e v] assms
  by (simp add: Let_def outbox_start_def outbox_ok_def)

theorem outbox_at_most_once_witness:
  "times_accepted (''hook'', ''e1'') (ow_posts (fold (outbox_step sql_outbox mem_endpoint_store)
     [Enqueue example_env [(''hook'', example_endpoint ''acme'')] (example_event ''acme''),
      Sweep example_env [(''hook'', example_endpoint ''acme'')] 100,
      Replay example_env ''hook:e1'', Sweep example_env [] 100] outbox_start)) \<le> 2"
  using outbox_at_most_once [of 2 "[Enqueue example_env [(''hook'', example_endpoint ''acme'')] (example_event ''acme''),
      Sweep example_env [(''hook'', example_endpoint ''acme'')] 100,
      Replay example_env ''hook:e1'', Sweep example_env [] 100]" mem_endpoint_store "''hook''" "''e1''"]
  by (simp add: example_env_def letter_id_def Let_def)

text \<open>C20. Every delivery enqueued ends as delivered, by exactly one accepted request, or as a dead letter
  that no request was accepted for, after as many full sweeps as attempts are allowed, each the
  longest backoff after the previous one. No delivery is lost.\<close>

theorem outbox_drains:
  assumes "list_all (is_enqueue clk) events"
    and "w = fold (outbox_step sql_outbox eops) events outbox_start"
    and "list_all (is_full_sweep eops clk m (length (ow_outbox w))) sweeps"
    and "spaced sql_outbox eops clk sweeps w" "nat (max 1 m) \<le> length sweeps"
  shows "(let u = fold (outbox_step sql_outbox eops) sweeps w
          in dom (map_of (ow_outbox u)) = dom (map_of (ow_outbox w)) \<and>
             (\<forall>i d. map_of (ow_outbox u) i = Some d \<longrightarrow>
               od_status d = DELIVERED \<and> times_accepted (letter_of d) (ow_posts u) = 1 \<or>
               od_status d = DEAD \<and> times_accepted (letter_of d) (ow_posts u) = 0))"
proof -
  have "card (dom (map_of (ow_outbox w))) \<le> card (set (map fst (ow_outbox w)))"
    by (simp add: dom_map_of_conv_image_fst)
  also have "\<dots> \<le> length (ow_outbox w)" by (metis card_length length_map)
  finally show ?thesis
    using sql_ob.drained [OF _ _ assms(1) assms(2) [unfolded outbox_start_def] _ _ assms(3-5) refl]
    by (simp add: outbox_ok_def finite_dom_map_of Let_def)
qed

lemma example_env_returns: "env_returns example_env"
  by (auto simp: env_returns_def example_env_def validate_target_def example_net_def Let_def split: option.split)

definition example_sweeps :: "(nat, mem_endpoints) outbox_call list" where
  "example_sweeps = replicate 2 (Sweep example_env [(''hook'', example_endpoint ''acme'')] 100)"

definition example_events :: "(nat, mem_endpoints) outbox_call list" where
  "example_events = [Enqueue example_env [(''hook'', example_endpoint ''acme'')] (example_event ''acme'')]"

lemma example_spaced:
  "spaced sql_outbox mem_endpoint_store (\<lambda>n. 4000 * int n) example_sweeps
     (fold (outbox_step sql_outbox mem_endpoint_store) example_events outbox_start)"
  by code_simp

lemma example_rows: "length (ow_outbox (fold (outbox_step sql_outbox mem_endpoint_store) example_events outbox_start)) = 1"
  by code_simp

theorem outbox_drains_witness:
  "dom (map_of (ow_outbox (fold (outbox_step sql_outbox mem_endpoint_store) example_sweeps
      (fold (outbox_step sql_outbox mem_endpoint_store) example_events outbox_start)))) =
   dom (map_of (ow_outbox (fold (outbox_step sql_outbox mem_endpoint_store) example_events outbox_start)))"
proof -
  have "list_all (is_enqueue (\<lambda>n. 4000 * int n)) example_events"
    by (simp add: example_events_def example_env_def)
  moreover have "list_all (is_full_sweep mem_endpoint_store (\<lambda>n. 4000 * int n) 2 1) example_sweeps"
    using example_env_returns
    by (simp add: example_sweeps_def numeral_2_eq_2 listing_returns_def mem_endpoint_store_def) (simp add: example_env_def)
  moreover have "nat (max 1 2) \<le> length example_sweeps" by (simp add: example_sweeps_def)
  ultimately show ?thesis
    using outbox_drains [OF _ refl _ example_spaced, of 2] by (simp add: example_rows Let_def)
qed

text \<open>The waits between attempts start at a minute, double, and stop at an hour.\<close>

theorem backoff_doubles:
  "backoff_seconds (int n + 1) BACKOFF_BASE_SECONDS BACKOFF_CAP_SECONDS =
     (if n < 6 then 60 * 2 ^ n else 3600)"
proof -
  have "60 * 2 ^ 6 \<le> (60 * 2 ^ n :: int)" if "6 \<le> n" using that by (intro mult_left_mono power_increasing) simp_all
  moreover have "60 * 2 ^ n \<le> (60 * 2 ^ 5 :: int)" if "n < 6" using that by (intro mult_left_mono power_increasing) simp_all
  ultimately show ?thesis by (auto simp: backoff_seconds_def BACKOFF_BASE_SECONDS_def BACKOFF_CAP_SECONDS_def)
qed

text \<open>Emitting events of one type for a tenant twice within a second queues the first only: their
  ids are equal, so the data of the second is never sent.\<close>

theorem same_second_event_lost:
  assumes "outbox_ok (ow_outbox w)"
    and "emit_event env sql_outbox eops eps tenant event_type data w = (Inr n, w1)"
    and "oe_clock env (ow_reads w1) = oe_clock env (ow_reads w)"
  shows "\<exists>w2. emit_event env sql_outbox eops eps tenant event_type data' w1 = (Inr 0, w2) \<and>
    map_of (ow_outbox w2) = map_of (ow_outbox w1)"
proof -
  let ?e = "\<lambda>dt. \<lparr>pe_id = tenant @ '':'' @ event_type @ '':'' @ str_int (oe_clock env (ow_reads w)), pe_type = event_type,
    pe_tenant_id = tenant, pe_at = oe_clock env (ow_reads w), pe_data = dt\<rparr>"
  have "enqueue_event env sql_outbox eops eps (?e data) (w\<lparr>ow_reads := Suc (ow_reads w)\<rparr>) = (Inr n, w1)"
    using assms(2) by (simp add: emit_event_def read_clock_def)
  from sql_ob.enqueue_again [OF _ this, of "?e data'" env "Suc (ow_reads w1)"] assms(1,3)
  show ?thesis by (simp add: emit_event_def read_clock_def)
qed

definition frozen_env :: "nat outbox_env" where
  "frozen_env = example_env\<lparr>oe_clock := \<lambda>_. 7\<rparr>"

theorem same_second_event_lost_witness:
  "\<exists>w2. emit_event frozen_env sql_outbox mem_endpoint_store [(''hook'', example_endpoint ''acme'')] ''acme'' ''close.sealed''
      [(''period'', JStr ''2026-02'')]
      (snd (emit_event frozen_env sql_outbox mem_endpoint_store [(''hook'', example_endpoint ''acme'')] ''acme''
         ''close.sealed'' [(''period'', JStr ''2026-01'')] outbox_start)) = (Inr 0, w2)"
proof -
  let ?m = "emit_event frozen_env sql_outbox mem_endpoint_store [(''hook'', example_endpoint ''acme'')] ''acme''
    ''close.sealed'' [(''period'', JStr ''2026-01'')] outbox_start"
  have "fst ?m = Inr 1" by code_simp
  then have "?m = (Inr 1, snd ?m)" by (cases ?m) simp
  from same_second_event_lost [OF _ this, of "[(''period'', JStr ''2026-02'')]"]
  show ?thesis by (auto simp: outbox_start_def outbox_ok_def frozen_env_def)
qed

text \<open>A tenant that registers an endpoint under an id another tenant uses takes it over: the other
  tenant no longer has it.\<close>

theorem endpoint_taken_over:
  assumes "integration_add nt mem_endpoint_store tenant secret i url events s = (Inr (EndpointAdded j secret'), s')"
    and "mem_endpoints_ok s" "other \<noteq> tenant"
  shows "es_get mem_endpoint_store j s' \<noteq> Inr None \<and>
    (\<exists>eps. es_for_tenant mem_endpoint_store other s' = Inr eps \<and> j \<notin> we_id ` set eps)"
proof -
  define ep where "ep = \<lparr>we_id = strip i, we_tenant_id = tenant, we_url = strip url, we_secret = secret,
    we_events = events_of_field events, we_active = True\<rparr>"
  have s': "s' = es_save mem_endpoint_store ep s" "j = we_id ep"
    using assms(1) by (auto simp: integration_add_def Let_def result_simps ep_def split: if_splits option.splits)
  have "es_get mem_endpoint_store j s' = Inr (Some ep)"
    using mem_eps.get_view [OF mem_eps.save_ok [OF assms(2)]] mem_eps.view_save [OF assms(2), of ep] by (simp add: s')
  moreover have "we_tenant_id ep \<noteq> other" using assms(3) by (simp add: ep_def)
  ultimately show ?thesis using mem_eps.save_takes_over [OF assms(2), of ep other] by (simp add: s')
qed

definition taken_over :: mem_endpoints where
  "taken_over = snd (integration_add example_net mem_endpoint_store ''zeta'' ''k'' ''hook'' ''https://a.example/in'' EventsOther
     [(''hook'', example_endpoint ''acme'')])"

lemma taken_over_eval:
  "integration_add example_net mem_endpoint_store ''zeta'' ''k'' ''hook'' ''https://a.example/in'' EventsOther
     [(''hook'', example_endpoint ''acme'')] = (Inr (EndpointAdded ''hook'' ''k''), taken_over)"
  "es_for_tenant mem_endpoint_store ''acme'' [(''hook'', example_endpoint ''acme'')] = Inr [example_endpoint ''acme'']"
  by code_simp+

theorem endpoint_taken_over_witness:
  "es_for_tenant mem_endpoint_store ''acme'' [(''hook'', example_endpoint ''acme'')] = Inr [example_endpoint ''acme''] \<and>
   (\<exists>eps. es_for_tenant mem_endpoint_store ''acme'' taken_over = Inr eps \<and> ''hook'' \<notin> we_id ` set eps)"
  using endpoint_taken_over [OF taken_over_eval(1), of "''acme''"] taken_over_eval(2)
  by (simp add: mem_endpoints_ok_def example_endpoint_def)

text \<open>Within one sweep a delivery is sent to the endpoint another delivery with the same endpoint id
  was sent to, whichever tenants they belong to: after a takeover, one tenant's event goes to the
  other tenant's target, under its secret.\<close>

theorem sweep_crosses_tenants:
  assumes "es_for_tenant eops (od_tenant_id b) eps = Inr endpoints"
    and "find (\<lambda>e. we_id e = od_endpoint_id b) endpoints = Some ep"
    and "validate_target (oe_net env) (oe_allow_hosts env) (we_url ep) = Inr None"
    and "od_endpoint_id a = od_endpoint_id b"
  shows "list_ex (\<lambda>p. hp_url p = we_url ep \<and> hp_body p = od_body a \<and>
      hp_headers p = delivery_headers (oe_hmac env) (od_body a) (we_secret ep) (od_event_id a))
    (ow_posts (snd (deliver_rows env ops eops eps [b, a] [] sm w)))"
proof -
  have att: "\<exists>d' w' p. attempt env d (Some ep) w = (Inr d', w') \<and> ow_posts w' = ow_posts w @ [p] \<and> hp_url p = we_url ep \<and>
      hp_body p = od_body d \<and> hp_headers p = delivery_headers (oe_hmac env) (od_body d) (we_secret ep) (od_event_id d)"
    for d and w :: "'o outbox_world"
  proof -
    obtain out w' p where post: "post_letter env d ep w = (Inr out, w')" "ow_posts w' = ow_posts w @ [p]" "hp_url p = we_url ep"
      "hp_body p = od_body d" "hp_headers p = delivery_headers (oe_hmac env) (od_body d) (we_secret ep) (od_event_id d)"
      by (auto simp: post_letter_def Let_def)
    show ?thesis
    proof (cases "accepted out")
      case True
      then show ?thesis using assms(3) post by (auto simp: attempt_def Let_def accepted_def split: http_outcome.splits)
    next
      case False
      then obtain st err where "attempt env d (Some ep) w = fail_delivery env d (od_attempts d + 1) st err w'"
        using assms(3) post(1) by (cases out) (auto simp: attempt_def Let_def accepted_def)
      then show ?thesis using fail_returns [of env d "od_attempts d + 1" st err w'] post by auto
    qed
  qed
  have b: "endpoint_for eops eps b [] = Inr (Some ep, [(od_endpoint_id b, ep)])"
    using assms(1,2) by (simp add: endpoint_for_def)
  have a: "endpoint_for eops eps a [(od_endpoint_id b, ep)] = Inr (Some ep, [(od_endpoint_id b, ep)])"
    using assms(4) by (simp add: endpoint_for_def)
  obtain d1 w1 where 1: "attempt env b (Some ep) w = (Inr d1, w1)" using att by blast
  let ?w = "w1\<lparr>ow_outbox := ob_update ops d1 (ow_outbox w1)\<rparr>"
  obtain d2 w2 p where 2: "attempt env a (Some ep) ?w = (Inr d2, w2)" "ow_posts w2 = ow_posts ?w @ [p]" "hp_url p = we_url ep"
    "hp_body p = od_body a" "hp_headers p = delivery_headers (oe_hmac env) (od_body a) (we_secret ep) (od_event_id a)"
    using att by blast
  then show ?thesis by (simp add: b a 1)
qed

definition example_delivery :: "string \<Rightarrow> outbox_delivery" where
  "example_delivery tenant = new_delivery 0 ((example_event tenant)\<lparr>pe_id := tenant\<rparr>) (example_endpoint tenant)"

theorem sweep_crosses_tenants_witness:
  "es_for_tenant mem_endpoint_store ''acme'' taken_over = Inr [] \<and>
   od_tenant_id (example_delivery ''acme'') = ''acme'' \<and>
   list_ex (\<lambda>p. hp_url p = ''https://a.example/in'' \<and> hp_body p = od_body (example_delivery ''acme''))
     (ow_posts (snd (deliver_rows example_env sql_outbox mem_endpoint_store taken_over
        [example_delivery ''zeta'', example_delivery ''acme''] [] \<lparr>sm_considered = 2, sm_delivered = 0, sm_retried = 0, sm_dead = 0\<rparr>
        outbox_start)))"
proof -
  define ep where "ep = the (mem_get_endpoint ''hook'' taken_over)"
  have e: "es_for_tenant mem_endpoint_store ''acme'' taken_over = Inr []"
    "es_for_tenant mem_endpoint_store (od_tenant_id (example_delivery ''zeta'')) taken_over = Inr [ep]"
    "find (\<lambda>e. we_id e = od_endpoint_id (example_delivery ''zeta'')) [ep] = Some ep"
    "we_url ep = ''https://a.example/in''" "od_tenant_id (example_delivery ''acme'') = ''acme''"
    "od_endpoint_id (example_delivery ''acme'') = od_endpoint_id (example_delivery ''zeta'')"
    unfolding ep_def by code_simp+
  have "validate_target (oe_net example_env) (oe_allow_hosts example_env) (we_url ep) = Inr None"
    using example_target by (simp add: e(4) example_env_def)
  from sweep_crosses_tenants [OF e(2,3) this e(6)] e(1,4,5) show ?thesis
    unfolding list_ex_iff by metis
qed

text \<open>Two workers that read the same due delivery both send it: nothing claims a delivery before its
  request, and the first outcome does not stop the second.\<close>

theorem two_workers_send_twice:
  assumes "endpoint_for eops eps d [] = Inr (Some ep, cache)"
    and "validate_target (oe_net env) (oe_allow_hosts env) (we_url ep) = Inr None"
    and "\<And>n headers. accepted (oe_http env n (we_url ep) (od_body d) headers)"
  shows "times_accepted (letter_of d)
      (ow_posts (snd (seqm (deliver_rows env ops eops eps [d] [] sm) (deliver_rows env ops eops eps [d] [] sm) w))) =
    times_accepted (letter_of d) (ow_posts w) + 2"
proof -
  have one: "\<exists>sm' w'. deliver_rows env ops eops eps [d] [] sm w = (Inr sm', w') \<and>
      times_accepted (letter_of d) (ow_posts w') = times_accepted (letter_of d) (ow_posts w) + 1" for w
  proof -
    let ?h = "delivery_headers (oe_hmac env) (od_body d) (we_secret ep) (od_event_id d)"
    from assms(3) [of "length (ow_posts w)" ?h] show ?thesis
      using assms(1,2) by (auto simp: attempt_def Let_def post_letter_def accepted_def letter_of_def split: http_outcome.splits)
  qed
  obtain sm1 w1 where 1: "deliver_rows env ops eops eps [d] [] sm w = (Inr sm1, w1)"
    "times_accepted (letter_of d) (ow_posts w1) = times_accepted (letter_of d) (ow_posts w) + 1" using one by blast
  obtain sm2 w2 where 2: "deliver_rows env ops eops eps [d] [] sm w1 = (Inr sm2, w2)"
    "times_accepted (letter_of d) (ow_posts w2) = times_accepted (letter_of d) (ow_posts w1) + 1" using one by blast
  show ?thesis using 1 2 by (simp del: deliver_rows.simps)
qed

theorem two_workers_send_twice_witness:
  "times_accepted (letter_of (example_delivery ''zeta''))
     (ow_posts (snd (seqm
        (deliver_rows (example_env\<lparr>oe_http := \<lambda>n url body headers. Responded 200\<rparr>) sql_outbox mem_endpoint_store
           [(''hook'', example_endpoint ''zeta'')] [example_delivery ''zeta''] [] \<lparr>sm_considered = 1, sm_delivered = 0, sm_retried = 0, sm_dead = 0\<rparr>)
        (deliver_rows (example_env\<lparr>oe_http := \<lambda>n url body headers. Responded 200\<rparr>) sql_outbox mem_endpoint_store
           [(''hook'', example_endpoint ''zeta'')] [example_delivery ''zeta''] [] \<lparr>sm_considered = 1, sm_delivered = 0, sm_retried = 0, sm_dead = 0\<rparr>)
        outbox_start))) = 2"
proof -
  have "endpoint_for mem_endpoint_store [(''hook'', example_endpoint ''zeta'')] (example_delivery ''zeta'') [] =
      Inr (Some (example_endpoint ''zeta''), [(''hook'', example_endpoint ''zeta'')])" by code_simp
  moreover have "validate_target (oe_net (example_env\<lparr>oe_http := \<lambda>n url body headers. Responded 200\<rparr>))
      (oe_allow_hosts (example_env\<lparr>oe_http := \<lambda>n url body headers. Responded 200\<rparr>)) (we_url (example_endpoint ''zeta'')) = Inr None"
    using example_target by (simp add: example_env_def example_endpoint_def)
  ultimately show ?thesis
    by (subst two_workers_send_twice) (simp_all add: accepted_def outbox_start_def)
qed

end
