(* ===== verification/Briefing.thy ===== *)
theory Briefing
  imports Forecast
begin

text \<open>
  \<open>packages/briefing/src/rgnr8_briefing\<close>: the weekly briefing assembled from a forecast
  (\<open>models.py\<close>, \<open>build.py\<close>), the validator that recomputes every number of it (\<open>validate.py\<close>),
  the comparison with actuals (\<open>variance.py\<close>) and the plain text of the owner's e-mail
  (\<open>render.py\<close>).

  The lemmas show that a briefing built from a forecast in US dollars passes the validator, and
  that the validator raises on every other currency as soon as there is a cash flow.
\<close>

section \<open>Briefings\<close>

datatype status_level = STABLE | WATCH_LEVEL | AT_RISK_LEVEL

text \<open>\<open>Evidence\<close> with its kind.\<close>

datatype evidence_kind = FieldEvidence | FlowsEvidence

record evidence =
  ev_kind :: evidence_kind
  ev_field :: "string option"
  ev_flow_seqs :: "int list"
  ev_note :: string

definition field_evidence :: "string \<Rightarrow> evidence" where
  "field_evidence f = \<lparr>ev_kind = FieldEvidence, ev_field = Some f, ev_flow_seqs = [], ev_note = []\<rparr>"

definition flows_evidence :: "int list \<Rightarrow> evidence" where
  "flows_evidence ss = \<lparr>ev_kind = FlowsEvidence, ev_field = None, ev_flow_seqs = ss, ev_note = []\<rparr>"

record fact =
  fa_key :: string
  fa_label :: string
  fa_evidence :: evidence
  fa_amount :: "money option"
  fa_text :: "string option"
  fa_confidence :: "int option"

record driver =
  dv_category :: category
  dv_label :: string
  dv_direction :: direction
  dv_amount :: money
  dv_share_bps :: int
  dv_evidence :: evidence

record week_glance =
  wg_index :: int
  wg_start :: date
  wg_closing :: money
  wg_status :: status_level
  wg_confidence :: int

record weekly_briefing =
  wb_as_of :: date
  wb_currency :: string
  wb_period_label :: string
  wb_status :: status_level
  wb_status_reason :: string
  wb_headline :: string
  wb_primary_action :: "string option"
  wb_facts :: "fact list"
  wb_drivers :: "driver list"
  wb_week_glance :: "week_glance list"
  wb_data_quality :: "string list"
  wb_overall_confidence :: int
  wb_version_id :: string

record violation =
  vi_where :: string
  vi_message :: string
  vi_stated :: "money option"
  vi_expected :: "money option"

section \<open>Building\<close>

definition WATCH_CUSHION_BPS :: int where
  "WATCH_CUSHION_BPS = 1500"

definition WATCH_CONFIDENCE :: int where
  "WATCH_CONFIDENCE = 60"

definition status_for_balance :: "money \<Rightarrow> money \<Rightarrow> money \<Rightarrow> status_level res" where
  "status_for_balance closing fl watch_band =
     (if closing < fl then Inr AT_RISK_LEVEL
      else res_bind (money_sub closing fl) (\<lambda>over. Inr (if over < watch_band then WATCH_LEVEL else STABLE)))"

text \<open>\<open>max(candidates, key=lambda f: (amount, -seq))\<close>.\<close>

definition largest_key :: "cash_flow \<Rightarrow> int \<times> int" where
  "largest_key f = (minor_units (amount f), - seq f)"

definition largest_flow :: "cash_flow list \<Rightarrow> direction \<Rightarrow> cash_flow option" where
  "largest_flow flows dir =
     (case filter (\<lambda>f. direction f = dir) flows of [] \<Rightarrow> None | f # fs \<Rightarrow> Some (max_by largest_key f fs))"

text \<open>\<open>str.title\<close> of the category with its underscores as spaces.\<close>

definition ascii_upper :: "string \<Rightarrow> string" where
  "ascii_upper s = map (\<lambda>c. let n = of_char c :: nat in if 97 \<le> n \<and> n \<le> 122 then char_of (n - 32) else c) s"

definition is_letter :: "char \<Rightarrow> bool" where
  "is_letter c = (let n = of_char c :: nat in (65 \<le> n \<and> n \<le> 90) \<or> (97 \<le> n \<and> n \<le> 122))"

fun title_from :: "bool \<Rightarrow> string \<Rightarrow> string" where
  "title_from _ [] = []"
| "title_from inside (c # s) = (if inside then ascii_lower [c] else ascii_upper [c]) @ title_from (is_letter c) s"

definition category_label :: "category \<Rightarrow> string" where
  "category_label c = title_from False (map (\<lambda>x. if x = CHR ''_'' then CHR '' '' else x) (category_value c))"

text \<open>The flows of each category, in the order of the first flow of each.\<close>

definition add_to_category :: "cash_flow \<Rightarrow> (category \<times> cash_flow list) list \<Rightarrow> (category \<times> cash_flow list) list" where
  "add_to_category f d =
     (if direction f = OUTFLOW
      then AList.update (category f) ((case map_of d (category f) of Some fs \<Rightarrow> fs | None \<Rightarrow> []) @ [f]) d
      else d)"

definition category_driver :: "money \<Rightarrow> string \<Rightarrow> category \<times> cash_flow list \<Rightarrow> driver" where
  "category_driver total_out ccy = (\<lambda>(cat, fs).
     let total = Money (\<Sum>f\<leftarrow>fs. minor_units (amount f)) ccy
     in \<lparr>dv_category = cat, dv_label = category_label cat, dv_direction = OUTFLOW, dv_amount = total,
         dv_share_bps = (if 0 < minor_units total_out
           then round_half_even (minor_units total * 10000) (minor_units total_out) else 0),
         dv_evidence = flows_evidence (sort (map seq fs))\<rparr>)"

definition outflow_drivers :: "cash_flow list \<Rightarrow> money \<Rightarrow> string \<Rightarrow> nat \<Rightarrow> driver list" where
  "outflow_drivers flows total_out ccy n =
     take n (sort_key_reverse (\<lambda>d. minor_units (dv_amount d))
       (map (category_driver total_out ccy) (fold add_to_category flows [])))"

definition briefing_status :: "forecast_result \<Rightarrow> money \<Rightarrow> money \<Rightarrow> (status_level \<times> string) res" where
  "briefing_status fc watch_band cushion =
     (let p = fr_projection fc; br = pj_breach p; fl = pj_effective_floor p
      in if br_breached br then
           res_bind (format_money fl) (\<lambda>m.
             Inr (AT_RISK_LEVEL, ''Projected to fall below the '' @ m @ '' floor in week '' @
               (case br_weeks_until br of Some wk \<Rightarrow> str_int wk | None \<Rightarrow> ''None'') @ ''.''))
         else if cushion < watch_band \<or> fr_overall_confidence fc < WATCH_CONFIDENCE \<or> fr_data_quality fc \<noteq> [] then
           res_bind (if cushion < watch_band
               then res_bind (format_money cushion) (\<lambda>m. Inr [''cushion at the low point is only '' @ m]) else Inr []) (\<lambda>bits1.
             let bits = bits1 @
               (if fr_overall_confidence fc < WATCH_CONFIDENCE
                then [''confidence is '' @ str_int (fr_overall_confidence fc) @ ''/100''] else []) @
               (if fr_data_quality fc \<noteq> [] then [''there are open data-quality items''] else [])
             in Inr (WATCH_LEVEL, ''Stays above the floor, but '' @ join_sep ''; '' bits @ ''.''))
         else
           res_bind (format_money fl) (\<lambda>m.
             Inr (STABLE, ''Cash stays comfortably above the '' @ m @ '' floor for all '' @
               str_int (int (length (pj_weeks p))) @ '' weeks.'')))"

definition base_facts :: "forecast_result \<Rightarrow> money \<Rightarrow> fact list res" where
  "base_facts fc cushion =
     (let p = fr_projection fc; fl = pj_effective_floor p
      in res_bind (if is_positive (pj_restricted p)
             then res_bind (format_money (pj_restricted p)) (\<lambda>m. Inr (Some (''includes '' @ m @ '' restricted'')))
             else Inr None) (\<lambda>restricted_text.
         Inr [\<lparr>fa_key = ''cash_today'', fa_label = ''Cash available today'', fa_evidence = field_evidence ''opening_available'',
               fa_amount = Some (pj_opening_available p), fa_text = None, fa_confidence = None\<rparr>,
              \<lparr>fa_key = ''floor'', fa_label = ''Your minimum-cash floor'', fa_evidence = field_evidence ''effective_floor'',
               fa_amount = Some fl, fa_text = restricted_text, fa_confidence = None\<rparr>,
              \<lparr>fa_key = ''low_point'', fa_label = ''Projected low point'', fa_evidence = field_evidence ''trough_balance'',
               fa_amount = Some (ct_balance (pj_trough p)),
               fa_text = Some (''around '' @ isoformat (ct_on_date (pj_trough p))),
               fa_confidence = Some (fr_overall_confidence fc)\<rparr>,
              \<lparr>fa_key = ''cushion'', fa_label = ''Cushion at the low point'', fa_evidence = field_evidence ''cushion_at_trough'',
               fa_amount = Some cushion, fa_text = None, fa_confidence = None\<rparr>,
              \<lparr>fa_key = ''total_in'', fa_label = ''Money in over 13 weeks'', fa_evidence = field_evidence ''total_inflows'',
               fa_amount = Some (pj_total_inflows p), fa_text = None, fa_confidence = None\<rparr>,
              \<lparr>fa_key = ''total_out'', fa_label = ''Money out over 13 weeks'', fa_evidence = field_evidence ''total_outflows'',
               fa_amount = Some (pj_total_outflows p), fa_text = None, fa_confidence = None\<rparr>]))"

definition shortfall_facts :: "projection \<Rightarrow> fact list" where
  "shortfall_facts p =
     (case (if br_breached (pj_breach p) then br_first_date (pj_breach p) else None) of
        None \<Rightarrow> []
      | Some first \<Rightarrow>
          [\<lparr>fa_key = ''shortfall'', fa_label = ''Largest projected shortfall'', fa_evidence = field_evidence ''worst_shortfall'',
            fa_amount = Some (br_worst_shortfall (pj_breach p)),
            fa_text = Some (''first around '' @ isoformat first @ '' (week '' @
              (case br_weeks_until (pj_breach p) of Some wk \<Rightarrow> str_int wk | None \<Rightarrow> ''None'') @ '')''),
            fa_confidence = None\<rparr>])"

definition largest_facts :: "cash_flow list \<Rightarrow> fact list" where
  "largest_facts flows =
     (case largest_flow flows INFLOW of
        None \<Rightarrow> []
      | Some f \<Rightarrow>
          [\<lparr>fa_key = ''largest_receipt'', fa_label = ''Largest upcoming receipt'', fa_evidence = flows_evidence [seq f],
            fa_amount = Some (amount f),
            fa_text = Some ((case origin_id f of Some s \<Rightarrow> s | None \<Rightarrow> ''None'') @ '' on '' @ isoformat (on_date f)),
            fa_confidence = None\<rparr>]) @
     (case largest_flow flows OUTFLOW of
        None \<Rightarrow> []
      | Some f \<Rightarrow>
          [\<lparr>fa_key = ''largest_outflow'', fa_label = ''Largest upcoming outflow'', fa_evidence = flows_evidence [seq f],
            fa_amount = Some (amount f),
            fa_text = Some (category_value (category f) @ '' on '' @ isoformat (on_date f)),
            fa_confidence = None\<rparr>])"

definition glance_of :: "money \<Rightarrow> money \<Rightarrow> week_line \<Rightarrow> week_glance res" where
  "glance_of fl watch_band w =
     res_bind (status_for_balance (wl_closing w) fl watch_band) (\<lambda>st.
       Inr \<lparr>wg_index = wl_index w, wg_start = wl_start w, wg_closing = wl_closing w, wg_status = st,
            wg_confidence = wl_confidence w\<rparr>)"

definition en_dash :: string where
  "en_dash = [CHR 0xE2, CHR 0x80, CHR 0x93]"

definition build_briefing :: "forecast_result \<Rightarrow> weekly_briefing res" where
  "build_briefing fc =
     (let p = fr_projection fc; fl = pj_effective_floor p
      in res_bind (scale_by fl WATCH_CUSHION_BPS 10000) (\<lambda>watch_band.
         res_bind (money_sub (ct_balance (pj_trough p)) fl) (\<lambda>cushion.
         res_bind (briefing_status fc watch_band cushion) (\<lambda>(status, reason).
         res_bind (base_facts fc cushion) (\<lambda>facts.
         res_bind (map_res (glance_of fl watch_band) (pj_weeks p)) (\<lambda>glance.
         if pj_weeks p = [] then Inl IndexError
         else Inr \<lparr>wb_as_of = pj_as_of p, wb_currency = pj_currency p,
           wb_period_label = isoformat (pj_as_of p) @ '' '' @ en_dash @ '' '' @ isoformat (wl_end (last (pj_weeks p))),
           wb_status = status, wb_status_reason = reason, wb_headline = fr_headline fc,
           wb_primary_action = fr_recommended_action fc,
           wb_facts = facts @ shortfall_facts p @ largest_facts (fr_flows fc),
           wb_drivers = outflow_drivers (fr_flows fc) (pj_total_outflows p) (pj_currency p) 3,
           wb_week_glance = glance, wb_data_quality = fr_data_quality fc,
           wb_overall_confidence = fr_overall_confidence fc, wb_version_id = version_id (fr_version fc)\<rparr>))))))"

section \<open>Validating\<close>

definition resolve_field :: "projection \<Rightarrow> string \<Rightarrow> money res" where
  "resolve_field p f =
     (if f = ''opening_available'' then Inr (pj_opening_available p)
      else if f = ''restricted'' then Inr (pj_restricted p)
      else if f = ''effective_floor'' then Inr (pj_effective_floor p)
      else if f = ''trough_balance'' then Inr (ct_balance (pj_trough p))
      else if f = ''ending_balance'' then Inr (pj_ending_balance p)
      else if f = ''total_inflows'' then Inr (pj_total_inflows p)
      else if f = ''total_outflows'' then Inr (pj_total_outflows p)
      else if f = ''worst_shortfall'' then Inr (br_worst_shortfall (pj_breach p))
      else if f = ''cushion_at_trough'' then money_sub (ct_balance (pj_trough p)) (pj_effective_floor p)
      else Inl (KeyError (''Unknown projection field: '' @ f)))"

text \<open>\<open>Money(0)\<close> with its default currency, and the dictionary \<open>by_seq\<close>, where the last flow of a
  number wins.\<close>

definition ZERO :: money where
  "ZERO = Money 0 ''USD''"

definition flow_by_seq :: "cash_flow list \<Rightarrow> int \<Rightarrow> cash_flow option" where
  "flow_by_seq flows i = map_of (rev (map (\<lambda>f. (seq f, f)) flows)) i"

definition add_evidence :: "cash_flow list \<Rightarrow> int \<Rightarrow> money \<Rightarrow> money res" where
  "add_evidence flows i acc =
     (case flow_by_seq flows i of
        None \<Rightarrow> Inl (KeyError (''evidence references unknown flow seq '' @ str_int i))
      | Some f \<Rightarrow> money_add acc (amount f))"

definition expected_for :: "evidence \<Rightarrow> forecast_result \<Rightarrow> money res" where
  "expected_for ev fc =
     (if ev_kind ev = FieldEvidence
      then (case ev_field ev of None \<Rightarrow> Inl AssertionError | Some f \<Rightarrow> resolve_field (fr_projection fc) f)
      else fold_res (add_evidence (fr_flows fc)) (ev_flow_seqs ev) ZERO)"

text \<open>\<open>except KeyError\<close>: its message is the \<open>repr\<close> of the argument. Anything else is raised.\<close>

definition check_claim :: "string \<Rightarrow> string \<Rightarrow> evidence \<Rightarrow> money \<Rightarrow> forecast_result \<Rightarrow> violation option res" where
  "check_claim whr message ev stated fc =
     (case expected_for ev fc of
        Inl (KeyError k) \<Rightarrow>
          Inr (Some \<lparr>vi_where = whr, vi_message = py_repr k, vi_stated = Some stated, vi_expected = None\<rparr>)
      | Inl e \<Rightarrow> Inl e
      | Inr expected \<Rightarrow>
          Inr (if expected \<noteq> stated
               then Some \<lparr>vi_where = whr, vi_message = message, vi_stated = Some stated, vi_expected = Some expected\<rparr>
               else None))"

definition check_fact :: "fact \<Rightarrow> forecast_result \<Rightarrow> violation option res" where
  "check_fact f fc =
     (case fa_amount f of
        None \<Rightarrow> Inr None
      | Some a \<Rightarrow> check_claim (''fact:'' @ fa_key f) ''stated amount does not match its evidence'' (fa_evidence f) a fc)"

definition check_driver :: "driver \<Rightarrow> forecast_result \<Rightarrow> violation option res" where
  "check_driver d fc =
     check_claim (''driver:'' @ category_value (dv_category d)) ''driver total does not match referenced flows''
       (dv_evidence d) (dv_amount d) fc"

definition collect_violation :: "('a \<Rightarrow> violation option res) \<Rightarrow> 'a \<Rightarrow> violation list \<Rightarrow> violation list res" where
  "collect_violation check x out =
     res_bind (check x) (\<lambda>v. Inr (case v of Some v \<Rightarrow> out @ [v] | None \<Rightarrow> out))"

definition validate_facts :: "fact list \<Rightarrow> forecast_result \<Rightarrow> violation list res" where
  "validate_facts facts fc = fold_res (collect_violation (\<lambda>f. check_fact f fc)) facts []"

definition validate_briefing :: "weekly_briefing \<Rightarrow> forecast_result \<Rightarrow> violation list res" where
  "validate_briefing b fc =
     res_bind (validate_facts (wb_facts b) fc)
       (fold_res (collect_violation (\<lambda>d. check_driver d fc)) (wb_drivers b))"

section \<open>Every number is backed\<close>

lemma flow_by_seq:
  assumes "distinct (map seq flows)" "f \<in> set flows"
  shows "flow_by_seq flows (seq f) = Some f"
proof -
  have "distinct (map fst (rev (map (\<lambda>f. (seq f, f)) flows)))" using assms(1) by (simp add: comp_def flip: rev_map)
  moreover have "(seq f, f) \<in> set (rev (map (\<lambda>f. (seq f, f)) flows))" using assms(2) by simp
  ultimately show ?thesis unfolding flow_by_seq_def by (rule map_of_is_SomeI)
qed

lemma add_evidences:
  assumes "distinct (map seq flows)" "set fs \<subseteq> set flows" "list_all (\<lambda>f. currency (amount f) = ccy) fs"
  shows "fold_res (add_evidence flows) (map seq fs) (Money n ccy) = Inr (Money (n + (\<Sum>f\<leftarrow>fs. minor_units (amount f))) ccy)"
  using assms(2,3)
proof (induction fs arbitrary: n)
  case (Cons f fs)
  then have "flow_by_seq flows (seq f) = Some f" using flow_by_seq [OF assms(1)] by simp
  then show ?case using Cons by (simp add: add_evidence_def money_add_same algebra_simps)
qed simp

text \<open>Summing in any order of the sequence numbers gives the same.\<close>

lemma add_evidences_sorted:
  assumes "distinct (map seq flows)" "set fs \<subseteq> set flows" "list_all (\<lambda>f. currency (amount f) = ccy) fs"
  shows "fold_res (add_evidence flows) (sort (map seq fs)) (Money 0 ccy) = Inr (Money (\<Sum>f\<leftarrow>fs. minor_units (amount f)) ccy)"
proof -
  let ?gs = "sort_key seq fs"
  have "sort (map seq fs) = map seq ?gs"
    by (rule properties_for_sort) simp_all
  moreover have "(\<Sum>f\<leftarrow>?gs. minor_units (amount f)) = (\<Sum>f\<leftarrow>fs. minor_units (amount f))"
    by (rule sum_list_mset_cong) simp
  moreover have "fold_res (add_evidence flows) (map seq ?gs) (Money 0 ccy) = Inr (Money (0 + (\<Sum>f\<leftarrow>?gs. minor_units (amount f))) ccy)"
    using assms by (intro add_evidences) (auto simp: list_all_iff)
  ultimately show ?thesis by simp
qed

text \<open>The categories collect flows of the forecast.\<close>

lemma categories_sub:
  "(cat, fs) \<in> set (fold add_to_category flows d) \<Longrightarrow>
     (\<And>c gs. (c, gs) \<in> set d \<Longrightarrow> set gs \<subseteq> S) \<Longrightarrow> set flows \<subseteq> S \<Longrightarrow> set fs \<subseteq> S"
proof (induction flows arbitrary: d)
  case (Cons f flows)
  have upd: "list_all (\<lambda>(c, gs). set gs \<subseteq> S) (add_to_category f d)"
  proof (cases "direction f = OUTFLOW")
    case True
    have d: "list_all (\<lambda>(c, gs). set gs \<subseteq> S) d" using Cons.prems(2) by (auto simp: list_all_iff)
    have "set ((case map_of d (category f) of Some fs \<Rightarrow> fs | None \<Rightarrow> []) @ [f]) \<subseteq> S"
      using Cons.prems(2,3) by (cases "map_of d (category f)") (auto dest: map_of_SomeD)
    with d show ?thesis unfolding add_to_category_def if_P [OF True]
      by (intro list_all_update_alist) (simp_all only: prod.case)
  next
    case False
    then show ?thesis using Cons.prems(2) by (auto simp: add_to_category_def list_all_iff)
  qed
  then have "\<And>c gs. (c, gs) \<in> set (add_to_category f d) \<Longrightarrow> set gs \<subseteq> S" by (auto simp: list_all_iff)
  with Cons.IH [of "add_to_category f d"] Cons.prems(1,3) show ?case by simp
qed simp

lemma driver_of_flows:
  assumes "d \<in> set (outflow_drivers flows total_out ccy n)"
  shows "\<exists>fs. set fs \<subseteq> set flows \<and> dv_amount d = Money (\<Sum>f\<leftarrow>fs. minor_units (amount f)) ccy \<and>
    dv_evidence d = flows_evidence (sort (map seq fs))"
proof -
  obtain cat fs where c: "(cat, fs) \<in> set (fold add_to_category flows [])" "d = category_driver total_out ccy (cat, fs)"
    using assms by (auto simp: outflow_drivers_def dest!: in_set_takeD)
  have "set fs \<subseteq> set flows" using categories_sub [OF c(1)] by simp
  then show ?thesis using c(2) by (intro exI [of _ fs]) (simp add: category_driver_def Let_def)
qed

lemma largest_flow_mem: "largest_flow flows dir = Some f \<Longrightarrow> f \<in> set flows \<and> direction f = dir"
proof -
  assume l: "largest_flow flows dir = Some f"
  then obtain g gs where g: "filter (\<lambda>f. direction f = dir) flows = g # gs" "f = max_by largest_key g gs"
    by (auto simp: largest_flow_def split: list.splits)
  have "f \<in> set (filter (\<lambda>f. direction f = dir) flows)" using max_by_mem [of largest_key g gs] by (simp add: g)
  then show ?thesis by simp
qed

lemma fold_collect_none: "list_all (\<lambda>x. check x = Inr None) xs \<Longrightarrow> fold_res (collect_violation check) xs out = Inr out"
  by (induction xs) (simp_all add: collect_violation_def)

lemma check_fact_field:
  "fa_evidence f = field_evidence fld \<Longrightarrow> fa_amount f = Some a \<Longrightarrow> resolve_field (fr_projection fc) fld = Inr a \<Longrightarrow>
     check_fact f fc = Inr None"
  by (simp add: check_fact_def check_claim_def expected_for_def field_evidence_def)

lemma check_fact_flow:
  "fa_evidence f = flows_evidence [seq c] \<Longrightarrow> fa_amount f = Some (amount c) \<Longrightarrow> c \<in> set (fr_flows fc) \<Longrightarrow>
     distinct (map seq (fr_flows fc)) \<Longrightarrow>
     check_fact f fc = (if currency (amount c) = ''USD'' then Inr None else Inl CurrencyMismatch)"
  by (cases "amount c")
    (simp add: check_fact_def check_claim_def expected_for_def flows_evidence_def add_evidence_def flow_by_seq ZERO_def
      money_add_def money_same_def)

lemma base_facts_backed:
  assumes "base_facts fc cushion = Inr facts" "money_sub (ct_balance (pj_trough (fr_projection fc))) (pj_effective_floor (fr_projection fc)) = Inr cushion"
  shows "list_all (\<lambda>f. check_fact f fc = Inr None) (facts @ shortfall_facts (fr_projection fc))"
  using assms
  by (auto simp: base_facts_def shortfall_facts_def Let_def result_simps resolve_field_def
      split: option.splits intro!: check_fact_field)

lemma briefing_validates:
  assumes b: "build_briefing fc = Inr b" and dist: "distinct (map seq (fr_flows fc))"
    and ccy: "list_all (\<lambda>f. currency (amount f) = pj_currency (fr_projection fc)) (fr_flows fc)"
  shows "validate_briefing b fc =
    (if pj_currency (fr_projection fc) = ''USD'' \<or> fr_flows fc = [] then Inr [] else Inl CurrencyMismatch)"
proof -
  let ?p = "fr_projection fc" and ?ccy = "pj_currency (fr_projection fc)"
  obtain cushion facts where cushion: "money_sub (ct_balance (pj_trough ?p)) (pj_effective_floor ?p) = Inr cushion"
    and facts: "base_facts fc cushion = Inr facts"
    and wf: "wb_facts b = facts @ shortfall_facts ?p @ largest_facts (fr_flows fc)"
    and wd: "wb_drivers b = outflow_drivers (fr_flows fc) (pj_total_outflows ?p) ?ccy 3"
    using b by (auto simp: build_briefing_def Let_def result_simps split: if_splits prod.splits)
  have base: "list_all (\<lambda>f. check_fact f fc = Inr None) (facts @ shortfall_facts ?p)"
    by (rule base_facts_backed [OF facts cushion])
  have flow_ccy: "currency (amount f) = ?ccy" if "f \<in> set (fr_flows fc)" for f using ccy that by (simp add: list_all_iff)
  show ?thesis
  proof (cases "?ccy = ''USD''")
    case True
    have "list_all (\<lambda>f. check_fact f fc = Inr None) (largest_facts (fr_flows fc))"
      using flow_ccy dist True
      by (auto simp: largest_facts_def check_fact_flow split: option.splits dest: largest_flow_mem)
    with base have v: "validate_facts (wb_facts b) fc = Inr []"
      unfolding validate_facts_def wf by (intro fold_collect_none) simp
    have "check_driver d fc = Inr None" if d: "d \<in> set (wb_drivers b)" for d
    proof -
      obtain fs where fs: "set fs \<subseteq> set (fr_flows fc)" "dv_amount d = Money (\<Sum>f\<leftarrow>fs. minor_units (amount f)) ?ccy"
        "dv_evidence d = flows_evidence (sort (map seq fs))"
        using driver_of_flows d unfolding wd by blast
      have "list_all (\<lambda>f. currency (amount f) = ?ccy) fs" using fs(1) flow_ccy by (auto simp: list_all_iff)
      from add_evidences_sorted [OF dist fs(1) this] show ?thesis
        using True by (simp add: check_driver_def check_claim_def expected_for_def flows_evidence_def fs(2,3) ZERO_def)
    qed
    then have "list_all (\<lambda>d. check_driver d fc = Inr None) (wb_drivers b)" by (simp add: list_all_iff)
    with v True show ?thesis by (simp add: validate_briefing_def fold_collect_none)
  next
    case False
    show ?thesis
    proof (cases "fr_flows fc = []")
      case True
      then have "validate_facts (wb_facts b) fc = Inr []"
        using base unfolding validate_facts_def wf by (intro fold_collect_none) (simp add: largest_facts_def largest_flow_def)
      with True False show ?thesis by (simp add: validate_briefing_def wd outflow_drivers_def sort_key_reverse_def)
    next
      case flows: False
      have bad: "list_all (\<lambda>f. check_fact f fc = Inl CurrencyMismatch) (largest_facts (fr_flows fc))"
        using flow_ccy dist \<open>?ccy \<noteq> ''USD''\<close>
        by (auto simp: largest_facts_def check_fact_flow split: option.splits dest: largest_flow_mem)
      obtain f where "f \<in> set (fr_flows fc)" using flows by (cases "fr_flows fc") auto
      then have "largest_flow (fr_flows fc) (direction f) \<noteq> None"
        by (auto simp: largest_flow_def filter_empty_conv split: list.splits)
      then have "largest_facts (fr_flows fc) \<noteq> []"
        by (cases "direction f") (auto simp: largest_facts_def split: option.splits)
      then obtain x xs where "largest_facts (fr_flows fc) = x # xs" by (cases "largest_facts (fr_flows fc)") auto
      then have "validate_facts (wb_facts b) fc = Inl CurrencyMismatch"
        using bad fold_collect_none [OF base, of "[]"]
        unfolding validate_facts_def wf append_assoc [symmetric] fold_res_append
        by (simp add: collect_violation_def del: append_assoc)
      with False flows show ?thesis by (simp add: validate_briefing_def)
    qed
  qed
qed

lemma briefing_status_total:
  assumes "known_currency (currency (pj_effective_floor (fr_projection fc)))" "known_currency (currency cushion)"
  shows "\<exists>x. briefing_status fc watch_band cushion = Inr x"
  using assms [THEN format_money_total]
  by (auto simp: briefing_status_def Let_def split: if_splits)

lemma build_briefing_total:
  assumes pj: "compute_projection op rs flows config as_of = Inr (fr_projection fc)"
    and ccy: "known_currency (cfg_currency config)" "currency rs = cfg_currency config"
  shows "\<exists>b. build_briefing fc = Inr b"
proof -
  define pj where "pj = fr_projection fc"
  have p: "fr_projection fc = pj" by (simp add: pj_def)
  note f = projection_fields [OF assms(1) [unfolded p]]
  have floor: "currency (pj_effective_floor pj) = cfg_currency config" using f(6) ccy(2) by simp
  have trough: "currency (ct_balance (pj_trough pj)) = cfg_currency config" using f(11) by auto
  obtain watch_band where wb: "scale_by (pj_effective_floor pj) WATCH_CUSHION_BPS 10000 = Inr watch_band"
    by (simp add: scale_by_round)
  obtain cushion where c: "money_sub (ct_balance (pj_trough pj)) (pj_effective_floor pj) = Inr cushion"
    "currency cushion = cfg_currency config"
    using floor trough by (simp add: money_sub_def money_same_def)
  obtain st where st: "briefing_status fc watch_band cushion = Inr st"
    using briefing_status_total [of fc cushion watch_band] floor ccy(1) c(2) p by auto
  have "known_currency (currency (pj_restricted pj))" using f(9) ccy by simp
  then obtain s where "format_money (pj_restricted pj) = Inr s" using format_money_total by blast
  then obtain facts where facts: "base_facts fc cushion = Inr facts"
    by (cases "is_positive (pj_restricted pj)") (simp_all add: base_facts_def Let_def p)
  have "glance_of (pj_effective_floor pj) watch_band w = Inr (projr (glance_of (pj_effective_floor pj) watch_band w))"
    if "w \<in> set (pj_weeks pj)" for w
  proof -
    have "currency (wl_closing w) = cfg_currency config" using that f(2) by (auto simp: line_at_def Let_def)
    then show ?thesis using floor by (simp add: glance_of_def status_for_balance_def money_sub_def money_same_def)
  qed
  then have "map_res (glance_of (pj_effective_floor pj) watch_band) (pj_weeks pj) =
      Inr (map (\<lambda>w. projr (glance_of (pj_effective_floor pj) watch_band w)) (pj_weeks pj))"
    by (rule map_res_total)
  moreover have "pj_weeks pj \<noteq> []" using f(1,2) by simp
  ultimately show ?thesis using wb c st facts by (cases st) (auto simp: build_briefing_def Let_def p)
qed

section \<open>Variance\<close>

record week_actual =
  wk_index :: int
  wk_closing :: money

record week_variance =
  wv_index :: int
  wv_expected :: money
  wv_actual :: money
  wv_delta :: money
  wv_pct_bps :: "int option"

record variance_report =
  vr_currency :: string
  vr_weeks :: "week_variance list"
  vr_mean_abs_pct_bps :: "int option"
  vr_within_tolerance :: bool
  vr_tolerance_bps :: int
  vr_forecast_version_id :: string
  vr_narrative :: string

text \<open>The dictionary \<open>by_index\<close>: the last week of an index.\<close>

definition week_by_index :: "week_line list \<Rightarrow> int \<Rightarrow> week_line option" where
  "week_by_index weeks i = map_of (rev (map (\<lambda>w. (wl_index w, w)) weeks)) i"

definition variance_row :: "week_line list \<Rightarrow> week_actual \<Rightarrow> week_variance option res" where
  "variance_row weeks a =
     (case week_by_index weeks (wk_index a) of
        None \<Rightarrow> Inr None
      | Some wk \<Rightarrow>
          let expected = wl_closing wk
          in res_bind (money_sub (wk_closing a) expected) (\<lambda>delta.
               Inr (Some \<lparr>wv_index = wk_index a, wv_expected = expected, wv_actual = wk_closing a, wv_delta = delta,
                 wv_pct_bps = (if minor_units expected \<noteq> 0
                   then Some (round_half_even (minor_units delta * 10000) \<bar>minor_units expected\<bar>) else None)\<rparr>)))"

definition variance_rows :: "week_line list \<Rightarrow> week_actual list \<Rightarrow> week_variance list res" where
  "variance_rows weeks actuals =
     res_bind (map_res (variance_row weeks) (sort_key wk_index actuals)) (\<lambda>rows. Inr (List.map_filter (\<lambda>r. r) rows))"

definition abs_pcts :: "week_variance list \<Rightarrow> int list" where
  "abs_pcts rows = List.map_filter (\<lambda>r. map_option abs (wv_pct_bps r)) rows"

definition mean_abs_bps :: "week_variance list \<Rightarrow> int option" where
  "mean_abs_bps rows =
     (if abs_pcts rows = [] then None
      else Some (round_half_even (sum_list (abs_pcts rows)) (int (length (abs_pcts rows)))))"

definition variance_narrative :: "bool \<Rightarrow> week_variance list \<Rightarrow> int option \<Rightarrow> bool \<Rightarrow> string res" where
  "variance_narrative published rows mean_abs within =
     (case rows of
        [] \<Rightarrow> Inr ''No elapsed weeks to compare yet.''
      | r # rs \<Rightarrow>
          (case mean_abs of
             None \<Rightarrow> Inr (''Compared '' @ str_int (int (length rows)) @
               '' week(s); expected balances were zero, so percent error is undefined.'')
           | Some m \<Rightarrow>
               let direction = (if within then ''tracked'' else ''diverged from'');
                   worst = max_by (\<lambda>r. \<bar>minor_units (wv_delta r)\<bar>) r rs
               in res_bind (format_money (wv_actual worst)) (\<lambda>act.
                  res_bind (format_money (wv_expected worst)) (\<lambda>expd.
                  res_bind (format_money (wv_delta worst)) (\<lambda>dlt.
                    Inr (''Over '' @ str_int (int (length rows)) @ '' elapsed week(s), actuals '' @ direction @
                      '' the forecast (mean error '' @ fmt_tenths m @ ''%). Largest gap was week '' @ str_int (wv_index worst) @
                      '': actual '' @ act @ '' vs expected '' @ expd @ '' ('' @
                      (if 0 \<le> minor_units (wv_delta worst) then ''+'' else []) @ dlt @ '').'' @
                      (if \<not> published then '' (Note: compared against a non-published forecast.)'' else [])))))))"

definition compute_variance ::
  "forecast_result \<Rightarrow> week_actual list \<Rightarrow> int \<Rightarrow> variance_report res" where
  "compute_variance published actuals tolerance_bps =
     res_bind (variance_rows (pj_weeks (fr_projection published)) actuals) (\<lambda>rows.
       let mean_abs = mean_abs_bps rows;
           within = (case mean_abs of Some m \<Rightarrow> m \<le> tolerance_bps | None \<Rightarrow> False)
       in res_bind (variance_narrative (fv_status (fr_version published) = PUBLISHED) rows mean_abs within)
            (\<lambda>narrative.
              Inr \<lparr>vr_currency = pj_currency (fr_projection published), vr_weeks = rows, vr_mean_abs_pct_bps = mean_abs,
                vr_within_tolerance = within, vr_tolerance_bps = tolerance_bps,
                vr_forecast_version_id = version_id (fr_version published), vr_narrative = narrative\<rparr>))"

section \<open>The envelope\<close>

datatype channel = EMAIL | PUSH

datatype priority = NORMAL | URGENT

definition subject_for :: "weekly_briefing \<Rightarrow> string" where
  "subject_for b =
     (case wb_status b of
        AT_RISK_LEVEL \<Rightarrow>
          ''Action needed: cash dips below your floor'' @
          (case find (\<lambda>w. wg_status w = AT_RISK_LEVEL) (wb_week_glance b) of
             Some w \<Rightarrow> '' in week '' @ str_int (wg_index w) | None \<Rightarrow> [])
      | WATCH_LEVEL \<Rightarrow> ''Heads up: your cash cushion is getting thin''
      | STABLE \<Rightarrow> ''Your cash looks steady this week'')"

definition choose_priority :: "weekly_briefing \<Rightarrow> variance_report option \<Rightarrow> priority" where
  "choose_priority b variance =
     (if wb_status b = AT_RISK_LEVEL then URGENT
      else case variance of
          Some v \<Rightarrow>
            if \<not> vr_within_tolerance v \<and> vr_mean_abs_pct_bps v \<noteq> None \<and>
               list_ex (\<lambda>w. is_negative (wv_delta w)) (vr_weeks v)
            then URGENT else NORMAL
        | None \<Rightarrow> NORMAL)"

definition channels_for :: "priority \<Rightarrow> channel list" where
  "channels_for p = (if p = URGENT then [EMAIL, PUSH] else [EMAIL])"

definition deep_links :: "string \<Rightarrow> string \<Rightarrow> weekly_briefing \<Rightarrow> (string \<times> string) list" where
  "deep_links base_url tenant_id b =
     (''View full briefing'', base_url @ ''/t/'' @ tenant_id @ ''/briefing/'' @ wb_version_id b) #
     (if (case wb_primary_action b of Some a \<Rightarrow> a \<noteq> [] | None \<Rightarrow> False)
      then [(''Take the recommended action'', base_url @ ''/t/'' @ tenant_id @ ''/actions/next'')] else [])"

section \<open>Rendering as text\<close>

text \<open>Widths count characters, not bytes.\<close>

definition pad_left :: "nat \<Rightarrow> string \<Rightarrow> string" where
  "pad_left n s = replicate (n - char_count s) CHR '' '' @ s"

definition pad_right :: "nat \<Rightarrow> string \<Rightarrow> string" where
  "pad_right n s = s @ replicate (n - char_count s) CHR '' ''"

fun badge :: "status_level \<Rightarrow> string" where
  "badge STABLE = ''[ STABLE ]''"
| "badge WATCH_LEVEL = ''[ WATCH ]''"
| "badge AT_RISK_LEVEL = ''[ AT RISK ]''"

fun glance_mark :: "status_level \<Rightarrow> string" where
  "glance_mark STABLE = '' ''"
| "glance_mark WATCH_LEVEL = ''.''"
| "glance_mark AT_RISK_LEVEL = ''!''"

definition text_or_empty :: "string option \<Rightarrow> string" where
  "text_or_empty t = (case t of Some s \<Rightarrow> s | None \<Rightarrow> [])"

definition fact_line :: "fact \<Rightarrow> string res" where
  "fact_line f =
     (case fa_amount f of
        None \<Rightarrow> Inr (''  '' @ pad_right 28 (fa_label f) @ '' '' @ text_or_empty (fa_text f))
      | Some a \<Rightarrow>
          res_bind (format_money a) (\<lambda>val.
            Inr (''  '' @ pad_right 28 (fa_label f) @ '' '' @ val @
              (if text_or_empty (fa_text f) \<noteq> [] then ''  ('' @ text_or_empty (fa_text f) @ '')'' else []))))"

definition driver_line :: "driver \<Rightarrow> string res" where
  "driver_line d =
     res_bind (format_money (dv_amount d)) (\<lambda>a.
       Inr (''  '' @ pad_right 24 (dv_label d) @ '' '' @ pad_left 15 a @ ''  ('' @ fmt_hundredths0 (dv_share_bps d) @
         ''% of outflows)''))"

definition glance_line :: "week_glance \<Rightarrow> string res" where
  "glance_line w =
     res_bind (format_money (wg_closing w)) (\<lambda>c.
       Inr (''  wk'' @ pad_right 2 (str_int (wg_index w)) @ '' '' @ isoformat (wg_start w) @ ''  '' @
         pad_left 15 c @ ''  '' @ glance_mark (wg_status w)))"

definition apostrophe_s :: string where
  "apostrophe_s = [char_of (39 :: nat), CHR ''S'']"

definition render_text :: "weekly_briefing \<Rightarrow> string res" where
  "render_text b =
     res_bind (map_res fact_line (wb_facts b)) (\<lambda>facts.
     res_bind (map_res driver_line (wb_drivers b)) (\<lambda>drivers.
     res_bind (map_res glance_line (wb_week_glance b)) (\<lambda>glance.
       Inr (join_sep [char_of (10 :: nat)] (
         [badge (wb_status b) @ ''  RGNR8 weekly cash briefing '' @ em_dash @ '' '' @ wb_period_label b,
          replicate 72 CHR ''='', wb_headline b, ''('' @ wb_status_reason b @ '')''] @
         (if text_or_empty (wb_primary_action b) \<noteq> []
          then [[], ''DO THIS:'', ''  '' @ text_or_empty (wb_primary_action b)] else []) @
         [[], ''THE NUMBERS''] @ facts @
         (if drivers \<noteq> [] then [[], ''WHAT'' @ apostrophe_s @ '' USING YOUR CASH''] @ drivers else []) @
         [[], ''13-WEEK GLANCE (closing balance)''] @ glance @
         (if wb_data_quality b \<noteq> []
          then [[], ''HEADS-UP (data quality)''] @ map (\<lambda>n. ''  - '' @ n) (wb_data_quality b) else []) @
         [[], ''confidence '' @ str_int (wb_overall_confidence b) @ ''/100 '' @ [CHR 0xC2, CHR 0xB7] @ '' version '' @
            wb_version_id b])))))"

section \<open>Properties\<close>

lemma forecast_briefing_currency:
  assumes "run_forecast fp inputs (Some config) scen assumptions = Some (Inr fc)" and "build_briefing fc = Inr b"
    and "list_all (\<lambda>f. currency (amount f) = cfg_currency config) (fr_flows fc)"
  shows "validate_briefing b fc =
    (if cfg_currency config = ''USD'' \<or> fr_flows fc = [] then Inr [] else Inl CurrencyMismatch)"
  using assms(1)
proof (rule run_forecastE)
  fix rf pj
  assume res: "resolve inputs (case Some config of Some c \<Rightarrow> c | None \<Rightarrow> default_config (fi_currency inputs)) scen
       (case assumptions of Some a \<Rightarrow> a | None \<Rightarrow> scenario_assumptions_of scen) = Some (Inr rf)"
    and pj: "compute_projection (cp_available (fi_opening inputs)) (cp_restricted (fi_opening inputs)) (rf_flows rf)
       (case Some config of Some c \<Rightarrow> c | None \<Rightarrow> default_config (fi_currency inputs)) (cp_as_of (fi_opening inputs)) = Inr pj"
    and fc: "fr_projection fc = pj" "fr_flows fc = rf_flows rf"
  have "map seq (rf_flows rf) = map int [1..<Suc (length (rf_flows rf))]" using resolve_order [OF res] by simp
  then have "distinct (map seq (fr_flows fc))" by (simp add: fc distinct_map del: upt_Suc)
  moreover have "pj_currency (fr_projection fc) = cfg_currency config" using projection_fields(7) [OF pj] by (simp add: fc)
  ultimately show ?thesis using briefing_validates [OF assms(2)] assms(3) by simp
qed

text \<open>C34. A briefing built from a forecast in one currency reconciles number by number with the forecast
  when the currency is the dollar. In every other currency the validator raises as soon as the
  forecast has a flow: it sums evidence from a zero in dollars.\<close>

theorem forecast_briefing_backed:
  assumes "run_forecast fp inputs (Some config) scen assumptions = Some (Inr fc)" and "build_briefing fc = Inr b"
    and "list_all (\<lambda>f. currency (amount f) = cfg_currency config) (fr_flows fc)"
  shows "validate_briefing b fc =
    (if cfg_currency config = ''USD'' \<or> fr_flows fc = [] then Inr [] else Inl CurrencyMismatch)"
  using assms by (rule forecast_briefing_currency)

theorem forecast_briefing_backed_witness:
  "\<exists>fc b. example_forecast = Some (Inr fc) \<and> build_briefing fc = Inr b \<and> validate_briefing b fc = Inr []"
proof -
  from example_forecast_runs obtain fc where fc: "example_forecast = Some (Inr fc)" by blast
  note run = fc [unfolded example_forecast_def]
  from run have "\<exists>fs. compute_projection (Money 100 ''USD'') (Money 0 ''USD'') fs (default_config ''USD'') 738000 =
      Inr (fr_projection fc)"
    by (auto elim!: run_forecastE)
  then obtain fs where "compute_projection (Money 100 ''USD'') (Money 0 ''USD'') fs (default_config ''USD'') 738000 =
      Inr (fr_projection fc)" by (elim exE)
  from build_briefing_total [OF this] obtain b where b: "build_briefing fc = Inr b"
    by (auto simp: known_currency_def currency_scale_def)
  from example_resolved obtain rf where rf: "example_flows_of = Some (Inr rf)"
    "map amount (rf_flows rf) = [Money 300 ''USD'', Money 5000 ''USD'']" by (elim exE conjE)
  have "fr_flows fc = rf_flows rf"
    using run rf(1) by (auto simp: example_flows_of_def elim!: run_forecastE)
  moreover have "list_all (\<lambda>m. currency m = ''USD'') (map amount (rf_flows rf))" by (simp add: rf(2))
  ultimately have "list_all (\<lambda>f. currency (amount f) = cfg_currency (default_config ''USD'')) (fr_flows fc)"
    by (simp add: list_all_iff)
  from forecast_briefing_backed [OF run b this] have "validate_briefing b fc = Inr []" by simp
  with fc b show ?thesis by (intro exI conjI)
qed

text \<open>A briefing says at risk exactly when a day of the horizon ends below the floor, and its reason
  names the week of the first such day. Its subject names the first week that closes below the
  floor instead: none, or a later one, when the balance recovers before the week ends.\<close>

theorem briefing_at_risk_exact:
  assumes pj: "compute_projection op rs flows config as_of = Inr (fr_projection fc)" and b: "build_briefing fc = Inr b"
  defines "e \<equiv> end_of_day (minor_units op) as_of flows"
    and "fl \<equiv> minor_units (minimum_cash config) + minor_units rs" and "n \<equiv> horizon_weeks config"
  shows "(wb_status b = AT_RISK_LEVEL \<longleftrightarrow> (\<exists>k. 0 \<le> k \<and> k < 7 * n \<and> e k < fl)) \<and>
    map wg_status (wb_week_glance b) = map (\<lambda>i. if e (7 * i + 6) < fl then AT_RISK_LEVEL else
        if e (7 * i + 6) - fl < round_half_even (fl * 1500) 10000 then WATCH_LEVEL else STABLE) [0..n - 1] \<and>
    (wb_status b = AT_RISK_LEVEL \<longrightarrow>
       subject_for b = ''Action needed: cash dips below your floor'' @
         (case find (\<lambda>i. e (7 * i + 6) < fl) [0..n - 1] of Some i \<Rightarrow> '' in week '' @ str_int (i + 1) | None \<Rightarrow> []))"
proof -
  let ?p = "fr_projection fc"
  note f = projection_fields [OF pj, folded e_def fl_def n_def]
  obtain watch_band cushion st reason glance where wb: "scale_by (pj_effective_floor ?p) WATCH_CUSHION_BPS 10000 = Inr watch_band"
    and c: "money_sub (ct_balance (pj_trough ?p)) (pj_effective_floor ?p) = Inr cushion"
    and st: "briefing_status fc watch_band cushion = Inr (st, reason)" and stb: "wb_status b = st"
    and gl: "map_res (glance_of (pj_effective_floor ?p) watch_band) (pj_weeks ?p) = Inr glance" "wb_week_glance b = glance"
    using b by (auto simp: build_briefing_def Let_def result_simps split: if_splits prod.splits)
  obtain w where w: "follows e as_of fl (7 * n) w"
    "pj_trough ?p = \<lparr>ct_on_date = trough_date w, ct_balance = Money (trough_val w) (cfg_currency config)\<rparr>"
    "br_breached (pj_breach ?p) = (first_breach w \<noteq> None)"
    using f(11) by auto
  have ccy: "currency rs = cfg_currency config" using c w(2) f(6) by (simp add: money_sub_Inr)
  have band: "watch_band = Money (round_half_even (fl * 1500) 10000) (cfg_currency config)"
    using wb f(6) ccy by (simp add: scale_by_Inr WATCH_CUSHION_BPS_def)
  have "st = AT_RISK_LEVEL \<longleftrightarrow> br_breached (pj_breach ?p)"
    using st by (auto simp: briefing_status_def Let_def result_simps split: if_splits)
  also have "\<dots> \<longleftrightarrow> (\<exists>k. 0 \<le> k \<and> k < 7 * n \<and> e k < fl)"
    using w(1,3) by (cases "first_breach w") (fastforce simp: follows_def first_below_def not_less [symmetric])+
  finally have one: "wb_status b = AT_RISK_LEVEL \<longleftrightarrow> (\<exists>k. 0 \<le> k \<and> k < 7 * n \<and> e k < fl)" using stb by simp
  let ?s = "\<lambda>i. if e (7 * i + 6) < fl then AT_RISK_LEVEL else
        if e (7 * i + 6) - fl < round_half_even (fl * 1500) 10000 then WATCH_LEVEL else STABLE"
  define dy where "dy = daily_totals as_of (as_of + 7 * n - 1) flows"
  have g: "glance_of (pj_effective_floor ?p) watch_band (line_at (cfg_currency config) flows dy (minor_units op) as_of i) =
      Inr \<lparr>wg_index = i + 1, wg_start = as_of + 7 * i, wg_closing = Money (e (7 * i + 6)) (cfg_currency config),
        wg_status = ?s i, wg_confidence = weighted_confidence (week_flows as_of i flows)\<rparr>" for i
    using f(6) ccy band
    by (simp add: glance_of_def status_for_balance_def line_at_def Let_def e_def money_sub_def money_same_def less_money_def)
  have "glance = map (\<lambda>i. \<lparr>wg_index = i + 1, wg_start = as_of + 7 * i, wg_closing = Money (e (7 * i + 6)) (cfg_currency config),
        wg_status = ?s i, wg_confidence = weighted_confidence (week_flows as_of i flows)\<rparr>) [0..n - 1]"
    using gl(1) g unfolding f(2) dy_def [symmetric] map_res_Inr list_all2_map1
    by (auto simp: list_all2_conv_all_nth intro: nth_equalityI)
  note gl' = this [folded gl(2)]
  have find: "(case find P (map h xs) of Some x \<Rightarrow> k x | None \<Rightarrow> z) = (case find (P \<circ> h) xs of Some x \<Rightarrow> k (h x) | None \<Rightarrow> z)"
    for P h xs k z by (induction xs) simp_all
  show ?thesis
  proof (intro conjI impI)
    show "map wg_status (wb_week_glance b) = map ?s [0..n - 1]" by (simp add: gl')
    assume risk: "wb_status b = AT_RISK_LEVEL"
    have "(\<lambda>w. wg_status w = AT_RISK_LEVEL) \<circ> (\<lambda>i. \<lparr>wg_index = i + 1, wg_start = as_of + 7 * i,
        wg_closing = Money (e (7 * i + 6)) (cfg_currency config), wg_status = ?s i,
        wg_confidence = weighted_confidence (week_flows as_of i flows)\<rparr>) = (\<lambda>i. e (7 * i + 6) < fl)"
      by (auto simp: fun_eq_iff)
    then show "subject_for b = ''Action needed: cash dips below your floor'' @
         (case find (\<lambda>i. e (7 * i + 6) < fl) [0..n - 1] of Some i \<Rightarrow> '' in week '' @ str_int (i + 1) | None \<Rightarrow> [])"
      unfolding subject_for_def risk gl' find by (simp split: option.split)
  qed (rule one)
qed

definition recovering_forecast :: "projection \<Rightarrow> forecast_result" where
  "recovering_forecast p =
     \<lparr>fr_scenario = BASE,
      fr_version = \<lparr>fv_engine_version = [], fv_assumption_version = [], fv_mapping_version = [], fv_model_version = [],
        fv_timezone = [], fv_rounding_policy = [], fv_scenario = BASE, fv_input_fingerprint = [],
        fv_status = PRELIMINARY, fv_published_at = None, fv_reviewer = None\<rparr>,
      fr_projection = p, fr_flows = example_flows, fr_overall_confidence = 80, fr_data_quality = [],
      fr_headline = [], fr_recommended_action = None\<rparr>"

theorem briefing_at_risk_exact_witness:
  "\<exists>p b. example_run = Inr p \<and> build_briefing (recovering_forecast p) = Inr b \<and> wb_status b = AT_RISK_LEVEL \<and>
     subject_for b = ''Action needed: cash dips below your floor''"
proof -
  from example_projection obtain p where p: "example_run = Inr p" by blast
  then have pj: "compute_projection (Money 100 ''USD'') (Money 20 ''USD'') example_flows example_config 738000 =
      Inr (fr_projection (recovering_forecast p))"
    by (simp add: example_run_def recovering_forecast_def)
  from build_briefing_total [OF pj] obtain b where b: "build_briefing (recovering_forecast p) = Inr b"
    by (auto simp: known_currency_def currency_scale_def example_config_def)
  have "\<exists>k. 0 \<le> k \<and> k < 7 \<and> end_of_day 100 738000 example_flows k < 20"
    by (intro exI [of _ 2]) (simp add: example_end_of_day)
  then have "wb_status b = AT_RISK_LEVEL \<and> subject_for b = ''Action needed: cash dips below your floor''"
    using briefing_at_risk_exact [OF pj b] by (simp add: example_end_of_day)
  with p b show ?thesis by (intro exI [of _ p] exI [of _ b] conjI) simp_all
qed

end
