(* ===== verification/Briefing_Html.thy ===== *)
theory Briefing_Html
  imports Briefing
begin

text \<open>
  \<open>render_html\<close> of \<open>packages/briefing/src/rgnr8_briefing/render.py\<close>: the self-contained page of a
  briefing, with the brand colours of \<open>packages/forecast/src/rgnr8_forecast/brand.py\<close> and
  \<open>html.escape\<close>; and \<open>render_variance_text\<close> of \<open>variance.py\<close>.

  The property is that no text of a briefing adds markup to the page: the markup characters of the
  page depend on its numbers and its shape only.
\<close>

section \<open>Escaping\<close>

definition html_escape_char :: "char \<Rightarrow> string" where
  "html_escape_char c =
     (if c = CHR ''&'' then ''&amp;'' else if c = CHR ''<'' then ''&lt;'' else if c = CHR ''>'' then ''&gt;''
      else if c = CHR 0x22 then ''&quot;'' else if c = CHR 0x27 then ''&#x27;'' else [c])"

definition html_escape :: "string \<Rightarrow> string" where
  "html_escape s = concat (map html_escape_char s)"

text \<open>The characters that delimit tags and attribute values.\<close>

definition is_markup :: "char \<Rightarrow> bool" where
  "is_markup c \<longleftrightarrow> c = CHR ''<'' \<or> c = CHR ''>'' \<or> c = CHR 0x22 \<or> c = CHR 0x27"

lemma escape_char_inert: "filter is_markup (html_escape_char c) = []"
  by (simp add: html_escape_char_def is_markup_def)

lemma escape_inert: "filter is_markup (html_escape s) = []"
  by (induction s) (simp_all add: html_escape_def escape_char_inert)

lemma filter_join_sep: "filter P (join_sep sep xs) = join_sep (filter P sep) (map (filter P) xs)"
  by (induction sep xs rule: join_sep.induct) simp_all

section \<open>The page\<close>

definition BRAND_FOREST :: string where "BRAND_FOREST = ''#0E241E''"
definition BRAND_IVORY :: string where "BRAND_IVORY = ''#F2EFE6''"
definition BRAND_INK_2 :: string where "BRAND_INK_2 = ''#2C3B33''"
definition BRAND_MUTED :: string where "BRAND_MUTED = ''#616D66''"
definition BRAND_LINE :: string where "BRAND_LINE = ''#E2DFD3''"
definition BRAND_POSITIVE :: string where "BRAND_POSITIVE = ''#3E7C5A''"
definition BRAND_WATCH :: string where "BRAND_WATCH = ''#B7791F''"
definition BRAND_RISK :: string where "BRAND_RISK = ''#B4443C''"

fun status_color :: "status_level \<Rightarrow> string" where
  "status_color STABLE = BRAND_POSITIVE"
| "status_color WATCH_LEVEL = BRAND_WATCH"
| "status_color AT_RISK_LEVEL = BRAND_RISK"

text \<open>\<open>b.status.value.replace("_", " ")\<close>.\<close>

fun status_words :: "status_level \<Rightarrow> string" where
  "status_words STABLE = ''STABLE''"
| "status_words WATCH_LEVEL = ''WATCH''"
| "status_words AT_RISK_LEVEL = ''AT RISK''"

definition middle_dot :: string where
  "middle_dot = [CHR 0xC2, CHR 0xB7]"

definition money_row :: "string \<times> string \<times> string \<Rightarrow> string" where \<open>
  money_row = (\<lambda>(l, v, s). ''<tr><td class="lbl">'' @ html_escape l @ ''</td><td class="val">'' @ html_escape v @ ''</td>'' @
    ''<td class="sub">'' @ html_escape s @ ''</td></tr>'')\<close>

definition html_fact :: "fact \<Rightarrow> (string \<times> string \<times> string) res" where
  "html_fact f =
     (case fa_amount f of
        None \<Rightarrow> Inr (fa_label f, text_or_empty (fa_text f), [])
      | Some a \<Rightarrow> res_bind (format_money a) (\<lambda>v. Inr (fa_label f, v, text_or_empty (fa_text f))))"

definition html_driver :: "driver \<Rightarrow> (string \<times> string \<times> string) res" where
  "html_driver d =
     res_bind (format_money (dv_amount d)) (\<lambda>v. Inr (dv_label d, v, fmt_hundredths0 (dv_share_bps d) @ ''% of outflows''))"

definition html_week :: "week_glance \<Rightarrow> string res" where \<open>
  html_week w =
    res_bind (format_money (wg_closing w)) (\<lambda>c.
      Inr (''<tr><td>wk'' @ str_int (wg_index w) @ ''</td><td>'' @ isoformat (wg_start w) @ ''</td>'' @
        ''<td class="val">'' @ c @ ''</td>'' @
        ''<td><span class="dot" style="background:'' @ status_color (wg_status w) @ ''"></span></td></tr>''))\<close>

definition html_action :: "weekly_briefing \<Rightarrow> string" where \<open>
  html_action b =
    (let a = text_or_empty (wb_primary_action b)
     in if a \<noteq> [] then ''<div class="action"><strong>Do this:</strong> '' @ html_escape a @ ''</div>'' else [])\<close>

definition html_drivers :: "(string \<times> string \<times> string) list \<Rightarrow> string" where
  "html_drivers ds =
     (if ds \<noteq> [] then ''<h3>What'' @ [CHR 0x27] @ ''s using your cash</h3><table>'' @ concat (map money_row ds) @ ''</table>''
      else [])"

definition html_data_quality :: "weekly_briefing \<Rightarrow> string" where
  "html_data_quality b =
     (if wb_data_quality b \<noteq> []
      then ''<h3>Heads-up</h3><ul>'' @ concat (map (\<lambda>n. ''<li>'' @ html_escape n @ ''</li>'') (wb_data_quality b)) @ ''</ul>''
      else [])"

definition html_head :: "string \<Rightarrow> string list" where \<open>
  html_head color = [
      ''<!doctype html>'',
      ''<html lang="en"><head><meta charset="utf-8">'',
      ''<meta name="viewport" content="width=device-width, initial-scale=1">'',
      ''<title>RGNR8 weekly cash briefing</title>'',
      ''<style>'',
      ''  body { font: 400 15px/1.55 system-ui,-apple-system, "Segoe UI", Roboto, Helvetica, Arial, sans-serif;'',
      ''         color: '' @ BRAND_FOREST @ ''; margin: 0; background: '' @ BRAND_IVORY @ ''; -webkit-font-smoothing:antialiased; }'',
      ''  .card { max-width: 680px; margin: 24px auto; background: #fff; border-radius: 16px;'',
      ''          box-shadow: 0 1px 2px rgba(14,36,30,.07),0 1px 3px rgba(14,36,30,.05); overflow: hidden;'',
      ''          border:1px solid '' @ BRAND_LINE @ ''; }'',
      ''  .band { background: '' @ color @ ''; color: '' @ BRAND_IVORY @ ''; padding: 18px 24px; }'',
      ''  .wm { font: 600 14px/1 system-ui,-apple-system,"Segoe UI",Roboto,sans-serif; letter-spacing:.22em;'',
      ''         text-transform:uppercase; opacity:.95; margin-bottom:12px; }'',
      ''  .band .badge { font-weight: 700; letter-spacing: .07em; text-transform: uppercase; font-size: 12px; opacity: .95; }'',
      ''  .band h1 { font-family:system-ui,-apple-system,"Segoe UI",Roboto,Helvetica,Arial,sans-serif; font-size: 22px; margin: 6px 0 2px; font-weight:700; letter-spacing:-.01em; }'',
      ''  .band p { margin: 0; opacity: .94; font-size: 13px; }'',
      ''  .body { padding: 20px 24px; }'',
      ''  .action { background: #EAF0EA; border: 1px solid #CBD9CC; border-radius: 10px; padding: 12px 14px; margin: 0 0 18px; }'',
      ''  h3 { font-size: 11px; text-transform: uppercase; letter-spacing: .09em; color: '' @ BRAND_MUTED @ ''; margin: 20px 0 8px; font-weight:700; }'',
      ''  table { width: 100%; border-collapse: collapse; }'',
      ''  td { padding: 7px 0; border-bottom: 1px solid '' @ BRAND_LINE @ ''; font-size: 14px; }'',
      ''  .lbl { color: '' @ BRAND_INK_2 @ ''; } .val { text-align: right; font-variant-numeric: tabular-nums; font-weight: 700; }'',
      ''  .sub { color: '' @ BRAND_MUTED @ ''; font-size: 12px; padding-left: 10px; }'',
      ''  .dot { display: inline-block; width: 10px; height: 10px; border-radius: 50%; }'',
      ''  .foot { color: '' @ BRAND_MUTED @ ''; font-size: 12px; padding: 14px 24px; border-top: 1px solid '' @ BRAND_LINE @ ''; }'',
      ''</style></head>'']\<close>

definition html_body :: "weekly_briefing \<Rightarrow> string \<Rightarrow> (string \<times> string \<times> string) list \<Rightarrow> string \<Rightarrow> string list" where \<open>
  html_body b facts drivers glance = [
      ''<body><div class="card">'',
      ''  <div class="band">'',
      ''    <div class="wm">RGNR8</div>'',
      ''    <div class="badge">'' @ html_escape (status_words (wb_status b)) @ ''</div>'',
      ''    <h1>'' @ html_escape (wb_headline b) @ ''</h1>'',
      ''    <p>'' @ html_escape (wb_status_reason b) @ ''</p>'',
      ''  </div>'',
      ''  <div class="body">'',
      ''    '' @ html_action b,
      ''    <h3>The numbers</h3><table>'' @ facts @ ''</table>'',
      ''    '' @ html_drivers drivers,
      ''    <h3>13-week glance</h3><table>'' @ glance @ ''</table>'',
      ''    '' @ html_data_quality b,
      ''  </div>'',
      ''  <div class="foot">Confidence '' @ str_int (wb_overall_confidence b) @ ''/100 '' @ middle_dot @ '' '' @ html_escape (wb_period_label b) @ '' '' @ middle_dot @ '' version '' @ html_escape (wb_version_id b) @ ''</div>'',
      ''</div></body></html>'']\<close>

definition render_html :: "weekly_briefing \<Rightarrow> string res" where
  "render_html b =
     res_bind (map_res html_fact (wb_facts b)) (\<lambda>facts.
     res_bind (map_res html_driver (wb_drivers b)) (\<lambda>drivers.
     res_bind (map_res html_week (wb_week_glance b)) (\<lambda>glance.
       Inr (join_sep [char_of (10 :: nat)]
         (html_head (status_color (wb_status b)) @ html_body b (concat (map money_row facts)) drivers (concat glance))))))"

section \<open>The comparison as text\<close>

definition variance_line :: "string \<Rightarrow> week_variance \<Rightarrow> string res" where
  "variance_line ccy w =
     (let pct = (case wv_pct_bps w of
             Some p \<Rightarrow> (if p < 0 then ''-'' else ''+'') @ fmt_tenths \<bar>p\<bar> @ ''%'' | None \<Rightarrow> ''n/a'')
      in res_bind (to_decimal_string (wv_expected w)) (\<lambda>expd.
         res_bind (to_decimal_string (wv_actual w)) (\<lambda>act.
           Inr (''  wk'' @ pad_right 2 (str_int (wv_index w)) @ '' expected '' @ ccy @ '' '' @ pad_left 12 expd @
             ''  actual '' @ ccy @ '' '' @ pad_left 12 act @ ''  ('' @ pct @ '')''))))"

definition render_variance_text :: "variance_report \<Rightarrow> string res" where
  "render_variance_text r =
     res_bind (map_res (variance_line (vr_currency r)) (vr_weeks r)) (\<lambda>rows.
       Inr (join_sep [char_of (10 :: nat)] ([''VS. LAST PUBLISHED FORECAST'', ''  '' @ vr_narrative r] @ rows)))"

section \<open>Texts stay texts\<close>

text \<open>A briefing with its texts replaced: labels, reasons, the headline, actions, notes, ids.\<close>

definition retext_fact :: "(string \<Rightarrow> string) \<Rightarrow> fact \<Rightarrow> fact" where
  "retext_fact g f = f\<lparr>fa_label := g (fa_label f), fa_text := map_option g (fa_text f)\<rparr>"

definition retext_driver :: "(string \<Rightarrow> string) \<Rightarrow> driver \<Rightarrow> driver" where
  "retext_driver g d = d\<lparr>dv_label := g (dv_label d)\<rparr>"

definition retext :: "(string \<Rightarrow> string) \<Rightarrow> weekly_briefing \<Rightarrow> weekly_briefing" where
  "retext g b = b\<lparr>wb_period_label := g (wb_period_label b), wb_status_reason := g (wb_status_reason b),
     wb_headline := g (wb_headline b), wb_primary_action := map_option g (wb_primary_action b),
     wb_facts := map (retext_fact g) (wb_facts b), wb_drivers := map (retext_driver g) (wb_drivers b),
     wb_data_quality := map g (wb_data_quality b), wb_version_id := g (wb_version_id b)\<rparr>"

lemma money_row_inert: "filter is_markup (money_row r) = filter is_markup (money_row r')"
  unfolding money_row_def by (cases r; cases r') (simp only: prod.case filter_append escape_inert)

lemma rows_inert: "length rs = length rs' \<Longrightarrow> filter is_markup (concat (map money_row rs)) = filter is_markup (concat (map money_row rs'))"
proof (induction rs rs' rule: list_induct2)
  case (Cons r rs r' rs')
  then show ?case using money_row_inert [of r r'] by (simp only: list.map concat.simps filter_append)
qed simp

lemma map_res_retext:
  assumes "\<forall>x y. f x = Inr y \<longrightarrow> (\<exists>y'. f (h x) = Inr y')"
  shows "map_res f xs = Inr ys \<Longrightarrow> \<exists>ys'. map_res f (map h xs) = Inr ys' \<and> length ys' = length ys"
proof (induction xs arbitrary: ys)
  case (Cons x xs)
  then obtain y zs where y: "f x = Inr y" "map_res f xs = Inr zs" "ys = y # zs" by (auto simp: result_simps)
  with Cons.IH [OF y(2)] assms show ?case by auto
qed simp

lemma html_fact_retext: "html_fact f = Inr r \<Longrightarrow> \<exists>r'. html_fact (retext_fact g f) = Inr r'"
  by (auto simp: html_fact_def retext_fact_def result_simps split: option.splits)

lemma html_driver_retext: "html_driver d = Inr r \<Longrightarrow> \<exists>r'. html_driver (retext_driver g d) = Inr r'"
  by (auto simp: html_driver_def retext_driver_def result_simps)

lemma items_inert:
  "length ns = length ms \<Longrightarrow>
     filter is_markup (concat (map (\<lambda>n. ''<li>'' @ html_escape n @ ''</li>'') ns)) =
     filter is_markup (concat (map (\<lambda>n. ''<li>'' @ html_escape n @ ''</li>'') ms))"
proof (induction ns ms rule: list_induct2)
  case (Cons n ns m ms)
  then show ?case by (simp only: list.map concat.simps filter_append escape_inert)
qed simp

lemma action_inert:
  assumes "text_or_empty (wb_primary_action b') = [] \<longleftrightarrow> text_or_empty (wb_primary_action b) = []"
  shows "filter is_markup (html_action b') = filter is_markup (html_action b)"
  using assms unfolding html_action_def Let_def
  by (cases "text_or_empty (wb_primary_action b) = []") (simp_all only: filter_append escape_inert if_True if_False simp_thms)

lemma data_quality_inert:
  assumes "length (wb_data_quality b') = length (wb_data_quality b)"
  shows "filter is_markup (html_data_quality b') = filter is_markup (html_data_quality b)"
proof -
  have "(wb_data_quality b' \<noteq> []) = (wb_data_quality b \<noteq> [])" using assms by auto
  then show ?thesis unfolding html_data_quality_def using items_inert [OF assms]
    by (cases "wb_data_quality b = []") (simp_all only: filter_append if_True if_False simp_thms)
qed

lemma drivers_inert:
  assumes "length ds' = length ds"
  shows "filter is_markup (html_drivers ds') = filter is_markup (html_drivers ds)"
proof -
  have "(ds' \<noteq> []) = (ds \<noteq> [])" using assms by auto
  then show ?thesis unfolding html_drivers_def using rows_inert [OF assms]
    by (cases "ds = []") (simp_all only: filter_append if_True if_False simp_thms)
qed

text \<open>C35. Replacing the texts of a briefing by any others, tags and quotes included, leaves the markup of its
  page as it is, as long as an action stays an action.\<close>

theorem html_texts_inert:
  assumes "render_html b = Inr h"
    and "text_or_empty (map_option g (wb_primary_action b)) = [] \<longleftrightarrow> text_or_empty (wb_primary_action b) = []"
  shows "\<exists>h'. render_html (retext g b) = Inr h' \<and> filter is_markup h' = filter is_markup h"
proof -
  let ?b = "retext g b"
  obtain facts drivers glance where fs: "map_res html_fact (wb_facts b) = Inr facts"
    and ds: "map_res html_driver (wb_drivers b) = Inr drivers" and gs: "map_res html_week (wb_week_glance b) = Inr glance"
    and h: "h = join_sep [char_of (10 :: nat)]
      (html_head (status_color (wb_status b)) @ html_body b (concat (map money_row facts)) drivers (concat glance))"
    using assms(1) by (auto simp: render_html_def result_simps)
  obtain facts' where fs': "map_res html_fact (wb_facts ?b) = Inr facts'" "length facts' = length facts"
    using map_res_retext [OF _ fs, of "retext_fact g"] html_fact_retext by (fastforce simp: retext_def)
  obtain drivers' where ds': "map_res html_driver (wb_drivers ?b) = Inr drivers'" "length drivers' = length drivers"
    using map_res_retext [OF _ ds, of "retext_driver g"] html_driver_retext by (fastforce simp: retext_def)
  have same: "wb_status ?b = wb_status b" "wb_week_glance ?b = wb_week_glance b"
    "wb_overall_confidence ?b = wb_overall_confidence b" by (simp_all add: retext_def)
  have act: "filter is_markup (html_action ?b) = filter is_markup (html_action b)"
    using assms(2) by (intro action_inert) (simp add: retext_def)
  have dq: "filter is_markup (html_data_quality ?b) = filter is_markup (html_data_quality b)"
    by (intro data_quality_inert) (simp add: retext_def)
  have body: "map (filter is_markup) (html_body ?b (concat (map money_row facts')) drivers' (concat glance)) =
      map (filter is_markup) (html_body b (concat (map money_row facts)) drivers (concat glance))"
    unfolding html_body_def
    by (simp only: list.map filter_append escape_inert act dq rows_inert [OF fs'(2)] drivers_inert [OF ds'(2)] same)
  show ?thesis
    unfolding h render_html_def fs' ds' gs same
    by (simp add: gs filter_join_sep body)
qed

definition example_page :: weekly_briefing where
  "example_page = \<lparr>wb_as_of = 738000, wb_currency = ''USD'', wb_period_label = ''week 1'', wb_status = WATCH_LEVEL,
     wb_status_reason = ''thin'', wb_headline = ''a'', wb_primary_action = Some ''Call B'',
     wb_facts = [\<lparr>fa_key = ''k'', fa_label = ''Cash'', fa_evidence = field_evidence ''opening'',
       fa_amount = Some (Money 12345 ''USD''), fa_text = None, fa_confidence = None\<rparr>],
     wb_drivers = [], wb_week_glance = [], wb_data_quality = [''n''], wb_overall_confidence = 80, wb_version_id = ''v''\<rparr>"

theorem html_texts_inert_witness:
  "\<exists>h h'. render_html example_page = Inr h \<and>
     render_html (retext (\<lambda>s. if s = [] then [] else ''<script>'') example_page) = Inr h' \<and>
     filter is_markup h' = filter is_markup h"
proof -
  obtain v where v: "format_money (Money 12345 ''USD'') = Inr v"
    using format_money_total [of "Money 12345 ''USD''"] by (auto simp: known_currency_def currency_scale_def)
  have "\<exists>h. render_html example_page = Inr h"
    by (simp add: render_html_def example_page_def html_fact_def v)
  then obtain h where h: "render_html example_page = Inr h" by blast
  with html_texts_inert [OF h, of "\<lambda>s. if s = [] then [] else ''<script>''"] show ?thesis
    by (simp add: example_page_def text_or_empty_def)
qed

end
