(* ===== verification/Datetimes.thy ===== *)
theory Datetimes
  imports Dates
begin

text \<open>
  Python's \<open>datetime\<close> as the schedulers use it. A datetime is its wall clock in microseconds since
  the day before 0001-01-01, its \<open>fold\<close> and its zone. Datetimes of one zone compare by wall clock,
  others by their offsets, as Python compares them; the zone database is an argument (record
  \<open>tzdb\<close>).

  The lemma \<open>timestamp_le\<close> shows that the fixed-width timestamps of the lease table compare as strings
  the way the wall clocks compare.
\<close>

section \<open>Datetimes\<close>

datatype zone = Naive | Named string | Fixed int

record datetime =
  dt_wall :: int
  dt_fold :: bool
  dt_zone :: zone

record tzdb =
  tz_local :: "string \<Rightarrow> int \<Rightarrow> (int \<times> bool) res" \<comment> \<open>wall clock and fold of an instant; raises on an unknown name\<close>
  tz_offset :: "string \<Rightarrow> int \<Rightarrow> bool \<Rightarrow> int"

definition DAY :: int where
  "DAY = 86400000000"

lemma DAY_pos [simp]: "0 < DAY" "DAY \<noteq> 0" "0 \<le> DAY"
  by (simp_all add: DAY_def)

definition offset_of :: "tzdb \<Rightarrow> datetime \<Rightarrow> int" where
  "offset_of tz d = (case dt_zone d of Naive \<Rightarrow> 0 | Named z \<Rightarrow> tz_offset tz z (dt_wall d) (dt_fold d) | Fixed off \<Rightarrow> off)"

definition utc_of :: "tzdb \<Rightarrow> datetime \<Rightarrow> int" where
  "utc_of tz d = dt_wall d - offset_of tz d"

definition dt_less :: "tzdb \<Rightarrow> datetime \<Rightarrow> datetime \<Rightarrow> bool res" where
  "dt_less tz a b =
     (if dt_zone a = dt_zone b then Inr (dt_wall a < dt_wall b)
      else if dt_zone a = Naive \<or> dt_zone b = Naive then Inl TypeError
      else Inr (utc_of tz a < utc_of tz b))"

definition weekday_of :: "datetime \<Rightarrow> int" where
  "weekday_of d = (dt_wall d div DAY + 6) mod 7"

text \<open>\<open>replace(hour, minute, second=0, microsecond=0)\<close> keeps the fold; adding a timedelta clears it.\<close>

definition at_time :: "int \<Rightarrow> int \<Rightarrow> datetime \<Rightarrow> datetime res" where
  "at_time hour minute d =
     (if 0 \<le> hour \<and> hour \<le> 23 \<and> 0 \<le> minute \<and> minute \<le> 59
      then Inr (d\<lparr>dt_wall := dt_wall d div DAY * DAY + (hour * 60 + minute) * 60000000\<rparr>)
      else Inl ValueError)"

definition add_days :: "int \<Rightarrow> datetime \<Rightarrow> datetime res" where
  "add_days n d =
     (let wall = dt_wall d + n * DAY
      in if valid_date (wall div DAY) then Inr (d\<lparr>dt_wall := wall, dt_fold := False\<rparr>) else Inl OverflowError)"

definition dt_le :: "tzdb \<Rightarrow> datetime \<Rightarrow> datetime \<Rightarrow> bool res" where
  "dt_le tz a b =
     (if dt_zone a = dt_zone b then Inr (dt_wall a \<le> dt_wall b)
      else if dt_zone a = Naive \<or> dt_zone b = Naive then Inl TypeError
      else Inr (utc_of tz a \<le> utc_of tz b))"

text \<open>\<open>a - b\<close> and \<open>a + delta\<close>, in microseconds.\<close>

definition dt_minus :: "tzdb \<Rightarrow> datetime \<Rightarrow> datetime \<Rightarrow> int res" where
  "dt_minus tz a b =
     (if dt_zone a = dt_zone b then Inr (dt_wall a - dt_wall b)
      else if dt_zone a = Naive \<or> dt_zone b = Naive then Inl TypeError
      else Inr (utc_of tz a - utc_of tz b))"

definition dt_plus :: "datetime \<Rightarrow> int \<Rightarrow> datetime res" where
  "dt_plus d delta =
     (let wall = dt_wall d + delta
      in if valid_date (wall div DAY) then Inr (d\<lparr>dt_wall := wall, dt_fold := False\<rparr>) else Inl OverflowError)"

section \<open>Fixed-width timestamps\<close>

text \<open>\<open>strftime("%Y-%m-%dT%H:%M:%S.%f")\<close> for a year of four digits.\<close>

definition padded :: "nat \<Rightarrow> int \<Rightarrow> string" where
  "padded w n = rjust w CHR ''0'' (str_nat (nat n))"

definition timestamp :: "datetime \<Rightarrow> string" where
  "timestamp d =
     (let day = dt_wall d div DAY; t = dt_wall d mod DAY
      in padded 4 (year_of day) @ CHR ''-'' # padded 2 (month_of day) @ CHR ''-'' # padded 2 (day_of day) @ CHR ''T'' #
         padded 2 (t div 3600000000) @ CHR '':'' # padded 2 (t div 60000000 mod 60) @ CHR '':'' #
         padded 2 (t div 1000000 mod 60) @ CHR ''.'' # padded 6 (t mod 1000000))"

definition four_digit_year :: "datetime \<Rightarrow> bool" where
  "four_digit_year d \<longleftrightarrow> 1000 \<le> year_of (dt_wall d div DAY) \<and> year_of (dt_wall d div DAY) \<le> 9999 \<and> 1 \<le> dt_wall d div DAY"

lemma digit_char_less: "is_digit c \<Longrightarrow> is_digit c' \<Longrightarrow> c < c' \<longleftrightarrow> digit_val c < digit_val c'"
  by (auto simp: is_digit_def digit_val_def less_char_def)

lemma digit_val_inj: "is_digit c \<Longrightarrow> is_digit c' \<Longrightarrow> digit_val c = digit_val c' \<longleftrightarrow> c = c'"
  using digit_char_less [of c c'] digit_char_less [of c' c] by (metis less_irrefl linorder_less_linear)

lemma int_of_digits_Cons: "int_of_digits (c # s) = digit_val c * 10 ^ length s + int_of_digits s"
  using int_of_digits_append [of "[c]" s] int_of_digits_snoc [of "[]" c] by simp

lemma digits_compare:
  assumes "length s = length s'" "list_all is_digit s" "list_all is_digit s'"
  shows "(s @ u \<le> s' @ u') = (int_of_digits s < int_of_digits s' \<or> int_of_digits s = int_of_digits s' \<and> u \<le> u')"
  using assms
proof (induction s s' rule: list_induct2)
  case (Cons c s c' s')
  let ?k = "10 ^ length s' :: nat"
  have b: "int_of_digits s < ?k" "int_of_digits s' < ?k"
    using Cons.prems Cons.hyps int_of_digits_less [of s] int_of_digits_less [of s'] by simp_all
  have less: "digit_val c * ?k + int_of_digits s < digit_val c' * ?k + int_of_digits s'" if "digit_val c < digit_val c'"
  proof -
    have "(digit_val c + 1) * ?k \<le> digit_val c' * ?k" using that by (intro mult_right_mono) simp_all
    then show ?thesis using b by simp
  qed
  have greater: "digit_val c' * ?k + int_of_digits s' < digit_val c * ?k + int_of_digits s" if "digit_val c' < digit_val c"
  proof -
    have "(digit_val c' + 1) * ?k \<le> digit_val c * ?k" using that by (intro mult_right_mono) simp_all
    then show ?thesis using b by simp
  qed
  consider "digit_val c < digit_val c'" | "digit_val c = digit_val c'" | "digit_val c' < digit_val c" by linarith
  then show ?case
    using Cons less greater
    by cases (auto simp: digit_char_less digit_val_inj int_of_digits_Cons)
qed simp

lemma str_nat_length: "n < 10 ^ w \<Longrightarrow> 0 < w \<Longrightarrow> length (str_nat n) \<le> w"
proof (induction n arbitrary: w rule: str_nat.induct)
  case (1 n)
  show ?case
  proof (cases "n < 10")
    case False
    then obtain v where v: "w = Suc v" "0 < v" using 1(2,3) by (cases w; cases "w - 1") auto
    then have "n div 10 < 10 ^ v" using 1(2) by (simp add: less_mult_imp_div_less mult.commute)
    then show ?thesis using 1(1) [OF False] v False by (subst str_nat.simps) simp
  qed (use 1 in \<open>subst str_nat.simps, simp\<close>)
qed

lemma padded_compare:
  assumes "0 \<le> a" "a < 10 ^ w" "0 \<le> b" "b < 10 ^ w" "0 < w"
  shows "(padded w a @ u \<le> padded w b @ u') = (a < b \<or> a = b \<and> u \<le> u')"
proof -
  have n: "nat a < 10 ^ w" "nat b < 10 ^ w" using assms by (simp_all add: nat_less_iff)
  have "length (padded w a) = w" "length (padded w b) = w"
    using str_nat_length [OF n(1) assms(5)] str_nat_length [OF n(2) assms(5)] by (simp_all add: padded_def rjust_def)
  moreover have "list_all is_digit (padded w c)" for c
    using str_nat_digits [of "nat c"] by (auto simp: padded_def rjust_def list_all_iff is_digit_def)
  moreover have "int_of_digits (padded w c) = nat c" for c by (simp add: padded_def rjust_def int_of_digits_zeros)
  ultimately show ?thesis using digits_compare [of "padded w a" "padded w b" u u'] assms(1,3) by auto
qed


lemma date_lex:
  assumes "1 \<le> n" "1 \<le> n'"
  shows "n < n' \<longleftrightarrow> year_of n < year_of n' \<or> year_of n = year_of n' \<and>
    (month_of n < month_of n' \<or> month_of n = month_of n' \<and> day_of n < day_of n')"
proof -
  note a = month_index_bounds [OF assms(1)] and b = month_index_bounds [OF assms(2)]
  have m: "1 \<le> month_of n" "month_of n \<le> 12" "1 \<le> month_of n'" "month_of n' \<le> 12"
    using ymd_of_bounds(2) [OF assms(1)] ymd_of_bounds(2) [OF assms(2)] by (simp_all add: valid_ymd_def)
  have lt: "n < n'" if "month_index n < month_index n'" using that month_start_less [of "month_index n" "month_index n'"] a(2) b(1) by linarith
  have gt: "n' < n" if "month_index n' < month_index n" using that month_start_less [of "month_index n'" "month_index n"] a(1) b(2) by linarith
  have eq: "n < n' \<longleftrightarrow> day_of n < day_of n'" if "month_index n = month_index n'"
    using a(5) b(5) unfolding that by linarith
  have idx: "month_index n < month_index n' \<longleftrightarrow> year_of n < year_of n' \<or> year_of n = year_of n' \<and> month_of n < month_of n'"
    "month_index n = month_index n' \<longleftrightarrow> year_of n = year_of n' \<and> month_of n = month_of n'"
    unfolding month_index_def using m by presburger+
  show ?thesis using lt gt eq idx by (metis linorder_less_linear less_asym)
qed

lemma divmod_order:
  fixes t t' k :: int
  assumes "0 < k"
  shows "t \<le> t' \<longleftrightarrow> t div k < t' div k \<or> t div k = t' div k \<and> t mod k \<le> t' mod k"
    and "t < t' \<longleftrightarrow> t div k < t' div k \<or> t div k = t' div k \<and> t mod k < t' mod k"
proof -
  have e: "t = t div k * k + t mod k" "t' = t' div k * k + t' mod k" by simp_all
  have b: "0 \<le> t mod k" "t mod k < k" "0 \<le> t' mod k" "t' mod k < k" using assms by simp_all
  have lt: "t < t'" if "t div k < t' div k"
  proof -
    have "(t div k + 1) * k \<le> t' div k * k" using that assms by (intro mult_right_mono) simp_all
    then show ?thesis using e b by (simp only: distrib_right; linarith)
  qed
  have gt: "t' < t" if "t' div k < t div k"
  proof -
    have "(t' div k + 1) * k \<le> t div k * k" using that assms by (intro mult_right_mono) simp_all
    then show ?thesis using e b by (simp only: distrib_right; linarith)
  qed
  have eq: "t \<le> t' \<longleftrightarrow> t mod k \<le> t' mod k" "t < t' \<longleftrightarrow> t mod k < t' mod k" if "t div k = t' div k"
    using e unfolding that by linarith+
  show "t \<le> t' \<longleftrightarrow> t div k < t' div k \<or> t div k = t' div k \<and> t mod k \<le> t' mod k"
    and "t < t' \<longleftrightarrow> t div k < t' div k \<or> t div k = t' div k \<and> t mod k < t' mod k"
    using lt gt eq by (metis less_imp_le linorder_less_linear not_less)+
qed

lemma time_lex:
  fixes t t' :: int
  shows "t \<le> t' \<longleftrightarrow> t div 3600000000 < t' div 3600000000 \<or> t div 3600000000 = t' div 3600000000 \<and>
    (t div 60000000 mod 60 < t' div 60000000 mod 60 \<or> t div 60000000 mod 60 = t' div 60000000 mod 60 \<and>
    (t div 1000000 mod 60 < t' div 1000000 mod 60 \<or> t div 1000000 mod 60 = t' div 1000000 mod 60 \<and>
     t mod 1000000 \<le> t' mod 1000000))"
proof -
  have e: "u div 60000000 = u div 1000000 div 60" "u div 3600000000 = u div 1000000 div 60 div 60" for u :: int
    by (simp_all add: zdiv_zmult2_eq [symmetric])
  have eq: "u = u' \<longleftrightarrow> u div 60 = u' div 60 \<and> u mod 60 = u' mod 60" for u u' :: int
    by (metis div_mult_mod_eq)
  show ?thesis
    unfolding e
    by (subst divmod_order(1) [of 1000000], simp,
        subst divmod_order(2) [of 60 "t div 1000000"], simp,
        subst divmod_order(2) [of 60 "t div 1000000 div 60"], simp,
        use eq [of "t div 1000000" "t' div 1000000"] eq [of "t div 1000000 div 60" "t' div 1000000 div 60"] in blast)
qed

text \<open>Timestamps of years with four digits compare as the wall clocks do.\<close>

lemma timestamp_le:
  assumes "four_digit_year d" "four_digit_year d'"
  shows "timestamp d \<le> timestamp d' \<longleftrightarrow> dt_wall d \<le> dt_wall d'"
proof -
  define n t n' t' where "n = dt_wall d div DAY" and "t = dt_wall d mod DAY"
    and "n' = dt_wall d' div DAY" and "t' = dt_wall d' mod DAY"
  have n: "1 \<le> n" "1 \<le> n'" "0 \<le> year_of n" "year_of n < 10 ^ 4" "0 \<le> year_of n'" "year_of n' < 10 ^ 4"
    using assms by (simp_all add: four_digit_year_def n_def n'_def)
  have m: "0 \<le> month_of n" "month_of n < 10 ^ 2" "0 \<le> month_of n'" "month_of n' < 10 ^ 2"
    using ymd_of_bounds(2) [OF n(1)] ymd_of_bounds(2) [OF n(2)] by (simp_all add: valid_ymd_def)
  have dd: "0 \<le> day_of n" "day_of n < 10 ^ 2" "0 \<le> day_of n'" "day_of n' < 10 ^ 2"
    using month_index_bounds(3,4) [OF n(1)] month_index_bounds(3,4) [OF n(2)] by simp_all
  have t: "0 \<le> t" "t < DAY" "0 \<le> t'" "t' < DAY" by (simp_all add: t_def t'_def)
  then have h: "0 \<le> t div 3600000000" "t div 3600000000 < 10 ^ 2" "0 \<le> t' div 3600000000" "t' div 3600000000 < 10 ^ 2"
    by (simp_all add: DAY_def)
  have s: "0 \<le> u mod 60" "u mod 60 < 10 ^ 2" "0 \<le> u mod 1000000" "u mod 1000000 < 10 ^ 6" for u :: int
    using pos_mod_bound [of 60 u] by (simp_all add: less_le_trans)
  have wall: "dt_wall d = n * DAY + t" "dt_wall d' = n' * DAY + t'" by (simp_all add: n_def t_def n'_def t'_def)
  have lt: "n * DAY + t < n' * DAY + t'" if "n < n'"
  proof -
    have "(n + 1) * DAY \<le> n' * DAY" using that by (intro mult_right_mono) simp_all
    then show ?thesis using t by (simp add: algebra_simps)
  qed
  have gt: "n' * DAY + t' < n * DAY + t" if "n' < n"
  proof -
    have "(n' + 1) * DAY \<le> n * DAY" using that by (intro mult_right_mono) simp_all
    then show ?thesis using t by (simp add: algebra_simps)
  qed
  have date_eq: "n = n' \<longleftrightarrow> year_of n = year_of n' \<and> month_of n = month_of n' \<and> day_of n = day_of n'"
    using date_lex [OF n(1,2)] date_lex [OF n(2,1)] by (metis less_irrefl linorder_less_linear)
  have "dt_wall d \<le> dt_wall d' \<longleftrightarrow> n < n' \<or> n = n' \<and> t \<le> t'"
    using lt gt unfolding wall by (cases "n < n'"; cases "n' < n") auto
  also have "\<dots> \<longleftrightarrow> timestamp d \<le> timestamp d'"
    unfolding timestamp_def Let_def n_def [symmetric] t_def [symmetric] n'_def [symmetric] t'_def [symmetric]
    by (simp add: padded_compare [OF n(3-6)] padded_compare [OF m] padded_compare [OF dd] padded_compare [OF h]
        padded_compare [OF s(1,2) s(1,2)] padded_compare [OF s(3,4) s(3,4), where u = "[]" and u' = "[]", simplified]
        date_lex [OF n(1,2)] time_lex [of t t'] date_eq) (auto simp: le_less)
  finally show ?thesis by simp
qed

end
