(* ===== verification/Briefing_Schedule.thy ===== *)
theory Briefing_Schedule
  imports Briefing_Html Datetimes
begin

text \<open>
  The weekly delivery: \<open>scheduler.py\<close>, \<open>delivery.py\<close> and \<open>providers.py\<close> of
  \<open>packages/briefing\<close>, and \<open>subscriptions.py\<close>, \<open>manager.py\<close> and \<open>runtime.py\<close> of
  \<open>packages/runtime\<close>.

  The zone database is an argument (record \<open>tzdb\<close>), as are the forecast behind an envelope and the
  transports.
\<close>

section \<open>When a schedule fires\<close>

record schedule =
  sch_weekday :: int
  sch_hour :: int
  sch_minute :: int
  sch_timezone :: string

definition default_schedule :: schedule where
  "default_schedule = \<lparr>sch_weekday = 0, sch_hour = 8, sch_minute = 0, sch_timezone = ''America/Denver''\<rparr>"

definition in_zone :: "tzdb \<Rightarrow> datetime \<Rightarrow> schedule \<Rightarrow> datetime res" where
  "in_zone tz when sch =
     (if dt_zone when = Naive then Inl ValueError
      else res_bind (tz_local tz (sch_timezone sch) (utc_of tz when)) (\<lambda>(wall, fld).
        Inr \<lparr>dt_wall = wall, dt_fold = fld, dt_zone = Named (sch_timezone sch)\<rparr>))"

definition most_recent_fire :: "tzdb \<Rightarrow> schedule \<Rightarrow> datetime \<Rightarrow> datetime res" where
  "most_recent_fire tz sch now =
     res_bind (in_zone tz now sch) (\<lambda>loc.
       let days_back = (weekday_of loc - sch_weekday sch) mod 7
       in res_bind (at_time (sch_hour sch) (sch_minute sch) loc) (\<lambda>r.
          res_bind (add_days (- days_back) r) (\<lambda>candidate.
          res_bind (dt_less tz loc candidate) (\<lambda>future.
            if future then add_days (- 7) candidate else Inr candidate))))"

definition next_fire :: "tzdb \<Rightarrow> schedule \<Rightarrow> datetime \<Rightarrow> datetime res" where
  "next_fire tz sch after =
     res_bind (in_zone tz after sch) (\<lambda>loc.
       let days_ahead = (sch_weekday sch - weekday_of loc) mod 7
       in res_bind (at_time (sch_hour sch) (sch_minute sch) loc) (\<lambda>r.
          res_bind (add_days days_ahead r) (\<lambda>candidate.
          res_bind (dt_less tz loc candidate) (\<lambda>future.
            if \<not> future then add_days 7 candidate else Inr candidate))))"

definition schedule_is_due :: "tzdb \<Rightarrow> schedule \<Rightarrow> datetime \<Rightarrow> datetime option \<Rightarrow> bool res" where
  "schedule_is_due tz sch now last_sent =
     res_bind (most_recent_fire tz sch now) (\<lambda>fire.
       case last_sent of None \<Rightarrow> Inr True | Some l \<Rightarrow> dt_less tz l fire)"

section \<open>Envelopes and providers\<close>

record briefing_envelope =
  en_recipient :: string
  en_subject :: string
  en_priority :: priority
  en_channels :: "channel list"
  en_text_body :: string
  en_html_body :: string
  en_deep_links :: "(string \<times> string) list"
  en_schedule :: schedule

record receipt =
  rc_recipient :: string
  rc_subject :: string
  rc_channels :: "channel list"
  rc_priority :: priority
  rc_delivered_at :: string
  rc_status :: string

definition build_envelope ::
  "weekly_briefing \<Rightarrow> string \<Rightarrow> string \<Rightarrow> string \<Rightarrow> variance_report option \<Rightarrow> schedule option \<Rightarrow> briefing_envelope res" where
  "build_envelope b recipient tenant_id base_url variance sch =
     (let priority = choose_priority b variance
      in res_bind (render_text b) (\<lambda>text.
         res_bind (case variance of
             Some v \<Rightarrow> res_bind (render_variance_text v) (\<lambda>vt. Inr (text @ [char_of (10 :: nat), char_of (10 :: nat)] @ vt))
           | None \<Rightarrow> Inr text) (\<lambda>text_body.
         res_bind (render_html b) (\<lambda>html.
           Inr \<lparr>en_recipient = recipient, en_subject = subject_for b, en_priority = priority,
             en_channels = channels_for priority, en_text_body = text_body, en_html_body = html,
             en_deep_links = deep_links base_url tenant_id b,
             en_schedule = (case sch of Some s \<Rightarrow> s | None \<Rightarrow> default_schedule)\<rparr>))))"

type_synonym ('k, 'v) mail_deliverer = "'v \<Rightarrow> string \<Rightarrow> ('k, receipt) meth"

definition recording_deliverer :: "(briefing_envelope list, briefing_envelope) mail_deliverer" where
  "recording_deliverer e at_stamp =
     seqm (modify (\<lambda>sent. sent @ [e]))
       (ret \<lparr>rc_recipient = en_recipient e, rc_subject = en_subject e, rc_channels = en_channels e,
             rc_priority = en_priority e, rc_delivered_at = at_stamp, rc_status = ''SENT''\<rparr>)"

text \<open>The transports return a provider's message id or raise; only \<open>TransportError\<close> is caught.\<close>

record 'k transports =
  send_email :: "string \<Rightarrow> string \<Rightarrow> string \<Rightarrow> string \<Rightarrow> ('k, string) meth"
  send_push :: "(string \<Rightarrow> string \<Rightarrow> string \<Rightarrow> ('k, string) meth) option"

text \<open>\<open>p in s\<close> and the first of \<open>s.splitlines()\<close>.\<close>

definition contains :: "string \<Rightarrow> string \<Rightarrow> bool" where
  "contains p s \<longleftrightarrow> list_ex (\<lambda>i. starts_with p (drop i s)) [0..<Suc (length s)]"

definition first_line :: "string \<Rightarrow> string" where
  "first_line s = takeWhile (\<lambda>c. let n = of_char c :: nat in \<not> (10 \<le> n \<and> n \<le> 13) \<and> \<not> (28 \<le> n \<and> n \<le> 30)) s"

definition push_body :: "briefing_envelope \<Rightarrow> string" where
  "push_body e =
     (case find (\<lambda>(label, url). contains ''action'' url) (en_deep_links e) of
        Some (label, url) \<Rightarrow> label
      | None \<Rightarrow> (let t = strip (en_text_body e) in if t = [] then en_subject e else first_line t))"

record sending =
  sg_succeeded :: "channel list"
  sg_failures :: "string list"
  sg_message_ids :: "string list"

definition try_channel ::
  "channel \<Rightarrow> string \<Rightarrow> ('k, string) meth \<Rightarrow> sending \<Rightarrow> ('k, sending) meth" where
  "try_channel ch label send x k =
     (case send k of
        (Inr mid, k') \<Rightarrow>
          (Inr (x\<lparr>sg_succeeded := sg_succeeded x @ [ch], sg_message_ids := sg_message_ids x @ [label @ '':'' @ mid]\<rparr>), k')
      | (Inl (TransportError m), k') \<Rightarrow> (Inr (x\<lparr>sg_failures := sg_failures x @ [label @ '': '' @ m]\<rparr>), k')
      | (Inl err, k') \<Rightarrow> (Inl err, k'))"

primrec send_channels :: "'k transports \<Rightarrow> briefing_envelope \<Rightarrow> channel list \<Rightarrow> sending \<Rightarrow> ('k, sending) meth" where
  "send_channels tr e [] x = ret x"
| "send_channels tr e (ch # chs) x =
     (case ch of
        EMAIL \<Rightarrow> bind (try_channel EMAIL ''EMAIL''
          (send_email tr (en_recipient e) (en_subject e) (en_text_body e) (en_html_body e)) x) (send_channels tr e chs)
      | PUSH \<Rightarrow>
          (case send_push tr of
             None \<Rightarrow> send_channels tr e chs
               (x\<lparr>sg_failures := sg_failures x @ [''PUSH: no push transport configured'']\<rparr>)
           | Some push \<Rightarrow> bind (try_channel PUSH ''PUSH''
               (push (en_recipient e) (en_subject e) (push_body e)) x) (send_channels tr e chs)))"

definition provider_deliverer :: "'k transports \<Rightarrow> ('k, briefing_envelope) mail_deliverer" where
  "provider_deliverer tr e at_stamp =
     bind (send_channels tr e (en_channels e) \<lparr>sg_succeeded = [], sg_failures = [], sg_message_ids = []\<rparr>) (\<lambda>x.
       let status = (if sg_succeeded x \<noteq> [] \<and> sg_failures x = [] then ''SENT''
             else if sg_succeeded x \<noteq> [] then ''PARTIAL'' else ''FAILED'');
           detail = join_sep ''; '' (sg_message_ids x @ sg_failures x)
       in ret \<lparr>rc_recipient = en_recipient e, rc_subject = en_subject e, rc_channels = sg_succeeded x,
               rc_priority = en_priority e, rc_delivered_at = at_stamp,
               rc_status = (if detail = [] then status else status @ '' ('' @ detail @ '')'')\<rparr>)"

section \<open>Sending what is due\<close>

record subscription =
  sub_tenant_id :: string
  sub_recipient :: string
  sub_schedule :: schedule
  sub_last_sent :: "datetime option"
  sub_active :: bool

record outcome =
  oc_tenant_id :: string
  oc_fired :: bool
  oc_fire_time :: "datetime option"
  oc_receipt :: "receipt option"
  oc_skipped_reason :: "string option"

definition skipped :: "subscription \<Rightarrow> datetime option \<Rightarrow> string \<Rightarrow> outcome" where
  "skipped s fire reason =
     \<lparr>oc_tenant_id = sub_tenant_id s, oc_fired = False, oc_fire_time = fire, oc_receipt = None,
      oc_skipped_reason = Some reason\<rparr>"

text \<open>One subscription: its outcome and the subscription as the loop leaves it. An exception leaves it
  unchanged.\<close>

definition run_one ::
  "tzdb \<Rightarrow> datetime \<Rightarrow> (subscription \<Rightarrow> 'v option res) \<Rightarrow> ('k, 'v) mail_deliverer \<Rightarrow> string \<Rightarrow> subscription
     \<Rightarrow> ('k, outcome \<times> subscription) meth" where
  "run_one tz now envelope_for send stamp s =
     (if \<not> sub_active s then ret (skipped s None ''paused'', s)
      else bind (lift_res (schedule_is_due tz (sub_schedule s) now (sub_last_sent s))) (\<lambda>due.
        if \<not> due then ret (skipped s None ''not_due'', s)
        else bind (lift_res (most_recent_fire tz (sub_schedule s) now)) (\<lambda>fire.
          bind (lift_res (envelope_for s)) (\<lambda>env.
            case env of
              None \<Rightarrow> ret (skipped s (Some fire) ''no_envelope'', s)
            | Some e \<Rightarrow> bind (send e stamp) (\<lambda>rc.
                ret (\<lparr>oc_tenant_id = sub_tenant_id s, oc_fired = True, oc_fire_time = Some fire, oc_receipt = Some rc,
                      oc_skipped_reason = None\<rparr>, s\<lparr>sub_last_sent := Some fire\<rparr>))))))"

text \<open>The loop, with the subscriptions as it leaves them beside the result: those before an exception
  have been mutated, the others not.\<close>

primrec run_due ::
  "tzdb \<Rightarrow> datetime \<Rightarrow> (subscription \<Rightarrow> 'v option res) \<Rightarrow> ('k, 'v) mail_deliverer \<Rightarrow> string \<Rightarrow> subscription list \<Rightarrow> 'k
     \<Rightarrow> outcome list res \<times> subscription list \<times> 'k" where
  "run_due tz now envelope_for send stamp [] k = (Inr [], [], k)"
| "run_due tz now envelope_for send stamp (s # subs) k =
     (case run_one tz now envelope_for send stamp s k of
        (Inl e, k') \<Rightarrow> (Inl e, s # subs, k')
      | (Inr (oc, s'), k') \<Rightarrow>
          (case run_due tz now envelope_for send stamp subs k' of
             (r, subs', k'') \<Rightarrow> (res_bind r (\<lambda>ocs. Inr (oc # ocs)), s' # subs', k'')))"

section \<open>Subscription stores\<close>

text \<open>\<open>sso_mutated\<close> is the effect on the store of mutating the listed objects in place.\<close>

record 's sub_store_ops =
  sso_list :: "'s \<Rightarrow> subscription list"
  sso_save :: "subscription \<Rightarrow> 's \<Rightarrow> 's"
  sso_remove :: "string \<Rightarrow> string \<Rightarrow> 's \<Rightarrow> 's"
  sso_mutated :: "subscription list \<Rightarrow> 's \<Rightarrow> 's"

definition sub_key :: "subscription \<Rightarrow> string \<times> string" where
  "sub_key s = (sub_tenant_id s, sub_recipient s)"

type_synonym mem_subs = "((string \<times> string) \<times> subscription) list"

definition mem_sub_store :: "mem_subs sub_store_ops" where
  "mem_sub_store =
     \<lparr>sso_list = map snd, sso_save = (\<lambda>s. AList.update (sub_key s) s),
      sso_remove = (\<lambda>t r. AList.delete (t, r)),
      sso_mutated = (\<lambda>subs st. fold (\<lambda>s. AList.update (sub_key s) s) subs st)\<rparr>"

text \<open>A row: \<open>last_sent\<close> is stored as \<open>isoformat()\<close> and read back with the fixed offset it shows.\<close>

record sub_row =
  sr_schedule :: schedule
  sr_last_sent :: "datetime option"
  sr_active :: int

type_synonym sub_table = "((string \<times> string) \<times> sub_row) list"

definition stored_datetime :: "tzdb \<Rightarrow> datetime \<Rightarrow> datetime" where
  "stored_datetime tz d =
     (if dt_zone d = Naive then d\<lparr>dt_fold := False\<rparr>
      else \<lparr>dt_wall = dt_wall d, dt_fold = False, dt_zone = Fixed (offset_of tz d)\<rparr>)"

definition row_of_sub :: "tzdb \<Rightarrow> subscription \<Rightarrow> sub_row" where
  "row_of_sub tz s =
     \<lparr>sr_schedule = sub_schedule s, sr_last_sent = map_option (stored_datetime tz) (sub_last_sent s),
      sr_active = (if sub_active s then 1 else 0)\<rparr>"

definition sub_of_row :: "(string \<times> string) \<times> sub_row \<Rightarrow> subscription" where
  "sub_of_row = (\<lambda>((t, rcp), row).
     \<lparr>sub_tenant_id = t, sub_recipient = rcp, sub_schedule = sr_schedule row, sub_last_sent = sr_last_sent row,
      sub_active = (sr_active row \<noteq> 0)\<rparr>)"

definition sql_sub_store :: "tzdb \<Rightarrow> sub_table sub_store_ops" where
  "sql_sub_store tz =
     \<lparr>sso_list = (\<lambda>t. sort_key sub_key (map sub_of_row t)),
      sso_save = (\<lambda>s. AList.update (sub_key s) (row_of_sub tz s)),
      sso_remove = (\<lambda>t r. AList.delete (t, r)),
      sso_mutated = (\<lambda>subs t. t)\<rparr>"

section \<open>The runtime\<close>

record ('s, 'k) runtime_state =
  rt_store :: 's
  rt_sink :: 'k

definition save_fired :: "'s sub_store_ops \<Rightarrow> (subscription \<times> outcome) list \<Rightarrow> 's \<Rightarrow> 's" where
  "save_fired ops pairs st = fold (\<lambda>(s, oc). if oc_fired oc then sso_save ops s else (\<lambda>x. x)) pairs st"

definition tick ::
  "tzdb \<Rightarrow> 's sub_store_ops \<Rightarrow> (subscription \<Rightarrow> 'v option res) \<Rightarrow> ('k, 'v) mail_deliverer \<Rightarrow> datetime \<Rightarrow> string
     \<Rightarrow> (('s, 'k) runtime_state, outcome list) meth" where
  "tick tz ops envelope_for send now stamp w =
     (case run_due tz now envelope_for send stamp (sso_list ops (rt_store w)) (rt_sink w) of
        (r, subs, k) \<Rightarrow>
          let w' = \<lparr>rt_store = sso_mutated ops subs (rt_store w), rt_sink = k\<rparr>
          in case r of
               Inl e \<Rightarrow> (Inl e, w')
             | Inr ocs \<Rightarrow> (Inr ocs, w'\<lparr>rt_store := save_fired ops (zip subs ocs) (rt_store w')\<rparr>))"

text \<open>\<open>_envelope_for\<close>: an unknown tenant or a briefing with violations is skipped.\<close>

definition envelope_for_tenant ::
  "(string \<Rightarrow> (forecast_result res) option) \<Rightarrow> string \<Rightarrow> subscription \<Rightarrow> briefing_envelope option res" where
  "envelope_for_tenant forecast_of base_url s =
     (case forecast_of (sub_tenant_id s) of
        None \<Rightarrow> Inr None
      | Some run \<Rightarrow>
          res_bind run (\<lambda>fc. res_bind (build_briefing fc) (\<lambda>b. res_bind (validate_briefing b fc) (\<lambda>vs.
            if vs \<noteq> [] then Inr None
            else res_bind (build_envelope b (sub_recipient s) (sub_tenant_id s) base_url None None)
                   (\<lambda>e. Inr (Some e))))))"

section \<open>Managing subscriptions\<close>

definition find_sub :: "'s sub_store_ops \<Rightarrow> string \<Rightarrow> string \<Rightarrow> 's \<Rightarrow> subscription option" where
  "find_sub ops tenant_id recipient st =
     find (\<lambda>s. sub_tenant_id s = tenant_id \<and> sub_recipient s = recipient) (sso_list ops st)"

definition list_subs :: "'s sub_store_ops \<Rightarrow> string option \<Rightarrow> 's \<Rightarrow> subscription list" where
  "list_subs ops tenant_id st =
     sort_key sub_key (case tenant_id of
         Some t \<Rightarrow> filter (\<lambda>s. sub_tenant_id s = t) (sso_list ops st) | None \<Rightarrow> sso_list ops st)"

definition add_sub :: "'s sub_store_ops \<Rightarrow> string \<Rightarrow> string \<Rightarrow> schedule \<Rightarrow> 's \<Rightarrow> subscription \<times> 's" where
  "add_sub ops tenant_id recipient sch st =
     (let s = \<lparr>sub_tenant_id = tenant_id, sub_recipient = recipient, sub_schedule = sch,
           sub_last_sent = (case find_sub ops tenant_id recipient st of Some x \<Rightarrow> sub_last_sent x | None \<Rightarrow> None),
           sub_active = True\<rparr>
      in (s, sso_save ops s st))"

definition change_sub ::
  "'s sub_store_ops \<Rightarrow> (subscription \<Rightarrow> subscription) \<Rightarrow> string \<Rightarrow> string \<Rightarrow> ('s, unit) meth" where
  "change_sub ops f tenant_id recipient st =
     (case find_sub ops tenant_id recipient st of
        None \<Rightarrow> (Inl (KeyError (tenant_id @ '','' @ recipient)), st)
      | Some s \<Rightarrow> (Inr (), sso_save ops (f s) st))"

definition set_schedule :: "'s sub_store_ops \<Rightarrow> string \<Rightarrow> string \<Rightarrow> schedule \<Rightarrow> ('s, unit) meth" where
  "set_schedule ops tenant_id recipient sch = change_sub ops (\<lambda>s. s\<lparr>sub_schedule := sch\<rparr>) tenant_id recipient"

definition pause_sub :: "'s sub_store_ops \<Rightarrow> string \<Rightarrow> string \<Rightarrow> ('s, unit) meth" where
  "pause_sub ops = change_sub ops (\<lambda>s. s\<lparr>sub_active := False\<rparr>)"

definition resume_sub :: "'s sub_store_ops \<Rightarrow> string \<Rightarrow> string \<Rightarrow> ('s, unit) meth" where
  "resume_sub ops = change_sub ops (\<lambda>s. s\<lparr>sub_active := True\<rparr>)"

definition remove_sub :: "'s sub_store_ops \<Rightarrow> string \<Rightarrow> string \<Rightarrow> 's \<Rightarrow> 's" where
  "remove_sub ops tenant_id recipient st = sso_remove ops tenant_id recipient st"

section \<open>The fire times\<close>

text \<open>A wall clock at which a schedule fires.\<close>

definition fires_at :: "schedule \<Rightarrow> int \<Rightarrow> bool" where
  "fires_at sch wall \<longleftrightarrow>
     (wall div DAY + 6) mod 7 = sch_weekday sch \<and> wall mod DAY = (sch_hour sch * 60 + sch_minute sch) * 60000000"

lemma day_bounds: "w div DAY * DAY \<le> w" "w < w div DAY * DAY + DAY"
proof -
  have "w = w div DAY * DAY + w mod DAY" by simp
  moreover have "0 \<le> w mod DAY" "w mod DAY < DAY" by simp_all
  ultimately show "w div DAY * DAY \<le> w" "w < w div DAY * DAY + DAY" by linarith+
qed

lemma fires_apart:
  assumes "fires_at sch a" "fires_at sch b"
  shows "\<exists>k. b - a = 7 * DAY * k"
proof -
  have "(b div DAY + 6) mod 7 = (a div DAY + 6) mod 7" "a mod DAY = b mod DAY"
    using assms by (simp_all add: fires_at_def)
  then have "7 dvd (b div DAY + 6) - (a div DAY + 6)" by (simp add: mod_eq_dvd_iff)
  then obtain k where k: "b div DAY - a div DAY = 7 * k" by (auto simp: dvd_def)
  have "a = a div DAY * DAY + a mod DAY" "b = b div DAY * DAY + b mod DAY" by simp_all
  then have "b - a = b div DAY * DAY - a div DAY * DAY" using \<open>a mod DAY = b mod DAY\<close> by linarith
  then have "b - a = (b div DAY - a div DAY) * DAY" by (simp add: algebra_simps)
  then show ?thesis using k by (intro exI [of _ k]) simp
qed

lemma at_time_Inr:
  assumes "at_time h m d = Inr r"
  shows "r = d\<lparr>dt_wall := dt_wall d div DAY * DAY + (h * 60 + m) * 60000000\<rparr>"
    and "0 \<le> (h * 60 + m) * 60000000" "(h * 60 + m) * 60000000 < DAY"
  using assms by (auto simp: at_time_def DAY_def split: if_splits)

lemma add_days_Inr:
  "add_days n d = Inr r \<Longrightarrow> r = d\<lparr>dt_wall := dt_wall d + n * DAY, dt_fold := False\<rparr>"
  by (auto simp: add_days_def Let_def split: if_splits)

lemma fires_at_day:
  assumes "0 \<le> t" "t < DAY" "t = (sch_hour sch * 60 + sch_minute sch) * 60000000" "(n + 6) mod 7 = sch_weekday sch"
  shows "fires_at sch (n * DAY + t)"
proof -
  have "(n * DAY + t) div DAY = n" "(n * DAY + t) mod DAY = t" using assms(1,2) by simp_all
  then show ?thesis using assms(3,4) by (simp add: fires_at_def)
qed

lemma in_zone_Inr: "in_zone tz now sch = Inr loc \<Longrightarrow> dt_zone loc = Named (sch_timezone sch)"
  by (auto simp: in_zone_def result_simps split: if_splits prod.splits)

lemma shift_back: "(D - ((D + 6) mod 7 - w) mod 7 + 6) mod 7 = (D + 6 - (D + 6 - w)) mod 7" for D w :: int
proof -
  have "(D - ((D + 6) mod 7 - w) mod 7 + 6) mod 7 = (D + 6 - ((D + 6) mod 7 - w) mod 7) mod 7"
    by (simp add: algebra_simps)
  also have "\<dots> = (D + 6 - ((D + 6) mod 7 - w)) mod 7" by (rule mod_diff_right_eq)
  also have "\<dots> = (D + 6 + w - (D + 6) mod 7) mod 7" by (simp add: algebra_simps)
  also have "\<dots> = (D + 6 + w - (D + 6)) mod 7" by (rule mod_diff_right_eq)
  finally show ?thesis by simp
qed

lemma shift_ahead: "(D + (w - (D + 6) mod 7) mod 7 + 6) mod 7 = (D + 6 + (w - (D + 6))) mod 7" for D w :: int
proof -
  have "(D + (w - (D + 6) mod 7) mod 7 + 6) mod 7 = (D + 6 + (w - (D + 6) mod 7) mod 7) mod 7"
    by (simp add: algebra_simps)
  also have "\<dots> = (D + 6 + (w - (D + 6) mod 7)) mod 7" by (rule mod_add_right_eq)
  also have "\<dots> = (D + 6 + w - (D + 6) mod 7) mod 7" by (simp add: algebra_simps)
  also have "\<dots> = (D + 6 + w - (D + 6)) mod 7" by (rule mod_diff_right_eq)
  finally show ?thesis by simp
qed

text \<open>The most recent fire is the last wall clock of the schedule at or before now's.\<close>

lemma most_recent_fire_exact:
  assumes "most_recent_fire tz sch now = Inr fire" "0 \<le> sch_weekday sch" "sch_weekday sch < 7"
  shows "\<exists>loc. in_zone tz now sch = Inr loc \<and> dt_zone fire = Named (sch_timezone sch) \<and> \<not> dt_fold fire \<and>
    fires_at sch (dt_wall fire) \<and> dt_wall fire \<le> dt_wall loc \<and> dt_wall loc < dt_wall fire + 7 * DAY"
proof -
  obtain loc where loc: "in_zone tz now sch = Inr loc" using assms(1) by (auto simp: most_recent_fire_def result_simps)
  note z = in_zone_Inr [OF loc]
  define D t bk where "D = dt_wall loc div DAY" and "t = (sch_hour sch * 60 + sch_minute sch) * 60000000"
    and "bk = (weekday_of loc - sch_weekday sch) mod 7"
  have wall: "D * DAY \<le> dt_wall loc" "dt_wall loc < D * DAY + DAY"
    unfolding D_def by (rule day_bounds)+
  have bk: "0 \<le> bk" "bk < 7" by (simp_all add: bk_def)
  have wd: "(D - bk + 6) mod 7 = sch_weekday sch"
  proof -
    have "(D - bk + 6) mod 7 = (D + 6 - (D + 6 - sch_weekday sch)) mod 7"
      unfolding bk_def weekday_of_def D_def [symmetric] by (rule shift_back)
    then show ?thesis using assms(2,3) by simp
  qed
  obtain r cand future where r: "at_time (sch_hour sch) (sch_minute sch) loc = Inr r" and cand: "add_days (- bk) r = Inr cand"
    and future: "dt_less tz loc cand = Inr future" and fire: "(if future then add_days (- 7) cand else Inr cand) = Inr fire"
    using assms(1) by (auto simp: most_recent_fire_def loc bk_def Let_def result_simps)
  have t: "0 \<le> t" "t < DAY" using at_time_Inr(2,3) [OF r] by (simp_all add: t_def)
  have c: "dt_wall cand = (D - bk) * DAY + t" "dt_zone cand = dt_zone loc" "\<not> dt_fold cand"
    using at_time_Inr(1) [OF r] add_days_Inr [OF cand] by (simp_all add: D_def t_def algebra_simps)
  have fut: "future = (dt_wall loc < dt_wall cand)" using future c(2) by (simp add: dt_less_def)
  have lo: "D * DAY - 6 * DAY \<le> (D - bk) * DAY"
  proof -
    have "(D - 6) * DAY \<le> (D - bk) * DAY" using bk by (intro mult_right_mono) simp_all
    then show ?thesis by (simp add: algebra_simps)
  qed
  show ?thesis
  proof (cases future)
    case False
    then have "fire = cand" using fire by simp
    moreover have "dt_wall loc < dt_wall cand + 7 * DAY" using wall lo t c(1) by linarith
    ultimately show ?thesis using False fut loc z c fires_at_day [OF t t_def wd] by auto
  next
    case True
    then have f: "dt_wall fire = (D - bk - 7) * DAY + t" "dt_zone fire = dt_zone loc" "\<not> dt_fold fire"
      using fire add_days_Inr [of "- 7" cand fire] c by (simp_all add: algebra_simps)
    have "D - bk - 7 + 6 = D - bk + 6 + (- 1) * 7" by simp
    then have "(D - bk - 7 + 6) mod 7 = sch_weekday sch" by (simp only: mod_mult_self1 wd)
    from fires_at_day [OF t t_def this] have "fires_at sch (dt_wall fire)" by (simp add: f(1))
    moreover have "dt_wall cand = dt_wall fire + 7 * DAY" using f(1) c(1) by (simp add: algebra_simps)
    moreover have "dt_wall fire \<le> dt_wall loc"
    proof -
      have "(D - bk) * DAY \<le> D * DAY" using bk by (intro mult_right_mono) simp_all
      then show ?thesis using f(1) wall t by (simp add: algebra_simps)
    qed
    ultimately show ?thesis using True fut loc z f by auto
  qed
qed

lemma next_fire_exact:
  assumes "next_fire tz sch now = Inr fire" "0 \<le> sch_weekday sch" "sch_weekday sch < 7"
  shows "\<exists>loc. in_zone tz now sch = Inr loc \<and> dt_zone fire = Named (sch_timezone sch) \<and> \<not> dt_fold fire \<and>
    fires_at sch (dt_wall fire) \<and> dt_wall loc < dt_wall fire \<and> dt_wall fire \<le> dt_wall loc + 7 * DAY"
proof -
  obtain loc where loc: "in_zone tz now sch = Inr loc" using assms(1) by (auto simp: next_fire_def result_simps)
  note z = in_zone_Inr [OF loc]
  define D t ahead where "D = dt_wall loc div DAY" and "t = (sch_hour sch * 60 + sch_minute sch) * 60000000"
    and "ahead = (sch_weekday sch - weekday_of loc) mod 7"
  have wall: "D * DAY \<le> dt_wall loc" "dt_wall loc < D * DAY + DAY"
    unfolding D_def by (rule day_bounds)+
  have ahead: "0 \<le> ahead" "ahead < 7" by (simp_all add: ahead_def)
  have wd: "(D + ahead + 6) mod 7 = sch_weekday sch"
  proof -
    have "(D + ahead + 6) mod 7 = (D + 6 + (sch_weekday sch - (D + 6))) mod 7"
      unfolding ahead_def weekday_of_def D_def [symmetric] by (rule shift_ahead)
    then show ?thesis using assms(2,3) by simp
  qed
  obtain r cand future where r: "at_time (sch_hour sch) (sch_minute sch) loc = Inr r" and cand: "add_days ahead r = Inr cand"
    and future: "dt_less tz loc cand = Inr future" and fire: "(if \<not> future then add_days 7 cand else Inr cand) = Inr fire"
    using assms(1) by (auto simp: next_fire_def loc ahead_def Let_def result_simps)
  have t: "0 \<le> t" "t < DAY" using at_time_Inr(2,3) [OF r] by (simp_all add: t_def)
  have c: "dt_wall cand = (D + ahead) * DAY + t" "dt_zone cand = dt_zone loc" "\<not> dt_fold cand"
    using at_time_Inr(1) [OF r] add_days_Inr [OF cand] by (simp_all add: D_def t_def algebra_simps)
  have fut: "future = (dt_wall loc < dt_wall cand)" using future c(2) by (simp add: dt_less_def)
  have hi: "(D + ahead) * DAY \<le> D * DAY + 6 * DAY"
  proof -
    have "(D + ahead) * DAY \<le> (D + 6) * DAY" using ahead by (intro mult_right_mono) simp_all
    then show ?thesis by (simp add: algebra_simps)
  qed
  have lo: "D * DAY \<le> (D + ahead) * DAY" using ahead by (intro mult_right_mono) simp_all
  show ?thesis
  proof (cases future)
    case True
    then have "fire = cand" using fire by simp
    moreover have "dt_wall cand \<le> dt_wall loc + 7 * DAY" using wall hi t c(1) by linarith
    ultimately show ?thesis using True fut loc z c fires_at_day [OF t t_def wd] by auto
  next
    case False
    then have f: "dt_wall fire = (D + ahead + 7) * DAY + t" "dt_zone fire = dt_zone loc" "\<not> dt_fold fire"
      using fire add_days_Inr [of 7 cand fire] c by (simp_all add: algebra_simps)
    have "D + ahead + 7 + 6 = D + ahead + 6 + 1 * 7" by simp
    then have "(D + ahead + 7 + 6) mod 7 = sch_weekday sch" by (simp only: mod_mult_self1 wd)
    from fires_at_day [OF t t_def this] have "fires_at sch (dt_wall fire)" by (simp add: f(1))
    moreover have "dt_wall fire = dt_wall cand + 7 * DAY" using f(1) c(1) by (simp add: algebra_simps)
    moreover have "dt_wall loc < dt_wall fire" using f(1) wall t lo by (simp add: algebra_simps)
    ultimately show ?thesis using False fut loc z f by auto
  qed
qed

section \<open>One subscription over time\<close>

lemma run_one_effect:
  assumes "run_one tz now envelope_for send stamp s k = (Inr (oc, s'), k')"
  shows "if oc_fired oc
    then sub_active s \<and> (\<exists>fire e rc. most_recent_fire tz (sub_schedule s) now = Inr fire \<and> envelope_for s = Inr (Some e) \<and>
      send e stamp k = (Inr rc, k') \<and> s' = s\<lparr>sub_last_sent := Some fire\<rparr> \<and> oc_fire_time oc = Some fire \<and>
      (\<forall>l. sub_last_sent s = Some l \<longrightarrow> dt_less tz l fire = Inr True))
    else s' = s \<and> k' = k"
  using assms
  by (auto simp: run_one_def schedule_is_due_def result_simps skipped_def split: if_splits option.splits)

text \<open>The fire times a subscription was sent for over successive ticks; \<open>keep\<close> is what its store makes
  of the cursor. A tick that raises changes nothing.\<close>

primrec sub_run ::
  "tzdb \<Rightarrow> (subscription \<Rightarrow> 'v option res) \<Rightarrow> ('k, 'v) mail_deliverer \<Rightarrow> string \<Rightarrow> (datetime \<Rightarrow> datetime) \<Rightarrow> datetime list
     \<Rightarrow> subscription \<Rightarrow> 'k \<Rightarrow> datetime list" where
  "sub_run tz envelope_for send stamp keep [] s k = []"
| "sub_run tz envelope_for send stamp keep (now # nows) s k =
     (case run_one tz now envelope_for send stamp s k of
        (Inl e, k') \<Rightarrow> sub_run tz envelope_for send stamp keep nows s k'
      | (Inr (oc, s'), k') \<Rightarrow>
          (if oc_fired oc then [the (oc_fire_time oc)] else []) @
          sub_run tz envelope_for send stamp keep nows
            (if oc_fired oc then s'\<lparr>sub_last_sent := map_option keep (sub_last_sent s')\<rparr> else s') k')"

definition is_fire :: "schedule \<Rightarrow> datetime \<Rightarrow> bool" where
  "is_fire sch f \<longleftrightarrow> dt_zone f = Named (sch_timezone sch) \<and> \<not> dt_fold f \<and> fires_at sch (dt_wall f)"

definition offsets_bounded :: "tzdb \<Rightarrow> bool" where
  "offsets_bounded tz \<longleftrightarrow> (\<forall>z w f. \<bar>tz_offset tz z w f\<bar> < DAY)"

text \<open>Fires of one schedule compare by instant, as after storing, as they do by wall clock.\<close>

lemma stored_fire_less:
  assumes "is_fire sch f" "is_fire sch g" "offsets_bounded tz"
  shows "dt_less tz (stored_datetime tz f) g = Inr (dt_wall f < dt_wall g)"
proof -
  have z: "dt_zone f = Named (sch_timezone sch)" "dt_zone g = Named (sch_timezone sch)" using assms by (simp_all add: is_fire_def)
  have fires: "fires_at sch (dt_wall f)" "fires_at sch (dt_wall g)" using assms(1,2) by (simp_all add: is_fire_def)
  obtain k where k: "dt_wall g - dt_wall f = 7 * DAY * k" using fires_apart [OF fires] by blast
  have off: "\<bar>offset_of tz f\<bar> < DAY" "\<bar>offset_of tz g\<bar> < DAY"
    using assms(3) z by (simp_all add: offsets_bounded_def offset_of_def)
  have "(dt_wall f - offset_of tz f < dt_wall g - offset_of tz g) = (dt_wall f < dt_wall g)"
  proof (cases "1 \<le> k")
    case True
    then have "7 * DAY * 1 \<le> 7 * DAY * k" by (intro mult_left_mono) simp_all
    then show ?thesis using k off DAY_pos(1) by linarith
  next
    case False
    show ?thesis
    proof (cases "k = 0")
      case True
      then have "dt_wall g = dt_wall f" using k by simp
      moreover from this have "offset_of tz g = offset_of tz f" using z assms(1,2) by (simp add: offset_of_def is_fire_def)
      ultimately show ?thesis by simp
    next
      case False
      with \<open>\<not> 1 \<le> k\<close> have "k \<le> - 1" by simp
      then have "7 * DAY * k \<le> 7 * DAY * (- 1)" by (intro mult_left_mono) simp_all
      then show ?thesis using k off DAY_pos(1) by linarith
    qed
  qed
  then show ?thesis using z by (simp add: dt_less_def stored_datetime_def utc_of_def offset_of_def)
qed

lemma kept_fire_less:
  assumes "is_fire sch f" "is_fire sch g" "offsets_bounded tz" "keep = (\<lambda>d. d) \<or> keep = stored_datetime tz"
  shows "dt_less tz (keep f) g = Inr (dt_wall f < dt_wall g)"
  using assms(4)
proof
  assume "keep = (\<lambda>d. d)"
  then show ?thesis using assms(1,2) by (simp add: dt_less_def is_fire_def)
qed (use stored_fire_less [OF assms(1-3)] in simp)

lemma recent_is_fire:
  assumes "most_recent_fire tz sch now = Inr fire" "0 \<le> sch_weekday sch" "sch_weekday sch < 7"
  shows "is_fire sch fire"
  using most_recent_fire_exact [OF assms] by (auto simp: is_fire_def)

lemma sub_run_increasing:
  assumes keep: "keep = (\<lambda>d. d) \<or> keep = stored_datetime tz" and tz: "offsets_bounded tz"
    and wd: "0 \<le> sch_weekday sch" "sch_weekday sch < 7"
  shows "sub_schedule s = sch \<Longrightarrow>
    (case sub_last_sent s of None \<Rightarrow> True | Some l \<Rightarrow> \<exists>f. l = keep f \<and> is_fire sch f) \<Longrightarrow>
    sorted_wrt (\<lambda>a b. dt_wall a < dt_wall b) (sub_run tz envelope_for send stamp keep nows s k) \<and>
    list_all (is_fire sch) (sub_run tz envelope_for send stamp keep nows s k) \<and>
    (\<forall>f. sub_last_sent s = Some (keep f) \<and> is_fire sch f \<longrightarrow>
       list_all (\<lambda>g. dt_wall f < dt_wall g) (sub_run tz envelope_for send stamp keep nows s k))"
proof (induction nows arbitrary: s k)
  case (Cons now nows)
  obtain r k' where r: "run_one tz now envelope_for send stamp s k = (r, k')" by fastforce
  show ?case
  proof (cases r)
    case (Inl e)
    then show ?thesis using Cons.IH [of s k'] Cons.prems r by simp
  next
    case (Inr x)
    obtain oc s' where x: "x = (oc, s')" by fastforce
    note eff = run_one_effect [OF r [unfolded Inr x]]
    show ?thesis
    proof (cases "oc_fired oc")
      case False
      then show ?thesis using Cons.IH [of s k'] Cons.prems eff r Inr x by simp
    next
      case True
      then obtain fire where fire: "most_recent_fire tz sch now = Inr fire" "s' = s\<lparr>sub_last_sent := Some fire\<rparr>"
        "oc_fire_time oc = Some fire" "\<And>l. sub_last_sent s = Some l \<Longrightarrow> dt_less tz l fire = Inr True"
        using eff Cons.prems(1) by auto
      note f = recent_is_fire [OF fire(1) wd]
      let ?s = "s\<lparr>sub_last_sent := Some (keep fire)\<rparr>"
      have run: "sub_run tz envelope_for send stamp keep (now # nows) s k =
          fire # sub_run tz envelope_for send stamp keep nows ?s k'"
        using r Inr x True fire(2,3) by simp
      have IH: "sorted_wrt (\<lambda>a b. dt_wall a < dt_wall b) (sub_run tz envelope_for send stamp keep nows ?s k')"
        "list_all (is_fire sch) (sub_run tz envelope_for send stamp keep nows ?s k')"
        "list_all (\<lambda>g. dt_wall fire < dt_wall g) (sub_run tz envelope_for send stamp keep nows ?s k')"
        using Cons.IH [of ?s k'] Cons.prems(1) f by auto
      have "dt_wall g < dt_wall fire" if "sub_last_sent s = Some (keep g)" "is_fire sch g" for g
        using fire(4) that kept_fire_less [OF that(2) f tz keep] by simp
      then show ?thesis unfolding run using IH f by (fastforce simp: list_all_iff)
    qed
  qed
qed simp

section \<open>Properties\<close>

text \<open>C36. A schedule fires at its time of day on its weekday, in its own zone; the most recent fire is the
  last one at or before now, the next fire the first after it, a week later on the clock.\<close>

theorem fire_times_exact:
  assumes "most_recent_fire tz sch now = Inr recent" "next_fire tz sch now = Inr next"
    and "0 \<le> sch_weekday sch" "sch_weekday sch < 7"
  shows "\<exists>loc. in_zone tz now sch = Inr loc \<and> fires_at sch (dt_wall recent) \<and>
    dt_wall recent \<le> dt_wall loc \<and> dt_wall loc < dt_wall next \<and> dt_wall next = dt_wall recent + 7 * DAY"
proof -
  obtain loc where loc: "in_zone tz now sch = Inr loc" "fires_at sch (dt_wall recent)" "dt_wall recent \<le> dt_wall loc"
    "dt_wall loc < dt_wall recent + 7 * DAY"
    using most_recent_fire_exact [OF assms(1,3,4)] by auto
  have n: "fires_at sch (dt_wall next)" "dt_wall loc < dt_wall next" "dt_wall next \<le> dt_wall loc + 7 * DAY"
    using next_fire_exact [OF assms(2-4)] loc(1) by auto
  obtain k where k: "dt_wall next - dt_wall recent = 7 * DAY * k" using fires_apart loc(2) n(1) by blast
  have "0 < 7 * DAY * k" "7 * DAY * k < 7 * DAY * 2" using k loc(3,4) n(2,3) by linarith+
  then have "k = 1" by (simp add: DAY_def)
  then show ?thesis using k loc n by (intro exI [of _ loc]) simp
qed

definition utc_tz :: tzdb where
  "utc_tz = \<lparr>tz_local = (\<lambda>z t. Inr (t, False)), tz_offset = (\<lambda>z w f. 0)\<rparr>"

definition utc_at :: "int \<Rightarrow> int \<Rightarrow> datetime" where
  "utc_at day hour = \<lparr>dt_wall = day * DAY + hour * 3600000000, dt_fold = False, dt_zone = Fixed 0\<rparr>"

lemma utc_fires:
  "most_recent_fire utc_tz default_schedule (utc_at 738004 12) = Inr \<lparr>dt_wall = 738004 * DAY + 8 * 3600000000,
     dt_fold = False, dt_zone = Named ''America/Denver''\<rparr>"
  "next_fire utc_tz default_schedule (utc_at 738004 12) = Inr \<lparr>dt_wall = 738011 * DAY + 8 * 3600000000,
     dt_fold = False, dt_zone = Named ''America/Denver''\<rparr>"
  by code_simp+


theorem fire_times_exact_witness:
  "\<exists>loc. in_zone utc_tz (utc_at 738004 12) default_schedule = Inr loc \<and>
     dt_wall loc < 738011 * DAY + 8 * 3600000000 \<and> fires_at default_schedule (738004 * DAY + 8 * 3600000000)"
  using fire_times_exact [OF utc_fires] by (auto simp: default_schedule_def)


definition example_sub :: "string \<Rightarrow> subscription" where
  "example_sub t = \<lparr>sub_tenant_id = t, sub_recipient = ''owner'', sub_schedule = default_schedule, sub_last_sent = None,
     sub_active = True\<rparr>"

definition example_mail :: briefing_envelope where
  "example_mail = \<lparr>en_recipient = ''owner'', en_subject = ''s'', en_priority = NORMAL, en_channels = [EMAIL],
     en_text_body = ''t'', en_html_body = [], en_deep_links = [], en_schedule = default_schedule\<rparr>"

lemma example_due:
  "schedule_is_due utc_tz default_schedule (utc_at 738004 12) None = Inr True"
  by (simp add: schedule_is_due_def utc_fires)


section \<open>Ticks that fail\<close>

text \<open>\<open>due_mail\<close>: what \<open>run_one\<close> does for a subscription that is due and has an envelope.\<close>

lemma run_one_due:
  assumes "sub_active s" "schedule_is_due tz (sub_schedule s) now (sub_last_sent s) = Inr True"
    and "most_recent_fire tz (sub_schedule s) now = Inr fire"
  shows "run_one tz now envelope_for send stamp s k =
    (case envelope_for s of
       Inl err \<Rightarrow> (Inl err, k)
     | Inr None \<Rightarrow> (Inr (skipped s (Some fire) ''no_envelope'', s), k)
     | Inr (Some e) \<Rightarrow>
         (case send e stamp k of
            (Inl err, k') \<Rightarrow> (Inl err, k')
          | (Inr rc, k') \<Rightarrow> (Inr (\<lparr>oc_tenant_id = sub_tenant_id s, oc_fired = True, oc_fire_time = Some fire,
              oc_receipt = Some rc, oc_skipped_reason = None\<rparr>, s\<lparr>sub_last_sent := Some fire\<rparr>), k')))"
  using assms by (auto simp: run_one_def bind_def lift_res_def split: sum.split option.split prod.split)

lemma due_has_fire:
  "schedule_is_due tz sch now l = Inr d \<Longrightarrow> \<exists>fire. most_recent_fire tz sch now = Inr fire"
  by (auto simp: schedule_is_due_def result_simps)

text \<open>With the subscriptions in SQL, a tick in which a subscription raises persists nothing, though the
  subscriptions before it were sent: they are sent again at every tick.\<close>

theorem aborted_tick_resends:
  assumes subs: "sso_list (sql_sub_store tz) t = s # s' # subs" and act: "sub_active s" "sub_active s'"
    and due: "schedule_is_due tz (sub_schedule s) now (sub_last_sent s) = Inr True"
      "schedule_is_due tz (sub_schedule s') now (sub_last_sent s') = Inr True"
    and env: "envelope_for s = Inr (Some e)" "envelope_for s' = Inl err"
  shows "((\<lambda>w. snd (tick tz (sql_sub_store tz) envelope_for recording_deliverer now stamp w)) ^^ n)
      \<lparr>rt_store = t, rt_sink = []\<rparr> = \<lparr>rt_store = t, rt_sink = replicate n e\<rparr>"
proof (induction n)
  case (Suc n)
  obtain fire fire' where fire: "most_recent_fire tz (sub_schedule s) now = Inr fire"
    "most_recent_fire tz (sub_schedule s') now = Inr fire'"
    using due_has_fire [OF due(1)] due_has_fire [OF due(2)] by blast
  have "snd (tick tz (sql_sub_store tz) envelope_for recording_deliverer now stamp \<lparr>rt_store = t, rt_sink = k\<rparr>) =
      \<lparr>rt_store = t, rt_sink = k @ [e]\<rparr>" for k
    by (simp add: tick_def subs run_one_due [OF act(1) due(1) fire(1)] run_one_due [OF act(2) due(2) fire(2)] env
        recording_deliverer_def seqm_def) (simp add: sql_sub_store_def)
  then show ?case using Suc by (simp add: replicate_append_same)
qed simp

text \<open>A briefing none of whose channels went out counts as sent: the next tick skips it.\<close>

theorem failed_briefing_not_retried:
  assumes "sub_active s" "schedule_is_due tz (sub_schedule s) now (sub_last_sent s) = Inr True"
    and "envelope_for s = Inr (Some e)" "en_channels e \<noteq> []"
    and "\<forall>r su te ht. send_email tr r su te ht k = (Inl (TransportError m), k)" and "send_push tr = None"
  shows "\<exists>oc s' rc. run_one tz now envelope_for (provider_deliverer tr) stamp s k = (Inr (oc, s'), k) \<and> oc_fired oc \<and>
    oc_receipt oc = Some rc \<and> rc_channels rc = [] \<and> starts_with ''FAILED'' (rc_status rc) \<and>
    run_one tz now envelope_for (provider_deliverer tr) stamp s' k = (Inr (skipped s' None ''not_due'', s'), k)"
proof -
  obtain fire where fire: "most_recent_fire tz (sub_schedule s) now = Inr fire" using due_has_fire [OF assms(2)] by blast
  have chans: "\<exists>x'. send_channels tr e chs x k = (Inr x', k) \<and> sg_succeeded x' = sg_succeeded x" for chs x
  proof (induction chs arbitrary: x)
    case (Cons ch chs)
    have "\<exists>y. send_channels tr e (ch # chs) x k = send_channels tr e chs y k \<and> sg_succeeded y = sg_succeeded x"
      by (cases ch) (auto simp: try_channel_def bind_def assms(5,6) intro!: exI)
    then show ?case using Cons by metis
  qed simp
  obtain rc where rc: "provider_deliverer tr e stamp k = (Inr rc, k)" "rc_channels rc = []" "starts_with ''FAILED'' (rc_status rc)"
    using chans [of "en_channels e" "\<lparr>sg_succeeded = [], sg_failures = [], sg_message_ids = []\<rparr>"]
    by (auto simp: provider_deliverer_def Let_def starts_with_def)
  have "dt_less tz fire fire = Inr False" by (simp add: dt_less_def)
  then have "run_one tz now envelope_for send stamp (s\<lparr>sub_last_sent := Some fire\<rparr>) k =
      (Inr (skipped (s\<lparr>sub_last_sent := Some fire\<rparr>) None ''not_due'', s\<lparr>sub_last_sent := Some fire\<rparr>), k)" for send
    using assms(1) by (simp add: run_one_def schedule_is_due_def fire bind_def lift_res_def)
  then show ?thesis using rc by (simp add: run_one_due [OF assms(1,2) fire] assms(3))
qed


definition silent_transports :: "unit transports" where
  "silent_transports = \<lparr>send_email = (\<lambda>_ _ _ _ k. (Inl (TransportError ''down''), k)), send_push = None\<rparr>"

theorem failed_briefing_not_retried_witness:
  "\<exists>oc s'. run_one utc_tz (utc_at 738004 12) (\<lambda>_. Inr (Some example_mail)) (provider_deliverer silent_transports) ''now''
      (example_sub ''acme'') () = (Inr (oc, s'), ()) \<and> oc_fired oc"
  using failed_briefing_not_retried [of "example_sub ''acme''" utc_tz "utc_at 738004 12" "\<lambda>_. Inr (Some example_mail)"
      example_mail silent_transports "()" "''down''" "''now''"]
  by (auto simp: example_sub_def example_due example_mail_def silent_transports_def)

definition example_subs :: sub_table where
  "example_subs = map (\<lambda>t. ((t, ''owner''), row_of_sub utc_tz (example_sub t))) [''acme'', ''zeta'']"

lemma example_listing: "sso_list (sql_sub_store utc_tz) example_subs = [example_sub ''acme'', example_sub ''zeta'']"
  by (simp add: sql_sub_store_def example_subs_def sub_of_row_def row_of_sub_def example_sub_def sub_key_def)

theorem aborted_tick_resends_witness:
  "rt_sink (((\<lambda>w. snd (tick utc_tz (sql_sub_store utc_tz)
       (\<lambda>s. if sub_tenant_id s = ''acme'' then Inr (Some example_mail) else Inl CurrencyMismatch)
       recording_deliverer (utc_at 738004 12) ''now'' w)) ^^ 3) \<lparr>rt_store = example_subs, rt_sink = []\<rparr>) =
   [example_mail, example_mail, example_mail]"
  using aborted_tick_resends [OF example_listing, where now = "utc_at 738004 12" and n = 3 and
      envelope_for = "\<lambda>s. if sub_tenant_id s = ''acme'' then Inr (Some example_mail) else Inl CurrencyMismatch" and
      e = example_mail and err = CurrencyMismatch and stamp = "''now''"]
  by (simp add: example_sub_def example_due numeral_3_eq_3 del: funpow.simps)

text \<open>A tenant whose forecast is not in dollars raises in the validator and stops the whole tick: no
  subscription after it is sent.\<close>

lemma foreign_tenant_stops_fleet:
  assumes subs: "sso_list ops (rt_store w) = s # subs" and act: "sub_active s"
    and due: "schedule_is_due tz (sub_schedule s) now (sub_last_sent s) = Inr True"
    and run: "run_forecast fp inputs (Some config) scen assumptions = Some (Inr fc)" "forecast_of (sub_tenant_id s) = Some (Inr fc)"
    and ccy: "cfg_currency config \<noteq> ''USD''" "fr_flows fc \<noteq> []" "list_all (\<lambda>f. currency (amount f) = cfg_currency config) (fr_flows fc)"
    and b: "build_briefing fc = Inr b"
  shows "\<exists>w'. tick tz ops (envelope_for_tenant forecast_of base_url) send now stamp w = (Inl CurrencyMismatch, w') \<and>
    rt_sink w' = rt_sink w"
proof -
  obtain fire where fire: "most_recent_fire tz (sub_schedule s) now = Inr fire" using due_has_fire [OF due] by blast
  have "validate_briefing b fc = Inl CurrencyMismatch"
    using forecast_briefing_currency [OF run(1) b ccy(3)] ccy(1,2) by simp
  then have "envelope_for_tenant forecast_of base_url s = Inl CurrencyMismatch"
    by (simp add: envelope_for_tenant_def run(2) b)
  then show ?thesis by (simp add: tick_def subs run_one_due [OF act due fire])
qed

end
