(* ===== verification/Jobs.thy ===== *)
theory Jobs
  imports Briefing_Schedule
begin

text \<open>
  \<open>packages/ops/src/rgnr8_ops/scheduler.py\<close>: the jobs of a worker, the dispatcher that runs those
  due and isolates their failures, the leases by which several workers take turns, in memory and in
  SQL, and the leased dispatcher.

  A job acts on a world of its own (\<open>'w\<close>), the cursors are kept in a job store. The message of an
  exception is an argument. Of the database only the statements on the lease table are modelled;
  each is atomic.
\<close>

section \<open>Jobs\<close>

record job_result =
  jr_name :: string
  jr_ran :: bool
  jr_detail :: string
  jr_error :: string

definition job_ok :: "job_result \<Rightarrow> bool" where
  "job_ok r \<longleftrightarrow> jr_error r = []"

record 'w job =
  jb_name :: string
  jb_due :: "datetime \<Rightarrow> datetime option \<Rightarrow> bool res"
  jb_run :: "datetime \<Rightarrow> ('w, string) meth"

record 'j job_store_ops =
  js_last_run :: "string \<Rightarrow> 'j \<Rightarrow> datetime option"
  js_mark_run :: "string \<Rightarrow> datetime \<Rightarrow> 'j \<Rightarrow> 'j"

type_synonym mem_job_runs = "(string \<times> datetime) list"

definition mem_job_store :: "mem_job_runs job_store_ops" where
  "mem_job_store = \<lparr>js_last_run = (\<lambda>n s. map_of s n), js_mark_run = AList.update\<rparr>"

definition interval_job :: "tzdb \<Rightarrow> string \<Rightarrow> int \<Rightarrow> (datetime \<Rightarrow> ('w, string) meth) \<Rightarrow> 'w job" where
  "interval_job tz name interval fn =
     \<lparr>jb_name = name,
      jb_due = (\<lambda>now last_run. case last_run of None \<Rightarrow> Inr True
        | Some l \<Rightarrow> res_bind (dt_minus tz now l) (\<lambda>d. Inr (interval \<le> d))),
      jb_run = fn\<rparr>"

definition briefing_dispatch_job :: "string \<Rightarrow> (datetime \<Rightarrow> ('w, 'o list) meth) \<Rightarrow> 'w job" where
  "briefing_dispatch_job name tick_fn =
     \<lparr>jb_name = name, jb_due = (\<lambda>now last_run. Inr True),
      jb_run = (\<lambda>now. bind (tick_fn now) (\<lambda>outcomes.
        ret (str_int (int (length outcomes)) @ '' briefing(s) delivered'')))\<rparr>"

section \<open>The dispatcher\<close>

record ('j, 'w) job_world =
  jw_runs :: 'j
  jw_world :: 'w

fun exc_name :: "py_error \<Rightarrow> string" where
  "exc_name ValueError = ''ValueError''"
| "exc_name CurrencyMismatch = ''CurrencyMismatch''"
| "exc_name StatisticsError = ''StatisticsError''"
| "exc_name (KeyError _) = ''KeyError''"
| "exc_name IndexError = ''IndexError''"
| "exc_name OverflowError = ''OverflowError''"
| "exc_name ZeroDivisionError = ''ZeroDivisionError''"
| "exc_name BillingError = ''BillingError''"
| "exc_name EntitlementError = ''EntitlementError''"
| "exc_name RuntimeError = ''RuntimeError''"
| "exc_name TypeError = ''TypeError''"
| "exc_name AssertionError = ''AssertionError''"
| "exc_name SecretCipherError = ''SecretCipherError''"
| "exc_name (TransportError _) = ''TransportError''"
| "exc_name (AuthError _) = ''AuthError''"

text \<open>One job: only \<open>run\<close> is inside the \<open>try\<close>.\<close>

definition dispatch_job ::
  "'j job_store_ops \<Rightarrow> (py_error \<Rightarrow> string) \<Rightarrow> datetime \<Rightarrow> 'w job \<Rightarrow> (('j, 'w) job_world, job_result) meth" where
  "dispatch_job js exc_text now job w =
     (case jb_due job now (js_last_run js (jb_name job) (jw_runs w)) of
        Inl e \<Rightarrow> (Inl e, w)
      | Inr False \<Rightarrow> (Inr \<lparr>jr_name = jb_name job, jr_ran = False, jr_detail = ''not due'', jr_error = []\<rparr>, w)
      | Inr True \<Rightarrow>
          (case jb_run job now (jw_world w) of
             (Inl e, v) \<Rightarrow>
               (Inr \<lparr>jr_name = jb_name job, jr_ran = False, jr_detail = [],
                     jr_error = exc_name e @ '': '' @ exc_text e\<rparr>, w\<lparr>jw_world := v\<rparr>)
           | (Inr detail, v) \<Rightarrow>
               (Inr \<lparr>jr_name = jb_name job, jr_ran = True, jr_detail = detail, jr_error = []\<rparr>,
                \<lparr>jw_runs = js_mark_run js (jb_name job) now (jw_runs w), jw_world = v\<rparr>)))"

primrec dispatcher_tick ::
  "'j job_store_ops \<Rightarrow> (py_error \<Rightarrow> string) \<Rightarrow> 'w job list \<Rightarrow> datetime \<Rightarrow> (('j, 'w) job_world, job_result list) meth" where
  "dispatcher_tick js exc_text [] now = ret []"
| "dispatcher_tick js exc_text (job # jobs) now =
     bind (dispatch_job js exc_text now job) (\<lambda>r.
       bind (dispatcher_tick js exc_text jobs now) (\<lambda>rs. ret (r # rs)))"

section \<open>Leases\<close>

text \<open>\<open>ttl\<close> in microseconds.\<close>

record 'l lease_ops =
  lo_acquire :: "string \<Rightarrow> string \<Rightarrow> datetime \<Rightarrow> int \<Rightarrow> ('l, bool) meth"
  lo_renew :: "string \<Rightarrow> string \<Rightarrow> datetime \<Rightarrow> int \<Rightarrow> ('l, bool) meth"
  lo_release :: "string \<Rightarrow> string \<Rightarrow> 'l \<Rightarrow> 'l"

record lease =
  ls_holder :: string
  ls_expires_at :: datetime

type_synonym mem_leases = "(string \<times> lease) list"

definition mem_grant :: "string \<Rightarrow> string \<Rightarrow> datetime \<Rightarrow> int \<Rightarrow> (mem_leases, bool) meth" where
  "mem_grant name holder now ttl =
     bind (lift_res (dt_plus now ttl)) (\<lambda>x.
       seqm (modify (AList.update name \<lparr>ls_holder = holder, ls_expires_at = x\<rparr>)) (ret True))"

definition mem_acquire :: "tzdb \<Rightarrow> string \<Rightarrow> string \<Rightarrow> datetime \<Rightarrow> int \<Rightarrow> (mem_leases, bool) meth" where
  "mem_acquire tz name holder now ttl =
     bind (gets (\<lambda>s. map_of s name)) (\<lambda>rec.
       case rec of
         None \<Rightarrow> mem_grant name holder now ttl
       | Some r \<Rightarrow>
           bind (lift_res (dt_le tz (ls_expires_at r) now)) (\<lambda>expired.
             if expired \<or> ls_holder r = holder then mem_grant name holder now ttl else ret False))"

definition mem_renew :: "string \<Rightarrow> string \<Rightarrow> datetime \<Rightarrow> int \<Rightarrow> (mem_leases, bool) meth" where
  "mem_renew name holder now ttl =
     bind (gets (\<lambda>s. map_of s name)) (\<lambda>rec.
       case rec of
         None \<Rightarrow> ret False
       | Some r \<Rightarrow> if ls_holder r = holder then mem_grant name holder now ttl else ret False)"

definition mem_release :: "string \<Rightarrow> string \<Rightarrow> mem_leases \<Rightarrow> mem_leases" where
  "mem_release name holder s =
     (case map_of s name of
        Some r \<Rightarrow> if ls_holder r = holder then AList.delete name s else s | None \<Rightarrow> s)"

definition mem_lease_ops :: "tzdb \<Rightarrow> mem_leases lease_ops" where
  "mem_lease_ops tz = \<lparr>lo_acquire = mem_acquire tz, lo_renew = mem_renew, lo_release = mem_release\<rparr>"

text \<open>The table: a row with the holder and the timestamp for each name. \<open>sql_upsert\<close> is the
  \<open>INSERT ... ON CONFLICT DO UPDATE ... WHERE\<close> statement, which compares the timestamps as text.\<close>

type_synonym lease_table = "(string \<times> string \<times> string) list"

definition sql_upsert :: "string \<Rightarrow> string \<Rightarrow> string \<Rightarrow> string \<Rightarrow> lease_table \<Rightarrow> lease_table" where
  "sql_upsert name holder expires now t =
     (case map_of t name of
        None \<Rightarrow> t @ [(name, holder, expires)]
      | Some (h, x) \<Rightarrow> if x \<le> now \<or> h = holder then AList.update name (holder, expires) t else t)"

definition holder_is :: "string \<Rightarrow> string \<Rightarrow> lease_table \<Rightarrow> bool" where
  "holder_is name holder t =
     (case filter (\<lambda>(n, _). n = name) t of [(_, h, _)] \<Rightarrow> h = holder | _ \<Rightarrow> False)"

definition sql_acquire :: "string \<Rightarrow> string \<Rightarrow> datetime \<Rightarrow> int \<Rightarrow> (lease_table, bool) meth" where
  "sql_acquire name holder now ttl =
     bind (lift_res (dt_plus now ttl)) (\<lambda>x.
       seqm (modify (sql_upsert name holder (timestamp x) (timestamp now))) (gets (holder_is name holder)))"

definition sql_renew :: "string \<Rightarrow> string \<Rightarrow> datetime \<Rightarrow> int \<Rightarrow> (lease_table, bool) meth" where
  "sql_renew name holder now ttl =
     bind (lift_res (dt_plus now ttl)) (\<lambda>x.
       seqm (modify (map (\<lambda>(n, h, y). (n, h, if n = name \<and> h = holder then timestamp x else y))))
         (gets (holder_is name holder)))"

definition sql_release :: "string \<Rightarrow> string \<Rightarrow> lease_table \<Rightarrow> lease_table" where
  "sql_release name holder t = filter (\<lambda>(n, h, y). \<not> (n = name \<and> h = holder)) t"

definition sql_lease_ops :: "lease_table lease_ops" where
  "sql_lease_ops = \<lparr>lo_acquire = sql_acquire, lo_renew = sql_renew, lo_release = sql_release\<rparr>"

section \<open>The leased dispatcher\<close>

record ('j, 'w, 'l) worker_world =
  ww_jobs :: "('j, 'w) job_world"
  ww_leases :: 'l

definition on_leases :: "('l, 'a) meth \<Rightarrow> (('j, 'w, 'l) worker_world, 'a) meth" where
  "on_leases m w = (case m (ww_leases w) of (r, l) \<Rightarrow> (r, w\<lparr>ww_leases := l\<rparr>))"

definition on_jobs :: "(('j, 'w) job_world, 'a) meth \<Rightarrow> (('j, 'w, 'l) worker_world, 'a) meth" where
  "on_jobs m w = (case m (ww_jobs w) of (r, j) \<Rightarrow> (r, w\<lparr>ww_jobs := j\<rparr>))"

definition leased_tick ::
  "'j job_store_ops \<Rightarrow> (py_error \<Rightarrow> string) \<Rightarrow> 'l lease_ops \<Rightarrow> 'w job list \<Rightarrow> string \<Rightarrow> int \<Rightarrow> datetime \<Rightarrow> string
     \<Rightarrow> (('j, 'w, 'l) worker_world, job_result list) meth" where
  "leased_tick js exc_text lo jobs lease_name ttl now holder =
     bind (on_leases (lo_acquire lo lease_name holder now ttl)) (\<lambda>won.
       if \<not> won
       then ret [\<lparr>jr_name = lease_name, jr_ran = False, jr_detail = ''skipped: not leader'', jr_error = []\<rparr>]
       else bind (on_jobs (dispatcher_tick js exc_text jobs now)) (\<lambda>results.
         seqm (on_leases (lo_renew lo lease_name holder now ttl)) (ret results)))"

section \<open>What a lease store promises\<close>

text \<open>The abstract leases: the holder of a name and the wall clock its lease expires at.\<close>

type_synonym leases = "string \<Rightarrow> (string \<times> int) option"

definition grants :: "leases \<Rightarrow> string \<Rightarrow> string \<Rightarrow> datetime \<Rightarrow> bool" where
  "grants m name holder now \<longleftrightarrow>
     (case m name of None \<Rightarrow> True | Some (h, x) \<Rightarrow> x \<le> dt_wall now \<or> h = holder)"

definition held_by :: "leases \<Rightarrow> string \<Rightarrow> string \<Rightarrow> bool" where
  "held_by m name holder \<longleftrightarrow> (case m name of None \<Rightarrow> False | Some (h, x) \<Rightarrow> h = holder)"

text \<open>Readings of one clock: in one zone \<open>z\<close>, in years of four digits.\<close>

definition clock_ok :: "zone \<Rightarrow> datetime \<Rightarrow> int \<Rightarrow> bool" where
  "clock_ok z now ttl \<longleftrightarrow> dt_zone now = z \<and> four_digit_year now \<and> four_digit_year (now\<lparr>dt_wall := dt_wall now + ttl\<rparr>)"

datatype lease_call =
    Acquire string string datetime int
  | Renew string string datetime int
  | Release string string

primrec lease_call_ok :: "zone \<Rightarrow> lease_call \<Rightarrow> bool" where
  "lease_call_ok z (Acquire n h now ttl) \<longleftrightarrow> clock_ok z now ttl"
| "lease_call_ok z (Renew n h now ttl) \<longleftrightarrow> clock_ok z now ttl"
| "lease_call_ok z (Release n h) \<longleftrightarrow> True"

primrec lease_step :: "'l lease_ops \<Rightarrow> lease_call \<Rightarrow> ('l, bool) meth" where
  "lease_step ops (Acquire n h now ttl) = lo_acquire ops n h now ttl"
| "lease_step ops (Renew n h now ttl) = lo_renew ops n h now ttl"
| "lease_step ops (Release n h) = seqm (modify (lo_release ops n h)) (ret True)"

primrec lease_spec :: "lease_call \<Rightarrow> leases \<Rightarrow> bool \<times> leases" where
  "lease_spec (Acquire n h now ttl) m =
     (if grants m n h now then (True, m(n \<mapsto> (h, dt_wall now + ttl))) else (False, m))"
| "lease_spec (Renew n h now ttl) m =
     (if held_by m n h then (True, m(n \<mapsto> (h, dt_wall now + ttl))) else (False, m))"
| "lease_spec (Release n h) m = (True, if held_by m n h then m(n := None) else m)"

text \<open>The answers to calls made one after the other.\<close>

primrec lease_answers :: "'l lease_ops \<Rightarrow> lease_call list \<Rightarrow> 'l \<Rightarrow> bool res list" where
  "lease_answers ops [] s = []"
| "lease_answers ops (c # cs) s = (case lease_step ops c s of (r, s') \<Rightarrow> r # lease_answers ops cs s')"

primrec spec_answers :: "lease_call list \<Rightarrow> leases \<Rightarrow> bool list" where
  "spec_answers [] m = []"
| "spec_answers (c # cs) m = (case lease_spec c m of (b, m') \<Rightarrow> b # spec_answers cs m')"

locale lease_store =
  fixes z :: zone and ops :: "'l lease_ops" and rel :: "'l \<Rightarrow> leases \<Rightarrow> bool"
  assumes acquire: "rel s m \<Longrightarrow> clock_ok z now ttl \<Longrightarrow>
      \<exists>s'. lo_acquire ops n h now ttl s = (Inr (fst (lease_spec (Acquire n h now ttl) m)), s') \<and>
        rel s' (snd (lease_spec (Acquire n h now ttl) m))"
    and renew: "rel s m \<Longrightarrow> clock_ok z now ttl \<Longrightarrow>
      \<exists>s'. lo_renew ops n h now ttl s = (Inr (fst (lease_spec (Renew n h now ttl) m)), s') \<and>
        rel s' (snd (lease_spec (Renew n h now ttl) m))"
    and release: "rel s m \<Longrightarrow> rel (lo_release ops n h s) (snd (lease_spec (Release n h) m))"
begin

lemma step:
  assumes "rel s m" "lease_call_ok z c"
  shows "\<exists>s'. lease_step ops c s = (Inr (fst (lease_spec c m)), s') \<and> rel s' (snd (lease_spec c m))"
proof (cases c)
  case Release
  then show ?thesis using release [OF assms(1)] by simp
qed (use assms acquire renew in \<open>simp_all del: lease_spec.simps\<close>)

lemma answers: "rel s m \<Longrightarrow> list_all (lease_call_ok z) cs \<Longrightarrow> lease_answers ops cs s = map Inr (spec_answers cs m)"
proof (induction cs arbitrary: s m)
  case (Cons c cs)
  from step [OF Cons.prems(1)] Cons.prems(2) obtain s' where
    s': "lease_step ops c s = (Inr (fst (lease_spec c m)), s')" "rel s' (snd (lease_spec c m))" by auto
  then show ?case using Cons.IH [OF s'(2)] Cons.prems(2) by (simp add: case_prod_beta)
qed simp

end

section \<open>The stores keep the promise\<close>

lemma four_digit_valid:
  assumes "four_digit_year d" shows "valid_date (dt_wall d div DAY)"
proof -
  have n: "1 \<le> dt_wall d div DAY" and y: "1000 \<le> year_of (dt_wall d div DAY)" "year_of (dt_wall d div DAY) \<le> 9999"
    using assms by (simp_all add: four_digit_year_def)
  have "1 \<le> month_of (dt_wall d div DAY)" "month_of (dt_wall d div DAY) \<le> 12"
    using ymd_of_bounds(2) [OF n] by (simp_all add: valid_ymd_def)
  then show ?thesis using valid_date_month [OF month_index_bounds(1,2) [OF n]] y by (simp add: month_index_def)
qed

lemma timestamp_fold [simp]: "timestamp (d\<lparr>dt_wall := w, dt_fold := f\<rparr>) = timestamp (d\<lparr>dt_wall := w\<rparr>)"
  by (simp add: timestamp_def)

definition mem_leases_rel :: "zone \<Rightarrow> mem_leases \<Rightarrow> leases \<Rightarrow> bool" where
  "mem_leases_rel z s m \<longleftrightarrow>
     (\<forall>n. m n = map_option (\<lambda>r. (ls_holder r, dt_wall (ls_expires_at r))) (map_of s n)) \<and>
     (\<forall>n r. map_of s n = Some r \<longrightarrow> dt_zone (ls_expires_at r) = z) \<and> distinct (map fst s)"

definition entry_rel :: "string \<times> string \<Rightarrow> string \<times> int \<Rightarrow> bool" where
  "entry_rel = (\<lambda>(h, x) (h', w). h = h' \<and> (\<exists>d. x = timestamp d \<and> four_digit_year d \<and> w = dt_wall d))"

definition sql_leases_rel :: "lease_table \<Rightarrow> leases \<Rightarrow> bool" where
  "sql_leases_rel t m \<longleftrightarrow> distinct (map fst t) \<and> (\<forall>n. rel_option entry_rel (map_of t n) (m n))"

lemma dt_plus_clock:
  assumes "clock_ok z now ttl"
  shows "dt_plus now ttl = Inr (now\<lparr>dt_wall := dt_wall now + ttl, dt_fold := False\<rparr>)"
  using four_digit_valid [of "now\<lparr>dt_wall := dt_wall now + ttl\<rparr>"] assms
  by (simp add: dt_plus_def clock_ok_def)

lemma mem_granted:
  assumes "mem_leases_rel z s m" "clock_ok z now ttl"
  shows "\<exists>s'. mem_grant n h now ttl s = (Inr True, s') \<and> mem_leases_rel z s' (m(n \<mapsto> (h, dt_wall now + ttl)))"
  using assms
  by (auto simp: mem_grant_def dt_plus_clock mem_leases_rel_def update_conv' distinct_update clock_ok_def)

interpretation mem_ls: lease_store z "mem_lease_ops tz" "mem_leases_rel z" for z tz
proof unfold_locales
  fix s m n h and now :: datetime and ttl
  assume rel: "mem_leases_rel z s m" and clk: "clock_ok z now ttl"
  show "\<exists>s'. lo_acquire (mem_lease_ops tz) n h now ttl s = (Inr (fst (lease_spec (Acquire n h now ttl) m)), s') \<and>
      mem_leases_rel z s' (snd (lease_spec (Acquire n h now ttl) m))"
  proof (cases "map_of s n")
    case None
    moreover from this rel have "m n = None" by (simp add: mem_leases_rel_def)
    ultimately show ?thesis using mem_granted [OF rel clk, of n h]
      by (simp add: mem_lease_ops_def mem_acquire_def grants_def)
  next
    case (Some r)
    with rel have r: "m n = Some (ls_holder r, dt_wall (ls_expires_at r))" "dt_zone (ls_expires_at r) = z"
      by (simp_all add: mem_leases_rel_def)
    have "dt_le tz (ls_expires_at r) now = Inr (dt_wall (ls_expires_at r) \<le> dt_wall now)"
      using r(2) clk by (simp add: dt_le_def clock_ok_def)
    then show ?thesis using mem_granted [OF rel clk, of n h] Some rel
      by (simp add: mem_lease_ops_def mem_acquire_def grants_def r(1))
  qed
  show "\<exists>s'. lo_renew (mem_lease_ops tz) n h now ttl s = (Inr (fst (lease_spec (Renew n h now ttl) m)), s') \<and>
      mem_leases_rel z s' (snd (lease_spec (Renew n h now ttl) m))"
  proof (cases "map_of s n")
    case None
    moreover from this rel have "m n = None" by (simp add: mem_leases_rel_def)
    ultimately show ?thesis using rel by (simp add: mem_lease_ops_def mem_renew_def held_by_def)
  next
    case (Some r)
    with rel have "m n = Some (ls_holder r, dt_wall (ls_expires_at r))" by (simp add: mem_leases_rel_def)
    then show ?thesis using mem_granted [OF rel clk, of n h] Some rel
      by (simp add: mem_lease_ops_def mem_renew_def held_by_def)
  qed
next
  fix s m n h
  assume rel: "mem_leases_rel z s m"
  show "mem_leases_rel z (lo_release (mem_lease_ops tz) n h s) (snd (lease_spec (Release n h) m))"
  proof (cases "map_of s n")
    case None
    moreover from this rel have "m n = None" by (simp add: mem_leases_rel_def)
    ultimately show ?thesis using rel by (simp add: mem_lease_ops_def mem_release_def held_by_def)
  next
    case (Some r)
    with rel have "m n = Some (ls_holder r, dt_wall (ls_expires_at r))" by (simp add: mem_leases_rel_def)
    moreover have "set (AList.delete n s) \<subseteq> set s" by (auto simp: AList.delete_eq)
    ultimately show ?thesis using Some rel
      by (auto simp: mem_lease_ops_def mem_release_def held_by_def mem_leases_rel_def delete_conv' distinct_delete)
  qed
qed

lemma holder_is_map: "distinct (map fst t) \<Longrightarrow> holder_is n h t \<longleftrightarrow> (\<exists>x. map_of t n = Some (h, x))"
proof (induction t)
  case (Cons r t)
  obtain k g y where r: "r = (k, g, y)" by (cases r)
  show ?case
  proof (cases "k = n")
    case True
    then have "filter (\<lambda>(l, _). l = n) t = []" using Cons.prems r by (force simp: filter_empty_conv)
    then show ?thesis using True r by (simp add: holder_is_def)
  next
    case False
    then show ?thesis using Cons r by (simp add: holder_is_def)
  qed
qed (simp add: holder_is_def)


lemma timestamp_plus:
  assumes "dt_plus now ttl = Inr x" shows "timestamp x = timestamp (now\<lparr>dt_wall := dt_wall now + ttl\<rparr>)"
  using assms by (auto simp: dt_plus_def Let_def timestamp_def split: if_splits)

lemma sql_rel_cases:
  assumes "sql_leases_rel t m"
  obtains (free) "map_of t n = None" "m n = None"
  | (taken) g d where "map_of t n = Some (g, timestamp d)" "four_digit_year d" "m n = Some (g, dt_wall d)"
proof -
  have "rel_option entry_rel (map_of t n) (m n)" using assms by (simp add: sql_leases_rel_def)
  then show ?thesis using that by (cases "map_of t n"; cases "m n") (auto simp: entry_rel_def)
qed

lemma entry_rel_new: "clock_ok z now ttl \<Longrightarrow> entry_rel (h, timestamp (now\<lparr>dt_wall := dt_wall now + ttl\<rparr>)) (h, dt_wall now + ttl)"
  by (auto simp: entry_rel_def clock_ok_def intro!: exI [of _ "now\<lparr>dt_wall := dt_wall now + ttl\<rparr>"])

lemma upsert_rel:
  assumes rel: "sql_leases_rel t m" and clk: "clock_ok z now ttl"
  shows "sql_leases_rel (sql_upsert n h (timestamp (now\<lparr>dt_wall := dt_wall now + ttl\<rparr>)) (timestamp now) t)
    (if grants m n h now then m(n \<mapsto> (h, dt_wall now + ttl)) else m)"
  using rel
proof (cases rule: sql_rel_cases [of t m n])
  case free
  then have new: "n \<notin> set (map fst t)" by (simp add: map_of_eq_None_iff)
  have "map_of (t @ [(n, v)]) k = (if k = n then Some v else map_of t k)" for k v
    using free(1) by (auto simp: map_add_def split: option.split)
  then show ?thesis using rel free(2) new entry_rel_new [OF clk, of h]
    by (simp add: sql_upsert_def free(1) grants_def sql_leases_rel_def)
next
  case (taken g d)
  have "timestamp d \<le> timestamp now \<longleftrightarrow> dt_wall d \<le> dt_wall now"
    using clk by (intro timestamp_le taken) (simp add: clock_ok_def)
  then show ?thesis using rel taken entry_rel_new [OF clk, of h]
    by (auto simp: sql_upsert_def grants_def sql_leases_rel_def update_conv' distinct_update)
qed

lemma holder_is_held:
  assumes rel: "sql_leases_rel t m" shows "holder_is n h t \<longleftrightarrow> held_by m n h"
  using rel
proof (cases rule: sql_rel_cases [of t m n])
  case free
  then show ?thesis using holder_is_map [of t n h] rel by (simp add: held_by_def sql_leases_rel_def)
next
  case (taken g d)
  then show ?thesis using holder_is_map [of t n h] rel by (auto simp: held_by_def sql_leases_rel_def)
qed

lemma renew_rel:
  assumes rel: "sql_leases_rel t m" and clk: "clock_ok z now ttl"
  defines "x \<equiv> timestamp (now\<lparr>dt_wall := dt_wall now + ttl, dt_fold := False\<rparr>)"
  shows "sql_leases_rel (map (\<lambda>(k, g, y). (k, g, if k = n \<and> g = h then x else y)) t)
    (if held_by m n h then m(n \<mapsto> (h, dt_wall now + ttl)) else m)"
proof -
  let ?f = "\<lambda>(k, g, y). (k, g, if k = n \<and> g = h then x else y)"
  have map: "map_of (map ?f t) k = map_option (\<lambda>(g, y). (g, if k = n \<and> g = h then x else y)) (map_of t k)" for k
    by (induction t) auto
  have fst: "map fst (map ?f t) = map fst t" by auto
  have "rel_option entry_rel (map_of (map ?f t) k) ((if held_by m n h then m(n \<mapsto> (h, dt_wall now + ttl)) else m) k)" for k
    using rel
  proof (cases rule: sql_rel_cases [of t m k])
    case free
    then show ?thesis by (auto simp: map held_by_def)
  next
    case (taken g d)
    then show ?thesis using entry_rel_new [OF clk, of h] by (auto simp: map held_by_def entry_rel_def x_def)
  qed
  then show ?thesis unfolding sql_leases_rel_def fst using rel by (simp add: sql_leases_rel_def)
qed

lemma release_rel:
  assumes rel: "sql_leases_rel t m"
  shows "sql_leases_rel (sql_release n h t) (if held_by m n h then m(n := None) else m)"
proof -
  have dist: "distinct (map fst t)" using assms by (simp add: sql_leases_rel_def)
  have map: "map_of (sql_release n h t) k =
      (case map_of t k of Some (g, y) \<Rightarrow> if k = n \<and> g = h then None else Some (g, y) | None \<Rightarrow> None)" for k
    using dist unfolding sql_release_def
    by (induction t) (auto split: option.splits simp: map_of_eq_None_iff image_iff)
  have "rel_option entry_rel (map_of (sql_release n h t) k) ((if held_by m n h then m(n := None) else m) k)" for k
    using rel
  proof (cases rule: sql_rel_cases [of t m k])
    case free
    then show ?thesis by (auto simp: map held_by_def)
  next
    case (taken g d)
    then show ?thesis by (auto simp: map held_by_def entry_rel_def)
  qed
  moreover have "distinct (map fst (sql_release n h t))" using dist by (simp add: sql_release_def distinct_map_filter)
  ultimately show ?thesis by (simp add: sql_leases_rel_def)
qed

interpretation sql_ls: lease_store z sql_lease_ops sql_leases_rel for z
proof unfold_locales
  fix t m n h and now :: datetime and ttl
  assume rel: "sql_leases_rel t m" and clk: "clock_ok z now ttl"
  note x = dt_plus_clock [OF clk]
  show "\<exists>t'. lo_acquire sql_lease_ops n h now ttl t = (Inr (fst (lease_spec (Acquire n h now ttl) m)), t') \<and>
      sql_leases_rel t' (snd (lease_spec (Acquire n h now ttl) m))"
    using upsert_rel [OF rel clk, of n h] holder_is_held [OF upsert_rel [OF rel clk, of n h], of n h]
    by (auto simp: sql_lease_ops_def sql_acquire_def x grants_def held_by_def split: option.splits)
  show "\<exists>t'. lo_renew sql_lease_ops n h now ttl t = (Inr (fst (lease_spec (Renew n h now ttl) m)), t') \<and>
      sql_leases_rel t' (snd (lease_spec (Renew n h now ttl) m))"
    using renew_rel [OF rel clk, of n h] holder_is_held [OF renew_rel [OF rel clk, of n h], of n h]
    by (auto simp: sql_lease_ops_def sql_renew_def x held_by_def split: option.splits)
next
  fix t m n h
  assume "sql_leases_rel t m"
  then show "sql_leases_rel (lo_release sql_lease_ops n h t) (snd (lease_spec (Release n h) m))"
    using release_rel by (simp add: sql_lease_ops_def)
qed


section \<open>Sequences of calls\<close>

definition spec_state :: "lease_call list \<Rightarrow> leases \<Rightarrow> leases" where
  "spec_state cs m = fold (\<lambda>c m. snd (lease_spec c m)) cs m"

lemma length_spec_answers [simp]: "length (spec_answers cs m) = length cs"
  by (induction cs arbitrary: m) (simp_all add: case_prod_beta)

lemma spec_answers_append: "spec_answers (cs @ ds) m = spec_answers cs m @ spec_answers ds (spec_state cs m)"
  by (induction cs arbitrary: m) (simp_all add: case_prod_beta spec_state_def)

text \<open>Calls that leave a lease of \<open>h\<close> on \<open>n\<close> that expires at \<open>x\<close> alone.\<close>

primrec of_others :: "string \<Rightarrow> string \<Rightarrow> lease_call \<Rightarrow> bool" where
  "of_others n h (Acquire k g now ttl) \<longleftrightarrow> k = n \<longrightarrow> g \<noteq> h"
| "of_others n h (Renew k g now ttl) \<longleftrightarrow> k = n \<longrightarrow> g \<noteq> h"
| "of_others n h (Release k g) \<longleftrightarrow> k = n \<longrightarrow> g \<noteq> h"

primrec until :: "int \<Rightarrow> lease_call \<Rightarrow> bool" where
  "until w (Acquire k g now ttl) \<longleftrightarrow> dt_wall now \<le> w"
| "until w (Renew k g now ttl) \<longleftrightarrow> dt_wall now \<le> w"
| "until w (Release k g) \<longleftrightarrow> True"

lemma lease_stays:
  "m n = Some (h, x) \<Longrightarrow> of_others n h c \<Longrightarrow> until w c \<Longrightarrow> w < x \<Longrightarrow> snd (lease_spec c m) n = Some (h, x)"
  by (cases c) (auto simp: grants_def held_by_def)

lemma lease_stays_run:
  "m n = Some (h, x) \<Longrightarrow> list_all (of_others n h) cs \<Longrightarrow> list_all (until w) cs \<Longrightarrow> w < x \<Longrightarrow>
     spec_state cs m n = Some (h, x)"
proof (induction cs arbitrary: m)
  case (Cons c cs)
  then have "snd (lease_spec c m) n = Some (h, x)" using lease_stays [of m n h x c w] by simp
  then show ?case using Cons.IH [of "snd (lease_spec c m)"] Cons.prems by (simp add: spec_state_def)
qed (simp add: spec_state_def)

lemma mem_leases_start: "mem_leases_rel z [] (\<lambda>_. None)"
  by (simp add: mem_leases_rel_def)

lemma sql_leases_start: "sql_leases_rel [] (\<lambda>_. None)"
  by (simp add: sql_leases_rel_def)

section \<open>Properties of the leases\<close>

text \<open>C30. The leases in memory, which compare datetimes, and in SQL, which compares timestamps as text, give
  the same answers to the same calls by one clock: those of the abstract leases.\<close>

theorem lease_stores_equivalent:
  assumes "list_all (lease_call_ok z) cs"
  shows "lease_answers (mem_lease_ops tz) cs [] = lease_answers sql_lease_ops cs [] \<and>
    lease_answers sql_lease_ops cs [] = map Inr (spec_answers cs (\<lambda>_. None))"
  using mem_ls.answers [OF mem_leases_start assms] sql_ls.answers [OF sql_leases_start assms] by simp

definition noon :: "int \<Rightarrow> datetime" where
  "noon minutes = \<lparr>dt_wall = 738000 * DAY + (720 + minutes) * 60000000, dt_fold = False, dt_zone = Fixed 0\<rparr>"

lemma noon_wall: "dt_wall (noon m) = 738000 * DAY + (720 + m) * 60000000"
  by (simp add: noon_def)

lemma noon_zone: "dt_zone (noon m) = Fixed 0"
  by (simp add: noon_def)

lemma noon_clock: "clock_ok (Fixed 0) (noon m) (n * 60000000)" if "m \<in> {0, 2, 5}" "n = 5"
  using that by (auto simp: clock_ok_def noon_def four_digit_year_def DAY_def) code_simp+

theorem lease_stores_equivalent_witness:
  "lease_answers sql_lease_ops [Acquire ''d'' ''A'' (noon 0) (5 * 60000000), Acquire ''d'' ''B'' (noon 2) (5 * 60000000),
      Acquire ''d'' ''B'' (noon 5) (5 * 60000000), Renew ''d'' ''A'' (noon 5) (5 * 60000000)] [] =
   [Inr True, Inr False, Inr True, Inr False]"
  using lease_stores_equivalent [of "Fixed 0" "[Acquire ''d'' ''A'' (noon 0) (5 * 60000000),
      Acquire ''d'' ''B'' (noon 2) (5 * 60000000), Acquire ''d'' ''B'' (noon 5) (5 * 60000000),
      Renew ''d'' ''A'' (noon 5) (5 * 60000000)]"] noon_clock [of 0] noon_clock [of 2] noon_clock [of 5]
  by (simp add: grants_def held_by_def noon_wall del: lease_answers.simps)

text \<open>C11. While a worker's lease has not expired, no other worker is granted it, whatever others try in
  between, unless it releases or takes the lease again itself.\<close>

theorem lease_mutual_exclusion:
  assumes ok: "list_all (lease_call_ok z) (cs @ Acquire n h now ttl # ds @ [Acquire n h' now' ttl'])" and "h \<noteq> h'"
    and others: "list_all (of_others n h) ds" "list_all (until (dt_wall now')) ds"
    and granted: "lease_answers sql_lease_ops (cs @ Acquire n h now ttl # ds @ [Acquire n h' now' ttl']) [] ! length cs = Inr True"
      "last (lease_answers sql_lease_ops (cs @ Acquire n h now ttl # ds @ [Acquire n h' now' ttl']) []) = Inr True"
  shows "dt_wall now + ttl \<le> dt_wall now'"
proof (rule ccontr)
  assume late: "\<not> dt_wall now + ttl \<le> dt_wall now'"
  define m where "m = spec_state cs (\<lambda>_. None)"
  define m' where "m' = spec_state ds (m(n \<mapsto> (h, dt_wall now + ttl)))"
  have g: "grants m n h now"
    using granted(1) unfolding sql_ls.answers [OF sql_leases_start ok]
    by (simp add: spec_answers_append nth_append m_def split: if_splits)
  have "grants m' n h' now'"
    using granted(2) g unfolding sql_ls.answers [OF sql_leases_start ok]
    by (simp add: spec_answers_append last_map m_def m'_def split: if_splits)
  moreover have "m' n = Some (h, dt_wall now + ttl)"
    unfolding m'_def using lease_stays_run [OF _ others, of _ "dt_wall now + ttl"] late by simp
  ultimately show False using late \<open>h \<noteq> h'\<close> by (simp add: grants_def)
qed

theorem lease_mutual_exclusion_witness:
  "dt_wall (noon 0) + 5 * 60000000 \<le> dt_wall (noon 5)"
  using lease_mutual_exclusion [of "Fixed 0" "[]" "''d''" "''A''" "noon 0" "5 * 60000000"
      "[Acquire ''d'' ''B'' (noon 2) (5 * 60000000)]" "''B''" "noon 5" "5 * 60000000"]
    sql_ls.answers [OF sql_leases_start, of "Fixed 0" "[Acquire ''d'' ''A'' (noon 0) (5 * 60000000),
      Acquire ''d'' ''B'' (noon 2) (5 * 60000000), Acquire ''d'' ''B'' (noon 5) (5 * 60000000)]"] noon_clock [of 0] noon_clock [of 2] noon_clock [of 5]
  by (simp add: grants_def noon_wall del: lease_answers.simps)

text \<open>The statements of two workers that acquire a lease at once: the upsert and the reading of the
  holder.\<close>

datatype lease_stmt = UpsertStmt string datetime int | ReadStmt string

fun race_step :: "string \<Rightarrow> lease_stmt \<Rightarrow> lease_table \<times> (string \<times> bool) list \<Rightarrow> lease_table \<times> (string \<times> bool) list" where
  "race_step n (UpsertStmt h now ttl) (t, won) =
     (sql_upsert n h (timestamp (now\<lparr>dt_wall := dt_wall now + ttl\<rparr>)) (timestamp now) t, won)"
| "race_step n (ReadStmt h) (t, won) = (t, won @ [(h, holder_is n h t)])"


lemma upsert_step:
  assumes "sql_leases_rel t m" "clock_ok z now ttl"
  obtains t' where "race_step n (UpsertStmt h now ttl) (t, won) = (t', won)"
    "sql_leases_rel t' (if grants m n h now then m(n \<mapsto> (h, dt_wall now + ttl)) else m)"
  using upsert_rel [OF assms, of n h] that by simp

text \<open>However the statements of two workers interleave, at most one of them is told that it holds the
  lease, as long as their clocks are less than the lease's duration apart.\<close>

theorem lease_race_one_winner:
  assumes rel: "sql_leases_rel t m" and clk: "clock_ok z now ttl" "clock_ok z now' ttl'" and "a \<noteq> b"
    and near: "dt_wall now' < dt_wall now + ttl" "dt_wall now < dt_wall now' + ttl'"
  shows "\<forall>steps \<in> shuffles [UpsertStmt a now ttl, ReadStmt a] [UpsertStmt b now' ttl', ReadStmt b].
    \<not> {(a, True), (b, True)} \<subseteq> set (snd (fold (race_step n) steps (t, [])))"
proof -
  define ma where "ma = (if grants m n a now then m(n \<mapsto> (a, dt_wall now + ttl)) else m)"
  define mb where "mb = (if grants m n b now' then m(n \<mapsto> (b, dt_wall now' + ttl')) else m)"
  define mab where "mab = (if grants ma n b now' then ma(n \<mapsto> (b, dt_wall now' + ttl')) else ma)"
  define mba where "mba = (if grants mb n a now then mb(n \<mapsto> (a, dt_wall now + ttl)) else mb)"
  let ?ua = "\<lambda>t. sql_upsert n a (timestamp (now\<lparr>dt_wall := dt_wall now + ttl\<rparr>)) (timestamp now) t"
  let ?ub = "\<lambda>t. sql_upsert n b (timestamp (now'\<lparr>dt_wall := dt_wall now' + ttl'\<rparr>)) (timestamp now') t"
  have r: "sql_leases_rel (?ua t) ma" "sql_leases_rel (?ub t) mb"
    unfolding ma_def mb_def using upsert_rel [OF rel clk(1)] upsert_rel [OF rel clk(2)] by blast+
  have rr: "sql_leases_rel (?ub (?ua t)) mab" "sql_leases_rel (?ua (?ub t)) mba"
    unfolding mab_def mba_def using upsert_rel [OF r(1) clk(2)] upsert_rel [OF r(2) clk(1)] by blast+
  note held = holder_is_held [OF r(1)] holder_is_held [OF r(2)] holder_is_held [OF rr(1)] holder_is_held [OF rr(2)]
  have one: "\<not> (held_by ma n a \<and> held_by mab n b)" "\<not> (held_by mb n b \<and> held_by mba n a)"
    "\<not> (held_by mab n a \<and> held_by mab n b)" "\<not> (held_by mba n a \<and> held_by mba n b)"
    using \<open>a \<noteq> b\<close> near
    by (auto simp: ma_def mb_def mab_def mba_def held_by_def grants_def split: option.splits if_splits)
  show ?thesis using one \<open>a \<noteq> b\<close> by (auto simp: held)
qed

theorem lease_race_one_winner_witness:
  "\<not> {(''A'', True), (''B'', True)} \<subseteq>
     set (snd (fold (race_step ''d'') [UpsertStmt ''A'' (noon 0) 300000000, UpsertStmt ''B'' (noon 2) 300000000,
       ReadStmt ''A'', ReadStmt ''B''] ([], [])))"
  using lease_race_one_winner [OF sql_leases_start, of "Fixed 0" "noon 0" 300000000 "noon 2" 300000000 "''A''" "''B''" "''d''"]
    noon_clock [of 0 5] noon_clock [of 2 5]
  by (simp add: noon_wall del: race_step.simps)

section \<open>Properties of the dispatcher\<close>

lemma dispatch_job_total:
  assumes "jb_due job now (js_last_run js (jb_name job) (jw_runs w)) = Inr due"
  shows "\<exists>r w'. dispatch_job js exc_text now job w = (Inr r, w')"
  using assms by (cases due) (auto simp: dispatch_job_def split: sum.splits prod.splits)

lemma dispatch_job_result:
  assumes "jb_due job now (js_last_run js (jb_name job) (jw_runs w)) = Inr due"
    and "dispatch_job js exc_text now job w = (Inr r, w')"
  shows "jr_name r = jb_name job" "jr_ran r \<longleftrightarrow> due \<and> is_ok (fst (jb_run job now (jw_world w)))"
    and "jw_world w' = (if due then snd (jb_run job now (jw_world w)) else jw_world w)"
    and "jw_runs w' = (if jr_ran r then js_mark_run js (jb_name job) now (jw_runs w) else jw_runs w)"
  using assms by (cases due; auto simp: dispatch_job_def split: sum.splits prod.splits)+

text \<open>The world after the jobs that are due have run.\<close>

primrec world_after :: "datetime \<Rightarrow> (string \<Rightarrow> datetime option) \<Rightarrow> 'w job list \<Rightarrow> 'w \<Rightarrow> 'w" where
  "world_after now last_run [] v = v"
| "world_after now last_run (job # jobs) v =
     world_after now last_run jobs
       (if jb_due job now (last_run (jb_name job)) = Inr True then snd (jb_run job now v) else v)"

lemma dispatcher_tick_exact:
  assumes "list_all (\<lambda>j. is_ok (jb_due j now (map_of (jw_runs w) (jb_name j)))) jobs" "distinct (map jb_name jobs)"
  shows "\<exists>rs w'. dispatcher_tick mem_job_store exc_text jobs now w = (Inr rs, w') \<and> map jr_name rs = map jb_name jobs \<and>
    jw_world w' = world_after now (map_of (jw_runs w)) jobs (jw_world w) \<and>
    (\<forall>i < length jobs. jr_ran (rs ! i) \<longleftrightarrow>
       jb_due (jobs ! i) now (map_of (jw_runs w) (jb_name (jobs ! i))) = Inr True \<and>
       is_ok (fst (jb_run (jobs ! i) now (world_after now (map_of (jw_runs w)) (take i jobs) (jw_world w))))) \<and>
    (\<forall>n. map_of (jw_runs w') n =
       (if \<exists>i < length jobs. jb_name (jobs ! i) = n \<and> jr_ran (rs ! i) then Some now else map_of (jw_runs w) n))"
  using assms
proof (induction jobs arbitrary: w)
  case (Cons job jobs)
  have "is_ok (jb_due job now (map_of (jw_runs w) (jb_name job)))" using Cons.prems(1) by simp
  then obtain due where due: "jb_due job now (js_last_run mem_job_store (jb_name job) (jw_runs w)) = Inr due"
    by (auto simp: mem_job_store_def is_ok_def split: sum.splits)
  obtain r v where r: "dispatch_job mem_job_store exc_text now job w = (Inr r, v)"
    using dispatch_job_total [OF due] by blast
  note res = dispatch_job_result [OF due r]
  have due': "jb_due job now (map_of (jw_runs w) (jb_name job)) = Inr due" using due by (simp add: mem_job_store_def)
  have runs: "map_of (jw_runs v) n = (if n = jb_name job \<and> jr_ran r then Some now else map_of (jw_runs w) n)" for n
    by (auto simp: res(4) mem_job_store_def update_conv')
  then have other: "map_of (jw_runs v) (jb_name j) = map_of (jw_runs w) (jb_name j)" if "j \<in> set jobs" for j
  proof -
    have "jb_name j \<noteq> jb_name job" using that Cons.prems(2) by (metis distinct.simps(2) imageI list.set_map list.simps(9))
    then show ?thesis by (simp add: runs)
  qed
  have same: "world_after now (map_of (jw_runs v)) js u = world_after now (map_of (jw_runs w)) js u" if "set js \<subseteq> set jobs" for js u
    using that by (induction js arbitrary: u) (simp_all add: other)
  have "list_all (\<lambda>j. is_ok (jb_due j now (map_of (jw_runs v) (jb_name j)))) jobs"
    using Cons.prems(1) other by (simp add: list_all_iff)
  then obtain rs w' where IH: "dispatcher_tick mem_job_store exc_text jobs now v = (Inr rs, w')" "map jr_name rs = map jb_name jobs"
    "jw_world w' = world_after now (map_of (jw_runs v)) jobs (jw_world v)"
    "\<forall>i < length jobs. jr_ran (rs ! i) \<longleftrightarrow> jb_due (jobs ! i) now (map_of (jw_runs v) (jb_name (jobs ! i))) = Inr True \<and>
       is_ok (fst (jb_run (jobs ! i) now (world_after now (map_of (jw_runs v)) (take i jobs) (jw_world v))))"
    "\<forall>n. map_of (jw_runs w') n =
       (if \<exists>i < length jobs. jb_name (jobs ! i) = n \<and> jr_ran (rs ! i) then Some now else map_of (jw_runs v) n)"
    using Cons.IH [of v] Cons.prems(2) by auto
  show ?case
  proof (intro exI conjI)
    show "dispatcher_tick mem_job_store exc_text (job # jobs) now w = (Inr (r # rs), w')" by (simp add: r IH(1))
    show "map jr_name (r # rs) = map jb_name (job # jobs)" by (simp add: res(1) IH(2))
    show "jw_world w' = world_after now (map_of (jw_runs w)) (job # jobs) (jw_world w)"
      by (simp add: IH(3) same res(3) due')
    show "\<forall>i < length (job # jobs). jr_ran ((r # rs) ! i) \<longleftrightarrow>
       jb_due ((job # jobs) ! i) now (map_of (jw_runs w) (jb_name ((job # jobs) ! i))) = Inr True \<and>
       is_ok (fst (jb_run ((job # jobs) ! i) now (world_after now (map_of (jw_runs w)) (take i (job # jobs)) (jw_world w))))"
      using IH(4) by (auto simp: less_Suc_eq_0_disj res(2,3) due' other same set_take_subset)
    show "\<forall>n. map_of (jw_runs w') n =
       (if \<exists>i < length (job # jobs). jb_name ((job # jobs) ! i) = n \<and> jr_ran ((r # rs) ! i) then Some now
        else map_of (jw_runs w) n)"
      using IH(5) by (auto simp: Ex_less_Suc2 runs)
  qed
qed simp


lemma interval_name [simp]: "jb_name (interval_job tz name interval fn) = name"
  by (simp add: interval_job_def)

definition example_jobs :: "tzdb \<Rightarrow> string list job list" where
  "example_jobs tz =
     [interval_job tz ''flaky'' 60000000 (\<lambda>now k. (Inl RuntimeError, k)),
      interval_job tz ''alerts'' 60000000 (\<lambda>now k. (Inr ''done'', k @ [''sent'']))]"


text \<open>The times at which the \<open>i\<close>-th job ran over successive ticks.\<close>

primrec run_times ::
  "(py_error \<Rightarrow> string) \<Rightarrow> 'w job list \<Rightarrow> nat \<Rightarrow> datetime list \<Rightarrow> (mem_job_runs, 'w) job_world \<Rightarrow> datetime list" where
  "run_times exc_text jobs i [] w = []"
| "run_times exc_text jobs i (now # nows) w =
     (case dispatcher_tick mem_job_store exc_text jobs now w of
        (r, w') \<Rightarrow> (case r of Inr rs \<Rightarrow> if jr_ran (rs ! i) then [now] else [] | Inl _ \<Rightarrow> []) @ run_times exc_text jobs i nows w')"

text \<open>A job that can tell whether it is due from times of one zone.\<close>

definition zone_safe :: "zone \<Rightarrow> 'w job \<Rightarrow> bool" where
  "zone_safe z job \<longleftrightarrow>
     (\<forall>now last_run. dt_zone now = z \<and> (\<forall>l. last_run = Some l \<longrightarrow> dt_zone l = z) \<longrightarrow> is_ok (jb_due job now last_run))"

lemma interval_zone_safe: "zone_safe z (interval_job tz name interval fn)"
  by (auto simp: zone_safe_def interval_job_def dt_minus_def split: option.split)

lemma briefing_zone_safe: "zone_safe z (briefing_dispatch_job name tick_fn)"
  by (simp add: zone_safe_def briefing_dispatch_job_def)

lemma run_times_spaced:
  assumes jobs: "list_all (zone_safe z) jobs" "distinct (map jb_name jobs)"
    and i: "i < length jobs" "jobs ! i = interval_job tz name interval fn"
  shows "list_all (\<lambda>d. dt_zone d = z) nows \<Longrightarrow> (\<forall>n l. map_of (jw_runs w) n = Some l \<longrightarrow> dt_zone l = z) \<Longrightarrow>
    successively (\<lambda>a b. interval \<le> dt_wall b - dt_wall a)
      ((case map_of (jw_runs w) name of Some l \<Rightarrow> [l] | None \<Rightarrow> []) @ run_times exc_text jobs i nows w)"
proof (induction nows arbitrary: w)
  case (Cons now nows)
  have safe: "list_all (\<lambda>j. is_ok (jb_due j now (map_of (jw_runs w) (jb_name j)))) jobs"
    using jobs(1) Cons.prems by (auto simp: list_all_iff zone_safe_def)
  obtain rs w' where t: "dispatcher_tick mem_job_store exc_text jobs now w = (Inr rs, w')" "map jr_name rs = map jb_name jobs"
    "\<forall>i < length jobs. jr_ran (rs ! i) \<longleftrightarrow>
       jb_due (jobs ! i) now (map_of (jw_runs w) (jb_name (jobs ! i))) = Inr True \<and>
       is_ok (fst (jb_run (jobs ! i) now (world_after now (map_of (jw_runs w)) (take i jobs) (jw_world w))))"
    "\<forall>n. map_of (jw_runs w') n =
       (if \<exists>i < length jobs. jb_name (jobs ! i) = n \<and> jr_ran (rs ! i) then Some now else map_of (jw_runs w) n)"
    using dispatcher_tick_exact [OF safe jobs(2), of exc_text] by blast
  have name: "jb_name (jobs ! i) = name" by (simp add: i(2) interval_job_def)
  then have uniq: "j = i" if "j < length jobs" "jb_name (jobs ! j) = name" for j
    using that i(1) jobs(2) nth_eq_iff_index_eq [of "map jb_name jobs" j i] by simp
  have zones: "\<forall>n l. map_of (jw_runs w') n = Some l \<longrightarrow> dt_zone l = z"
    using t(4) Cons.prems by (auto split: if_splits)
  note IH = Cons.IH [OF _ zones]
  show ?case
  proof (cases "jr_ran (rs ! i)")
    case True
    then have now: "map_of (jw_runs w') name = Some now" using t(4) i(1) name by auto
    have "interval \<le> dt_wall now - dt_wall l" if l: "map_of (jw_runs w) name = Some l" for l
    proof -
      have "dt_zone l = dt_zone now" using l Cons.prems by auto
      moreover have "jb_due (jobs ! i) now (Some l) = Inr True" using True t(3) i(1) name l by auto
      ultimately show ?thesis by (simp add: i(2) interval_job_def dt_minus_def)
    qed
    then show ?thesis using IH Cons.prems(1) True now t(1)
      by (auto split: option.split)
  next
    case False
    then have "map_of (jw_runs w') name = map_of (jw_runs w) name" using t(4) uniq by auto
    then show ?thesis using IH Cons.prems(1) False t(1) by simp
  qed
qed (simp split: option.split)

text \<open>A job with an interval runs at most once per interval over any ticks of one clock, failures of it and
  of other jobs included, also after a restart with the cursors it left.\<close>

theorem interval_respected:
  assumes "list_all (zone_safe z) jobs" "distinct (map jb_name jobs)"
    and "i < length jobs" "jobs ! i = interval_job tz name interval fn"
    and "list_all (\<lambda>d. dt_zone d = z) nows" "\<forall>n l. map_of (jw_runs w) n = Some l \<longrightarrow> dt_zone l = z"
  shows "successively (\<lambda>a b. interval \<le> dt_wall b - dt_wall a)
      ((case map_of (jw_runs w) name of Some l \<Rightarrow> [l] | None \<Rightarrow> []) @ run_times exc_text jobs i nows w)"
  using assms by (rule run_times_spaced)

theorem interval_respected_witness:
  "successively (\<lambda>a b. 60000000 \<le> dt_wall b - dt_wall a)
     (run_times (\<lambda>_. []) (example_jobs tz) 1 [noon 0, noon 0, noon 2] \<lparr>jw_runs = [], jw_world = []\<rparr>)"
  using interval_respected [of "Fixed 0" "example_jobs tz" 1 tz "''alerts''" 60000000 "\<lambda>now k. (Inr ''done'', k @ [''sent''])"
      "[noon 0, noon 0, noon 2]" "\<lparr>jw_runs = [], jw_world = []\<rparr>" "\<lambda>_. []"]
  by (simp add: example_jobs_def noon_zone interval_zone_safe del: run_times.simps)


section \<open>Where the lease does not help\<close>

text \<open>A worker whose jobs outlast its lease still runs them while the next worker is granted the lease and
  runs them too. The first worker's run has sent the briefing and not yet saved the cursor, so the
  second sends it again; the first then fails to renew, which nobody looks at.\<close>

theorem overrun_sends_twice:
  assumes clk: "clock_ok z now ttl" "clock_ok z now' ttl" and "a \<noteq> b" "dt_wall now + ttl \<le> dt_wall now'"
    and subs: "sso_list (sql_sub_store tz) t = [s]" and act: "sub_active s"
    and due: "schedule_is_due tz (sub_schedule s) now (sub_last_sent s) = Inr True"
      "schedule_is_due tz (sub_schedule s) now' (sub_last_sent s) = Inr True"
    and env: "envelope_for s = Inr (Some e)"
  shows "\<exists>l1 l2. lo_acquire sql_lease_ops n a now ttl [] = (Inr True, l1) \<and>
    lo_acquire sql_lease_ops n b now' ttl l1 = (Inr True, l2) \<and>
    lo_renew sql_lease_ops n a now ttl l2 = (Inr False, l2) \<and>
    (case run_due tz now envelope_for recording_deliverer stamp (sso_list (sql_sub_store tz) t) [] of
       (r, running, sent) \<Rightarrow>
         rt_sink (snd (tick tz (sql_sub_store tz) envelope_for recording_deliverer now' stamp' \<lparr>rt_store = t, rt_sink = sent\<rparr>)) =
         [e, e])"
proof -
  obtain l1 where l1: "lo_acquire sql_lease_ops n a now ttl [] = (Inr True, l1)"
    "sql_leases_rel l1 (\<lambda>k. if k = n then Some (a, dt_wall now + ttl) else None)"
    using sql_ls.acquire [OF sql_leases_start clk(1), of n a] by (auto simp: grants_def fun_upd_def)
  obtain l2 where l2: "lo_acquire sql_lease_ops n b now' ttl l1 = (Inr True, l2)"
    "sql_leases_rel l2 (\<lambda>k. if k = n then Some (b, dt_wall now' + ttl) else None)"
    using sql_ls.acquire [OF l1(2) clk(2), of n b] assms(4) by (auto simp: grants_def fun_upd_def if_distrib cong: if_cong)
  have "\<not> holder_is n a l2" using holder_is_held [OF l2(2), of n a] \<open>a \<noteq> b\<close> by (simp add: held_by_def)
  moreover have "map (\<lambda>(k, h, y). (k, h, if k = n \<and> h = a then x else y)) l2 = l2" for x
  proof -
    have "\<not> (k = n \<and> h = a)" if "(k, h, y) \<in> set l2" for k h y
      using that calculation holder_is_map [of l2 n a] l2(2) by (auto simp: sql_leases_rel_def)
    then show ?thesis by (intro map_idI) force
  qed
  ultimately have ren: "lo_renew sql_lease_ops n a now ttl l2 = (Inr False, l2)"
    by (simp add: sql_lease_ops_def sql_renew_def dt_plus_clock [OF clk(1)])
  obtain fire fire' where fire: "most_recent_fire tz (sub_schedule s) now = Inr fire"
    "most_recent_fire tz (sub_schedule s) now' = Inr fire'"
    using due_has_fire [OF due(1)] due_has_fire [OF due(2)] by blast
  have "rt_sink (snd (tick tz (sql_sub_store tz) envelope_for recording_deliverer now' stamp' \<lparr>rt_store = t, rt_sink = [e]\<rparr>)) = [e, e]"
    by (simp add: tick_def subs run_one_due [OF act due(2) fire(2)] env recording_deliverer_def seqm_def Let_def)
  moreover have "snd (snd (run_due tz now envelope_for recording_deliverer stamp [s] [])) = [e]"
    by (simp add: run_one_due [OF act due(1) fire(1)] env recording_deliverer_def seqm_def)
  ultimately show ?thesis
    using l1(1) l2(1) ren by (simp add: subs case_prod_beta)
qed

lemma noon_due:
  "most_recent_fire utc_tz default_schedule (noon 0) = Inr \<lparr>dt_wall = 737997 * DAY + 8 * 3600000000, dt_fold = False,
     dt_zone = Named ''America/Denver''\<rparr>"
  "most_recent_fire utc_tz default_schedule (noon 5) = Inr \<lparr>dt_wall = 737997 * DAY + 8 * 3600000000, dt_fold = False,
     dt_zone = Named ''America/Denver''\<rparr>"
  by code_simp+

definition one_sub :: sub_table where
  "one_sub = [((''acme'', ''owner''), row_of_sub utc_tz (example_sub ''acme''))]"

theorem overrun_sends_twice_witness:
  "case run_due utc_tz (noon 0) (\<lambda>_. Inr (Some example_mail)) recording_deliverer ''t''
       (sso_list (sql_sub_store utc_tz) one_sub) [] of
     (r, running, sent) \<Rightarrow> rt_sink (snd (tick utc_tz (sql_sub_store utc_tz) (\<lambda>_. Inr (Some example_mail)) recording_deliverer
       (noon 5) ''u'' \<lparr>rt_store = one_sub, rt_sink = sent\<rparr>)) = [example_mail, example_mail]"
proof -
  have subs: "sso_list (sql_sub_store utc_tz) one_sub = [example_sub ''acme'']"
    by (simp add: sql_sub_store_def one_sub_def sub_of_row_def row_of_sub_def example_sub_def)
  have due: "schedule_is_due utc_tz (sub_schedule (example_sub ''acme'')) (noon m) (sub_last_sent (example_sub ''acme'')) = Inr True"
    if "m \<in> {0, 5}" for m
    using that by (auto simp: schedule_is_due_def example_sub_def noon_due)
  have "clock_ok (Fixed 0) (noon m) 300000000" if "m \<in> {0, 5}" for m
    using noon_clock [of m 5] that by auto
  then show ?thesis
    using overrun_sends_twice [where z = "Fixed 0" and now = "noon 0" and ttl = 300000000 and now' = "noon 5" and a = "''A''" and b = "''B''"
        and n = "''d''" and tz = utc_tz and t = one_sub and s = "example_sub ''acme''" and e = example_mail and stamp = "''t''"
        and stamp' = "''u''" and envelope_for = "\<lambda>_. Inr (Some example_mail)", OF _ _ _ _ subs _ due due]
    by (auto simp: noon_wall example_sub_def case_prod_beta simp del: run_due.simps)
qed

text \<open>The timestamps of the lease table are meant to be naive, but the briefing job raises on a naive
  clock as soon as a subscription is active.\<close>

lemma naive_clock_never_delivers:
  assumes "dt_zone now = Naive" "sso_list ops (rt_store w) = s # subs" "sub_active s"
  shows "fst (tick tz ops envelope_for send now stamp w) = Inl ValueError"
  using assms by (simp add: tick_def run_one_def schedule_is_due_def most_recent_fire_def in_zone_def bind_def lift_res_def)

end
