(* ===== verification/Access.thy ===== *)
theory Access
  imports Prelude
begin

text \<open>
  Users, roles and permissions: \<open>packages/web/src/rgnr8_web/rbac.py\<close>, and the gate of the web
  application that consults them (\<open>_resolve_view_as\<close> and \<open>_require\<close> of \<open>app.py\<close>).

  The directory of users is an interface: the locale \<open>user_directory\<close> states what each operation
  changes, and the in-memory directory is an interpretation. The policy is defined over any
  directory, and its lemmas are proved in the locale. The SQL directory is in
  \<open>Directory_Sql\<close>; \<open>str.lower\<close> is modelled on ASCII letters.
\<close>

section \<open>Permissions and roles\<close>

datatype permission =
    VIEW_CASH | VIEW_BRIEFING | ASK_CFO | VIEW_PACKAGE | VIEW_TRANSACTIONS | CATEGORIZE_TXNS
  | EDIT_ASSUMPTIONS | RECORD_DECISION | POST_JOURNAL | MANAGE_CLOSE | PUBLISH_CLOSE
  | OVERRIDE_CLOSE_GATE | MANAGE_CONNECTORS | MANAGE_SUBSCRIPTIONS | MANAGE_USERS | MANAGE_SETTINGS
  | MANAGE_INTEGRATIONS | MANAGE_DATA_RETENTION | ERASE_DATA | VIEW_FLEET | ONBOARD_TENANT

fun permission_value :: "permission \<Rightarrow> string" where
  "permission_value VIEW_CASH = ''view_cash''"
| "permission_value VIEW_BRIEFING = ''view_briefing''"
| "permission_value ASK_CFO = ''ask_cfo''"
| "permission_value VIEW_PACKAGE = ''view_package''"
| "permission_value VIEW_TRANSACTIONS = ''view_transactions''"
| "permission_value CATEGORIZE_TXNS = ''categorize_transactions''"
| "permission_value EDIT_ASSUMPTIONS = ''edit_assumptions''"
| "permission_value RECORD_DECISION = ''record_decision''"
| "permission_value POST_JOURNAL = ''post_journal''"
| "permission_value MANAGE_CLOSE = ''manage_close''"
| "permission_value PUBLISH_CLOSE = ''publish_close''"
| "permission_value OVERRIDE_CLOSE_GATE = ''override_close_gate''"
| "permission_value MANAGE_CONNECTORS = ''manage_connectors''"
| "permission_value MANAGE_SUBSCRIPTIONS = ''manage_subscriptions''"
| "permission_value MANAGE_USERS = ''manage_users''"
| "permission_value MANAGE_SETTINGS = ''manage_settings''"
| "permission_value MANAGE_INTEGRATIONS = ''manage_integrations''"
| "permission_value MANAGE_DATA_RETENTION = ''manage_data_retention''"
| "permission_value ERASE_DATA = ''erase_data''"
| "permission_value VIEW_FLEET = ''view_fleet''"
| "permission_value ONBOARD_TENANT = ''onboard_tenant''"

datatype role = OWNER | CONTROLLER | BOOKKEEPER | ACCOUNTANT | VIEWER | OPERATOR | SUPPORT

fun role_value :: "role \<Rightarrow> string" where
  "role_value OWNER = ''owner''"
| "role_value CONTROLLER = ''controller''"
| "role_value BOOKKEEPER = ''bookkeeper''"
| "role_value ACCOUNTANT = ''accountant''"
| "role_value VIEWER = ''viewer''"
| "role_value OPERATOR = ''operator''"
| "role_value SUPPORT = ''support''"

text \<open>\<open>Role(raw)\<close>.\<close>

definition role_of :: "string \<Rightarrow> role option" where
  "role_of raw =
     find (\<lambda>r. role_value r = raw) [OWNER, CONTROLLER, BOOKKEEPER, ACCOUNTANT, VIEWER, OPERATOR, SUPPORT]"

lemma role_of_value [simp]: "role_of (role_value r) = Some r"
  by (cases r) (simp_all add: role_of_def)

definition is_platform :: "role \<Rightarrow> bool" where
  "is_platform r = (r = OPERATOR \<or> r = SUPPORT)"

definition view_permissions :: "permission set" where
  "view_permissions = {VIEW_CASH, VIEW_BRIEFING, ASK_CFO, VIEW_PACKAGE, VIEW_TRANSACTIONS}"

fun role_permissions :: "role \<Rightarrow> permission set" where
  "role_permissions OWNER = view_permissions \<union>
     {EDIT_ASSUMPTIONS, RECORD_DECISION, CATEGORIZE_TXNS, POST_JOURNAL, MANAGE_CLOSE, PUBLISH_CLOSE,
      OVERRIDE_CLOSE_GATE, MANAGE_CONNECTORS, MANAGE_SUBSCRIPTIONS, MANAGE_USERS, MANAGE_SETTINGS,
      MANAGE_INTEGRATIONS, MANAGE_DATA_RETENTION, ERASE_DATA}"
| "role_permissions CONTROLLER = view_permissions \<union>
     {EDIT_ASSUMPTIONS, RECORD_DECISION, CATEGORIZE_TXNS, POST_JOURNAL, MANAGE_CLOSE, PUBLISH_CLOSE,
      OVERRIDE_CLOSE_GATE, MANAGE_SUBSCRIPTIONS, MANAGE_SETTINGS, MANAGE_INTEGRATIONS,
      MANAGE_DATA_RETENTION}"
| "role_permissions BOOKKEEPER = view_permissions \<union>
     {RECORD_DECISION, CATEGORIZE_TXNS, POST_JOURNAL, MANAGE_CLOSE, MANAGE_CONNECTORS}"
| "role_permissions ACCOUNTANT = view_permissions \<union>
     {RECORD_DECISION, CATEGORIZE_TXNS, POST_JOURNAL, MANAGE_CLOSE, PUBLISH_CLOSE}"
| "role_permissions VIEWER = view_permissions"
| "role_permissions OPERATOR = view_permissions \<union> {VIEW_FLEET, ONBOARD_TENANT, MANAGE_CONNECTORS}"
| "role_permissions SUPPORT = view_permissions \<union> {VIEW_FLEET}"

record user =
  usr_id :: string
  usr_email :: string
  usr_name :: string

record membership =
  mb_user_id :: string
  mb_tenant_id :: string
  mb_role :: role

section \<open>The directory\<close>

record 'd directory_ops =
  ud_get_user :: "string \<Rightarrow> 'd \<Rightarrow> user option"
  ud_find_by_email :: "string \<Rightarrow> 'd \<Rightarrow> user option"
  ud_upsert_user :: "user \<Rightarrow> 'd \<Rightarrow> 'd"
  ud_set_membership :: "string \<Rightarrow> string \<Rightarrow> role \<Rightarrow> 'd \<Rightarrow> 'd"
  ud_remove_membership :: "string \<Rightarrow> string \<Rightarrow> 'd \<Rightarrow> 'd"
  ud_membership :: "string \<Rightarrow> string \<Rightarrow> 'd \<Rightarrow> membership option"
  ud_members :: "string \<Rightarrow> 'd \<Rightarrow> membership list"
  ud_set_platform_role :: "string \<Rightarrow> role option \<Rightarrow> 'd \<Rightarrow> 'd"
  ud_platform_role :: "string \<Rightarrow> 'd \<Rightarrow> role option"

record mem_directory =
  md_users :: "(string \<times> user) list"
  md_by_email :: "(string \<times> string) list"
  md_memberships :: "((string \<times> string) \<times> membership) list"
  md_platform :: "(string \<times> role) list"

definition mem_directory_empty :: mem_directory where
  "mem_directory_empty = \<lparr>md_users = [], md_by_email = [], md_memberships = [], md_platform = []\<rparr>"

definition lower_char :: "char \<Rightarrow> char" where
  "lower_char c = (let n = of_char c :: nat in if 65 \<le> n \<and> n \<le> 90 then char_of (n + 32) else c)"

definition lower :: "string \<Rightarrow> string" where
  "lower s = map lower_char s"

definition md_get_user :: "string \<Rightarrow> mem_directory \<Rightarrow> user option" where
  "md_get_user i d = map_of (md_users d) i"

definition md_find_by_email :: "string \<Rightarrow> mem_directory \<Rightarrow> user option" where
  "md_find_by_email email d =
     (case map_of (md_by_email d) (lower email) of
        Some uid \<Rightarrow> map_of (md_users d) uid | None \<Rightarrow> None)"

definition md_upsert_user :: "user \<Rightarrow> mem_directory \<Rightarrow> mem_directory" where
  "md_upsert_user u d =
     d\<lparr>md_users := AList.update (usr_id u) u (md_users d),
       md_by_email := AList.update (lower (usr_email u)) (usr_id u) (md_by_email d)\<rparr>"

definition md_set_membership :: "string \<Rightarrow> string \<Rightarrow> role \<Rightarrow> mem_directory \<Rightarrow> mem_directory" where
  "md_set_membership i t r d =
     d\<lparr>md_memberships := AList.update (i, t) \<lparr>mb_user_id = i, mb_tenant_id = t, mb_role = r\<rparr> (md_memberships d)\<rparr>"

definition md_remove_membership :: "string \<Rightarrow> string \<Rightarrow> mem_directory \<Rightarrow> mem_directory" where
  "md_remove_membership i t d = d\<lparr>md_memberships := AList.delete (i, t) (md_memberships d)\<rparr>"

definition md_membership :: "string \<Rightarrow> string \<Rightarrow> mem_directory \<Rightarrow> membership option" where
  "md_membership i t d = map_of (md_memberships d) (i, t)"

definition md_members :: "string \<Rightarrow> mem_directory \<Rightarrow> membership list" where
  "md_members t d = sort_key mb_user_id (filter (\<lambda>m. mb_tenant_id m = t) (map snd (md_memberships d)))"

definition md_set_platform_role :: "string \<Rightarrow> role option \<Rightarrow> mem_directory \<Rightarrow> mem_directory" where
  "md_set_platform_role i r d =
     (case r of
        None \<Rightarrow> d\<lparr>md_platform := AList.delete i (md_platform d)\<rparr>
      | Some r \<Rightarrow> d\<lparr>md_platform := AList.update i r (md_platform d)\<rparr>)"

definition md_platform_role :: "string \<Rightarrow> mem_directory \<Rightarrow> role option" where
  "md_platform_role i d = map_of (md_platform d) i"

definition mem_directory_ops :: "mem_directory directory_ops" where
  "mem_directory_ops =
     \<lparr>ud_get_user = md_get_user, ud_find_by_email = md_find_by_email, ud_upsert_user = md_upsert_user,
      ud_set_membership = md_set_membership, ud_remove_membership = md_remove_membership,
      ud_membership = md_membership, ud_members = md_members,
      ud_set_platform_role = md_set_platform_role, ud_platform_role = md_platform_role\<rparr>"

section \<open>The policy\<close>

definition permissions :: "'d directory_ops \<Rightarrow> 'd \<Rightarrow> string \<Rightarrow> string \<Rightarrow> role option \<Rightarrow> permission set" where
  "permissions ops d user_id tenant_id view_as =
     (let own = (case ud_membership ops user_id tenant_id d of
                   Some m \<Rightarrow> role_permissions (mb_role m) | None \<Rightarrow> {}) \<union>
                (case ud_platform_role ops user_id d of
                   Some pr \<Rightarrow> role_permissions pr | None \<Rightarrow> {})
      in case view_as of
           Some r \<Rightarrow> if \<not> is_platform r \<and> ud_platform_role ops user_id d \<noteq> None then role_permissions r else own
         | None \<Rightarrow> own)"

definition can :: "'d directory_ops \<Rightarrow> 'd \<Rightarrow> string \<Rightarrow> string \<Rightarrow> permission \<Rightarrow> role option \<Rightarrow> bool" where
  "can ops d user_id tenant_id perm view_as \<longleftrightarrow> perm \<in> permissions ops d user_id tenant_id view_as"

definition role_in :: "'d directory_ops \<Rightarrow> 'd \<Rightarrow> string \<Rightarrow> string \<Rightarrow> role option \<Rightarrow> role option" where
  "role_in ops d user_id tenant_id view_as =
     (case view_as of
        Some r \<Rightarrow>
          if \<not> is_platform r \<and> ud_platform_role ops user_id d \<noteq> None then Some r
          else map_option mb_role (ud_membership ops user_id tenant_id d)
      | None \<Rightarrow> map_option mb_role (ud_membership ops user_id tenant_id d))"

section \<open>The gate of the application\<close>

text \<open>\<open>_resolve_view_as\<close>: \<open>raw\<close> is the claim of the verified token.\<close>

definition resolve_view_as :: "('d directory_ops \<times> 'd) option \<Rightarrow> string \<Rightarrow> string option \<Rightarrow> role option" where
  "resolve_view_as users subject raw =
     (case users of
        None \<Rightarrow> None
      | Some (ops, d) \<Rightarrow>
          if ud_platform_role ops subject d = None then None
          else
            (case raw of
               None \<Rightarrow> None
             | Some v \<Rightarrow>
                 (case role_of v of
                    None \<Rightarrow> None
                  | Some r \<Rightarrow> if is_platform r then None else Some r)))"

datatype gate = WrongTenant | UnknownTenant | NotConfigured | InsufficientRole permission
  | KeyScope permission | ParallelRun | Granted

text \<open>
  \<open>_require\<close>: \<open>policy\<close> is the directory behind the access policy, \<open>key_scopes\<close> the scopes of an
  API key, and \<open>refused\<close> whether this is a posting request of a tenant in its parallel run (the
  refusal response and the route's own function are not modelled).
\<close>

record 'd web_app =
  wa_policy :: "('d directory_ops \<times> 'd) option"
  wa_require_rbac :: bool
  wa_tenants :: "string list"

definition require_permission ::
  "'d web_app \<Rightarrow> string \<Rightarrow> string \<Rightarrow> string \<Rightarrow> permission \<Rightarrow> role option \<Rightarrow> string list option \<Rightarrow> bool \<Rightarrow> gate" where
  "require_permission app subject token_tenant wanted perm view_as key_scopes refused =
     (if token_tenant \<noteq> wanted then WrongTenant
      else if \<not> List.member (wa_tenants app) wanted then UnknownTenant
      else if wa_require_rbac app \<and> wa_policy app = None then NotConfigured
      else if (case wa_policy app of
                 Some (ops, d) \<Rightarrow> \<not> can ops d subject wanted perm view_as | None \<Rightarrow> False)
           then InsufficientRole perm
      else if (case key_scopes of
                 Some scopes \<Rightarrow> \<not> List.member scopes (permission_value perm) | None \<Rightarrow> False)
           then KeyScope perm
      else if refused then ParallelRun
      else Granted)"

section \<open>What a directory promises\<close>

datatype directory_call =
    UpsertUser user
  | SetMembership string string role
  | RemoveMembership string string
  | SetPlatformRole string "role option"

fun directory_step :: "'d directory_ops \<Rightarrow> directory_call \<Rightarrow> 'd \<Rightarrow> 'd" where
  "directory_step ops (UpsertUser u) d = ud_upsert_user ops u d"
| "directory_step ops (SetMembership i t r) d = ud_set_membership ops i t r d"
| "directory_step ops (RemoveMembership i t) d = ud_remove_membership ops i t d"
| "directory_step ops (SetPlatformRole i r) d = ud_set_platform_role ops i r d"

text \<open>The steps that may change what a user may do in a tenant.\<close>

fun touches :: "string \<Rightarrow> string \<Rightarrow> directory_call \<Rightarrow> bool" where
  "touches i t (UpsertUser u) = False"
| "touches i t (SetMembership j s r) = (i = j \<and> t = s)"
| "touches i t (RemoveMembership j s) = (i = j \<and> t = s)"
| "touches i t (SetPlatformRole j r) = (i = j)"

text \<open>Every directory keeps memberships and platform roles apart and per user; an in-memory one also finds
  the user last stored under an email, and holds platform roles of users it does not know.\<close>

locale member_directory =
  fixes ops :: "'d directory_ops" and ok :: "'d \<Rightarrow> bool"
  assumes step_ok: "ok d \<Longrightarrow> ok (directory_step ops c d)"
    and get_upsert: "ok d \<Longrightarrow> ud_get_user ops i (ud_upsert_user ops u d) =
      (if i = usr_id u then Some u else ud_get_user ops i d)"
    and get_set: "ok d \<Longrightarrow> ud_get_user ops i (ud_set_membership ops j t r d) = ud_get_user ops i d"
    and get_remove: "ok d \<Longrightarrow> ud_get_user ops i (ud_remove_membership ops j t d) = ud_get_user ops i d"
    and get_platform: "ok d \<Longrightarrow> ud_get_user ops i (ud_set_platform_role ops j pr d) = ud_get_user ops i d"
    and membership_upsert: "ok d \<Longrightarrow> ud_membership ops i t (ud_upsert_user ops u d) = ud_membership ops i t d"
    and membership_set: "ok d \<Longrightarrow> ud_membership ops i t (ud_set_membership ops j s r d) =
      (if i = j \<and> t = s then Some \<lparr>mb_user_id = j, mb_tenant_id = s, mb_role = r\<rparr> else ud_membership ops i t d)"
    and membership_remove: "ok d \<Longrightarrow> ud_membership ops i t (ud_remove_membership ops j s d) =
      (if i = j \<and> t = s then None else ud_membership ops i t d)"
    and membership_platform: "ok d \<Longrightarrow> ud_membership ops i t (ud_set_platform_role ops j pr d) = ud_membership ops i t d"
    and platform_upsert: "ok d \<Longrightarrow> ud_platform_role ops i (ud_upsert_user ops u d) = ud_platform_role ops i d"
    and platform_set: "ok d \<Longrightarrow> ud_platform_role ops i (ud_set_membership ops j s r d) = ud_platform_role ops i d"
    and platform_remove: "ok d \<Longrightarrow> ud_platform_role ops i (ud_remove_membership ops j s d) = ud_platform_role ops i d"
    and platform_platform: "ok d \<Longrightarrow> ud_get_user ops j d \<noteq> None \<or> i \<noteq> j \<Longrightarrow>
      ud_platform_role ops i (ud_set_platform_role ops j pr d) = (if i = j then pr else ud_platform_role ops i d)"
    and members: "ok d \<Longrightarrow> sorted (map mb_user_id (ud_members ops t d)) \<and>
      set (ud_members ops t d) = {m. ud_membership ops (mb_user_id m) t d = Some m}"
begin

lemma untouched_step:
  "ok d \<Longrightarrow> \<not> touches i t s \<Longrightarrow>
     ud_membership ops i t (directory_step ops s d) = ud_membership ops i t d \<and>
     ud_platform_role ops i (directory_step ops s d) = ud_platform_role ops i d"
  by (cases s) (auto simp: membership_upsert membership_set membership_remove membership_platform
      platform_upsert platform_set platform_remove platform_platform)

lemma untouched_run:
  "ok d \<Longrightarrow> list_all (\<lambda>s. \<not> touches i t s) ss \<Longrightarrow>
     permissions ops (fold (directory_step ops) ss d) i t v = permissions ops d i t v"
proof (induction ss arbitrary: d)
  case (Cons s ss)
  then have "permissions ops (directory_step ops s d) i t v = permissions ops d i t v"
    using untouched_step [of d i t s] by (simp add: permissions_def Let_def cong: option.case_cong)
  with Cons show ?case by (simp add: step_ok)
qed simp

lemma revoked:
  "ok d \<Longrightarrow> ud_platform_role ops i d = None \<Longrightarrow> permissions ops (ud_remove_membership ops i t d) i t v = {}"
  by (simp add: permissions_def Let_def membership_remove platform_remove split: option.splits)

lemma granted:
  "ok d \<Longrightarrow> ud_platform_role ops i d = None \<Longrightarrow>
     permissions ops (ud_set_membership ops i t r d) i t v = role_permissions r"
  by (simp add: permissions_def Let_def membership_set platform_set split: option.splits)

end

locale user_directory = member_directory +
  assumes find_upsert: "ok d \<Longrightarrow> ud_find_by_email ops (usr_email u) (ud_upsert_user ops u d) = Some u"
    and platform_unknown: "ok d \<Longrightarrow> ud_platform_role ops i (ud_set_platform_role ops i pr d) = pr"

definition mem_directory_ok :: "mem_directory \<Rightarrow> bool" where
  "mem_directory_ok d \<longleftrightarrow> distinct (map fst (md_memberships d)) \<and>
     list_all (\<lambda>(k, m). k = (mb_user_id m, mb_tenant_id m)) (md_memberships d)"

lemma list_all_update:
  "list_all P xs \<Longrightarrow> P (k, v) \<Longrightarrow> list_all P (AList.update k v xs)"
  by (induction xs) auto

lemma list_all_delete: "list_all P xs \<Longrightarrow> list_all P (AList.delete k xs)"
  by (simp add: list_all_iff AList.delete_eq)

lemma mem_directory_step_ok: "mem_directory_ok d \<Longrightarrow> mem_directory_ok (directory_step mem_directory_ops s d)"
  by (cases s)
    (auto simp: mem_directory_ok_def mem_directory_ops_def md_upsert_user_def md_set_membership_def
      md_remove_membership_def md_set_platform_role_def distinct_update
      intro!: list_all_update list_all_delete AList.distinct_delete split: option.splits)

lemma md_members_exact:
  assumes "mem_directory_ok d"
  shows "set (md_members t d) = {m. md_membership (mb_user_id m) t d = Some m}"
proof -
  have "m \<in> snd ` set (md_memberships d) \<longleftrightarrow> map_of (md_memberships d) (mb_user_id m, mb_tenant_id m) = Some m" for m
  proof
    assume "m \<in> snd ` set (md_memberships d)"
    then obtain k where "(k, m) \<in> set (md_memberships d)" by auto
    with assms show "map_of (md_memberships d) (mb_user_id m, mb_tenant_id m) = Some m"
      by (auto simp: mem_directory_ok_def list_all_iff)
  next
    assume "map_of (md_memberships d) (mb_user_id m, mb_tenant_id m) = Some m"
    then show "m \<in> snd ` set (md_memberships d)" by (force dest: map_of_SomeD)
  qed
  moreover have "mb_tenant_id m = t" if "map_of (md_memberships d) (mb_user_id m, t) = Some m" for m
    using assms map_of_SomeD [OF that] by (auto simp: mem_directory_ok_def list_all_iff)
  ultimately show ?thesis by (auto simp: md_members_def md_membership_def)
qed

interpretation mem_dir: user_directory mem_directory_ops mem_directory_ok
proof unfold_locales
  fix d :: mem_directory and t c
  assume ok: "mem_directory_ok d"
  show "mem_directory_ok (directory_step mem_directory_ops c d)" using ok by (rule mem_directory_step_ok)
  show "sorted (map mb_user_id (ud_members mem_directory_ops t d)) \<and>
      set (ud_members mem_directory_ops t d) = {m. ud_membership mem_directory_ops (mb_user_id m) t d = Some m}"
    using md_members_exact [OF ok, of t]
    by (simp add: mem_directory_ops_def md_members_def)
qed (simp_all add: mem_directory_ops_def md_get_user_def md_find_by_email_def
    md_upsert_user_def md_membership_def md_set_membership_def md_remove_membership_def
    md_set_platform_role_def md_platform_role_def update_conv' delete_conv' split: option.splits)

section \<open>Properties\<close>

text \<open>C17. What a user may do in a business changes only by a membership of that user in that business or by
  that user's platform role: no sequence of other calls on the directory changes it, whoever they
  concern.\<close>

theorem access_isolated:
  assumes "mem_directory_ok d" "list_all (\<lambda>c. \<not> touches user_id tenant_id c) calls"
  shows "permissions mem_directory_ops (fold (directory_step mem_directory_ops) calls d) user_id tenant_id view_as =
    permissions mem_directory_ops d user_id tenant_id view_as"
  using assms by (rule mem_dir.untouched_run)

definition example_directory :: mem_directory where
  "example_directory =
     fold (directory_step mem_directory_ops)
       [UpsertUser \<lparr>usr_id = ''u1'', usr_email = ''Ann@acme.test'', usr_name = ''Ann''\<rparr>,
        SetMembership ''u1'' ''acme'' OWNER, SetPlatformRole ''s1'' (Some SUPPORT)] mem_directory_empty"

lemma example_directory_ok: "mem_directory_ok example_directory"
proof -
  have "mem_directory_ok d \<Longrightarrow> mem_directory_ok (fold (directory_step mem_directory_ops) cs d)" for cs d
    by (induction cs arbitrary: d) (simp_all add: mem_directory_step_ok)
  moreover have "mem_directory_ok mem_directory_empty" by (simp add: mem_directory_empty_def mem_directory_ok_def)
  ultimately show ?thesis unfolding example_directory_def by blast
qed

theorem access_isolated_witness:
  "permissions mem_directory_ops
     (fold (directory_step mem_directory_ops) [SetMembership ''u2'' ''acme'' VIEWER, RemoveMembership ''u1'' ''beta''] example_directory)
     ''u1'' ''acme'' None =
   permissions mem_directory_ops example_directory ''u1'' ''acme'' None"
  by (rule access_isolated) (simp_all add: example_directory_ok)

text \<open>Without viewing as another role, only an owner may erase a business's data or manage its users,
  and a member of the platform staff who is no member of the business may post nothing and change
  no assumption, setting or close.\<close>

theorem access_owner_powers:
  assumes "mem_directory_ok d" "platform_role \<in> {None, Some OPERATOR, Some SUPPORT}"
    and "ud_platform_role mem_directory_ops user_id d = platform_role"
  shows "(can mem_directory_ops d user_id tenant_id ERASE_DATA None \<longleftrightarrow>
      role_in mem_directory_ops d user_id tenant_id None = Some OWNER) \<and>
    (can mem_directory_ops d user_id tenant_id MANAGE_USERS None \<longleftrightarrow>
      role_in mem_directory_ops d user_id tenant_id None = Some OWNER) \<and>
    (role_in mem_directory_ops d user_id tenant_id None = None \<longrightarrow>
      permissions mem_directory_ops d user_id tenant_id None \<inter>
        {EDIT_ASSUMPTIONS, POST_JOURNAL, MANAGE_CLOSE, PUBLISH_CLOSE, OVERRIDE_CLOSE_GATE, MANAGE_SETTINGS,
         MANAGE_INTEGRATIONS, MANAGE_DATA_RETENTION, ERASE_DATA} = {})"
proof -
  have erase: "ERASE_DATA \<in> role_permissions r \<longleftrightarrow> r = OWNER" "MANAGE_USERS \<in> role_permissions r \<longleftrightarrow> r = OWNER" for r
    by (cases r; simp add: view_permissions_def)+
  show ?thesis
    using assms(2,3)
    by (cases "ud_membership mem_directory_ops user_id tenant_id d")
      (auto simp: can_def permissions_def role_in_def erase Let_def view_permissions_def)
qed

theorem access_owner_powers_witness:
  "can mem_directory_ops example_directory ''u1'' ''acme'' ERASE_DATA None"
proof -
  have p: "ud_platform_role mem_directory_ops ''u1'' example_directory = None"
    "role_in mem_directory_ops example_directory ''u1'' ''acme'' None = Some OWNER"
    by (simp_all add: example_directory_def mem_directory_empty_def mem_directory_ops_def md_upsert_user_def
        md_set_membership_def md_set_platform_role_def md_platform_role_def md_membership_def role_in_def)
  show ?thesis using access_owner_powers [OF example_directory_ok _ p(1), of "''acme''"] p(2) by simp
qed

text \<open>C6. A request that passes the gate acts in the tenant of its token, a tenant the application serves.
  Where the directory is configured its subject has the permission there, and a scoped key lists it.
  The claim to view as a role gives a user without a platform role nothing.\<close>

theorem gate_is_tenant_bound:
  assumes "require_permission app subject token_tenant wanted perm
      (resolve_view_as (wa_policy app) subject claim) scopes refused = Granted"
  shows "token_tenant = wanted \<and> wanted \<in> set (wa_tenants app) \<and> (wa_require_rbac app \<longrightarrow> wa_policy app \<noteq> None) \<and>
    (\<forall>ops d. wa_policy app = Some (ops, d) \<longrightarrow>
       can ops d subject wanted perm (resolve_view_as (wa_policy app) subject claim) \<and>
       (ud_platform_role ops subject d = None \<longrightarrow>
          (\<exists>m. ud_membership ops subject wanted d = Some m \<and> perm \<in> role_permissions (mb_role m)))) \<and>
    (\<forall>ss. scopes = Some ss \<longrightarrow> permission_value perm \<in> set ss)"
proof -
  have own: "\<exists>m. ud_membership ops i t d = Some m \<and> p \<in> role_permissions (mb_role m)"
    if "ud_platform_role ops i d = None" "can ops d i t p v" for ops d i t v p
    using that by (auto simp: can_def permissions_def Let_def split: option.splits if_splits)
  show ?thesis
    using assms
    by (auto simp: require_permission_def split: if_splits option.splits dest: own)
qed

definition example_app :: "mem_directory web_app" where
  "example_app = \<lparr>wa_policy = Some (mem_directory_ops, example_directory), wa_require_rbac = True,
     wa_tenants = [''acme'']\<rparr>"

lemma example_lookups:
  "ud_platform_role mem_directory_ops ''u1'' example_directory = None"
  "ud_platform_role mem_directory_ops ''s1'' example_directory = Some SUPPORT"
  "ud_membership mem_directory_ops ''u1'' ''acme'' example_directory =
     Some \<lparr>mb_user_id = ''u1'', mb_tenant_id = ''acme'', mb_role = OWNER\<rparr>"
  "ud_membership mem_directory_ops ''s1'' ''acme'' example_directory = None"
  by (simp_all add: example_directory_def mem_directory_empty_def mem_directory_ops_def md_upsert_user_def
      md_set_membership_def md_set_platform_role_def md_platform_role_def md_membership_def)

theorem gate_is_tenant_bound_witness:
  "require_permission example_app ''u1'' ''acme'' ''acme'' POST_JOURNAL
      (resolve_view_as (wa_policy example_app) ''u1'' (Some ''owner'')) None False = Granted \<and>
    can mem_directory_ops example_directory ''u1'' ''acme'' POST_JOURNAL
      (resolve_view_as (wa_policy example_app) ''u1'' (Some ''owner''))"
proof -
  have g: "require_permission example_app ''u1'' ''acme'' ''acme'' POST_JOURNAL
      (resolve_view_as (wa_policy example_app) ''u1'' (Some ''owner'')) None False = Granted"
    by (simp add: require_permission_def example_app_def resolve_view_as_def example_lookups can_def
        permissions_def Let_def)
  have "wa_policy example_app = Some (mem_directory_ops, example_directory)" by (simp add: example_app_def)
  with gate_is_tenant_bound [OF g] g show ?thesis by blast
qed

text \<open>Viewing as a role grants that role's powers, not only its sight: a member of the support staff
  whose token claims to view as the owner passes the gate of the erasure route of a business, which
  the same subject fails without the claim.\<close>

theorem view_as_owner_may_erase:
  assumes "wa_policy app = Some (ops, d)" "ud_platform_role ops staff d = Some SUPPORT"
    and "ud_membership ops staff tenant d = None" "tenant \<in> set (wa_tenants app)"
  shows "require_permission app staff tenant tenant ERASE_DATA
      (resolve_view_as (wa_policy app) staff None) None False = InsufficientRole ERASE_DATA \<and>
    require_permission app staff tenant tenant ERASE_DATA
      (resolve_view_as (wa_policy app) staff (Some ''owner'')) None False = Granted"
  using assms
  by (simp add: require_permission_def resolve_view_as_def role_of_def is_platform_def can_def permissions_def
      view_permissions_def Let_def)

theorem view_as_owner_may_erase_witness:
  "require_permission example_app ''s1'' ''acme'' ''acme'' ERASE_DATA
     (resolve_view_as (wa_policy example_app) ''s1'' (Some ''owner'')) None False = Granted"
  using view_as_owner_may_erase [of example_app mem_directory_ops example_directory "''s1''" "''acme''"]
  by (simp add: example_app_def example_lookups)

text \<open>The in-memory directory keeps a user's old e-mail address: after the address changed, the old one
  still finds the user, whose address is another.\<close>

theorem stale_email_finds_user:
  assumes "lower old \<noteq> lower new"
  shows "\<exists>u. ud_find_by_email mem_directory_ops old
      (fold (directory_step mem_directory_ops)
        [UpsertUser \<lparr>usr_id = i, usr_email = old, usr_name = n\<rparr>, UpsertUser \<lparr>usr_id = i, usr_email = new, usr_name = n\<rparr>] d) =
      Some u \<and> usr_email u \<noteq> old \<and> usr_id u = i"
  using assms
  by (auto simp: mem_directory_ops_def md_upsert_user_def md_find_by_email_def update_conv')

theorem stale_email_finds_user_witness:
  "\<exists>u. ud_find_by_email mem_directory_ops ''a@x''
      (fold (directory_step mem_directory_ops)
        [UpsertUser \<lparr>usr_id = ''u'', usr_email = ''a@x'', usr_name = []\<rparr>,
         UpsertUser \<lparr>usr_id = ''u'', usr_email = ''b@x'', usr_name = []\<rparr>] mem_directory_empty) =
      Some u \<and> usr_email u \<noteq> ''a@x'' \<and> usr_id u = ''u''"
  by (rule stale_email_finds_user) (simp add: lower_def lower_char_def)

end
