(* ===== verification/Routes.thy ===== *)
theory Routes
  imports Access
begin

text \<open>
  The routing table of the web application (\<open>WebApp.handle\<close> from the first tenant route on) and the
  table of the routes that post to the ledger (\<open>rgnr8_web/parallel_run.py\<close>). A route is the list of its
  path segments \<open>p\<close> and the method \<open>m\<close>; each rule is a guard and where it leads: the permission
  \<open>_require\<close> checks for the tenant in the path, the handler's name and the segments it is given.
  The first rule whose guard holds decides, as the chain of \<open>if ... return\<close> does. What the handlers do is
  modelled elsewhere or not at all; which of them change state is read off their bodies.
\<close>

section \<open>Rules\<close>

datatype endpoint =
    Gated permission string string "string list" \<comment> \<open>permission, tenant, handler, path arguments\<close>
  | Me string
  | NotFound

type_synonym route_rule = "bool \<times> endpoint"

definition page_at :: "nat \<Rightarrow> string \<Rightarrow> string list \<Rightarrow> bool" where
  "page_at n area p \<longleftrightarrow> length p = n \<and> p ! 0 = ''t'' \<and> p ! 2 = area"

definition page_any :: "nat \<Rightarrow> string list \<Rightarrow> bool" where
  "page_any n p \<longleftrightarrow> length p = n \<and> p ! 0 = ''t''"

definition page_from :: "nat \<Rightarrow> string \<Rightarrow> string list \<Rightarrow> bool" where
  "page_from n area p \<longleftrightarrow> n \<le> length p \<and> p ! 0 = ''t'' \<and> p ! 2 = area"

definition api_at :: "nat \<Rightarrow> string \<Rightarrow> string list \<Rightarrow> bool" where
  "api_at n area p \<longleftrightarrow> length p = n \<and> p ! 0 = ''api'' \<and> p ! 2 = area"

definition gated :: "permission \<Rightarrow> string list \<Rightarrow> string \<Rightarrow> string list \<Rightarrow> endpoint" where
  "gated perm p handler args = Gated perm (p ! 1) handler args"

primrec first_route :: "route_rule list \<Rightarrow> endpoint option" where
  "first_route [] = None"
| "first_route (r # rs) = (if fst r then Some (snd r) else first_route rs)"

lemma first_route_append: "first_route (xs @ ys) = (case first_route xs of Some e \<Rightarrow> Some e | None \<Rightarrow> first_route ys)"
  by (induction xs) auto

lemma first_routeD: "first_route rs = Some e \<Longrightarrow> (True, e) \<in> set rs"
  by (induction rs) (auto split: if_splits)

section \<open>The table\<close>

text \<open>Users, settings, erasure, retention and outbound webhooks.\<close>

definition admin_routes :: "string list \<Rightarrow> string \<Rightarrow> route_rule list" where
  "admin_routes p m = [
     (page_at 3 ''team'' p, gated MANAGE_USERS p ''_team_page'' []),
     (page_at 4 ''settings'' p \<and> p ! 3 = ''modules'' \<and> m = ''POST'', gated MANAGE_SETTINGS p ''_modules_save'' []),
     (page_at 3 ''settings'' p \<and> m = ''POST'', gated MANAGE_SETTINGS p ''_settings_save'' []),
     (page_at 3 ''settings'' p, gated MANAGE_SETTINGS p ''_settings_page'' []),
     (page_at 3 ''erase'' p \<and> m = ''POST'', gated ERASE_DATA p ''_erase_ui'' []),
     (page_at 3 ''retention'' p \<and> m = ''POST'', gated MANAGE_DATA_RETENTION p ''_retention_ui'' []),
     (page_at 3 ''integrations'' p \<and> m = ''POST'', gated MANAGE_INTEGRATIONS p ''_integration_add'' []),
     (page_at 3 ''integrations'' p, gated MANAGE_INTEGRATIONS p ''_integrations_page'' []),
     (page_at 5 ''integrations'' p \<and> p ! 4 = ''delete'' \<and> m = ''POST'',
        gated MANAGE_INTEGRATIONS p ''_integration_delete'' [p ! 3]),
     (page_at 6 ''integrations'' p \<and> p ! 3 = ''deliveries'' \<and> p ! 5 = ''replay'' \<and> m = ''POST'',
        gated MANAGE_INTEGRATIONS p ''_integration_replay'' [p ! 4])]"

text \<open>Debt, fixed assets, receipt capture, expenses, health and the conversation.\<close>

definition money_routes :: "bool \<Rightarrow> string list \<Rightarrow> string \<Rightarrow> route_rule list" where
  "money_routes ask_on p m = [
     (page_at 3 ''debt'' p, gated VIEW_TRANSACTIONS p ''_debt_page'' []),
     (page_at 4 ''debt'' p \<and> p ! 3 = ''loans'' \<and> m = ''POST'', gated POST_JOURNAL p ''_debt_add_loan'' []),
     (page_at 4 ''debt'' p \<and> p ! 3 = ''payments'' \<and> m = ''POST'', gated POST_JOURNAL p ''_debt_payment'' []),
     (page_at 4 ''debt'' p \<and> p ! 3 = ''draws'' \<and> m = ''POST'', gated POST_JOURNAL p ''_debt_draw'' []),
     (page_at 4 ''debt'' p, gated VIEW_TRANSACTIONS p ''_loan_detail_page'' [p ! 3]),
     (page_at 3 ''assets'' p \<and> m = ''POST'', gated POST_JOURNAL p ''_asset_add'' []),
     (page_at 3 ''assets'' p, gated VIEW_TRANSACTIONS p ''_assets_page'' []),
     (page_at 5 ''assets'' p \<and> (p ! 4 = ''depreciate'' \<or> p ! 4 = ''usage'' \<or> p ! 4 = ''dispose'') \<and> m = ''POST'',
        gated POST_JOURNAL p ''_asset_action'' [p ! 3, p ! 4]),
     (page_at 4 ''assets'' p, gated VIEW_TRANSACTIONS p ''_asset_detail_page'' [p ! 3]),
     (page_at 3 ''capture'' p \<and> m = ''POST'', gated POST_JOURNAL p ''_capture_scan'' []),
     (page_at 3 ''capture'' p, gated POST_JOURNAL p ''_capture_page'' []),
     (page_at 4 ''capture'' p \<and> p ! 3 = ''bill'' \<and> m = ''POST'', gated POST_JOURNAL p ''_capture_bill'' []),
     (page_at 3 ''expenses'' p \<and> m = ''POST'', gated POST_JOURNAL p ''_expense_post'' []),
     (page_at 3 ''expenses'' p, gated VIEW_TRANSACTIONS p ''_expenses_page'' []),
     (page_at 3 ''health'' p, gated VIEW_CASH p ''_health_page'' []),
     (page_from 3 ''ask'' p \<and> \<not> ask_on, NotFound),
     (page_at 4 ''ask'' p \<and> p ! 3 = ''clear'' \<and> m = ''POST'', gated ASK_CFO p ''_ask_clear'' []),
     (page_at 3 ''ask'' p \<and> m = ''POST'', gated ASK_CFO p ''_ask_answer'' []),
     (page_at 3 ''ask'' p, gated ASK_CFO p ''_ask_page'' [])]"

text \<open>The pages of the shell, the connections and the cut-over.\<close>

definition shell_routes :: "string list \<Rightarrow> string \<Rightarrow> route_rule list" where
  "shell_routes p m = [
     (page_at 3 ''transactions'' p, gated VIEW_TRANSACTIONS p ''_transactions_page'' []),
     (page_at 3 ''briefing'' p, gated VIEW_BRIEFING p ''_briefing_page'' []),
     (page_at 3 ''close'' p, gated MANAGE_CLOSE p ''_close_page'' []),
     (page_at 3 ''scenarios'' p, gated VIEW_CASH p ''_scenarios_page'' []),
     (page_at 3 ''receivables'' p, gated VIEW_CASH p ''_receivables_page'' []),
     (page_at 3 ''reports'' p, gated VIEW_CASH p ''_reports_page'' []),
     (page_at 3 ''costs'' p \<and> m = ''POST'', gated EDIT_ASSUMPTIONS p ''_costs_post'' []),
     (page_at 3 ''costs'' p, gated EDIT_ASSUMPTIONS p ''_costs_page'' []),
     (page_at 3 ''connect'' p, gated MANAGE_CONNECTORS p ''_connect_page'' []),
     (page_at 4 ''connect'' p \<and> p ! 3 = ''cutover'' \<and> m = ''POST'', gated MANAGE_SETTINGS p ''_cutover_execute'' []),
     (page_at 4 ''connect'' p \<and> p ! 3 = ''cutover'', gated MANAGE_SETTINGS p ''_cutover_page'' []),
     (page_at 5 ''connect'' p \<and> p ! 3 = ''cutover'' \<and> p ! 4 = ''backout'' \<and> m = ''POST'',
        gated MANAGE_SETTINGS p ''_cutover_backout'' []),
     (page_at 4 ''connect'' p \<and> p ! 3 = ''qbo'', gated MANAGE_CONNECTORS p ''_qbo_begin'' []),
     (page_at 5 ''connect'' p \<and> p ! 3 = ''qbo'' \<and> p ! 4 = ''disconnect'' \<and> m = ''POST'',
        gated MANAGE_CONNECTORS p ''_qbo_disconnect'' []),
     (page_at 5 ''connect'' p \<and> p ! 3 = ''qbo'' \<and> p ! 4 = ''sync'' \<and> m = ''POST'',
        gated MANAGE_CONNECTORS p ''_qbo_sync'' []),
     (page_at 5 ''connect'' p \<and> p ! 3 = ''qbo'' \<and> p ! 4 = ''migrate'' \<and> m = ''POST'',
        gated MANAGE_CONNECTORS p ''_qbo_migrate'' []),
     (page_at 3 ''packages'' p, gated VIEW_PACKAGE p ''_packages_page'' []),
     (page_at 3 ''audit'' p, gated MANAGE_USERS p ''_audit_page'' [])]"

text \<open>Inventory, work in progress, consolidation, orders, estimates and the pipeline.\<close>

definition operations_routes :: "string list \<Rightarrow> string \<Rightarrow> route_rule list" where
  "operations_routes p m = [
     (page_at 3 ''inventory'' p, gated VIEW_TRANSACTIONS p ''_inventory_page'' []),
     (page_at 4 ''inventory'' p \<and> (p ! 3 = ''items'' \<or> p ! 3 = ''receipts'' \<or> p ! 3 = ''issues'' \<or> p ! 3 = ''counts'') \<and> m = ''POST'',
        gated POST_JOURNAL p ''_inventory_action'' [p ! 3]),
     (page_at 4 ''books'' p \<and> p ! 3 = ''wip'' \<and> m = ''POST'', gated POST_JOURNAL p ''_wip_post'' []),
     (page_at 4 ''books'' p \<and> p ! 3 = ''wip'', gated VIEW_TRANSACTIONS p ''_wip_page'' []),
     (page_at 3 ''consolidation'' p \<and> m = ''POST'', gated MANAGE_CLOSE p ''_group_save'' []),
     (page_at 3 ''consolidation'' p, gated VIEW_PACKAGE p ''_groups_page'' []),
     (page_at 4 ''consolidation'' p \<and> m = ''GET'', gated VIEW_PACKAGE p ''_consolidation_page'' [p ! 3]),
     (page_at 5 ''consolidation'' p \<and> p ! 4 = ''eliminations'' \<and> m = ''POST'',
        gated MANAGE_CLOSE p ''_elimination_save'' [p ! 3]),
     (page_at 3 ''work-orders'' p \<and> m = ''POST'', gated POST_JOURNAL p ''_work_order_save'' []),
     (page_at 3 ''work-orders'' p, gated VIEW_TRANSACTIONS p ''_work_orders_page'' []),
     (page_at 4 ''work-orders'' p \<and> m = ''GET'', gated VIEW_TRANSACTIONS p ''_work_order_page'' [p ! 3]),
     (page_at 5 ''work-orders'' p \<and> (p ! 4 = ''entries'' \<or> p ! 4 = ''complete'') \<and> m = ''POST'',
        gated POST_JOURNAL p ''_work_order_action'' [p ! 3, p ! 4]),
     (page_at 3 ''sales-orders'' p \<and> m = ''POST'', gated POST_JOURNAL p ''_sales_order_save'' []),
     (page_at 3 ''sales-orders'' p, gated VIEW_TRANSACTIONS p ''_sales_orders_page'' []),
     (page_at 4 ''sales-orders'' p \<and> m = ''GET'', gated VIEW_TRANSACTIONS p ''_sales_order_page'' [p ! 3]),
     (page_at 5 ''sales-orders'' p \<and> p ! 4 = ''invoice'' \<and> m = ''POST'',
        gated POST_JOURNAL p ''_sales_order_invoice'' [p ! 3]),
     (page_at 3 ''purchase-orders'' p \<and> m = ''POST'', gated POST_JOURNAL p ''_purchase_order_save'' []),
     (page_at 3 ''purchase-orders'' p, gated VIEW_TRANSACTIONS p ''_purchase_orders_page'' []),
     (page_at 4 ''purchase-orders'' p \<and> m = ''GET'', gated VIEW_TRANSACTIONS p ''_purchase_order_page'' [p ! 3]),
     (page_at 5 ''purchase-orders'' p \<and> (p ! 4 = ''receipts'' \<or> p ! 4 = ''bill'') \<and> m = ''POST'',
        gated POST_JOURNAL p ''_purchase_order_action'' [p ! 3, p ! 4]),
     (page_at 3 ''estimates'' p \<and> m = ''POST'', gated POST_JOURNAL p ''_estimate_save'' []),
     (page_at 3 ''estimates'' p, gated VIEW_TRANSACTIONS p ''_estimates_page'' []),
     (page_at 4 ''estimates'' p \<and> m = ''GET'', gated VIEW_TRANSACTIONS p ''_estimate_page'' [p ! 3]),
     (page_at 5 ''estimates'' p \<and> m = ''POST'', gated POST_JOURNAL p ''_estimate_action'' [p ! 3, p ! 4]),
     (page_at 3 ''pipeline'' p, gated VIEW_TRANSACTIONS p ''_pipeline_page'' []),
     (page_at 3 ''leads'' p \<and> m = ''POST'', gated POST_JOURNAL p ''_lead_save'' []),
     (page_at 5 ''leads'' p \<and> p ! 4 = ''convert'' \<and> m = ''POST'', gated POST_JOURNAL p ''_lead_convert'' [p ! 3]),
     (page_at 3 ''opportunities'' p \<and> m = ''POST'', gated POST_JOURNAL p ''_opportunity_save'' []),
     (page_at 5 ''opportunities'' p \<and> (p ! 4 = ''win'' \<or> p ! 4 = ''lose'' \<or> p ! 4 = ''reopen'') \<and> m = ''POST'',
        gated POST_JOURNAL p ''_opportunity_close'' [p ! 3, p ! 4])]"

text \<open>Jobs, invoices and bills, parties, aging and attachments.\<close>

definition document_routes :: "string list \<Rightarrow> string \<Rightarrow> route_rule list" where
  "document_routes p m = [
     (page_at 3 ''jobs'' p \<and> m = ''POST'', gated POST_JOURNAL p ''_job_save'' []),
     (page_at 3 ''jobs'' p, gated VIEW_TRANSACTIONS p ''_jobs_page'' []),
     (page_at 4 ''jobs'' p \<and> m = ''GET'', gated VIEW_TRANSACTIONS p ''_job_page'' [p ! 3]),
     (page_at 5 ''jobs'' p \<and> p ! 4 = ''budget'' \<and> m = ''POST'', gated POST_JOURNAL p ''_job_budget_save'' [p ! 3]),
     (page_at 6 ''jobs'' p \<and> p ! 4 = ''bill'' \<and> m = ''POST'', gated POST_JOURNAL p ''_job_bill'' [p ! 3, p ! 5]),
     (page_at 5 ''jobs'' p \<and> p ! 4 = ''deposits'' \<and> m = ''POST'', gated POST_JOURNAL p ''_job_deposit'' [p ! 3]),
     (page_at 6 ''jobs'' p \<and> p ! 4 = ''deposits'' \<and> p ! 5 = ''apply'' \<and> m = ''POST'',
        gated POST_JOURNAL p ''_job_deposit_apply'' [p ! 3]),
     (page_at 6 ''jobs'' p \<and> p ! 4 = ''retainage'' \<and> p ! 5 = ''release'' \<and> m = ''POST'',
        gated POST_JOURNAL p ''_job_retainage_release'' [p ! 3]),
     (page_any 3 p \<and> (p ! 2 = ''invoices'' \<or> p ! 2 = ''bills'') \<and> m = ''GET'',
        gated VIEW_TRANSACTIONS p ''_arap_page'' [p ! 2]),
     (page_any 3 p \<and> (p ! 2 = ''invoices'' \<or> p ! 2 = ''bills'') \<and> m = ''POST'',
        gated POST_JOURNAL p ''_arap_create'' [p ! 2]),
     (page_any 5 p \<and> (p ! 2 = ''invoices'' \<or> p ! 2 = ''bills'') \<and> p ! 4 = ''payments'' \<and> m = ''POST'',
        gated POST_JOURNAL p ''_arap_pay'' [p ! 2, p ! 3]),
     (page_any 5 p \<and> (p ! 2 = ''invoices'' \<or> p ! 2 = ''bills'') \<and> (p ! 4 = ''credits'' \<or> p ! 4 = ''refunds'') \<and> m = ''POST'',
        gated POST_JOURNAL p ''_arap_adjust'' [p ! 2, p ! 3, p ! 4]),
     (page_any 3 p \<and> (p ! 2 = ''customers'' \<or> p ! 2 = ''vendors'') \<and> m = ''POST'',
        gated POST_JOURNAL p ''_arap_party'' [p ! 2]),
     (page_any 4 p \<and> p ! 3 = ''aging'' \<and> (p ! 2 = ''receivables'' \<or> p ! 2 = ''payables''),
        gated VIEW_TRANSACTIONS p ''_arap_aging'' [(if p ! 2 = ''receivables'' then ''ar'' else ''ap'')]),
     (page_at 5 ''files'' p \<and> p ! 4 = ''download'' \<and> m = ''GET'',
        gated VIEW_TRANSACTIONS p ''_attachment_download'' [p ! 3]),
     (page_at 5 ''files'' p \<and> m = ''POST'', gated POST_JOURNAL p ''_attachment_upload'' [p ! 3, p ! 4]),
     (page_at 5 ''files'' p, gated VIEW_TRANSACTIONS p ''_attachments_page'' [p ! 3, p ! 4]),
     (page_at 7 ''files'' p \<and> p ! 6 = ''delete'' \<and> m = ''POST'',
        gated POST_JOURNAL p ''_attachment_delete'' [p ! 3, p ! 4, p ! 5])]"

text \<open>Payroll and the review of the bank feed.\<close>

definition payroll_inbox_routes :: "string list \<Rightarrow> string \<Rightarrow> route_rule list" where
  "payroll_inbox_routes p m = [
     (page_at 3 ''payroll'' p \<and> m = ''POST'', gated POST_JOURNAL p ''_payroll_create'' []),
     (page_at 3 ''payroll'' p, gated VIEW_TRANSACTIONS p ''_payroll_page'' []),
     (page_at 4 ''payroll'' p \<and> p ! 3 = ''employees'' \<and> m = ''POST'', gated POST_JOURNAL p ''_payroll_employee'' []),
     (page_at 4 ''payroll'' p \<and> p ! 3 = ''remit'' \<and> m = ''POST'', gated POST_JOURNAL p ''_payroll_remit'' []),
     (page_at 4 ''payroll'' p \<and> m = ''GET'', gated VIEW_TRANSACTIONS p ''_payroll_run_page'' [p ! 3]),
     (page_at 5 ''payroll'' p \<and> m = ''POST'' \<and> (p ! 4 = ''post'' \<or> p ! 4 = ''void''),
        gated POST_JOURNAL p ''_payroll_run_action'' [p ! 3, p ! 4]),
     (page_at 3 ''inbox'' p, gated VIEW_TRANSACTIONS p ''_inbox_page'' []),
     (page_at 4 ''inbox'' p \<and> p ! 3 = ''history'' \<and> m = ''GET'', gated VIEW_TRANSACTIONS p ''_bank_history_page'' []),
     (page_at 5 ''inbox'' p \<and> p ! 3 = ''history'' \<and> p ! 4 = ''import'' \<and> m = ''POST'',
        gated MANAGE_CONNECTORS p ''_bank_history_import'' []),
     (page_at 4 ''inbox'' p \<and> p ! 3 = ''rules'' \<and> m = ''POST'', gated CATEGORIZE_TXNS p ''_inbox_save_rule'' []),
     (page_at 4 ''inbox'' p \<and> p ! 3 = ''rules'', gated VIEW_TRANSACTIONS p ''_inbox_rules_page'' []),
     (page_at 4 ''inbox'' p \<and> p ! 3 = ''bulk-accept'' \<and> m = ''POST'',
        gated CATEGORIZE_TXNS p ''_inbox_bulk_accept'' []),
     (page_at 6 ''inbox'' p \<and> p ! 3 = ''rules'' \<and> p ! 5 = ''delete'' \<and> m = ''POST'',
        gated CATEGORIZE_TXNS p ''_inbox_delete_rule'' [p ! 4]),
     (page_at 5 ''inbox'' p \<and> m = ''POST'' \<and> (p ! 4 = ''accept'' \<or> p ! 4 = ''match'' \<or> p ! 4 = ''exclude'' \<or> p ! 4 = ''undo''),
        gated CATEGORIZE_TXNS p ''_inbox_action'' [p ! 3, p ! 4])]"

text \<open>The general ledger.\<close>

definition books_routes :: "string list \<Rightarrow> string \<Rightarrow> route_rule list" where
  "books_routes p m = [
     (page_at 3 ''books'' p, gated VIEW_TRANSACTIONS p ''_books_page'' []),
     (page_at 4 ''books'' p \<and> p ! 3 = ''trial-balance'', gated VIEW_TRANSACTIONS p ''_books_trial_balance_page'' []),
     (page_at 4 ''books'' p \<and> p ! 3 = ''accounts'' \<and> m = ''POST'', gated POST_JOURNAL p ''_books_account_create'' []),
     (page_at 5 ''books'' p \<and> p ! 3 = ''accounts'' \<and> p ! 4 = ''new'' \<and> m = ''GET'',
        gated POST_JOURNAL p ''_books_account_form'' []),
     (page_at 6 ''books'' p \<and> p ! 3 = ''accounts'' \<and> p ! 5 = ''edit'' \<and> m = ''POST'',
        gated POST_JOURNAL p ''_books_account_edit'' [p ! 4]),
     (page_at 6 ''books'' p \<and> p ! 3 = ''accounts'' \<and> p ! 5 = ''edit'',
        gated POST_JOURNAL p ''_books_account_form'' [p ! 4]),
     (page_at 6 ''books'' p \<and> p ! 3 = ''accounts'' \<and> p ! 5 = ''active'' \<and> m = ''POST'',
        gated POST_JOURNAL p ''_books_account_active'' [p ! 4]),
     (page_at 4 ''books'' p \<and> p ! 3 = ''accounts'', gated VIEW_TRANSACTIONS p ''_books_accounts_page'' []),
     (page_at 4 ''books'' p \<and> p ! 3 = ''statements'', gated VIEW_TRANSACTIONS p ''_books_statements_page'' []),
     (page_at 4 ''books'' p \<and> p ! 3 = ''split'', gated VIEW_TRANSACTIONS p ''_books_split_page'' []),
     (page_at 4 ''books'' p \<and> p ! 3 = ''entries'' \<and> m = ''POST'', gated POST_JOURNAL p ''_books_post_entry'' []),
     (page_at 5 ''books'' p \<and> p ! 3 = ''accounts'', gated VIEW_TRANSACTIONS p ''_books_register_page'' [p ! 4]),
     (page_at 4 ''books'' p \<and> p ! 3 = ''1099'' \<and> m = ''GET'', gated VIEW_TRANSACTIONS p ''_ten99_page'' []),
     (page_at 4 ''books'' p \<and> p ! 3 = ''recurring'' \<and> m = ''POST'', gated POST_JOURNAL p ''_recurring_save'' []),
     (page_at 4 ''books'' p \<and> p ! 3 = ''recurring'', gated VIEW_TRANSACTIONS p ''_recurring_page'' []),
     (page_at 5 ''books'' p \<and> p ! 3 = ''recurring'' \<and> p ! 4 = ''run'' \<and> m = ''POST'',
        gated POST_JOURNAL p ''_recurring_run'' []),
     (page_at 6 ''books'' p \<and> p ! 3 = ''recurring'' \<and> p ! 5 = ''delete'' \<and> m = ''POST'',
        gated POST_JOURNAL p ''_recurring_delete'' [p ! 4]),
     (page_at 4 ''books'' p \<and> p ! 3 = ''dimensions'' \<and> m = ''POST'', gated POST_JOURNAL p ''_dimension_save'' []),
     (page_at 4 ''books'' p \<and> p ! 3 = ''dimensions'', gated VIEW_TRANSACTIONS p ''_dimensions_page'' []),
     (page_at 6 ''books'' p \<and> p ! 3 = ''dimensions'' \<and> p ! 5 = ''delete'' \<and> m = ''POST'',
        gated POST_JOURNAL p ''_dimension_delete'' [p ! 4]),
     (page_at 5 ''books'' p \<and> p ! 3 = ''dimensions'' \<and> m = ''GET'',
        gated VIEW_TRANSACTIONS p ''_dimension_report'' [p ! 4]),
     (page_at 4 ''books'' p \<and> p ! 3 = ''gl'', gated VIEW_TRANSACTIONS p ''_gl_page'' []),
     (page_at 4 ''books'' p \<and> p ! 3 = ''budget'' \<and> m = ''POST'', gated POST_JOURNAL p ''_budget_save'' []),
     (page_at 4 ''books'' p \<and> p ! 3 = ''budget'', gated VIEW_TRANSACTIONS p ''_budget_page'' []),
     (page_at 4 ''books'' p \<and> p ! 3 = ''reconcile'', gated VIEW_TRANSACTIONS p ''_reconcile_pick'' []),
     (page_at 5 ''books'' p \<and> p ! 3 = ''reconcile'', gated VIEW_TRANSACTIONS p ''_reconcile_page'' [p ! 4]),
     (page_at 6 ''books'' p \<and> p ! 3 = ''reconcile'' \<and> p ! 5 = ''import'' \<and> m = ''POST'',
        gated POST_JOURNAL p ''_reconcile_import'' [p ! 4]),
     (page_at 6 ''books'' p \<and> p ! 3 = ''reconcile'' \<and> m = ''POST'' \<and> (p ! 5 = ''toggle'' \<or> p ! 5 = ''finish''),
        gated POST_JOURNAL p ''_reconcile_action'' [p ! 4, p ! 5])]"

text \<open>The cash page, packages and reports.\<close>

definition report_routes :: "string list \<Rightarrow> string \<Rightarrow> route_rule list" where
  "report_routes p m = [
     (page_any 2 p, gated VIEW_CASH p ''_cash_page'' []),
     (page_at 4 ''packages'' p, gated VIEW_PACKAGE p ''_package_html'' [p ! 3]),
     (page_at 4 ''reports'' p, gated VIEW_CASH p ''_report_page'' [p ! 3])]"

text \<open>The JSON interface.\<close>

definition api_routes :: "string list \<Rightarrow> string \<Rightarrow> route_rule list" where
  "api_routes p m = [
     (api_at 3 ''me'' p \<and> m = ''GET'', Me (p ! 1)),
     (api_at 3 ''users'' p \<and> m = ''GET'', gated MANAGE_USERS p ''_users_list'' []),
     (api_at 3 ''users'' p \<and> m = ''POST'', gated MANAGE_USERS p ''_users_set'' []),
     (api_at 3 ''invitations'' p \<and> m = ''GET'', gated MANAGE_USERS p ''_invitations_list'' []),
     (api_at 3 ''invitations'' p \<and> m = ''POST'', gated MANAGE_USERS p ''_invitation_create'' []),
     (api_at 3 ''today'' p \<and> m = ''GET'', gated VIEW_CASH p ''_today_json'' []),
     (api_at 3 ''briefing.txt'' p \<and> m = ''GET'', gated VIEW_BRIEFING p ''_briefing_text'' []),
     (api_at 3 ''ask'' p \<and> m = ''POST'', gated ASK_CFO p ''_ask'' []),
     (api_at 3 ''assumptions'' p \<and> m = ''POST'', gated EDIT_ASSUMPTIONS p ''_set_assumptions'' []),
     (api_at 3 ''decisions'' p \<and> m = ''GET'', gated VIEW_CASH p ''_decisions'' []),
     (api_at 3 ''decisions'' p \<and> m = ''POST'', gated RECORD_DECISION p ''_add_decision'' []),
     (api_at 3 ''packages'' p \<and> m = ''GET'', gated VIEW_PACKAGE p ''_packages_list'' []),
     (api_at 3 ''transactions'' p \<and> m = ''GET'', gated VIEW_TRANSACTIONS p ''_transactions_json'' []),
     (api_at 3 ''transactions'' p \<and> m = ''POST'', gated CATEGORIZE_TXNS p ''_categorize'' []),
     (api_at 3 ''entries'' p \<and> m = ''POST'', gated POST_JOURNAL p ''_post_entry_json'' []),
     (api_at 3 ''statements'' p \<and> m = ''GET'', gated VIEW_TRANSACTIONS p ''_statements_json'' []),
     (api_at 3 ''ingest'' p \<and> m = ''POST'', gated POST_JOURNAL p ''_ingest_json'' []),
     (api_at 3 ''split'' p \<and> m = ''POST'', gated VIEW_TRANSACTIONS p ''_split_books_json'' []),
     (api_at 3 ''scenario'' p \<and> m = ''POST'', gated VIEW_CASH p ''_scenario'' []),
     (api_at 3 ''receivables'' p \<and> m = ''GET'', gated VIEW_CASH p ''_receivables_json'' []),
     (api_at 3 ''close'' p \<and> m = ''GET'', gated MANAGE_CLOSE p ''_close_json'' []),
     (api_at 3 ''close'' p \<and> m = ''POST'', gated MANAGE_CLOSE p ''_close_advance'' []),
     (api_at 3 ''reports'' p \<and> m = ''POST'', gated RECORD_DECISION p ''_reports_save'' []),
     (api_at 3 ''export'' p \<and> m = ''GET'', gated MANAGE_USERS p ''_export'' []),
     (api_at 3 ''erase'' p \<and> (m = ''POST'' \<or> m = ''DELETE''), gated ERASE_DATA p ''_erase'' []),
     (api_at 3 ''retention'' p \<and> m = ''POST'', gated MANAGE_DATA_RETENTION p ''_run_retention'' []),
     (api_at 3 ''audit'' p \<and> m = ''GET'', gated MANAGE_USERS p ''_audit_json'' []),
     (api_at 5 ''invitations'' p \<and> p ! 4 = ''revoke'' \<and> m = ''POST'',
        gated MANAGE_USERS p ''_invitation_revoke'' [p ! 3]),
     (api_at 4 ''close'' p \<and> p ! 3 = ''publish'' \<and> m = ''POST'', gated PUBLISH_CLOSE p ''_close_publish'' []),
     (api_at 4 ''packages'' p \<and> m = ''GET'', gated VIEW_PACKAGE p ''_package_json'' [p ! 3]),
     (api_at 4 ''reports'' p \<and> m = ''GET'', gated VIEW_CASH p ''_report_export'' [p ! 3])]"

text \<open>\<open>ask_on\<close>: a provider of the conversation is wired.\<close>

definition route_table :: "bool \<Rightarrow> string list \<Rightarrow> string \<Rightarrow> route_rule list" where
  "route_table ask_on p m =
     admin_routes p m @ money_routes ask_on p m @ shell_routes p m @ operations_routes p m @ document_routes p m @
     payroll_inbox_routes p m @ books_routes p m @ report_routes p m @ api_routes p m"

definition route_of :: "bool \<Rightarrow> string list \<Rightarrow> string \<Rightarrow> endpoint" where
  "route_of ask_on p m = (case first_route (route_table ask_on p m) of Some e \<Rightarrow> e | None \<Rightarrow> NotFound)"

section \<open>The posting routes\<close>

definition is_posting_path :: "string list \<Rightarrow> string \<Rightarrow> bool" where
  "is_posting_path parts m \<longleftrightarrow>
     (if m \<noteq> ''POST'' \<or> length parts < 3 then False
      else if parts ! 0 = ''api'' then length parts = 3 \<and> List.member [''entries'', ''ingest''] (parts ! 2)
      else if parts ! 0 \<noteq> ''t'' then False
      else
        (let rest = drop 2 parts; head = rest ! 0; n = length rest; action = (if 3 \<le> n then rest ! 2 else [])
         in if List.member [''invoices'', ''bills''] head
            then n = 1 \<or> n = 3 \<and> List.member [''payments'', ''credits'', ''refunds''] action
            else if head = ''expenses'' then n = 1
            else if head = ''books'' then List.member [[''entries''], [''wip''], [''recurring'', ''run'']] (drop 1 rest)
            else if head = ''payroll'' then drop 1 rest = [''remit''] \<or> n = 3 \<and> List.member [''post'', ''void''] action
            else if head = ''debt'' then n = 2 \<and> List.member [''loans'', ''payments'', ''draws''] (rest ! 1)
            else if head = ''assets'' then n = 1 \<or> n = 3 \<and> List.member [''depreciate'', ''usage'', ''dispose''] action
            else if head = ''capture'' then drop 1 rest = [''bill'']
            else if head = ''inventory'' then n = 2 \<and> List.member [''receipts'', ''issues'', ''counts''] (rest ! 1)
            else if head = ''work-orders'' then n = 3 \<and> action = ''entries''
            else if List.member [''sales-orders'', ''estimates''] head then n = 3 \<and> action = ''invoice''
            else if head = ''purchase-orders'' then n = 3 \<and> List.member [''receipts'', ''bill''] action
            else if head = ''jobs'' then 3 \<le> n \<and> List.member [''bill'', ''deposits'', ''retainage''] action
            else if head = ''inbox'' then
              drop 1 rest = [''bulk-accept''] \<or> n = 3 \<and> List.member [''accept'', ''match'', ''exclude'', ''undo''] action
            else False))"


section \<open>What the handlers do\<close>

text \<open>
  The handlers that change what a business has: its books, its settings, people, keys and links, its
  evidence and its connections. The others read, compute, fill caches, or keep the conversation of
  \<open>_ask_answer\<close> and \<open>_ask_clear\<close>.
\<close>

definition CHANGES :: "string list" where
  "CHANGES = [''_modules_save'', ''_settings_save'', ''_erase_ui'', ''_retention_ui'', ''_integration_add'',
     ''_integration_delete'', ''_integration_replay'', ''_debt_add_loan'', ''_debt_payment'', ''_debt_draw'', ''_asset_add'',
     ''_asset_action'', ''_capture_scan'', ''_capture_bill'', ''_expense_post'', ''_costs_post'', ''_cutover_execute'',
     ''_cutover_backout'', ''_qbo_disconnect'', ''_qbo_sync'', ''_qbo_migrate'', ''_inventory_action'', ''_wip_post'',
     ''_group_save'', ''_elimination_save'', ''_work_order_save'', ''_work_order_action'', ''_sales_order_save'',
     ''_sales_order_invoice'', ''_purchase_order_save'', ''_purchase_order_action'', ''_estimate_save'',
     ''_estimate_action'', ''_lead_save'', ''_lead_convert'', ''_opportunity_save'', ''_opportunity_close'', ''_job_save'',
     ''_job_budget_save'', ''_job_bill'', ''_job_deposit'', ''_job_deposit_apply'', ''_job_retainage_release'',
     ''_arap_create'', ''_arap_pay'', ''_arap_adjust'', ''_arap_party'', ''_attachment_upload'', ''_attachment_delete'',
     ''_payroll_create'', ''_payroll_employee'', ''_payroll_remit'', ''_payroll_run_action'', ''_bank_history_import'',
     ''_inbox_save_rule'', ''_inbox_bulk_accept'', ''_inbox_delete_rule'', ''_inbox_action'', ''_books_account_create'',
     ''_books_account_edit'', ''_books_account_active'', ''_books_post_entry'', ''_recurring_save'', ''_recurring_run'',
     ''_recurring_delete'', ''_dimension_save'', ''_dimension_delete'', ''_budget_save'', ''_reconcile_import'',
     ''_reconcile_action'', ''_users_set'', ''_invitation_create'', ''_set_assumptions'', ''_add_decision'', ''_categorize'',
     ''_post_entry_json'', ''_ingest_json'', ''_close_advance'', ''_reports_save'', ''_erase'', ''_run_retention'',
     ''_invitation_revoke'', ''_close_publish'']"

text \<open>The handlers whose request the ledger answers by posting or reversing an entry.\<close>

definition posts_journal :: "string \<Rightarrow> string list \<Rightarrow> bool" where
  "posts_journal handler args \<longleftrightarrow>
     List.member [''_arap_create'', ''_arap_pay'', ''_arap_adjust'', ''_expense_post'', ''_books_post_entry'', ''_wip_post'',
       ''_recurring_run'', ''_payroll_remit'', ''_payroll_run_action'', ''_debt_add_loan'', ''_debt_payment'', ''_debt_draw'',
       ''_asset_add'', ''_asset_action'', ''_capture_bill'', ''_sales_order_invoice'', ''_purchase_order_action'',
       ''_job_bill'', ''_job_deposit'', ''_job_deposit_apply'', ''_job_retainage_release'', ''_inbox_bulk_accept'',
       ''_inbox_action'', ''_post_entry_json'', ''_ingest_json''] handler \<or>
     handler = ''_inventory_action'' \<and> args \<noteq> [''items''] \<or>
     handler = ''_work_order_action'' \<and> last args = ''entries'' \<or>
     handler = ''_estimate_action'' \<and> last args = ''invoice''"

section \<open>Facts about every rule\<close>

lemmas route_defs = admin_routes_def money_routes_def shell_routes_def operations_routes_def document_routes_def
  payroll_inbox_routes_def books_routes_def report_routes_def api_routes_def

definition rule_safe :: "string list \<Rightarrow> string \<Rightarrow> route_rule \<Rightarrow> bool" where
  "rule_safe p m r \<longleftrightarrow>
     (case r of (g, e) \<Rightarrow> g \<longrightarrow>
        (case e of
           Gated perm t handler args \<Rightarrow>
             t = p ! 1 \<and> 2 \<le> length p \<and>
             (handler \<in> set CHANGES \<longrightarrow> (m = ''POST'' \<or> m = ''DELETE'') \<and> perm \<notin> view_permissions)
         | _ \<Rightarrow> True))"

lemma admin_routes_safe: "list_all (rule_safe p m) (admin_routes p m)"
  by (simp add: admin_routes_def rule_safe_def gated_def CHANGES_def view_permissions_def page_at_def page_any_def api_at_def)

lemma money_routes_safe: "list_all (rule_safe p m) (money_routes ask_on p m)"
  by (simp add: money_routes_def rule_safe_def gated_def CHANGES_def view_permissions_def page_at_def page_any_def api_at_def)

lemma shell_routes_safe: "list_all (rule_safe p m) (shell_routes p m)"
  by (simp add: shell_routes_def rule_safe_def gated_def CHANGES_def view_permissions_def page_at_def page_any_def api_at_def)

lemma operations_routes_safe: "list_all (rule_safe p m) (operations_routes p m)"
  by (simp add: operations_routes_def rule_safe_def gated_def CHANGES_def view_permissions_def page_at_def page_any_def api_at_def)

lemma document_routes_safe: "list_all (rule_safe p m) (document_routes p m)"
  by (simp add: document_routes_def rule_safe_def gated_def CHANGES_def view_permissions_def page_at_def page_any_def api_at_def)

lemma payroll_inbox_routes_safe: "list_all (rule_safe p m) (payroll_inbox_routes p m)"
  by (simp add: payroll_inbox_routes_def rule_safe_def gated_def CHANGES_def view_permissions_def page_at_def page_any_def api_at_def)

lemma books_routes_safe: "list_all (rule_safe p m) (books_routes p m)"
  by (simp add: books_routes_def rule_safe_def gated_def CHANGES_def view_permissions_def page_at_def page_any_def api_at_def)

lemma report_routes_safe: "list_all (rule_safe p m) (report_routes p m)"
  by (simp add: report_routes_def rule_safe_def gated_def CHANGES_def view_permissions_def page_at_def page_any_def api_at_def)

lemma api_routes_safe: "list_all (rule_safe p m) (api_routes p m)"
  by (simp add: api_routes_def rule_safe_def gated_def CHANGES_def view_permissions_def page_at_def page_any_def api_at_def)

lemmas rules_safe = admin_routes_safe money_routes_safe shell_routes_safe operations_routes_safe document_routes_safe
  payroll_inbox_routes_safe books_routes_safe report_routes_safe api_routes_safe

lemma route_safe:
  assumes "route_of ask_on p m = Gated perm t handler args"
  shows "t = p ! 1 \<and> 2 \<le> length p \<and>
    (handler \<in> set CHANGES \<longrightarrow> (m = ''POST'' \<or> m = ''DELETE'') \<and> perm \<notin> view_permissions)"
proof -
  have "(True, Gated perm t handler args) \<in> set (route_table ask_on p m)"
    using assms by (auto simp: route_of_def split: option.splits dest: first_routeD)
  moreover have "list_all (rule_safe p m) (route_table ask_on p m)"
    by (simp add: route_table_def rules_safe)
  ultimately show ?thesis by (auto simp: list_all_iff rule_safe_def)
qed


section \<open>The two tables of posting routes\<close>

text \<open>Rules that the rules before them make unreachable for a posting path.\<close>

definition shadowed :: "string list \<Rightarrow> string \<Rightarrow> bool" where
  "shadowed p handler \<longleftrightarrow>
     page_at 3 ''assets'' p \<and> handler = ''_assets_page'' \<or> page_at 3 ''expenses'' p \<and> handler = ''_expenses_page'' \<or>
     page_at 4 ''books'' p \<and> p ! 3 = ''wip'' \<and> handler = ''_wip_page'' \<or>
     page_at 4 ''debt'' p \<and> (p ! 3 = ''loans'' \<or> p ! 3 = ''payments'' \<or> p ! 3 = ''draws'') \<and> handler = ''_loan_detail_page''"

definition rule_posts :: "string list \<Rightarrow> string \<Rightarrow> route_rule \<Rightarrow> bool" where
  "rule_posts p m r \<longleftrightarrow>
     (case r of (g, e) \<Rightarrow> g \<longrightarrow>
        (case e of
           Gated perm t handler args \<Rightarrow>
             posts_journal handler args = is_posting_path p m \<or> is_posting_path p m \<and> shadowed p handler
         | _ \<Rightarrow> True))"

lemma drop_singleton: "drop k p = [x] \<longleftrightarrow> length p = Suc k \<and> p ! k = x"
  by (cases "k < length p") (auto simp: Cons_nth_drop_Suc [symmetric])

lemma drop_pair: "drop k p = [x, y] \<longleftrightarrow> length p = Suc (Suc k) \<and> p ! k = x \<and> p ! Suc k = y"
  by (cases "k < length p") (auto simp: Cons_nth_drop_Suc [symmetric] drop_singleton)

text \<open>The posting paths by their segments.\<close>

lemma posting_nth:
  "is_posting_path p m \<longleftrightarrow> m = ''POST'' \<and>
     (p ! 0 = ''api'' \<and> length p = 3 \<and> (p ! 2 = ''entries'' \<or> p ! 2 = ''ingest'') \<or>
      p ! 0 = ''t'' \<and>
       (length p = 3 \<and> (p ! 2 = ''invoices'' \<or> p ! 2 = ''bills'' \<or> p ! 2 = ''expenses'' \<or> p ! 2 = ''assets'') \<or>
        length p = 4 \<and>
         (p ! 2 = ''books'' \<and> (p ! 3 = ''entries'' \<or> p ! 3 = ''wip'') \<or> p ! 2 = ''payroll'' \<and> p ! 3 = ''remit'' \<or>
          p ! 2 = ''debt'' \<and> (p ! 3 = ''loans'' \<or> p ! 3 = ''payments'' \<or> p ! 3 = ''draws'') \<or>
          p ! 2 = ''capture'' \<and> p ! 3 = ''bill'' \<or> p ! 2 = ''inbox'' \<and> p ! 3 = ''bulk-accept'' \<or>
          p ! 2 = ''inventory'' \<and> (p ! 3 = ''receipts'' \<or> p ! 3 = ''issues'' \<or> p ! 3 = ''counts'')) \<or>
        length p = 5 \<and>
         ((p ! 2 = ''invoices'' \<or> p ! 2 = ''bills'') \<and> (p ! 4 = ''payments'' \<or> p ! 4 = ''credits'' \<or> p ! 4 = ''refunds'') \<or>
          p ! 2 = ''books'' \<and> p ! 3 = ''recurring'' \<and> p ! 4 = ''run'' \<or>
          p ! 2 = ''payroll'' \<and> (p ! 4 = ''post'' \<or> p ! 4 = ''void'') \<or>
          p ! 2 = ''assets'' \<and> (p ! 4 = ''depreciate'' \<or> p ! 4 = ''usage'' \<or> p ! 4 = ''dispose'') \<or>
          p ! 2 = ''work-orders'' \<and> p ! 4 = ''entries'' \<or>
          (p ! 2 = ''sales-orders'' \<or> p ! 2 = ''estimates'') \<and> p ! 4 = ''invoice'' \<or>
          p ! 2 = ''purchase-orders'' \<and> (p ! 4 = ''receipts'' \<or> p ! 4 = ''bill'') \<or>
          p ! 2 = ''inbox'' \<and> (p ! 4 = ''accept'' \<or> p ! 4 = ''match'' \<or> p ! 4 = ''exclude'' \<or> p ! 4 = ''undo'')) \<or>
        5 \<le> length p \<and> p ! 2 = ''jobs'' \<and> (p ! 4 = ''bill'' \<or> p ! 4 = ''deposits'' \<or> p ! 4 = ''retainage'')))"
proof -
  consider "length p < 3" | x b c where "p = [x, b, c]" | x b c d where "p = [x, b, c, d]"
    | x b c d e where "p = [x, b, c, d, e]" | x b c d e f r where "p = x # b # c # d # e # f # r"
  proof (cases "length p < 3")
    case False
    then obtain x b c q where p: "p = x # b # c # q"
      by (cases p; cases "tl p"; cases "tl (tl p)") auto
    then show ?thesis using that by (cases q; cases "tl q"; cases "tl (tl q)") auto
  qed auto
  then show ?thesis
    by cases (auto simp: is_posting_path_def Let_def split: if_splits)
qed

lemma admin_routes_post: "list_all (rule_posts p m) (admin_routes p m)"
  unfolding admin_routes_def by (simp add: rule_posts_def gated_def posts_journal_def page_at_def page_any_def api_at_def posting_nth shadowed_def)

lemma money_routes_post: "list_all (rule_posts p m) (money_routes ask_on p m)"
  unfolding money_routes_def by (simp add: rule_posts_def gated_def posts_journal_def page_at_def page_any_def api_at_def posting_nth shadowed_def) auto

lemma shell_routes_post: "list_all (rule_posts p m) (shell_routes p m)"
  unfolding shell_routes_def by (simp add: rule_posts_def gated_def posts_journal_def page_at_def page_any_def api_at_def posting_nth shadowed_def)

lemma operations_routes_post: "list_all (rule_posts p m) (operations_routes p m)"
  unfolding operations_routes_def by (simp add: rule_posts_def gated_def posts_journal_def page_at_def page_any_def api_at_def posting_nth shadowed_def) auto

lemma document_routes_post: "list_all (rule_posts p m) (document_routes p m)"
  unfolding document_routes_def by (simp add: rule_posts_def gated_def posts_journal_def page_at_def page_any_def api_at_def posting_nth shadowed_def) auto

lemma payroll_inbox_routes_post: "list_all (rule_posts p m) (payroll_inbox_routes p m)"
  unfolding payroll_inbox_routes_def by (simp add: rule_posts_def gated_def posts_journal_def page_at_def page_any_def api_at_def posting_nth shadowed_def)

lemma books_routes_post: "list_all (rule_posts p m) (books_routes p m)"
  unfolding books_routes_def by (simp add: rule_posts_def gated_def posts_journal_def page_at_def page_any_def api_at_def posting_nth shadowed_def)

lemma report_routes_post: "list_all (rule_posts p m) (report_routes p m)"
  unfolding report_routes_def by (simp add: rule_posts_def gated_def posts_journal_def page_at_def page_any_def api_at_def posting_nth shadowed_def)

lemma api_routes_post: "list_all (rule_posts p m) (api_routes p m)"
  unfolding api_routes_def by (simp add: rule_posts_def gated_def posts_journal_def page_at_def page_any_def api_at_def posting_nth shadowed_def)

lemmas guard_defs = page_at_def page_any_def page_from_def api_at_def

lemma shadowing:
  "route_of ask_on [''t'', b, ''assets''] ''POST'' = Gated POST_JOURNAL b ''_asset_add'' []"
  "route_of ask_on [''t'', b, ''expenses''] ''POST'' = Gated POST_JOURNAL b ''_expense_post'' []"
  "route_of ask_on [''t'', b, ''books'', ''wip''] ''POST'' = Gated POST_JOURNAL b ''_wip_post'' []"
  "route_of ask_on [''t'', b, ''debt'', ''loans''] ''POST'' = Gated POST_JOURNAL b ''_debt_add_loan'' []"
  "route_of ask_on [''t'', b, ''debt'', ''payments''] ''POST'' = Gated POST_JOURNAL b ''_debt_payment'' []"
  "route_of ask_on [''t'', b, ''debt'', ''draws''] ''POST'' = Gated POST_JOURNAL b ''_debt_draw'' []"
  by (simp_all add: route_of_def route_table_def route_defs guard_defs gated_def)

lemma page_shape:
  "page_at 3 a p \<longleftrightarrow> (\<exists>b. p = [''t'', b, a])"
  "page_at 4 a p \<longleftrightarrow> (\<exists>b d. p = [''t'', b, a, d])"
  by (auto simp: page_at_def length_Suc_conv numeral_eq_Suc)

lemma shadowed_unreachable:
  assumes "is_posting_path p m" "shadowed p handler"
  shows "route_of ask_on p m \<noteq> Gated perm t handler args"
proof -
  have "m = ''POST''" using assms(1) by (simp add: posting_nth)
  with assms(2) show ?thesis by (auto simp: shadowed_def page_shape shadowing)
qed

text \<open>The two tables agree: of the requests that reach a handler, exactly those named posting paths reach one
  that posts a journal entry. So while QuickBooks keeps the books no request posts one, and no other
  request is refused.\<close>

lemma posting_tables_agree:
  assumes "route_of ask_on p m = Gated perm t handler args"
  shows "posts_journal handler args \<longleftrightarrow> is_posting_path p m"
proof -
  have "(True, Gated perm t handler args) \<in> set (route_table ask_on p m)"
    using assms by (auto simp: route_of_def split: option.splits dest: first_routeD)
  moreover have "list_all (rule_posts p m) (route_table ask_on p m)"
    by (simp add: route_table_def admin_routes_post money_routes_post shell_routes_post operations_routes_post
        document_routes_post payroll_inbox_routes_post books_routes_post report_routes_post api_routes_post)
  ultimately have "posts_journal handler args = is_posting_path p m \<or> is_posting_path p m \<and> shadowed p handler"
    by (auto simp: list_all_iff rule_posts_def)
  then show ?thesis using assms shadowed_unreachable [of p m handler ask_on perm t args] by blast
qed

end
