(* ===== verification/Directory_Sql.thy ===== *)
theory Directory_Sql
  imports Access
begin

text \<open>
  The user directory in SQL (\<open>rgnr8_web/rbac.py\<close>, \<open>SqlUserDirectory\<close>) and its agreement with the
  in-memory one. A role column holds the value of the role; the model keeps the role itself, the
  two being one to one (\<open>role_of_value\<close> of \<open>Access\<close>). Row-level security, a no-op on sqlite, is not
  modelled.
\<close>

section \<open>The tables\<close>

record user_row =
  ur_email :: string
  ur_name :: string
  ur_platform_role :: "role option"

record sql_directory =
  sd_users :: "(string \<times> user_row) list"
  sd_memberships :: "((string \<times> string) \<times> role) list"

definition user_of_row :: "string \<times> user_row \<Rightarrow> user" where
  "user_of_row = (\<lambda>(i, r). \<lparr>usr_id = i, usr_email = ur_email r, usr_name = ur_name r\<rparr>)"

definition sd_get_user :: "string \<Rightarrow> sql_directory \<Rightarrow> user option" where
  "sd_get_user i d = map_option (\<lambda>r. user_of_row (i, r)) (map_of (sd_users d) i)"

definition sd_find_by_email :: "string \<Rightarrow> sql_directory \<Rightarrow> user option" where
  "sd_find_by_email email d =
     map_option user_of_row (find (\<lambda>(i, r). lower (ur_email r) = lower email) (sd_users d))"

definition sd_upsert_user :: "user \<Rightarrow> sql_directory \<Rightarrow> sql_directory" where
  "sd_upsert_user u d =
     d\<lparr>sd_users := AList.update (usr_id u)
         \<lparr>ur_email = usr_email u, ur_name = usr_name u,
          ur_platform_role = (case map_of (sd_users d) (usr_id u) of Some r \<Rightarrow> ur_platform_role r | None \<Rightarrow> None)\<rparr>
         (sd_users d)\<rparr>"

definition sd_set_membership :: "string \<Rightarrow> string \<Rightarrow> role \<Rightarrow> sql_directory \<Rightarrow> sql_directory" where
  "sd_set_membership i t r d = d\<lparr>sd_memberships := AList.update (i, t) r (sd_memberships d)\<rparr>"

definition sd_remove_membership :: "string \<Rightarrow> string \<Rightarrow> sql_directory \<Rightarrow> sql_directory" where
  "sd_remove_membership i t d = d\<lparr>sd_memberships := AList.delete (i, t) (sd_memberships d)\<rparr>"

definition sd_membership :: "string \<Rightarrow> string \<Rightarrow> sql_directory \<Rightarrow> membership option" where
  "sd_membership i t d =
     map_option (\<lambda>r. \<lparr>mb_user_id = i, mb_tenant_id = t, mb_role = r\<rparr>) (map_of (sd_memberships d) (i, t))"

definition sd_members :: "string \<Rightarrow> sql_directory \<Rightarrow> membership list" where
  "sd_members t d =
     sort_key mb_user_id (map (\<lambda>((i, s), r). \<lparr>mb_user_id = i, mb_tenant_id = t, mb_role = r\<rparr>)
       (filter (\<lambda>((i, s), r). s = t) (sd_memberships d)))"

text \<open>An \<open>UPDATE\<close>: no row, no role.\<close>

definition sd_set_platform_role :: "string \<Rightarrow> role option \<Rightarrow> sql_directory \<Rightarrow> sql_directory" where
  "sd_set_platform_role i pr d =
     d\<lparr>sd_users := map (\<lambda>(j, r). (j, if j = i then r\<lparr>ur_platform_role := pr\<rparr> else r)) (sd_users d)\<rparr>"

definition sd_platform_role :: "string \<Rightarrow> sql_directory \<Rightarrow> role option" where
  "sd_platform_role i d = (case map_of (sd_users d) i of Some r \<Rightarrow> ur_platform_role r | None \<Rightarrow> None)"

definition sql_directory_ops :: "sql_directory directory_ops" where
  "sql_directory_ops =
     \<lparr>ud_get_user = sd_get_user, ud_find_by_email = sd_find_by_email, ud_upsert_user = sd_upsert_user,
      ud_set_membership = sd_set_membership, ud_remove_membership = sd_remove_membership,
      ud_membership = sd_membership, ud_members = sd_members,
      ud_set_platform_role = sd_set_platform_role, ud_platform_role = sd_platform_role\<rparr>"

section \<open>It is a directory\<close>

lemmas sql_directory_defs = sql_directory_ops_def sd_get_user_def sd_find_by_email_def sd_upsert_user_def
  sd_set_membership_def sd_remove_membership_def sd_membership_def sd_members_def sd_set_platform_role_def
  sd_platform_role_def user_of_row_def

definition sql_directory_ok :: "sql_directory \<Rightarrow> bool" where
  "sql_directory_ok d \<longleftrightarrow> distinct (map fst (sd_users d)) \<and> distinct (map fst (sd_memberships d))"

lemma map_of_map_row: "map_of (map (\<lambda>(j, r). (j, if j = i then f r else r)) rs) k =
   (if k = i then map_option f (map_of rs k) else map_of rs k)"
  by (induction rs) auto

lemma sd_members_exact:
  assumes "distinct (map fst (sd_memberships d))"
  shows "set (sd_members t d) = {m. sd_membership (mb_user_id m) t d = Some m}"
proof -
  have "((i, t), r) \<in> set (sd_memberships d) \<longleftrightarrow> map_of (sd_memberships d) (i, t) = Some r" for i r
    using assms by simp
  then show ?thesis by (force simp: sd_members_def sd_membership_def image_iff)
qed

interpretation sql_dir: member_directory sql_directory_ops sql_directory_ok
proof unfold_locales
  fix d :: sql_directory and t c
  assume ok: "sql_directory_ok d"
  show "sql_directory_ok (directory_step sql_directory_ops c d)"
    using ok by (cases c) (auto simp: sql_directory_ok_def sql_directory_defs distinct_update case_prod_beta comp_def
        intro: AList.distinct_delete)
  show "sorted (map mb_user_id (ud_members sql_directory_ops t d)) \<and>
      set (ud_members sql_directory_ops t d) = {m. ud_membership sql_directory_ops (mb_user_id m) t d = Some m}"
    using ok sd_members_exact [of d t] by (simp add: sql_directory_ok_def sql_directory_ops_def sd_members_def)
qed (auto simp: sql_directory_defs map_of_map_row update_conv' delete_conv' option.map_comp comp_def split: option.splits)

lemma sd_found:
  assumes "sql_directory_ok d" "sd_find_by_email email d = Some u"
  shows "sd_get_user (usr_id u) d = Some u" "lower (usr_email u) = lower email"
proof -
  from assms(2) obtain i r where r: "find (\<lambda>(i, r). lower (ur_email r) = lower email) (sd_users d) = Some (i, r)"
    "u = user_of_row (i, r)" by (auto simp: sd_find_by_email_def)
  then have "(i, r) \<in> set (sd_users d)" "lower (ur_email r) = lower email" by (auto simp: find_Some_iff in_set_conv_nth)
  then show "sd_get_user (usr_id u) d = Some u" "lower (usr_email u) = lower email"
    using assms(1) r(2) by (simp_all add: sql_directory_ok_def sd_get_user_def user_of_row_def)
qed

section \<open>Properties\<close>

text \<open>What the access policy reads of a directory.\<close>

definition same_access :: "mem_directory \<Rightarrow> sql_directory \<Rightarrow> bool" where
  "same_access d e \<longleftrightarrow>
     (\<forall>i. ud_get_user mem_directory_ops i d = ud_get_user sql_directory_ops i e) \<and>
     (\<forall>i t. ud_membership mem_directory_ops i t d = ud_membership sql_directory_ops i t e) \<and>
     (\<forall>i. ud_platform_role mem_directory_ops i d = ud_platform_role sql_directory_ops i e)"

text \<open>A call that sets no platform role of a user the directory does not know.\<close>

fun known_staff :: "'d directory_ops \<Rightarrow> 'd \<Rightarrow> directory_call \<Rightarrow> bool" where
  "known_staff ops d (SetPlatformRole i r) = (ud_get_user ops i d \<noteq> None)"
| "known_staff ops d c = True"

primrec known_staff_run :: "'d directory_ops \<Rightarrow> directory_call list \<Rightarrow> 'd \<Rightarrow> bool" where
  "known_staff_run ops [] d = True"
| "known_staff_run ops (c # cs) d = (known_staff ops d c \<and> known_staff_run ops cs (directory_step ops c d))"

lemma same_access_step:
  assumes "mem_directory_ok d" "sql_directory_ok e" "same_access d e" "known_staff mem_directory_ops d c"
  shows "same_access (directory_step mem_directory_ops c d) (directory_step sql_directory_ops c e)"
  using assms
  by (cases c)
    (auto simp: same_access_def mem_dir.get_upsert sql_dir.get_upsert mem_dir.get_set sql_dir.get_set
      mem_dir.get_remove sql_dir.get_remove mem_dir.get_platform sql_dir.get_platform mem_dir.membership_upsert sql_dir.membership_upsert
      mem_dir.membership_set sql_dir.membership_set mem_dir.membership_remove sql_dir.membership_remove
      mem_dir.membership_platform sql_dir.membership_platform mem_dir.platform_upsert sql_dir.platform_upsert
      mem_dir.platform_set sql_dir.platform_set mem_dir.platform_remove sql_dir.platform_remove
      mem_dir.platform_platform sql_dir.platform_platform)

lemma same_access_run:
  "mem_directory_ok d \<Longrightarrow> sql_directory_ok e \<Longrightarrow> same_access d e \<Longrightarrow> known_staff_run mem_directory_ops cs d \<Longrightarrow>
     same_access (fold (directory_step mem_directory_ops) cs d) (fold (directory_step sql_directory_ops) cs e)"
  by (induction cs arbitrary: d e) (auto simp: same_access_step mem_dir.step_ok sql_dir.step_ok)

lemma same_access_permissions:
  "same_access d e \<Longrightarrow> permissions mem_directory_ops d i t v = permissions sql_directory_ops e i t v"
  by (simp add: same_access_def permissions_def Let_def split: option.split)

definition sql_directory_empty :: sql_directory where
  "sql_directory_empty = \<lparr>sd_users = [], sd_memberships = []\<rparr>"

text \<open>C26. The two directories decide alike: after any history that gives platform roles only to users that were
  stored before, each permits every user of every business the same.\<close>

theorem directories_agree:
  assumes "known_staff_run mem_directory_ops calls mem_directory_empty"
  shows "permissions mem_directory_ops (fold (directory_step mem_directory_ops) calls mem_directory_empty) user_id tenant_id view_as =
    permissions sql_directory_ops (fold (directory_step sql_directory_ops) calls sql_directory_empty) user_id tenant_id view_as"
proof (rule same_access_permissions, rule same_access_run [OF _ _ _ assms])
  show "same_access mem_directory_empty sql_directory_empty"
    by (simp add: same_access_def mem_directory_empty_def sql_directory_empty_def sql_directory_defs mem_directory_ops_def
        md_get_user_def md_membership_def md_platform_role_def)
qed (simp_all add: mem_directory_ok_def mem_directory_empty_def sql_directory_ok_def sql_directory_empty_def)

definition ann :: user where
  "ann = \<lparr>usr_id = ''u1'', usr_email = ''Ann@acme.test'', usr_name = ''Ann''\<rparr>"

theorem directories_agree_witness:
  "permissions mem_directory_ops (fold (directory_step mem_directory_ops)
      [UpsertUser ann, SetMembership ''u1'' ''acme'' VIEWER, SetPlatformRole ''u1'' (Some SUPPORT)] mem_directory_empty) ''u1'' ''acme'' None =
   permissions sql_directory_ops (fold (directory_step sql_directory_ops)
      [UpsertUser ann, SetMembership ''u1'' ''acme'' VIEWER, SetPlatformRole ''u1'' (Some SUPPORT)] sql_directory_empty) ''u1'' ''acme'' None"
  by (rule directories_agree) (simp add: mem_directory_ops_def md_get_user_def md_set_membership_def md_upsert_user_def
      ann_def mem_directory_empty_def)

text \<open>A platform role given to a user who was never stored is lost in SQL, not in memory.\<close>

lemma unknown_staff_lost:
  "ud_platform_role mem_directory_ops ''s1'' (ud_set_platform_role mem_directory_ops ''s1'' (Some SUPPORT) mem_directory_empty) = Some SUPPORT"
  "ud_platform_role sql_directory_ops ''s1'' (ud_set_platform_role sql_directory_ops ''s1'' (Some SUPPORT) sql_directory_empty) = None"
  by code_simp+

text \<open>An email that was replaced still finds its user in memory, not in SQL.\<close>

lemma replaced_email:
  "ud_find_by_email mem_directory_ops ''ann@acme.test''
     (ud_upsert_user mem_directory_ops (ann\<lparr>usr_email := ''new@acme.test''\<rparr>) (ud_upsert_user mem_directory_ops ann mem_directory_empty)) \<noteq> None"
  "ud_find_by_email sql_directory_ops ''ann@acme.test''
     (ud_upsert_user sql_directory_ops (ann\<lparr>usr_email := ''new@acme.test''\<rparr>) (ud_upsert_user sql_directory_ops ann sql_directory_empty)) = None"
  by code_simp+

end
