(* ===== verification/Audit_Trail.thy ===== *)
theory Audit_Trail
  imports Access "HOL-Library.Sublist"
begin

text \<open>
  The audit log (\<open>rgnr8_web/audit.py\<close>): the in-memory log and the SQL log, their queries and the
  retention sweep. \<open>sql_like\<close> is SQL's \<open>LIKE\<close>; whether it folds ASCII case depends on the engine
  (sqlite does, Postgres does not), so the SQL log takes that as an argument.
\<close>

section \<open>Events\<close>

definition PROTECTED_AUDIT_PREFIXES :: "string list" where
  "PROTECTED_AUDIT_PREFIXES =
     [''close.'', ''data.'', ''membership.'', ''platform_role.'', ''support.'', ''retention.'', ''settings.'', ''integration.'']"

definition is_protected_action :: "string \<Rightarrow> bool" where
  "is_protected_action action \<longleftrightarrow> list_ex (\<lambda>pfx. starts_with pfx action) PROTECTED_AUDIT_PREFIXES"

record audit_event =
  ae_seq :: int
  ae_actor :: string
  ae_action :: string
  ae_at :: int
  ae_tenant_id :: string
  ae_account_id :: string
  ae_target :: string
  ae_detail :: string

record 'a audit_ops =
  ao_record :: "string \<Rightarrow> string \<Rightarrow> int \<Rightarrow> string \<Rightarrow> string \<Rightarrow> string \<Rightarrow> string \<Rightarrow> 'a \<Rightarrow> audit_event \<times> 'a"
  ao_events :: "string option \<Rightarrow> string option \<Rightarrow> string option \<Rightarrow> 'a \<Rightarrow> audit_event list"
  ao_purge_older_than :: "string \<Rightarrow> int \<Rightarrow> 'a \<Rightarrow> int \<times> 'a"

definition only :: "('e \<Rightarrow> string) \<Rightarrow> string option \<Rightarrow> 'e list \<Rightarrow> 'e list" where
  "only field want es = (case want of None \<Rightarrow> es | Some v \<Rightarrow> filter (\<lambda>e. field e = v) es)"

section \<open>The in-memory log\<close>

type_synonym mem_audit = "audit_event list"

definition mem_record :: "string \<Rightarrow> string \<Rightarrow> int \<Rightarrow> string \<Rightarrow> string \<Rightarrow> string \<Rightarrow> string \<Rightarrow> mem_audit \<Rightarrow> audit_event \<times> mem_audit" where
  "mem_record actor action at tenant_id account_id target detail es =
     (let ev = \<lparr>ae_seq = int (length es) + 1, ae_actor = actor, ae_action = action, ae_at = at, ae_tenant_id = tenant_id,
                ae_account_id = account_id, ae_target = target, ae_detail = detail\<rparr>
      in (ev, es @ [ev]))"

definition mem_events :: "string option \<Rightarrow> string option \<Rightarrow> string option \<Rightarrow> mem_audit \<Rightarrow> audit_event list" where
  "mem_events tenant_id account_id actor es =
     only ae_actor actor (only ae_account_id account_id (only ae_tenant_id tenant_id es))"

definition mem_purge :: "string \<Rightarrow> int \<Rightarrow> mem_audit \<Rightarrow> int \<times> mem_audit" where
  "mem_purge tenant_id before_at es =
     (let keep = filter (\<lambda>e. \<not> (ae_tenant_id e = tenant_id \<and> ae_at e < before_at \<and> \<not> is_protected_action (ae_action e))) es
      in (int (length es) - int (length keep), keep))"

definition mem_audit_ops :: "mem_audit audit_ops" where
  "mem_audit_ops = \<lparr>ao_record = mem_record, ao_events = mem_events, ao_purge_older_than = mem_purge\<rparr>"

section \<open>The SQL log\<close>

text \<open>\<open>s LIKE pattern\<close>: \<open>%\<close> is any sequence, \<open>_\<close> any one character.\<close>

fun sql_like :: "bool \<Rightarrow> string \<Rightarrow> string \<Rightarrow> bool" where
  "sql_like fold_case [] s = (s = [])"
| "sql_like fold_case (p # ps) s =
     (if p = CHR ''%'' then sql_like fold_case ps s \<or> (case s of [] \<Rightarrow> False | c # cs \<Rightarrow> sql_like fold_case (p # ps) cs)
      else (case s of [] \<Rightarrow> False
        | c # cs \<Rightarrow> (p = CHR ''_'' \<or> p = c \<or> fold_case \<and> lower_char p = lower_char c) \<and> sql_like fold_case ps cs))"

text \<open>The rows in the order of \<open>seq\<close>, and the last value the identity column has handed out.\<close>

record audit_table =
  at_last :: int
  at_rows :: "audit_event list"

definition sql_record :: "string \<Rightarrow> string \<Rightarrow> int \<Rightarrow> string \<Rightarrow> string \<Rightarrow> string \<Rightarrow> string \<Rightarrow> audit_table \<Rightarrow> audit_event \<times> audit_table" where
  "sql_record actor action at tenant_id account_id target detail t =
     (let seq = at_last t + 1;
          ev = \<lparr>ae_seq = seq, ae_actor = actor, ae_action = action, ae_at = at, ae_tenant_id = tenant_id,
                ae_account_id = account_id, ae_target = target, ae_detail = detail\<rparr>
      in (ev, \<lparr>at_last = seq, at_rows = at_rows t @ [ev]\<rparr>))"

definition sql_events :: "string option \<Rightarrow> string option \<Rightarrow> string option \<Rightarrow> audit_table \<Rightarrow> audit_event list" where
  "sql_events tenant_id account_id actor t =
     filter (\<lambda>e. (case tenant_id of None \<Rightarrow> True | Some v \<Rightarrow> ae_tenant_id e = v) \<and>
       (case account_id of None \<Rightarrow> True | Some v \<Rightarrow> ae_account_id e = v) \<and>
       (case actor of None \<Rightarrow> True | Some v \<Rightarrow> ae_actor e = v)) (at_rows t)"

definition like_protected :: "bool \<Rightarrow> string \<Rightarrow> bool" where
  "like_protected fold_case action \<longleftrightarrow> list_ex (\<lambda>pfx. sql_like fold_case (pfx @ ''%'') action) PROTECTED_AUDIT_PREFIXES"

definition sql_purge :: "bool \<Rightarrow> string \<Rightarrow> int \<Rightarrow> audit_table \<Rightarrow> int \<times> audit_table" where
  "sql_purge fold_case tenant_id before_at t =
     (let gone = (\<lambda>e. ae_tenant_id e = tenant_id \<and> ae_at e < before_at \<and> \<not> like_protected fold_case (ae_action e))
      in (int (length (filter gone (at_rows t))), t\<lparr>at_rows := filter (\<lambda>e. \<not> gone e) (at_rows t)\<rparr>))"

definition sql_audit_ops :: "bool \<Rightarrow> audit_table audit_ops" where
  "sql_audit_ops fold_case = \<lparr>ao_record = sql_record, ao_events = sql_events, ao_purge_older_than = sql_purge fold_case\<rparr>"

section \<open>What a log promises\<close>

text \<open>\<open>exempt\<close> are the actions the log's sweep spares.\<close>

locale audit_log =
  fixes ops :: "'a audit_ops" and exempt :: "string \<Rightarrow> bool" and log :: "'a \<Rightarrow> audit_event list"
  assumes exempt: "is_protected_action act \<Longrightarrow> exempt act"
    and recorded: "ao_record ops actor act at tn acc tg dt a = (e, a') \<Longrightarrow>
      log a' = log a @ [e] \<and>
      e = \<lparr>ae_seq = ae_seq e, ae_actor = actor, ae_action = act, ae_at = at, ae_tenant_id = tn, ae_account_id = acc,
           ae_target = tg, ae_detail = dt\<rparr>"
    and select: "ao_events ops tenant account by a = only ae_actor by (only ae_account_id account (only ae_tenant_id tenant (log a)))"
    and purged: "ao_purge_older_than ops tn b a = (n, a') \<Longrightarrow>
      log a' = filter (\<lambda>e. \<not> (ae_tenant_id e = tn \<and> ae_at e < b \<and> \<not> exempt (ae_action e))) (log a) \<and>
      n = int (length (log a)) - int (length (log a'))"
begin

lemma after_record:
  "log (snd (ao_record ops actor act at tn acc tg dt a)) = log a @ [fst (ao_record ops actor act at tn acc tg dt a)]"
  by (rule conjunct1 [OF recorded [OF prod.collapse [symmetric]]])

lemma recorded_action: "ae_action (fst (ao_record ops actor act at tn acc tg dt a)) = act"
  by (metis prod.collapse recorded audit_event.select_convs(3))

lemma after_purge:
  "log (snd (ao_purge_older_than ops tn b a)) =
     filter (\<lambda>e. \<not> (ae_tenant_id e = tn \<and> ae_at e < b \<and> \<not> exempt (ae_action e))) (log a)"
  by (rule conjunct1 [OF purged [OF prod.collapse [symmetric]]])

end

interpretation mem_log: audit_log mem_audit_ops is_protected_action "\<lambda>es. es"
proof unfold_locales
  show "a' = a @ [e] \<and> e = \<lparr>ae_seq = ae_seq e, ae_actor = actor, ae_action = act, ae_at = at, ae_tenant_id = tn,
      ae_account_id = acc, ae_target = tg, ae_detail = dt\<rparr>"
    if "ao_record mem_audit_ops actor act at tn acc tg dt a = (e, a')" for actor act at tn acc tg dt a e a'
    using that by (clarsimp simp: mem_audit_ops_def mem_record_def Let_def)
qed (simp_all add: mem_audit_ops_def mem_events_def mem_purge_def Let_def)

lemma sql_like_prefix: "sql_like fold_case (pfx @ ''%'') (pfx @ s)"
proof (induction pfx)
  case Nil
  show ?case by (induction s) simp_all
next
  case (Cons p ps)
  then show ?case by (cases "p = CHR ''%''") auto
qed

lemma protected_like: "is_protected_action act \<Longrightarrow> like_protected fold_case act"
  unfolding is_protected_action_def like_protected_def list_ex_iff
  by (metis starts_withD sql_like_prefix)

interpretation sql_log: audit_log "sql_audit_ops fold_case" "like_protected fold_case" at_rows for fold_case
proof unfold_locales
  show "like_protected fold_case act" if "is_protected_action act" for act fold_case
    using that by (rule protected_like)
next
  fix fold_case tn b a n a'
  assume "ao_purge_older_than (sql_audit_ops fold_case) tn b a = (n, a')"
  then have n: "n = int (length (filter (\<lambda>e. ae_tenant_id e = tn \<and> ae_at e < b \<and> \<not> like_protected fold_case (ae_action e)) (at_rows a)))"
    and a': "at_rows a' = filter (\<lambda>e. \<not> (ae_tenant_id e = tn \<and> ae_at e < b \<and> \<not> like_protected fold_case (ae_action e))) (at_rows a)"
    by (auto simp: sql_audit_ops_def sql_purge_def Let_def)
  show "at_rows a' = filter (\<lambda>e. \<not> (ae_tenant_id e = tn \<and> ae_at e < b \<and> \<not> like_protected fold_case (ae_action e))) (at_rows a) \<and>
      n = int (length (at_rows a)) - int (length (at_rows a'))"
    using sum_length_filter_compl [of "\<lambda>e. ae_tenant_id e = tn \<and> ae_at e < b \<and> \<not> like_protected fold_case (ae_action e)" "at_rows a"]
    unfolding n a' by simp
next
  show "at_rows a' = at_rows a @ [e] \<and> e = \<lparr>ae_seq = ae_seq e, ae_actor = actor, ae_action = act, ae_at = at,
      ae_tenant_id = tn, ae_account_id = acc, ae_target = tg, ae_detail = dt\<rparr>"
    if "ao_record (sql_audit_ops fold_case) actor act at tn acc tg dt a = (e, a')"
    for fold_case actor act at tn acc tg dt a e a'
    using that by (clarsimp simp: sql_audit_ops_def sql_record_def Let_def)
qed (simp add: sql_audit_ops_def sql_events_def only_def conj_commute split: option.split)

section \<open>Histories\<close>

datatype audit_call =
    Record string string int string string string string
  | Purge string int

text \<open>The log after a history, and the events it has recorded on the way.\<close>

fun audit_run :: "'a audit_ops \<Rightarrow> audit_call list \<Rightarrow> 'a \<Rightarrow> audit_event list \<times> 'a" where
  "audit_run ops [] a = ([], a)"
| "audit_run ops (Record actor act at tn acc tg dt # cs) a =
     (case ao_record ops actor act at tn acc tg dt a of
        (e, a') \<Rightarrow> (case audit_run ops cs a' of (es, a'') \<Rightarrow> (e # es, a'')))"
| "audit_run ops (Purge tn b # cs) a = audit_run ops cs (snd (ao_purge_older_than ops tn b a))"

context audit_log
begin

text \<open>The log is what was recorded, in order, less rows a sweep removed; what the sweep spares is all there.\<close>

lemma run_log:
  "subseq (log (snd (audit_run ops cs a))) (log a @ fst (audit_run ops cs a)) \<and>
   filter (\<lambda>e. exempt (ae_action e)) (log (snd (audit_run ops cs a))) =
     filter (\<lambda>e. exempt (ae_action e)) (log a @ fst (audit_run ops cs a))"
proof (induction cs arbitrary: a)
  case (Cons c cs)
  show ?case
  proof (cases c)
    case (Record actor act at tn acc tg dt)
    then show ?thesis
      using Cons [of "snd (ao_record ops actor act at tn acc tg dt a)"]
      by (simp add: case_prod_beta after_record)
  next
    case (Purge tn b)
    define a' where "a' = snd (ao_purge_older_than ops tn b a)"
    have a': "log a' = filter (\<lambda>e. \<not> (ae_tenant_id e = tn \<and> ae_at e < b \<and> \<not> exempt (ae_action e))) (log a)"
      by (simp add: a'_def after_purge)
    then have "subseq (log a' @ fst (audit_run ops cs a')) (log a @ fst (audit_run ops cs a'))"
      by (simp add: list_emb_append_mono)
    moreover have "filter (\<lambda>e. exempt (ae_action e)) (log a') = filter (\<lambda>e. exempt (ae_action e)) (log a)"
      by (auto simp: a' intro: filter_cong)
    ultimately show ?thesis
      using Cons [of a'] by (auto simp: Purge a'_def intro: subseq_order.trans)
  qed
qed simp

lemma evidence_kept:
  assumes "e \<in> set (fst (audit_run ops cs a))" "is_protected_action (ae_action e)"
  shows "e \<in> set (log (snd (audit_run ops cs a)))"
proof -
  have "e \<in> set (filter (\<lambda>e. exempt (ae_action e)) (log (snd (audit_run ops cs a))))"
    using assms exempt run_log [of cs a] by (simp only:) auto
  then show ?thesis by simp
qed

text \<open>An event leaves the log only by a sweep of its own tenant that names a later time.\<close>

lemma only_swept:
  "e \<in> set (log a @ fst (audit_run ops cs a)) \<Longrightarrow> e \<notin> set (log (snd (audit_run ops cs a))) \<Longrightarrow>
     \<exists>b. Purge (ae_tenant_id e) b \<in> set cs \<and> ae_at e < b"
proof (induction cs arbitrary: a)
  case (Cons c cs)
  show ?case
  proof (cases c)
    case (Record actor act at tn acc tg dt)
    then show ?thesis
      using Cons.IH [of "snd (ao_record ops actor act at tn acc tg dt a)"] Cons.prems
      by (auto simp: case_prod_beta after_record)
  next
    case (Purge tn b)
    then show ?thesis
      using Cons.IH [of "snd (ao_purge_older_than ops tn b a)"] Cons.prems by (auto simp: after_purge)
  qed
qed simp

end

lemma sql_run_seqs:
  "map ae_seq (fst (audit_run (sql_audit_ops f) cs t)) = [at_last t + 1 .. at_last t + int (length (fst (audit_run (sql_audit_ops f) cs t)))]"
proof (induction cs arbitrary: t)
  case (Cons c cs)
  show ?case
  proof (cases c)
    case (Record actor act at tn acc tg dt)
    then show ?thesis
      using Cons [of "snd (ao_record (sql_audit_ops f) actor act at tn acc tg dt t)"]
      by (simp add: case_prod_beta sql_audit_ops_def sql_record_def Let_def upto_rec1 [of "1 + at_last t"] ac_simps)
  next
    case (Purge tn b)
    then show ?thesis
      using Cons [of "snd (sql_purge f tn b t)"] by (simp add: sql_audit_ops_def sql_purge_def Let_def)
  qed
qed simp

section \<open>Properties\<close>

text \<open>C18. Neither log loses evidence: after any history of records and sweeps the log holds a part of the events
  recorded, in their order, every protected one among them; an event is gone only by a sweep of its own
  tenant that names a later time. In SQL every event has the next sequence number.\<close>

theorem audit_evidence_kept:
  fixes cs :: "audit_call list" and fold_case :: bool
  defines "m \<equiv> audit_run mem_audit_ops cs []" and "s \<equiv> audit_run (sql_audit_ops fold_case) cs \<lparr>at_last = 0, at_rows = []\<rparr>"
  shows "(\<forall>(recorded, log) \<in> {m, (fst s, at_rows (snd s))}. subseq log recorded \<and>
      (\<forall>e \<in> set recorded. e \<in> set log \<or>
         \<not> is_protected_action (ae_action e) \<and> (\<exists>b. Purge (ae_tenant_id e) b \<in> set cs \<and> ae_at e < b))) \<and>
    map ae_seq (fst s) = [1 .. int (length (fst s))]"
  using mem_log.run_log [of cs "[]"] sql_log.run_log [of fold_case cs "\<lparr>at_last = 0, at_rows = []\<rparr>"]
    mem_log.evidence_kept [of _ cs "[]"] sql_log.evidence_kept [of _ fold_case cs "\<lparr>at_last = 0, at_rows = []\<rparr>"]
    mem_log.only_swept [of _ "[]" cs] sql_log.only_swept [of _ "\<lparr>at_last = 0, at_rows = []\<rparr>" fold_case cs]
    sql_run_seqs [of fold_case cs "\<lparr>at_last = 0, at_rows = []\<rparr>"]
  by (auto simp: m_def s_def)

definition example_history :: "audit_call list" where
  "example_history =
     [Record ''ann'' ''membership.set'' 10 ''t'' [] ''bob'' ''viewer'', Record ''bob'' ''report.viewed'' 20 ''t'' [] [] [],
      Purge ''t'' 100, Record ''cy'' ''close.sealed'' 120 ''t'' [] [] []]"

theorem audit_evidence_kept_witness:
  "map ae_action (snd (audit_run mem_audit_ops example_history [])) = [''membership.set'', ''close.sealed''] \<and>
   subseq (snd (audit_run mem_audit_ops example_history [])) (fst (audit_run mem_audit_ops example_history []))"
proof
  show "map ae_action (snd (audit_run mem_audit_ops example_history [])) = [''membership.set'', ''close.sealed'']" by code_simp
  show "subseq (snd (audit_run mem_audit_ops example_history [])) (fst (audit_run mem_audit_ops example_history []))"
    using audit_evidence_kept [of example_history True] by (simp add: case_prod_beta)
qed

text \<open>In memory the number is the length of the log plus one, so a sweep makes numbers repeat.\<close>

lemma memory_seq_repeats:
  "map ae_seq (snd (audit_run mem_audit_ops (Record ''ann'' ''login'' 1 ''u'' [] [] [] # example_history @ [Purge ''u'' 9]) [])) = [2, 3]"
  "map ae_seq (fst (audit_run mem_audit_ops example_history [])) = [1, 2, 2]"
  by code_simp+

text \<open>Where \<open>LIKE\<close> folds case and reads \<open>_\<close> as any character, SQL spares more than the predicate does.\<close>

lemma sql_spares_more:
  "like_protected True ''CLOSE.draft''" "\<not> is_protected_action ''CLOSE.draft''"
  "like_protected False ''platform-role.x''" "\<not> is_protected_action ''platform-role.x''"
  by code_simp+

end
