(* ===== verification/Single_Use.thy ===== *)
theory Single_Use
  imports Prelude
begin

text \<open>
  Tokens that may be redeemed once: what the invitations and the verification tokens of the web
  application have in common. A call may mint a token, and it may redeem one; the step says
  whether it did.
\<close>

text \<open>How often \<open>t\<close> is minted and redeemed along a sequence of calls.\<close>

definition mint_count :: "('c \<Rightarrow> string option) \<Rightarrow> string \<Rightarrow> 'c list \<Rightarrow> nat" where
  "mint_count mints t cs = length (filter (\<lambda>c. mints c = Some t) cs)"

primrec redeem_count :: "('c \<Rightarrow> 's \<Rightarrow> bool \<times> 's) \<Rightarrow> ('c \<Rightarrow> string option) \<Rightarrow> string \<Rightarrow> 'c list \<Rightarrow> 's \<Rightarrow> nat" where
  "redeem_count step redeems t [] s = 0"
| "redeem_count step redeems t (c # cs) s =
     (if fst (step c s) \<and> redeems c = Some t then 1 else 0) + redeem_count step redeems t cs (snd (step c s))"

locale single_use =
  fixes step :: "'c \<Rightarrow> 's \<Rightarrow> bool \<times> 's"
    and mints :: "'c \<Rightarrow> string option" and redeems :: "'c \<Rightarrow> string option"
    and known :: "'s \<Rightarrow> string \<Rightarrow> bool" and spent :: "'s \<Rightarrow> string \<Rightarrow> bool"
    and ok :: "'s \<Rightarrow> bool"
  assumes ok_step: "ok s \<Longrightarrow> ok (snd (step c s))"
    and redeem_known: "ok s \<Longrightarrow> fst (step c s) \<Longrightarrow> redeems c = Some t \<Longrightarrow>
      known s t \<and> \<not> spent s t \<and> spent (snd (step c s)) t"
    and stays_unknown: "ok s \<Longrightarrow> \<not> known s t \<Longrightarrow> mints c \<noteq> Some t \<Longrightarrow> \<not> known (snd (step c s)) t"
    and stays_spent: "ok s \<Longrightarrow> spent s t \<Longrightarrow> mints c \<noteq> Some t \<Longrightarrow> spent (snd (step c s)) t"
    and mint_or_redeem: "mints c = None \<or> redeems c = None"
begin

lemma spent_not_redeemed: "ok s \<Longrightarrow> spent s t \<Longrightarrow> mint_count mints t cs = 0 \<Longrightarrow> redeem_count step redeems t cs s = 0"
proof (induction cs arbitrary: s)
  case (Cons c cs)
  then have "mints c \<noteq> Some t" "mint_count mints t cs = 0" by (auto simp: mint_count_def split: if_splits)
  with Cons show ?case using redeem_known [of s c t] by (auto simp: ok_step stays_spent)
qed (simp add: mint_count_def)

lemma redeemed_once_known: "ok s \<Longrightarrow> mint_count mints t cs = 0 \<Longrightarrow> redeem_count step redeems t cs s \<le> 1"
proof (induction cs arbitrary: s)
  case (Cons c cs)
  then have rest: "mint_count mints t cs = 0" by (auto simp: mint_count_def split: if_splits)
  show ?case
  proof (cases "fst (step c s) \<and> redeems c = Some t")
    case True
    then have "redeem_count step redeems t cs (snd (step c s)) = 0"
      using spent_not_redeemed [OF ok_step _ rest, of s c] redeem_known [of s c t] Cons.prems(1) by blast
    with True show ?thesis by simp
  next
    case False
    then show ?thesis using Cons.IH [OF ok_step rest] Cons.prems(1) by auto
  qed
qed simp

lemma redeemed_once: "ok s \<Longrightarrow> \<not> known s t \<Longrightarrow> mint_count mints t cs \<le> 1 \<Longrightarrow> redeem_count step redeems t cs s \<le> 1"
proof (induction cs arbitrary: s)
  case (Cons c cs)
  show ?case
  proof (cases "mints c = Some t")
    case True
    then have "mint_count mints t cs = 0" using Cons.prems(3) by (simp add: mint_count_def)
    then show ?thesis using redeemed_once_known [OF ok_step, of s t cs c] True mint_or_redeem [of c] Cons.prems(1) by auto
  next
    case False
    then have "mint_count mints t cs \<le> 1" "\<not> known (snd (step c s)) t"
      using Cons.prems by (simp_all add: mint_count_def stays_unknown)
    moreover have "\<not> (fst (step c s) \<and> redeems c = Some t)"
      using redeem_known [of s c t] Cons.prems(1,2) by blast
    ultimately show ?thesis using Cons.IH [OF ok_step] Cons.prems(1) by auto
  qed
qed simp

end

end
