(* ===== verification/Invitations.thy ===== *)
theory Invitations
  imports Directory_Sql Audit_Trail Single_Use
begin

text \<open>
  Team invitations (\<open>rgnr8_web/invitations.py\<close>): the two stores and the service on top of a user
  directory, a store and an optional audit log. The clock reading and the minted token are arguments
  of the operations that read them.
\<close>

section \<open>Invitations and their stores\<close>

datatype invitation_status = INV_PENDING | INV_ACCEPTED | INV_REVOKED | INV_EXPIRED

fun inv_status_value :: "invitation_status \<Rightarrow> string" where
  "inv_status_value INV_PENDING = ''pending''"
| "inv_status_value INV_ACCEPTED = ''accepted''"
| "inv_status_value INV_REVOKED = ''revoked''"
| "inv_status_value INV_EXPIRED = ''expired''"

record invitation =
  inv_token :: string
  inv_email :: string
  inv_tenant_id :: string
  inv_role :: role
  inv_invited_by :: string
  inv_status :: invitation_status
  inv_created_at :: int
  inv_expires_at :: int

definition inv_is_expired :: "invitation \<Rightarrow> int \<Rightarrow> bool" where
  "inv_is_expired iv now \<longleftrightarrow> inv_expires_at iv \<noteq> 0 \<and> inv_expires_at iv \<le> now"

record 'i inv_store_ops =
  io_save :: "invitation \<Rightarrow> 'i \<Rightarrow> 'i"
  io_get :: "string \<Rightarrow> 'i \<Rightarrow> invitation option"
  io_list_for_tenant :: "string \<Rightarrow> 'i \<Rightarrow> invitation list"

type_synonym invitations = "(string \<times> invitation) list"

definition list_invitations :: "string \<Rightarrow> invitations \<Rightarrow> invitation list" where
  "list_invitations tenant_id s = filter (\<lambda>i. inv_tenant_id i = tenant_id) (map snd s)"

definition mem_inv_store :: "invitations inv_store_ops" where
  "mem_inv_store =
     \<lparr>io_save = (\<lambda>iv. AList.update (inv_token iv) iv), io_get = (\<lambda>token s. map_of s token),
      io_list_for_tenant = list_invitations\<rparr>"

text \<open>The table: its primary key is the token. \<open>ON CONFLICT (token) DO UPDATE SET status\<close>.\<close>

definition upsert_invitation :: "invitation \<Rightarrow> invitations \<Rightarrow> invitations" where
  "upsert_invitation iv s =
     (case map_of s (inv_token iv) of
        None \<Rightarrow> s @ [(inv_token iv, iv)]
      | Some old \<Rightarrow> AList.update (inv_token iv) (old\<lparr>inv_status := inv_status iv\<rparr>) s)"

definition sql_inv_store :: "invitations inv_store_ops" where
  "sql_inv_store =
     \<lparr>io_save = upsert_invitation, io_get = (\<lambda>token s. map_of s token), io_list_for_tenant = list_invitations\<rparr>"

section \<open>The service\<close>

datatype invitation_error = InvitationError string

record ('d, 'i, 'a) invitation_service =
  is_dir :: "'d directory_ops"
  is_store :: "'i inv_store_ops"
  is_audit :: "'a audit_ops option"
  is_ttl_days :: int

record ('d, 'i, 'a) invite_world =
  iw_dir :: 'd
  iw_store :: 'i
  iw_audit :: 'a

definition INV_DAY :: int where
  "INV_DAY = 86400"

text \<open>\<open>if self._audit is not None: self._audit.record(...)\<close>\<close>

definition note_event :: "'a audit_ops option \<Rightarrow> string \<Rightarrow> string \<Rightarrow> int \<Rightarrow> string \<Rightarrow> string \<Rightarrow> string \<Rightarrow> 'a \<Rightarrow> 'a" where
  "note_event audit actor action at tenant_id target detail a =
     (case audit of None \<Rightarrow> a
      | Some ops \<Rightarrow> snd (ao_record ops actor action at tenant_id [] target detail a))"

definition invite ::
  "('d, 'i, 'a) invitation_service \<Rightarrow> string \<Rightarrow> string \<Rightarrow> role \<Rightarrow> string \<Rightarrow> int \<Rightarrow> string \<Rightarrow>
   ('d, 'i, 'a) invite_world \<Rightarrow> (invitation_error + invitation) \<times> ('d, 'i, 'a) invite_world" where
  "invite svc email tenant_id role invited_by now token w =
     (if \<not> List.member email CHR ''@'' then (Inl (InvitationError ''a valid email is required''), w)
      else if is_platform role then (Inl (InvitationError ''platform roles are not invitable per-business''), w)
      else
        let iv = \<lparr>inv_token = token, inv_email = email, inv_tenant_id = tenant_id, inv_role = role,
                   inv_invited_by = invited_by, inv_status = INV_PENDING, inv_created_at = now,
                   inv_expires_at = now + is_ttl_days svc * INV_DAY\<rparr>
        in (Inr iv, w\<lparr>iw_store := io_save (is_store svc) iv (iw_store w),
              iw_audit := note_event (is_audit svc) invited_by ''invite.created'' now tenant_id email (role_value role) (iw_audit w)\<rparr>))"

definition preview :: "('d, 'i, 'a) invitation_service \<Rightarrow> string \<Rightarrow> int \<Rightarrow> ('d, 'i, 'a) invite_world \<Rightarrow> invitation_error + invitation" where
  "preview svc token now w =
     (case io_get (is_store svc) token (iw_store w) of
        None \<Rightarrow> Inl (InvitationError ''unknown invitation'')
      | Some iv \<Rightarrow>
          if inv_status iv \<noteq> INV_PENDING then Inl (InvitationError (''invitation is '' @ inv_status_value (inv_status iv)))
          else if inv_is_expired iv now then Inl (InvitationError ''invitation has expired'')
          else Inr iv)"

definition accept ::
  "('d, 'i, 'a) invitation_service \<Rightarrow> string \<Rightarrow> string \<Rightarrow> int \<Rightarrow> ('d, 'i, 'a) invite_world \<Rightarrow>
   (invitation_error + membership) \<times> ('d, 'i, 'a) invite_world" where
  "accept svc token name now w =
     (case io_get (is_store svc) token (iw_store w) of
        None \<Rightarrow> (Inl (InvitationError ''unknown invitation''), w)
      | Some iv \<Rightarrow>
          if inv_status iv \<noteq> INV_PENDING then (Inl (InvitationError (''invitation is '' @ inv_status_value (inv_status iv))), w)
          else if inv_is_expired iv now then
            (Inl (InvitationError ''invitation has expired''),
             w\<lparr>iw_store := io_save (is_store svc) (iv\<lparr>inv_status := INV_EXPIRED\<rparr>) (iw_store w)\<rparr>)
          else
            let found = ud_find_by_email (is_dir svc) (inv_email iv) (iw_dir w);
                user = (case found of Some u \<Rightarrow> u | None \<Rightarrow> \<lparr>usr_id = inv_email iv, usr_email = inv_email iv, usr_name = name\<rparr>);
                d = (case found of Some u \<Rightarrow> iw_dir w | None \<Rightarrow> ud_upsert_user (is_dir svc) user (iw_dir w))
            in (Inr \<lparr>mb_user_id = usr_id user, mb_tenant_id = inv_tenant_id iv, mb_role = inv_role iv\<rparr>,
                w\<lparr>iw_dir := ud_set_membership (is_dir svc) (usr_id user) (inv_tenant_id iv) (inv_role iv) d,
                  iw_store := io_save (is_store svc) (iv\<lparr>inv_status := INV_ACCEPTED\<rparr>) (iw_store w),
                  iw_audit := note_event (is_audit svc) (usr_id user) ''membership.set'' now (inv_tenant_id iv) (usr_id user)
                    (role_value (inv_role iv)) (iw_audit w)\<rparr>))"

definition revoke ::
  "('d, 'i, 'a) invitation_service \<Rightarrow> string \<Rightarrow> string \<Rightarrow> int \<Rightarrow> ('d, 'i, 'a) invite_world \<Rightarrow>
   (invitation_error + invitation) \<times> ('d, 'i, 'a) invite_world" where
  "revoke svc token revoked_by now w =
     (case io_get (is_store svc) token (iw_store w) of
        None \<Rightarrow> (Inl (InvitationError ''unknown invitation''), w)
      | Some iv \<Rightarrow>
          let updated = iv\<lparr>inv_status := INV_REVOKED\<rparr>
          in (Inr updated, w\<lparr>iw_store := io_save (is_store svc) updated (iw_store w),
                iw_audit := note_event (is_audit svc) revoked_by ''invite.revoked'' now (inv_tenant_id iv) (inv_email iv) [] (iw_audit w)\<rparr>))"

definition pending_for :: "('d, 'i, 'a) invitation_service \<Rightarrow> string \<Rightarrow> ('d, 'i, 'a) invite_world \<Rightarrow> invitation list" where
  "pending_for svc tenant_id w =
     filter (\<lambda>i. inv_status i = INV_PENDING) (io_list_for_tenant (is_store svc) tenant_id (iw_store w))"

section \<open>What a store promises\<close>

text \<open>Both stores agree as long as a token is saved anew or only its status changes, which is all the
  service does when no token is minted twice.\<close>

locale invitation_store =
  fixes ops :: "'i inv_store_ops" and ok :: "'i \<Rightarrow> bool"
  assumes ok_save: "ok s \<Longrightarrow> ok (io_save ops i s)"
    and get_token: "ok s \<Longrightarrow> io_get ops t s = Some i \<Longrightarrow> inv_token i = t"
    and get_new: "ok s \<Longrightarrow> io_get ops (inv_token i) s = None \<Longrightarrow> io_get ops (inv_token i) (io_save ops i s) = Some i"
    and get_status: "ok s \<Longrightarrow> io_get ops (inv_token i) s = Some i \<Longrightarrow>
      io_get ops (inv_token i) (io_save ops (i\<lparr>inv_status := st\<rparr>) s) = Some (i\<lparr>inv_status := st\<rparr>)"
    and get_other: "ok s \<Longrightarrow> t \<noteq> inv_token i \<Longrightarrow> io_get ops t (io_save ops i s) = io_get ops t s"
    and listed: "ok s \<Longrightarrow> set (io_list_for_tenant ops tn s) = {i. io_get ops (inv_token i) s = Some i \<and> inv_tenant_id i = tn}"
begin

text \<open>One call of the service that may change the status of an invitation.\<close>

lemma get_after_status:
  "ok s \<Longrightarrow> io_get ops t s = Some i \<Longrightarrow>
     io_get ops t' (io_save ops (i\<lparr>inv_status := st\<rparr>) s) = (if t' = t then Some (i\<lparr>inv_status := st\<rparr>) else io_get ops t' s)"
  using get_token [of s t i] get_status [of s i st] get_other [of s t' "i\<lparr>inv_status := st\<rparr>"] by auto

end

definition invitations_ok :: "invitations \<Rightarrow> bool" where
  "invitations_ok s \<longleftrightarrow> distinct (map fst s) \<and> list_all (\<lambda>(k, i). inv_token i = k) s"

lemma invitations_ok_get: "invitations_ok s \<Longrightarrow> map_of s t = Some i \<Longrightarrow> inv_token i = t"
  by (auto simp: invitations_ok_def list_all_iff dest: map_of_SomeD)

lemma invitations_listed:
  assumes "invitations_ok s"
  shows "set (list_invitations tn s) = {i. map_of s (inv_token i) = Some i \<and> inv_tenant_id i = tn}"
proof -
  have mem: "(k, i) \<in> set s \<longleftrightarrow> map_of s k = Some i" for k i using assms by (simp add: invitations_ok_def)
  have "i \<in> snd ` set s \<longleftrightarrow> map_of s (inv_token i) = Some i" for i
  proof
    assume "i \<in> snd ` set s"
    then obtain k where "map_of s k = Some i" by (auto simp: mem)
    then show "map_of s (inv_token i) = Some i" using invitations_ok_get [OF assms] by blast
  next
    assume "map_of s (inv_token i) = Some i"
    then have "(inv_token i, i) \<in> set s" by (simp add: mem)
    then show "i \<in> snd ` set s" by force
  qed
  then show ?thesis by (auto simp: list_invitations_def)
qed

lemma upsert_invitation_ok: "invitations_ok s \<Longrightarrow> invitations_ok (upsert_invitation i s)"
  using map_of_eq_None_iff [of s "inv_token i"]
  by (auto simp: invitations_ok_def upsert_invitation_def distinct_update
      intro!: list_all_update dest: map_of_SomeD split: option.split)
    (auto simp: list_all_iff dest: map_of_SomeD)

lemma update_invitation_ok: "invitations_ok s \<Longrightarrow> invitations_ok (AList.update (inv_token i) i s)"
  by (simp add: invitations_ok_def distinct_update list_all_update)

interpretation mem_invs: invitation_store mem_inv_store invitations_ok
proof unfold_locales
  fix s :: invitations and t i
  assume s: "invitations_ok s"
  show "invitations_ok (io_save mem_inv_store i s)" using s by (simp add: mem_inv_store_def update_invitation_ok)
  show "inv_token i = t" if "io_get mem_inv_store t s = Some i"
    using invitations_ok_get [OF s] that by (simp add: mem_inv_store_def)
  show "set (io_list_for_tenant mem_inv_store tn s) = {i. io_get mem_inv_store (inv_token i) s = Some i \<and> inv_tenant_id i = tn}" for tn
    using invitations_listed [OF s] by (simp add: mem_inv_store_def)
qed (simp_all add: mem_inv_store_def update_conv')

interpretation sql_invs: invitation_store sql_inv_store invitations_ok
proof unfold_locales
  fix s :: invitations and t i
  assume s: "invitations_ok s"
  show "invitations_ok (io_save sql_inv_store i s)" using s by (simp add: sql_inv_store_def upsert_invitation_ok)
  show "inv_token i = t" if "io_get sql_inv_store t s = Some i"
    using invitations_ok_get [OF s] that by (simp add: sql_inv_store_def)
  show "set (io_list_for_tenant sql_inv_store tn s) = {i. io_get sql_inv_store (inv_token i) s = Some i \<and> inv_tenant_id i = tn}" for tn
    using invitations_listed [OF s] by (simp add: sql_inv_store_def)
qed (simp_all add: sql_inv_store_def upsert_invitation_def update_conv' map_add_def split: option.splits)

section \<open>Calls of the service\<close>

datatype invite_call =
    InviteCall string string role string int string
  | AcceptCall string string int
  | RevokeCall string string int

definition did :: "('e + 'x) \<times> 'w \<Rightarrow> bool \<times> 'w" where
  "did r = (case r of (Inl _, w) \<Rightarrow> (False, w) | (Inr _, w) \<Rightarrow> (True, w))"

primrec invite_step ::
  "('d, 'i, 'a) invitation_service \<Rightarrow> invite_call \<Rightarrow> ('d, 'i, 'a) invite_world \<Rightarrow> bool \<times> ('d, 'i, 'a) invite_world" where
  "invite_step svc (InviteCall email tn r by now token) w = did (invite svc email tn r by now token w)"
| "invite_step svc (AcceptCall token name now) w = did (accept svc token name now w)"
| "invite_step svc (RevokeCall token by now) w = did (revoke svc token by now w)"

fun invite_mints :: "invite_call \<Rightarrow> string option" where
  "invite_mints (InviteCall email tn r by now token) = Some token"
| "invite_mints c = None"

fun invite_redeems :: "invite_call \<Rightarrow> string option" where
  "invite_redeems (AcceptCall token name now) = Some token"
| "invite_redeems c = None"

text \<open>A service over a directory, a store and an audit log.\<close>

definition invites :: "'d directory_ops \<Rightarrow> 'i inv_store_ops \<Rightarrow> 'a audit_ops option \<Rightarrow> int \<Rightarrow> ('d, 'i, 'a) invitation_service" where
  "invites dir store audit ttl = \<lparr>is_dir = dir, is_store = store, is_audit = audit, is_ttl_days = ttl\<rparr>"

context invitation_store
begin

definition known :: "('d, 'i, 'a) invite_world \<Rightarrow> string \<Rightarrow> bool" where
  "known w t \<longleftrightarrow> io_get ops t (iw_store w) \<noteq> None"

definition spent :: "('d, 'i, 'a) invite_world \<Rightarrow> string \<Rightarrow> bool" where
  "spent w t \<longleftrightarrow> (\<exists>i. io_get ops t (iw_store w) = Some i \<and> inv_status i \<noteq> INV_PENDING)"

text \<open>What one call does to the store.\<close>

lemma step_store:
  assumes "ok (iw_store w)"
  obtains (same) "iw_store (snd (invite_step (invites dir ops audit ttl) c w)) = iw_store w"
      "\<And>t. invite_redeems c = Some t \<Longrightarrow> \<not> fst (invite_step (invites dir ops audit ttl) c w)"
    | (new) i where "invite_mints c = Some (inv_token i)" "inv_status i = INV_PENDING"
        "iw_store (snd (invite_step (invites dir ops audit ttl) c w)) = io_save ops i (iw_store w)"
    | (status) i t st where "io_get ops t (iw_store w) = Some i" "st \<noteq> INV_PENDING"
        "iw_store (snd (invite_step (invites dir ops audit ttl) c w)) = io_save ops (i\<lparr>inv_status := st\<rparr>) (iw_store w)"
        "\<And>t'. fst (invite_step (invites dir ops audit ttl) c w) \<Longrightarrow> invite_redeems c = Some t' \<Longrightarrow> t' = t \<and> inv_status i = INV_PENDING"
proof (cases c)
  case (InviteCall email tn r who now token)
  show ?thesis
  proof (cases "List.member email CHR ''@'' \<and> \<not> is_platform r")
    case True
    then show ?thesis
      using InviteCall new [of "\<lparr>inv_token = token, inv_email = email, inv_tenant_id = tn, inv_role = r, inv_invited_by = who,
        inv_status = INV_PENDING, inv_created_at = now, inv_expires_at = now + ttl * INV_DAY\<rparr>"]
      by (simp add: invite_def did_def invites_def Let_def)
  next
    case False
    then show ?thesis using same InviteCall by (auto simp: invite_def did_def invites_def)
  qed
next
  case (AcceptCall token name now)
  show ?thesis
  proof (cases "io_get ops token (iw_store w)")
    case None
    then show ?thesis using same AcceptCall by (simp add: accept_def did_def invites_def)
  next
    case (Some i)
    consider "inv_status i \<noteq> INV_PENDING" | "inv_status i = INV_PENDING" "inv_is_expired i now"
      | "inv_status i = INV_PENDING" "\<not> inv_is_expired i now" by blast
    then show ?thesis
    proof cases
      case 1
      with Some AcceptCall show ?thesis by (intro same) (simp_all add: accept_def did_def invites_def)
    next
      case 2
      with Some AcceptCall show ?thesis
        by (intro status [of token i INV_EXPIRED]) (simp_all add: accept_def did_def invites_def)
    next
      case 3
      with Some AcceptCall show ?thesis
        by (intro status [of token i INV_ACCEPTED]) (simp_all add: accept_def did_def invites_def Let_def)
    qed
  qed
next
  case (RevokeCall token who now)
  show ?thesis
  proof (cases "io_get ops token (iw_store w)")
    case None
    with RevokeCall show ?thesis by (intro same) (simp_all add: revoke_def did_def invites_def)
  next
    case (Some i)
    with RevokeCall show ?thesis
      by (intro status [of token i INV_REVOKED]) (simp_all add: revoke_def did_def invites_def Let_def)
  qed
qed

lemma tokens: "single_use (invite_step (invites dir ops audit ttl)) invite_mints invite_redeems known spent (\<lambda>w. ok (iw_store w))"
proof unfold_locales
  fix w :: "('a, 'i, 'b) invite_world" and c t
  assume ok: "ok (iw_store w)"
  let ?w = "snd (invite_step (invites dir ops audit ttl) c w)"
  show "ok (iw_store ?w)" by (rule step_store [OF ok, of dir audit ttl c]) (simp_all add: ok ok_save)
  show "known w t \<and> \<not> spent w t \<and> spent ?w t" if "fst (invite_step (invites dir ops audit ttl) c w)" "invite_redeems c = Some t"
    by (rule step_store [OF ok, of dir audit ttl c])
      (use that in \<open>auto simp: known_def spent_def get_after_status [OF ok] split: if_splits elim: invite_redeems.elims\<close>)
  show "\<not> known ?w t" if "\<not> known w t" "invite_mints c \<noteq> Some t"
    by (rule step_store [OF ok, of dir audit ttl c])
      (use that in \<open>auto simp: known_def get_after_status [OF ok] get_other [OF ok] split: if_splits\<close>)
  show "spent ?w t" if "spent w t" "invite_mints c \<noteq> Some t"
    by (rule step_store [OF ok, of dir audit ttl c])
      (use that in \<open>auto simp: spent_def get_after_status [OF ok] get_other [OF ok] split: if_splits\<close>)
next
  show "invite_mints c = None \<or> invite_redeems c = None" for c by (cases c) simp_all
qed

end

interpretation mem_inv_tokens: single_use "invite_step (invites dir mem_inv_store audit ttl)" invite_mints invite_redeems
  mem_invs.known mem_invs.spent "\<lambda>w. invitations_ok (iw_store w)" for dir audit ttl
  by (rule mem_invs.tokens)

interpretation sql_inv_tokens: single_use "invite_step (invites dir sql_inv_store audit ttl)" invite_mints invite_redeems
  sql_invs.known sql_invs.spent "\<lambda>w. invitations_ok (iw_store w)" for dir audit ttl
  by (rule sql_invs.tokens)

lemma no_invitations:
  "\<not> mem_invs.known \<lparr>iw_dir = d, iw_store = [], iw_audit = a\<rparr> t" "\<not> sql_invs.known \<lparr>iw_dir = d, iw_store = [], iw_audit = a\<rparr> t"
  unfolding mem_invs.known_def sql_invs.known_def by (simp_all add: mem_inv_store_def sql_inv_store_def)

text \<open>What accepting does to an SQL directory and to the pending invitations.\<close>

lemma accept_sql:
  assumes ok: "sql_directory_ok (iw_dir w)"
    and run: "accept (invites sql_directory_ops sql_inv_store audit ttl) token name now w = (r, w')"
  shows "case r of
      Inl e \<Rightarrow> iw_dir w' = iw_dir w \<and> iw_audit w' = iw_audit w
    | Inr m \<Rightarrow> \<exists>i. map_of (iw_store w) token = Some i \<and> inv_status i = INV_PENDING \<and> \<not> inv_is_expired i now \<and>
        m = \<lparr>mb_user_id = mb_user_id m, mb_tenant_id = inv_tenant_id i, mb_role = inv_role i\<rparr> \<and> sql_directory_ok (iw_dir w') \<and>
        (\<exists>u. sd_get_user (mb_user_id m) (iw_dir w') = Some u \<and> lower (usr_email u) = lower (inv_email i)) \<and>
        (\<forall>j t. sd_membership j t (iw_dir w') = (if j = mb_user_id m \<and> t = inv_tenant_id i then Some m else sd_membership j t (iw_dir w))) \<and>
        (\<forall>j. sd_platform_role j (iw_dir w') = sd_platform_role j (iw_dir w)) \<and>
        iw_audit w' = note_event audit (mb_user_id m) ''membership.set'' now (inv_tenant_id i) (mb_user_id m) (role_value (inv_role i)) (iw_audit w)"
proof (cases "map_of (iw_store w) token")
  case (Some i)
  show ?thesis
  proof (cases "inv_status i = INV_PENDING \<and> \<not> inv_is_expired i now")
    case True
    define found where "found = sd_find_by_email (inv_email i) (iw_dir w)"
    define u where "u = (case found of Some u \<Rightarrow> u | None \<Rightarrow> \<lparr>usr_id = inv_email i, usr_email = inv_email i, usr_name = name\<rparr>)"
    define d where "d = (case found of Some u \<Rightarrow> iw_dir w | None \<Rightarrow> sd_upsert_user u (iw_dir w))"
    note laws = sql_dir.get_set sql_dir.get_upsert sql_dir.membership_set sql_dir.membership_upsert sql_dir.platform_set
      sql_dir.platform_upsert
    note steps = sql_dir.step_ok [of _ "UpsertUser u"] sql_dir.step_ok [of _ "SetMembership (usr_id u) (inv_tenant_id i) (inv_role i)"]
    have d: "sql_directory_ok d" "sd_get_user (usr_id u) d = Some u" "lower (usr_email u) = lower (inv_email i)"
      "sd_membership j t d = sd_membership j t (iw_dir w)" "sd_platform_role j d = sd_platform_role j (iw_dir w)" for j t
      using ok sd_found [OF ok, of "inv_email i"] laws [of "iw_dir w"] steps
      by (auto simp: d_def u_def found_def sql_directory_ops_def split: option.splits)
    have "r = Inr \<lparr>mb_user_id = usr_id u, mb_tenant_id = inv_tenant_id i, mb_role = inv_role i\<rparr>"
      "iw_dir w' = sd_set_membership (usr_id u) (inv_tenant_id i) (inv_role i) d"
      "iw_audit w' = note_event audit (usr_id u) ''membership.set'' now (inv_tenant_id i) (usr_id u) (role_value (inv_role i)) (iw_audit w)"
      using run True Some unfolding u_def d_def found_def
      by (cases "sd_find_by_email (inv_email i) (iw_dir w)";
        auto simp: accept_def invites_def sql_inv_store_def sql_directory_ops_def Let_def)+
    then show ?thesis
      using True Some d laws [OF d(1)] steps(2) [OF d(1)] by (simp add: sql_directory_ops_def)
  next
    case False
    then show ?thesis
      using run Some by (auto simp: accept_def invites_def sql_inv_store_def split: if_splits)
  qed
qed (use run in \<open>auto simp: accept_def invites_def sql_inv_store_def\<close>)

lemma accept_pending:
  assumes "accept (invites dir sql_inv_store audit ttl) token name now w = (r, w')" "invitations_ok (iw_store w)"
  shows "invitations_ok (iw_store w') \<and> (\<forall>t i. map_of (iw_store w') t = Some i \<and> inv_status i = INV_PENDING \<longrightarrow> map_of (iw_store w) t = Some i)"
proof (rule sql_invs.step_store [OF assms(2), of dir audit ttl "AcceptCall token name now"])
  have w': "w' = snd (invite_step (invites dir sql_inv_store audit ttl) (AcceptCall token name now) w)"
    using assms(1) by (cases r) (simp_all add: did_def)
  show ?thesis if "iw_store (snd (invite_step (invites dir sql_inv_store audit ttl) (AcceptCall token name now) w)) = iw_store w"
    using that assms(2) by (simp add: w' del: invite_step.simps)
  show ?thesis if "io_get sql_inv_store t (iw_store w) = Some i" "st \<noteq> INV_PENDING"
    "iw_store (snd (invite_step (invites dir sql_inv_store audit ttl) (AcceptCall token name now) w)) =
       io_save sql_inv_store (i\<lparr>inv_status := st\<rparr>) (iw_store w)" for i t st
    using that sql_invs.get_after_status [OF assms(2) that(1), of _ st] sql_invs.ok_save [OF assms(2), of "i\<lparr>inv_status := st\<rparr>"]
    by (auto simp: w' sql_inv_store_def simp del: invite_step.simps split: if_splits)
qed simp

section \<open>Properties\<close>

text \<open>An invitation is redeemed at most once: along any sequence of invitations, acceptances and
  revocations that mints its token once, in either store.\<close>

theorem invitation_redeemed_once:
  assumes "mint_count invite_mints t calls \<le> 1"
  shows "redeem_count (invite_step (invites dir mem_inv_store audit ttl)) invite_redeems t calls
      \<lparr>iw_dir = d, iw_store = [], iw_audit = a\<rparr> \<le> 1 \<and>
    redeem_count (invite_step (invites dir sql_inv_store audit ttl)) invite_redeems t calls
      \<lparr>iw_dir = d, iw_store = [], iw_audit = a\<rparr> \<le> 1"
proof (intro conjI)
  show "redeem_count (invite_step (invites dir mem_inv_store audit ttl)) invite_redeems t calls
      \<lparr>iw_dir = d, iw_store = [], iw_audit = a\<rparr> \<le> 1"
    by (rule mem_inv_tokens.redeemed_once [OF _ _ assms])
      (simp_all add: no_invitations invitations_ok_def)
  show "redeem_count (invite_step (invites dir sql_inv_store audit ttl)) invite_redeems t calls
      \<lparr>iw_dir = d, iw_store = [], iw_audit = a\<rparr> \<le> 1"
    by (rule sql_inv_tokens.redeemed_once [OF _ _ assms])
      (simp_all add: no_invitations invitations_ok_def)
qed

definition example_invites :: "invite_call list" where
  "example_invites =
     [InviteCall ''bob@acme.test'' ''acme'' VIEWER ''u1'' 1000 ''tok'', AcceptCall ''tok'' ''Bob'' 2000, AcceptCall ''tok'' ''Eve'' 2001,
      RevokeCall ''tok'' ''u1'' 2002, AcceptCall ''tok'' ''Eve'' 2003]"

theorem invitation_redeemed_once_witness:
  "redeem_count (invite_step (invites sql_directory_ops sql_inv_store (Some mem_audit_ops) 7)) invite_redeems ''tok'' example_invites
      \<lparr>iw_dir = sql_directory_empty, iw_store = [], iw_audit = []\<rparr> \<le> 1 \<and>
   redeem_count (invite_step (invites sql_directory_ops sql_inv_store (Some mem_audit_ops) 7)) invite_redeems ''tok'' example_invites
      \<lparr>iw_dir = sql_directory_empty, iw_store = [], iw_audit = []\<rparr> = 1"
proof
  show "redeem_count (invite_step (invites sql_directory_ops sql_inv_store (Some mem_audit_ops) 7)) invite_redeems ''tok'' example_invites
      \<lparr>iw_dir = sql_directory_empty, iw_store = [], iw_audit = []\<rparr> \<le> 1"
    by (rule conjunct2 [OF invitation_redeemed_once]) (simp add: mint_count_def example_invites_def)
  show "redeem_count (invite_step (invites sql_directory_ops sql_inv_store (Some mem_audit_ops) 7)) invite_redeems ''tok'' example_invites
      \<lparr>iw_dir = sql_directory_empty, iw_store = [], iw_audit = []\<rparr> = 1"
    by code_simp
qed

text \<open>C25. Accepting an invitation in the production composition grants what was offered and nothing else: the
  invited address's user gets the invited role in the inviting business, no other membership or
  platform role changes, and the log holds a protected event of it. A refused token changes no
  membership and no log.\<close>

theorem invitation_accept_exact:
  assumes ok: "sql_directory_ok (iw_dir w)"
    and run: "accept (invites sql_directory_ops sql_inv_store (Some (sql_audit_ops f)) ttl) token name now w = (r, w')"
  shows "case r of
      Inl e \<Rightarrow> iw_dir w' = iw_dir w \<and> iw_audit w' = iw_audit w
    | Inr m \<Rightarrow> \<exists>i. map_of (iw_store w) token = Some i \<and> inv_status i = INV_PENDING \<and> \<not> inv_is_expired i now \<and>
        mb_tenant_id m = inv_tenant_id i \<and> mb_role m = inv_role i \<and>
        (\<exists>u. sd_get_user (mb_user_id m) (iw_dir w') = Some u \<and> lower (usr_email u) = lower (inv_email i)) \<and>
        (\<forall>j t. sd_membership j t (iw_dir w') = (if j = mb_user_id m \<and> t = inv_tenant_id i then Some m else sd_membership j t (iw_dir w))) \<and>
        (\<forall>j. sd_platform_role j (iw_dir w') = sd_platform_role j (iw_dir w)) \<and>
        (\<exists>e. at_rows (iw_audit w') = at_rows (iw_audit w) @ [e] \<and> is_protected_action (ae_action e) \<and>
           ae_tenant_id e = inv_tenant_id i \<and> ae_target e = mb_user_id m)"
  using accept_sql [OF ok run]
  by (auto simp: note_event_def sql_audit_ops_def sql_record_def Let_def is_protected_action_def PROTECTED_AUDIT_PREFIXES_def
      starts_with_def split: sum.splits) (metis membership.select_convs)+


definition invited_world :: "(sql_directory, (string \<times> invitation) list, audit_table) invite_world" where
  "invited_world = \<lparr>iw_dir = sql_directory_empty,
     iw_store = [(''tok'', \<lparr>inv_token = ''tok'', inv_email = ''Bob@acme.test'', inv_tenant_id = ''acme'', inv_role = VIEWER,
       inv_invited_by = ''u1'', inv_status = INV_PENDING, inv_created_at = 1000, inv_expires_at = 3000\<rparr>)],
     iw_audit = \<lparr>at_last = 0, at_rows = []\<rparr>\<rparr>"

lemma invited_world_ok: "sql_directory_ok (iw_dir invited_world)"
  by code_simp

theorem invitation_accept_exact_witness:
  "case accept (invites sql_directory_ops sql_inv_store (Some (sql_audit_ops True)) 7) ''tok'' ''Bob'' 2000 invited_world of (r, w') \<Rightarrow>
     (\<exists>m. r = Inr m \<and> mb_role m = VIEWER \<and> (\<forall>j. sd_platform_role j (iw_dir w') = None))"
proof -
  obtain r w' where run: "accept (invites sql_directory_ops sql_inv_store (Some (sql_audit_ops True)) 7) ''tok'' ''Bob'' 2000 invited_world = (r, w')"
    by fastforce
  have "(case fst (accept (invites sql_directory_ops sql_inv_store (Some (sql_audit_ops True)) 7) ''tok'' ''Bob'' 2000 invited_world) of
      Inl e \<Rightarrow> False | Inr m \<Rightarrow> True)"
    by code_simp
  then obtain m where m: "r = Inr m" using run by (auto split: sum.splits)
  have "\<forall>j. sd_platform_role j (iw_dir invited_world) = None"
    by (simp add: invited_world_def sql_directory_empty_def sd_platform_role_def)
  with invitation_accept_exact [OF invited_world_ok run] m run show ?thesis
    by (auto simp: invited_world_def)
qed

end
