(* ===== verification/Base64.thy ===== *)
theory Base64
  imports Prelude
begin

text \<open>
  What the web application uses of Python's \<open>base64\<close> and \<open>int\<close>: encoding, the decoder of
  \<open>binascii\<close> outside its strict mode (characters outside the alphabet are skipped, data after the
  padding is dropped), the URL-safe alphabet without padding of \<open>rgnr8_web/auth.py\<close>, and \<open>int(s)\<close>.
  Bytes are characters.
\<close>

section \<open>\<open>int(s)\<close>\<close>

text \<open>White space around, a sign, and digits with single underscores between them.\<close>

fun digits_of :: "string \<Rightarrow> string option" where
  "digits_of [] = None"
| "digits_of [c] = (if is_digit c then Some [c] else None)"
| "digits_of (c # d # s) =
     (if \<not> is_digit c then None
      else map_option (\<lambda>ds. c # ds) (digits_of (if d = CHR ''_'' then s else d # s)))"

definition py_int :: "string \<Rightarrow> int res" where
  "py_int s =
     (let t = strip s;
          (neg, u) = (case t of c # r \<Rightarrow> if c = CHR ''-'' then (True, r) else if c = CHR ''+'' then (False, r) else (False, t)
                      | [] \<Rightarrow> (False, t))
      in case digits_of u of
           None \<Rightarrow> Inl ValueError
         | Some ds \<Rightarrow> Inr (if neg then - int (int_of_digits ds) else int (int_of_digits ds)))"

lemma digits_of_digits: "list_all is_digit s \<Longrightarrow> s \<noteq> [] \<Longrightarrow> digits_of s = Some s"
  by (induction s rule: digits_of.induct) (auto simp: is_digit_def)

lemma dropWhile_head: "s \<noteq> [] \<Longrightarrow> \<not> P (hd s) \<Longrightarrow> dropWhile P s = s"
  by (cases s) simp_all

lemma strip_noop: "s \<noteq> [] \<Longrightarrow> \<not> is_space (hd s) \<Longrightarrow> \<not> is_space (last s) \<Longrightarrow> strip s = s"
  by (simp add: strip_def dropWhile_head hd_rev)

lemma digit_not_space: "is_digit c \<Longrightarrow> \<not> is_space c"
  by (auto simp: is_digit_def is_space_def Let_def)

lemma py_int_str_int [simp]: "py_int (str_int i) = Inr i"
proof -
  have digits: "list_all is_digit (str_nat n)" "is_digit (hd (str_nat n))" "is_digit (last (str_nat n))" for n
    using str_nat_digits [of n] by (simp_all add: list_all_iff)
  have strip: "strip (str_int i) = str_int i"
    using digits digit_not_space by (auto simp: str_int_def intro!: strip_noop) (simp add: is_space_def)
  show ?thesis
  proof (cases "i < 0")
    case True
    then show ?thesis using strip digits(1) [of "nat (- i)"] by (simp add: py_int_def str_int_def digits_of_digits)
  next
    case False
    obtain c r where c: "str_nat (nat i) = c # r" by (cases "str_nat (nat i)") auto
    then have "is_digit c" using digits(2) [of "nat i"] by simp
    then have "c \<noteq> CHR ''-''" "c \<noteq> CHR ''+''" by (auto simp: is_digit_def)
    then show ?thesis
      using False strip digits(1) [of "nat i"] digits_of_digits [of "c # r"] int_of_digits_str_nat [of "nat i"]
      by (simp add: py_int_def str_int_def c del: int_of_digits_str_nat)
  qed
qed

section \<open>Encoding\<close>

definition b64_char :: "nat \<Rightarrow> char" where
  "b64_char n =
     char_of (if n < 26 then 65 + n else if n < 52 then 71 + n else if n < 62 then n - 4 else if n = 62 then 43 else 47 :: nat)"

definition b64_val :: "char \<Rightarrow> nat option" where
  "b64_val c =
     (let n = of_char c :: nat
      in if 65 \<le> n \<and> n \<le> 90 then Some (n - 65) else if 97 \<le> n \<and> n \<le> 122 then Some (n - 71)
         else if 48 \<le> n \<and> n \<le> 57 then Some (n + 4) else if n = 43 then Some 62 else if n = 47 then Some 63 else None)"

fun b64encode :: "string \<Rightarrow> string" where
  "b64encode [] = []"
| "b64encode [a] = (let x = of_char a in [b64_char (x div 4), b64_char (x mod 4 * 16), CHR ''='', CHR ''=''])"
| "b64encode [a, b] =
     (let x = of_char a; y = of_char b
      in [b64_char (x div 4), b64_char (x mod 4 * 16 + y div 16), b64_char (y mod 16 * 4), CHR ''=''])"
| "b64encode (a # b # c # s) =
     (let x = of_char a; y = of_char b; z = of_char c
      in b64_char (x div 4) # b64_char (x mod 4 * 16 + y div 16) # b64_char (y mod 16 * 4 + z div 64) # b64_char (z mod 64) #
         b64encode s)"

section \<open>Decoding\<close>

text \<open>\<open>binascii.a2b_base64\<close>: the position in the group of four, the bits left over and the padding seen.\<close>

fun a2b :: "nat \<Rightarrow> nat \<Rightarrow> nat \<Rightarrow> string \<Rightarrow> string res" where
  "a2b quad left pads [] = (if quad = 0 then Inr [] else Inl ValueError)"
| "a2b quad left pads (c # s) =
     (if c = CHR ''='' then
        if 2 \<le> quad \<and> 4 \<le> quad + (pads + 1) then Inr []
        else a2b quad left (if 2 \<le> quad then pads + 1 else pads) s
      else
        case b64_val c of
          None \<Rightarrow> a2b quad left pads s
        | Some v \<Rightarrow>
            if quad = 0 then a2b 1 v 0 s
            else if quad = 1 then res_bind (a2b 2 (v mod 16) 0 s) (\<lambda>r. Inr (char_of (left * 4 + v div 16) # r))
            else if quad = 2 then res_bind (a2b 3 (v mod 4) 0 s) (\<lambda>r. Inr (char_of (left * 16 + v div 4) # r))
            else res_bind (a2b 0 0 0 s) (\<lambda>r. Inr (char_of (left * 64 + v) # r)))"

definition ascii_only :: "string \<Rightarrow> bool" where
  "ascii_only s \<longleftrightarrow> list_all (\<lambda>c. (of_char c :: nat) < 128) s"

definition b64decode :: "string \<Rightarrow> string res" where
  "b64decode s = (if ascii_only s then a2b 0 0 0 s else Inl ValueError)"

lemma of_b64_char:
  "n < 64 \<Longrightarrow> (of_char (b64_char n) :: nat) =
     (if n < 26 then 65 + n else if n < 52 then 71 + n else if n < 62 then n - 4 else if n = 62 then 43 else 47)"
  by (simp add: b64_char_def)

lemma b64_val_char: "n < 64 \<Longrightarrow> b64_val (b64_char n) = Some n"
  by (auto simp: b64_val_def of_b64_char Let_def)

lemma b64_char_ascii: "n < 64 \<Longrightarrow> (of_char (b64_char n) :: nat) < 128"
  by (subst of_b64_char) (simp_all, arith?)

lemma b64_char_not:
  assumes "n < 64"
  shows "b64_char n \<noteq> CHR ''=''" "b64_char n \<noteq> CHR ''$''" "b64_char n \<noteq> CHR ''.''" "b64_char n \<noteq> CHR ''-''" "b64_char n \<noteq> CHR ''_''"
proof -
  have "b64_char n \<noteq> c" if "(of_char c :: nat) \<in> {61, 36, 46, 45, 95}" for c
    using of_b64_char [OF assms] that assms by (auto split: if_splits)
  then show "b64_char n \<noteq> CHR ''=''" "b64_char n \<noteq> CHR ''$''" "b64_char n \<noteq> CHR ''.''" "b64_char n \<noteq> CHR ''-''" "b64_char n \<noteq> CHR ''_''"
    by simp_all
qed

lemma low_high:
  fixes p q :: nat
  shows "q < 16 \<Longrightarrow> (p * 16 + q) div 16 = p" "q < 16 \<Longrightarrow> (p * 16 + q) mod 16 = q"
    "q < 4 \<Longrightarrow> (p * 4 + q) div 4 = p" "q < 4 \<Longrightarrow> (p * 4 + q) mod 4 = q"
  by simp_all

lemma sextets:
  fixes a b c :: char
  shows "of_char a div 4 < (64::nat)" "of_char a mod 4 * 16 < (64::nat)" "of_char a mod 4 * 16 + of_char b div 16 < (64::nat)"
    "of_char b mod 16 * 4 < (64::nat)" "of_char b mod 16 * 4 + of_char c div 64 < (64::nat)" "of_char c mod 64 < (64::nat)"
proof -
  have "of_char a < (256::nat)" "of_char a mod 4 < (4::nat)" "of_char b mod 16 < (16::nat)" "of_char b div 16 < (16::nat)"
    "of_char c div 64 < (4::nat)"
    by (simp_all add: less_mult_imp_div_less)
  then show "of_char a div 4 < (64::nat)" "of_char a mod 4 * 16 < (64::nat)" "of_char a mod 4 * 16 + of_char b div 16 < (64::nat)"
    "of_char b mod 16 * 4 < (64::nat)" "of_char b mod 16 * 4 + of_char c div 64 < (64::nat)" "of_char c mod 64 < (64::nat)"
    by linarith+
qed

lemmas b64_simps = sextets b64_val_char b64_char_not

lemma a2b_encode: "a2b 0 0 0 (b64encode s) = Inr s"
proof (induction s rule: b64encode.induct)
  case (2 a)
  have "(of_char a mod 4 * 16 :: nat) div 16 = of_char a mod 4" by simp
  then show ?case by (simp add: Let_def b64_simps)
next
  case (3 a b)
  have "(of_char b div 16 :: nat) < 16" by (simp add: less_mult_imp_div_less)
  then show ?case by (simp add: Let_def b64_simps low_high)
next
  case (4 a b c s)
  have "(of_char b div 16 :: nat) < 16" "(of_char c div 64 :: nat) < 4" by (simp_all add: less_mult_imp_div_less)
  then show ?case using 4 by (simp add: Let_def b64_simps low_high)
qed simp

lemma b64encode_set: "c \<in> set (b64encode s) \<Longrightarrow> (of_char c :: nat) < 128 \<and> c \<notin> {CHR ''$'', CHR ''.'', CHR ''-'', CHR ''_''}"
proof (induction s rule: b64encode.induct)
qed (auto simp: Let_def b64_simps b64_char_ascii)

lemma b64_round_trip [simp]: "b64decode (b64encode s) = Inr s"
  using b64encode_set [of _ s] by (simp add: b64decode_def ascii_only_def list_all_iff a2b_encode)

section \<open>The URL-safe alphabet without padding\<close>

definition rstrip_char :: "char \<Rightarrow> string \<Rightarrow> string" where
  "rstrip_char c s = rev (dropWhile (\<lambda>x. x = c) (rev s))"

definition url_char :: "char \<Rightarrow> char" where
  "url_char c = (if c = CHR ''+'' then CHR ''-'' else if c = CHR ''/'' then CHR ''_'' else c)"

definition std_char :: "char \<Rightarrow> char" where
  "std_char c = (if c = CHR ''-'' then CHR ''+'' else if c = CHR ''_'' then CHR ''/'' else c)"

definition b64url_encode :: "string \<Rightarrow> string" where
  "b64url_encode raw = rstrip_char CHR ''='' (map url_char (b64encode raw))"

definition b64url_decode :: "string \<Rightarrow> string res" where
  "b64url_decode seg =
     (let padded_seg = seg @ replicate ((4 - length seg mod 4) mod 4) CHR ''=''
      in if ascii_only padded_seg then b64decode (map std_char padded_seg) else Inl ValueError)"

lemma rstrip_snoc: "rstrip_char c (s @ [x]) = (if x = c then rstrip_char c s else s @ [x])"
  by (simp add: rstrip_char_def)

lemma rstrip_Nil [simp]: "rstrip_char c [] = []"
  by (simp add: rstrip_char_def)

lemma rstrip_Cons: "rstrip_char c (x # s) = (if rstrip_char c s = [] \<and> x = c then [] else x # rstrip_char c s)"
  by (auto simp: rstrip_char_def dropWhile_append)

lemma rstrip_map: "(\<And>x. x \<in> set s \<Longrightarrow> f x = c \<longleftrightarrow> x = c) \<Longrightarrow> rstrip_char c (map f s) = map f (rstrip_char c s)"
  by (induction s) (auto simp: rstrip_Cons)

lemma rstrip_subset: "set (rstrip_char c s) \<subseteq> set s"
  by (induction s) (auto simp: rstrip_Cons)

lemma replicate_2: "replicate 2 c = [c, c]"
  by (simp add: numeral_2_eq_2)

lemma rstrip_encode:
  "rstrip_char CHR ''='' (b64encode s) @
     replicate ((4 - length (rstrip_char CHR ''='' (b64encode s)) mod 4) mod 4) CHR ''='' = b64encode s"
proof (induction s rule: b64encode.induct)
  case (4 a b c s)
  then show ?case by (simp add: Let_def b64_simps rstrip_Cons)
qed (simp_all add: Let_def b64_simps rstrip_Cons replicate_2)

lemma b64url_encode_char: "c \<in> set (b64url_encode s) \<Longrightarrow> (of_char c :: nat) < 128 \<and> c \<noteq> CHR ''.''"
  using b64encode_set [of _ s] rstrip_subset [of "CHR ''=''" "map url_char (b64encode s)"]
  by (fastforce simp: b64url_encode_def url_char_def)

lemma b64url_round_trip [simp]: "b64url_decode (b64url_encode s) = Inr s"
proof -
  define r where "r = rstrip_char CHR ''='' (b64encode s)"
  have e: "b64url_encode s = map url_char r"
    unfolding b64url_encode_def r_def by (rule rstrip_map) (simp add: url_char_def)
  have r: "c \<notin> {CHR ''-'', CHR ''_''} \<and> (of_char c :: nat) < 128" if "c \<in> set r" for c
    using that b64encode_set [of c s] rstrip_subset [of "CHR ''=''" "b64encode s"] unfolding r_def by blast
  have undone: "map std_char (map url_char r) = r"
    by (rule map_idI [of r "std_char \<circ> url_char", unfolded map_map [symmetric]])
      (use r in \<open>auto simp: std_char_def url_char_def\<close>)
  have pad: "std_char CHR ''='' = CHR ''=''" by (simp add: std_char_def)
  have "ascii_only (map url_char r @ replicate n CHR ''='')" for n
    using r by (auto simp: ascii_only_def list_all_iff url_char_def)
  then show ?thesis
    using rstrip_encode [of s] undone
    by (simp add: b64url_decode_def e Let_def pad flip: r_def)
qed

end
