(* ===== verification/Credentials.thy ===== *)
theory Credentials
  imports Audit_Trail Base64 Single_Use
begin

text \<open>
  Passwords and email proofs (\<open>rgnr8_web/credentials.py\<close>): the password hasher, the credential and
  token stores in memory and in SQL, and \<open>AuthService\<close>. \<open>hashlib.scrypt\<close> is an argument of the
  hasher; clock readings, salts and minted tokens are arguments of the operations that draw them,
  and \<open>on_signup\<close> is an operation on a state of its own.
\<close>

section \<open>Hashing\<close>

record password_hasher =
  ph_scrypt :: "string \<Rightarrow> string \<Rightarrow> int \<Rightarrow> int \<Rightarrow> int \<Rightarrow> int \<Rightarrow> string res" \<comment> \<open>password, salt, n, r, p, dklen\<close>
  ph_n :: int
  ph_r :: int
  ph_p :: int
  ph_dklen :: int

definition encode_hash :: "int \<Rightarrow> int \<Rightarrow> int \<Rightarrow> string \<Rightarrow> string \<Rightarrow> string" where
  "encode_hash n r p salt dk = join_sep ''$'' [''scrypt'', str_int n, str_int r, str_int p, b64encode salt, b64encode dk]"

definition hash_password :: "password_hasher \<Rightarrow> string \<Rightarrow> string \<Rightarrow> string res" where
  "hash_password h password salt =
     res_bind (ph_scrypt h password salt (ph_n h) (ph_r h) (ph_p h) (ph_dklen h)) (\<lambda>dk.
       Inr (encode_hash (ph_n h) (ph_r h) (ph_p h) salt dk))"

text \<open>The parts of an encoded hash; \<open>None\<close> where \<open>verify\<close> returns False without deriving a key.\<close>

definition decode_hash :: "string \<Rightarrow> (int \<times> int \<times> int \<times> string \<times> string) option" where
  "decode_hash encoded =
     (case split_char CHR ''$'' encoded of
        [scheme, n_s, r_s, p_s, salt_b64, dk_b64] \<Rightarrow>
          if scheme \<noteq> ''scrypt'' then None
          else (case (py_int n_s, py_int r_s, py_int p_s, b64decode salt_b64, b64decode dk_b64) of
              (Inr n, Inr r, Inr p, Inr salt, Inr dk) \<Rightarrow> Some (n, r, p, salt, dk)
            | _ \<Rightarrow> None)
      | _ \<Rightarrow> None)"

definition verify_password :: "password_hasher \<Rightarrow> string \<Rightarrow> string \<Rightarrow> bool res" where
  "verify_password h password encoded =
     (case decode_hash encoded of
        None \<Rightarrow> Inr False
      | Some (n, r, p, salt, expected) \<Rightarrow>
          res_bind (ph_scrypt h password salt n r p (int (length expected))) (\<lambda>actual. Inr (actual = expected)))"

section \<open>Credentials\<close>

record credential =
  cr_user_id :: string
  cr_email :: string
  cr_password_hash :: string
  cr_verified :: bool
  cr_created_at :: int

record 'c cred_ops =
  co_save :: "credential \<Rightarrow> 'c \<Rightarrow> 'c"
  co_get_by_user_id :: "string \<Rightarrow> 'c \<Rightarrow> credential option"
  co_get_by_email :: "string \<Rightarrow> 'c \<Rightarrow> credential option"

record mem_creds =
  mc_by_id :: "(string \<times> credential) list"
  mc_by_email :: "(string \<times> string) list"

definition mem_cred_ops :: "mem_creds cred_ops" where
  "mem_cred_ops =
     \<lparr>co_save = (\<lambda>c s. s\<lparr>mc_by_id := AList.update (cr_user_id c) c (mc_by_id s),
                        mc_by_email := AList.update (lower (cr_email c)) (cr_user_id c) (mc_by_email s)\<rparr>),
      co_get_by_user_id = (\<lambda>u s. map_of (mc_by_id s) u),
      co_get_by_email = (\<lambda>e s. case map_of (mc_by_email s) (lower e) of Some u \<Rightarrow> map_of (mc_by_id s) u | None \<Rightarrow> None)\<rparr>"

type_synonym cred_table = "(string \<times> credential) list"

definition sql_save_cred :: "credential \<Rightarrow> cred_table \<Rightarrow> cred_table" where
  "sql_save_cred c s =
     (case map_of s (cr_user_id c) of
        None \<Rightarrow> s @ [(cr_user_id c, c)]
      | Some old \<Rightarrow> AList.update (cr_user_id c)
          (old\<lparr>cr_email := cr_email c, cr_password_hash := cr_password_hash c, cr_verified := cr_verified c\<rparr>) s)"

definition sql_cred_ops :: "cred_table cred_ops" where
  "sql_cred_ops =
     \<lparr>co_save = sql_save_cred, co_get_by_user_id = (\<lambda>u s. map_of s u),
      co_get_by_email = (\<lambda>e s. map_option snd (find (\<lambda>(u, c). lower (cr_email c) = lower e) s))\<rparr>"

section \<open>Tokens\<close>

datatype token_purpose = VERIFY_EMAIL | PASSWORD_RESET

record verification_token =
  vt_token :: string
  vt_user_id :: string
  vt_email :: string
  vt_purpose :: token_purpose
  vt_created_at :: int
  vt_expires_at :: int
  vt_consumed :: bool

definition vt_is_expired :: "verification_token \<Rightarrow> int \<Rightarrow> bool" where
  "vt_is_expired k now \<longleftrightarrow> vt_expires_at k \<noteq> 0 \<and> vt_expires_at k \<le> now"

record 't token_ops =
  to_save :: "verification_token \<Rightarrow> 't \<Rightarrow> 't"
  to_get :: "string \<Rightarrow> 't \<Rightarrow> verification_token option"
  to_consume :: "string \<Rightarrow> 't \<Rightarrow> bool \<times> 't"

type_synonym tokens = "(string \<times> verification_token) list"

definition mem_consume :: "string \<Rightarrow> tokens \<Rightarrow> bool \<times> tokens" where
  "mem_consume token s =
     (case map_of s token of
        None \<Rightarrow> (False, s)
      | Some k \<Rightarrow> if vt_consumed k then (False, s) else (True, AList.update token (k\<lparr>vt_consumed := True\<rparr>) s))"

definition mem_token_ops :: "tokens token_ops" where
  "mem_token_ops =
     \<lparr>to_save = (\<lambda>k. AList.update (vt_token k) k), to_get = (\<lambda>t s. map_of s t), to_consume = mem_consume\<rparr>"

definition sql_save_token :: "verification_token \<Rightarrow> tokens \<Rightarrow> tokens" where
  "sql_save_token k s =
     (case map_of s (vt_token k) of
        None \<Rightarrow> s @ [(vt_token k, k)]
      | Some old \<Rightarrow> AList.update (vt_token k) (old\<lparr>vt_consumed := vt_consumed k\<rparr>) s)"

text \<open>\<open>UPDATE ... SET consumed=1 WHERE token=? AND consumed=0\<close>, and whether it matched one row.\<close>

definition sql_consume :: "string \<Rightarrow> tokens \<Rightarrow> bool \<times> tokens" where
  "sql_consume token s =
     (length (filter (\<lambda>(t, k). t = token \<and> \<not> vt_consumed k) s) = 1,
      map (\<lambda>(t, k). (t, if t = token \<and> \<not> vt_consumed k then k\<lparr>vt_consumed := True\<rparr> else k)) s)"

definition sql_token_ops :: "tokens token_ops" where
  "sql_token_ops = \<lparr>to_save = sql_save_token, to_get = (\<lambda>t s. map_of s t), to_consume = sql_consume\<rparr>"

section \<open>The service\<close>

record ('c, 't, 'a, 'h) auth_service =
  as_creds :: "'c cred_ops"
  as_tokens :: "'t token_ops"
  as_audit :: "'a audit_ops option"
  as_hasher :: password_hasher
  as_on_signup :: "(string \<Rightarrow> ('h, unit) meth) option"
  as_min_len :: int
  as_verify_ttl :: int
  as_reset_ttl :: int
  as_dummy_hash :: string

record ('c, 't, 'a, 'h) auth_world =
  aw_creds :: 'c
  aw_tokens :: 't
  aw_audit :: 'a
  aw_hook :: 'h

definition HOUR :: int where
  "HOUR = 3600"

text \<open>\<open>AuthService.__init__\<close> with the stores given: the ttls in seconds and the throwaway hash.\<close>

definition make_auth_service ::
  "'c cred_ops \<Rightarrow> 't token_ops \<Rightarrow> 'a audit_ops option \<Rightarrow> password_hasher \<Rightarrow> (string \<Rightarrow> ('h, unit) meth) option \<Rightarrow>
   int \<Rightarrow> int \<Rightarrow> int \<Rightarrow> ('c, 't, 'a, 'h) auth_service res" where
  "make_auth_service creds toks audit h on_signup min_len verify_hours reset_hours =
     res_bind (hash_password h (replicate (nat (max min_len 1)) CHR ''x'') ''rgnr8-dummy-salt'') (\<lambda>dummy.
       Inr \<lparr>as_creds = creds, as_tokens = toks, as_audit = audit, as_hasher = h, as_on_signup = on_signup, as_min_len = min_len,
            as_verify_ttl = verify_hours * HOUR, as_reset_ttl = reset_hours * HOUR, as_dummy_hash = dummy\<rparr>)"

definition note_auth ::
  "('c, 't, 'a, 'h) auth_service \<Rightarrow> string \<Rightarrow> string \<Rightarrow> int \<Rightarrow> string \<Rightarrow> ('c, 't, 'a, 'h) auth_world \<Rightarrow> ('c, 't, 'a, 'h) auth_world" where
  "note_auth svc actor action at target w =
     (case as_audit svc of None \<Rightarrow> w
      | Some ops \<Rightarrow> w\<lparr>aw_audit := snd (ao_record ops actor action at [] [] target [] (aw_audit w))\<rparr>)"

definition issue_token ::
  "('c, 't, 'a, 'h) auth_service \<Rightarrow> credential \<Rightarrow> token_purpose \<Rightarrow> int \<Rightarrow> int \<Rightarrow> string \<Rightarrow>
   ('c, 't, 'a, 'h) auth_world \<Rightarrow> ('c, 't, 'a, 'h) auth_world" where
  "issue_token svc c purpose ttl now token w =
     w\<lparr>aw_tokens := to_save (as_tokens svc)
         \<lparr>vt_token = token, vt_user_id = cr_user_id c, vt_email = cr_email c, vt_purpose = purpose, vt_created_at = now,
          vt_expires_at = now + ttl, vt_consumed = False\<rparr> (aw_tokens w)\<rparr>"

definition has_credential :: "('c, 't, 'a, 'h) auth_service \<Rightarrow> string \<Rightarrow> ('c, 't, 'a, 'h) auth_world \<Rightarrow> bool" where
  "has_credential svc email w \<longleftrightarrow> co_get_by_email (as_creds svc) (strip email) (aw_creds w) \<noteq> None"

definition run_hook :: "('c, 't, 'a, 'h) auth_service \<Rightarrow> string \<Rightarrow> (('c, 't, 'a, 'h) auth_world, unit) meth" where
  "run_hook svc email w =
     (case as_on_signup svc of None \<Rightarrow> (Inr (), w)
      | Some f \<Rightarrow> (case f email (aw_hook w) of (r, h') \<Rightarrow> (r, w\<lparr>aw_hook := h'\<rparr>)))"

text \<open>\<open>now\<close> is read before the credential is made and \<open>now'\<close> when the token is.\<close>

definition auth_signup ::
  "('c, 't, 'a, 'h) auth_service \<Rightarrow> string \<Rightarrow> string \<Rightarrow> int \<Rightarrow> string \<Rightarrow> int \<Rightarrow> string \<Rightarrow>
   (('c, 't, 'a, 'h) auth_world, credential \<times> string) meth" where
  "auth_signup svc raw_email password now salt now' token =
     (let email = strip raw_email
      in seqm (raise_if (\<not> List.member email CHR ''@'') (AuthError ''a valid email is required''))
        (seqm (raise_if (int (char_count password) < as_min_len svc)
           (AuthError (''password must be at least '' @ str_int (as_min_len svc) @ '' characters'')))
        (bind (gets (\<lambda>w. co_get_by_email (as_creds svc) email (aw_creds w))) (\<lambda>existing.
         seqm (raise_if (existing \<noteq> None) (AuthError ''that email is already registered''))
        (bind (lift_res (hash_password (as_hasher svc) password salt)) (\<lambda>h.
         let c = \<lparr>cr_user_id = email, cr_email = email, cr_password_hash = h, cr_verified = False, cr_created_at = now\<rparr>
         in seqm (modify (\<lambda>w. w\<lparr>aw_creds := co_save (as_creds svc) c (aw_creds w)\<rparr>))
           (seqm (modify (issue_token svc c VERIFY_EMAIL (as_verify_ttl svc) now' token))
           (seqm (run_hook svc email)
           (seqm (modify (note_auth svc (cr_user_id c) ''user.signup'' now email))
           (ret (c, token)))))))))))"

definition verify_email :: "('c, 't, 'a, 'h) auth_service \<Rightarrow> string \<Rightarrow> int \<Rightarrow> ('c, 't, 'a, 'h) auth_world \<Rightarrow> bool \<times> ('c, 't, 'a, 'h) auth_world" where
  "verify_email svc token now w =
     (case to_get (as_tokens svc) token (aw_tokens w) of
        None \<Rightarrow> (False, w)
      | Some k \<Rightarrow>
          if vt_purpose k \<noteq> VERIFY_EMAIL \<or> vt_consumed k then (False, w)
          else if vt_is_expired k now then (False, w)
          else
            (case co_get_by_user_id (as_creds svc) (vt_user_id k) (aw_creds w) of
               None \<Rightarrow> (False, w)
             | Some c \<Rightarrow>
                 (case to_consume (as_tokens svc) token (aw_tokens w) of
                    (False, ts) \<Rightarrow> (False, w\<lparr>aw_tokens := ts\<rparr>)
                  | (True, ts) \<Rightarrow>
                      (True, note_auth svc (cr_user_id c) ''user.verified'' now (cr_email c)
                         (w\<lparr>aw_tokens := ts, aw_creds := co_save (as_creds svc) (c\<lparr>cr_verified := True\<rparr>) (aw_creds w)\<rparr>)))))"

definition auth_login :: "('c, 't, 'a, 'h) auth_service \<Rightarrow> string \<Rightarrow> string \<Rightarrow> ('c, 't, 'a, 'h) auth_world \<Rightarrow> string option res" where
  "auth_login svc email password w =
     (case co_get_by_email (as_creds svc) email (aw_creds w) of
        None \<Rightarrow> res_bind (verify_password (as_hasher svc) password (as_dummy_hash svc)) (\<lambda>_. Inr None)
      | Some c \<Rightarrow>
          res_bind (verify_password (as_hasher svc) password (cr_password_hash c)) (\<lambda>matches.
            Inr (if \<not> matches then None else if \<not> cr_verified c then None else Some (cr_user_id c))))"

definition request_password_reset ::
  "('c, 't, 'a, 'h) auth_service \<Rightarrow> string \<Rightarrow> int \<Rightarrow> string \<Rightarrow> ('c, 't, 'a, 'h) auth_world \<Rightarrow> string option \<times> ('c, 't, 'a, 'h) auth_world" where
  "request_password_reset svc email now token w =
     (case co_get_by_email (as_creds svc) email (aw_creds w) of
        None \<Rightarrow> (None, w)
      | Some c \<Rightarrow> (Some token, issue_token svc c PASSWORD_RESET (as_reset_ttl svc) now token w))"

definition reset_password ::
  "('c, 't, 'a, 'h) auth_service \<Rightarrow> string \<Rightarrow> string \<Rightarrow> int \<Rightarrow> string \<Rightarrow> (('c, 't, 'a, 'h) auth_world, bool) meth" where
  "reset_password svc token new_password now salt w =
     (case to_get (as_tokens svc) token (aw_tokens w) of
        None \<Rightarrow> (Inr False, w)
      | Some k \<Rightarrow>
          if vt_purpose k \<noteq> PASSWORD_RESET \<or> vt_consumed k then (Inr False, w)
          else if vt_is_expired k now then (Inr False, w)
          else if int (char_count new_password) < as_min_len svc then (Inr False, w)
          else
            (case co_get_by_user_id (as_creds svc) (vt_user_id k) (aw_creds w) of
               None \<Rightarrow> (Inr False, w)
             | Some c \<Rightarrow>
                 (case to_consume (as_tokens svc) token (aw_tokens w) of
                    (False, ts) \<Rightarrow> (Inr False, w\<lparr>aw_tokens := ts\<rparr>)
                  | (True, ts) \<Rightarrow>
                      (case hash_password (as_hasher svc) new_password salt of
                         Inl e \<Rightarrow> (Inl e, w\<lparr>aw_tokens := ts\<rparr>)
                       | Inr h \<Rightarrow>
                           (Inr True, note_auth svc (cr_user_id c) ''password.reset'' now (cr_email c)
                              (w\<lparr>aw_tokens := ts,
                                aw_creds := co_save (as_creds svc) (c\<lparr>cr_password_hash := h, cr_verified := True\<rparr>) (aw_creds w)\<rparr>))))))"

section \<open>A hash verifies against its own password\<close>

lemma str_int_no_dollar: "CHR ''$'' \<notin> set (str_int i)"
proof -
  have "CHR ''$'' \<notin> set (str_nat n)" for n using str_nat_digits [of n] by (auto simp: list_all_iff is_digit_def)
  then show ?thesis by (simp add: str_int_def)
qed

lemma b64_no_dollar: "CHR ''$'' \<notin> set (b64encode s)"
  using b64encode_set [of "CHR ''$''" s] by auto

lemma decode_encoded: "decode_hash (encode_hash n r p salt dk) = Some (n, r, p, salt, dk)"
proof -
  have "split_char CHR ''$'' (encode_hash n r p salt dk) = [''scrypt'', str_int n, str_int r, str_int p, b64encode salt, b64encode dk]"
    unfolding encode_hash_def by (rule split_char_join) (simp_all add: str_int_no_dollar b64_no_dollar)
  then show ?thesis by (simp add: decode_hash_def)
qed

text \<open>What \<open>hashlib.scrypt\<close> documents: for parameters it accepts it derives a key of the length asked.\<close>

definition derives :: "password_hasher \<Rightarrow> (string \<Rightarrow> string \<Rightarrow> string) \<Rightarrow> bool" where
  "derives h kd \<longleftrightarrow> (\<forall>pw salt. ph_scrypt h pw salt (ph_n h) (ph_r h) (ph_p h) (ph_dklen h) = Inr (kd pw salt) \<and>
     int (length (kd pw salt)) = ph_dklen h)"

lemma hash_verifies:
  assumes "derives h kd"
  obtains e where "hash_password h pw salt = Inr e" "\<And>pw'. verify_password h pw' e = Inr (kd pw' salt = kd pw salt)"
proof
  show "hash_password h pw salt = Inr (encode_hash (ph_n h) (ph_r h) (ph_p h) salt (kd pw salt))"
    using assms by (simp add: derives_def hash_password_def)
  show "verify_password h pw' (encode_hash (ph_n h) (ph_r h) (ph_p h) salt (kd pw salt)) = Inr (kd pw' salt = kd pw salt)" for pw'
    using assms by (simp add: derives_def verify_password_def decode_encoded)
qed

section \<open>What the stores promise\<close>

text \<open>A credential may be saved under a new address, or in place of the one of the same user and address.\<close>

definition can_save :: "'c cred_ops \<Rightarrow> credential \<Rightarrow> 'c \<Rightarrow> bool" where
  "can_save ops c s \<longleftrightarrow>
     (\<forall>c'. co_get_by_email ops (cr_email c) s = Some c' \<longrightarrow> cr_user_id c' = cr_user_id c) \<and>
     (\<forall>c'. co_get_by_user_id ops (cr_user_id c) s = Some c' \<longrightarrow>
        lower (cr_email c') = lower (cr_email c) \<and> cr_created_at c' = cr_created_at c)"

locale credential_store =
  fixes cops :: "'c cred_ops" and cok :: "'c \<Rightarrow> bool"
  assumes save_ok: "cok s \<Longrightarrow> can_save cops c s \<Longrightarrow> cok (co_save cops c s)"
    and get_save: "cok s \<Longrightarrow> can_save cops c s \<Longrightarrow>
      co_get_by_user_id cops u (co_save cops c s) = (if u = cr_user_id c then Some c else co_get_by_user_id cops u s)"
    and by_email: "cok s \<Longrightarrow> co_get_by_email cops e s = Some c \<longleftrightarrow>
      co_get_by_user_id cops (cr_user_id c) s = Some c \<and> lower (cr_email c) = lower e"
    and own_id: "cok s \<Longrightarrow> co_get_by_user_id cops u s = Some c \<Longrightarrow> cr_user_id c = u"

locale token_store =
  fixes tops :: "'t token_ops" and tok :: "'t \<Rightarrow> bool"
  assumes save_token_ok: "tok s \<Longrightarrow> tok (to_save tops k s)"
    and get_token_new: "tok s \<Longrightarrow> to_get tops (vt_token k) s = None \<Longrightarrow> to_get tops (vt_token k) (to_save tops k s) = Some k"
    and get_token_again: "tok s \<Longrightarrow> to_get tops (vt_token k) s = Some old \<Longrightarrow>
      to_get tops (vt_token k) (to_save tops k s) \<in> {Some k, Some (old\<lparr>vt_consumed := vt_consumed k\<rparr>)}"
    and get_token_other: "tok s \<Longrightarrow> t \<noteq> vt_token k \<Longrightarrow> to_get tops t (to_save tops k s) = to_get tops t s"
    and consume: "tok s \<Longrightarrow> to_consume tops t s = (b, s') \<Longrightarrow>
      tok s' \<and> b = (\<exists>k. to_get tops t s = Some k \<and> \<not> vt_consumed k) \<and>
      (\<forall>t'. to_get tops t' s' =
         (if t' = t then map_option (\<lambda>k. k\<lparr>vt_consumed := True\<rparr>) (to_get tops t s) else to_get tops t' s))"

definition mem_creds_ok :: "mem_creds \<Rightarrow> bool" where
  "mem_creds_ok s \<longleftrightarrow>
     (\<forall>u c. map_of (mc_by_id s) u = Some c \<longrightarrow> cr_user_id c = u \<and> map_of (mc_by_email s) (lower (cr_email c)) = Some u) \<and>
     (\<forall>e u. map_of (mc_by_email s) e = Some u \<longrightarrow> (\<exists>c. map_of (mc_by_id s) u = Some c \<and> lower (cr_email c) = e))"

definition sql_creds_ok :: "cred_table \<Rightarrow> bool" where
  "sql_creds_ok s \<longleftrightarrow> distinct (map fst s) \<and> distinct (map (\<lambda>(u, c). lower (cr_email c)) s) \<and>
     (\<forall>(u, c) \<in> set s. cr_user_id c = u)"

definition tokens_ok :: "tokens \<Rightarrow> bool" where
  "tokens_ok s \<longleftrightarrow> distinct (map fst s)"

lemma mem_by_email:
  assumes "mem_creds_ok s"
  shows "co_get_by_email mem_cred_ops e s = Some c \<longleftrightarrow> map_of (mc_by_id s) (cr_user_id c) = Some c \<and> lower (cr_email c) = lower e"
  using assms unfolding mem_creds_ok_def by (fastforce simp: mem_cred_ops_def split: option.splits)

interpretation mem_credentials: credential_store mem_cred_ops mem_creds_ok
proof unfold_locales
  fix s c
  assume s: "mem_creds_ok s"
  show "mem_creds_ok (co_save mem_cred_ops c s)" if "can_save mem_cred_ops c s"
  proof -
    have same: "cr_user_id c' = cr_user_id c" if "map_of (mc_by_id s) (cr_user_id c') = Some c'" "lower (cr_email c') = lower (cr_email c)" for c'
      using \<open>can_save mem_cred_ops c s\<close> that mem_by_email [OF s, of "cr_email c" c'] by (simp add: can_save_def)
    have kept: "lower (cr_email c') = lower (cr_email c)" if "map_of (mc_by_id s) (cr_user_id c) = Some c'" for c'
      using \<open>can_save mem_cred_ops c s\<close> that by (simp add: can_save_def mem_cred_ops_def)
    have ids: "cr_user_id c' = u \<and> map_of (mc_by_email s) (lower (cr_email c')) = Some u" if "map_of (mc_by_id s) u = Some c'" for u c'
      using s that unfolding mem_creds_ok_def by blast
    have emails: "\<exists>c'. map_of (mc_by_id s) u = Some c' \<and> lower (cr_email c') = e" if "map_of (mc_by_email s) e = Some u" for e u
      using s that unfolding mem_creds_ok_def by blast
    have 1: "cr_user_id c' = u \<and> ((map_of (mc_by_email s))(lower (cr_email c) \<mapsto> cr_user_id c)) (lower (cr_email c')) = Some u"
      if "((map_of (mc_by_id s))(cr_user_id c \<mapsto> c)) u = Some c'" for u c'
      using that ids [of u c'] same [of c'] by (cases "u = cr_user_id c") auto
    have 2: "\<exists>c'. ((map_of (mc_by_id s))(cr_user_id c \<mapsto> c)) u = Some c' \<and> lower (cr_email c') = e"
      if "((map_of (mc_by_email s))(lower (cr_email c) \<mapsto> cr_user_id c)) e = Some u" for e u
    proof (cases "e = lower (cr_email c)")
      case False
      with that emails obtain c' where "map_of (mc_by_id s) u = Some c'" "lower (cr_email c') = e" by auto
      with False kept show ?thesis by (cases "u = cr_user_id c") auto
    qed (use that in simp)
    have store: "mc_by_id (co_save mem_cred_ops c s) = AList.update (cr_user_id c) c (mc_by_id s)"
      "mc_by_email (co_save mem_cred_ops c s) = AList.update (lower (cr_email c)) (cr_user_id c) (mc_by_email s)"
      by (simp_all add: mem_cred_ops_def)
    show ?thesis unfolding mem_creds_ok_def store update_conv' using 1 2 by blast
  qed
  show "co_get_by_email mem_cred_ops e s = Some c \<longleftrightarrow>
      co_get_by_user_id mem_cred_ops (cr_user_id c) s = Some c \<and> lower (cr_email c) = lower e" for e
    using mem_by_email [OF s] by (simp add: mem_cred_ops_def)
qed (auto simp: mem_cred_ops_def mem_creds_ok_def update_conv')

lemma sql_by_email:
  assumes "sql_creds_ok s"
  shows "co_get_by_email sql_cred_ops e s = Some c \<longleftrightarrow> map_of s (cr_user_id c) = Some c \<and> lower (cr_email c) = lower e"
  using assms
proof (induction s)
  case (Cons x s)
  obtain u d where x: "x = (u, d)" by fastforce
  have s: "sql_creds_ok s" using Cons.prems by (auto simp: sql_creds_ok_def)
  have d: "cr_user_id d = u" "distinct (map fst s)" using Cons.prems by (simp_all add: sql_creds_ok_def x)
  have other: "a \<noteq> u \<and> lower (cr_email k) \<noteq> lower (cr_email d)" if "map_of s a = Some k" for a k
  proof -
    have "a \<in> fst ` set s" "lower (cr_email k) \<in> (\<lambda>(u, c). lower (cr_email c)) ` set s"
      using map_of_SomeD [OF that] by force+
    moreover have "u \<notin> fst ` set s" "lower (cr_email d) \<notin> (\<lambda>(u, c). lower (cr_email c)) ` set s"
      using Cons.prems unfolding sql_creds_ok_def x by simp_all
    ultimately show ?thesis by metis
  qed
  show ?case
  proof (cases "lower (cr_email d) = lower e")
    case True
    then show ?thesis using d(1) other [of "cr_user_id c" c] by (auto simp: sql_cred_ops_def x)
  next
    case False
    have "co_get_by_email sql_cred_ops e (x # s) = Some c \<longleftrightarrow> map_of s (cr_user_id c) = Some c \<and> lower (cr_email c) = lower e"
      using False Cons.IH [OF s] by (simp add: sql_cred_ops_def x)
    then show ?thesis using False d(1) other [of "cr_user_id c" c] by (auto simp: x)
  qed
qed (simp add: sql_cred_ops_def)

lemma sql_save_get:
  assumes "sql_creds_ok s" "can_save sql_cred_ops c s"
  shows "map_of (sql_save_cred c s) u = (if u = cr_user_id c then Some c else map_of s u)"
proof (cases "map_of s (cr_user_id c)")
  case None
  then show ?thesis by (simp add: sql_save_cred_def map_add_def split: option.split)
next
  case (Some old)
  then have "cr_user_id old = cr_user_id c" "cr_created_at old = cr_created_at c"
    using assms map_of_SomeD [OF Some] by (auto simp: sql_creds_ok_def can_save_def sql_cred_ops_def)
  then have "old\<lparr>cr_email := cr_email c, cr_password_hash := cr_password_hash c, cr_verified := cr_verified c\<rparr> = c" by simp
  with Some show ?thesis by (simp add: sql_save_cred_def update_conv')
qed

lemma sql_creds_okI:
  assumes "distinct (map fst s)" "\<And>u c. map_of s u = Some c \<Longrightarrow> cr_user_id c = u"
    and "\<And>u v c d. map_of s u = Some c \<Longrightarrow> map_of s v = Some d \<Longrightarrow> lower (cr_email c) = lower (cr_email d) \<Longrightarrow> u = v"
  shows "sql_creds_ok s"
proof -
  have mem: "(u, c) \<in> set s \<longleftrightarrow> map_of s u = Some c" for u c using assms(1) by simp
  have "inj_on (\<lambda>(u, c). lower (cr_email c)) (set s)"
  proof (rule inj_onI)
    fix x y assume xy: "x \<in> set s" "y \<in> set s" "(case x of (u, c) \<Rightarrow> lower (cr_email c)) = (case y of (u, c) \<Rightarrow> lower (cr_email c))"
    obtain u c v d where "x = (u, c)" "y = (v, d)" by fastforce
    with xy show "x = y" using assms(3) [of u c v d] mem by auto
  qed
  then show ?thesis
    using assms(1,2) by (auto simp: sql_creds_ok_def distinct_map)
qed

lemma sql_save_ok:
  assumes s: "sql_creds_ok s" and can: "can_save sql_cred_ops c s"
  shows "sql_creds_ok (sql_save_cred c s)"
proof (rule sql_creds_okI)
  show "distinct (map fst (sql_save_cred c s))"
    using s map_of_eq_None_iff [of s "cr_user_id c"]
    by (auto simp: sql_save_cred_def sql_creds_ok_def distinct_update split: option.split dest: map_of_SomeD)
  have ids: "cr_user_id d = u" if "map_of s u = Some d" for u d
    using s map_of_SomeD [OF that] by (auto simp: sql_creds_ok_def)
  show "cr_user_id d = u" if "map_of (sql_save_cred c s) u = Some d" for u d
    using that ids by (auto simp: sql_save_get [OF s can] split: if_splits)
  have same: "cr_user_id d = cr_user_id c" if "map_of s (cr_user_id d) = Some d" "lower (cr_email d) = lower (cr_email c)" for d
    using can sql_by_email [OF s, of "cr_email c" d] that unfolding can_save_def by blast
  have unique: "u = v" if "map_of s u = Some d" "map_of s v = Some d'" "lower (cr_email d) = lower (cr_email d')" for u v d d'
    using sql_by_email [OF s, of "cr_email d" d] sql_by_email [OF s, of "cr_email d" d'] that ids [OF that(1)] ids [OF that(2)] by simp
  have taken: "u = cr_user_id c" if "map_of s u = Some d" "lower (cr_email d) = lower (cr_email c)" for u d
    using same [of d] ids [OF that(1)] that by simp
  show "u = v" if uv: "map_of (sql_save_cred c s) u = Some d" "map_of (sql_save_cred c s) v = Some d'"
    "lower (cr_email d) = lower (cr_email d')" for u v d d'
  proof -
    have u: "if u = cr_user_id c then d = c else map_of s u = Some d" "if v = cr_user_id c then d' = c else map_of s v = Some d'"
      using uv(1,2) by (auto simp: sql_save_get [OF s can] simp del: map_of_eq_Some_iff Some_eq_map_of_iff split: if_splits)
    show ?thesis
    proof (cases "u = cr_user_id c")
      case True
      then show ?thesis using u uv(3) taken [of v d'] by metis
    next
      case False
      then show ?thesis using u uv(3) taken [of u d] unique [of u d v d'] by metis
    qed
  qed
qed

interpretation sql_credentials: credential_store sql_cred_ops sql_creds_ok
proof unfold_locales
  fix s c u
  assume s: "sql_creds_ok s"
  show "sql_creds_ok (co_save sql_cred_ops c s)" if "can_save sql_cred_ops c s"
    using sql_save_ok [OF s that] by (simp add: sql_cred_ops_def)
  show "co_get_by_user_id sql_cred_ops u (co_save sql_cred_ops c s) = (if u = cr_user_id c then Some c else co_get_by_user_id sql_cred_ops u s)"
    if "can_save sql_cred_ops c s"
    using sql_save_get [OF s that] by (simp add: sql_cred_ops_def)
  show "co_get_by_email sql_cred_ops e s = Some c \<longleftrightarrow>
      co_get_by_user_id sql_cred_ops (cr_user_id c) s = Some c \<and> lower (cr_email c) = lower e" for e
    using sql_by_email [OF s] by (simp add: sql_cred_ops_def)
  show "cr_user_id c = u" if "co_get_by_user_id sql_cred_ops u s = Some c"
    using s that by (auto simp: sql_cred_ops_def sql_creds_ok_def dest: map_of_SomeD)
qed

interpretation mem_token_store: token_store mem_token_ops tokens_ok
  by unfold_locales
    (auto simp: mem_token_ops_def mem_consume_def tokens_ok_def update_conv' distinct_update
      simp del: map_of_eq_Some_iff Some_eq_map_of_iff split: option.splits if_splits)

lemma sql_consume_get:
  "map_of (snd (sql_consume t s)) t' =
     (if t' = t then map_option (\<lambda>k. k\<lparr>vt_consumed := True\<rparr>) (map_of s t) else map_of s t')"
  by (induction s) (auto simp: sql_consume_def)

lemma one_match:
  assumes "distinct (map fst s)"
  shows "length (filter (\<lambda>(a, k). a = t \<and> P k) s) = 1 \<longleftrightarrow> (\<exists>k. map_of s t = Some k \<and> P k)"
  using assms
proof (induction s)
  case (Cons x s)
  have "filter (\<lambda>(a, k). a = t \<and> P k) s = []" if "t \<notin> fst ` set s"
    using that by (force simp: filter_empty_conv)
  with Cons show ?case by (cases x) auto
qed simp

interpretation sql_token_store: token_store sql_token_ops tokens_ok
proof unfold_locales
  fix s k t b s' old
  assume s: "tokens_ok s"
  show "to_get sql_token_ops (vt_token k) (to_save sql_token_ops k s) \<in> {Some k, Some (old\<lparr>vt_consumed := vt_consumed k\<rparr>)}"
    if "to_get sql_token_ops (vt_token k) s = Some old"
    using that by (simp add: sql_token_ops_def sql_save_token_def update_conv')
  show "tokens_ok (to_save sql_token_ops k s)"
    using s map_of_eq_None_iff [of s "vt_token k"]
    by (auto simp: sql_token_ops_def sql_save_token_def tokens_ok_def distinct_update split: option.split dest: map_of_SomeD)
  show "to_get sql_token_ops (vt_token k) (to_save sql_token_ops k s) = Some k" if "to_get sql_token_ops (vt_token k) s = None"
    using that by (simp add: sql_token_ops_def sql_save_token_def map_add_def)
  show "to_get sql_token_ops t (to_save sql_token_ops k s) = to_get sql_token_ops t s" if "t \<noteq> vt_token k"
    using that by (auto simp: sql_token_ops_def sql_save_token_def update_conv' map_add_def split: option.split)
  show "tokens_ok s' \<and> b = (\<exists>k. to_get sql_token_ops t s = Some k \<and> \<not> vt_consumed k) \<and>
      (\<forall>t'. to_get sql_token_ops t' s' =
         (if t' = t then map_option (\<lambda>k. k\<lparr>vt_consumed := True\<rparr>) (to_get sql_token_ops t s) else to_get sql_token_ops t' s))"
    if "to_consume sql_token_ops t s = (b, s')"
  proof -
    have s': "s' = snd (sql_consume t s)" "b = fst (sql_consume t s)" using that by (simp_all add: sql_token_ops_def)
    have "tokens_ok s'" using s by (simp add: s' sql_consume_def tokens_ok_def case_prod_beta comp_def)
    moreover have "b = (\<exists>k. map_of s t = Some k \<and> \<not> vt_consumed k)"
      using s one_match [of s t "\<lambda>k. \<not> vt_consumed k"] by (simp add: s' sql_consume_def tokens_ok_def)
    ultimately show ?thesis by (simp add: sql_token_ops_def s'(1) sql_consume_get)
  qed
qed

section \<open>Calls of the service\<close>

datatype auth_call =
    SignupCall string string int string int string
  | VerifyCall string int
  | RequestCall string int string
  | ResetCall string string int string

definition succeeded :: "'x res \<times> 'w \<Rightarrow> bool \<times> 'w" where
  "succeeded r = (is_ok (fst r), snd r)"

primrec auth_step ::
  "('c, 't, 'a, 'h) auth_service \<Rightarrow> auth_call \<Rightarrow> ('c, 't, 'a, 'h) auth_world \<Rightarrow> bool \<times> ('c, 't, 'a, 'h) auth_world" where
  "auth_step svc (SignupCall email pw now salt now' token) w = succeeded (auth_signup svc email pw now salt now' token w)"
| "auth_step svc (VerifyCall token now) w = verify_email svc token now w"
| "auth_step svc (RequestCall email now token) w = (let (r, w') = request_password_reset svc email now token w in (r \<noteq> None, w'))"
| "auth_step svc (ResetCall token pw now salt) w = (let (r, w') = reset_password svc token pw now salt w in (r = Inr True, w'))"

fun auth_mints :: "auth_call \<Rightarrow> string option" where
  "auth_mints (SignupCall email pw now salt now' token) = Some token"
| "auth_mints (RequestCall email now token) = Some token"
| "auth_mints c = None"

fun auth_redeems :: "auth_call \<Rightarrow> string option" where
  "auth_redeems (VerifyCall token now) = Some token"
| "auth_redeems (ResetCall token pw now salt) = Some token"
| "auth_redeems c = None"

primrec auth_run :: "('c, 't, 'a, 'h) auth_service \<Rightarrow> auth_call list \<Rightarrow> ('c, 't, 'a, 'h) auth_world \<Rightarrow> ('c, 't, 'a, 'h) auth_world" where
  "auth_run svc [] w = w"
| "auth_run svc (c # cs) w = auth_run svc cs (snd (auth_step svc c w))"

locale auth_stores = credential_store cops cok + token_store tops tok
  for cops :: "'c cred_ops" and cok :: "'c \<Rightarrow> bool" and tops :: "'t token_ops" and tok :: "'t \<Rightarrow> bool" +
  fixes svc :: "('c, 't, 'a, 'h) auth_service"
  assumes svc_creds: "as_creds svc = cops" and svc_tokens: "as_tokens svc = tops"
begin

definition known :: "('c, 't, 'a, 'h) auth_world \<Rightarrow> string \<Rightarrow> bool" where
  "known w t \<longleftrightarrow> to_get tops t (aw_tokens w) \<noteq> None"

definition spent :: "('c, 't, 'a, 'h) auth_world \<Rightarrow> string \<Rightarrow> bool" where
  "spent w t \<longleftrightarrow> (\<exists>k. to_get tops t (aw_tokens w) = Some k \<and> vt_consumed k)"

definition auth_ok :: "('c, 't, 'a, 'h) auth_world \<Rightarrow> bool" where
  "auth_ok w \<longleftrightarrow> cok (aw_creds w) \<and> tok (aw_tokens w) \<and>
     (\<forall>u c. co_get_by_user_id cops u (aw_creds w) = Some c \<longrightarrow> cr_email c = u) \<and>
     (\<forall>t k. to_get tops t (aw_tokens w) = Some k \<longrightarrow> vt_email k = vt_user_id k)"

lemma note_auth_world [simp]: "aw_creds (note_auth svc a act at tg w) = aw_creds w" "aw_tokens (note_auth svc a act at tg w) = aw_tokens w"
  by (simp_all add: note_auth_def split: option.split)

lemma run_hook_world [simp]: "aw_creds (snd (run_hook svc e w)) = aw_creds w" "aw_tokens (snd (run_hook svc e w)) = aw_tokens w"
  by (simp_all add: run_hook_def case_prod_beta split: option.split)

text \<open>What one call does: nothing, it issues a token, it registers an address, or it redeems a token for
  the credential of its user.\<close>

lemma step_cases:
  assumes ok: "auth_ok w"
  obtains (same) "aw_creds (snd (auth_step svc c w)) = aw_creds w" "aw_tokens (snd (auth_step svc c w)) = aw_tokens w"
      "\<And>t. auth_redeems c = Some t \<Longrightarrow> \<not> fst (auth_step svc c w)"
    | (registered) k d where "auth_mints c = Some (vt_token k)" "\<not> vt_consumed k" "vt_user_id k = cr_user_id d" "vt_email k = cr_email d"
        "cr_email d = cr_user_id d" "\<not> cr_verified d" "can_save cops d (aw_creds w)" "co_get_by_user_id cops (cr_user_id d) (aw_creds w) = None"
        "aw_creds (snd (auth_step svc c w)) = co_save cops d (aw_creds w)"
        "aw_tokens (snd (auth_step svc c w)) = to_save tops k (aw_tokens w)"
    | (issued) k d where "auth_mints c = Some (vt_token k)" "\<not> vt_consumed k" "vt_user_id k = cr_user_id d" "vt_email k = cr_email d"
        "co_get_by_user_id cops (cr_user_id d) (aw_creds w) = Some d"
        "aw_creds (snd (auth_step svc c w)) = aw_creds w" "aw_tokens (snd (auth_step svc c w)) = to_save tops k (aw_tokens w)"
    | (redeemed) t k d h where "auth_redeems c = Some t" "to_get tops t (aw_tokens w) = Some k" "\<not> vt_consumed k"
        "co_get_by_user_id cops (vt_user_id k) (aw_creds w) = Some d"
        "aw_creds (snd (auth_step svc c w)) = co_save cops (d\<lparr>cr_password_hash := h, cr_verified := True\<rparr>) (aw_creds w)"
        "aw_tokens (snd (auth_step svc c w)) = snd (to_consume tops t (aw_tokens w))"
    | (wasted) t k where "auth_redeems c = Some t" "to_get tops t (aw_tokens w) = Some k" "\<not> vt_consumed k"
        "\<not> fst (auth_step svc c w)"
        "aw_creds (snd (auth_step svc c w)) = aw_creds w" "aw_tokens (snd (auth_step svc c w)) = snd (to_consume tops t (aw_tokens w))"
proof -
  have cok: "cok (aw_creds w)" and tok: "tok (aw_tokens w)" using ok by (simp_all add: auth_ok_def)
  have consumed: "fst (to_consume tops token (aw_tokens w))" if "to_get tops token (aw_tokens w) = Some k" "\<not> vt_consumed k" for token k
    using consume [OF tok, of token] that by (metis prod.collapse)
  show ?thesis
proof (cases c)
  case (VerifyCall token now)
  show ?thesis
  proof (cases "fst (verify_email svc token now w)")
    case True
    then obtain k d where k: "to_get tops token (aw_tokens w) = Some k" "\<not> vt_consumed k"
        "co_get_by_user_id cops (vt_user_id k) (aw_creds w) = Some d"
      and r: "aw_creds (snd (verify_email svc token now w)) = co_save cops (d\<lparr>cr_verified := True\<rparr>) (aw_creds w)"
        "aw_tokens (snd (verify_email svc token now w)) = snd (to_consume tops token (aw_tokens w))"
      by (auto simp: verify_email_def svc_creds svc_tokens split: option.splits if_splits prod.splits bool.splits)
    have "d\<lparr>cr_verified := True\<rparr> = d\<lparr>cr_password_hash := cr_password_hash d, cr_verified := True\<rparr>" by simp
    then show ?thesis using redeemed [of token k d "cr_password_hash d"] k r VerifyCall by simp
  next
    case False
    have "fst (to_consume tops token (aw_tokens w))" if "to_get tops token (aw_tokens w) = Some k" "\<not> vt_consumed k" for k
      using consumed that by blast
    then have "snd (verify_email svc token now w) = w"
      using False by (auto simp: verify_email_def svc_creds svc_tokens split: option.splits if_splits prod.splits bool.splits)
    then show ?thesis using same False VerifyCall by simp
  qed
next
  case (RequestCall email now token)
  show ?thesis
  proof (cases "co_get_by_email cops email (aw_creds w)")
    case None
    then show ?thesis using same RequestCall by (simp add: request_password_reset_def svc_creds)
  next
    case (Some d)
    then have "co_get_by_user_id cops (cr_user_id d) (aw_creds w) = Some d" using by_email [OF cok] by blast
    with Some show ?thesis
      using issued [of "\<lparr>vt_token = token, vt_user_id = cr_user_id d, vt_email = cr_email d, vt_purpose = PASSWORD_RESET,
          vt_created_at = now, vt_expires_at = now + as_reset_ttl svc, vt_consumed = False\<rparr>" d] RequestCall
      by (simp add: request_password_reset_def issue_token_def svc_creds svc_tokens)
  qed
next
  case (ResetCall token pw now salt)
  define r where "r = reset_password svc token pw now salt w"
  have step: "auth_step svc c w = (fst r = Inr True, snd r)" by (simp add: ResetCall r_def case_prod_beta)
  show ?thesis
  proof (cases "\<exists>k d. to_get tops token (aw_tokens w) = Some k \<and> vt_purpose k = PASSWORD_RESET \<and> \<not> vt_consumed k \<and>
      \<not> vt_is_expired k now \<and> \<not> int (char_count pw) < as_min_len svc \<and> co_get_by_user_id cops (vt_user_id k) (aw_creds w) = Some d")
    case True
    then obtain k d where k: "to_get tops token (aw_tokens w) = Some k" "vt_purpose k = PASSWORD_RESET" "\<not> vt_consumed k"
      "\<not> vt_is_expired k now" "\<not> int (char_count pw) < as_min_len svc" "co_get_by_user_id cops (vt_user_id k) (aw_creds w) = Some d"
      by blast
    obtain ts where ts: "to_consume tops token (aw_tokens w) = (True, ts)" using consumed [OF k(1,3)] by (metis prod.collapse)
    show ?thesis
    proof (cases "hash_password (as_hasher svc) pw salt")
      case (Inl e)
      then show ?thesis
        using wasted [of token k] k ts step ResetCall by (simp add: r_def reset_password_def svc_creds svc_tokens)
    next
      case (Inr h)
      then show ?thesis
        using redeemed [of token k d h] k ts step ResetCall by (simp add: r_def reset_password_def svc_creds svc_tokens)
    qed
  next
    case False
    then have "r = (Inr False, w)"
      by (auto simp: r_def reset_password_def svc_creds svc_tokens split: option.split)
    then show ?thesis using same step by simp
  qed
next
  case (SignupCall email pw now salt now' token)
  define r where "r = auth_signup svc email pw now salt now' token w"
  have step: "auth_step svc c w = (is_ok (fst r), snd r)" by (simp add: SignupCall r_def succeeded_def)
  show ?thesis
  proof (cases "List.member (strip email) CHR ''@'' \<and> \<not> int (char_count pw) < as_min_len svc \<and>
      co_get_by_email cops (strip email) (aw_creds w) = None \<and> is_ok (hash_password (as_hasher svc) pw salt)")
    case True
    then obtain h where h: "hash_password (as_hasher svc) pw salt = Inr h" by (auto simp: is_ok_def split: sum.splits)
    define d where "d = \<lparr>cr_user_id = strip email, cr_email = strip email, cr_password_hash = h, cr_verified = False, cr_created_at = now\<rparr>"
    have "co_get_by_user_id cops (strip email) (aw_creds w) = None"
      using True by_email [OF cok, of "strip email"] own_id [OF cok] ok unfolding auth_ok_def by (metis not_Some_eq)
    then have d: "can_save cops d (aw_creds w)" "co_get_by_user_id cops (cr_user_id d) (aw_creds w) = None"
      using True by (simp_all add: can_save_def d_def)
    have "aw_creds (snd r) = co_save cops d (aw_creds w)"
      "aw_tokens (snd r) = to_save tops \<lparr>vt_token = token, vt_user_id = cr_user_id d, vt_email = cr_email d, vt_purpose = VERIFY_EMAIL,
          vt_created_at = now', vt_expires_at = now' + as_verify_ttl svc, vt_consumed = False\<rparr> (aw_tokens w)"
      using True h
      by (simp_all add: r_def auth_signup_def Let_def seqm_def bind_def raise_if_def svc_creds svc_tokens issue_token_def
          case_prod_beta d_def split: sum.split)
    then show ?thesis
      using registered [of "\<lparr>vt_token = token, vt_user_id = cr_user_id d, vt_email = cr_email d, vt_purpose = VERIFY_EMAIL,
          vt_created_at = now', vt_expires_at = now' + as_verify_ttl svc, vt_consumed = False\<rparr>" d] d step SignupCall
      by (simp add: d_def)
  next
    case False
    then have "snd r = w"
      by (auto simp: r_def auth_signup_def Let_def seqm_def bind_def raise_if_def svc_creds is_ok_def split: sum.splits)
    then show ?thesis using same step SignupCall by simp
  qed
qed
qed

lemma get_consumed:
  assumes "auth_ok w"
  shows "to_get tops t' (snd (to_consume tops t (aw_tokens w))) =
    (if t' = t then map_option (\<lambda>k. k\<lparr>vt_consumed := True\<rparr>) (to_get tops t (aw_tokens w)) else to_get tops t' (aw_tokens w))"
  using consume [of "aw_tokens w" t] assms unfolding auth_ok_def by (metis prod.collapse)

lemma consume_ok: "auth_ok w \<Longrightarrow> tok (snd (to_consume tops t (aw_tokens w)))"
  using consume [of "aw_tokens w" t] unfolding auth_ok_def by (metis prod.collapse)

lemma save_redeemed:
  assumes "auth_ok w" "co_get_by_user_id cops u (aw_creds w) = Some d"
  shows "can_save cops (d\<lparr>cr_password_hash := h, cr_verified := v\<rparr>) (aw_creds w)"
  using assms by_email [of "aw_creds w" "cr_email d"] own_id [of "aw_creds w"]
  unfolding auth_ok_def can_save_def by simp (metis option.inject)

lemma get_minted:
  "auth_ok w \<Longrightarrow> to_get tops (vt_token k) (aw_tokens w) = None \<Longrightarrow>
     to_get tops t (to_save tops k (aw_tokens w)) = (if t = vt_token k then Some k else to_get tops t (aw_tokens w))"
  using get_token_new [of "aw_tokens w" k] get_token_other [of "aw_tokens w" t k] by (simp add: auth_ok_def)

lemma minted_email:
  assumes "auth_ok w" "vt_email k = vt_user_id k" "to_get tops t (to_save tops k (aw_tokens w)) = Some k'"
  shows "vt_email k' = vt_user_id k'"
proof (cases "t = vt_token k")
  case True
  show ?thesis
  proof (cases "to_get tops (vt_token k) (aw_tokens w)")
    case None
    with True assms show ?thesis using get_minted [of w k t] by simp
  next
    case (Some old)
    then have "k' = k \<or> k' = old\<lparr>vt_consumed := vt_consumed k\<rparr>"
      using True assms(1,3) get_token_again [of "aw_tokens w" k old] unfolding auth_ok_def by auto
    with Some assms(1,2) show ?thesis by (auto simp: auth_ok_def)
  qed
next
  case False
  with assms(1,3) show ?thesis using get_token_other [of "aw_tokens w" t k] by (simp add: auth_ok_def)
qed

lemma auth_okI:
  assumes "cok (aw_creds w)" "tok (aw_tokens w)" "\<And>u c. co_get_by_user_id cops u (aw_creds w) = Some c \<Longrightarrow> cr_email c = u"
    and "\<And>t k. to_get tops t (aw_tokens w) = Some k \<Longrightarrow> vt_email k = vt_user_id k"
  shows "auth_ok w"
  using assms by (simp add: auth_ok_def)

lemma auth_okD:
  assumes "auth_ok w"
  shows "cok (aw_creds w)" "tok (aw_tokens w)" "co_get_by_user_id cops u (aw_creds w) = Some c \<Longrightarrow> cr_email c = u"
    "to_get tops t (aw_tokens w) = Some k \<Longrightarrow> vt_email k = vt_user_id k"
  using assms by (simp_all add: auth_ok_def)

lemma auth_ok_step:
  assumes ok: "auth_ok w"
  shows "auth_ok (snd (auth_step svc c w))"
proof (rule step_cases [OF ok, of c])
  note old = auth_okD [OF ok]
  show "auth_ok (snd (auth_step svc c w))"
    if "aw_creds (snd (auth_step svc c w)) = aw_creds w" "aw_tokens (snd (auth_step svc c w)) = aw_tokens w"
    using ok that by (simp add: auth_ok_def)
  show "auth_ok (snd (auth_step svc c w))"
    if k: "auth_mints c = Some (vt_token k)" "vt_user_id k = cr_user_id d" "vt_email k = cr_email d" "cr_email d = cr_user_id d"
      "can_save cops d (aw_creds w)" and w: "aw_creds (snd (auth_step svc c w)) = co_save cops d (aw_creds w)"
      "aw_tokens (snd (auth_step svc c w)) = to_save tops k (aw_tokens w)" for k d
    by (rule auth_okI; unfold w)
      (use old k minted_email [OF ok, of k] in \<open>auto simp: save_ok get_save save_token_ok split: if_splits\<close>)
  show "auth_ok (snd (auth_step svc c w))"
    if k: "auth_mints c = Some (vt_token k)" "vt_user_id k = cr_user_id d" "vt_email k = cr_email d"
      "co_get_by_user_id cops (cr_user_id d) (aw_creds w) = Some d" and w: "aw_creds (snd (auth_step svc c w)) = aw_creds w"
      "aw_tokens (snd (auth_step svc c w)) = to_save tops k (aw_tokens w)" for k d
    by (rule auth_okI; unfold w)
      (use old k minted_email [OF ok, of k] in \<open>auto simp: save_token_ok split: if_splits\<close>)
  show "auth_ok (snd (auth_step svc c w))"
    if k: "co_get_by_user_id cops (vt_user_id k) (aw_creds w) = Some d"
      and w: "aw_creds (snd (auth_step svc c w)) = co_save cops (d\<lparr>cr_password_hash := h, cr_verified := True\<rparr>) (aw_creds w)"
      "aw_tokens (snd (auth_step svc c w)) = snd (to_consume tops t (aw_tokens w))" for t k d h
    by (rule auth_okI; unfold w)
      (use old save_redeemed [OF ok k, where h = h and v = True] own_id [OF old(1) k] k get_consumed [OF ok] consume_ok [OF ok] in
        \<open>auto simp: save_ok get_save split: if_splits\<close>)
  show "auth_ok (snd (auth_step svc c w))"
    if w: "aw_creds (snd (auth_step svc c w)) = aw_creds w" "aw_tokens (snd (auth_step svc c w)) = snd (to_consume tops t (aw_tokens w))" for t
    by (rule auth_okI; unfold w) (use old get_consumed [OF ok] consume_ok [OF ok] in \<open>auto split: if_splits\<close>)
qed

lemma tokens: "single_use (auth_step svc) auth_mints auth_redeems known spent auth_ok"
proof unfold_locales
  fix w c t
  assume ok: "auth_ok w"
  let ?w = "snd (auth_step svc c w)"
  show "auth_ok ?w" using ok by (rule auth_ok_step)
  note other = get_token_other [OF auth_okD(2) [OF ok]] and gone = get_consumed [OF ok]
  show "known w t \<and> \<not> spent w t \<and> spent ?w t" if "fst (auth_step svc c w)" "auth_redeems c = Some t"
    by (rule step_cases [OF ok, of c])
      (use that gone in \<open>auto simp: known_def spent_def elim: auth_redeems.elims auth_mints.elims\<close>)
  show "\<not> known ?w t" if "\<not> known w t" "auth_mints c \<noteq> Some t"
    by (rule step_cases [OF ok, of c]) (use that in \<open>auto simp: known_def other gone split: if_splits\<close>)
  show "spent ?w t" if "spent w t" "auth_mints c \<noteq> Some t"
    by (rule step_cases [OF ok, of c]) (use that in \<open>auto simp: spent_def other gone split: if_splits\<close>)
next
  show "auth_mints c = None \<or> auth_redeems c = None" for c by (cases c) simp_all
qed

text \<open>A verified credential has a spent token of its own user.\<close>

definition proved :: "('c, 't, 'a, 'h) auth_world \<Rightarrow> bool" where
  "proved w \<longleftrightarrow> (\<forall>u c. co_get_by_user_id cops u (aw_creds w) = Some c \<and> cr_verified c \<longrightarrow>
     (\<exists>t k. to_get tops t (aw_tokens w) = Some k \<and> vt_consumed k \<and> vt_user_id k = u))"

lemma proved_step:
  assumes ok: "auth_ok w" and "proved w" and fresh: "\<And>t. auth_mints c = Some t \<Longrightarrow> to_get tops t (aw_tokens w) = None"
  shows "proved (snd (auth_step svc c w))"
proof -
  let ?w = "snd (auth_step svc c w)"
  have kept: "\<exists>k. to_get tops t (aw_tokens ?w) = Some k \<and> vt_consumed k \<and> vt_user_id k = u"
    if "to_get tops t (aw_tokens w) = Some k" "vt_consumed k" "vt_user_id k = u" for t k u
  proof -
    have new: "t \<noteq> vt_token k'" if "auth_mints c = Some (vt_token k')" for k'
      using fresh [OF that] \<open>to_get tops t (aw_tokens w) = Some k\<close> by auto
    show ?thesis
      by (rule step_cases [OF ok, of c])
        (use that new get_token_other [OF auth_okD(2) [OF ok], of t] in \<open>auto simp: get_consumed [OF ok]\<close>)
  qed
  show ?thesis
    unfolding proved_def
  proof (intro allI impI)
    fix u d
    assume d: "co_get_by_user_id cops u (aw_creds ?w) = Some d \<and> cr_verified d"
    show "\<exists>t k. to_get tops t (aw_tokens ?w) = Some k \<and> vt_consumed k \<and> vt_user_id k = u"
    proof (cases "co_get_by_user_id cops u (aw_creds w) = Some d")
      case True
      with \<open>proved w\<close> d show ?thesis unfolding proved_def using kept by blast
    next
      case False
      show ?thesis
      proof (rule step_cases [OF ok, of c])
        fix k d' assume "can_save cops d' (aw_creds w)" "\<not> cr_verified d'" "aw_creds ?w = co_save cops d' (aw_creds w)"
        with d False show ?thesis by (auto simp: get_save [OF auth_okD(1) [OF ok]] split: if_splits)
      next
        fix t k d' h
        assume k: "to_get tops t (aw_tokens w) = Some k" and d': "co_get_by_user_id cops (vt_user_id k) (aw_creds w) = Some d'"
          and w: "aw_creds ?w = co_save cops (d'\<lparr>cr_password_hash := h, cr_verified := True\<rparr>) (aw_creds w)"
          "aw_tokens ?w = snd (to_consume tops t (aw_tokens w))"
        have "u = vt_user_id k"
          using d False w(1) own_id [OF auth_okD(1) [OF ok] d'] get_save [OF auth_okD(1) [OF ok] save_redeemed [OF ok d']]
          by (simp split: if_splits)
        then show ?thesis
          using k w(2) get_consumed [OF ok, of t t] by (intro exI [of _ t] exI [of _ "k\<lparr>vt_consumed := True\<rparr>"]) simp
      qed (use d False in simp_all)
    qed
  qed
qed

text \<open>Along calls that mint no token twice.\<close>

lemma stays_new:
  "auth_ok w \<Longrightarrow> to_get tops t (aw_tokens w) = None \<Longrightarrow> auth_mints c \<noteq> Some t \<Longrightarrow>
     to_get tops t (aw_tokens (snd (auth_step svc c w))) = None"
  using single_use.stays_unknown [OF tokens, of w t c] by (simp add: known_def)

lemma proved_run:
  "auth_ok w \<Longrightarrow> proved w \<Longrightarrow> (\<And>t. mint_count auth_mints t cs \<le> 1) \<Longrightarrow>
     (\<And>t. mint_count auth_mints t cs = 0 \<or> to_get tops t (aw_tokens w) = None) \<Longrightarrow>
     auth_ok (auth_run svc cs w) \<and> proved (auth_run svc cs w)"
proof (induction cs arbitrary: w)
  case (Cons c cs)
  have count: "mint_count auth_mints t (c # cs) = (if auth_mints c = Some t then 1 else 0) + mint_count auth_mints t cs" for t
    by (simp add: mint_count_def)
  have "mint_count auth_mints t cs \<le> 1" for t using Cons.prems(3) [of t] unfolding count by simp
  moreover have "mint_count auth_mints t cs = 0 \<or> to_get tops t (aw_tokens (snd (auth_step svc c w))) = None" for t
    using Cons.prems(3) [of t] Cons.prems(4) [of t] stays_new [OF Cons.prems(1), of t c] unfolding count by (auto split: if_splits)
  moreover have "proved (snd (auth_step svc c w))"
  proof (rule proved_step [OF Cons.prems(1,2)])
    show "to_get tops t (aw_tokens w) = None" if "auth_mints c = Some t" for t
      using that Cons.prems(4) [of t] unfolding count by simp
  qed
  ultimately show ?case using Cons.IH [OF auth_ok_step [OF Cons.prems(1)]] by simp
qed simp

lemma login_shows:
  assumes "auth_ok w" "proved w" "auth_login svc email password w = Inr (Some uid)"
  shows "\<exists>c t k. co_get_by_user_id cops uid (aw_creds w) = Some c \<and> lower uid = lower email \<and> cr_verified c \<and>
    verify_password (as_hasher svc) password (cr_password_hash c) = Inr True \<and>
    to_get tops t (aw_tokens w) = Some k \<and> vt_consumed k \<and> vt_email k = uid"
proof -
  obtain c where c: "co_get_by_email cops email (aw_creds w) = Some c" "cr_verified c" "cr_user_id c = uid"
    "verify_password (as_hasher svc) password (cr_password_hash c) = Inr True"
    using assms(3) by (auto simp: auth_login_def svc_creds result_simps split: option.splits if_splits)
  then have g: "co_get_by_user_id cops uid (aw_creds w) = Some c" "lower (cr_email c) = lower email"
    using by_email [OF auth_okD(1) [OF assms(1)], of email c] by simp_all
  with c assms(2) obtain t k where "to_get tops t (aw_tokens w) = Some k" "vt_consumed k" "vt_user_id k = uid"
    unfolding proved_def by blast
  with c g auth_okD(3,4) [OF assms(1)] show ?thesis by metis
qed

end

context auth_stores
begin

lemma redeem_reset:
  assumes ok: "auth_ok w" and k: "to_get tops t (aw_tokens w) = Some k" "vt_purpose k = PASSWORD_RESET" "\<not> vt_consumed k"
    "\<not> vt_is_expired k now" "as_min_len svc \<le> int (char_count pw)"
    and d: "co_get_by_user_id cops (vt_user_id k) (aw_creds w) = Some d" and h: "hash_password (as_hasher svc) pw salt = Inr e"
  obtains w' where "reset_password svc t pw now salt w = (Inr True, w')" "auth_ok w'"
    "\<And>u. co_get_by_user_id cops u (aw_creds w') =
       (if u = vt_user_id k then Some (d\<lparr>cr_password_hash := e, cr_verified := True\<rparr>) else co_get_by_user_id cops u (aw_creds w))"
    "\<And>t'. to_get tops t' (aw_tokens w') = (if t' = t then Some (k\<lparr>vt_consumed := True\<rparr>) else to_get tops t' (aw_tokens w))"
proof -
  have "fst (to_consume tops t (aw_tokens w))"
    using consume [of "aw_tokens w" t] k ok unfolding auth_ok_def by (metis prod.collapse)
  then obtain ts where ts: "to_consume tops t (aw_tokens w) = (True, ts)" by (metis prod.collapse)
  define w' where "w' = snd (reset_password svc t pw now salt w)"
  have r: "reset_password svc t pw now salt w = (Inr True, w')" "aw_tokens w' = ts"
    "aw_creds w' = co_save cops (d\<lparr>cr_password_hash := e, cr_verified := True\<rparr>) (aw_creds w)"
    using k d h ts by (simp_all add: w'_def reset_password_def svc_creds svc_tokens)
  have "auth_ok w'" using auth_ok_step [OF ok, of "ResetCall t pw now salt"] r(1) by simp
  moreover have "cr_user_id d = vt_user_id k" using own_id [OF auth_okD(1) [OF ok] d] .
  ultimately show ?thesis
    using that r get_consumed [OF ok, of _ t] get_save [OF auth_okD(1) [OF ok] save_redeemed [OF ok d]] k(1) ts by simp
qed

lemma redeem_verify:
  assumes ok: "auth_ok w" and k: "to_get tops t (aw_tokens w) = Some k" "vt_purpose k = VERIFY_EMAIL" "\<not> vt_consumed k"
    "\<not> vt_is_expired k now" and d: "co_get_by_user_id cops (vt_user_id k) (aw_creds w) = Some d"
  obtains w' where "verify_email svc t now w = (True, w')" "auth_ok w'"
    "\<And>u. co_get_by_user_id cops u (aw_creds w') =
       (if u = vt_user_id k then Some (d\<lparr>cr_verified := True\<rparr>) else co_get_by_user_id cops u (aw_creds w))"
    "\<And>t'. to_get tops t' (aw_tokens w') = (if t' = t then Some (k\<lparr>vt_consumed := True\<rparr>) else to_get tops t' (aw_tokens w))"
proof -
  have "fst (to_consume tops t (aw_tokens w))"
    using consume [of "aw_tokens w" t] k ok unfolding auth_ok_def by (metis prod.collapse)
  then obtain ts where ts: "to_consume tops t (aw_tokens w) = (True, ts)" by (metis prod.collapse)
  define w' where "w' = snd (verify_email svc t now w)"
  have r: "verify_email svc t now w = (True, w')" "aw_tokens w' = ts" "aw_creds w' = co_save cops (d\<lparr>cr_verified := True\<rparr>) (aw_creds w)"
    using k d ts by (simp_all add: w'_def verify_email_def svc_creds svc_tokens)
  have "auth_ok w'" using auth_ok_step [OF ok, of "VerifyCall t now"] r(1) by simp
  moreover have "cr_user_id d = vt_user_id k" using own_id [OF auth_okD(1) [OF ok] d] .
  moreover have "can_save cops (d\<lparr>cr_verified := True\<rparr>) (aw_creds w)"
    using save_redeemed [OF ok d, where h = "cr_password_hash d" and v = True] by simp
  ultimately show ?thesis
    using that r get_consumed [OF ok, of _ t] get_save [OF auth_okD(1) [OF ok]] k(1) ts by simp
qed

lemma login_exact:
  assumes ok: "auth_ok w" and d: "co_get_by_user_id cops u (aw_creds w) = Some d" "lower e = lower u"
    and v: "verify_password (as_hasher svc) pw (cr_password_hash d) = Inr b"
  shows "auth_login svc e pw w = Inr (if b \<and> cr_verified d then Some u else None)"
proof -
  have "cr_user_id d = u" "cr_email d = u" using own_id [OF auth_okD(1) [OF ok] d(1)] auth_okD(3) [OF ok d(1)] by simp_all
  then have "co_get_by_email cops e (aw_creds w) = Some d" using by_email [OF auth_okD(1) [OF ok], of e d] d by simp
  then show ?thesis using v \<open>cr_user_id d = u\<close> by (simp add: auth_login_def svc_creds)
qed

lemma signup_done:
  assumes ok: "auth_ok w" and no_hook: "as_on_signup svc = None"
    and new: "co_get_by_email cops email (aw_creds w) = None" "to_get tops token (aw_tokens w) = None"
    and email: "strip email = email" "List.member email CHR ''@''" and long: "as_min_len svc \<le> int (char_count pw)"
    and h: "hash_password (as_hasher svc) pw salt = Inr e"
  obtains c k w' where "auth_signup svc email pw now salt now' token w = (Inr (c, token), w')" "auth_ok w'"
    "co_get_by_user_id cops email (aw_creds w') = Some c" "cr_password_hash c = e" "\<not> cr_verified c"
    "to_get tops token (aw_tokens w') = Some k" "vt_user_id k = email" "vt_purpose k = VERIFY_EMAIL" "\<not> vt_consumed k"
    "vt_expires_at k = now' + as_verify_ttl svc"
proof -
  define c where "c = \<lparr>cr_user_id = email, cr_email = email, cr_password_hash = e, cr_verified = False, cr_created_at = now\<rparr>"
  define k where "k = \<lparr>vt_token = token, vt_user_id = email, vt_email = email, vt_purpose = VERIFY_EMAIL,
          vt_created_at = now', vt_expires_at = now' + as_verify_ttl svc, vt_consumed = False\<rparr>"
  define r where "r = auth_signup svc email pw now salt now' token w"
  have "co_get_by_user_id cops email (aw_creds w) = None"
    using new by_email [OF auth_okD(1) [OF ok], of email] own_id [OF auth_okD(1) [OF ok]] auth_okD(3) [OF ok] by (metis not_Some_eq)
  then have can: "can_save cops c (aw_creds w)" using new by (simp add: can_save_def c_def)
  have r: "r = (Inr (c, token), snd r)" "aw_creds (snd r) = co_save cops c (aw_creds w)" "aw_tokens (snd r) = to_save tops k (aw_tokens w)"
    using new email long h no_hook
    by (simp_all add: r_def auth_signup_def Let_def seqm_def bind_def raise_if_def svc_creds svc_tokens issue_token_def
        c_def k_def run_hook_def)
  have "auth_ok (snd r)" using auth_ok_step [OF ok, of "SignupCall email pw now salt now' token"] by (simp add: r_def succeeded_def)
  moreover have "co_get_by_user_id cops email (aw_creds (snd r)) = Some c"
    using get_save [OF auth_okD(1) [OF ok] can, of email] r(2) by (simp add: c_def)
  moreover have "to_get tops token (aw_tokens (snd r)) = Some k"
    using get_token_new [OF auth_okD(2) [OF ok], of k] new(2) r(3) by (simp add: k_def)
  ultimately show ?thesis using that [of c "snd r" k] r(1) by (simp add: r_def c_def k_def)
qed

end

text \<open>The service over given stores.\<close>

definition auth_over ::
  "'c cred_ops \<Rightarrow> 't token_ops \<Rightarrow> 'a audit_ops option \<Rightarrow> password_hasher \<Rightarrow> (string \<Rightarrow> ('h, unit) meth) option \<Rightarrow>
   int \<Rightarrow> int \<Rightarrow> int \<Rightarrow> string \<Rightarrow> ('c, 't, 'a, 'h) auth_service" where
  "auth_over creds toks audit h hook min_len verify_ttl reset_ttl dummy =
     \<lparr>as_creds = creds, as_tokens = toks, as_audit = audit, as_hasher = h, as_on_signup = hook, as_min_len = min_len,
      as_verify_ttl = verify_ttl, as_reset_ttl = reset_ttl, as_dummy_hash = dummy\<rparr>"

interpretation mem_auth: auth_stores mem_cred_ops mem_creds_ok mem_token_ops tokens_ok
  "auth_over mem_cred_ops mem_token_ops audit h hook min_len verify_ttl reset_ttl dummy"
  for audit h hook min_len verify_ttl reset_ttl dummy
  by unfold_locales (simp_all add: auth_over_def)

interpretation sql_auth: auth_stores sql_cred_ops sql_creds_ok sql_token_ops tokens_ok
  "auth_over sql_cred_ops sql_token_ops audit h hook min_len verify_ttl reset_ttl dummy"
  for audit h hook min_len verify_ttl reset_ttl dummy
  by unfold_locales (simp_all add: auth_over_def)

interpretation mem_auth_tokens: single_use
  "auth_step (auth_over mem_cred_ops mem_token_ops audit h hook min_len verify_ttl reset_ttl dummy)" auth_mints auth_redeems
  mem_auth.known mem_auth.spent mem_auth.auth_ok
  for audit h hook min_len verify_ttl reset_ttl dummy
  by (rule mem_auth.tokens)

interpretation sql_auth_tokens: single_use
  "auth_step (auth_over sql_cred_ops sql_token_ops audit h hook min_len verify_ttl reset_ttl dummy)" auth_mints auth_redeems
  sql_auth.known sql_auth.spent sql_auth.auth_ok
  for audit h hook min_len verify_ttl reset_ttl dummy
  by (rule sql_auth.tokens)

section \<open>Properties\<close>

definition no_mem_accounts :: "'a \<Rightarrow> 'h \<Rightarrow> (mem_creds, tokens, 'a, 'h) auth_world" where
  "no_mem_accounts a k = \<lparr>aw_creds = \<lparr>mc_by_id = [], mc_by_email = []\<rparr>, aw_tokens = [], aw_audit = a, aw_hook = k\<rparr>"

definition no_sql_accounts :: "'a \<Rightarrow> 'h \<Rightarrow> (cred_table, tokens, 'a, 'h) auth_world" where
  "no_sql_accounts a k = \<lparr>aw_creds = [], aw_tokens = [], aw_audit = a, aw_hook = k\<rparr>"

lemma no_accounts_ok:
  "mem_auth.auth_ok (no_mem_accounts a k)" "mem_auth.proved (no_mem_accounts a k)" "\<not> mem_auth.known (no_mem_accounts a k) t"
  "sql_auth.auth_ok (no_sql_accounts a k)" "sql_auth.proved (no_sql_accounts a k)" "\<not> sql_auth.known (no_sql_accounts a k) t"
  unfolding mem_auth.auth_ok_def mem_auth.proved_def mem_auth.known_def sql_auth.auth_ok_def sql_auth.proved_def sql_auth.known_def
  by (simp_all add: no_mem_accounts_def no_sql_accounts_def mem_creds_ok_def sql_creds_ok_def tokens_ok_def
      mem_cred_ops_def sql_cred_ops_def mem_token_ops_def sql_token_ops_def)

text \<open>C22. A verification or reset link works at most once, in memory and in SQL: along any sequence of calls that
  mints its token once, it is redeemed at most once.\<close>

theorem auth_token_redeemed_once:
  fixes audit :: "'a audit_ops option" and h :: password_hasher and hook :: "(string \<Rightarrow> ('h, unit) meth) option"
    and min_len verify_ttl reset_ttl :: int and dummy :: string
  defines "m \<equiv> auth_over mem_cred_ops mem_token_ops audit h hook min_len verify_ttl reset_ttl dummy"
    and "s \<equiv> auth_over sql_cred_ops sql_token_ops audit h hook min_len verify_ttl reset_ttl dummy"
  assumes "mint_count auth_mints t calls \<le> 1"
  shows "redeem_count (auth_step m) auth_redeems t calls (no_mem_accounts a k) \<le> 1 \<and>
    redeem_count (auth_step s) auth_redeems t calls (no_sql_accounts a k) \<le> 1"
  unfolding m_def s_def
  by (intro conjI mem_auth_tokens.redeemed_once [OF no_accounts_ok(1,3) assms(3)]
      sql_auth_tokens.redeemed_once [OF no_accounts_ok(4,6) assms(3)])

text \<open>C13. Whoever logs in has proved an address: along any calls that mint no token twice, a successful login
  returns a user whose address is the one typed up to case, whose password hash verifies, and for
  whom a token mailed to that very address has been redeemed.\<close>

theorem login_needs_proof:
  fixes audit :: "'a audit_ops option" and h :: password_hasher and hook :: "(string \<Rightarrow> ('h, unit) meth) option"
    and min_len verify_ttl reset_ttl :: int and dummy :: string
  defines "svc \<equiv> auth_over sql_cred_ops sql_token_ops audit h hook min_len verify_ttl reset_ttl dummy"
  assumes "\<And>t. mint_count auth_mints t calls \<le> 1"
    and login: "auth_login svc email password (auth_run svc calls (no_sql_accounts a k)) = Inr (Some uid)"
  shows "\<exists>c tk. map_of (aw_creds (auth_run svc calls (no_sql_accounts a k))) uid = Some c \<and> lower uid = lower email \<and> cr_verified c \<and>
    verify_password h password (cr_password_hash c) = Inr True \<and>
    tk \<in> snd ` set (aw_tokens (auth_run svc calls (no_sql_accounts a k))) \<and> vt_consumed tk \<and> vt_email tk = uid"
proof -
  let ?w = "auth_run svc calls (no_sql_accounts a k)"
  have run: "sql_auth.auth_ok ?w \<and> sql_auth.proved ?w"
    unfolding svc_def
    by (rule sql_auth.proved_run [OF no_accounts_ok(4,5) assms(2)])
      (simp add: no_sql_accounts_def sql_token_ops_def)
  have "auth_login (auth_over sql_cred_ops sql_token_ops audit h hook min_len verify_ttl reset_ttl dummy) email password ?w = Inr (Some uid)"
    using login by (simp add: svc_def)
  from sql_auth.login_shows [OF conjunct1 [OF run] conjunct2 [OF run] this]
  obtain c t tk where "map_of (aw_creds ?w) uid = Some c" "lower uid = lower email"
    "cr_verified c" "verify_password h password (cr_password_hash c) = Inr True"
    "map_of (aw_tokens ?w) t = Some tk" "vt_consumed tk" "vt_email tk = uid"
    by (auto simp: sql_cred_ops_def sql_token_ops_def auth_over_def)
  moreover from this(5) have "tk \<in> snd ` set (aw_tokens ?w)" by (force dest: map_of_SomeD)
  ultimately show ?thesis by blast
qed

lemma sql_run_ok:
  "sql_auth.auth_ok (auth_run (auth_over sql_cred_ops sql_token_ops audit h hook min_len verify_ttl reset_ttl dummy) calls (no_sql_accounts a k))"
proof -
  have run: "sql_auth.auth_ok (auth_run (auth_over sql_cred_ops sql_token_ops audit h hook min_len verify_ttl reset_ttl dummy) calls w)"
    if "sql_auth.auth_ok w" for w
    using that
  proof (induction calls arbitrary: w)
    case (Cons c calls)
    show ?case unfolding auth_run.simps by (rule Cons.IH [OF sql_auth.auth_ok_step [OF Cons.prems]])
  qed simp
  show ?thesis by (rule run [OF no_accounts_ok(4)])
qed

text \<open>C19. Signing up works, and only a verified address logs in: from any state the service reaches, a new
  address signs up, no password logs it in until its link is redeemed, then exactly the passwords
  with the same derived key do, under any case of the address, and the link is spent.\<close>

theorem sign_up_verify_login:
  fixes audit :: "'a audit_ops option" and h :: password_hasher and min_len verify_ttl reset_ttl :: int and dummy :: string
  defines "svc \<equiv> auth_over sql_cred_ops sql_token_ops audit h None min_len verify_ttl reset_ttl dummy :: (_, _, 'a, 'h) auth_service"
  assumes kd: "derives h kd" and w: "w = auth_run svc calls (no_sql_accounts a x)"
    and new: "co_get_by_email sql_cred_ops email (aw_creds w) = None" "map_of (aw_tokens w) token = None"
    and email: "strip email = email" "List.member email CHR ''@''" and long: "min_len \<le> int (char_count pw)"
    and in_time: "now2 < now' + verify_ttl"
  shows "\<exists>c w1 w2. auth_signup svc email pw now salt now' token w = (Inr (c, token), w1) \<and>
    (\<forall>e pw'. lower e = lower email \<longrightarrow> auth_login svc e pw' w1 = Inr None) \<and>
    verify_email svc token now2 w1 = (True, w2) \<and>
    (\<forall>e pw'. lower e = lower email \<longrightarrow> auth_login svc e pw' w2 = Inr (if kd pw' salt = kd pw salt then Some email else None)) \<and>
    fst (verify_email svc token now3 w2) = False"
proof -
  have svc: "as_hasher svc = h" "as_on_signup svc = None" "as_min_len svc = min_len" "as_verify_ttl svc = verify_ttl"
    by (simp_all add: svc_def auth_over_def)
  have ok: "sql_auth.auth_ok w" unfolding w svc_def by (rule sql_run_ok)
  obtain e where e: "hash_password h pw salt = Inr e" "\<And>pw'. verify_password h pw' e = Inr (kd pw' salt = kd pw salt)"
    using hash_verifies [OF kd] by blast
  note svc_eq = svc_def [symmetric]
  have fresh: "to_get sql_token_ops token (aw_tokens w) = None" using new(2) by (simp add: sql_token_ops_def)
  obtain c k w1 where 1: "auth_signup svc email pw now salt now' token w = (Inr (c, token), w1)" "sql_auth.auth_ok w1"
    "co_get_by_user_id sql_cred_ops email (aw_creds w1) = Some c" "cr_password_hash c = e" "\<not> cr_verified c"
    "to_get sql_token_ops token (aw_tokens w1) = Some k" "vt_user_id k = email" "vt_purpose k = VERIFY_EMAIL" "\<not> vt_consumed k"
    "vt_expires_at k = now' + verify_ttl"
    by (rule sql_auth.signup_done [OF ok, of audit h None min_len verify_ttl reset_ttl dummy email token pw salt e now now',
          unfolded svc_eq svc, OF refl new(1) fresh email long e(1)]) (rule that)
  have "\<not> vt_is_expired k now2" using 1(10) in_time by (simp add: vt_is_expired_def)
  then obtain w2 where 2: "verify_email svc token now2 w1 = (True, w2)" "sql_auth.auth_ok w2"
    "\<And>u. co_get_by_user_id sql_cred_ops u (aw_creds w2) =
       (if u = email then Some (c\<lparr>cr_verified := True\<rparr>) else co_get_by_user_id sql_cred_ops u (aw_creds w1))"
    "\<And>t'. to_get sql_token_ops t' (aw_tokens w2) = (if t' = token then Some (k\<lparr>vt_consumed := True\<rparr>) else to_get sql_token_ops t' (aw_tokens w1))"
    using sql_auth.redeem_verify [OF 1(2) 1(6,8,9) _ 1(3) [folded 1(7)], of now2 audit h None min_len verify_ttl reset_ttl dummy] 1(7)
    unfolding svc_eq by (metis (lifting))
  have "auth_login svc e' pw' w1 = Inr None" if "lower e' = lower email" for e' pw'
    using sql_auth.login_exact [OF 1(2,3) that, of audit h None min_len verify_ttl reset_ttl dummy pw'] e(2) 1(4,5)
    unfolding svc_eq svc by simp
  moreover have "auth_login svc e' pw' w2 = Inr (if kd pw' salt = kd pw salt then Some email else None)" if "lower e' = lower email" for e' pw'
    using sql_auth.login_exact [OF 2(2) _ that, of "c\<lparr>cr_verified := True\<rparr>" audit h None min_len verify_ttl reset_ttl dummy pw'] e(2) 1(4) 2(3)
    unfolding svc_eq svc by simp
  moreover have "fst (verify_email svc token now3 w2) = False"
    using 2(4) [of token] by (simp add: verify_email_def svc_def auth_over_def)
  ultimately show ?thesis using 1(1) 2(1) by blast
qed

text \<open>C37. A reset link replaces the password: from any state the service reaches, the link mailed to a known
  address is redeemed in time with a password long enough, and then exactly the passwords with its
  derived key log in.\<close>

theorem password_reset_exact:
  fixes audit :: "'a audit_ops option" and h :: password_hasher and hook :: "(string \<Rightarrow> ('h, unit) meth) option"
    and min_len verify_ttl reset_ttl :: int and dummy :: string
  defines "svc \<equiv> auth_over sql_cred_ops sql_token_ops audit h hook min_len verify_ttl reset_ttl dummy"
  assumes kd: "derives h kd" and w: "w = auth_run svc calls (no_sql_accounts a x)"
    and stored: "co_get_by_email sql_cred_ops email (aw_creds w) = Some c" and fresh: "map_of (aw_tokens w) token = None"
    and long: "min_len \<le> int (char_count pw)" and in_time: "now' < now + reset_ttl"
  shows "\<exists>w1 w2. request_password_reset svc email now token w = (Some token, w1) \<and>
    reset_password svc token pw now' salt w1 = (Inr True, w2) \<and>
    (\<forall>e pw'. lower e = lower email \<longrightarrow>
       auth_login svc e pw' w2 = Inr (if kd pw' salt = kd pw salt then Some (cr_user_id c) else None)) \<and>
    fst (reset_password svc token other later other_salt w2) = Inr False"
proof -
  have svc: "as_hasher svc = h" "as_min_len svc = min_len" by (simp_all add: svc_def auth_over_def)
  note svc_eq = svc_def [symmetric]
  have ok: "sql_auth.auth_ok w" unfolding w svc_def by (rule sql_run_ok)
  have c: "co_get_by_user_id sql_cred_ops (cr_user_id c) (aw_creds w) = Some c" "lower (cr_email c) = lower email"
    using sql_credentials.by_email [OF sql_auth.auth_okD(1) [OF ok]] stored by blast+
  define k where "k = \<lparr>vt_token = token, vt_user_id = cr_user_id c, vt_email = cr_email c, vt_purpose = PASSWORD_RESET,
      vt_created_at = now, vt_expires_at = now + reset_ttl, vt_consumed = False\<rparr>"
  define w1 where "w1 = w\<lparr>aw_tokens := to_save sql_token_ops k (aw_tokens w)\<rparr>"
  have 1: "request_password_reset svc email now token w = (Some token, w1)"
    using stored by (simp add: request_password_reset_def issue_token_def w1_def k_def svc_def auth_over_def)
  have ok1: "sql_auth.auth_ok w1"
    using sql_auth.auth_ok_step [OF ok, of audit h hook min_len verify_ttl reset_ttl dummy "RequestCall email now token"] 1
    unfolding svc_eq by simp
  have k: "to_get sql_token_ops token (aw_tokens w1) = Some k"
    using fresh by (simp add: w1_def k_def sql_token_ops_def sql_save_token_def map_add_def)
  obtain e where e: "hash_password h pw salt = Inr e" "\<And>pw'. verify_password h pw' e = Inr (kd pw' salt = kd pw salt)"
    using hash_verifies [OF kd] by blast
  have live: "vt_purpose k = PASSWORD_RESET" "\<not> vt_consumed k" "\<not> vt_is_expired k now'" "vt_user_id k = cr_user_id c"
    using in_time by (simp_all add: k_def vt_is_expired_def)
  have c1: "co_get_by_user_id sql_cred_ops (vt_user_id k) (aw_creds w1) = Some c" using c(1) by (simp add: w1_def live)
  obtain w2 where 2: "reset_password svc token pw now' salt w1 = (Inr True, w2)" "sql_auth.auth_ok w2"
    "\<And>u. co_get_by_user_id sql_cred_ops u (aw_creds w2) =
       (if u = vt_user_id k then Some (c\<lparr>cr_password_hash := e, cr_verified := True\<rparr>) else co_get_by_user_id sql_cred_ops u (aw_creds w1))"
    "\<And>t'. to_get sql_token_ops t' (aw_tokens w2) = (if t' = token then Some (k\<lparr>vt_consumed := True\<rparr>) else to_get sql_token_ops t' (aw_tokens w1))"
    by (rule sql_auth.redeem_reset [OF ok1 k live(1,2,3) _ c1, of audit h hook min_len verify_ttl reset_ttl dummy pw salt e,
          unfolded svc_eq svc, OF long e(1)]) (rule that)
  have "lower (cr_user_id c) = lower email" using c sql_auth.auth_okD(3) [OF ok c(1)] by simp
  then have "auth_login svc e' pw' w2 = Inr (if kd pw' salt = kd pw salt then Some (cr_user_id c) else None)" if "lower e' = lower email" for e' pw'
    using sql_auth.login_exact [OF 2(2), of "cr_user_id c" "c\<lparr>cr_password_hash := e, cr_verified := True\<rparr>" e'
        audit h hook min_len verify_ttl reset_ttl dummy pw'] that e(2) 2(3) live(4)
    unfolding svc_eq svc by simp
  moreover have "fst (reset_password svc token other later other_salt w2) = Inr False"
    using 2(4) [of token] by (simp add: reset_password_def svc_def auth_over_def)
  ultimately show ?thesis using 1 2(1) by blast
qed

end
