(* ===== verification/Credentials_Examples.thy ===== *)
theory Credentials_Examples
  imports Credentials
begin

text \<open>
  Worked examples of the credential service, with a stand-in for \<open>scrypt\<close>: the witnesses of its
  properties and what they leave open.
\<close>

section \<open>A stand-in hasher\<close>

text \<open>A stand-in for \<open>scrypt\<close> that pads the password.\<close>

definition toy_key :: "string \<Rightarrow> string \<Rightarrow> string" where
  "toy_key pw salt = take 16 (pw @ replicate 16 CHR ''.'')"

definition toy_hasher :: password_hasher where
  "toy_hasher = \<lparr>ph_scrypt = (\<lambda>pw salt n r p len. Inr (toy_key pw salt)), ph_n = 2, ph_r = 8, ph_p = 1, ph_dklen = 16\<rparr>"

lemma toy_derives: "derives toy_hasher toy_key"
  by (auto simp: derives_def toy_hasher_def toy_key_def)

abbreviation toy_auth :: "(cred_table, tokens, mem_audit, unit) auth_service" where
  "toy_auth \<equiv> auth_over sql_cred_ops sql_token_ops (Some mem_audit_ops) toy_hasher None 8 86400 3600 []"

abbreviation nobody :: "(cred_table, tokens, mem_audit, unit) auth_world" where
  "nobody \<equiv> no_sql_accounts [] ()"

definition ann_joins :: "auth_call list" where
  "ann_joins = [SignupCall ''ann@acme.test'' ''correct horse'' 1000 ''salt'' 1000 ''tok'', VerifyCall ''tok'' 2000, VerifyCall ''tok'' 2001]"

theorem auth_token_redeemed_once_witness:
  "redeem_count (auth_step toy_auth) auth_redeems ''tok'' ann_joins nobody \<le> 1 \<and>
   redeem_count (auth_step toy_auth) auth_redeems ''tok'' ann_joins nobody = 1"
proof
  show "redeem_count (auth_step toy_auth) auth_redeems ''tok'' ann_joins nobody \<le> 1"
    by (rule conjunct2 [OF auth_token_redeemed_once]) (simp add: mint_count_def ann_joins_def)
  show "redeem_count (auth_step toy_auth) auth_redeems ''tok'' ann_joins nobody = 1" by code_simp
qed

lemma ann_logs_in: "auth_login toy_auth ''Ann@acme.test'' ''correct horse'' (auth_run toy_auth ann_joins nobody) = Inr (Some ''ann@acme.test'')"
  by code_simp

theorem login_needs_proof_witness:
  "\<exists>c tk. map_of (aw_creds (auth_run toy_auth ann_joins nobody)) ''ann@acme.test'' = Some c \<and> lower ''ann@acme.test'' = lower ''Ann@acme.test'' \<and>
     cr_verified c \<and> verify_password toy_hasher ''correct horse'' (cr_password_hash c) = Inr True \<and>
     tk \<in> snd ` set (aw_tokens (auth_run toy_auth ann_joins nobody)) \<and> vt_consumed tk \<and> vt_email tk = ''ann@acme.test''"
  by (rule login_needs_proof [OF _ ann_logs_in]) (simp add: mint_count_def ann_joins_def)

theorem sign_up_verify_login_witness:
  "\<exists>c w1 w2. auth_signup toy_auth ''ann@acme.test'' ''correct horse'' 1000 ''salt'' 1000 ''tok'' nobody = (Inr (c, ''tok''), w1) \<and>
    (\<forall>e pw'. lower e = lower ''ann@acme.test'' \<longrightarrow> auth_login toy_auth e pw' w1 = Inr None) \<and>
    verify_email toy_auth ''tok'' 2000 w1 = (True, w2) \<and>
    (\<forall>e pw'. lower e = lower ''ann@acme.test'' \<longrightarrow>
       auth_login toy_auth e pw' w2 = Inr (if toy_key pw' ''salt'' = toy_key ''correct horse'' ''salt'' then Some ''ann@acme.test'' else None)) \<and>
    fst (verify_email toy_auth ''tok'' 2001 w2) = False"
  by (rule sign_up_verify_login [OF toy_derives, where calls = "[]"])
    (simp_all add: no_sql_accounts_def sql_cred_ops_def, code_simp+)

theorem password_reset_exact_witness:
  "\<exists>w1 w2. request_password_reset toy_auth ''Ann@acme.test'' 3000 ''reset'' (auth_run toy_auth ann_joins nobody) = (Some ''reset'', w1) \<and>
    reset_password toy_auth ''reset'' ''battery staple'' 3001 ''salt'' w1 = (Inr True, w2) \<and>
    (\<forall>e pw'. lower e = lower ''Ann@acme.test'' \<longrightarrow>
       auth_login toy_auth e pw' w2 = Inr (if toy_key pw' ''salt'' = toy_key ''battery staple'' ''salt'' then Some ''ann@acme.test'' else None)) \<and>
    fst (reset_password toy_auth ''reset'' ''another one'' 3002 ''salt'' w2) = Inr False"
proof -
  define c where "c = the (co_get_by_email sql_cred_ops ''Ann@acme.test'' (aw_creds (auth_run toy_auth ann_joins nobody)))"
  have c: "co_get_by_email sql_cred_ops ''Ann@acme.test'' (aw_creds (auth_run toy_auth ann_joins nobody)) = Some c" "cr_user_id c = ''ann@acme.test''"
    unfolding c_def by code_simp+
  have "map_of (aw_tokens (auth_run toy_auth ann_joins nobody)) ''reset'' = None" "(8::int) \<le> int (char_count ''battery staple'')"
    by code_simp+
  from password_reset_exact [OF toy_derives refl c(1), where token = "''reset''" and pw = "''battery staple''" and now' = 3001 and now = 3000
        and salt = "''salt''" and other = "''another one''" and later = 3002 and other_salt = "''salt''", OF this,
      unfolded c(2)]
  show ?thesis by simp
qed

text \<open>A reset does not withdraw the links asked for before it: the older one still changes the password.\<close>

lemma older_reset_link_survives:
  "let w1 = snd (request_password_reset toy_auth ''ann@acme.test'' 3000 ''old'' (auth_run toy_auth ann_joins nobody));
       w2 = snd (request_password_reset toy_auth ''ann@acme.test'' 3100 ''new'' w1);
       w3 = snd (reset_password toy_auth ''new'' ''battery staple'' 3200 ''salt'' w2)
   in auth_login toy_auth ''ann@acme.test'' ''battery staple'' w3 = Inr (Some ''ann@acme.test'') \<and>
      fst (reset_password toy_auth ''old'' ''stolen link'' 3300 ''salt'' w3) = Inr True"
  by code_simp

text \<open>An address typed with a space signs up and does not log in as typed.\<close>

lemma login_does_not_strip:
  "auth_login toy_auth '' ann@acme.test'' ''correct horse'' (auth_run toy_auth ann_joins nobody) = Inr None"
  by code_simp

text \<open>A stored hash whose parameters \<open>scrypt\<close> refuses makes \<open>verify\<close> raise, whatever its docstring says.\<close>

lemma verify_raises:
  assumes "ph_scrypt h pw [] 3 8 1 0 = Inl ValueError"
  shows "verify_password h pw ''scrypt$3$8$1$$'' = Inl ValueError"
proof -
  have "decode_hash ''scrypt$3$8$1$$'' = Some (3, 8, 1, [], [])" by code_simp
  then show ?thesis using assms by (simp add: verify_password_def)
qed

end
