(* ===== verification/Signin.thy ===== *)
theory Signin
  imports Invitations Credentials_Examples
begin

text \<open>
  Signing up, signing in and inviting (\<open>rgnr8_web/app.py\<close>), over the SQL stores of the production
  composition: the invitation endpoints, \<open>_signup_post\<close>, \<open>_verify_post\<close>, the password endpoints,
  \<open>_login_post\<close>, \<open>_choose_enter\<close> and \<open>ensure_owner_access\<close>. A reply is its status, its JSON fields or
  the page it shows (not its HTML), and the claims of the session cookie it sets. The decoded request
  body is a map from fields to strings; every clock reading of a request is an argument.
\<close>

section \<open>The application\<close>

type_synonym sql_invites = "(sql_directory, invitations, audit_table) invitation_service"
type_synonym 'h sql_auth = "(cred_table, tokens, audit_table, 'h) auth_service"

record ('h, 'm) signin_app =
  sa_users :: bool \<comment> \<open>a user directory is wired\<close>
  sa_invites :: "sql_invites option"
  sa_auth :: "'h sql_auth option"
  sa_emailer :: "(string \<Rightarrow> string \<Rightarrow> string \<Rightarrow> ('m, unit) meth) option"
  sa_tenants :: "string list"
  sa_session_secret :: bool
  sa_boot_email :: string

record ('h, 'm) signin_world =
  sw_dir :: sql_directory
  sw_invitations :: invitations
  sw_audit :: audit_table
  sw_creds :: cred_table
  sw_tokens :: tokens
  sw_hook :: 'h
  sw_mail :: 'm

definition invite_part :: "('h, 'm) signin_world \<Rightarrow> (sql_directory, invitations, audit_table) invite_world" where
  "invite_part w = \<lparr>iw_dir = sw_dir w, iw_store = sw_invitations w, iw_audit = sw_audit w\<rparr>"

definition auth_part :: "('h, 'm) signin_world \<Rightarrow> (cred_table, tokens, audit_table, 'h) auth_world" where
  "auth_part w = \<lparr>aw_creds = sw_creds w, aw_tokens = sw_tokens w, aw_audit = sw_audit w, aw_hook = sw_hook w\<rparr>"

definition put_invites :: "(sql_directory, invitations, audit_table) invite_world \<Rightarrow> ('h, 'm) signin_world \<Rightarrow> ('h, 'm) signin_world" where
  "put_invites v w = w\<lparr>sw_dir := iw_dir v, sw_invitations := iw_store v, sw_audit := iw_audit v\<rparr>"

definition put_auth :: "(cred_table, tokens, audit_table, 'h) auth_world \<Rightarrow> ('h, 'm) signin_world \<Rightarrow> ('h, 'm) signin_world" where
  "put_auth v w = w\<lparr>sw_creds := aw_creds v, sw_tokens := aw_tokens v, sw_audit := aw_audit v, sw_hook := aw_hook v\<rparr>"

definition on_invites ::
  "((sql_directory, invitations, audit_table) invite_world \<Rightarrow> 'r \<times> (sql_directory, invitations, audit_table) invite_world) \<Rightarrow>
   (('h, 'm) signin_world, 'r) meth" where
  "on_invites f w = (case f (invite_part w) of (r, v) \<Rightarrow> (Inr r, put_invites v w))"

definition on_auth ::
  "((cred_table, tokens, audit_table, 'h) auth_world, 'r) meth \<Rightarrow> (('h, 'm) signin_world, 'r) meth" where
  "on_auth f w = (case f (auth_part w) of (r, v) \<Rightarrow> (r, put_auth v w))"

definition never_raises :: "('s \<Rightarrow> 'r \<times> 's) \<Rightarrow> ('s, 'r) meth" where
  "never_raises f w = (case f w of (r, w') \<Rightarrow> (Inr r, w'))"

text \<open>\<open>if self._emailer is not None: self._emailer(address, kind, token)\<close>\<close>

definition send_mail :: "('h, 'm) signin_app \<Rightarrow> string \<Rightarrow> string \<Rightarrow> string \<Rightarrow> (('h, 'm) signin_world, unit) meth" where
  "send_mail app address kind token w =
     (case sa_emailer app of
        None \<Rightarrow> (Inr (), w)
      | Some mailer \<Rightarrow> (case mailer address kind token (sw_mail w) of (r, m) \<Rightarrow> (r, w\<lparr>sw_mail := m\<rparr>)))"

datatype field_value = Txt string | Flag bool | Num int

datatype page =
    LoginPage "string option" "string option" \<comment> \<open>error and notice\<close>
  | SignupForm string string string \<comment> \<open>the error, the token and the address\<close>
  | ResetForm string
  | JsonBody "(string \<times> field_value) list"
  | Location string

record reply =
  rp_status :: int
  rp_page :: page
  rp_session :: "(string \<times> string option) option" \<comment> \<open>the sub and tenant claims of the cookie\<close>

definition reply_of :: "int \<Rightarrow> page \<Rightarrow> reply" where
  "reply_of status p = \<lparr>rp_status = status, rp_page = p, rp_session = None\<rparr>"

definition json_error :: "int \<Rightarrow> string \<Rightarrow> reply" where
  "json_error status msg = reply_of status (JsonBody [(''error'', Txt msg)])"

definition login_error :: "int \<Rightarrow> string \<Rightarrow> reply" where
  "login_error status msg = reply_of status (LoginPage (Some msg) None)"

type_synonym form_data = "string \<Rightarrow> string option"

definition field :: "form_data \<Rightarrow> string \<Rightarrow> string \<Rightarrow> string" where
  "field data k dflt = (case data k of Some v \<Rightarrow> v | None \<Rightarrow> dflt)"

definition INVITE_ONLY :: string where
  "INVITE_ONLY = ''RGNR8 is invitation-only. Ask the owner of your business to send you an invite.''"

definition BAD_INVITE :: string where
  "BAD_INVITE = ''That invitation link is no longer valid. Ask for a fresh one.''"

section \<open>Invitations\<close>

definition invitation_create ::
  "('h, 'm) signin_app \<Rightarrow> string \<Rightarrow> string \<Rightarrow> form_data \<Rightarrow> int \<Rightarrow> string \<Rightarrow> (('h, 'm) signin_world, reply) meth" where
  "invitation_create app subject tenant data now token =
     (case sa_invites app of
        None \<Rightarrow> ret (json_error 501 ''invitations are not configured'')
      | Some svc \<Rightarrow>
          (case data ''email'' of
             None \<Rightarrow> ret (json_error 400 ''a valid email is required'')
           | Some email \<Rightarrow>
               if \<not> List.member email CHR ''@'' then ret (json_error 400 ''a valid email is required'')
               else
                 (case role_of (field data ''role'' (role_value VIEWER)) of
                    None \<Rightarrow> ret (json_error 400 (''unknown role '' @ py_repr (field data ''role'' (role_value VIEWER))))
                  | Some r \<Rightarrow>
                      bind (on_invites (invite svc (strip email) tenant r subject now token)) (\<lambda>made.
                        case made of
                          Inl (InvitationError msg) \<Rightarrow> ret (json_error 400 msg)
                        | Inr i \<Rightarrow>
                            seqm (send_mail app (inv_email i) ''invitation'' (inv_token i))
                              (ret (reply_of 201 (JsonBody
                                [(''email'', Txt (inv_email i)), (''role'', Txt (role_value (inv_role i))), (''token'', Txt (inv_token i)),
                                 (''expires_at'', Num (inv_expires_at i))])))))))"

definition invitation_revoke ::
  "('h, 'm) signin_app \<Rightarrow> string \<Rightarrow> string \<Rightarrow> string \<Rightarrow> int \<Rightarrow> (('h, 'm) signin_world, reply) meth" where
  "invitation_revoke app subject tenant token now =
     (case sa_invites app of
        None \<Rightarrow> ret (json_error 501 ''invitations are not configured'')
      | Some svc \<Rightarrow>
          bind (gets (\<lambda>w. list_ex (\<lambda>i. inv_token i = token) (pending_for svc tenant (invite_part w)))) (\<lambda>mine.
            if \<not> mine then ret (json_error 404 ''unknown invitation'')
            else
              bind (on_invites (revoke svc token subject now)) (\<lambda>done.
                case done of
                  Inl (InvitationError msg) \<Rightarrow> ret (json_error 400 msg)
                | Inr _ \<Rightarrow> ret (reply_of 200 (JsonBody [(''revoked'', Flag True)])))))"

section \<open>Creating an account\<close>

text \<open>The clock as the calls of one request read it, and the salt and token drawn.\<close>

record readings =
  rd_preview :: int
  rd_signup :: int
  rd_issue :: int
  rd_verify :: int
  rd_accept :: int
  rd_salt :: string
  rd_token :: string

definition signup_is_open :: "('h, 'm) signin_app \<Rightarrow> bool" where
  "signup_is_open app \<longleftrightarrow> \<not> sa_users app"

text \<open>Which address the account is for: the invitation's, or the one typed where signup is open.\<close>

definition signup_address ::
  "('h, 'm) signin_app \<Rightarrow> form_data \<Rightarrow> bool \<Rightarrow> int \<Rightarrow> ('h, 'm) signin_world \<Rightarrow> reply + (string \<times> invitation option)" where
  "signup_address app data browser now w =
     (let token = strip (field data ''token'' [])
      in if token \<noteq> [] then
           (case sa_invites app of
              None \<Rightarrow> Inl (if browser then login_error 403 INVITE_ONLY else json_error 403 ''invitations are not configured'')
            | Some svc \<Rightarrow>
                (case preview svc token now (invite_part w) of
                   Inl _ \<Rightarrow> Inl (if browser then login_error 400 BAD_INVITE else json_error 400 ''invalid or expired invitation'')
                 | Inr i \<Rightarrow> Inr (inv_email i, Some i)))
         else if \<not> signup_is_open app then
           Inl (if browser then login_error 403 INVITE_ONLY else json_error 403 ''signup is by invitation only'')
         else Inr (strip (field data ''email'' []), None))"

definition account_reply :: "('h, 'm) signin_app \<Rightarrow> bool \<Rightarrow> credential \<Rightarrow> string \<Rightarrow> membership option \<Rightarrow> reply" where
  "account_reply app browser c verify_token m =
     (if browser then reply_of 302 (Location ''/login?notice=created'')
      else reply_of 201 (JsonBody
        ([(''user_id'', Txt (cr_user_id c)), (''email'', Txt (cr_email c)), (''verified'', Flag (cr_verified c))] @
         (case m of Some b \<Rightarrow> [(''tenant'', Txt (mb_tenant_id b)), (''role'', Txt (role_value (mb_role b)))] | None \<Rightarrow> []) @
         (if sa_emailer app = None then [(''verify_token'', Txt verify_token)] else []))))"

text \<open>After the address is known: the credential, its verification, and the invitation.\<close>

definition signup_account ::
  "('h, 'm) signin_app \<Rightarrow> 'h sql_auth \<Rightarrow> form_data \<Rightarrow> bool \<Rightarrow> readings \<Rightarrow> string \<Rightarrow> invitation option \<Rightarrow>
   (('h, 'm) signin_world, reply) meth" where
  "signup_account app auth data browser rd email iv w =
     (let token = strip (field data ''token'' []); password = field data ''password'' []
      in case on_auth (auth_signup auth email password (rd_signup rd) (rd_salt rd) (rd_issue rd) (rd_token rd)) w of
           (Inl (AuthError msg), w1) \<Rightarrow>
             (Inr (if browser then reply_of 400 (SignupForm msg token email) else json_error 400 msg), w1)
         | (Inl e, w1) \<Rightarrow> (Inl e, w1)
         | (Inr (c, verify_token), w1) \<Rightarrow>
             seqm (if sa_emailer app \<noteq> None then send_mail app (cr_email c) ''verify_email'' verify_token
                   else seqm (on_auth (never_raises (verify_email auth verify_token (rd_verify rd)))) (ret ()))
              (case (iv, sa_invites app) of
                 (Some i, Some svc) \<Rightarrow>
                   bind (on_invites (accept svc token (field data ''name'' []) (rd_accept rd))) (\<lambda>accepted.
                     case accepted of
                       Inl _ \<Rightarrow> ret (if browser then login_error 400 BAD_INVITE
                                       else json_error 409 ''invitation was already used or revoked'')
                     | Inr m \<Rightarrow> ret (account_reply app browser c verify_token (Some m)))
               | _ \<Rightarrow> ret (account_reply app browser c verify_token None)) w1)"

definition signup_post ::
  "('h, 'm) signin_app \<Rightarrow> form_data \<Rightarrow> bool \<Rightarrow> readings \<Rightarrow> (('h, 'm) signin_world, reply) meth" where
  "signup_post app data browser rd w =
     (case sa_auth app of
        None \<Rightarrow> (Inr (json_error 501 ''signup is not configured''), w)
      | Some auth \<Rightarrow>
          (case signup_address app data browser (rd_preview rd) w of
             Inl r \<Rightarrow> (Inr r, w)
           | Inr (email, iv) \<Rightarrow> signup_account app auth data browser rd email iv w))"

section \<open>Verifying and resetting\<close>

definition verify_post :: "('h, 'm) signin_app \<Rightarrow> form_data \<Rightarrow> int \<Rightarrow> (('h, 'm) signin_world, reply) meth" where
  "verify_post app data now =
     (case sa_auth app of
        None \<Rightarrow> ret (json_error 501 ''signup is not configured'')
      | Some auth \<Rightarrow>
          bind (on_auth (never_raises (verify_email auth (field data ''token'' []) now))) (\<lambda>verified.
            ret (if \<not> verified then json_error 400 ''invalid or expired verification token''
                 else reply_of 200 (JsonBody [(''verified'', Flag True)]))))"

definition reset_request_post :: "('h, 'm) signin_app \<Rightarrow> form_data \<Rightarrow> int \<Rightarrow> string \<Rightarrow> (('h, 'm) signin_world, reply) meth" where
  "reset_request_post app data now minted =
     (case sa_auth app of
        None \<Rightarrow> ret (json_error 501 ''signup is not configured'')
      | Some auth \<Rightarrow>
          (let email = strip (field data ''email'' [])
           in bind (on_auth (never_raises (request_password_reset auth email now minted))) (\<lambda>token.
                case token of
                  None \<Rightarrow> ret (reply_of 202 (JsonBody [(''status'', Txt ''ok'')]))
                | Some t \<Rightarrow>
                    if sa_emailer app \<noteq> None then
                      seqm (send_mail app email ''password_reset'' t) (ret (reply_of 202 (JsonBody [(''status'', Txt ''ok'')])))
                    else ret (reply_of 202 (JsonBody [(''status'', Txt ''ok''), (''reset_token'', Txt t)])))))"

definition RESET_REFUSED :: string where
  "RESET_REFUSED = ''That link has expired, or the password is too short (8 characters minimum).''"

definition reset_post :: "('h, 'm) signin_app \<Rightarrow> form_data \<Rightarrow> bool \<Rightarrow> int \<Rightarrow> string \<Rightarrow> (('h, 'm) signin_world, reply) meth" where
  "reset_post app data browser now salt =
     (case sa_auth app of
        None \<Rightarrow> ret (json_error 501 ''signup is not configured'')
      | Some auth \<Rightarrow>
          (let token = field data ''token'' [];
               typed = field data ''password'' [];
               new_password = (if typed \<noteq> [] then typed else field data ''new_password'' [])
           in bind (on_auth (reset_password auth token new_password now salt)) (\<lambda>reset.
                ret (if \<not> reset then
                       (if browser then reply_of 400 (ResetForm RESET_REFUSED)
                        else json_error 400 ''invalid or expired token, or password too weak'')
                     else if browser then reply_of 200 (LoginPage None (Some (''Password updated '' @ em_dash @ '' sign in.'')))
                     else reply_of 200 (JsonBody [(''reset'', Flag True)])))))"

section \<open>Signing in\<close>

definition NEXT_MAX :: nat where
  "NEXT_MAX = 512"

text \<open>
  \<open>_safe_next\<close>. \<open>urlsplit\<close> of a string that starts with a single slash has neither scheme nor host,
  and its path ends at the first \<open>?\<close> or \<open>#\<close>.
\<close>

definition safe_next :: "string option \<Rightarrow> string list option \<Rightarrow> string option" where
  "safe_next v tenants =
     (case v of
        None \<Rightarrow> None
      | Some s \<Rightarrow>
          if s = [] \<or> NEXT_MAX < char_count s then None
          else if list_ex (\<lambda>c. (of_char c :: nat) < 32 \<or> (of_char c :: nat) = 92 \<or> (of_char c :: nat) = 127) s then None
          else if \<not> starts_with ''/t/'' s \<or> starts_with ''//'' s then None
          else
            (let seg = split_char CHR ''/'' (takeWhile (\<lambda>c. c \<noteq> CHR ''?'' \<and> c \<noteq> CHR ''#'') s)
             in if length seg < 3 \<or> seg ! 2 = [] then None
                else if (case tenants of Some ts \<Rightarrow> \<not> List.member ts (seg ! 2) | None \<Rightarrow> False) then None
                else Some s))"

text \<open>\<open>quote(s, safe="")\<close>\<close>

definition quote_char :: "char \<Rightarrow> string" where
  "quote_char c =
     (let n = of_char c :: nat; up = (\<lambda>d. if d < 10 then digit_char d else char_of (55 + d))
      in if (48 \<le> n \<and> n \<le> 57) \<or> (65 \<le> n \<and> n \<le> 90) \<or> (97 \<le> n \<and> n \<le> 122) \<or> List.member ''_.-~'' c then [c]
         else [CHR ''%'', up (n div 16), up (n mod 16)])"

definition quote :: "string \<Rightarrow> string" where
  "quote s = concat (map quote_char s)"

definition memberships_of :: "('h, 'm) signin_app \<Rightarrow> sql_directory \<Rightarrow> string \<Rightarrow> string list" where
  "memberships_of app d user_id =
     (if \<not> sa_users app then []
      else filter (\<lambda>t. ud_membership sql_directory_ops user_id t d \<noteq> None) (sa_tenants app))"

definition resolve_login_tenant :: "('h, 'm) signin_app \<Rightarrow> sql_directory \<Rightarrow> string \<Rightarrow> string option \<Rightarrow> string option" where
  "resolve_login_tenant app d email requested =
     (if (case requested of Some t \<Rightarrow> List.member (sa_tenants app) t | None \<Rightarrow> False) then requested
      else
        (case (if sa_users app then map_option (\<lambda>u. memberships_of app d (usr_id u)) (ud_find_by_email sql_directory_ops email d) else None) of
           Some (t # _) \<Rightarrow> Some t
         | _ \<Rightarrow> if length (sa_tenants app) = 1 \<and> \<not> sa_users app then Some (hd (sa_tenants app)) else None))"

definition bootstrap_staff :: "('h, 'm) signin_app \<Rightarrow> string \<Rightarrow> string \<Rightarrow> sql_directory \<Rightarrow> sql_directory" where
  "bootstrap_staff app email subject d =
     (let boot = lower (strip (sa_boot_email app))
      in if boot = [] \<or> lower (strip email) \<noteq> boot \<or> \<not> sa_users app then d
         else if ud_platform_role sql_directory_ops subject d = None
         then ud_set_platform_role sql_directory_ops subject (Some OPERATOR) d else d)"

text \<open>Where the signed-in subject may go: its businesses and whether it is staff.\<close>

definition destinations :: "('h, 'm) signin_app \<Rightarrow> form_data \<Rightarrow> string \<Rightarrow> string \<Rightarrow> sql_directory \<Rightarrow> string list \<times> bool" where
  "destinations app data email subject d =
     (let mine = memberships_of app d subject;
          staff = (sa_users app \<and> ud_platform_role sql_directory_ops subject d \<noteq> None)
      in (if mine = [] \<and> \<not> staff \<and> \<not> sa_users app
          then (case resolve_login_tenant app d email (data ''tenant'') of Some t \<Rightarrow> [t] | None \<Rightarrow> [])
          else mine, staff))"

definition NOT_A_MEMBER :: string where
  "NOT_A_MEMBER = ''This account isn'' @ [CHR 0x27] @ ''t a member of any business yet. Ask the owner to send you an invitation.''"

definition login_failure :: "bool \<Rightarrow> reply" where
  "login_failure browser = (if browser then login_error 401 ''Invalid email or password.'' else json_error 401 ''invalid email or password'')"

definition enter :: "string \<Rightarrow> string list \<Rightarrow> bool \<Rightarrow> string option \<Rightarrow> reply" where
  "enter subject businesses staff nxt =
     (let total = length businesses + (if staff then 1 else 0)
      in if total = 0 then login_error 403 NOT_A_MEMBER
         else
           let n = safe_next nxt (Some businesses)
           in if total = 1 \<and> \<not> staff then
                \<lparr>rp_status = 302, rp_page = Location (case n of Some u \<Rightarrow> u | None \<Rightarrow> ''/app''),
                 rp_session = Some (subject, Some (hd businesses))\<rparr>
              else
                \<lparr>rp_status = 302, rp_page = Location (case n of Some u \<Rightarrow> ''/choose?next='' @ quote u | None \<Rightarrow> ''/choose''),
                 rp_session = Some (subject, None)\<rparr>)"

text \<open>The user record is seated before the destinations are read.\<close>

definition seat_user :: "('h, 'm) signin_app \<Rightarrow> string \<Rightarrow> sql_directory \<Rightarrow> string \<times> sql_directory" where
  "seat_user app email d =
     (if \<not> sa_users app then (email, d)
      else
        let u = (case ud_find_by_email sql_directory_ops email d of
                   Some u \<Rightarrow> u | None \<Rightarrow> \<lparr>usr_id = email, usr_email = email, usr_name = []\<rparr>)
        in (usr_id u, bootstrap_staff app email (usr_id u) (ud_upsert_user sql_directory_ops u d)))"

definition login_post :: "('h, 'm) signin_app \<Rightarrow> form_data \<Rightarrow> bool \<Rightarrow> (('h, 'm) signin_world, reply) meth" where
  "login_post app data browser w =
     (if \<not> sa_session_secret app then (Inr (login_error 400 (''Self-issued login is disabled '' @ em_dash @ '' use SSO.'')), w)
      else
        let nxt = safe_next (data ''next'') None; email = strip (field data ''email'' [])
        in if \<not> List.member email CHR ''@'' then (Inr (login_error 400 ''Enter a valid work email.''), w)
           else
             (case (case sa_auth app of None \<Rightarrow> Inr True
                    | Some auth \<Rightarrow> res_bind (auth_login auth email (field data ''password'' []) (auth_part w)) (\<lambda>r. Inr (r \<noteq> None))) of
                Inl e \<Rightarrow> (Inl e, w)
              | Inr False \<Rightarrow> (Inr (login_failure browser), w)
              | Inr True \<Rightarrow>
                  (let (subject, d) = seat_user app email (sw_dir w);
                       (businesses, staff) = destinations app data email subject d
                   in (Inr (enter subject businesses staff nxt), w\<lparr>sw_dir := d\<rparr>))))"

text \<open>\<open>_choose_enter\<close> for the subject the session names.\<close>

definition choose_enter :: "('h, 'm) signin_app \<Rightarrow> string option \<Rightarrow> form_data \<Rightarrow> ('h, 'm) signin_world \<Rightarrow> reply" where
  "choose_enter app subject query w =
     (case subject of
        None \<Rightarrow> reply_of 302 (Location ''/login'')
      | Some sub \<Rightarrow>
          (let tenant = field query ''tenant'' []
           in if tenant = [] \<or> \<not> List.member (sa_tenants app) tenant \<or> \<not> sa_users app \<or>
                 ud_membership sql_directory_ops sub tenant (sw_dir w) = None
              then reply_of 302 (Location ''/choose'')
              else if \<not> sa_session_secret app
              then login_error 400 ''Choosing a business is handled by your identity provider.''
              else \<lparr>rp_status = 302, rp_page = Location (case safe_next (query ''next'') (Some [tenant]) of Some u \<Rightarrow> u | None \<Rightarrow> ''/app''),
                    rp_session = Some (sub, Some tenant)\<rparr>))"

section \<open>Provisioning\<close>

text \<open>Only the first pending invitation of the address is looked at.\<close>

definition live_invitation :: "sql_invites \<Rightarrow> string \<Rightarrow> string \<Rightarrow> int \<Rightarrow> ('h, 'm) signin_world \<Rightarrow> bool" where
  "live_invitation svc email tenant now w =
     (case filter (\<lambda>i. lower (inv_email i) = lower email) (pending_for svc tenant (invite_part w)) of
        [] \<Rightarrow> False
      | i # _ \<Rightarrow> (case preview svc (inv_token i) now (invite_part w) of Inr _ \<Rightarrow> True | Inl _ \<Rightarrow> False))"

definition ensure_owner_access ::
  "('h, 'm) signin_app \<Rightarrow> string \<Rightarrow> string \<Rightarrow> string \<Rightarrow> int \<Rightarrow> int \<Rightarrow> string \<Rightarrow> (('h, 'm) signin_world, string option) meth" where
  "ensure_owner_access app email tenant name seen now minted w =
     (if \<not> sa_users app \<or> \<not> List.member email CHR ''@'' \<or> \<not> List.member (sa_tenants app) tenant then (Inr None, w)
      else
        let u = (case ud_find_by_email sql_directory_ops email (sw_dir w) of
                   Some u \<Rightarrow> u | None \<Rightarrow> \<lparr>usr_id = email, usr_email = email, usr_name = name\<rparr>);
            d = ud_upsert_user sql_directory_ops u (sw_dir w);
            d' = (if ud_membership sql_directory_ops (usr_id u) tenant d = None
                  then ud_set_membership sql_directory_ops (usr_id u) tenant OWNER d else d);
            w1 = w\<lparr>sw_dir := d'\<rparr>
        in case (sa_invites app, sa_auth app) of
             (Some svc, Some auth) \<Rightarrow>
               if has_credential auth email (auth_part w1) then (Inr None, w1)
               else if live_invitation svc email tenant seen w1 then (Inr None, w1)
               else
                 bind (on_invites (invite svc email tenant OWNER ''system:provisioning'' now minted)) (\<lambda>made.
                   case made of
                     Inl _ \<Rightarrow> ret None
                   | Inr i \<Rightarrow> seqm (send_mail app (inv_email i) ''invitation'' (inv_token i)) (ret (Some (inv_token i)))) w1
           | _ \<Rightarrow> (Inr None, w1))"

section \<open>Public calls\<close>

text \<open>The calls anybody may make, without a session.\<close>

datatype public_call =
    PSignup form_data bool readings
  | PVerify form_data int
  | PResetRequest form_data int string
  | PReset form_data bool int string
  | PLogin form_data bool

primrec public_step :: "('h, 'm) signin_app \<Rightarrow> public_call \<Rightarrow> (('h, 'm) signin_world, reply) meth" where
  "public_step app (PSignup data browser rd) = signup_post app data browser rd"
| "public_step app (PVerify data now) = verify_post app data now"
| "public_step app (PResetRequest data now minted) = reset_request_post app data now minted"
| "public_step app (PReset data browser now salt) = reset_post app data browser now salt"
| "public_step app (PLogin data browser) = login_post app data browser"

primrec public_run :: "('h, 'm) signin_app \<Rightarrow> public_call list \<Rightarrow> ('h, 'm) signin_world \<Rightarrow> ('h, 'm) signin_world" where
  "public_run app [] w = w"
| "public_run app (c # cs) w = public_run app cs (snd (public_step app c w))"

text \<open>Nothing but an invitation touches the directory and the invitations.\<close>

definition same_offers :: "('h, 'm) signin_world \<Rightarrow> ('h, 'm) signin_world \<Rightarrow> bool" where
  "same_offers w w' \<longleftrightarrow> sw_dir w' = sw_dir w \<and> sw_invitations w' = sw_invitations w"

lemma same_offers_refl [simp]: "same_offers w w"
  by (simp add: same_offers_def)

lemma same_offers_trans: "same_offers u v \<Longrightarrow> same_offers v w \<Longrightarrow> same_offers u w"
  by (simp add: same_offers_def)

lemma on_auth_offers [simp]: "same_offers w (snd (on_auth f w))"
  by (simp add: on_auth_def put_auth_def same_offers_def case_prod_beta)

lemma send_mail_offers [simp]: "same_offers w (snd (send_mail app a k t w))"
  by (simp add: send_mail_def same_offers_def case_prod_beta split: option.split)

lemma bind_offers:
  "same_offers w (snd (m w)) \<Longrightarrow> (\<And>x v. same_offers v (snd (f x v))) \<Longrightarrow> same_offers w (snd (bind m f w))"
  by (auto simp: bind_def case_prod_beta split: sum.split intro: same_offers_trans)

lemma seqm_offers:
  "same_offers w (snd (m w)) \<Longrightarrow> (\<And>v. same_offers v (snd (k v))) \<Longrightarrow> same_offers w (snd (seqm m k w))"
  by (simp add: seqm_def bind_offers)

lemma plain_posts_offers:
  "same_offers w (snd (verify_post app data now w))"
  "same_offers w (snd (reset_request_post app data now minted w))"
  "same_offers w (snd (reset_post app data browser now salt w))"
  by (auto simp: verify_post_def reset_request_post_def reset_post_def Let_def
      intro!: bind_offers seqm_offers split: option.split)

text \<open>A membership is as before, or it is what a pending invitation offers.\<close>

definition offered :: "('h, 'm) signin_world \<Rightarrow> string \<Rightarrow> string \<Rightarrow> membership option \<Rightarrow> bool" where
  "offered w u t m \<longleftrightarrow> (\<exists>token i. map_of (sw_invitations w) token = Some i \<and> inv_status i = INV_PENDING \<and>
     inv_tenant_id i = t \<and> m = Some \<lparr>mb_user_id = u, mb_tenant_id = t, mb_role = inv_role i\<rparr>)"

definition only_offers :: "('h, 'm) signin_world \<Rightarrow> ('h, 'm) signin_world \<Rightarrow> bool" where
  "only_offers w w' \<longleftrightarrow> sql_directory_ok (sw_dir w') \<and> invitations_ok (sw_invitations w') \<and>
     (\<forall>t i. map_of (sw_invitations w') t = Some i \<and> inv_status i = INV_PENDING \<longrightarrow> map_of (sw_invitations w) t = Some i) \<and>
     (\<forall>u t. sd_membership u t (sw_dir w') = sd_membership u t (sw_dir w) \<or> offered w u t (sd_membership u t (sw_dir w')))"

definition dir_ok :: "('h, 'm) signin_world \<Rightarrow> bool" where
  "dir_ok w \<longleftrightarrow> sql_directory_ok (sw_dir w) \<and> invitations_ok (sw_invitations w)"

lemma same_only_offers: "dir_ok w \<Longrightarrow> same_offers w w' \<Longrightarrow> only_offers w w'"
  by (simp add: dir_ok_def same_offers_def only_offers_def)

lemma accept_only_offers:
  assumes "dir_ok w" and run: "on_invites (accept (invites sql_directory_ops sql_inv_store audit ttl) token name now) w = (r, w')"
  shows "only_offers w w'"
proof -
  obtain m v where v: "accept (invites sql_directory_ops sql_inv_store audit ttl) token name now (invite_part w) = (m, v)" "w' = put_invites v w"
    using run by (auto simp: on_invites_def split: prod.splits)
  have ok: "sql_directory_ok (iw_dir (invite_part w))" "invitations_ok (iw_store (invite_part w))"
    using assms(1) by (simp_all add: dir_ok_def invite_part_def)
  have w': "sw_dir w' = iw_dir v" "sw_invitations w' = iw_store v" by (simp_all add: v(2) put_invites_def)
  have pend: "invitations_ok (iw_store v)"
    "\<And>t i. map_of (iw_store v) t = Some i \<Longrightarrow> inv_status i = INV_PENDING \<Longrightarrow> map_of (sw_invitations w) t = Some i"
    using accept_pending [OF v(1) ok(2)] by (simp_all add: invite_part_def)
  show ?thesis
  proof (cases m)
    case (Inl e)
    then show ?thesis
      using accept_sql [OF ok(1) v(1)] pend ok(1) w' by (auto simp: only_offers_def invite_part_def)
  next
    case (Inr b)
    obtain i where i: "map_of (sw_invitations w) token = Some i" "inv_status i = INV_PENDING"
      "b = \<lparr>mb_user_id = mb_user_id b, mb_tenant_id = inv_tenant_id i, mb_role = inv_role i\<rparr>" "sql_directory_ok (iw_dir v)"
      and mem: "\<And>j t. sd_membership j t (iw_dir v) = (if j = mb_user_id b \<and> t = inv_tenant_id i then Some b else sd_membership j t (sw_dir w))"
      using accept_sql [OF ok(1) v(1)] Inr by (auto simp: invite_part_def)
    have "sd_membership j t (iw_dir v) = sd_membership j t (sw_dir w) \<or> offered w j t (sd_membership j t (iw_dir v))" for j t
    proof (cases "j = mb_user_id b \<and> t = inv_tenant_id i")
      case True
      then show ?thesis using i(1,2,3) mem [of j t] unfolding offered_def by auto
    next
      case False
      then show ?thesis using mem [of j t] by auto
    qed
    then show ?thesis using i(4) pend w' by (auto simp: only_offers_def)
  qed
qed

lemma only_offers_before: "same_offers w v \<Longrightarrow> only_offers v w' \<Longrightarrow> only_offers w w'"
  by (simp add: only_offers_def same_offers_def offered_def)

lemma only_offers_dir_ok: "only_offers w w' \<Longrightarrow> dir_ok w'"
  by (simp add: only_offers_def dir_ok_def)

lemma offered_later: "only_offers u v \<Longrightarrow> offered v i t m \<Longrightarrow> offered u i t m"
  unfolding only_offers_def offered_def by blast

lemma only_offers_trans: "only_offers u v \<Longrightarrow> only_offers v w \<Longrightarrow> only_offers u w"
  using offered_later [of u v] unfolding only_offers_def by metis

lemma seat_user_memberships:
  assumes "sql_directory_ok d"
  shows "sql_directory_ok (snd (seat_user app email d))" "sd_membership u t (snd (seat_user app email d)) = sd_membership u t d"
proof -
  note laws = sql_dir.membership_upsert [of d] sql_dir.membership_platform sql_dir.step_ok [OF assms, of "UpsertUser _"]
    sql_dir.step_ok [of _ "SetPlatformRole _ _"]
  have "sql_directory_ok (ud_upsert_user sql_directory_ops x d)" for x using laws(3) [of x] by simp
  moreover from this have "sql_directory_ok (ud_set_platform_role sql_directory_ops i r (ud_upsert_user sql_directory_ops x d))" for i r x
    using laws(4) [of "ud_upsert_user sql_directory_ops x d" i r] by simp
  moreover have "ud_membership sql_directory_ops u t (ud_set_platform_role sql_directory_ops i r (ud_upsert_user sql_directory_ops x d)) =
      ud_membership sql_directory_ops u t d" for i r x
    using calculation(1) assms sql_dir.membership_platform sql_dir.membership_upsert by metis
  moreover have "ud_membership sql_directory_ops u t (ud_upsert_user sql_directory_ops x d) = ud_membership sql_directory_ops u t d" for x
    using assms by (rule sql_dir.membership_upsert)
  moreover have "sd_membership u t e = ud_membership sql_directory_ops u t e" for e by (simp add: sql_directory_ops_def)
  ultimately show "sql_directory_ok (snd (seat_user app email d))" "sd_membership u t (snd (seat_user app email d)) = sd_membership u t d"
    using assms by (simp_all add: seat_user_def bootstrap_staff_def Let_def)
qed

lemma login_only_offers:
  assumes "dir_ok w" shows "only_offers w (snd (login_post app data browser w))"
proof -
  have "sw_dir (snd (login_post app data browser w)) \<in> {sw_dir w, snd (seat_user app (strip (field data ''email'' [])) (sw_dir w))} \<and>
      sw_invitations (snd (login_post app data browser w)) = sw_invitations w"
    by (auto simp: login_post_def Let_def case_prod_beta split: sum.split bool.split)
  then show ?thesis
    using assms seat_user_memberships [where d = "sw_dir w" and app = app] by (auto simp: only_offers_def dir_ok_def)
qed

lemma signup_only_offers:
  fixes app :: "('h, 'm) signin_app"
  assumes ok: "dir_ok w" and svc: "sa_invites app = Some (invites sql_directory_ops sql_inv_store audit ttl)"
  shows "only_offers w (snd (signup_post app data browser rd w))"
proof (cases "\<exists>auth email iv. sa_auth app = Some auth \<and> signup_address app data browser (rd_preview rd) w = Inr (email, iv)")
  case False
  then have "snd (signup_post app data browser rd w) = w"
    by (auto simp: signup_post_def split: option.split sum.split)
  then show ?thesis using same_only_offers [OF ok same_offers_refl] by simp
next
  case True
  then obtain auth email iv where post: "signup_post app data browser rd w = signup_account app auth data browser rd email iv w"
    by (auto simp: signup_post_def)
  define r where "r = on_auth (auth_signup auth email (field data ''password'' []) (rd_signup rd) (rd_salt rd) (rd_issue rd) (rd_token rd)) w"
  have r: "same_offers w (snd r)" by (simp add: r_def)
  show ?thesis
  proof (cases "fst r")
    case (Inl e)
    then have "snd (signup_account app auth data browser rd email iv w) = snd r"
      unfolding signup_account_def Let_def r_def [symmetric] by (cases r) (cases e; simp)
    then show ?thesis using same_only_offers [OF ok r] post by simp
  next
    case (Inr cv)
    obtain c verify_token where cv: "cv = (c, verify_token)" by fastforce
    define mail where "mail = (if sa_emailer app \<noteq> None then send_mail app (cr_email c) ''verify_email'' verify_token
       else seqm (on_auth (never_raises (verify_email auth verify_token (rd_verify rd)))) (ret ()))"
    have mailed: "same_offers v (snd (mail v))" for v by (auto simp: mail_def intro!: seqm_offers)
    define rest :: "(('h, 'm) signin_world, reply) meth" where "rest = (case (iv, sa_invites app) of
        (Some i, Some svc) \<Rightarrow>
          bind (on_invites (accept svc (strip (field data ''token'' [])) (field data ''name'' []) (rd_accept rd))) (\<lambda>accepted.
            case accepted of
              Inl _ \<Rightarrow> ret (if browser then login_error 400 BAD_INVITE
                              else json_error 409 ''invitation was already used or revoked'')
            | Inr m \<Rightarrow> ret (account_reply app browser c verify_token (Some m)))
      | _ \<Rightarrow> ret (account_reply app browser c verify_token None))"
    have made: "snd (signup_account app auth data browser rd email iv w) = snd (seqm mail rest (snd r))"
      unfolding signup_account_def Let_def r_def [symmetric] using Inr cv
      by (cases r) (simp add: mail_def rest_def)
    have rested: "only_offers v (snd (rest v))" if "dir_ok v" for v
    proof -
      have "snd (rest v) = v \<or> snd (rest v) = snd (on_invites (accept (invites sql_directory_ops sql_inv_store audit ttl)
          (strip (field data ''token'' [])) (field data ''name'' []) (rd_accept rd)) v)"
        by (auto simp: rest_def svc bind_def case_prod_beta split: option.split sum.split)
      then show ?thesis
        using same_only_offers [OF that same_offers_refl] accept_only_offers [OF that prod.collapse [symmetric]] by metis
    qed
    have "same_offers w (snd (mail (snd r)))" using r mailed same_offers_trans by blast
    moreover have "dir_ok (snd (mail (snd r)))" using calculation ok by (simp add: dir_ok_def same_offers_def)
    ultimately have "only_offers w (snd (seqm mail rest (snd r)))"
      using rested only_offers_before same_only_offers [OF ok] by (auto simp: seqm_def bind_def case_prod_beta split: sum.split)
    then show ?thesis using post made by simp
  qed
qed

lemma public_run_offers:
  assumes svc: "sa_invites app = Some (invites sql_directory_ops sql_inv_store audit ttl)"
  shows "dir_ok w \<Longrightarrow> only_offers w (public_run app cs w)"
proof (induction cs arbitrary: w)
  case Nil
  then show ?case using same_only_offers [OF Nil same_offers_refl] by simp
next
  case (Cons c cs)
  have "only_offers w (snd (public_step app c w))"
    by (cases c)
      (simp_all add: same_only_offers [OF Cons.prems] plain_posts_offers login_only_offers [OF Cons.prems]
        signup_only_offers [OF Cons.prems svc])
  then show ?case using Cons.IH only_offers_dir_ok only_offers_trans by simp blast
qed

section \<open>Properties\<close>

text \<open>C8. No public call grants access that was not offered: after any signups, verifications, resets and
  logins by anybody, each membership is what it was or exactly what an invitation pending at the
  start offers in that business.\<close>

theorem membership_only_by_invitation:
  assumes "sa_invites app = Some (invites sql_directory_ops sql_inv_store audit ttl)"
    and "sql_directory_ok (sw_dir w)" "invitations_ok (sw_invitations w)"
  shows "sd_membership u t (sw_dir (public_run app calls w)) = sd_membership u t (sw_dir w) \<or>
    (\<exists>token i. map_of (sw_invitations w) token = Some i \<and> inv_status i = INV_PENDING \<and> inv_tenant_id i = t \<and>
       sd_membership u t (sw_dir (public_run app calls w)) = Some \<lparr>mb_user_id = u, mb_tenant_id = t, mb_role = inv_role i\<rparr>)"
  using public_run_offers [OF assms(1), of w calls] assms(2,3) unfolding only_offers_def dir_ok_def offered_def by blast

lemma safe_next_local: "safe_next v ts = Some u \<Longrightarrow> starts_with ''/t/'' u"
  by (auto simp: safe_next_def Let_def split: option.splits if_splits)

lemma memberships_of_member:
  "t \<in> set (memberships_of app d s) \<Longrightarrow> t \<in> set (sa_tenants app) \<and> ud_membership sql_directory_ops s t d \<noteq> None"
  by (auto simp: memberships_of_def split: if_splits)

lemma no_cookie [simp]: "rp_session (reply_of st p) = None" "rp_session (login_error st m) = None" "rp_session (json_error st m) = None"
  "rp_session (login_failure b) = None"
  by (simp_all add: reply_of_def login_error_def json_error_def login_failure_def)

lemma login_cookie:
  assumes run: "login_post app data browser w = (Inr rp, w')" and auth: "sa_auth app = Some auth" and cookie: "rp_session rp \<noteq> None"
  defines "email \<equiv> strip (field data ''email'' [])"
  defines "place \<equiv> seat_user app email (sw_dir w)"
  shows "\<exists>uid. auth_login auth email (field data ''password'' []) (auth_part w) = Inr (Some uid) \<and>
    rp = enter (fst place) (fst (destinations app data email (fst place) (snd place))) (snd (destinations app data email (fst place) (snd place)))
       (safe_next (data ''next'') None) \<and> sw_dir w' = snd place"
proof -
  have secret: "sa_session_secret app" "List.member email CHR ''@''"
    using run cookie by (auto simp: login_post_def Let_def email_def split: if_splits)
  show ?thesis
  proof (cases "auth_login auth email (field data ''password'' []) (auth_part w)")
    case (Inl e)
    then show ?thesis using run secret auth by (simp add: login_post_def Let_def email_def)
  next
    case (Inr r)
    show ?thesis
    proof (cases r)
      case None
      then show ?thesis using run secret auth Inr cookie by (auto simp: login_post_def Let_def email_def)
    next
      case (Some uid)
      then show ?thesis
        using run secret auth Inr by (auto simp: login_post_def Let_def email_def place_def case_prod_beta)
    qed
  qed
qed

text \<open>C9. A session of a deployment with a directory is a member's: a login that sets a cookie has verified the
  password of a verified address, its business is one the subject is a member of, without one it is
  staff or has several, and the browser is sent to a page of this application.\<close>

theorem login_session_is_member:
  assumes "sa_users app" "sa_auth app = Some auth" and run: "login_post app data browser w = (Inr rp, w')"
    and cookie: "rp_session rp = Some (sub, tn)"
  shows "(\<exists>uid. auth_login auth (strip (field data ''email'' [])) (field data ''password'' []) (auth_part w) = Inr (Some uid)) \<and>
    (case tn of
       Some t \<Rightarrow> List.member (sa_tenants app) t \<and> ud_membership sql_directory_ops sub t (sw_dir w') \<noteq> None
     | None \<Rightarrow> ud_platform_role sql_directory_ops sub (sw_dir w') \<noteq> None \<or> 2 \<le> length (memberships_of app (sw_dir w') sub)) \<and>
    (\<exists>u. rp_page rp = Location u \<and> (u = ''/app'' \<or> starts_with ''/t/'' u \<or> starts_with ''/choose'' u))"
proof -
  define email where "email = strip (field data ''email'' [])"
  obtain uid where uid: "auth_login auth email (field data ''password'' []) (auth_part w) = Inr (Some uid)"
    and rp: "rp = enter (fst (seat_user app email (sw_dir w)))
       (fst (destinations app data email (fst (seat_user app email (sw_dir w))) (snd (seat_user app email (sw_dir w)))))
       (snd (destinations app data email (fst (seat_user app email (sw_dir w))) (snd (seat_user app email (sw_dir w)))))
       (safe_next (data ''next'') None)" and w': "sw_dir w' = snd (seat_user app email (sw_dir w))"
    using login_cookie [OF run assms(2)] cookie unfolding email_def by auto
  define s where "s = fst (seat_user app email (sw_dir w))"
  define mine where "mine = memberships_of app (sw_dir w') s"
  define staff where "staff \<longleftrightarrow> ud_platform_role sql_directory_ops s (sw_dir w') \<noteq> None"
  have rp': "rp = enter s mine staff (safe_next (data ''next'') None)"
    using rp assms(1) by (simp add: destinations_def w' [symmetric] s_def [symmetric] mine_def staff_def Let_def)
  have prefix: "starts_with ''/choose'' (''/choose?next='' @ x)" "starts_with ''/choose'' ''/choose''" for x
    by (simp_all add: starts_with_def)
  have "(case tn of Some t \<Rightarrow> sub = s \<and> t \<in> set mine | None \<Rightarrow> sub = s \<and> (staff \<or> 2 \<le> length mine)) \<and>
      (\<exists>u. rp_page rp = Location u \<and> (u = ''/app'' \<or> starts_with ''/t/'' u \<or> starts_with ''/choose'' u))"
    using cookie prefix safe_next_local unfolding rp'
    by (cases mine) (auto simp: enter_def Let_def login_error_def reply_of_def Suc_le_eq split: if_splits option.splits)
  then show ?thesis
    using uid memberships_of_member [of _ app "sw_dir w'" s] unfolding email_def [symmetric] staff_def mine_def
    by (auto split: option.splits)
qed

section \<open>Examples\<close>

text \<open>A deployment with no mailer; Vic has been seated as the owner of \<open>vics\<close> and has no password yet.\<close>

definition quiet_app :: "(unit, unit) signin_app" where
  "quiet_app =
     \<lparr>sa_users = True, sa_invites = Some (invites sql_directory_ops sql_inv_store (Some (sql_audit_ops True)) 7),
      sa_auth = Some (auth_over sql_cred_ops sql_token_ops (Some (sql_audit_ops True)) toy_hasher None 8 86400 3600 []),
      sa_emailer = None, sa_tenants = [''evil'', ''vics''], sa_session_secret = True, sa_boot_email = []\<rparr>"

definition vic :: user where
  "vic = \<lparr>usr_id = ''vic@v.test'', usr_email = ''vic@v.test'', usr_name = ''Vic''\<rparr>"

definition seated :: "(unit, unit) signin_world" where
  "seated = \<lparr>sw_dir = sd_set_membership ''vic@v.test'' ''vics'' OWNER (sd_upsert_user vic sql_directory_empty), sw_invitations = [],
     sw_audit = \<lparr>at_last = 0, at_rows = []\<rparr>, sw_creds = [], sw_tokens = [], sw_hook = (), sw_mail = ()\<rparr>"

definition form_of :: "(string \<times> string) list \<Rightarrow> form_data" where
  "form_of kvs = map_of kvs"

definition example_readings :: readings where
  "example_readings = \<lparr>rd_preview = 10, rd_signup = 10, rd_issue = 10, rd_verify = 10, rd_accept = 10, rd_salt = ''s'', rd_token = ''v''\<rparr>"

definition invited :: "(unit, unit) signin_world" where
  "invited = snd (invitation_create quiet_app ''eve'' ''evil'' (form_of [(''email'', ''vic@v.test'')]) 5 ''inv'' seated)"

definition redeemed_by_eve :: "(unit, unit) signin_world" where
  "redeemed_by_eve = snd (signup_post quiet_app (form_of [(''token'', ''inv''), (''password'', ''eves password'')]) False example_readings invited)"

theorem membership_only_by_invitation_witness:
  "sd_membership ''vic@v.test'' ''evil'' (sw_dir (public_run quiet_app
       [PSignup (form_of [(''token'', ''inv''), (''password'', ''eves password'')]) False example_readings] invited)) =
     sd_membership ''vic@v.test'' ''evil'' (sw_dir invited) \<or>
   (\<exists>token i. map_of (sw_invitations invited) token = Some i \<and> inv_status i = INV_PENDING \<and> inv_tenant_id i = ''evil'' \<and>
      sd_membership ''vic@v.test'' ''evil'' (sw_dir (public_run quiet_app
        [PSignup (form_of [(''token'', ''inv''), (''password'', ''eves password'')]) False example_readings] invited)) =
      Some \<lparr>mb_user_id = ''vic@v.test'', mb_tenant_id = ''evil'', mb_role = inv_role i\<rparr>)"
proof (rule membership_only_by_invitation)
  show "sa_invites quiet_app = Some (invites sql_directory_ops sql_inv_store (Some (sql_audit_ops True)) 7)" by (simp add: quiet_app_def)
  show "sql_directory_ok (sw_dir invited)" unfolding sql_directory_ok_def by code_simp
  show "invitations_ok (sw_invitations invited)" unfolding invitations_ok_def by code_simp
qed

lemma eve_logs_in:
  "fst (login_post quiet_app (form_of [(''email'', ''vic@v.test''), (''password'', ''eves password''), (''next'', ''/t/vics/books'')]) True redeemed_by_eve) =
     Inr \<lparr>rp_status = 302, rp_page = Location (''/choose?next='' @ quote ''/t/vics/books''), rp_session = Some (''vic@v.test'', None)\<rparr>"
  by code_simp

theorem login_session_is_member_witness:
  "\<exists>w' uid. login_post quiet_app (form_of [(''email'', ''vic@v.test''), (''password'', ''eves password''), (''next'', ''/t/vics/books'')]) True redeemed_by_eve =
      (Inr \<lparr>rp_status = 302, rp_page = Location (''/choose?next='' @ quote ''/t/vics/books''), rp_session = Some (''vic@v.test'', None)\<rparr>, w') \<and>
    auth_login (the (sa_auth quiet_app)) ''vic@v.test'' ''eves password'' (auth_part redeemed_by_eve) = Inr (Some uid)"
proof -
  let ?f = "form_of [(''email'', ''vic@v.test''), (''password'', ''eves password''), (''next'', ''/t/vics/books'')]"
  let ?r = "login_post quiet_app ?f True redeemed_by_eve"
  have "sa_users quiet_app" "sa_auth quiet_app = Some (the (sa_auth quiet_app))" by (simp_all add: quiet_app_def)
  moreover have r: "?r = (Inr \<lparr>rp_status = 302, rp_page = Location (''/choose?next='' @ quote ''/t/vics/books''), rp_session = Some (''vic@v.test'', None)\<rparr>, snd ?r)"
    using eve_logs_in by (metis prod.collapse)
  ultimately have "\<exists>uid. auth_login (the (sa_auth quiet_app)) (strip (field ?f ''email'' [])) (field ?f ''password'' []) (auth_part redeemed_by_eve) = Inr (Some uid)"
    using login_session_is_member [of quiet_app "the (sa_auth quiet_app)" ?f True redeemed_by_eve] by fastforce
  moreover have "strip (field ?f ''email'' []) = ''vic@v.test''" "field ?f ''password'' [] = ''eves password''" by code_simp+
  ultimately show ?thesis using r by metis
qed

text \<open>An invitation is redeemed by whoever holds its token, and its inviter does. Without a mailer the new
  credential counts as verified: Eve, who may invite people to her own business, sets the password of
  Vic's address and enters Vic's business.\<close>

lemma inviter_takes_over:
  "sd_membership ''eve'' ''vics'' (sw_dir seated) = None"
  "fst (invitation_create quiet_app ''eve'' ''evil'' (form_of [(''email'', ''vic@v.test'')]) 5 ''inv'' seated) =
     Inr (reply_of 201 (JsonBody [(''email'', Txt ''vic@v.test''), (''role'', Txt ''viewer''), (''token'', Txt ''inv''), (''expires_at'', Num 604805)]))"
  "choose_enter quiet_app (Some ''vic@v.test'') (form_of [(''tenant'', ''vics'')]) redeemed_by_eve =
     \<lparr>rp_status = 302, rp_page = Location ''/app'', rp_session = Some (''vic@v.test'', Some ''vics'')\<rparr>"
  by code_simp+

text \<open>Whoever already has a password cannot redeem an invitation to a second business: signing up is the only
  way to redeem one, and it refuses a known address.\<close>

lemma signup_refused:
  assumes "co_get_by_email (as_creds auth) (strip email) (aw_creds v) \<noteq> None"
  shows "\<exists>msg. auth_signup auth email pw now salt now' token v = (Inl (AuthError msg), v)"
  using assms
  by (cases "List.member (strip email) CHR ''@''"; cases "int (char_count pw) < as_min_len auth")
    (simp_all add: auth_signup_def Let_def seqm_def bind_def raise_if_def)

lemma second_invitation_stuck:
  assumes "sa_auth app = Some auth" "signup_address app data browser (rd_preview rd) w = Inr (email, Some i)"
    and "co_get_by_email (as_creds auth) (strip email) (sw_creds w) \<noteq> None"
  shows "\<exists>rp. signup_post app data browser rd w = (Inr rp, w) \<and> rp_status rp = 400"
proof -
  obtain msg where "auth_signup auth email (field data ''password'' []) (rd_signup rd) (rd_salt rd) (rd_issue rd) (rd_token rd) (auth_part w) =
      (Inl (AuthError msg), auth_part w)"
  proof -
    have "co_get_by_email (as_creds auth) (strip email) (aw_creds (auth_part w)) \<noteq> None" using assms(3) by (simp add: auth_part_def)
    from signup_refused [OF this] show thesis using that by blast
  qed
  moreover have "put_auth (auth_part w) w = w" by (simp add: put_auth_def auth_part_def)
  ultimately show ?thesis
    using assms(1,2) by (auto simp: signup_post_def signup_account_def on_auth_def Let_def json_error_def reply_of_def)
qed

end
