(* ===== verification/Py_Json.thy ===== *)
theory Py_Json
  imports Base64 Complex_Main
begin

text \<open>
  What \<open>json.loads\<close> returns and what the code does with it: subscripts, \<open>get\<close>, truth, iteration,
  \<open>int\<close> and \<open>str\<close>. \<open>str\<close> of a value that is no string is an argument. A value that the code stores
  without looking at it, in a field declared with another type, ends the model's run with
  \<open>Mistyped\<close>, which is no exception of the program.
\<close>

section \<open>What \<open>json.loads\<close> returns\<close>

datatype py_float = Finite rat | PosInf | NegInf | NaN

datatype py_json =
    PNone
  | PBool bool
  | PInt int
  | PFloat py_float
  | PStr string
  | PList "py_json list"
  | PDict "(string \<times> py_json) list"

definition dict_get :: "(string \<times> py_json) list \<Rightarrow> string \<Rightarrow> py_json option" where
  "dict_get d k = map_of d k"

definition as_str :: "py_json option \<Rightarrow> string option" where
  "as_str v = (case v of Some (PStr s) \<Rightarrow> Some s | _ \<Rightarrow> None)"

section \<open>Operations\<close>

definition getitem :: "py_json \<Rightarrow> string \<Rightarrow> py_json res" where
  "getitem v k =
     (case v of
        PDict d \<Rightarrow> (case dict_get d k of Some x \<Rightarrow> Inr x | None \<Rightarrow> Inl (KeyError k))
      | _ \<Rightarrow> Inl TypeError)"

text \<open>\<open>v.get(k, x)\<close>\<close>

definition get_or :: "py_json \<Rightarrow> string \<Rightarrow> py_json \<Rightarrow> py_json res" where
  "get_or v k x =
     (case v of
        PDict d \<Rightarrow> Inr (case dict_get d k of Some y \<Rightarrow> y | None \<Rightarrow> x)
      | _ \<Rightarrow> Inl AttributeError)"

definition truthy :: "py_json \<Rightarrow> bool" where
  "truthy v =
     (case v of PNone \<Rightarrow> False | PBool b \<Rightarrow> b | PInt i \<Rightarrow> i \<noteq> 0 | PFloat f \<Rightarrow> f \<noteq> Finite 0
      | PStr s \<Rightarrow> s \<noteq> [] | PList xs \<Rightarrow> xs \<noteq> [] | PDict d \<Rightarrow> d \<noteq> [])"

text \<open>The characters of a string that is iterated over are its bytes here.\<close>

definition py_iter :: "py_json \<Rightarrow> py_json list res" where
  "py_iter v =
     (case v of PList xs \<Rightarrow> Inr xs | PDict d \<Rightarrow> Inr (map (\<lambda>(k, x). PStr k) d)
      | PStr s \<Rightarrow> Inr (map (\<lambda>c. PStr [c]) s) | _ \<Rightarrow> Inl TypeError)"

definition trunc :: "rat \<Rightarrow> int" where
  "trunc r = (if r < 0 then - \<lfloor>- r\<rfloor> else \<lfloor>r\<rfloor>)"

definition to_int :: "py_json \<Rightarrow> int res" where
  "to_int v =
     (case v of PInt i \<Rightarrow> Inr i | PBool b \<Rightarrow> Inr (of_bool b) | PStr s \<Rightarrow> py_int s
      | PFloat (Finite r) \<Rightarrow> Inr (trunc r) | PFloat NaN \<Rightarrow> Inl ValueError | PFloat _ \<Rightarrow> Inl OverflowError
      | _ \<Rightarrow> Inl TypeError)"

definition to_str :: "(py_json \<Rightarrow> string) \<Rightarrow> py_json \<Rightarrow> string" where
  "to_str other v = (case v of PStr s \<Rightarrow> s | _ \<Rightarrow> other v)"

definition as_declared_str :: "py_json \<Rightarrow> string res" where
  "as_declared_str v = (case v of PStr s \<Rightarrow> Inr s | _ \<Rightarrow> Inl Mistyped)"

definition as_declared_int :: "py_json \<Rightarrow> int option res" where
  "as_declared_int v = (case v of PNone \<Rightarrow> Inr None | PInt i \<Rightarrow> Inr (Some i) | _ \<Rightarrow> Inl Mistyped)"

lemma getitem_dict [simp]: "getitem (PDict d) k = (case map_of d k of Some x \<Rightarrow> Inr x | None \<Rightarrow> Inl (KeyError k))"
  by (simp add: getitem_def dict_get_def)

lemma get_or_dict [simp]: "get_or (PDict d) k x = Inr (case map_of d k of Some y \<Rightarrow> y | None \<Rightarrow> x)"
  by (simp add: get_or_def dict_get_def)

lemma py_json_reads [simp]:
  "py_iter (PList xs) = Inr xs"
  "to_int (PInt i) = Inr i"
  "to_str other (PStr s) = s"
  "as_declared_str (PStr s) = Inr s"
  "as_declared_int PNone = Inr None"
  "as_declared_int (PInt i) = Inr (Some i)"
  by (simp_all add: py_iter_def to_int_def to_str_def as_declared_str_def as_declared_int_def)

lemma truthy_simps [simp]:
  "\<not> truthy PNone"
  "truthy (PBool b) \<longleftrightarrow> b"
  "truthy (PStr s) \<longleftrightarrow> s \<noteq> []"
  "truthy (PList xs) \<longleftrightarrow> xs \<noteq> []"
  "truthy (PDict d) \<longleftrightarrow> d \<noteq> []"
  by (simp_all add: truthy_def)

end
