(* ===== verification/Session_Tokens.thy ===== *)
theory Session_Tokens
  imports Py_Json
begin

text \<open>
  The session tokens of the web application (\<open>rgnr8_web/auth.py\<close>): HS256 JSON Web Tokens, the static
  token map and the authenticators over both. HMAC-SHA256 and \<open>json\<close> are arguments (record
  \<open>jwt_env\<close>), as is the sum of a float and an integer; comparisons with a float are exact, as in
  Python. A map of headers has lower-case names.
\<close>

section \<open>Claims\<close>

definition int_above :: "int \<Rightarrow> py_json \<Rightarrow> bool" where
  "int_above n v =
     (case v of PInt i \<Rightarrow> n > i | PBool b \<Rightarrow> n > of_bool b
      | PFloat (Finite r) \<Rightarrow> of_int n > r | PFloat NegInf \<Rightarrow> True | _ \<Rightarrow> False)"

definition int_below :: "int \<Rightarrow> py_json \<Rightarrow> bool" where
  "int_below n v =
     (case v of PInt i \<Rightarrow> n < i | PBool b \<Rightarrow> n < of_bool b
      | PFloat (Finite r) \<Rightarrow> of_int n < r | PFloat PosInf \<Rightarrow> True | _ \<Rightarrow> False)"

section \<open>Tokens\<close>

record jwt_env =
  je_hmac :: "string \<Rightarrow> string \<Rightarrow> string" \<comment> \<open>key, message, digest\<close>
  je_dumps :: "py_json \<Rightarrow> string" \<comment> \<open>with the compact separators\<close>
  je_loads :: "string \<Rightarrow> py_json res"
  je_plus :: "py_float \<Rightarrow> int \<Rightarrow> py_float"

datatype jwt_failure = JwtError string | Raised py_error

definition ALG :: string where
  "ALG = ''HS256''"

definition sign_segment :: "jwt_env \<Rightarrow> string \<Rightarrow> string \<Rightarrow> string" where
  "sign_segment env signing_input secret = b64url_encode (je_hmac env secret signing_input)"

definition jwt_header :: py_json where
  "jwt_header = PDict [(''alg'', PStr ALG), (''typ'', PStr ''JWT'')]"

definition sign_jwt :: "jwt_env \<Rightarrow> (string \<times> py_json) list \<Rightarrow> string \<Rightarrow> string" where
  "sign_jwt env claims secret =
     (let header_seg = b64url_encode (je_dumps env jwt_header);
          payload_seg = b64url_encode (je_dumps env (PDict claims));
          signing_input = header_seg @ ''.'' @ payload_seg
      in signing_input @ ''.'' @ sign_segment env signing_input secret)"

definition plus_leeway :: "jwt_env \<Rightarrow> py_json \<Rightarrow> int \<Rightarrow> py_json" where
  "plus_leeway env v leeway =
     (case v of PInt i \<Rightarrow> PInt (i + leeway) | PFloat f \<Rightarrow> PFloat (je_plus env f leeway) | _ \<Rightarrow> v)"

definition has_expiry :: "py_json option \<Rightarrow> bool" where
  "has_expiry v = (case v of Some (PInt i) \<Rightarrow> True | Some (PFloat f) \<Rightarrow> True | _ \<Rightarrow> False)"

definition is_number :: "py_json option \<Rightarrow> bool" where
  "is_number v = (case v of Some (PInt i) \<Rightarrow> True | Some (PFloat f) \<Rightarrow> True | Some (PBool b) \<Rightarrow> True | _ \<Rightarrow> False)"

definition in_force :: "jwt_env \<Rightarrow> (string \<times> py_json) list \<Rightarrow> int \<Rightarrow> int \<Rightarrow> jwt_failure + (string \<times> py_json) list" where
  "in_force env claims now leeway =
     (let e = dict_get claims ''exp''; n = dict_get claims ''nbf''
      in if \<not> has_expiry e then Inl (JwtError ''token missing exp'')
         else if int_above now (plus_leeway env (the e) leeway) then Inl (JwtError ''token expired'')
         else if is_number n \<and> int_below (now + leeway) (the n) then Inl (JwtError ''token not yet valid'')
         else Inr claims)"

text \<open>
  A \<open>ValueError\<close> of the decoder or of \<open>json.loads\<close> is caught. The bytes of the signing input are taken
  with \<open>encode("ascii")\<close> and the signatures are compared by \<open>hmac.compare_digest\<close>: both raise on other
  characters, and nothing catches that.
\<close>

definition read_segment :: "jwt_env \<Rightarrow> string \<Rightarrow> string \<Rightarrow> jwt_failure + py_json" where
  "read_segment env msg seg =
     (case res_bind (b64url_decode seg) (je_loads env) of
        Inl ValueError \<Rightarrow> Inl (JwtError msg)
      | Inl e \<Rightarrow> Inl (Raised e)
      | Inr v \<Rightarrow> Inr v)"

definition verify_jwt :: "jwt_env \<Rightarrow> string \<Rightarrow> string \<Rightarrow> int \<Rightarrow> int \<Rightarrow> jwt_failure + (string \<times> py_json) list" where
  "verify_jwt env token secret now leeway =
     (case split_char CHR ''.'' token of
        [header_seg, payload_seg, sig_seg] \<Rightarrow>
          (case read_segment env ''unreadable header'' header_seg of
             Inl f \<Rightarrow> Inl f
           | Inr header \<Rightarrow>
               if (case header of PDict d \<Rightarrow> dict_get d ''alg'' \<noteq> Some (PStr ALG) | _ \<Rightarrow> True)
               then Inl (JwtError ''unexpected alg (want HS256)'')
               else if \<not> ascii_only (header_seg @ ''.'' @ payload_seg) then Inl (Raised ValueError)
               else if \<not> ascii_only sig_seg then Inl (Raised TypeError)
               else if sign_segment env (header_seg @ ''.'' @ payload_seg) secret \<noteq> sig_seg
               then Inl (JwtError ''bad signature'')
               else
                 (case read_segment env ''unreadable payload'' payload_seg of
                    Inl f \<Rightarrow> Inl f
                  | Inr (PDict claims) \<Rightarrow> in_force env claims now leeway
                  | Inr v \<Rightarrow> Inl (JwtError ''payload is not an object'')))
      | _ \<Rightarrow> Inl (JwtError ''malformed token''))"

section \<open>Authenticators\<close>

type_synonym headers = "string \<Rightarrow> string option"

definition header_or :: "headers \<Rightarrow> string \<Rightarrow> string" where
  "header_or h name = (case h name of Some v \<Rightarrow> v | None \<Rightarrow> [])"

definition bearer :: "headers \<Rightarrow> string option" where
  "bearer h =
     (let auth = header_or h ''authorization''
      in if \<not> starts_with ''bearer '' (ascii_lower auth) then None else Some (strip (drop 7 auth)))"

text \<open>An authenticator: whether it is the static map, and what it answers to a request's headers.\<close>

record authenticator =
  au_static :: bool
  au_tenant :: "headers \<Rightarrow> string option res"
  au_principal :: "(headers \<Rightarrow> (string \<times> string) option res) option" \<comment> \<open>not every class has it\<close>
  au_view_as :: "(headers \<Rightarrow> string option res) option"

definition static_tenant :: "(string \<times> string) list \<Rightarrow> headers \<Rightarrow> string option" where
  "static_tenant tokens h = (case bearer h of Some t \<Rightarrow> map_of tokens t | None \<Rightarrow> None)"

definition static_authenticator :: "(string \<times> string) list \<Rightarrow> authenticator" where
  "static_authenticator tokens =
     \<lparr>au_static = True, au_tenant = (\<lambda>h. Inr (static_tenant tokens h)),
      au_principal = Some (\<lambda>h. Inr (map_option (\<lambda>t. (t, t)) (static_tenant tokens h))), au_view_as = None\<rparr>"

record jwt_authenticator =
  ja_secret :: string
  ja_claim :: string
  ja_subject_claim :: string
  ja_leeway :: int

definition jwt_claims :: "jwt_env \<Rightarrow> jwt_authenticator \<Rightarrow> int \<Rightarrow> headers \<Rightarrow> (string \<times> py_json) list option res" where
  "jwt_claims env a now h =
     (case bearer h of
        None \<Rightarrow> Inr None
      | Some t \<Rightarrow>
          (case verify_jwt env t (ja_secret a) now (ja_leeway a) of
             Inr c \<Rightarrow> Inr (Some c) | Inl (JwtError m) \<Rightarrow> Inr None | Inl (Raised e) \<Rightarrow> Inl e))"

definition jwt_tenant :: "jwt_env \<Rightarrow> jwt_authenticator \<Rightarrow> int \<Rightarrow> headers \<Rightarrow> string option res" where
  "jwt_tenant env a now h =
     res_bind (jwt_claims env a now h) (\<lambda>c. Inr (case c of None \<Rightarrow> None | Some d \<Rightarrow> as_str (dict_get d (ja_claim a))))"

definition jwt_view_as :: "jwt_env \<Rightarrow> jwt_authenticator \<Rightarrow> int \<Rightarrow> headers \<Rightarrow> string option res" where
  "jwt_view_as env a now h =
     res_bind (jwt_claims env a now h) (\<lambda>c. Inr (case c of None \<Rightarrow> None | Some d \<Rightarrow> as_str (dict_get d ''view_as'')))"

text \<open>The principal a set of claims names: the tenant, and the subject or else the tenant.\<close>

definition principal_of :: "string \<Rightarrow> string \<Rightarrow> (string \<times> py_json) list \<Rightarrow> (string \<times> string) option" where
  "principal_of claim subject_claim d =
     (case as_str (dict_get d claim) of
        None \<Rightarrow> None
      | Some tenant \<Rightarrow> Some (tenant, case as_str (dict_get d subject_claim) of Some s \<Rightarrow> s | None \<Rightarrow> tenant))"

definition jwt_principal :: "jwt_env \<Rightarrow> jwt_authenticator \<Rightarrow> int \<Rightarrow> headers \<Rightarrow> (string \<times> string) option res" where
  "jwt_principal env a now h =
     res_bind (jwt_claims env a now h)
       (\<lambda>c. Inr (case c of None \<Rightarrow> None | Some d \<Rightarrow> principal_of (ja_claim a) (ja_subject_claim a) d))"

definition jwt_authenticator_of :: "jwt_env \<Rightarrow> jwt_authenticator \<Rightarrow> int \<Rightarrow> authenticator" where
  "jwt_authenticator_of env a now =
     \<lparr>au_static = False, au_tenant = jwt_tenant env a now, au_principal = Some (jwt_principal env a now),
      au_view_as = Some (jwt_view_as env a now)\<rparr>"


section \<open>What a token proves\<close>

lemma split_char_three:
  "split_char c s = [x, y, z] \<longleftrightarrow> s = x @ c # y @ c # z \<and> c \<notin> set x \<and> c \<notin> set y \<and> c \<notin> set z"
proof
  have parts: "join_sep [c] (split_char c s) = s \<and> split_char c s \<noteq> [] \<and> list_all (\<lambda>w. c \<notin> set w) (split_char c s)" for s
  proof (induction s)
    case (Cons a s)
    then show ?case by (cases "split_char c s"; cases "tl (split_char c s)") auto
  qed simp
  show "split_char c s = [x, y, z] \<Longrightarrow> s = x @ c # y @ c # z \<and> c \<notin> set x \<and> c \<notin> set y \<and> c \<notin> set z"
    using parts [of s] by auto
qed (simp add: split_char_prefix split_char_no)

lemma sign_segment_ascii: "ascii_only (sign_segment env m secret)" "CHR ''.'' \<notin> set (sign_segment env m secret)"
  using b64url_encode_char by (auto simp: sign_segment_def ascii_only_def list_all_iff)

lemma read_segment_Inr: "read_segment env msg seg = Inr v \<longleftrightarrow> res_bind (b64url_decode seg) (je_loads env) = Inr v"
  by (auto simp: read_segment_def split: sum.splits py_error.splits)

lemma b64url_decode_ascii: "b64url_decode seg = Inr v \<Longrightarrow> ascii_only seg"
  by (auto simp: b64url_decode_def Let_def ascii_only_def list_all_iff split: if_splits)

lemma in_force_Inr: "in_force env claims now leeway = Inr c \<Longrightarrow> c = claims"
  by (auto simp: in_force_def Let_def split: if_splits)

lemma ascii_only_simps [simp]:
  "ascii_only (x @ y) \<longleftrightarrow> ascii_only x \<and> ascii_only y"
  "ascii_only (c # x) \<longleftrightarrow> (of_char c :: nat) < 128 \<and> ascii_only x"
  by (simp_all add: ascii_only_def)

text \<open>What a token accepted under a secret is.\<close>

definition signed_claims :: "jwt_env \<Rightarrow> string \<Rightarrow> string \<Rightarrow> (string \<times> py_json) list \<Rightarrow> bool" where
  "signed_claims env secret token claims \<longleftrightarrow>
     (\<exists>h p d. token = h @ CHR ''.'' # p @ CHR ''.'' # sign_segment env (h @ ''.'' @ p) secret \<and>
        CHR ''.'' \<notin> set h \<union> set p \<and>
        res_bind (b64url_decode h) (je_loads env) = Inr (PDict d) \<and> dict_get d ''alg'' = Some (PStr ALG) \<and>
        res_bind (b64url_decode p) (je_loads env) = Inr (PDict claims))"

lemma res_bind_InrD: "res_bind x f = Inr v \<Longrightarrow> \<exists>y. x = Inr y"
  by (cases x) auto

lemma verify_accepts:
  "verify_jwt env token secret now leeway = Inr claims \<longleftrightarrow>
     signed_claims env secret token claims \<and> in_force env claims now leeway = Inr claims"
proof
  assume v: "verify_jwt env token secret now leeway = Inr claims"
  then obtain h p s where seg: "split_char CHR ''.'' token = [h, p, s]"
    by (auto simp: verify_jwt_def split: list.splits)
  with v obtain d where h: "read_segment env ''unreadable header'' h = Inr (PDict d)" "dict_get d ''alg'' = Some (PStr ALG)"
    and s: "sign_segment env (h @ ''.'' @ p) secret = s"
    and p: "(case read_segment env ''unreadable payload'' p of Inl f \<Rightarrow> Inl f
              | Inr (PDict c) \<Rightarrow> in_force env c now leeway
              | Inr v \<Rightarrow> Inl (JwtError ''payload is not an object'')) = Inr claims"
    by (auto simp: verify_jwt_def split: sum.splits py_json.splits if_splits)
  from p obtain c where "read_segment env ''unreadable payload'' p = Inr (PDict c)" "in_force env c now leeway = Inr claims"
    by (auto split: sum.splits py_json.splits)
  moreover from this(2) have "c = claims" using in_force_Inr by metis
  ultimately show "signed_claims env secret token claims \<and> in_force env claims now leeway = Inr claims"
    unfolding signed_claims_def
    using h s seg by (intro conjI exI [of _ h] exI [of _ p] exI [of _ d]) (simp_all add: split_char_three read_segment_Inr)
next
  assume "signed_claims env secret token claims \<and> in_force env claims now leeway = Inr claims"
  then obtain h p d where t: "token = h @ CHR ''.'' # p @ CHR ''.'' # sign_segment env (h @ ''.'' @ p) secret"
    and dots: "CHR ''.'' \<notin> set h" "CHR ''.'' \<notin> set p"
    and h: "res_bind (b64url_decode h) (je_loads env) = Inr (PDict d)" "dict_get d ''alg'' = Some (PStr ALG)"
    and p: "res_bind (b64url_decode p) (je_loads env) = Inr (PDict claims)"
    and f: "in_force env claims now leeway = Inr claims"
    unfolding signed_claims_def by auto
  have "ascii_only h" "ascii_only p" using h(1) p by (auto dest!: res_bind_InrD b64url_decode_ascii)
  moreover have "ascii_only ''.''" by (simp add: ascii_only_def)
  moreover have "split_char CHR ''.'' token = [h, p, sign_segment env (h @ ''.'' @ p) secret]"
    using t dots sign_segment_ascii by (simp add: split_char_three)
  moreover have "read_segment env ''unreadable header'' h = Inr (PDict d)" "read_segment env ''unreadable payload'' p = Inr (PDict claims)"
    using h(1) p by (simp_all only: read_segment_Inr)
  ultimately show "verify_jwt env token secret now leeway = Inr claims"
    using h(2) f sign_segment_ascii by (simp add: verify_jwt_def)
qed

text \<open>C23. A token the application minted is accepted while its claims are in force, and refused for that reason
  only.\<close>

theorem jwt_round_trip:
  assumes "je_loads env (je_dumps env jwt_header) = Inr jwt_header"
    and "je_loads env (je_dumps env (PDict claims)) = Inr (PDict claims)"
  shows "verify_jwt env (sign_jwt env claims secret) secret now leeway = in_force env claims now leeway"
proof -
  let ?h = "b64url_encode (je_dumps env jwt_header)" and ?p = "b64url_encode (je_dumps env (PDict claims))"
  have seg: "ascii_only ?h" "ascii_only ?p" "CHR ''.'' \<notin> set ?h" "CHR ''.'' \<notin> set ?p" "ascii_only ''.''"
    using b64url_encode_char by (auto simp: ascii_only_def list_all_iff)
  then have "split_char CHR ''.'' (sign_jwt env claims secret) = [?h, ?p, sign_segment env (?h @ ''.'' @ ?p) secret]"
    using sign_segment_ascii by (simp add: split_char_three sign_jwt_def Let_def)
  then show ?thesis
    using assms seg sign_segment_ascii
    by (simp add: verify_jwt_def read_segment_def jwt_header_def dict_get_def)
qed

definition toy_jwt :: jwt_env where
  "toy_jwt =
     \<lparr>je_hmac = (\<lambda>k m. k @ take 3 m), je_dumps = (\<lambda>v. if v = jwt_header then ''h'' else ''c''),
      je_loads = (\<lambda>s. if s = ''h'' then Inr jwt_header
                      else Inr (PDict [(''tenant'', PStr ''acme''), (''exp'', PInt 2000)])),
      je_plus = (\<lambda>f n. f)\<rparr>"

theorem jwt_round_trip_witness:
  "verify_jwt toy_jwt (sign_jwt toy_jwt [(''tenant'', PStr ''acme''), (''exp'', PInt 2000)] ''key'') ''key'' 2001 0 =
     Inl (JwtError ''token expired'')"
proof -
  have "verify_jwt toy_jwt (sign_jwt toy_jwt [(''tenant'', PStr ''acme''), (''exp'', PInt 2000)] ''key'') ''key'' 2001 0 =
      in_force toy_jwt [(''tenant'', PStr ''acme''), (''exp'', PInt 2000)] 2001 0"
    by (rule jwt_round_trip) (simp_all add: toy_jwt_def jwt_header_def)
  then show ?thesis
    by (simp add: in_force_def dict_get_def has_expiry_def plus_leeway_def int_above_def)
qed

text \<open>An unauthenticated caller makes the check raise something else than \<open>JwtError\<close>: a signature
  segment outside ASCII raises \<open>TypeError\<close> once the header is readable.\<close>

lemma foreign_signature_raises:
  assumes "je_loads env (je_dumps env jwt_header) = Inr jwt_header" "\<not> ascii_only sig" "CHR ''.'' \<notin> set sig"
  shows "verify_jwt env (b64url_encode (je_dumps env jwt_header) @ ''..'' @ sig) secret now leeway = Inl (Raised TypeError)"
proof -
  let ?h = "b64url_encode (je_dumps env jwt_header)"
  have seg: "ascii_only ?h" "CHR ''.'' \<notin> set ?h" "ascii_only ''.''"
    using b64url_encode_char by (auto simp: ascii_only_def list_all_iff)
  then have "split_char CHR ''.'' (?h @ ''..'' @ sig) = [?h, [], sig]"
    using assms(3) by (simp add: split_char_three)
  then show ?thesis
    using assms seg by (simp add: verify_jwt_def read_segment_def jwt_header_def dict_get_def)
qed

end
