(* ===== verification/Api_Keys.thy ===== *)
theory Api_Keys
  imports Prelude
begin

text \<open>
  Partner API keys (\<open>rgnr8_web/apikeys.py\<close>): the service over an interface of stores (the locale
  \<open>key_store\<close>), the in-memory store and the SQL store. SHA-256 is an argument; random identifiers,
  secrets and the clock are arguments of each call. The schema migration is not modelled.
\<close>

section \<open>Keys and stores\<close>

record api_key =
  ak_key_id :: string
  ak_secret_hash :: string
  ak_tenant_id :: string
  ak_subject :: string
  ak_name :: string
  ak_created_at :: int
  ak_expires_at :: int
  ak_revoked :: bool
  ak_scopes :: "string list option"

record 's key_store_ops =
  ks_save :: "api_key \<Rightarrow> 's \<Rightarrow> 's"
  ks_get :: "string \<Rightarrow> 's \<Rightarrow> api_key option"
  ks_list_for_tenant :: "string \<Rightarrow> 's \<Rightarrow> api_key list"

type_synonym mem_keys = "(string \<times> api_key) list"

definition mem_key_store :: "mem_keys key_store_ops" where
  "mem_key_store =
     \<lparr>ks_save = (\<lambda>k. AList.update (ak_key_id k) k), ks_get = (\<lambda>i s. map_of s i),
      ks_list_for_tenant = (\<lambda>t s. filter (\<lambda>k. ak_tenant_id k = t) (map snd s))\<rparr>"

text \<open>A row of the SQL table: the key with its scopes joined by commas, none as the empty text.\<close>

record key_row =
  kr_secret_hash :: string
  kr_tenant_id :: string
  kr_subject :: string
  kr_name :: string
  kr_created_at :: int
  kr_expires_at :: int
  kr_revoked :: bool
  kr_scopes :: string

type_synonym key_table = "(string \<times> key_row) list"

definition scopes_text :: "string list option \<Rightarrow> string" where
  "scopes_text v = (case v of None \<Rightarrow> [] | Some scopes \<Rightarrow> join_sep '','' scopes)"

definition row_of_key :: "api_key \<Rightarrow> key_row" where
  "row_of_key k =
     \<lparr>kr_secret_hash = ak_secret_hash k, kr_tenant_id = ak_tenant_id k, kr_subject = ak_subject k, kr_name = ak_name k,
      kr_created_at = ak_created_at k, kr_expires_at = ak_expires_at k, kr_revoked = ak_revoked k,
      kr_scopes = scopes_text (ak_scopes k)\<rparr>"

definition to_key :: "string \<times> key_row \<Rightarrow> api_key" where
  "to_key r =
     (case r of (i, v) \<Rightarrow>
        \<lparr>ak_key_id = i, ak_secret_hash = kr_secret_hash v, ak_tenant_id = kr_tenant_id v, ak_subject = kr_subject v,
         ak_name = kr_name v, ak_created_at = kr_created_at v, ak_expires_at = kr_expires_at v, ak_revoked = kr_revoked v,
         ak_scopes = (if kr_scopes v = [] then None else Some (split_char CHR '','' (kr_scopes v)))\<rparr>)"

text \<open>\<open>INSERT ... ON CONFLICT (key_id) DO UPDATE SET revoked, name, scopes\<close>\<close>

definition sql_save_key :: "api_key \<Rightarrow> key_table \<Rightarrow> key_table" where
  "sql_save_key k t =
     (case map_of t (ak_key_id k) of
        None \<Rightarrow> t @ [(ak_key_id k, row_of_key k)]
      | Some old \<Rightarrow>
          map (\<lambda>(i, v). (i, if i = ak_key_id k
                             then v\<lparr>kr_revoked := ak_revoked k, kr_name := ak_name k, kr_scopes := scopes_text (ak_scopes k)\<rparr>
                             else v)) t)"

definition sql_get_key :: "string \<Rightarrow> key_table \<Rightarrow> api_key option" where
  "sql_get_key i t = map_option (\<lambda>v. to_key (i, v)) (map_of t i)"

definition sql_list_keys :: "string \<Rightarrow> key_table \<Rightarrow> api_key list" where
  "sql_list_keys tenant t = map to_key (sort_key (\<lambda>(i, v). kr_created_at v) (filter (\<lambda>(i, v). kr_tenant_id v = tenant) t))"

definition sql_key_store :: "key_table key_store_ops" where
  "sql_key_store = \<lparr>ks_save = sql_save_key, ks_get = sql_get_key, ks_list_for_tenant = sql_list_keys\<rparr>"

section \<open>The service\<close>

definition KEY_PREFIX :: string where
  "KEY_PREFIX = ''rgk''"

record key_service =
  kv_sha :: "string \<Rightarrow> string"
  kv_ttl_days :: int

definition issue_key ::
  "key_service \<Rightarrow> 's key_store_ops \<Rightarrow> string \<Rightarrow> string \<Rightarrow> string \<Rightarrow> string list option \<Rightarrow> string \<Rightarrow> string \<Rightarrow> int \<Rightarrow> 's
     \<Rightarrow> (api_key \<times> string) \<times> 's" where
  "issue_key sv ops tenant_id subject name scopes key_id raw now s =
     (let key = \<lparr>ak_key_id = key_id, ak_secret_hash = kv_sha sv raw, ak_tenant_id = tenant_id, ak_subject = subject,
                 ak_name = name, ak_created_at = now,
                 ak_expires_at = (if 0 < kv_ttl_days sv then now + kv_ttl_days sv * 86400 else 0),
                 ak_revoked = False, ak_scopes = scopes\<rparr>
      in ((key, KEY_PREFIX @ ''_'' @ key_id @ ''_'' @ raw), ks_save ops key s))"

text \<open>\<open>s.split(c, n)\<close>\<close>

fun split_max :: "nat \<Rightarrow> char \<Rightarrow> string \<Rightarrow> string list" where
  "split_max 0 c s = [s]"
| "split_max (Suc n) c s =
     (if List.member s c then takeWhile (\<lambda>x. x \<noteq> c) s # split_max n c (tl (dropWhile (\<lambda>x. x \<noteq> c) s)) else [s])"

definition resolve_record :: "key_service \<Rightarrow> 's key_store_ops \<Rightarrow> string \<Rightarrow> int \<Rightarrow> 's \<Rightarrow> api_key option" where
  "resolve_record sv ops presented now s =
     (case split_max 2 CHR ''_'' presented of
        [prefix, key_id, raw] \<Rightarrow>
          if prefix \<noteq> KEY_PREFIX then None
          else
            (case ks_get ops key_id s of
               None \<Rightarrow> None
             | Some rec \<Rightarrow>
                 if ak_revoked rec then None
                 else if ak_secret_hash rec \<noteq> kv_sha sv raw then None
                 else if ak_expires_at rec \<noteq> 0 \<and> ak_expires_at rec \<le> now then None
                 else Some rec)
      | _ \<Rightarrow> None)"

definition verify_key :: "key_service \<Rightarrow> 's key_store_ops \<Rightarrow> string \<Rightarrow> int \<Rightarrow> 's \<Rightarrow> (string \<times> string) option" where
  "verify_key sv ops presented now s =
     map_option (\<lambda>k. (ak_tenant_id k, ak_subject k)) (resolve_record sv ops presented now s)"

definition resolve_key :: "key_service \<Rightarrow> 's key_store_ops \<Rightarrow> string \<Rightarrow> int \<Rightarrow> 's \<Rightarrow> (string \<times> string \<times> string list option) option" where
  "resolve_key sv ops presented now s =
     map_option (\<lambda>k. (ak_tenant_id k, ak_subject k, ak_scopes k)) (resolve_record sv ops presented now s)"

definition revoke_key :: "'s key_store_ops \<Rightarrow> string \<Rightarrow> 's \<Rightarrow> bool \<times> 's" where
  "revoke_key ops key_id s =
     (case ks_get ops key_id s of
        None \<Rightarrow> (False, s)
      | Some rec \<Rightarrow> (True, ks_save ops (rec\<lparr>ak_revoked := True\<rparr>) s))"

section \<open>Runs of the service\<close>

datatype key_call =
    IssueKey string string string string "string list option" string int
      \<comment> \<open>identifier, secret, tenant, subject, scopes, name, time\<close>
  | RevokeKey string

fun key_step :: "key_service \<Rightarrow> 's key_store_ops \<Rightarrow> key_call \<Rightarrow> 's \<Rightarrow> 's" where
  "key_step sv ops (IssueKey i raw t u sc n now) s = snd (issue_key sv ops t u n sc i raw now s)"
| "key_step sv ops (RevokeKey i) s = snd (revoke_key ops i s)"

text \<open>Random identifiers: each issued key has one that the run has not used.\<close>

fun fresh_key :: "'s key_store_ops \<Rightarrow> (string list option \<Rightarrow> bool) \<Rightarrow> key_call \<Rightarrow> 's \<Rightarrow> bool" where
  "fresh_key ops good (IssueKey i raw t u sc n now) s \<longleftrightarrow> ks_get ops i s = None \<and> good sc"
| "fresh_key ops good (RevokeKey i) s \<longleftrightarrow> True"

primrec fresh_run :: "key_service \<Rightarrow> 's key_store_ops \<Rightarrow> (string list option \<Rightarrow> bool) \<Rightarrow> key_call list \<Rightarrow> 's \<Rightarrow> bool" where
  "fresh_run sv ops good [] s \<longleftrightarrow> True"
| "fresh_run sv ops good (c # cs) s \<longleftrightarrow> fresh_key ops good c s \<and> fresh_run sv ops good cs (key_step sv ops c s)"

lemma fresh_run_append:
  "fresh_run sv ops good (xs @ ys) s \<longleftrightarrow> fresh_run sv ops good xs s \<and> fresh_run sv ops good ys (fold (key_step sv ops) xs s)"
  by (induction xs arbitrary: s) auto

section \<open>What a store of keys promises\<close>

text \<open>\<open>good\<close> are the scopes the store gives back as it was given them.\<close>

locale key_store =
  fixes ops :: "'s key_store_ops" and ok :: "'s \<Rightarrow> bool" and good :: "string list option \<Rightarrow> bool"
  assumes save_ok: "ok s \<Longrightarrow> ok (ks_save ops k s)"
    and get_new: "ok s \<Longrightarrow> good (ak_scopes k) \<Longrightarrow> ks_get ops (ak_key_id k) s = None \<Longrightarrow>
      ks_get ops i (ks_save ops k s) = (if i = ak_key_id k then Some k else ks_get ops i s)"
    and get_revoked: "ok s \<Longrightarrow> ks_get ops j s = Some k \<Longrightarrow>
      ks_get ops i (ks_save ops (k\<lparr>ak_revoked := True\<rparr>) s) = (if i = j then Some (k\<lparr>ak_revoked := True\<rparr>) else ks_get ops i s)"
begin

lemma step_ok: "ok s \<Longrightarrow> ok (key_step sv ops c s)"
  by (cases c) (auto simp: issue_key_def revoke_key_def Let_def save_ok split: option.split)

lemma run_ok: "ok s \<Longrightarrow> ok (fold (key_step sv ops) cs s)"
  by (induction cs arbitrary: s) (simp_all add: step_ok)

lemma kept_step:
  assumes "ok s" "fresh_key ops good c s" "ks_get ops i s = Some k"
  shows "ks_get ops i (key_step sv ops c s) = Some (if c = RevokeKey i then k\<lparr>ak_revoked := True\<rparr> else k)"
proof (cases c)
  case (IssueKey j raw t u sc n now)
  moreover from this have "i \<noteq> j" using assms by auto
  ultimately show ?thesis using assms by (simp add: issue_key_def Let_def get_new)
next
  case (RevokeKey j)
  then show ?thesis using assms by (auto simp: revoke_key_def get_revoked split: option.split)
qed

lemma kept_run:
  assumes "ok s" "fresh_run sv ops good cs s" "ks_get ops i s = Some k"
  shows "ks_get ops i (fold (key_step sv ops) cs s) =
    Some (if RevokeKey i \<in> set cs then k\<lparr>ak_revoked := True\<rparr> else k)"
  using assms by (induction cs arbitrary: s k) (auto simp: step_ok kept_step)

lemma issued_run:
  assumes "ok s" "fresh_run sv ops good (pre @ IssueKey i raw t u sc n made # post) s"
  shows "ks_get ops i (fold (key_step sv ops) (pre @ IssueKey i raw t u sc n made # post) s) =
    Some \<lparr>ak_key_id = i, ak_secret_hash = kv_sha sv raw, ak_tenant_id = t, ak_subject = u, ak_name = n, ak_created_at = made,
      ak_expires_at = (if 0 < kv_ttl_days sv then made + kv_ttl_days sv * 86400 else 0),
      ak_revoked = (RevokeKey i \<in> set post), ak_scopes = sc\<rparr>"
proof -
  let ?s = "fold (key_step sv ops) pre s" and ?c = "IssueKey i raw t u sc n made"
  have ok: "ok ?s" using assms(1) by (rule run_ok)
  have fresh: "ks_get ops i ?s = None" "good sc" "fresh_run sv ops good post (key_step sv ops ?c ?s)"
    using assms(2) by (simp_all add: fresh_run_append)
  show ?thesis
    using kept_run [OF step_ok [OF ok, of sv ?c] fresh(3)] get_new [OF ok] fresh(1,2)
    by (auto simp: issue_key_def Let_def)
qed

end

section \<open>The stores keep it\<close>

lemma join_split: "join_sep [c] (split_char c s) = s"
proof (induction s)
  case (Cons a s)
  then show ?case by (cases "split_char c s"; cases "tl (split_char c s)") auto
qed simp

definition storable_scopes :: "string list option \<Rightarrow> bool" where
  "storable_scopes v \<longleftrightarrow>
     (case v of None \<Rightarrow> True
      | Some scopes \<Rightarrow> scopes \<noteq> [] \<and> scopes \<noteq> [[]] \<and> list_all (\<lambda>s. CHR '','' \<notin> set s) scopes)"

lemma join_sep_Nil_iff: "join_sep [c] ws = [] \<longleftrightarrow> ws = [] \<or> ws = [[]]"
  by (cases ws; cases "tl ws") auto

lemma scopes_round_trip:
  "storable_scopes v \<Longrightarrow> (if scopes_text v = [] then None else Some (split_char CHR '','' (scopes_text v))) = v"
  by (cases v) (simp_all add: scopes_text_def storable_scopes_def join_sep_Nil_iff split_char_join)

lemma to_key_of_row: "storable_scopes (ak_scopes k) \<Longrightarrow> to_key (ak_key_id k, row_of_key k) = k"
  using scopes_round_trip [of "ak_scopes k"]
  by (intro api_key.equality) (auto simp: to_key_def row_of_key_def split: if_splits)

lemma map_of_map_if: "map_of (map (\<lambda>(x, v). (x, if x = j then f v else v)) t) i = (if i = j then map_option f (map_of t i) else map_of t i)"
  by (induction t) auto

lemma sql_revoked:
  assumes "sql_get_key j t = Some k"
  shows "sql_get_key i (sql_save_key (k\<lparr>ak_revoked := True\<rparr>) t) = (if i = j then Some (k\<lparr>ak_revoked := True\<rparr>) else sql_get_key i t)"
proof -
  obtain v where v: "map_of t j = Some v" "k = to_key (j, v)" using assms by (auto simp: sql_get_key_def)
  have k: "scopes_text (ak_scopes k) = kr_scopes v" "ak_key_id k = j" "ak_name k = kr_name v"
    using v(2) by (simp_all add: to_key_def scopes_text_def join_split)
  then have "map_of (sql_save_key (k\<lparr>ak_revoked := True\<rparr>) t) i =
      (if i = j then Some (v\<lparr>kr_revoked := True\<rparr>) else map_of t i)"
    using v(1) by (simp add: sql_save_key_def map_of_map_if)
  then show ?thesis
    by (simp add: sql_get_key_def v(2) to_key_def)
qed

definition mem_keys_ok :: "mem_keys \<Rightarrow> bool" where
  "mem_keys_ok s \<longleftrightarrow> (\<forall>(i, k) \<in> set s. ak_key_id k = i)"

interpretation mem_keys: key_store mem_key_store mem_keys_ok "\<lambda>sc. True"
proof unfold_locales
  fix s and k :: api_key assume "mem_keys_ok s"
  then show "mem_keys_ok (ks_save mem_key_store k s)"
    unfolding mem_keys_ok_def mem_key_store_def by (induction s) auto
next
  fix s j i and k :: api_key assume "mem_keys_ok s" "ks_get mem_key_store j s = Some k"
  moreover from this have "ak_key_id k = j" by (auto simp: mem_keys_ok_def mem_key_store_def dest!: map_of_SomeD)
  ultimately show "ks_get mem_key_store i (ks_save mem_key_store (k\<lparr>ak_revoked := True\<rparr>) s) =
      (if i = j then Some (k\<lparr>ak_revoked := True\<rparr>) else ks_get mem_key_store i s)"
    by (simp add: mem_key_store_def update_conv')
qed (simp add: mem_key_store_def update_conv')

interpretation sql_keys: key_store sql_key_store "\<lambda>s. True" storable_scopes
proof unfold_locales
  fix s i and k :: api_key assume "storable_scopes (ak_scopes k)" "ks_get sql_key_store (ak_key_id k) s = None"
  then show "ks_get sql_key_store i (ks_save sql_key_store k s) =
      (if i = ak_key_id k then Some k else ks_get sql_key_store i s)"
    by (auto simp: sql_key_store_def sql_get_key_def sql_save_key_def to_key_of_row map_add_def split: option.splits)
qed (simp_all add: sql_key_store_def sql_revoked)

section \<open>Properties\<close>

lemma resolve_presented:
  assumes "CHR ''_'' \<notin> set i"
  shows "resolve_key sv ops (''rgk_'' @ i @ ''_'' @ raw) now s =
    (case ks_get ops i s of
       None \<Rightarrow> None
     | Some k \<Rightarrow> if ak_revoked k \<or> ak_secret_hash k \<noteq> kv_sha sv raw \<or> (ak_expires_at k \<noteq> 0 \<and> ak_expires_at k \<le> now) then None
         else Some (ak_tenant_id k, ak_subject k, ak_scopes k))"
proof -
  have "takeWhile (\<lambda>x. x \<noteq> CHR ''_'') (i @ CHR ''_'' # raw) = i" "dropWhile (\<lambda>x. x \<noteq> CHR ''_'') (i @ CHR ''_'' # raw) = CHR ''_'' # raw"
    using assms by (simp_all add: takeWhile_append dropWhile_append)
  then have "split_max 2 CHR ''_'' (''rgk_'' @ i @ ''_'' @ raw) = [''rgk'', i, raw]"
    by (simp add: numeral_2_eq_2)
  then show ?thesis
    by (simp add: resolve_key_def resolve_record_def KEY_PREFIX_def split: option.split)
qed


definition toy_keys :: key_service where
  "toy_keys = \<lparr>kv_sha = rev, kv_ttl_days = 1\<rparr>"

definition example_keys :: "key_call list" where
  "example_keys = [IssueKey ''k1'' ''s1'' ''acme'' ''bot'' (Some [''view_cash'']) ''feed'' 1000,
     IssueKey ''k2'' ''s2'' ''beta'' ''bot'' None ''all'' 1001, RevokeKey ''k2'']"


text \<open>A key issued with no scopes at all may do nothing in memory, and has its subject's full role once it is
  read back from SQL.\<close>

lemma empty_scopes_inherit_role:
  "resolve_key toy_keys mem_key_store ''rgk_k1_s1'' 2000
     (key_step toy_keys mem_key_store (IssueKey ''k1'' ''s1'' ''acme'' ''bot'' (Some []) ''feed'' 1000) []) = Some (''acme'', ''bot'', Some [])"
  "resolve_key toy_keys sql_key_store ''rgk_k1_s1'' 2000
     (key_step toy_keys sql_key_store (IssueKey ''k1'' ''s1'' ''acme'' ''bot'' (Some []) ''feed'' 1000) []) = Some (''acme'', ''bot'', None)"
  by code_simp+

end
