(* ===== verification/Web_App.thy ===== *)
theory Web_App
  imports Routes Signin Session_Tokens Api_Keys
begin

text \<open>
  A request through the web application (\<open>WebApp.handle\<close>): the public routes, who the caller is
  (\<open>_principal\<close>: API key, bearer token, session cookie, static token), viewing as another role, the
  routing table, and the gate. The answer says which handler runs for whom; the handlers and the text of
  pages and errors are not modelled here. The clock is read once per request; \<open>urlsplit\<close> is an argument.
\<close>

section \<open>The application and its requests\<close>

record 'd app =
  ap_path :: "string \<Rightarrow> string res" \<comment> \<open>\<open>urlsplit(path).path\<close>\<close>
  ap_gate :: "'d web_app"
  ap_auth :: "authenticator option"
  ap_session :: "string option" \<comment> \<open>the session secret\<close>
  ap_now :: int
  ap_jwt :: jwt_env
  ap_keys :: "(string \<Rightarrow> (string \<times> string \<times> string list option) option) option" \<comment> \<open>\<open>ApiKeyService.resolve\<close>\<close>
  ap_tokens :: "(string \<times> string) list"
  ap_ask :: bool
  ap_parallel :: "string \<Rightarrow> bool" \<comment> \<open>the tenant's books are a QuickBooks copy\<close>

record request =
  rq_method :: string
  rq_path :: string
  rq_headers :: headers

datatype answer =
    Serve string \<comment> \<open>a public route\<close>
  | ToLogin "string option" \<comment> \<open>with the page to come back to\<close>
  | ToLoginForm
  | ToChoose "string option"
  | Unauthorized
  | HomeFor string string \<comment> \<open>subject, tenant\<close>
  | MeFor string string string \<comment> \<open>subject, tenant of the token, tenant of the path\<close>
  | Missing
  | Refused gate
  | Run string "string list" string string \<comment> \<open>handler, path arguments, subject, tenant\<close>

section \<open>Public routes\<close>

definition public_table :: "string \<Rightarrow> string \<Rightarrow> (bool \<times> string) list" where
  "public_table route m =
     [(route = ''/health'', ''health''), (route = ''/favicon.ico'', ''favicon''), (route = ''/ready'', ''_readiness''),
      (route = ''/openapi.json'', ''openapi''), (starts_with ''/assets/'' route \<and> m = ''GET'', ''asset''),
      (route = ''/login'' \<and> m = ''GET'', ''_login_page''), (route = ''/login'' \<and> m = ''POST'', ''_login_post''),
      (route = ''/signup'' \<and> m = ''GET'', ''_signup_get''), (route = ''/signup'' \<and> m = ''POST'', ''_signup_post''),
      (route = ''/verify'' \<and> m = ''POST'', ''_verify_post''), (route = ''/verify'' \<and> m = ''GET'', ''_verify_get''),
      (route = ''/password/reset-request'' \<and> m = ''POST'', ''_password_reset_request_post''),
      (route = ''/password/forgot'' \<and> m = ''GET'', ''password_forgot''),
      (route = ''/password/forgot'' \<and> m = ''POST'', ''_password_reset_request_post''),
      (route = ''/password/reset'' \<and> m = ''POST'', ''_password_reset_post''),
      (route = ''/password/reset'' \<and> m = ''GET'', ''_password_reset_get''), (route = ''/logout'', ''logout''),
      (route = ''/legal/eula'' \<and> m = ''GET'', ''legal_eula''), (route = ''/legal/privacy'' \<and> m = ''GET'', ''legal_privacy''),
      (route = ''/choose'' \<and> m = ''GET'', ''_choose_page''), (route = ''/choose/enter'' \<and> m = ''GET'', ''_choose_enter''),
      (route = ''/oauth/qbo/callback'' \<and> m = ''GET'', ''_qbo_callback'')]"

definition public_route :: "string \<Rightarrow> string \<Rightarrow> string option" where
  "public_route route m = map_option snd (find fst (public_table route m))"

section \<open>Who is calling\<close>

text \<open>\<open>s.partition("=")\<close> and \<open>_cookie\<close>: the first cookie of the name, an empty one being none.\<close>

definition partition_eq :: "string \<Rightarrow> string \<times> string" where
  "partition_eq s = (takeWhile (\<lambda>c. c \<noteq> CHR ''='') s, drop 1 (dropWhile (\<lambda>c. c \<noteq> CHR ''='') s))"

definition cookie :: "headers \<Rightarrow> string \<Rightarrow> string option" where
  "cookie h name =
     (case find (\<lambda>part. fst (partition_eq (strip part)) = name) (split_char CHR '';'' (header_or h ''cookie'')) of
        None \<Rightarrow> None
      | Some part \<Rightarrow> (let v = snd (partition_eq (strip part)) in if v = [] then None else Some v))"

definition SESSION_COOKIE :: string where
  "SESSION_COOKIE = ''rgnr8_session''"

definition as_bearer :: "string \<Rightarrow> headers" where
  "as_bearer token = [''authorization'' \<mapsto> ''Bearer '' @ token]"

definition else_try :: "'a option res \<Rightarrow> 'a option res \<Rightarrow> 'a option res" where
  "else_try x y = res_bind x (\<lambda>v. case v of Some r \<Rightarrow> Inr (Some r) | None \<Rightarrow> y)"

text \<open>The key a request presents: \<open>X-API-Key\<close>, or else the bearer token.\<close>

definition presented_key :: "headers \<Rightarrow> string" where
  "presented_key h =
     (let k = header_or h ''x-api-key''; auth = header_or h ''authorization''
      in if k \<noteq> [] then k else if starts_with ''bearer '' (ascii_lower auth) then strip (drop 7 auth) else [])"

definition key_principal :: "'d app \<Rightarrow> headers \<Rightarrow> (string \<times> string \<times> string list option) option" where
  "key_principal app h =
     (case ap_keys app of
        None \<Rightarrow> None
      | Some resolve \<Rightarrow> if starts_with ''rgk_'' (presented_key h) then resolve (presented_key h) else None)"

definition ask_authenticator :: "authenticator \<Rightarrow> headers \<Rightarrow> (string \<times> string) option res" where
  "ask_authenticator a h =
     (case au_principal a of
        Some f \<Rightarrow> f h
      | None \<Rightarrow> res_bind (au_tenant a h) (\<lambda>t. Inr (map_option (\<lambda>t. (t, t)) t)))"

text \<open>The claims of a cookie signed with the session secret; a \<open>JwtError\<close> leaves none.\<close>

definition session_claims :: "'d app \<Rightarrow> string \<Rightarrow> string \<Rightarrow> (string \<times> py_json) list res" where
  "session_claims app secret token =
     (case verify_jwt (ap_jwt app) token secret (ap_now app) 0 of
        Inr claims \<Rightarrow> Inr claims | Inl (JwtError m) \<Rightarrow> Inr [] | Inl (Raised e) \<Rightarrow> Inl e)"

definition cookie_principal :: "'d app \<Rightarrow> headers \<Rightarrow> (string \<times> string) option res" where
  "cookie_principal app h =
     (case cookie h SESSION_COOKIE of
        None \<Rightarrow> Inr None
      | Some token \<Rightarrow>
          else_try
            (case ap_auth app of None \<Rightarrow> Inr None | Some a \<Rightarrow> ask_authenticator a (as_bearer token))
            (case ap_session app of
               None \<Rightarrow> Inr None
             | Some secret \<Rightarrow> res_bind (session_claims app secret token) (\<lambda>claims. Inr (principal_of ''tenant'' ''sub'' claims))))"

definition static_principal :: "'d app \<Rightarrow> headers \<Rightarrow> (string \<times> string) option" where
  "static_principal app h =
     (if (case ap_auth app of None \<Rightarrow> True | Some a \<Rightarrow> au_static a)
      then map_option (\<lambda>t. (t, t)) (static_tenant (ap_tokens app) h) else None)"

text \<open>The principal and the scopes that narrow the request.\<close>

definition request_principal :: "'d app \<Rightarrow> headers \<Rightarrow> ((string \<times> string) option \<times> string list option) res" where
  "request_principal app h =
     (case key_principal app h of
        Some (tenant, subject, scopes) \<Rightarrow> Inr (Some (tenant, subject), scopes)
      | None \<Rightarrow>
          res_bind
            (else_try
               (case ap_auth app of
                  Some a \<Rightarrow> if header_or h ''authorization'' \<noteq> [] then ask_authenticator a h else Inr None
                | None \<Rightarrow> Inr None)
               (else_try (cookie_principal app h) (Inr (static_principal app h))))
            (\<lambda>p. Inr (p, None)))"

text \<open>\<open>_session_subject\<close>: who is signed in, before a business is chosen.\<close>

definition session_subject :: "'d app \<Rightarrow> headers \<Rightarrow> string option res" where
  "session_subject app h =
     (case cookie h SESSION_COOKIE of
        None \<Rightarrow> Inr None
      | Some token \<Rightarrow>
          else_try
            (case ap_auth app of
               Some a \<Rightarrow> (case au_principal a of
                            Some f \<Rightarrow> res_bind (f (as_bearer token)) (\<lambda>r. Inr (map_option snd r)) | None \<Rightarrow> Inr None)
             | None \<Rightarrow> Inr None)
            (case ap_session app of
               None \<Rightarrow> Inr None
             | Some secret \<Rightarrow> res_bind (session_claims app secret token) (\<lambda>claims. Inr (as_str (dict_get claims ''sub'')))))"

section \<open>Viewing as another role\<close>

definition view_as_claim :: "'d app \<Rightarrow> headers \<Rightarrow> string option res" where
  "view_as_claim app h =
     else_try
       (case ap_auth app of
          Some a \<Rightarrow>
            (case au_view_as a of
               Some f \<Rightarrow> else_try (f h) (case cookie h SESSION_COOKIE of Some t \<Rightarrow> f (as_bearer t) | None \<Rightarrow> Inr None)
             | None \<Rightarrow> Inr None)
        | None \<Rightarrow> Inr None)
       (case ap_session app of
          None \<Rightarrow> Inr None
        | Some secret \<Rightarrow>
            (case (case cookie h SESSION_COOKIE of Some t \<Rightarrow> Some t | None \<Rightarrow> bearer h) of
               None \<Rightarrow> Inr None
             | Some t \<Rightarrow> res_bind (session_claims app secret t) (\<lambda>claims. Inr (as_str (dict_get claims ''view_as'')))))"

definition view_as_of :: "'d app \<Rightarrow> headers \<Rightarrow> string \<Rightarrow> role option res" where
  "view_as_of app h subject =
     (case wa_policy (ap_gate app) of
        None \<Rightarrow> Inr None
      | Some (ops, d) \<Rightarrow>
          if ud_platform_role ops subject d = None then Inr None
          else res_bind (view_as_claim app h) (\<lambda>raw. Inr (resolve_view_as (wa_policy (ap_gate app)) subject raw)))"

section \<open>\<open>handle\<close>\<close>

text \<open>Where a caller without a principal goes.\<close>

definition mentions :: "string \<Rightarrow> string \<Rightarrow> bool" where
  "mentions w s \<longleftrightarrow> list_ex (\<lambda>i. starts_with w (drop i s)) [0..<Suc (length s)]"

definition signed_out_page :: "string \<Rightarrow> request \<Rightarrow> answer option" where
  "signed_out_page route rq =
     (if \<not> starts_with ''/t/'' route then None
      else
        (let accept = ascii_lower (header_or (rq_headers rq) ''accept'');
             ct = ascii_lower (header_or (rq_headers rq) ''content-type'')
         in if mentions ''json'' accept \<and> \<not> mentions ''text/html'' accept then None
            else if rq_method rq = ''GET'' \<or> rq_method rq = ''HEAD'' then Some (ToLogin (safe_next (Some (rq_path rq)) None))
            else if rq_method rq = ''POST'' \<and>
              (starts_with ''application/x-www-form-urlencoded'' ct \<or> starts_with ''multipart/form-data'' ct) then Some ToLoginForm
            else None))"

definition signed_out :: "'d app \<Rightarrow> string \<Rightarrow> request \<Rightarrow> answer res" where
  "signed_out app route rq =
     (if route = ''/'' \<or> route = ''/app'' then Inr (ToLogin None)
      else
        (case signed_out_page route rq of
           None \<Rightarrow> Inr Unauthorized
         | Some (ToLogin nxt) \<Rightarrow>
             res_bind (session_subject app (rq_headers rq))
               (\<lambda>s. Inr (if s \<noteq> None then ToChoose nxt else ToLogin nxt))
         | Some a \<Rightarrow> Inr a))"

definition segments :: "string \<Rightarrow> string list" where
  "segments route = filter (\<lambda>p. p \<noteq> []) (split_char CHR ''/'' route)"

definition dispatch_to :: "'d app \<Rightarrow> string \<Rightarrow> string \<Rightarrow> string \<Rightarrow> string \<Rightarrow> role option \<Rightarrow> string list option \<Rightarrow> answer" where
  "dispatch_to app route m token_tenant subject view_as scopes =
     (if route = ''/app'' \<or> route = ''/'' then HomeFor subject token_tenant
      else
        (case route_of (ap_ask app) (segments route) m of
           NotFound \<Rightarrow> Missing
         | Me tenant \<Rightarrow> MeFor subject token_tenant tenant
         | Gated perm tenant handler args \<Rightarrow>
             (case require_permission (ap_gate app) subject token_tenant tenant perm view_as scopes
                     (is_posting_path (segments route) m \<and> ap_parallel app tenant) of
                Granted \<Rightarrow> Run handler args subject tenant
              | g \<Rightarrow> Refused g)))"

definition handle :: "'d app \<Rightarrow> request \<Rightarrow> answer res" where
  "handle app rq =
     res_bind (ap_path app (rq_path rq))
       (\<lambda>route.
          case public_route route (rq_method rq) of
            Some name \<Rightarrow> Inr (Serve name)
          | None \<Rightarrow>
              res_bind (request_principal app (rq_headers rq))
                (\<lambda>(p, scopes).
                   case p of
                     None \<Rightarrow> signed_out app route rq
                   | Some (token_tenant, subject) \<Rightarrow>
                       res_bind (view_as_of app (rq_headers rq) subject)
                         (\<lambda>view_as. Inr (dispatch_to app route (rq_method rq) token_tenant subject view_as scopes))))"

section \<open>The two answers outside the gate\<close>

text \<open>\<open>_me\<close>: its status, and \<open>_perms_role\<close> with the check of \<open>_app_home\<close>.\<close>

definition me_status :: "'d app \<Rightarrow> string \<Rightarrow> string \<Rightarrow> string \<Rightarrow> role option \<Rightarrow> int" where
  "me_status app subject token_tenant tenant view_as =
     (if tenant \<notin> set (wa_tenants (ap_gate app)) then 404
      else if token_tenant \<noteq> tenant then 403
      else
        (case wa_policy (ap_gate app) of
           None \<Rightarrow> 200
         | Some (ops, d) \<Rightarrow> if permissions ops d subject tenant view_as = {} then 403 else 200))"

definition perms_role :: "'d app \<Rightarrow> string \<Rightarrow> string \<Rightarrow> role option \<Rightarrow> string list option \<Rightarrow> permission set" where
  "perms_role app subject tenant view_as scopes =
     (let perms = (case wa_policy (ap_gate app) of
                     Some (ops, d) \<Rightarrow> permissions ops d subject tenant view_as | None \<Rightarrow> UNIV)
      in case scopes of None \<Rightarrow> perms | Some s \<Rightarrow> {p \<in> perms. permission_value p \<in> set s})"

definition home_shown :: "'d app \<Rightarrow> string \<Rightarrow> string \<Rightarrow> role option \<Rightarrow> string list option \<Rightarrow> bool" where
  "home_shown app subject tenant view_as scopes \<longleftrightarrow>
     tenant \<in> set (wa_tenants (ap_gate app)) \<and> perms_role app subject tenant view_as scopes \<noteq> {}"


section \<open>Who reaches a handler\<close>

text \<open>The credentials of a request that prove a tenant and a subject, with the scopes of a key.\<close>

definition proven_by :: "'d app \<Rightarrow> headers \<Rightarrow> string \<Rightarrow> string \<Rightarrow> string list option \<Rightarrow> bool" where
  "proven_by app h t u scopes \<longleftrightarrow>
     (\<exists>resolve. ap_keys app = Some resolve \<and> resolve (presented_key h) = Some (t, u, scopes)) \<or>
     scopes = None \<and>
      ((\<exists>a. ap_auth app = Some a \<and>
          (ask_authenticator a h = Inr (Some (t, u)) \<or>
           (\<exists>c. cookie h SESSION_COOKIE = Some c \<and> ask_authenticator a (as_bearer c) = Inr (Some (t, u))))) \<or>
       (\<exists>secret c claims. ap_session app = Some secret \<and> cookie h SESSION_COOKIE = Some c \<and>
          signed_claims (ap_jwt app) secret c claims \<and> in_force (ap_jwt app) claims (ap_now app) 0 = Inr claims \<and>
          principal_of ''tenant'' ''sub'' claims = Some (t, u)) \<or>
       (case ap_auth app of None \<Rightarrow> True | Some a \<Rightarrow> au_static a) \<and> static_tenant (ap_tokens app) h = Some t \<and> u = t)"

lemma else_try_SomeD: "else_try x y = Inr (Some r) \<Longrightarrow> x = Inr (Some r) \<or> y = Inr (Some r)"
  by (cases x) (auto simp: else_try_def split: option.splits)

lemma session_claims_some:
  "session_claims app secret c = Inr claims \<Longrightarrow> principal_of k s claims = Some p \<Longrightarrow>
     signed_claims (ap_jwt app) secret c claims \<and> in_force (ap_jwt app) claims (ap_now app) 0 = Inr claims"
  using verify_accepts [of "ap_jwt app" c secret "ap_now app" 0 claims]
  by (auto simp: session_claims_def principal_of_def dict_get_def as_str_def split: sum.splits jwt_failure.splits)

lemma res_bind_eq_Inr: "res_bind x f = Inr v \<longleftrightarrow> (\<exists>y. x = Inr y \<and> f y = Inr v)"
  by (cases x) auto

lemma cookie_proven:
  assumes "cookie_principal app h = Inr (Some (t, u))"
  shows "proven_by app h t u None"
proof -
  obtain c where c: "cookie h SESSION_COOKIE = Some c"
    using assms by (auto simp: cookie_principal_def split: option.splits)
  with assms have "else_try (case ap_auth app of None \<Rightarrow> Inr None | Some a \<Rightarrow> ask_authenticator a (as_bearer c))
      (case ap_session app of None \<Rightarrow> Inr None
       | Some secret \<Rightarrow> res_bind (session_claims app secret c) (\<lambda>claims. Inr (principal_of ''tenant'' ''sub'' claims))) = Inr (Some (t, u))"
    by (simp add: cookie_principal_def)
  then consider a where "ap_auth app = Some a" "ask_authenticator a (as_bearer c) = Inr (Some (t, u))"
    | secret claims where "ap_session app = Some secret" "session_claims app secret c = Inr claims"
        "principal_of ''tenant'' ''sub'' claims = Some (t, u)"
    by (auto simp: res_bind_eq_Inr dest!: else_try_SomeD split: option.splits)
  then show ?thesis
  proof cases
    case 1
    then show ?thesis using c unfolding proven_by_def by blast
  next
    case 2
    with session_claims_some [OF 2(2,3)] c show ?thesis unfolding proven_by_def by blast
  qed
qed

lemma principal_proven:
  assumes "request_principal app h = Inr (Some (t, u), scopes)"
  shows "proven_by app h t u scopes"
proof (cases "key_principal app h")
  case None
  with assms have "scopes = None" and
    p: "else_try (case ap_auth app of
           Some a \<Rightarrow> if header_or h ''authorization'' \<noteq> [] then ask_authenticator a h else Inr None | None \<Rightarrow> Inr None)
        (else_try (cookie_principal app h) (Inr (static_principal app h))) = Inr (Some (t, u))"
    by (auto simp: request_principal_def res_bind_eq_Inr)
  then show ?thesis
    using cookie_proven [of app h t u]
    by (auto simp: proven_by_def static_principal_def dest!: else_try_SomeD split: option.splits if_splits)
next
  case (Some k)
  with assms show ?thesis
    by (cases k) (auto simp: request_principal_def key_principal_def proven_by_def split: option.splits if_splits)
qed

text \<open>What a request that is answered by a handler has shown.\<close>

definition admitted :: "'d app \<Rightarrow> request \<Rightarrow> permission \<Rightarrow> string \<Rightarrow> string \<Rightarrow> role option \<Rightarrow> string list option \<Rightarrow> bool" where
  "admitted app rq perm t u view_as scopes \<longleftrightarrow>
     proven_by app (rq_headers rq) t u scopes \<and> t \<in> set (wa_tenants (ap_gate app)) \<and>
     (wa_require_rbac (ap_gate app) \<longrightarrow> wa_policy (ap_gate app) \<noteq> None) \<and>
     (\<forall>ops d. wa_policy (ap_gate app) = Some (ops, d) \<longrightarrow> can ops d u t perm view_as) \<and>
     (\<forall>s. scopes = Some s \<longrightarrow> permission_value perm \<in> set s)"

lemma granted_iff:
  "require_permission g u tt t perm va sc refused = Granted \<longleftrightarrow>
     tt = t \<and> t \<in> set (wa_tenants g) \<and> (wa_require_rbac g \<longrightarrow> wa_policy g \<noteq> None) \<and>
     (\<forall>ops d. wa_policy g = Some (ops, d) \<longrightarrow> can ops d u t perm va) \<and>
     (\<forall>s. sc = Some s \<longrightarrow> permission_value perm \<in> set s) \<and> \<not> refused"
  by (auto simp: require_permission_def split: option.splits)

lemma dispatch_Run:
  "dispatch_to app route m tt u va sc = Run handler args u' t \<longleftrightarrow>
     route \<noteq> ''/app'' \<and> route \<noteq> ''/'' \<and> u' = u \<and>
     (\<exists>perm. route_of (ap_ask app) (segments route) m = Gated perm t handler args \<and>
        require_permission (ap_gate app) u tt t perm va sc (is_posting_path (segments route) m \<and> ap_parallel app t) = Granted)"
  by (auto simp: dispatch_to_def split: endpoint.splits gate.splits)

lemma handle_Inr:
  assumes "handle app rq = Inr ans" "\<And>n. ans \<noteq> Serve n"
  obtains route p sc where "ap_path app (rq_path rq) = Inr route" "public_route route (rq_method rq) = None"
    "request_principal app (rq_headers rq) = Inr (p, sc)"
    "case p of None \<Rightarrow> signed_out app route rq = Inr ans
       | Some (tt, u) \<Rightarrow> \<exists>va. view_as_of app (rq_headers rq) u = Inr va \<and> ans = dispatch_to app route (rq_method rq) tt u va sc"
proof -
  obtain route where path: "ap_path app (rq_path rq) = Inr route"
    using assms(1) by (auto simp: handle_def res_bind_eq_Inr)
  have public: "public_route route (rq_method rq) = None"
  proof (cases "public_route route (rq_method rq)")
    case (Some n)
    then have "ans = Serve n" using assms(1) path by (simp add: handle_def)
    then show ?thesis using assms(2) by simp
  qed
  note r = path public
  obtain p sc where q: "request_principal app (rq_headers rq) = Inr (p, sc)"
    using assms(1) r by (auto simp: handle_def res_bind_eq_Inr)
  show ?thesis
    using that [OF r q] assms(1) r q by (auto simp: handle_def res_bind_eq_Inr split: option.splits)
qed

lemma signed_out_answers: "signed_out app route rq = Inr ans \<Longrightarrow> (\<nexists>h a u t. ans = Run h a u t) \<and> (\<nexists>g. ans = Refused g)"
  by (auto simp: signed_out_def signed_out_page_def res_bind_eq_Inr Let_def split: if_splits)

text \<open>The two answers of the gate, with everything the request has shown.\<close>

lemma handle_gate:
  assumes "handle app rq = Inr ans" "(\<exists>h a u t. ans = Run h a u t) \<or> (\<exists>g. ans = Refused g)"
  obtains route tt u va sc where "ap_path app (rq_path rq) = Inr route" "public_route route (rq_method rq) = None"
    "request_principal app (rq_headers rq) = Inr (Some (tt, u), sc)" "view_as_of app (rq_headers rq) u = Inr va"
    "ans = dispatch_to app route (rq_method rq) tt u va sc"
proof -
  have "\<And>n. ans \<noteq> Serve n" using assms(2) by auto
  then obtain route p sc where
    r: "ap_path app (rq_path rq) = Inr route" "public_route route (rq_method rq) = None"
       "request_principal app (rq_headers rq) = Inr (p, sc)"
    and d: "case p of None \<Rightarrow> signed_out app route rq = Inr ans
       | Some (tt, u) \<Rightarrow> \<exists>va. view_as_of app (rq_headers rq) u = Inr va \<and> ans = dispatch_to app route (rq_method rq) tt u va sc"
    by (rule handle_Inr [OF assms(1)])
  show ?thesis
  proof (cases p)
    case None
    then show ?thesis using d assms(2) signed_out_answers by fastforce
  next
    case (Some q)
    then show ?thesis using r d that by (cases q) auto
  qed
qed

lemma handle_Run:
  assumes "handle app rq = Inr (Run handler args u t)"
  obtains route perm va sc where "ap_path app (rq_path rq) = Inr route"
    "route_of (ap_ask app) (segments route) (rq_method rq) = Gated perm t handler args"
    "view_as_of app (rq_headers rq) u = Inr va" "admitted app rq perm t u va sc"
    "\<not> (is_posting_path (segments route) (rq_method rq) \<and> ap_parallel app t)"
  using assms
proof (rule handle_gate)
  fix route tt u' va sc
  assume "ap_path app (rq_path rq) = Inr route" "request_principal app (rq_headers rq) = Inr (Some (tt, u'), sc)"
    "view_as_of app (rq_headers rq) u' = Inr va" "Run handler args u t = dispatch_to app route (rq_method rq) tt u' va sc"
  then show ?thesis
    using that dispatch_Run [of app route "rq_method rq" tt u' va sc handler args u t] principal_proven [of app "rq_headers rq"]
    by (auto simp: granted_iff admitted_def)
qed blast


section \<open>Properties\<close>

lemma as_bearer_bearer: "bearer (as_bearer c) = Some (strip c)"
proof -
  have "ascii_lower ''Bearer '' = ''bearer ''" by code_simp
  then have "ascii_lower (''Bearer '' @ c) = ''bearer '' @ ascii_lower c" by (simp add: ascii_lower_def)
  then show ?thesis by (simp add: bearer_def as_bearer_def header_or_def starts_with_def)
qed

lemma jwt_asked:
  assumes "ask_authenticator (jwt_authenticator_of env a now) h = Inr (Some (t, u))"
  obtains token claims where "bearer h = Some token" "signed_claims env (ja_secret a) token claims"
    "in_force env claims now (ja_leeway a) = Inr claims" "principal_of (ja_claim a) (ja_subject_claim a) claims = Some (t, u)"
proof -
  from assms obtain c where "jwt_claims env a now h = Inr (Some c)" "principal_of (ja_claim a) (ja_subject_claim a) c = Some (t, u)"
    by (auto simp: ask_authenticator_def jwt_authenticator_of_def jwt_principal_def res_bind_eq_Inr split: option.splits)
  then show ?thesis
    using that verify_accepts by (auto simp: jwt_claims_def split: option.splits sum.splits jwt_failure.splits)
qed

text \<open>The tokens a request carries.\<close>

definition carries :: "headers \<Rightarrow> string \<Rightarrow> bool" where
  "carries h token \<longleftrightarrow> bearer h = Some token \<or> (\<exists>c. cookie h SESSION_COOKIE = Some c \<and> (token = c \<or> token = strip c))"

text \<open>C3. With the cryptographic authenticator wired, a handler runs for a subject in a registered tenant only if
  the request carries an API key of theirs that is neither revoked nor expired, or a token signed under the
  authenticator's or the session's secret whose claims are in force and name them; and the policy gives that
  subject the route's permission. The static tokens open nothing.\<close>

theorem handler_needs_proof:
  fixes app :: "'d app"
  assumes auth: "ap_auth app = Some (jwt_authenticator_of (ap_jwt app) a (ap_now app))"
    and keys: "ap_keys app = Some (\<lambda>k. resolve_key sv ops k (ap_now app) store)"
    and run: "handle app rq = Inr (Run handler args u t)"
  shows "t \<in> set (wa_tenants (ap_gate app)) \<and>
    ((\<exists>key. resolve_record sv ops (presented_key (rq_headers rq)) (ap_now app) store = Some key \<and>
        ak_tenant_id key = t \<and> ak_subject key = u \<and> \<not> ak_revoked key \<and>
        (ak_expires_at key \<noteq> 0 \<longrightarrow> ap_now app < ak_expires_at key)) \<or>
     (\<exists>token claims. carries (rq_headers rq) token \<and>
        (signed_claims (ap_jwt app) (ja_secret a) token claims \<and> in_force (ap_jwt app) claims (ap_now app) (ja_leeway a) = Inr claims \<and>
           principal_of (ja_claim a) (ja_subject_claim a) claims = Some (t, u) \<or>
         (\<exists>secret. ap_session app = Some secret \<and> signed_claims (ap_jwt app) secret token claims \<and>
            in_force (ap_jwt app) claims (ap_now app) 0 = Inr claims \<and> principal_of ''tenant'' ''sub'' claims = Some (t, u))))) \<and>
    (\<exists>perm va. (\<forall>ops d. wa_policy (ap_gate app) = Some (ops, d) \<longrightarrow> can ops d u t perm va) \<and>
       (\<exists>p. route_of (ap_ask app) p (rq_method rq) = Gated perm t handler args))"
    (is "_ \<and> (?key \<or> ?token) \<and> _")
proof -
  from run obtain route perm va sc where route: "route_of (ap_ask app) (segments route) (rq_method rq) = Gated perm t handler args"
    and ad: "admitted app rq perm t u va sc"
    by (rule handle_Run)
  have "proven_by app (rq_headers rq) t u sc" using ad by (simp add: admitted_def)
  then consider "resolve_key sv ops (presented_key (rq_headers rq)) (ap_now app) store = Some (t, u, sc)"
    | h where "h = rq_headers rq \<or> (\<exists>c. cookie (rq_headers rq) SESSION_COOKIE = Some c \<and> h = as_bearer c)"
        "ask_authenticator (jwt_authenticator_of (ap_jwt app) a (ap_now app)) h = Inr (Some (t, u))"
    | secret c claims where "ap_session app = Some secret" "cookie (rq_headers rq) SESSION_COOKIE = Some c"
        "signed_claims (ap_jwt app) secret c claims" "in_force (ap_jwt app) claims (ap_now app) 0 = Inr claims"
        "principal_of ''tenant'' ''sub'' claims = Some (t, u)"
    unfolding proven_by_def using auth keys by (auto simp: jwt_authenticator_of_def)
  then have "?key \<or> ?token"
  proof cases
    case 1
    then obtain key where "resolve_record sv ops (presented_key (rq_headers rq)) (ap_now app) store = Some key"
      "ak_tenant_id key = t" "ak_subject key = u"
      by (auto simp: resolve_key_def)
    moreover from this(1) have "\<not> ak_revoked key" "ak_expires_at key \<noteq> 0 \<longrightarrow> ap_now app < ak_expires_at key"
      by (auto simp: resolve_record_def split: list.splits option.splits if_splits)
    ultimately show ?thesis by blast
  next
    case 2
    from 2(2) obtain token claims where "bearer h = Some token" "signed_claims (ap_jwt app) (ja_secret a) token claims"
      "in_force (ap_jwt app) claims (ap_now app) (ja_leeway a) = Inr claims" "principal_of (ja_claim a) (ja_subject_claim a) claims = Some (t, u)"
      by (rule jwt_asked)
    moreover from this(1) 2(1) have "carries (rq_headers rq) token"
      by (auto simp: carries_def as_bearer_bearer)
    ultimately show ?thesis by blast
  next
    case 3
    then have "carries (rq_headers rq) c" by (simp add: carries_def)
    with 3 show ?thesis by blast
  qed
  with ad route show ?thesis unfolding admitted_def by blast
qed


lemma parallel_irrelevant [simp]:
  "session_claims (app\<lparr>ap_parallel := f\<rparr>) = session_claims app"
  "request_principal (app\<lparr>ap_parallel := f\<rparr>) h = request_principal app h"
  "view_as_claim (app\<lparr>ap_parallel := f\<rparr>) h = view_as_claim app h"
  "view_as_of (app\<lparr>ap_parallel := f\<rparr>) h u = view_as_of app h u"
proof -
  show s: "session_claims (app\<lparr>ap_parallel := f\<rparr>) = session_claims app"
    by (simp add: session_claims_def fun_eq_iff)
  have "cookie_principal (app\<lparr>ap_parallel := f\<rparr>) h = cookie_principal app h"
    "key_principal (app\<lparr>ap_parallel := f\<rparr>) h = key_principal app h"
    "static_principal (app\<lparr>ap_parallel := f\<rparr>) h = static_principal app h"
    by (simp_all add: key_principal_def cookie_principal_def static_principal_def s cong: option.case_cong)
  then show "request_principal (app\<lparr>ap_parallel := f\<rparr>) h = request_principal app h"
    by (simp add: request_principal_def cong: option.case_cong)
  show v: "view_as_claim (app\<lparr>ap_parallel := f\<rparr>) h = view_as_claim app h"
    by (simp add: view_as_claim_def s cong: option.case_cong)
  show "view_as_of (app\<lparr>ap_parallel := f\<rparr>) h u = view_as_of app h u"
    by (auto simp: view_as_of_def v split: option.split)
qed

lemma parallel_refusal:
  "require_permission g u tt t perm va sc refused = ParallelRun \<Longrightarrow>
     refused \<and> tt = t \<and> require_permission g u t t perm va sc False = Granted"
  by (auto simp: require_permission_def split: option.splits if_splits)


section \<open>An example\<close>

text \<open>One business with an owner and a viewer; the payload of a token is read as its subject.\<close>

definition example_jwt :: jwt_env where
  "example_jwt =
     \<lparr>je_hmac = (\<lambda>k m. k), je_dumps = (\<lambda>v. case v of PDict [(k, PStr s), x] \<Rightarrow> ''h'' | PDict [(k, PStr s), (j, x), y] \<Rightarrow> s | _ \<Rightarrow> []),
      je_loads = (\<lambda>s. if s = ''h'' then Inr jwt_header
                      else Inr (PDict [(''sub'', PStr s), (''tenant'', PStr ''acme''), (''exp'', PInt 2000)])),
      je_plus = (\<lambda>f n. f)\<rparr>"

definition example_web :: "mem_directory app" where
  "example_web =
     \<lparr>ap_path = (\<lambda>s. Inr (takeWhile (\<lambda>c. c \<noteq> CHR ''?'') s)),
      ap_gate = \<lparr>wa_policy = Some (mem_directory_ops, example_directory), wa_require_rbac = True, wa_tenants = [''acme'']\<rparr>,
      ap_auth = Some (jwt_authenticator_of example_jwt
        \<lparr>ja_secret = ''key'', ja_claim = ''tenant'', ja_subject_claim = ''sub'', ja_leeway = 0\<rparr> 1000),
      ap_session = Some ''session'', ap_now = 1000, ap_jwt = example_jwt,
      ap_keys = Some (\<lambda>k. resolve_key toy_keys mem_key_store k 1000 []),
      ap_tokens = [(''unused:acme'', ''acme'')], ap_ask = True, ap_parallel = (\<lambda>t. False)\<rparr>"

definition example_token :: string where
  "example_token = sign_jwt example_jwt [(''sub'', PStr ''u1''), (''tenant'', PStr ''acme''), (''exp'', PInt 2000)] ''key''"

definition post_entry :: request where
  "post_entry = \<lparr>rq_method = ''POST'', rq_path = ''/api/acme/entries'', rq_headers = [''authorization'' \<mapsto> ''Bearer '' @ example_token]\<rparr>"

lemma post_entry_runs: "handle example_web post_entry = Inr (Run ''_post_entry_json'' [] ''u1'' ''acme'')"
  by code_simp

lemma principal_subject: "principal_of k s claims = Some (t, u) \<Longrightarrow> u \<noteq> t \<Longrightarrow> as_str (dict_get claims s) = Some u"
  by (auto simp: principal_of_def split: option.splits)

theorem handler_needs_proof_witness:
  "''acme'' \<in> set (wa_tenants (ap_gate example_web)) \<and>
   (\<exists>token claims. carries (rq_headers post_entry) token \<and> as_str (dict_get claims ''sub'') = Some ''u1'')"
proof -
  have none: "resolve_record toy_keys mem_key_store k n [] = None" for k n
    by (simp add: resolve_record_def mem_key_store_def split: list.split)
  have "ap_auth example_web = Some (jwt_authenticator_of (ap_jwt example_web)
      \<lparr>ja_secret = ''key'', ja_claim = ''tenant'', ja_subject_claim = ''sub'', ja_leeway = 0\<rparr> (ap_now example_web))"
    "ap_keys example_web = Some (\<lambda>k. resolve_key toy_keys mem_key_store k (ap_now example_web) [])"
    by (simp_all add: example_web_def)
  from handler_needs_proof [OF this post_entry_runs] show ?thesis
    by (auto simp: none dest: principal_subject)
qed


lemma post_entry_refused: "handle (example_web\<lparr>ap_parallel := (\<lambda>t. True)\<rparr>) post_entry = Inr (Refused ParallelRun)"
  by code_simp


section \<open>Answers that pass by the gate\<close>

text \<open>A deployment that requires a policy and has none refuses every tenant route, and serves the home page,
  with the cash of the business, to any bearer of a token.\<close>

lemma home_without_policy:
  assumes "wa_require_rbac (ap_gate app)" "wa_policy (ap_gate app) = None" "t \<in> set (wa_tenants (ap_gate app))"
  shows "dispatch_to app route m t u va sc \<noteq> Run handler args u' t'"
    and "dispatch_to app ''/app'' m t u va sc = HomeFor u t \<and> home_shown app u t va None"
  using assms by (auto simp: dispatch_Run granted_iff) (auto simp: dispatch_to_def home_shown_def perms_role_def)

text \<open>A key scoped to anything its subject may do sees the home page; the gate would ask for \<open>view_cash\<close>.\<close>

lemma home_ignores_view_cash:
  assumes "wa_policy (ap_gate app) = Some (ops, d)" "POST_JOURNAL \<in> permissions ops d u t va" "t \<in> set (wa_tenants (ap_gate app))"
  shows "home_shown app u t va (Some [''post_journal''])"
    and "require_permission (ap_gate app) u t t VIEW_CASH va (Some [''post_journal'']) refused \<noteq> Granted"
  using assms by (auto simp: home_shown_def perms_role_def granted_iff intro!: exI [of _ POST_JOURNAL])

text \<open>\<open>_me\<close> tells registered businesses from unregistered ones to the holder of any token; the gate does not.\<close>

lemma me_tells_tenants:
  assumes "token_tenant \<noteq> tenant"
  shows "me_status app u token_tenant tenant va = (if tenant \<in> set (wa_tenants (ap_gate app)) then 403 else 404)"
    and "require_permission (ap_gate app) u token_tenant tenant perm va sc refused = WrongTenant"
  using assms by (simp_all add: me_status_def require_permission_def)

end
