(* ===== verification/Forecast_Dto.thy ===== *)
theory Forecast_Dto
  imports Resolve Datetimes Py_Json
begin

text \<open>
  The contract by which a business's activity reaches the forecast
  (\<open>packages/forecast/src/rgnr8_forecast/io.py\<close>): \<open>to_dto\<close> and \<open>from_dto\<close>, on the values of \<open>json\<close>.
  \<open>date.fromisoformat\<close>, whose accepted formats grow with the version of Python, is the argument
  \<open>isod\<close>; \<open>str\<close> of a value that is no string is \<open>other\<close>. The lemmas show that loading what was written
  gives the inputs back without their provenance.
\<close>

section \<open>Fields\<close>

definition enum_of :: "('e \<Rightarrow> string) \<Rightarrow> 'e list \<Rightarrow> py_json \<Rightarrow> 'e res" where
  "enum_of value members v =
     (case v of
        PStr s \<Rightarrow> (case find (\<lambda>e. value e = s) members of Some e \<Rightarrow> Inr e | None \<Rightarrow> Inl ValueError)
      | _ \<Rightarrow> Inl ValueError)"

fun frequency_value :: "frequency \<Rightarrow> string" where
  "frequency_value WEEKLY = ''WEEKLY''"
| "frequency_value BIWEEKLY = ''BIWEEKLY''"
| "frequency_value SEMIMONTHLY = ''SEMIMONTHLY''"
| "frequency_value MONTHLY = ''MONTHLY''"
| "frequency_value QUARTERLY = ''QUARTERLY''"
| "frequency_value ANNUAL = ''ANNUAL''"

fun confidence_value :: "confidence \<Rightarrow> string" where
  "confidence_value RECORDED = ''RECORDED''"
| "confidence_value PREDICTED = ''PREDICTED''"
| "confidence_value PLANNED = ''PLANNED''"
| "confidence_value SCENARIO = ''SCENARIO''"

fun invoice_status_value :: "invoice_status \<Rightarrow> string" where
  "invoice_status_value OPEN = ''OPEN''"
| "invoice_status_value PARTIAL = ''PARTIAL''"
| "invoice_status_value DISPUTED = ''DISPUTED''"

definition frequency_of :: "py_json \<Rightarrow> frequency res" where
  "frequency_of = enum_of frequency_value [WEEKLY, BIWEEKLY, SEMIMONTHLY, MONTHLY, QUARTERLY, ANNUAL]"

definition direction_of :: "py_json \<Rightarrow> direction res" where
  "direction_of = enum_of direction_value [INFLOW, OUTFLOW]"

definition confidence_of :: "py_json \<Rightarrow> confidence res" where
  "confidence_of = enum_of confidence_value [RECORDED, PREDICTED, PLANNED, SCENARIO]"

definition invoice_status_of :: "py_json \<Rightarrow> invoice_status res" where
  "invoice_status_of = enum_of invoice_status_value [OPEN, PARTIAL, DISPUTED]"

definition category_of :: "py_json \<Rightarrow> category res" where
  "category_of =
     enum_of category_value
       [CUSTOMER_RECEIPT, PIPELINE_RECEIPT, OTHER_INFLOW, VENDOR_PAYMENT, PAYROLL_NET, PAYROLL_TAX,
        TAX_REMITTANCE, DEBT_SERVICE, RENT, OWNER_DISTRIBUTION, CAPITAL_EXPENDITURE,
        REFUND_CHARGEBACK, OTHER_OUTFLOW, TRANSFER]"

definition opt_json :: "('a \<Rightarrow> py_json) \<Rightarrow> 'a option \<Rightarrow> py_json" where
  "opt_json f x = (case x of Some y \<Rightarrow> f y | None \<Rightarrow> PNone)"

definition date_json :: "date \<Rightarrow> py_json" where
  "date_json d = PStr (isoformat d)"

text \<open>\<open>date.fromisoformat(v)\<close>: an argument that is no string is a \<open>TypeError\<close>.\<close>

definition date_of :: "(string \<Rightarrow> date res) \<Rightarrow> py_json \<Rightarrow> date res" where
  "date_of isod v = (case v of PStr s \<Rightarrow> isod s | _ \<Rightarrow> Inl TypeError)"

text \<open>\<open>f(v["k"])\<close>, \<open>f(v["k"]) if v.get("k") else x\<close> and the comprehensions over \<open>v.get("k", [])\<close>.\<close>

definition sub :: "py_json \<Rightarrow> string \<Rightarrow> (py_json \<Rightarrow> 'a res) \<Rightarrow> 'a res" where
  "sub v k f = res_bind (getitem v k) f"

definition sub_if :: "py_json \<Rightarrow> string \<Rightarrow> (py_json \<Rightarrow> 'a res) \<Rightarrow> 'a \<Rightarrow> 'a res" where
  "sub_if v k f x = res_bind (get_or v k PNone) (\<lambda>u. if truthy u then res_bind (getitem v k) f else Inr x)"

definition each :: "py_json \<Rightarrow> string \<Rightarrow> (py_json \<Rightarrow> 'a res) \<Rightarrow> 'a list res" where
  "each v k f = res_bind (get_or v k (PList [])) (\<lambda>u. res_bind (py_iter u) (map_res f))"

definition some_res :: "('a \<Rightarrow> 'b res) \<Rightarrow> 'a \<Rightarrow> 'b option res" where
  "some_res f x = res_bind (f x) (\<lambda>y. Inr (Some y))"

section \<open>Money and recurrences\<close>

definition money_to_dto :: "money \<Rightarrow> py_json" where
  "money_to_dto m = PDict [(''minor'', PInt (minor_units m)), (''currency'', PStr (currency m))]"

definition money_from_dto :: "(py_json \<Rightarrow> string) \<Rightarrow> py_json \<Rightarrow> money res" where
  "money_from_dto other d =
     res_bind (sub d ''minor'' to_int) (\<lambda>n.
     res_bind (get_or d ''currency'' (PStr ''USD'')) (\<lambda>c. Inr (Money n (to_str other c))))"

definition recurrence_to_dto :: "recurrence \<Rightarrow> py_json" where
  "recurrence_to_dto r =
     PDict [(''frequency'', PStr (frequency_value (frequency r))), (''anchor'', date_json (anchor r)),
       (''interval'', PInt (rec_interval r)), (''second_day'', opt_json PInt (second_day r)),
       (''end'', opt_json date_json (rec_end r)), (''count'', opt_json PInt (rec_count r))]"

definition recurrence_from_dto :: "(string \<Rightarrow> date res) \<Rightarrow> py_json \<Rightarrow> recurrence res" where
  "recurrence_from_dto isod d =
     res_bind (sub d ''frequency'' frequency_of) (\<lambda>f.
     res_bind (sub d ''anchor'' (date_of isod)) (\<lambda>a.
     res_bind (res_bind (get_or d ''interval'' (PInt 1)) to_int) (\<lambda>i.
     res_bind (res_bind (get_or d ''second_day'' PNone) as_declared_int) (\<lambda>s.
     res_bind (sub_if d ''end'' (some_res (date_of isod)) None) (\<lambda>e.
     res_bind (res_bind (get_or d ''count'' PNone) as_declared_int) (\<lambda>c.
     Inr \<lparr>frequency = f, anchor = a, rec_interval = i, second_day = s, rec_end = e, rec_count = c\<rparr>))))))"

section \<open>Writing\<close>

definition CONTRACT_VERSION :: string where
  "CONTRACT_VERSION = ''forecast-inputs/1''"

definition opening_to_dto :: "cash_position \<Rightarrow> py_json" where
  "opening_to_dto o1 =
     PDict [(''as_of'', date_json (cp_as_of o1)), (''available'', money_to_dto (cp_available o1)),
       (''restricted'', money_to_dto (cp_restricted o1)), (''verified'', PBool (cp_verified o1))]"

definition invoice_to_dto :: "invoice \<Rightarrow> py_json" where
  "invoice_to_dto i =
     PDict [(''id'', PStr (inv_id i)), (''customer_id'', PStr (inv_customer_id i)),
       (''issue_date'', date_json (inv_issue_date i)), (''due_date'', date_json (inv_due_date i)),
       (''open_amount'', money_to_dto (inv_open_amount i)),
       (''status'', PStr (invoice_status_value (inv_status i)))]"

definition observation_to_dto :: "payment_observation \<Rightarrow> py_json" where
  "observation_to_dto p =
     PDict [(''due_date'', date_json (po_due_date p)), (''paid_date'', date_json (po_paid_date p))]"

definition history_to_dto :: "customer_history \<Rightarrow> py_json" where
  "history_to_dto h =
     PDict [(''customer_id'', PStr (ch_customer_id h)),
       (''observations'', PList (map observation_to_dto (ch_observations h))),
       (''override_days_late'', opt_json PInt (ch_override_days_late h))]"

definition bill_to_dto :: "bill \<Rightarrow> py_json" where
  "bill_to_dto b =
     PDict [(''id'', PStr (bill_id b)), (''vendor_id'', PStr (bill_vendor_id b)),
       (''due_date'', date_json (bill_due_date b)), (''amount'', money_to_dto (bill_amount b)),
       (''scheduled_date'', opt_json date_json (bill_scheduled_date b))]"

definition recurring_to_dto :: "recurring_item \<Rightarrow> py_json" where
  "recurring_to_dto r =
     PDict [(''label'', PStr (ri_label r)), (''category'', PStr (category_value (ri_category r))),
       (''direction'', PStr (direction_value (ri_direction r))), (''amount'', money_to_dto (ri_amount r)),
       (''recurrence'', recurrence_to_dto (ri_recurrence r))]"

definition payroll_to_dto :: "payroll_schedule \<Rightarrow> py_json" where
  "payroll_to_dto p =
     PDict [(''label'', PStr (pr_label p)), (''recurrence'', recurrence_to_dto (pr_recurrence p)),
       (''net_pay'', money_to_dto (pr_net_pay p)), (''payroll_taxes'', money_to_dto (pr_payroll_taxes p)),
       (''tax_remit_lag_days'', PInt (pr_tax_remit_lag_days p))]"

definition debt_to_dto :: "debt_instrument \<Rightarrow> py_json" where
  "debt_to_dto d =
     PDict [(''label'', PStr (di_label d)), (''recurrence'', recurrence_to_dto (di_recurrence d)),
       (''payment'', money_to_dto (di_payment d)),
       (''principal_portion'', opt_json money_to_dto (di_principal_portion d)),
       (''interest_portion'', opt_json money_to_dto (di_interest_portion d))]"

definition one_time_to_dto :: "one_time_item \<Rightarrow> py_json" where
  "one_time_to_dto t =
     PDict [(''label'', PStr (ot_label t)), (''category'', PStr (category_value (ot_category t))),
       (''direction'', PStr (direction_value (ot_direction t))), (''amount'', money_to_dto (ot_amount t)),
       (''on_date'', date_json (ot_on_date t)), (''confidence'', PStr (confidence_value (ot_confidence t)))]"

definition pipeline_to_dto :: "pipeline_opportunity \<Rightarrow> py_json" where
  "pipeline_to_dto p =
     PDict [(''label'', PStr (opp_label p)), (''customer_id'', PStr (opp_customer_id p)),
       (''expected_date'', date_json (opp_expected_date p)), (''amount'', money_to_dto (opp_amount p)),
       (''probability_bps'', PInt (opp_probability_bps p))]"

definition to_dto :: "forecast_inputs \<Rightarrow> py_json" where
  "to_dto inputs =
     PDict [(''contract'', PStr CONTRACT_VERSION), (''currency'', PStr (fi_currency inputs)),
       (''opening'', opening_to_dto (fi_opening inputs)),
       (''invoices'', PList (map invoice_to_dto (fi_invoices inputs))),
       (''customer_histories'', PList (map history_to_dto (fi_customer_histories inputs))),
       (''bills'', PList (map bill_to_dto (fi_bills inputs))),
       (''recurring'', PList (map recurring_to_dto (fi_recurring inputs))),
       (''payroll'', PList (map payroll_to_dto (fi_payroll inputs))),
       (''debt'', PList (map debt_to_dto (fi_debt inputs))),
       (''one_time'', PList (map one_time_to_dto (fi_one_time inputs))),
       (''pipeline'', PList (map pipeline_to_dto (fi_pipeline inputs)))]"

section \<open>Reading\<close>

definition opening_from_dto :: "(py_json \<Rightarrow> string) \<Rightarrow> (string \<Rightarrow> date res) \<Rightarrow> py_json \<Rightarrow> cash_position res" where
  "opening_from_dto other isod o1 =
     res_bind (sub o1 ''as_of'' (date_of isod)) (\<lambda>as_of.
     res_bind (sub o1 ''available'' (money_from_dto other)) (\<lambda>av.
     res_bind (sub_if o1 ''restricted'' (money_from_dto other) (Money 0 ''USD'')) (\<lambda>re.
     res_bind (get_or o1 ''verified'' (PBool False)) (\<lambda>ve.
     Inr \<lparr>cp_as_of = as_of, cp_available = av, cp_restricted = re, cp_verified = truthy ve\<rparr>))))"

definition invoice_from_dto :: "(py_json \<Rightarrow> string) \<Rightarrow> (string \<Rightarrow> date res) \<Rightarrow> py_json \<Rightarrow> invoice res" where
  "invoice_from_dto other isod i =
     res_bind (sub i ''id'' as_declared_str) (\<lambda>ident.
     res_bind (sub i ''customer_id'' as_declared_str) (\<lambda>c.
     res_bind (sub i ''issue_date'' (date_of isod)) (\<lambda>isd.
     res_bind (sub i ''due_date'' (date_of isod)) (\<lambda>due.
     res_bind (sub i ''open_amount'' (money_from_dto other)) (\<lambda>m.
     res_bind (res_bind (get_or i ''status'' (PStr ''OPEN'')) invoice_status_of) (\<lambda>s.
     Inr \<lparr>inv_id = ident, inv_customer_id = c, inv_issue_date = isd, inv_due_date = due,
          inv_open_amount = m, inv_status = s, inv_provenance = None\<rparr>))))))"

definition observation_from_dto :: "(string \<Rightarrow> date res) \<Rightarrow> py_json \<Rightarrow> payment_observation res" where
  "observation_from_dto isod ob =
     res_bind (sub ob ''due_date'' (date_of isod)) (\<lambda>d.
     res_bind (sub ob ''paid_date'' (date_of isod)) (\<lambda>p. Inr \<lparr>po_due_date = d, po_paid_date = p\<rparr>))"

definition history_from_dto :: "(string \<Rightarrow> date res) \<Rightarrow> py_json \<Rightarrow> customer_history res" where
  "history_from_dto isod h =
     res_bind (sub h ''customer_id'' as_declared_str) (\<lambda>c.
     res_bind (each h ''observations'' (observation_from_dto isod)) (\<lambda>obs.
     res_bind (res_bind (get_or h ''override_days_late'' PNone) as_declared_int) (\<lambda>n.
     Inr \<lparr>ch_customer_id = c, ch_observations = obs, ch_override_days_late = n\<rparr>)))"

definition bill_from_dto :: "(py_json \<Rightarrow> string) \<Rightarrow> (string \<Rightarrow> date res) \<Rightarrow> py_json \<Rightarrow> bill res" where
  "bill_from_dto other isod b =
     res_bind (sub b ''id'' as_declared_str) (\<lambda>ident.
     res_bind (sub b ''vendor_id'' as_declared_str) (\<lambda>v.
     res_bind (sub b ''due_date'' (date_of isod)) (\<lambda>due.
     res_bind (sub b ''amount'' (money_from_dto other)) (\<lambda>m.
     res_bind (sub_if b ''scheduled_date'' (some_res (date_of isod)) None) (\<lambda>s.
     Inr \<lparr>bill_id = ident, bill_vendor_id = v, bill_due_date = due, bill_amount = m,
          bill_scheduled_date = s, bill_provenance = None\<rparr>)))))"

definition recurring_from_dto :: "(py_json \<Rightarrow> string) \<Rightarrow> (string \<Rightarrow> date res) \<Rightarrow> py_json \<Rightarrow> recurring_item res" where
  "recurring_from_dto other isod r =
     res_bind (sub r ''label'' as_declared_str) (\<lambda>l.
     res_bind (sub r ''category'' category_of) (\<lambda>c.
     res_bind (sub r ''direction'' direction_of) (\<lambda>d.
     res_bind (sub r ''amount'' (money_from_dto other)) (\<lambda>m.
     res_bind (sub r ''recurrence'' (recurrence_from_dto isod)) (\<lambda>rc.
     Inr \<lparr>ri_label = l, ri_category = c, ri_direction = d, ri_amount = m, ri_recurrence = rc,
          ri_provenance = None\<rparr>)))))"

definition payroll_from_dto :: "(py_json \<Rightarrow> string) \<Rightarrow> (string \<Rightarrow> date res) \<Rightarrow> py_json \<Rightarrow> payroll_schedule res" where
  "payroll_from_dto other isod p =
     res_bind (sub p ''label'' as_declared_str) (\<lambda>l.
     res_bind (sub p ''recurrence'' (recurrence_from_dto isod)) (\<lambda>rc.
     res_bind (sub p ''net_pay'' (money_from_dto other)) (\<lambda>n.
     res_bind (sub_if p ''payroll_taxes'' (money_from_dto other) (Money 0 ''USD'')) (\<lambda>t.
     res_bind (res_bind (get_or p ''tax_remit_lag_days'' (PInt 3)) to_int) (\<lambda>lag.
     Inr \<lparr>pr_label = l, pr_recurrence = rc, pr_net_pay = n, pr_payroll_taxes = t,
          pr_tax_remit_lag_days = lag, pr_provenance = None\<rparr>)))))"

definition debt_from_dto :: "(py_json \<Rightarrow> string) \<Rightarrow> (string \<Rightarrow> date res) \<Rightarrow> py_json \<Rightarrow> debt_instrument res" where
  "debt_from_dto other isod x =
     res_bind (sub x ''label'' as_declared_str) (\<lambda>l.
     res_bind (sub x ''recurrence'' (recurrence_from_dto isod)) (\<lambda>rc.
     res_bind (sub x ''payment'' (money_from_dto other)) (\<lambda>m.
     res_bind (sub_if x ''principal_portion'' (some_res (money_from_dto other)) None) (\<lambda>p.
     res_bind (sub_if x ''interest_portion'' (some_res (money_from_dto other)) None) (\<lambda>i.
     Inr \<lparr>di_label = l, di_recurrence = rc, di_payment = m, di_principal_portion = p,
          di_interest_portion = i, di_provenance = None\<rparr>)))))"

definition one_time_from_dto :: "(py_json \<Rightarrow> string) \<Rightarrow> (string \<Rightarrow> date res) \<Rightarrow> py_json \<Rightarrow> one_time_item res" where
  "one_time_from_dto other isod t =
     res_bind (sub t ''label'' as_declared_str) (\<lambda>l.
     res_bind (sub t ''category'' category_of) (\<lambda>c.
     res_bind (sub t ''direction'' direction_of) (\<lambda>d.
     res_bind (sub t ''amount'' (money_from_dto other)) (\<lambda>m.
     res_bind (sub t ''on_date'' (date_of isod)) (\<lambda>on.
     res_bind (res_bind (get_or t ''confidence'' (PStr ''PLANNED'')) confidence_of) (\<lambda>cf.
     Inr \<lparr>ot_label = l, ot_category = c, ot_direction = d, ot_amount = m, ot_on_date = on,
          ot_confidence = cf, ot_provenance = None\<rparr>))))))"

definition pipeline_from_dto :: "(py_json \<Rightarrow> string) \<Rightarrow> (string \<Rightarrow> date res) \<Rightarrow> py_json \<Rightarrow> pipeline_opportunity res" where
  "pipeline_from_dto other isod p =
     res_bind (sub p ''label'' as_declared_str) (\<lambda>l.
     res_bind (sub p ''customer_id'' as_declared_str) (\<lambda>c.
     res_bind (sub p ''expected_date'' (date_of isod)) (\<lambda>e.
     res_bind (sub p ''amount'' (money_from_dto other)) (\<lambda>m.
     res_bind (sub p ''probability_bps'' to_int) (\<lambda>b.
     Inr \<lparr>opp_label = l, opp_customer_id = c, opp_expected_date = e, opp_amount = m,
          opp_probability_bps = b, opp_provenance = None\<rparr>)))))"

definition from_dto :: "(py_json \<Rightarrow> string) \<Rightarrow> (string \<Rightarrow> date res) \<Rightarrow> py_json \<Rightarrow> forecast_inputs res" where
  "from_dto other isod d =
     res_bind (sub d ''opening'' (opening_from_dto other isod)) (\<lambda>o1.
     res_bind (get_or d ''currency'' (PStr ''USD'')) (\<lambda>c.
     res_bind (each d ''invoices'' (invoice_from_dto other isod)) (\<lambda>inv.
     res_bind (each d ''customer_histories'' (history_from_dto isod)) (\<lambda>hist.
     res_bind (each d ''bills'' (bill_from_dto other isod)) (\<lambda>bills.
     res_bind (each d ''recurring'' (recurring_from_dto other isod)) (\<lambda>rec.
     res_bind (each d ''payroll'' (payroll_from_dto other isod)) (\<lambda>pay.
     res_bind (each d ''debt'' (debt_from_dto other isod)) (\<lambda>debt.
     res_bind (each d ''one_time'' (one_time_from_dto other isod)) (\<lambda>ot.
     res_bind (each d ''pipeline'' (pipeline_from_dto other isod)) (\<lambda>pipe.
     Inr \<lparr>fi_opening = o1, fi_currency = to_str other c, fi_invoices = inv,
          fi_customer_histories = hist, fi_bills = bills, fi_recurring = rec, fi_payroll = pay,
          fi_debt = debt, fi_one_time = ot, fi_pipeline = pipe\<rparr>))))))))))"

section \<open>Loading what was written\<close>

definition reads_iso :: "(string \<Rightarrow> date res) \<Rightarrow> bool" where
  "reads_iso isod \<longleftrightarrow> (\<forall>d. valid_date d \<longrightarrow> isod (isoformat d) = Inr d)"

text \<open>Every date of the inputs is a \<open>datetime.date\<close>.\<close>

definition recurrence_dates :: "recurrence \<Rightarrow> bool" where
  "recurrence_dates r \<longleftrightarrow> valid_date (anchor r) \<and> pred_option valid_date (rec_end r)"

definition dates_valid :: "forecast_inputs \<Rightarrow> bool" where
  "dates_valid i \<longleftrightarrow>
     valid_date (cp_as_of (fi_opening i)) \<and>
     list_all (\<lambda>x. valid_date (inv_issue_date x) \<and> valid_date (inv_due_date x)) (fi_invoices i) \<and>
     list_all (\<lambda>h. list_all (\<lambda>p. valid_date (po_due_date p) \<and> valid_date (po_paid_date p)) (ch_observations h))
       (fi_customer_histories i) \<and>
     list_all (\<lambda>b. valid_date (bill_due_date b) \<and> pred_option valid_date (bill_scheduled_date b)) (fi_bills i) \<and>
     list_all (\<lambda>r. recurrence_dates (ri_recurrence r)) (fi_recurring i) \<and>
     list_all (\<lambda>p. recurrence_dates (pr_recurrence p)) (fi_payroll i) \<and>
     list_all (\<lambda>d. recurrence_dates (di_recurrence d)) (fi_debt i) \<and>
     list_all (\<lambda>t. valid_date (ot_on_date t)) (fi_one_time i) \<and>
     list_all (\<lambda>p. valid_date (opp_expected_date p)) (fi_pipeline i)"

definition without_provenance :: "forecast_inputs \<Rightarrow> forecast_inputs" where
  "without_provenance i =
     i\<lparr>fi_invoices := map (\<lambda>x. x\<lparr>inv_provenance := None\<rparr>) (fi_invoices i),
       fi_bills := map (\<lambda>x. x\<lparr>bill_provenance := None\<rparr>) (fi_bills i),
       fi_recurring := map (\<lambda>x. x\<lparr>ri_provenance := None\<rparr>) (fi_recurring i),
       fi_payroll := map (\<lambda>x. x\<lparr>pr_provenance := None\<rparr>) (fi_payroll i),
       fi_debt := map (\<lambda>x. x\<lparr>di_provenance := None\<rparr>) (fi_debt i),
       fi_one_time := map (\<lambda>x. x\<lparr>ot_provenance := None\<rparr>) (fi_one_time i),
       fi_pipeline := map (\<lambda>x. x\<lparr>opp_provenance := None\<rparr>) (fi_pipeline i)\<rparr>"

named_theorems dto_simps \<open>reading back what a writer of the contract wrote\<close>

lemma opt_json_simps [simp]: "opt_json f None = PNone" "opt_json f (Some x) = f x"
  by (simp_all add: opt_json_def)

lemma isoformat_not_Nil [simp]: "isoformat d \<noteq> []"
  by (simp add: isoformat_def)

lemma date_of_json [dto_simps]: "reads_iso isod \<Longrightarrow> valid_date d \<Longrightarrow> date_of isod (date_json d) = Inr d"
  by (simp add: date_of_def date_json_def reads_iso_def)

lemma enum_of_values [dto_simps]:
  "frequency_of (PStr (frequency_value f)) = Inr f"
  "direction_of (PStr (direction_value d)) = Inr d"
  "confidence_of (PStr (confidence_value c)) = Inr c"
  "invoice_status_of (PStr (invoice_status_value s)) = Inr s"
  "category_of (PStr (category_value k)) = Inr k"
proof -
  show "frequency_of (PStr (frequency_value f)) = Inr f"
    by (cases f; simp add: enum_of_def frequency_of_def)
  show "direction_of (PStr (direction_value d)) = Inr d"
    by (cases d; simp add: enum_of_def direction_of_def)
  show "confidence_of (PStr (confidence_value c)) = Inr c"
    by (cases c; simp add: enum_of_def confidence_of_def)
  show "invoice_status_of (PStr (invoice_status_value s)) = Inr s"
    by (cases s; simp add: enum_of_def invoice_status_of_def)
  show "category_of (PStr (category_value k)) = Inr k"
    by (cases k; simp add: enum_of_def category_of_def)
qed

lemma money_dto [dto_simps]: "money_from_dto other (money_to_dto m) = Inr m"
  by (simp add: money_from_dto_def money_to_dto_def sub_def)

lemma truthy_dto [simp]: "truthy (money_to_dto m)" "truthy (date_json d)"
  by (simp_all add: money_to_dto_def date_json_def)

lemma declared_opt [simp]: "as_declared_int (opt_json PInt n) = Inr n"
  by (cases n) simp_all

lemma sub_if_opt [dto_simps]:
  assumes "map_of d k = Some (opt_json f x)"
    and "\<And>y. x = Some y \<Longrightarrow> truthy (f y)" and "\<And>y. x = Some y \<Longrightarrow> g (f y) = Inr y"
  shows "sub_if (PDict d) k (some_res g) None = Inr x"
  using assms by (cases x) (simp_all add: sub_if_def some_res_def)

lemma each_map:
  assumes "map_of d k = Some (PList (map w xs))" and "\<And>x. x \<in> set xs \<Longrightarrow> r (w x) = Inr (c x)"
  shows "each (PDict d) k r = Inr (map c xs)"
  using assms by (simp add: each_def map_res_Inr list_all2_conv_all_nth)

lemma each_same: "each v k r = Inr (map (\<lambda>x. x) xs) \<Longrightarrow> each v k r = Inr xs"
  by simp

lemma recurrence_dto [dto_simps]:
  assumes "reads_iso isod" "recurrence_dates r"
  shows "recurrence_from_dto isod (recurrence_to_dto r) = Inr r"
  using assms
  by (cases r) (simp add: recurrence_from_dto_def recurrence_to_dto_def sub_def dto_simps recurrence_dates_def
      option.pred_set)

text \<open>One lemma per class of the bundle.\<close>

lemma opening_dto [dto_simps]:
  "reads_iso isod \<Longrightarrow> valid_date (cp_as_of o1) \<Longrightarrow> opening_from_dto other isod (opening_to_dto o1) = Inr o1"
  by (cases o1) (simp add: opening_from_dto_def opening_to_dto_def sub_def sub_if_def dto_simps)

lemma invoice_dto [dto_simps]:
  "reads_iso isod \<Longrightarrow> valid_date (inv_issue_date i) \<Longrightarrow> valid_date (inv_due_date i) \<Longrightarrow>
     invoice_from_dto other isod (invoice_to_dto i) = Inr (i\<lparr>inv_provenance := None\<rparr>)"
  by (cases i) (simp add: invoice_from_dto_def invoice_to_dto_def sub_def dto_simps)

lemma observation_dto [dto_simps]:
  "reads_iso isod \<Longrightarrow> valid_date (po_due_date p) \<Longrightarrow> valid_date (po_paid_date p) \<Longrightarrow>
     observation_from_dto isod (observation_to_dto p) = Inr p"
  by (cases p) (simp add: observation_from_dto_def observation_to_dto_def sub_def dto_simps)

lemma history_dto [dto_simps]:
  assumes "reads_iso isod"
    and "list_all (\<lambda>p. valid_date (po_due_date p) \<and> valid_date (po_paid_date p)) (ch_observations h)"
  shows "history_from_dto isod (history_to_dto h) = Inr h"
proof -
  have "each (history_to_dto h) ''observations'' (observation_from_dto isod) = Inr (map (\<lambda>p. p) (ch_observations h))"
    unfolding history_to_dto_def
    by (rule each_map [where w = observation_to_dto]) (use assms in \<open>simp_all add: dto_simps list_all_iff\<close>)
  then show ?thesis
    by (cases h) (simp add: history_from_dto_def sub_def, simp add: history_to_dto_def)
qed

lemma bill_dto [dto_simps]:
  "reads_iso isod \<Longrightarrow> valid_date (bill_due_date b) \<Longrightarrow> pred_option valid_date (bill_scheduled_date b) \<Longrightarrow>
     bill_from_dto other isod (bill_to_dto b) = Inr (b\<lparr>bill_provenance := None\<rparr>)"
  by (cases b) (simp add: bill_from_dto_def bill_to_dto_def sub_def dto_simps option.pred_set)

lemma recurring_dto [dto_simps]:
  "reads_iso isod \<Longrightarrow> recurrence_dates (ri_recurrence r) \<Longrightarrow>
     recurring_from_dto other isod (recurring_to_dto r) = Inr (r\<lparr>ri_provenance := None\<rparr>)"
  by (cases r) (simp add: recurring_from_dto_def recurring_to_dto_def sub_def dto_simps)

lemma payroll_dto [dto_simps]:
  "reads_iso isod \<Longrightarrow> recurrence_dates (pr_recurrence p) \<Longrightarrow>
     payroll_from_dto other isod (payroll_to_dto p) = Inr (p\<lparr>pr_provenance := None\<rparr>)"
  by (cases p) (simp add: payroll_from_dto_def payroll_to_dto_def sub_def sub_if_def dto_simps)

lemma debt_dto [dto_simps]:
  "reads_iso isod \<Longrightarrow> recurrence_dates (di_recurrence d) \<Longrightarrow>
     debt_from_dto other isod (debt_to_dto d) = Inr (d\<lparr>di_provenance := None\<rparr>)"
  by (cases d) (simp add: debt_from_dto_def debt_to_dto_def sub_def dto_simps)

lemma one_time_dto [dto_simps]:
  "reads_iso isod \<Longrightarrow> valid_date (ot_on_date t) \<Longrightarrow>
     one_time_from_dto other isod (one_time_to_dto t) = Inr (t\<lparr>ot_provenance := None\<rparr>)"
  by (cases t) (simp add: one_time_from_dto_def one_time_to_dto_def sub_def dto_simps)

lemma pipeline_dto [dto_simps]:
  "reads_iso isod \<Longrightarrow> valid_date (opp_expected_date p) \<Longrightarrow>
     pipeline_from_dto other isod (pipeline_to_dto p) = Inr (p\<lparr>opp_provenance := None\<rparr>)"
  by (cases p) (simp add: pipeline_from_dto_def pipeline_to_dto_def sub_def dto_simps)

lemma lists_dto:
  assumes "reads_iso isod" "dates_valid i"
  shows "each (to_dto i) ''invoices'' (invoice_from_dto other isod) = Inr (map (\<lambda>x. x\<lparr>inv_provenance := None\<rparr>) (fi_invoices i))"
    and "each (to_dto i) ''bills'' (bill_from_dto other isod) = Inr (map (\<lambda>x. x\<lparr>bill_provenance := None\<rparr>) (fi_bills i))"
    and "each (to_dto i) ''recurring'' (recurring_from_dto other isod) = Inr (map (\<lambda>x. x\<lparr>ri_provenance := None\<rparr>) (fi_recurring i))"
    and "each (to_dto i) ''payroll'' (payroll_from_dto other isod) = Inr (map (\<lambda>x. x\<lparr>pr_provenance := None\<rparr>) (fi_payroll i))"
    and "each (to_dto i) ''debt'' (debt_from_dto other isod) = Inr (map (\<lambda>x. x\<lparr>di_provenance := None\<rparr>) (fi_debt i))"
    and "each (to_dto i) ''one_time'' (one_time_from_dto other isod) = Inr (map (\<lambda>x. x\<lparr>ot_provenance := None\<rparr>) (fi_one_time i))"
    and "each (to_dto i) ''pipeline'' (pipeline_from_dto other isod) = Inr (map (\<lambda>x. x\<lparr>opp_provenance := None\<rparr>) (fi_pipeline i))"
  unfolding to_dto_def using assms
  by (auto intro!: each_map simp: dto_simps dates_valid_def list_all_iff)

lemma histories_dto:
  assumes "reads_iso isod" "dates_valid i"
  shows "each (to_dto i) ''customer_histories'' (history_from_dto isod) = Inr (fi_customer_histories i)"
  unfolding to_dto_def using assms
  by - (rule each_same, rule each_map [where w = history_to_dto], auto simp: dto_simps dates_valid_def list_all_iff)

lemma from_to_dto:
  assumes "reads_iso isod" and "dates_valid inputs"
  shows "from_dto other isod (to_dto inputs) = Inr (without_provenance inputs)"
proof -
  have "sub (to_dto inputs) ''opening'' (opening_from_dto other isod) = Inr (fi_opening inputs)"
    using assms by (simp add: sub_def to_dto_def dto_simps dates_valid_def)
  moreover have "get_or (to_dto inputs) ''currency'' (PStr ''USD'') = Inr (PStr (fi_currency inputs))"
    by (simp add: to_dto_def)
  ultimately show ?thesis
    by (simp add: from_dto_def lists_dto [OF assms] histories_dto [OF assms] without_provenance_def)
qed

text \<open>C40. Loading what \<open>to_dto\<close> wrote gives the inputs back, every field of every record, whatever
  their dates and currencies, except that provenance is dropped.\<close>

theorem dto_round_trip:
  assumes "reads_iso isod" and "dates_valid inputs"
  shows "from_dto other isod (to_dto inputs) = Inr (without_provenance inputs)"
  using assms by (rule from_to_dto)

text \<open>A payload that does not assert a verified opening is loaded as unverified.\<close>

lemma unverified_by_default:
  assumes "from_dto other isod (PDict d) = Inr inputs" and "cp_verified (fi_opening inputs)"
  shows "\<exists>o1 v. map_of d ''opening'' = Some (PDict o1) \<and> map_of o1 ''verified'' = Some v \<and> truthy v"
proof -
  obtain o1 where o: "map_of d ''opening'' = Some o1" "opening_from_dto other isod o1 = Inr (fi_opening inputs)"
    using assms(1) by (auto simp: from_dto_def sub_def result_simps split: option.splits)
  then obtain v where v: "get_or o1 ''verified'' (PBool False) = Inr v" "truthy v"
    using assms(2) by (auto simp: opening_from_dto_def result_simps) (metis cash_position.select_convs(4))
  then obtain m where "o1 = PDict m" by (cases o1) (auto simp: get_or_def)
  with o v show ?thesis by (auto split: option.splits)
qed

section \<open>A concrete reader of dates\<close>

text \<open>Four, two and two digits between dashes, as \<open>date.fromisoformat\<close> has read since it exists.\<close>

definition read_iso :: "string \<Rightarrow> date res" where
  "read_iso s =
     (if length s = 10 \<and> s ! 4 = CHR ''-'' \<and> s ! 7 = CHR ''-'' then
        date_new (int (int_of_digits (take 4 s))) (int (int_of_digits (take 2 (drop 5 s))))
          (int (int_of_digits (drop 8 s)))
      else Inl ValueError)"

lemma rjust_digits:
  assumes "0 \<le> x" "x < 10 ^ w" "0 < w"
  shows "length (rjust w CHR ''0'' (str_nat (nat x))) = w"
    and "int (int_of_digits (rjust w CHR ''0'' (str_nat (nat x)))) = x"
proof -
  have "nat x < 10 ^ w" using assms by (simp add: nat_less_iff)
  then show "length (rjust w CHR ''0'' (str_nat (nat x))) = w"
    using str_nat_length [of "nat x" w] assms by (simp add: length_rjust)
  show "int (int_of_digits (rjust w CHR ''0'' (str_nat (nat x)))) = x"
    using assms by (simp add: rjust_def int_of_digits_zeros)
qed

lemma read_iso_reads: "reads_iso read_iso"
  unfolding reads_iso_def
proof (intro allI impI)
  fix d assume d: "valid_date d"
  have "1 \<le> year_of d" "year_of d \<le> 9999" and md: "1 \<le> month_of d" "month_of d \<le> 12"
    "1 \<le> day_of d" "day_of d \<le> 31"
    using date_new_of [OF d] days_in_month_bounds [of "year_of d" "month_of d"]
    by (auto simp: date_new_def valid_ymd_def split: if_splits)
  then have y: "0 \<le> year_of d" "year_of d < 10 ^ 4" "month_of d < 10 ^ 2" "day_of d < 10 ^ 2" by simp_all
  obtain a b c where s: "isoformat d = a @ ''-'' @ b @ ''-'' @ c" and
    l: "length a = 4" "length b = 2" "length c = 2" and
    v: "int (int_of_digits a) = year_of d" "int (int_of_digits b) = month_of d" "int (int_of_digits c) = day_of d"
    using rjust_digits [OF y(1,2)] rjust_digits [OF _ y(3)] rjust_digits [OF _ y(4)] md
    unfolding isoformat_def by fastforce
  show "read_iso (isoformat d) = Inr d"
    using date_new_of [OF d] l v unfolding s by (simp add: read_iso_def nth_append)
qed

definition dto_example :: forecast_inputs where
  "dto_example =
     \<lparr>fi_opening = \<lparr>cp_as_of = 739000, cp_available = Money 500000 ''EUR'', cp_restricted = Money 0 ''USD'',
        cp_verified = True\<rparr>, fi_currency = ''EUR'',
      fi_invoices = [\<lparr>inv_id = ''i'', inv_customer_id = ''c'', inv_issue_date = 738990, inv_due_date = 739020,
        inv_open_amount = Money 9900 ''EUR'', inv_status = DISPUTED,
        inv_provenance = Some \<lparr>source_system = ''qbo'', source_type = ''Invoice'', source_id = ''1'', source_version = ''1''\<rparr>\<rparr>],
      fi_customer_histories = [], fi_bills = [],
      fi_recurring = [\<lparr>ri_label = ''rent'', ri_category = RENT, ri_direction = OUTFLOW, ri_amount = Money 100 ''EUR'',
        ri_recurrence = \<lparr>frequency = WEEKLY, anchor = 739000, rec_interval = 0, second_day = None,
          rec_end = None, rec_count = None\<rparr>, ri_provenance = None\<rparr>],
      fi_payroll = [], fi_debt = [], fi_one_time = [], fi_pipeline = []\<rparr>"

lemma example_dates: "dates_valid dto_example"
  by (simp add: dates_valid_def dto_example_def recurrence_dates_def valid_date_def max_ordinal_def)

theorem dto_round_trip_witness:
  "from_dto (\<lambda>_. []) read_iso (to_dto dto_example) = Inr (without_provenance dto_example) \<and>
   without_provenance dto_example \<noteq> dto_example"
  using dto_round_trip [OF read_iso_reads example_dates]
  by (simp add: without_provenance_def dto_example_def)

text \<open>The contract accepts an \<open>interval\<close> of 0, on which the forecast does not return.\<close>

lemma payload_hangs_forecast:
  "\<exists>inputs. from_dto (\<lambda>_. []) read_iso (to_dto dto_example) = Inr inputs \<and>
     resolve inputs (default_config ''EUR'') BASE base_assumptions = None"
proof -
  let ?r = "\<lparr>frequency = WEEKLY, anchor = 739000, rec_interval = 0, second_day = None, rec_end = None, rec_count = None\<rparr>"
  have "occurrences ?r 739000 739090 = None"
    by (rule occurrences_stuck) (simp_all add: stop_date_def valid_date_def max_ordinal_def)
  then have "resolve (without_provenance dto_example) (default_config ''EUR'') BASE base_assumptions = None"
    by (simp add: resolve_def resolve_ar_def resolve_invoice_def resolve_pipeline_def resolve_bills_def resolve_recurring_def
        resolve_item_def Let_def add_note_def resolve_start_def without_provenance_def dto_example_def default_config_def base_assumptions_def date_add_def
        valid_date_def max_ordinal_def)
  then show ?thesis
    using from_to_dto [OF read_iso_reads example_dates] by blast
qed

end
