(* ===== verification/Recon.thy ===== *)
theory Recon
  imports Money Dates Json
begin

text \<open>
  The trust monitor (\<open>packages/recon-monitor/src/rgnr8_recon_monitor\<close>): the three cash figures of a
  tenant graded against tolerances (\<open>divergence.py\<close>), the fleet's report (\<open>report.py\<close>), the alert
  (\<open>alerting.py\<close>), and the figures an operator attaches to a client (\<open>recon.py\<close> of \<open>packages/ops\<close>).

  The lemmas say exactly when a divergence is in sync, minor or major, that the report loses no row
  and leads with the worst, and what the grading does not compare.
\<close>

section \<open>Grading\<close>

datatype trust = IN_SYNC | MINOR | MAJOR

fun trust_value :: "trust \<Rightarrow> string" where
  "trust_value IN_SYNC = ''in_sync''"
| "trust_value MINOR = ''minor''"
| "trust_value MAJOR = ''major''"

definition money_to_dict :: "money \<Rightarrow> json res" where
  "money_to_dict m =
     res_bind (money_str m) (\<lambda>s.
       Inr (JObj [(''minor_units'', JInt (minor_units m)), (''currency'', JStr (currency m)), (''display'', JStr s)]))"

text \<open>\<open>_require_same_currency\<close>\<close>

definition require_same_currency :: "money \<Rightarrow> money list \<Rightarrow> unit res" where
  "require_same_currency reference others =
     (if list_all (\<lambda>m. currency m = currency reference) others then Inr () else Inl CurrencyMismatch)"

record divergence =
  dv_tenant_id :: string
  dv_as_of :: date
  dv_ledger_cash :: money
  dv_bank_cash :: money
  dv_forecast_opening :: money
  dv_ledger_vs_bank :: money
  dv_bank_vs_forecast :: money
  dv_worst_gap :: money
  dv_severity :: trust
  dv_note :: string

text \<open>\<open>_pair_note\<close>\<close>

definition pair_note :: "string \<Rightarrow> string \<Rightarrow> money \<Rightarrow> string res" where
  "pair_note first second diff =
     (if is_zero diff then Inr (first @ '' and '' @ second @ '' agree'')
      else
        let (ahead, behind) = (if is_positive diff then (first, second) else (second, first))
        in res_bind (money_str (money_abs diff)) (\<lambda>s. Inr (ahead @ '' exceeds '' @ behind @ '' by '' @ s)))"

definition grade :: "int \<Rightarrow> money \<Rightarrow> money \<Rightarrow> trust" where
  "grade worst minor_tolerance major_tolerance =
     (if worst \<le> minor_units minor_tolerance then IN_SYNC
      else if worst \<le> minor_units major_tolerance then MINOR else MAJOR)"

definition check ::
  "string \<Rightarrow> date \<Rightarrow> money \<Rightarrow> money \<Rightarrow> money \<Rightarrow> money \<Rightarrow> money \<Rightarrow> divergence res" where
  "check tenant_id as_of ledger_cash bank_cash forecast_opening minor_tolerance major_tolerance =
     res_bind (require_same_currency ledger_cash [bank_cash, forecast_opening, minor_tolerance, major_tolerance]) (\<lambda>_.
     res_bind (money_sub ledger_cash bank_cash) (\<lambda>lb.
     res_bind (money_sub bank_cash forecast_opening) (\<lambda>bf.
       let use_bf = minor_units (money_abs lb) < minor_units (money_abs bf);
           worst_gap = (if use_bf then money_abs bf else money_abs lb)
       in res_bind (if use_bf then pair_note ''bank'' ''forecast opening'' bf else pair_note ''ledger'' ''bank'' lb) (\<lambda>worst_pair.
          let severity = grade (minor_units worst_gap) minor_tolerance major_tolerance
          in res_bind (money_str worst_gap) (\<lambda>gap.
             let note = (if severity = IN_SYNC
                  then ''ledger, bank, and forecast opening agree within tolerance (worst gap '' @ gap @ '')''
                  else trust_value severity @ '' divergence: '' @ worst_pair @ '' (worst gap '' @ gap @ '')'')
             in Inr \<lparr>dv_tenant_id = tenant_id, dv_as_of = as_of, dv_ledger_cash = ledger_cash,
                  dv_bank_cash = bank_cash, dv_forecast_opening = forecast_opening,
                  dv_ledger_vs_bank = lb, dv_bank_vs_forecast = bf, dv_worst_gap = worst_gap,
                  dv_severity = severity, dv_note = note\<rparr>)))))"

text \<open>\<open>Divergence.to_dict\<close> and the alert share the rendering of the amounts.\<close>

definition divergence_to_dict :: "divergence \<Rightarrow> json res" where
  "divergence_to_dict d =
     res_bind (money_to_dict (dv_ledger_cash d)) (\<lambda>l.
     res_bind (money_to_dict (dv_bank_cash d)) (\<lambda>b.
     res_bind (money_to_dict (dv_forecast_opening d)) (\<lambda>f.
     res_bind (money_to_dict (dv_ledger_vs_bank d)) (\<lambda>lb.
     res_bind (money_to_dict (dv_bank_vs_forecast d)) (\<lambda>bf.
     res_bind (money_to_dict (dv_worst_gap d)) (\<lambda>g.
     Inr (JObj [(''tenant_id'', JStr (dv_tenant_id d)), (''as_of'', JStr (isoformat (dv_as_of d))),
       (''ledger_cash'', l), (''bank_cash'', b), (''forecast_opening'', f), (''ledger_vs_bank'', lb),
       (''bank_vs_forecast'', bf), (''worst_gap'', g),
       (''severity'', JStr (trust_value (dv_severity d))), (''note'', JStr (dv_note d))])))))))"

section \<open>The fleet's report\<close>

fun SEVERITY_RANK :: "trust \<Rightarrow> int" where
  "SEVERITY_RANK MAJOR = 0"
| "SEVERITY_RANK MINOR = 1"
| "SEVERITY_RANK IN_SYNC = 2"

record trust_report =
  tr_as_of :: "date option"
  tr_rows :: "divergence list"
  tr_counts :: "trust \<Rightarrow> int"

definition worst_first :: "divergence \<Rightarrow> int \<times> int" where
  "worst_first d = (SEVERITY_RANK (dv_severity d), - minor_units (dv_worst_gap d))"

definition make_trust_report :: "divergence list \<Rightarrow> trust_report" where
  "make_trust_report rows =
     \<lparr>tr_as_of = (case rows of [] \<Rightarrow> None | d # ds \<Rightarrow> Some (foldl max (dv_as_of d) (map dv_as_of ds))),
      tr_rows = sort_key worst_first rows,
      tr_counts = fold (\<lambda>d c. c(dv_severity d := c (dv_severity d) + 1)) rows (\<lambda>_. 0)\<rparr>"

definition trust_report_to_dict :: "trust_report \<Rightarrow> json res" where
  "trust_report_to_dict r =
     res_bind (map_res divergence_to_dict (tr_rows r)) (\<lambda>rows.
       Inr (JObj [(''as_of'', (case tr_as_of r of Some d \<Rightarrow> JStr (isoformat d) | None \<Rightarrow> JNull)),
         (''counts'', JObj (map (\<lambda>s. (trust_value s, JInt (tr_counts r s))) [IN_SYNC, MINOR, MAJOR])),
         (''rows'', JList rows)]))"

section \<open>Alerts\<close>

definition divergence_alert :: "divergence \<Rightarrow> json option res" where
  "divergence_alert d =
     (if dv_severity d = IN_SYNC then Inr None
      else
        res_bind (money_to_dict (dv_ledger_cash d)) (\<lambda>l.
        res_bind (money_to_dict (dv_bank_cash d)) (\<lambda>b.
        res_bind (money_to_dict (dv_forecast_opening d)) (\<lambda>f.
        res_bind (money_to_dict (dv_ledger_vs_bank d)) (\<lambda>lb.
        res_bind (money_to_dict (dv_bank_vs_forecast d)) (\<lambda>bf.
        res_bind (money_to_dict (dv_worst_gap d)) (\<lambda>g.
        Inr (Some (JObj [(''severity'', JStr (trust_value (dv_severity d))), (''tenant'', JStr (dv_tenant_id d)),
          (''as_of'', JStr (isoformat (dv_as_of d))), (''message'', JStr (dv_note d)),
          (''amounts'', JObj [(''ledger_cash'', l), (''bank_cash'', b), (''forecast_opening'', f),
             (''ledger_vs_bank'', lb), (''bank_vs_forecast'', bf), (''worst_gap'', g)])])))))))))"

section \<open>What an operator attaches\<close>

definition DEFAULT_MINOR_TOLERANCE_MINOR :: int where
  "DEFAULT_MINOR_TOLERANCE_MINOR = 100"

definition DEFAULT_MAJOR_TOLERANCE_MINOR :: int where
  "DEFAULT_MAJOR_TOLERANCE_MINOR = 10000"

record tenant_recon =
  rc_ledger_cash :: money
  rc_bank_cash :: money
  rc_forecast_opening :: money
  rc_minor_tolerance :: money
  rc_major_tolerance :: money

definition recon_divergence :: "tenant_recon \<Rightarrow> string \<Rightarrow> date \<Rightarrow> divergence res" where
  "recon_divergence r tenant_id as_of =
     check tenant_id as_of (rc_ledger_cash r) (rc_bank_cash r) (rc_forecast_opening r)
       (rc_minor_tolerance r) (rc_major_tolerance r)"

definition make_recon :: "money \<Rightarrow> money \<Rightarrow> money \<Rightarrow> money option \<Rightarrow> money option \<Rightarrow> tenant_recon" where
  "make_recon ledger_cash bank_cash forecast_opening minor major =
     (let ccy = currency ledger_cash
      in \<lparr>rc_ledger_cash = ledger_cash, rc_bank_cash = bank_cash, rc_forecast_opening = forecast_opening,
          rc_minor_tolerance = (case minor of Some m \<Rightarrow> m | None \<Rightarrow> Money DEFAULT_MINOR_TOLERANCE_MINOR ccy),
          rc_major_tolerance = (case major of Some m \<Rightarrow> m | None \<Rightarrow> Money DEFAULT_MAJOR_TOLERANCE_MINOR ccy)\<rparr>)"

section \<open>What the grading promises\<close>

lemma money_str_ok: "is_ok (money_str m) \<longleftrightarrow> currency_scale (currency m) = Inr 2"
  by (auto simp: money_str_def to_decimal_string_def currency_scale_def Let_def)

lemma grade_exact:
  "grade w mi ma = IN_SYNC \<longleftrightarrow> w \<le> minor_units mi"
  "grade w mi ma = MINOR \<longleftrightarrow> minor_units mi < w \<and> w \<le> minor_units ma"
  "grade w mi ma = MAJOR \<longleftrightarrow> minor_units mi < w \<and> minor_units ma < w"
  by (auto simp: grade_def)

lemma check_Inr:
  assumes "check t a l b f mi ma = Inr d"
  shows "dv_severity d = grade (max \<bar>minor_units l - minor_units b\<bar> \<bar>minor_units b - minor_units f\<bar>) mi ma"
    and "dv_worst_gap d = Money (max \<bar>minor_units l - minor_units b\<bar> \<bar>minor_units b - minor_units f\<bar>) (currency l)"
    and "list_all (\<lambda>m. currency m = currency l) [b, f, mi, ma]"
    and "currency_scale (currency l) = Inr 2"
    and "dv_ledger_cash d = l" "dv_bank_cash d = b" "dv_forecast_opening d = f" "dv_tenant_id d = t" "dv_as_of d = a"
    and "dv_ledger_vs_bank d = Money (minor_units l - minor_units b) (currency l)"
    and "dv_bank_vs_forecast d = Money (minor_units b - minor_units f) (currency l)"
proof -
  from assms have c: "list_all (\<lambda>m. currency m = currency l) [b, f, mi, ma]"
    by (auto simp: check_def require_same_currency_def split: if_splits)
  then show "list_all (\<lambda>m. currency m = currency l) [b, f, mi, ma]" .
  with assms show "dv_severity d = grade (max \<bar>minor_units l - minor_units b\<bar> \<bar>minor_units b - minor_units f\<bar>) mi ma"
    "dv_worst_gap d = Money (max \<bar>minor_units l - minor_units b\<bar> \<bar>minor_units b - minor_units f\<bar>) (currency l)"
    "dv_ledger_cash d = l" "dv_bank_cash d = b" "dv_forecast_opening d = f" "dv_tenant_id d = t" "dv_as_of d = a"
    "dv_ledger_vs_bank d = Money (minor_units l - minor_units b) (currency l)"
    "dv_bank_vs_forecast d = Money (minor_units b - minor_units f) (currency l)"
    by (auto simp: check_def require_same_currency_def money_sub_def money_same_def money_abs_def Let_def max_def
        result_simps split: if_splits)
  from assms c show "currency_scale (currency l) = Inr 2"
    by (auto simp: check_def require_same_currency_def money_sub_def money_same_def money_abs_def Let_def
        result_simps money_str_def to_decimal_string_def dest: currency_scale_cases split: if_splits)
qed

lemma check_returns:
  assumes "list_all (\<lambda>m. currency m = currency l) [b, f, mi, ma]" and "currency_scale (currency l) = Inr 2"
  shows "is_ok (check t a l b f mi ma)"
proof -
  have "\<exists>s. money_str (Money n (currency l)) = Inr s" for n
    using money_str_ok [of "Money n (currency l)"] assms(2) by (cases "money_str (Money n (currency l))") simp_all
  then obtain s where s: "money_str (Money n (currency l)) = Inr (s n)" for n by metis
  then have p: "is_ok (pair_note x y (Money n (currency l)))" for x y n
    by (simp add: pair_note_def money_abs_def Let_def split: prod.splits)
  have p: "\<exists>u. pair_note x y (Money n (currency l)) = Inr u" for x y n
    using p [of x y n] by (cases "pair_note x y (Money n (currency l))") simp_all
  show ?thesis
    using assms(1) s
      p [of "''bank''" "''forecast opening''" "minor_units b - minor_units f"]
      p [of "''ledger''" "''bank''" "minor_units l - minor_units b"]
    by (auto simp: check_def require_same_currency_def money_sub_def money_same_def money_abs_def Let_def)
qed

lemma money_to_dict_ok: "currency_scale (currency m) = Inr 2 \<Longrightarrow> \<exists>j. money_to_dict m = Inr j"
  using money_str_ok [of m] by (cases "money_str m") (auto simp: money_to_dict_def)

lemma alert_iff:
  assumes "check t a l b f mi ma = Inr d"
  shows "divergence_alert d = Inr None \<longleftrightarrow> dv_severity d = IN_SYNC" and "is_ok (divergence_alert d)"
proof -
  have "\<exists>j. money_to_dict m = Inr j"
    if "m \<in> {dv_ledger_cash d, dv_bank_cash d, dv_forecast_opening d, dv_ledger_vs_bank d, dv_bank_vs_forecast d, dv_worst_gap d}" for m
    using check_Inr [OF assms] that by (intro money_to_dict_ok) auto
  then obtain j where j: "money_to_dict m = Inr (j m)"
    if "m \<in> {dv_ledger_cash d, dv_bank_cash d, dv_forecast_opening d, dv_ledger_vs_bank d, dv_bank_vs_forecast d, dv_worst_gap d}" for m
    by metis
  then show "divergence_alert d = Inr None \<longleftrightarrow> dv_severity d = IN_SYNC" "is_ok (divergence_alert d)"
    by (simp_all add: divergence_alert_def)
qed

lemma counts_fold:
  "fold (\<lambda>d c. c(dv_severity d := c (dv_severity d) + 1)) rows c s =
     c s + int (length (filter (\<lambda>d. dv_severity d = s) rows))"
  by (induction rows arbitrary: c) auto

lemma report_counts: "tr_counts (make_trust_report rows) s = int (length (filter (\<lambda>d. dv_severity d = s) rows))"
  by (simp add: make_trust_report_def counts_fold)

lemma worst_first_major:
  "worst_first x \<le> worst_first y \<Longrightarrow> dv_severity y = MAJOR \<Longrightarrow> dv_severity x = MAJOR \<and> minor_units (dv_worst_gap y) \<le> minor_units (dv_worst_gap x)"
  by (cases "dv_severity x") (auto simp: worst_first_def less_eq_prod_def)

lemma check_ok_iff:
  "is_ok (check t a l b f mi ma) \<longleftrightarrow>
     list_all (\<lambda>m. currency m = currency l) [b, f, mi, ma] \<and> currency_scale (currency l) = Inr 2"
proof (cases "check t a l b f mi ma")
  case (Inl e)
  then show ?thesis using check_returns [of l b f mi ma t a] by auto
next
  case (Inr d)
  then show ?thesis using check_Inr(3,4) [OF Inr] by simp
qed

definition in_tolerance :: "tenant_recon \<Rightarrow> bool" where
  "in_tolerance r \<longleftrightarrow>
     \<bar>minor_units (rc_ledger_cash r) - minor_units (rc_bank_cash r)\<bar> \<le> minor_units (rc_minor_tolerance r) \<and>
     \<bar>minor_units (rc_bank_cash r) - minor_units (rc_forecast_opening r)\<bar> \<le> minor_units (rc_minor_tolerance r)"

lemma worst_leads:
  assumes "e \<in> set ds" shows "worst_first (hd (sort_key worst_first ds)) \<le> worst_first e"
proof (cases "sort_key worst_first ds")
  case Nil
  then show ?thesis using assms by simp
next
  case (Cons x xs)
  have "sorted (map worst_first (sort_key worst_first ds))" by simp
  moreover have "e \<in> set (sort_key worst_first ds)" using assms by simp
  ultimately show ?thesis using Cons by auto
qed

text \<open>C27. When every client of a fleet has been graded, a client is in sync, and raises no alert, exactly
  when the ledger is within the minor tolerance of the bank and the bank of the forecast; the report
  has every client once and leads with a major divergence of the largest gap if there is one.\<close>

theorem trust_exact:
  assumes "map_res (\<lambda>(t, r). recon_divergence r t as_of) clients = Inr ds"
  shows "map dv_tenant_id ds = map fst clients \<and>
    list_all2 (\<lambda>(t, r) d. (dv_severity d = IN_SYNC \<longleftrightarrow> in_tolerance r) \<and>
      is_ok (divergence_alert d) \<and> (divergence_alert d = Inr None \<longleftrightarrow> in_tolerance r)) clients ds \<and>
    mset (tr_rows (make_trust_report ds)) = mset ds \<and>
    (\<forall>e\<in>set ds. dv_severity e = MAJOR \<longrightarrow>
       dv_severity (hd (tr_rows (make_trust_report ds))) = MAJOR \<and>
       minor_units (dv_worst_gap e) \<le> minor_units (dv_worst_gap (hd (tr_rows (make_trust_report ds)))))"
proof -
  have all: "list_all2 (\<lambda>(t, r) d. recon_divergence r t as_of = Inr d) clients ds"
    using assms by (simp add: map_res_Inr case_prod_unfold)
  have one: "dv_tenant_id d = t \<and> (dv_severity d = IN_SYNC \<longleftrightarrow> in_tolerance r) \<and>
      is_ok (divergence_alert d) \<and> (divergence_alert d = Inr None \<longleftrightarrow> in_tolerance r)"
    if "recon_divergence r t as_of = Inr d" for t r d
    using check_Inr [OF that [unfolded recon_divergence_def]] alert_iff [OF that [unfolded recon_divergence_def]]
    by (simp add: grade_exact in_tolerance_def)
  have "list_all2 (\<lambda>(t, r) d. dv_tenant_id d = t) clients ds"
    using all by (rule list_all2_mono) (use one in auto)
  then have ids: "map dv_tenant_id ds = map fst clients"
    by (induction rule: list_all2_induct) auto
  have "list_all2 (\<lambda>(t, r) d. (dv_severity d = IN_SYNC \<longleftrightarrow> in_tolerance r) \<and>
      is_ok (divergence_alert d) \<and> (divergence_alert d = Inr None \<longleftrightarrow> in_tolerance r)) clients ds"
    using all by (rule list_all2_mono) (use one in auto)
  with ids show ?thesis
    using worst_first_major [OF worst_leads] by (simp add: make_trust_report_def)
qed

definition recon_clients :: "(string \<times> tenant_recon) list" where
  "recon_clients =
     [(''a'', make_recon (Money 10200 ''USD'') (Money 10100 ''USD'') (Money 10000 ''USD'') None None),
      (''b'', make_recon (Money 900000 ''USD'') (Money 0 ''USD'') (Money 5 ''USD'') None None)]"

lemma recon_clients_graded: "is_ok (map_res (\<lambda>(t, r). recon_divergence r t 739000) recon_clients)"
proof -
  have "\<exists>d. recon_divergence r t 739000 = Inr d" if "(t, r) \<in> set recon_clients" for t r
    using that check_returns [of "rc_ledger_cash r" "rc_bank_cash r" "rc_forecast_opening r" "rc_minor_tolerance r" "rc_major_tolerance r" t 739000]
    by (cases "recon_divergence r t 739000")
       (auto simp: recon_clients_def make_recon_def recon_divergence_def Let_def currency_scale_def)
  from this [of "''a''" "snd (hd recon_clients)"] this [of "''b''" "snd (recon_clients ! 1)"] show ?thesis
    by (auto simp: recon_clients_def)
qed

theorem trust_exact_witness:
  "\<exists>x y. map_res (\<lambda>(t, r). recon_divergence r t 739000) recon_clients = Inr [x, y] \<and>
     dv_severity x = IN_SYNC \<and> dv_severity y \<noteq> IN_SYNC \<and> divergence_alert y \<noteq> Inr None"
proof -
  obtain ds where ds: "map_res (\<lambda>(t, r). recon_divergence r t 739000) recon_clients = Inr ds"
    using recon_clients_graded by (cases "map_res (\<lambda>(t, r). recon_divergence r t 739000) recon_clients") auto
  moreover have "in_tolerance (snd (hd recon_clients))" "\<not> in_tolerance (snd (recon_clients ! 1))"
    by (simp_all add: in_tolerance_def recon_clients_def make_recon_def Let_def DEFAULT_MINOR_TOLERANCE_MINOR_def)
  ultimately show ?thesis
    using trust_exact [OF ds] by (auto simp: recon_clients_def list_all2_Cons1)
qed

text \<open>The ledger and the forecast are not compared: they may differ by twice the tolerance and be in
  sync.\<close>

lemma in_sync_beyond_tolerance:
  "\<exists>d. check t a (Money 200 ''USD'') (Money 100 ''USD'') (Money 0 ''USD'') (Money 100 ''USD'') (Money 10000 ''USD'') = Inr d \<and>
     dv_severity d = IN_SYNC"
proof -
  have "is_ok (check t a (Money 200 ''USD'') (Money 100 ''USD'') (Money 0 ''USD'') (Money 100 ''USD'') (Money 10000 ''USD''))"
    by (rule check_returns) (simp_all add: currency_scale_def)
  then obtain d where "check t a (Money 200 ''USD'') (Money 100 ''USD'') (Money 0 ''USD'') (Money 100 ''USD'') (Money 10000 ''USD'') = Inr d"
    by (auto simp: is_ok_def split: sum.splits)
  with check_Inr(1) [OF this] show ?thesis by (simp add: grade_def)
qed

end
