(* ===== verification/Spec2Isabelle.thy ===== *)
theory Spec2Isabelle
  imports Backtest Signup Receivables Alerts Scenario Split_Books Outbox Jobs Web_App Forecast_Dto Recon
begin

text \<open>
  RGNR8 Fin OS is a cash-flow product for small businesses. This development models the Python
  packages under \<open>src/packages\<close>: what the ledger knows becomes a forecast, the forecast becomes
  briefings, alerts and what-if comparisons, a web application serves them to the members of a
  business, and background jobs deliver them. The ledger itself is a TypeScript service behind HTTP.

  \<^bold>\<open>Conventions.\<close> A dataclass is a record, an enum a datatype, a Python \<open>int\<close> an \<open>int\<close>, a \<open>str\<close> the
  list of its bytes, money an integer of minor units. A call that may raise returns
  \<open>py_error + 'a\<close>, and where it changes state the state is returned on both outcomes. A \<open>Protocol\<close>
  with several implementations is a record of operations, its contract is a locale, and the
  implementations of the code are the interpretations. Clock readings, random tokens, digests, the
  zone database, the DNS, HTTP clients and the JSON codec are arguments; nothing is assumed of them
  unless a property says so. Of SQL the model has the rows and the statements the code issues on
  them, each of them atomic.

  \<^bold>\<open>Forecast\<close> (\<open>packages/forecast/src/rgnr8_forecast\<close>).
  \<^item> \<open>Prelude\<close>, \<open>Json\<close>: exceptions, loops that stop at an exception, numerals, rounding, sorting,
    and the printer of \<open>json.dumps\<close>.
  \<^item> \<open>Money\<close>: \<open>money.py\<close> and \<open>format_money\<close>. Exact arithmetic, nearest rounding, print and parse.
  \<^item> \<open>Dates\<close>, \<open>Recurrence\<close>: \<open>datetime.date\<close>, \<open>dates.py\<close>. A recurrence yields exactly the
    occurrences in its window, and returns for every interval from 1 up.
  \<^item> \<open>Forecast_Model\<close>, \<open>Predict\<close>, \<open>Resolve\<close>, \<open>Projection\<close>, \<open>Forecast\<close>: \<open>models.py\<close>, \<open>enums.py\<close>,
    \<open>flow.py\<close>, \<open>predict.py\<close>, \<open>resolve.py\<close>, \<open>projection.py\<close>, \<open>result.py\<close>, \<open>scenarios.py\<close>,
    \<open>reproducibility.py\<close>. \<open>resolve\<close> turns inputs into dated flows, \<open>project\<close> walks them; the
    specification of the walk is \<open>end_of_day\<close>, the opening cash plus the flows up to a day, and the
    trough, the first breach and the recovery are shown to be those of that path.
  \<^item> \<open>Backtest\<close>: \<open>backtest.py\<close>, forecasts scored against what happened.
  \<^item> \<open>Py_Json\<close>, \<open>Forecast_Dto\<close>: what \<open>json.loads\<close> returns, and \<open>io.py\<close>, the contract by which inputs
    arrive: reading back what was written is the identity up to provenance.

  \<^bold>\<open>What is made of a forecast.\<close>
  \<^item> \<open>Alerts\<close>: \<open>packages/alerts\<close>, the rules and a dispatcher that is an edge detector on keys.
  \<^item> \<open>Scenario\<close>: \<open>packages/scenario\<close>, adjustments followed through to the path of the balance.
  \<^item> \<open>Receivables\<close>: \<open>packages/ar\<close>, aging, the chase list, reminders.
  \<^item> \<open>Briefing\<close>, \<open>Briefing_Html\<close>: \<open>packages/briefing\<close>, assembled, recomputed by its validator and
    rendered; no text of a briefing adds markup to its page.
  \<^item> \<open>Datetimes\<close>, \<open>Briefing_Schedule\<close>: schedules, subscriptions and the delivery runtime
    (\<open>packages/runtime\<close>). One briefing per fire time.
  \<^item> \<open>Categorize\<close>, \<open>Split_Books\<close>: \<open>packages/categorize\<close>, rules and learned categories, and the
    division of one account among several books.

  \<^bold>\<open>Billing\<close> (\<open>packages/billing\<close>). \<open>Billing_Model\<close> has plans, usage and invoices, \<open>Billing_Store\<close>
  the account stores, \<open>Billing_Provider\<close> the payment providers, \<open>Billing_Service\<close> the service over any
  store and provider that keep their contracts, \<open>Signup\<close> the checkout and the webhook that
  activates an account. An invoice is finalized at most once.

  \<^bold>\<open>Web application\<close> (\<open>packages/web/src/rgnr8_web\<close>).
  \<^item> \<open>Access\<close>, \<open>Directory_Sql\<close>: \<open>rbac.py\<close>, users, roles, the gate; the in-memory and the SQL
    directory agree.
  \<^item> \<open>Audit_Trail\<close>: \<open>audit.py\<close>. Deletions that count as evidence survive the retention sweep.
  \<^item> \<open>Single_Use\<close>, \<open>Invitations\<close>, \<open>Base64\<close>, \<open>Credentials\<close>, \<open>Credentials_Examples\<close>:
    \<open>invitations.py\<close> and \<open>credentials.py\<close>; tokens that are redeemed once, passwords.
  \<^item> \<open>Session_Tokens\<close>, \<open>Api_Keys\<close>: \<open>auth.py\<close> and \<open>apikeys.py\<close>.
  \<^item> \<open>Signin\<close>: the sign-up, sign-in and invitation endpoints of \<open>app.py\<close> over the stores above.
  \<^item> \<open>Routes\<close>, \<open>Web_App\<close>: the routing table of \<open>WebApp.handle\<close> and a request through it up to the
    handler. A handler runs only for a caller who proves a member, and one that changes state only by
    POST or DELETE and never for a viewer.
  \<^item> \<open>Secrets\<close>, \<open>Webhooks\<close>, \<open>Outbox\<close>: \<open>secrets_cipher.py\<close> of \<open>packages/qbo\<close>, \<open>webhooks_out.py\<close> and
    \<open>webhook_outbox.py\<close>: targets that are refused, deliveries at most once per worker, the
    outbox that drains.
  \<^bold>\<open>Operations\<close> (\<open>packages/ops\<close>). \<open>Jobs\<close>: the scheduler, its leases in memory and in SQL, and their
  mutual exclusion. \<open>Recon\<close>: the trust monitor (\<open>packages/recon-monitor\<close>, \<open>recon.py\<close>), which grades
  the three views of a client's cash.

  \<^bold>\<open>State machines.\<close> Where several operations act on one state, an inductive relation has a rule
  for every operation, its failures included, and a reachability relation over it carries the
  invariants: billing (\<open>billing_reachable\<close>), leases, invitations, tokens, the outbox.

  \<^bold>\<open>Bounds and fuel.\<close> Nothing is cut off by fuel. Loops that need not end are
  \<open>partial_function (option)\<close>, where \<open>None\<close> is a call that does not return, and what returns is shown
  to; the others are recursions with a measure. Numbers are unbounded, as in Python, and dates are
  kept to the years 1 to 9999 with the exceptions of \<open>datetime\<close> outside them.

  \<^bold>\<open>Where the model stands apart from Python.\<close> Text is ASCII where the code folds case, strips or
  tests digits. Two ratios that are floats in the code (days sales outstanding, the confidence of a
  learned category) are exact. A property that holds only under a documented behaviour of an
  argument has it as a hypothesis, and a witness with a concrete function.

  \<^bold>\<open>Not modelled.\<close> The HTML of the screens and the shell of the web application, which take no
  decision; the clients of QuickBooks, Stripe, Plaid, Gusto and the ledger service, whose effect is
  in the other system; the report renderers (PDF, XLSX); the copilot, whose course is a language
  model's; the MCP server and the operator application, which adapt and display what is modelled;
  WSGI, sockets, configuration, DDL and deployment. The OAuth connection to QuickBooks, the HTTP
  middleware, RS256 keys and product analytics have logic of their own and are not reached. Of \<open>app.py\<close> the handlers behind the routing
  table are not modelled, except those in \<open>Signin\<close> and \<open>Outbox\<close> and the home page's access check:
  most of them are a call to the ledger service followed by a page.
\<close>

end
